(* ===== verification/Prelude.thy ===== *)
theory Prelude
  imports Complex_Main "HOL-Library.Word" "HOL-Library.AList" "HOL-Library.Sublist"
begin

text \<open>
  Shared vocabulary of the development: identifiers and times, Python values as they arrive
  from JSON, the results of code that may raise, Python's string functions on ASCII strings,
  insertion-ordered dictionaries, and the generic lemmas the components share.

  Conventions. A UUID is its 128-bit integer. A datetime is an integer number of microseconds
  (aware datetimes are compared on the UTC axis). A finite float is the rational it denotes:
  Python compares numbers exactly, so comparisons are faithful, and rounding of arithmetic
  is not modelled. A raise is the left injection of a sum type. Dictionaries are association
  lists in insertion order, updated with \<open>AList.update\<close>, which keeps the position of a key
  that is present and appends one that is not, as \<open>d[k] = v\<close> does.
\<close>

named_theorems model_simps \<open>defining equations of small operations, for unfolding\<close>
named_theorems table_simps \<open>constant tables of the program\<close>

type_synonym uuid = "128 word"
type_synonym datetime = int

section \<open>Results of code that may raise\<close>

fun is_ok :: "'e + 'a \<Rightarrow> bool" where
  "is_ok (Inl _) = False"
| "is_ok (Inr _) = True"

fun rbind :: "'e + 'a \<Rightarrow> ('a \<Rightarrow> 'e + 'b) \<Rightarrow> 'e + 'b" where
  "rbind (Inl e) f = Inl e"
| "rbind (Inr x) f = f x"

lemma rbind_eq_Inr [simp]: "rbind m f = Inr y \<longleftrightarrow> (\<exists>x. m = Inr x \<and> f x = Inr y)"
  by (cases m) auto

lemma rbind_eq_Inl: "rbind m f = Inl e \<longleftrightarrow> m = Inl e \<or> (\<exists>x. m = Inr x \<and> f x = Inl e)"
  by (cases m) auto

lemma is_ok_iff: "is_ok m \<longleftrightarrow> (\<exists>x. m = Inr x)"
  by (cases m) auto

lemma bex_set_map: "(\<exists>y \<in> set (map f xs). P y) \<longleftrightarrow> (\<exists>x \<in> set xs. P (f x))"
  by simp

text \<open>A loop \<open>for x in xs: f(x)\<close> whose body may raise and returns nothing.\<close>

fun for_each :: "('a \<Rightarrow> 'e + unit) \<Rightarrow> 'a list \<Rightarrow> 'e + unit" where
  "for_each f [] = Inr ()"
| "for_each f (x # xs) = rbind (f x) (\<lambda>_. for_each f xs)"

lemma for_each_ok_iff: "for_each f xs = Inr () \<longleftrightarrow> (\<forall>x \<in> set xs. f x = Inr ())"
  by (induction xs) auto

lemma for_each_Inl: "for_each f xs = Inl e \<Longrightarrow> \<exists>x \<in> set xs. f x = Inl e"
  by (induction xs) (auto simp: rbind_eq_Inl)

text \<open>A comprehension whose element expression may raise.\<close>

fun traverse :: "('a \<Rightarrow> 'e + 'b) \<Rightarrow> 'a list \<Rightarrow> 'e + 'b list" where
  "traverse f [] = Inr []"
| "traverse f (x # xs) = rbind (f x) (\<lambda>y. rbind (traverse f xs) (\<lambda>ys. Inr (y # ys)))"

lemma traverse_Inr: "traverse f xs = Inr ys \<longleftrightarrow> list_all2 (\<lambda>x y. f x = Inr y) xs ys"
proof (induction xs arbitrary: ys)
  case Nil
  then show ?case by auto
next
  case (Cons x xs)
  then show ?case by (cases ys) auto
qed

lemma traverse_total: "(\<And>x. x \<in> set xs \<Longrightarrow> is_ok (f x)) \<Longrightarrow> is_ok (traverse f xs)"
  by (induction xs) (auto simp: is_ok_iff)

section \<open>Python values\<close>

datatype pyval =
    PNone
  | PBool bool
  | PInt int
  | PFloat rat
  | PStr string
  | PList "pyval list"
  | PDict "(string \<times> pyval) list"

fun py_num :: "pyval \<Rightarrow> rat option" where
  "py_num (PBool b) = Some (if b then 1 else 0)"
| "py_num (PInt i) = Some (of_int i)"
| "py_num (PFloat r) = Some r"
| "py_num _ = None"

text \<open>\<open>==\<close>: numbers by value (a bool is a number), lists by position, dicts by key.\<close>

fun py_eq :: "pyval \<Rightarrow> pyval \<Rightarrow> bool"
  and py_eq_list :: "pyval list \<Rightarrow> pyval list \<Rightarrow> bool"
  and py_eq_items :: "(string \<times> pyval) list \<Rightarrow> (string \<times> pyval) list \<Rightarrow> bool" where
  "py_eq PNone w = (w = PNone)"
| "py_eq (PBool b) w = (py_num w = Some (if b then 1 else 0))"
| "py_eq (PInt i) w = (py_num w = Some (of_int i))"
| "py_eq (PFloat r) w = (py_num w = Some r)"
| "py_eq (PStr s) w = (w = PStr s)"
| "py_eq (PList xs) w = (case w of PList ys \<Rightarrow> py_eq_list xs ys | _ \<Rightarrow> False)"
| "py_eq (PDict xs) w =
     (case w of PDict ys \<Rightarrow> length xs = length ys \<and> py_eq_items xs ys | _ \<Rightarrow> False)"
| "py_eq_list [] ys = (ys = [])"
| "py_eq_list (x # xs) ys =
     (case ys of [] \<Rightarrow> False | y # ys' \<Rightarrow> py_eq x y \<and> py_eq_list xs ys')"
| "py_eq_items [] ys = True"
| "py_eq_items (x # xs) ys =
     ((case map_of ys (fst x) of None \<Rightarrow> False | Some w \<Rightarrow> py_eq (snd x) w) \<and> py_eq_items xs ys)"

text \<open>\<open>v in xs\<close> for a list.\<close>

definition py_in :: "pyval \<Rightarrow> pyval list \<Rightarrow> bool" where
  "py_in v xs \<longleftrightarrow> list_ex (py_eq v) xs"

text \<open>\<open>bool(v)\<close>.\<close>

fun py_truthy :: "pyval \<Rightarrow> bool" where
  "py_truthy PNone = False"
| "py_truthy (PBool b) = b"
| "py_truthy (PInt i) = (i \<noteq> 0)"
| "py_truthy (PFloat r) = (r \<noteq> 0)"
| "py_truthy (PStr s) = (s \<noteq> [])"
| "py_truthy (PList xs) = (xs \<noteq> [])"
| "py_truthy (PDict d) = (d \<noteq> [])"

lemma py_eq_str [simp]: "py_eq v (PStr s) \<longleftrightarrow> v = PStr s"
  by (cases v) (auto)

text \<open>The dictionary \<open>get\<close> with default None.\<close>

definition get_none :: "(string \<times> pyval) list \<Rightarrow> string \<Rightarrow> pyval" where
  "get_none d k = (case map_of d k of None \<Rightarrow> PNone | Some v \<Rightarrow> v)"

section \<open>Python strings (ASCII)\<close>

definition is_digit :: "char \<Rightarrow> bool" where
  "is_digit c \<longleftrightarrow> of_char c \<ge> (48 :: nat) \<and> of_char c \<le> (57 :: nat)"

definition digit_val :: "char \<Rightarrow> nat" where
  "digit_val c = of_char c - 48"

text \<open>The ASCII characters \<open>str.isspace\<close> accepts.\<close>

definition is_space :: "char \<Rightarrow> bool" where
  "is_space c \<longleftrightarrow>
     (let n = (of_char c :: nat) in (9 \<le> n \<and> n \<le> 13) \<or> (28 \<le> n \<and> n \<le> 32))"

text \<open>\<open>s.isdigit()\<close>.\<close>

definition isdigit :: "string \<Rightarrow> bool" where
  "isdigit s \<longleftrightarrow> s \<noteq> [] \<and> list_all is_digit s"

definition digits_val :: "string \<Rightarrow> nat" where
  "digits_val s = foldl (\<lambda>n c. 10 * n + digit_val c) 0 s"

text \<open>\<open>s.lstrip()\<close>, \<open>s.strip()\<close>.\<close>

definition lstrip :: "string \<Rightarrow> string" where
  "lstrip s = dropWhile is_space s"

definition strip :: "string \<Rightarrow> string" where
  "strip s = rev (lstrip (rev (lstrip s)))"

text \<open>\<open>int(s)\<close>: surrounding blanks, a sign, digits with single underscores between them.\<close>

fun int_body :: "bool \<Rightarrow> string \<Rightarrow> bool" where
  "int_body after_digit [] = after_digit"
| "int_body after_digit (c # cs) =
     (if is_digit c then int_body True cs
      else c = CHR ''_'' \<and> after_digit \<and> cs \<noteq> [] \<and> int_body False cs)"

definition int_of_body :: "string \<Rightarrow> int option" where
  "int_of_body s =
     (if int_body False s then Some (int (digits_val (filter is_digit s))) else None)"

definition py_int :: "string \<Rightarrow> int option" where
  "py_int s =
     (case strip s of
        [] \<Rightarrow> None
      | c # cs \<Rightarrow>
          if c = CHR ''-'' then map_option uminus (int_of_body cs)
          else if c = CHR ''+'' then int_of_body cs
          else int_of_body (c # cs))"

text \<open>\<open>s.split(c)\<close>: never the empty list.\<close>

fun split_on :: "char \<Rightarrow> string \<Rightarrow> string list" where
  "split_on c [] = [[]]"
| "split_on c (x # xs) =
     (if x = c then [] # split_on c xs
      else case split_on c xs of [] \<Rightarrow> [[x]] | y # ys \<Rightarrow> (x # y) # ys)"

text \<open>\<open>s.split()\<close>: maximal runs of non-blank characters.\<close>

fun split_ws_from :: "string \<Rightarrow> string \<Rightarrow> string list" where
  "split_ws_from acc [] = (if acc = [] then [] else [rev acc])"
| "split_ws_from acc (c # cs) =
     (if is_space c then (if acc = [] then [] else [rev acc]) @ split_ws_from [] cs
      else split_ws_from (c # acc) cs)"

definition split_ws :: "string \<Rightarrow> string list" where
  "split_ws s = split_ws_from [] s"

text \<open>\<open>s.rsplit(c, 1)\<close> of a string that contains \<open>c\<close>: what is before and after the last one.\<close>

fun rsplit1 :: "char \<Rightarrow> string \<Rightarrow> (string \<times> string) option" where
  "rsplit1 c [] = None"
| "rsplit1 c (x # xs) =
     (case rsplit1 c xs of
        Some (a, b) \<Rightarrow> Some (x # a, b)
      | None \<Rightarrow> if x = c then Some ([], xs) else None)"

definition starts_with :: "string \<Rightarrow> string \<Rightarrow> bool" where
  "starts_with s p \<longleftrightarrow> take (length p) s = p"

definition ends_with :: "string \<Rightarrow> string \<Rightarrow> bool" where
  "ends_with s p \<longleftrightarrow> starts_with (rev s) (rev p)"

text \<open>\<open>p in s\<close>.\<close>

fun contains_str :: "string \<Rightarrow> string \<Rightarrow> bool" where
  "contains_str s p = (starts_with s p \<or> (case s of [] \<Rightarrow> False | _ # t \<Rightarrow> contains_str t p))"

text \<open>\<open>s.lstrip(c)\<close>, for one character.\<close>

definition lstrip_char :: "char \<Rightarrow> string \<Rightarrow> string" where
  "lstrip_char c s = dropWhile (\<lambda>x. x = c) s"

definition digit_char :: "nat \<Rightarrow> char" where
  "digit_char n = char_of (48 + n)"

text \<open>\<open>str(n)\<close> of an integer.\<close>

fun nat_str :: "nat \<Rightarrow> string" where
  "nat_str n = (if n < 10 then [digit_char n] else nat_str (n div 10) @ [digit_char (n mod 10)])"

declare nat_str.simps [simp del]

definition int_str :: "int \<Rightarrow> string" where
  "int_str i = (if i < 0 then CHR ''-'' # nat_str (nat (- i)) else nat_str (nat i))"

text \<open>
  \<open>str(v)\<close>; the text of a float, a list or a dict is a parameter, \<open>repr\<close>. \<open>int(v)\<close>, None where it raises.
\<close>

fun py_str :: "(pyval \<Rightarrow> string) \<Rightarrow> pyval \<Rightarrow> string" where
  "py_str repr (PStr s) = s"
| "py_str repr (PInt i) = int_str i"
| "py_str repr (PBool b) = (if b then ''True'' else ''False'')"
| "py_str repr PNone = ''None''"
| "py_str repr v = repr v"

fun py_int_of :: "pyval \<Rightarrow> int option" where
  "py_int_of (PInt i) = Some i"
| "py_int_of (PBool b) = Some (if b then 1 else 0)"
| "py_int_of (PFloat r) = Some (if r < 0 then \<lceil>r\<rceil> else \<lfloor>r\<rfloor>)"
| "py_int_of (PStr s) = py_int s"
| "py_int_of _ = None"

fun join :: "string \<Rightarrow> string list \<Rightarrow> string" where
  "join sep [] = []"
| "join sep [x] = x"
| "join sep (x # y # ys) = x @ sep @ join sep (y # ys)"

subsection \<open>Facts about the string functions\<close>

lemma split_on_nonempty [simp]: "split_on c s \<noteq> []"
  by (cases s) (auto split: list.splits)

lemma join_split_on: "join [c] (split_on c s) = s"
proof (induction s)
  case Nil
  then show ?case by simp
next
  case (Cons x xs)
  obtain y ys where ys: "split_on c xs = y # ys"
    by (cases "split_on c xs") auto
  with Cons.IH show ?case
    by (cases ys) auto
qed

lemma set_split_on: "p \<in> set (split_on c s) \<Longrightarrow> set p \<subseteq> set s - {c}"
proof (induction s arbitrary: p)
  case Nil
  then show ?case by simp
next
  case (Cons x xs)
  obtain y ys where ys: "split_on c xs = y # ys"
    by (cases "split_on c xs") auto
  then have "set y \<subseteq> set xs - {c}" and "\<forall>q \<in> set ys. set q \<subseteq> set xs - {c}"
    using Cons.IH by auto
  with Cons.prems ys show ?case
    by (auto split: if_splits)
qed

lemma split_on_absent: "c \<notin> set s \<Longrightarrow> split_on c s = [s]"
  by (induction s) auto

lemma is_digit_char [simp]: "n < 10 \<Longrightarrow> is_digit (digit_char n)"
  by (simp add: is_digit_def digit_char_def of_char_of take_bit_eq_mod)

lemma digit_val_char [simp]: "n < 10 \<Longrightarrow> digit_val (digit_char n) = n"
  by (simp add: digit_val_def digit_char_def of_char_of take_bit_eq_mod)

lemma digits_val_snoc [simp]: "digits_val (s @ [c]) = 10 * digits_val s + digit_val c"
  by (simp add: digits_val_def)

lemma nat_str_nonempty [simp]: "nat_str n \<noteq> []"
  by (subst nat_str.simps) simp

lemma nat_str_digits: "list_all is_digit (nat_str n)"
proof (induction n rule: nat_str.induct)
  case (1 n)
  then show ?case by (cases "n < 10") (auto simp: nat_str.simps [of n])
qed

lemma isdigit_nat_str [simp]: "isdigit (nat_str n)"
  by (simp add: isdigit_def nat_str_digits)

lemma digits_val_nat_str [simp]: "digits_val (nat_str n) = n"
proof (induction n rule: nat_str.induct)
  case (1 n)
  then show ?case by (cases "n < 10") (auto simp: nat_str.simps [of n] digits_val_def)
qed

lemma nat_str_inj [simp]: "nat_str m = nat_str n \<longleftrightarrow> m = n"
  by (metis digits_val_nat_str)

lemma is_digit_not_space: "is_digit c \<Longrightarrow> \<not> is_space c"
  by (simp add: is_digit_def is_space_def Let_def)

lemma is_digit_not_punct:
  "is_digit c \<Longrightarrow> c \<noteq> CHR ''-'' \<and> c \<noteq> CHR ''+'' \<and> c \<noteq> CHR ''_'' \<and> c \<noteq> CHR ''/'' \<and> c \<noteq> CHR '','' \<and> c \<noteq> CHR '':''"
  by (auto simp: is_digit_def)

lemma int_body_digits: "list_all is_digit s \<Longrightarrow> s \<noteq> [] \<or> b \<Longrightarrow> int_body b s"
  by (induction s arbitrary: b) auto

lemma lstrip_nonspace: "\<forall>c \<in> set s. \<not> is_space c \<Longrightarrow> lstrip s = s"
  by (cases s) (auto simp: lstrip_def)

lemma strip_nonspace: "\<forall>c \<in> set s. \<not> is_space c \<Longrightarrow> strip s = s"
  by (simp add: strip_def lstrip_nonspace)

text \<open>\<open>int(s)\<close> never raises once \<open>s.isdigit()\<close> holds, and reads the digits.\<close>

lemma py_int_isdigit: "isdigit s \<Longrightarrow> py_int s = Some (int (digits_val s))"
proof -
  assume s: "isdigit s"
  then have digits: "list_all is_digit s" and "s \<noteq> []" by (auto simp: isdigit_def)
  then obtain c cs where cs: "s = c # cs" and c: "is_digit c" by (cases s) auto
  from digits have "strip s = s"
    by (intro strip_nonspace) (auto simp: list_all_iff is_digit_not_space)
  moreover from digits have "filter is_digit s = s" by (simp add: list_all_iff)
  ultimately show ?thesis
    using cs is_digit_not_punct [OF c] int_body_digits [OF digits, of False]
    by (simp add: py_int_def int_of_body_def)
qed

lemma starts_with_iff: "starts_with s p \<longleftrightarrow> (\<exists>t. s = p @ t)"
  by (metis append_eq_conv_conj append_take_drop_id starts_with_def)

lemma ends_with_iff: "ends_with s p \<longleftrightarrow> (\<exists>t. s = t @ p)"
  by (metis ends_with_def rev_append rev_rev_ident starts_with_iff)

lemma contains_str_iff: "contains_str s p \<longleftrightarrow> (\<exists>a b. s = a @ p @ b)"
proof (induction s)
  case Nil
  show ?case by (subst contains_str.simps) (simp add: starts_with_iff)
next
  case (Cons x xs)
  have "(\<exists>a b. x # xs = a @ p @ b) \<longleftrightarrow> (\<exists>b. x # xs = p @ b) \<or> (\<exists>a b. xs = a @ p @ b)"
    (is "?L \<longleftrightarrow> ?R")
  proof
    assume ?L
    then obtain a b where "x # xs = a @ p @ b" by blast
    then show ?R by (cases a) auto
  next
    assume ?R
    then show ?L by (metis append_Cons append_Nil)
  qed
  with Cons.IH show ?case
    by (subst contains_str.simps) (simp add: starts_with_iff)
qed

declare contains_str.simps [simp del]

lemma rsplit1_Some: "rsplit1 c s = Some (a, b) \<longleftrightarrow> s = a @ c # b \<and> c \<notin> set b"
proof (induction s arbitrary: a)
  case Nil
  then show ?case by simp
next
  case (Cons x xs)
  have none: "rsplit1 c xs = None \<longleftrightarrow> c \<notin> set xs"
    by (induction xs) (auto split: option.splits)
  show ?case
  proof (cases "rsplit1 c xs")
    case None
    with none show ?thesis by (cases a) auto
  next
    case (Some ab)
    with none have "c \<in> set xs" by simp
    with Some Cons.IH show ?thesis by (cases a) (auto split: prod.splits)
  qed
qed

lemma rsplit1_None: "rsplit1 c s = None \<longleftrightarrow> c \<notin> set s"
  by (induction s) (auto split: option.splits)

section \<open>Tables\<close>

text \<open>
  A table is the list of its rows in the order of insertion. \<open>update_where\<close> is an UPDATE
  statement, or the assignments to the attributes of a loaded row.
\<close>

definition update_where :: "('r \<Rightarrow> bool) \<Rightarrow> ('r \<Rightarrow> 'r) \<Rightarrow> 'r list \<Rightarrow> 'r list" where
  "update_where p f rows = map (\<lambda>r. if p r then f r else r) rows"

lemma set_update_where: "set (update_where p f rows) = (\<lambda>r. if p r then f r else r) ` set rows"
  by (simp add: update_where_def)

lemma map_update_where:
  "(\<And>r. r \<in> set rows \<Longrightarrow> p r \<Longrightarrow> g (f r) = g r) \<Longrightarrow> map g (update_where p f rows) = map g rows"
  by (simp add: update_where_def)

lemma list_all_update_where:
  "list_all P rows \<Longrightarrow> (\<And>r. r \<in> set rows \<Longrightarrow> p r \<Longrightarrow> P r \<Longrightarrow> P (f r)) \<Longrightarrow> list_all P (update_where p f rows)"
  by (auto simp: update_where_def list_all_iff)

lemma filter_update_where:
  "(\<And>r. r \<in> set rows \<Longrightarrow> p r \<Longrightarrow> \<not> q r \<and> \<not> q (f r)) \<Longrightarrow> filter q (update_where p f rows) = filter q rows"
  by (induction rows) (auto simp: update_where_def)

lemma update_where_none: "(\<And>r. r \<in> set rows \<Longrightarrow> \<not> p r) \<Longrightarrow> update_where p f rows = rows"
  by (simp add: update_where_def map_idI)

lemma update_where_simps [simp]:
  "update_where p f [] = []"
  "update_where p f (r # rows) = (if p r then f r else r) # update_where p f rows"
  by (simp_all add: update_where_def)

text \<open>A row is determined by its key.\<close>

lemma distinct_map_eq: "distinct (map key rows) \<Longrightarrow> r \<in> set rows \<Longrightarrow> s \<in> set rows \<Longrightarrow> key r = key s \<Longrightarrow> r = s"
  by (metis distinct_map inj_onD)

lemma distinct_map_update_one:
  assumes "distinct (map f xs)" and "distinct (map key xs)"
    and "\<forall>x \<in> set xs. \<forall>y \<in> set xs. key x \<noteq> k \<longrightarrow> key y = k \<longrightarrow> f x \<noteq> f (g y)"
  shows "distinct (map f (update_where (\<lambda>x. key x = k) g xs))"
  using assms
proof (induction xs)
  case (Cons x xs)
  then have IH: "distinct (map f (update_where (\<lambda>x. key x = k) g xs))" by auto
  have "f (if key x = k then g x else x) \<noteq> f (if key y = k then g y else y)" if "y \<in> set xs" for y
  proof -
    have ne: "key x \<noteq> key y" "f x \<noteq> f y" using Cons.prems(1,2) that by auto
    have "key x = k \<Longrightarrow> key y \<noteq> k \<Longrightarrow> f y \<noteq> f (g x)" "key x \<noteq> k \<Longrightarrow> key y = k \<Longrightarrow> f x \<noteq> f (g y)"
      using Cons.prems(3) that by auto
    with ne show ?thesis by (cases "key x = k"; cases "key y = k") auto
  qed
  then show ?case using IH by (auto simp: update_where_def image_iff)
qed (simp add: update_where_def)

lemma find_Some_iff_mem: "find p rows = Some r \<Longrightarrow> r \<in> set rows \<and> p r"
  by (metis find_Some_iff nth_mem)

lemma find_unique:
  "distinct (map key rows) \<Longrightarrow> find (\<lambda>r. q r \<and> key r = k) rows = Some r \<longleftrightarrow> r \<in> set rows \<and> q r \<and> key r = k"
proof (induction rows)
  case (Cons x xs)
  then show ?case by auto
qed simp

lemma find_update_where:
  "(\<And>r. p r \<Longrightarrow> q (f r) = q r) \<Longrightarrow> find q (update_where p f rows) = map_option (\<lambda>r. if p r then f r else r) (find q rows)"
  by (induction rows) auto

lemma find_append: "find q (xs @ ys) = (case find q xs of None \<Rightarrow> find q ys | Some x \<Rightarrow> Some x)"
  by (induction xs) auto

lemma list_all2_mem: "list_all2 P xs ys \<Longrightarrow> y \<in> set ys \<Longrightarrow> \<exists>x \<in> set xs. P x y"
  by (induction rule: list_all2_induct) auto

lemma filter_key: "distinct (map key rows) \<Longrightarrow> r \<in> set rows \<Longrightarrow> filter (\<lambda>x. key x = key r) rows = [r]"
proof (induction rows)
  case (Cons x xs)
  show ?case
  proof (cases "x = r")
    case True
    with Cons.prems(1) have "filter (\<lambda>y. key y = key r) xs = []" by (auto simp: filter_empty_conv image_iff)
    with True show ?thesis by simp
  next
    case False
    with Cons.prems have "r \<in> set xs" "key x \<noteq> key r" by auto
    with Cons show ?thesis by simp
  qed
qed simp

section \<open>Case of ASCII letters\<close>

definition lower_char :: "char \<Rightarrow> char" where
  "lower_char c = (let n = (of_char c :: nat) in if 65 \<le> n \<and> n \<le> 90 then char_of (n + 32) else c)"

definition upper_char :: "char \<Rightarrow> char" where
  "upper_char c = (let n = (of_char c :: nat) in if 97 \<le> n \<and> n \<le> 122 then char_of (n - 32) else c)"

definition str_lower :: "string \<Rightarrow> string" where "str_lower s = map lower_char s"

definition str_upper :: "string \<Rightarrow> string" where "str_upper s = map upper_char s"

section \<open>Runs of operations and their invariants\<close>

text \<open>A method that may raise, run for its effect: a raise leaves the state as it was.\<close>

definition attempt :: "('o \<Rightarrow> 's \<Rightarrow> 'e + 's) \<Rightarrow> 'o \<Rightarrow> 's \<Rightarrow> 's" where
  "attempt step x s = (case step x s of Inl _ \<Rightarrow> s | Inr s' \<Rightarrow> s')"

text \<open>
  The interface of a stateful component: its operations as one step function and the
  invariant they keep. Its lemmas lift the invariant to every sequence of operations.
\<close>

locale component =
  fixes step :: "'o \<Rightarrow> 's \<Rightarrow> 's"
    and inv :: "'s \<Rightarrow> bool"
  assumes step_inv: "inv s \<Longrightarrow> inv (step x s)"
begin

lemma run_inv: "inv s \<Longrightarrow> inv (fold step xs s)"
  by (induction xs arbitrary: s) (auto intro: step_inv)

end

text \<open>A component whose states are related to those they come from.\<close>

locale evolving_component = component +
  fixes evolves :: "'s \<Rightarrow> 's \<Rightarrow> bool"
  assumes evolves_refl: "evolves s s"
    and evolves_trans: "evolves s t \<Longrightarrow> evolves t u \<Longrightarrow> evolves s u"
    and step_evolves: "inv s \<Longrightarrow> evolves s (step x s)"
begin

lemma run_evolves: "inv s \<Longrightarrow> evolves s (fold step xs s)"
proof (induction xs arbitrary: s)
  case (Cons x xs)
  from Cons.prems have "evolves s (step x s)" and "inv (step x s)" by (auto intro: step_inv step_evolves)
  with Cons.IH show ?case by (auto intro: evolves_trans)
qed (simp add: evolves_refl)

end

text \<open>A component with a quantity that no operation lets shrink.\<close>

locale monotone_component = component +
  fixes measure_of :: "'s \<Rightarrow> 'q :: preorder"
  assumes step_mono: "inv s \<Longrightarrow> measure_of s \<le> measure_of (step x s)"
begin

sublocale evolving_component step inv "\<lambda>s t. measure_of s \<le> measure_of t"
  by unfold_locales (auto intro: step_mono order_trans)

lemmas run_mono = run_evolves

end

end
