(* ===== verification/Lifecycle.thy ===== *)
theory Lifecycle
  imports Prelude
begin

text \<open>
  The pure lifecycle machines of \<^verbatim>\<open>xiosync/domain/lifecycle.py\<close>: the transition
  tables, the legality predicate, the fail-closed \<open>assert_transition\<close> and the actor phases.
  A table is an association list from a state to the states it may move to. The locale
  \<open>closed_machine\<close> states what a table must satisfy for a state of the vocabulary to stay in
  it, \<open>ranked_machine\<close> adds a progress measure; both are interpreted on the program's five
  tables.
\<close>

section \<open>State machines\<close>

datatype transition_error = IllegalTransitionError string string string

record state_machine =
  sm_name :: string
  transitions :: "(string \<times> string list) list"

definition sm_states :: "state_machine \<Rightarrow> string set" where
  "sm_states m = fst ` set (transitions m)"

definition is_known_state :: "state_machine \<Rightarrow> string \<Rightarrow> bool" where
  "is_known_state m s \<longleftrightarrow> s \<in> set (map fst (transitions m))"

definition allowed_from :: "state_machine \<Rightarrow> string \<Rightarrow> string list" where
  "allowed_from m s = (case map_of (transitions m) s of None \<Rightarrow> [] | Some ts \<Rightarrow> ts)"

definition is_valid_transition :: "state_machine \<Rightarrow> string \<Rightarrow> string \<Rightarrow> bool" where
  "is_valid_transition m s t \<longleftrightarrow> t \<in> set (allowed_from m s)"

definition assert_transition :: "state_machine \<Rightarrow> string \<Rightarrow> string \<Rightarrow> transition_error + unit" where
  "assert_transition m s t =
     (if \<not> is_valid_transition m s t then Inl (IllegalTransitionError (sm_name m) s t) else Inr ())"

text \<open>
  A service that moves an entity through a list of requested states and stops at the first
  refusal: each move is guarded by \<open>assert_transition\<close>.
\<close>

fun walk :: "state_machine \<Rightarrow> string \<Rightarrow> string list \<Rightarrow> transition_error + string" where
  "walk m s [] = Inr s"
| "walk m s (t # ts) = rbind (assert_transition m s t) (\<lambda>_. walk m t ts)"

section \<open>The program's tables\<close>

definition ACTOR_LIFECYCLE :: state_machine where
  "ACTOR_LIFECYCLE = \<lparr> sm_name = ''actor'', transitions =
     [(''proposed'', [''designing'']),
      (''designing'', [''implementing'']),
      (''implementing'', [''validating'']),
      (''validating'', [''initializing'']),
      (''initializing'', [''active'']),
      (''active'', [''updating'', ''suspended'', ''migrating'', ''terminating'']),
      (''updating'', [''active'']),
      (''suspended'', [''active'']),
      (''migrating'', [''active'']),
      (''terminating'', [''terminated'']),
      (''terminated'', [''archived'']),
      (''archived'', [])] \<rparr>"

definition STATE_PHASES :: "(string \<times> string) list" where
  "STATE_PHASES =
     [(''proposed'', ''pre_birth''),
      (''designing'', ''pre_birth''),
      (''implementing'', ''pre_birth''),
      (''validating'', ''pre_birth''),
      (''initializing'', ''birth''),
      (''active'', ''operational''),
      (''updating'', ''operational''),
      (''suspended'', ''operational''),
      (''migrating'', ''operational''),
      (''terminating'', ''end_of_life''),
      (''terminated'', ''end_of_life''),
      (''archived'', ''end_of_life'')]"

definition phase_for_state :: "string \<Rightarrow> transition_error + string" where
  "phase_for_state s =
     (case map_of STATE_PHASES s of
        None \<Rightarrow> Inl (IllegalTransitionError ''actor'' s s)
      | Some p \<Rightarrow> Inr p)"

definition GRANT_LIFECYCLE :: state_machine where
  "GRANT_LIFECYCLE = \<lparr> sm_name = ''grant'', transitions =
     [(''active'', [''revoked'', ''expired'']), (''revoked'', []), (''expired'', [])] \<rparr>"

definition SESSION_LIFECYCLE :: state_machine where
  "SESSION_LIFECYCLE = \<lparr> sm_name = ''session'', transitions =
     [(''active'', [''revoked'', ''expired'']), (''revoked'', []), (''expired'', [])] \<rparr>"

definition WORKFLOW_RUN_LIFECYCLE :: state_machine where
  "WORKFLOW_RUN_LIFECYCLE = \<lparr> sm_name = ''workflow_run'', transitions =
     [(''queued'', [''running'', ''cancelled'']),
      (''running'', [''paused'', ''succeeded'', ''failed'', ''cancelled'']),
      (''paused'', [''running'', ''cancelled'']),
      (''succeeded'', []),
      (''failed'', []),
      (''cancelled'', [])] \<rparr>"

definition WORKER_LIFECYCLE :: state_machine where
  "WORKER_LIFECYCLE = \<lparr> sm_name = ''worker'', transitions =
     [(''pending'', [''enrolled'', ''revoked'']),
      (''enrolled'', [''active'', ''revoked'']),
      (''active'', [''draining'', ''suspended'', ''revoked'']),
      (''draining'', [''offline'', ''revoked'']),
      (''suspended'', [''active'', ''revoked'']),
      (''offline'', [''revoked'']),
      (''revoked'', [])] \<rparr>"

lemmas machine_tables [table_simps] =
  ACTOR_LIFECYCLE_def GRANT_LIFECYCLE_def SESSION_LIFECYCLE_def
  WORKFLOW_RUN_LIFECYCLE_def WORKER_LIFECYCLE_def

section \<open>General facts\<close>

lemma assert_transition_ok [simp]:
  "assert_transition m s t = Inr () \<longleftrightarrow> is_valid_transition m s t"
  by (simp add: assert_transition_def)

lemma valid_transition_iff:
  "is_valid_transition m s t \<longleftrightarrow> (\<exists>ts. map_of (transitions m) s = Some ts \<and> t \<in> set ts)"
  by (cases "map_of (transitions m) s") (simp_all add: is_valid_transition_def allowed_from_def)

lemma valid_transition_source: "is_valid_transition m s t \<Longrightarrow> is_known_state m s"
  by (force simp: valid_transition_iff is_known_state_def dest: map_of_SomeD)

text \<open>A property of all table rows decides a property of all transitions.\<close>

definition table_all :: "(string \<Rightarrow> string \<Rightarrow> bool) \<Rightarrow> state_machine \<Rightarrow> bool" where
  "table_all P m \<longleftrightarrow> list_all (\<lambda>(s, ts). list_all (P s) ts) (transitions m)"

lemma table_allD:
  assumes "table_all P m" and "is_valid_transition m s t"
  shows "P s t"
proof -
  from assms(2) obtain ts where "(s, ts) \<in> set (transitions m)" and "t \<in> set ts"
    by (auto simp: valid_transition_iff dest: map_of_SomeD)
  with assms(1) show ?thesis
    by (fastforce simp: table_all_def list_all_iff)
qed

section \<open>Machines closed under their transitions\<close>

locale closed_machine =
  fixes m :: state_machine
  assumes targets_known: "is_valid_transition m s t \<Longrightarrow> is_known_state m t"
begin

lemma walk_known: "is_known_state m s \<Longrightarrow> walk m s ts = Inr t \<Longrightarrow> is_known_state m t"
  by (induction ts arbitrary: s) (auto intro: targets_known)

lemma walk_unknown: "\<not> is_known_state m s \<Longrightarrow> walk m s ts = Inr t \<Longrightarrow> ts = []"
  by (cases ts) (auto dest: valid_transition_source)

lemma walk_terminal: "allowed_from m s = [] \<Longrightarrow> walk m s ts = Inr t \<Longrightarrow> ts = []"
  by (cases ts) (auto simp: is_valid_transition_def)

end

text \<open>A machine with a rank that no transition lets fall.\<close>

locale ranked_machine = closed_machine +
  fixes rank :: "string \<Rightarrow> nat"
  assumes rank_mono: "is_valid_transition m s t \<Longrightarrow> rank s \<le> rank t"
begin

lemma walk_rank: "walk m s ts = Inr t \<Longrightarrow> rank s \<le> rank t"
  by (induction ts arbitrary: s) (auto intro: order_trans rank_mono)

lemma walk_no_return: "walk m s ts = Inr t \<Longrightarrow> rank t < rank u \<Longrightarrow> rank s < rank u"
  by (drule walk_rank) simp

end

text \<open>The rank of an actor state is the position of its phase.\<close>

definition phase_rank :: "string \<Rightarrow> nat" where
  "phase_rank p = (if p = ''pre_birth'' then 0 else if p = ''birth'' then 1
                   else if p = ''operational'' then 2 else 3)"

definition actor_rank :: "string \<Rightarrow> nat" where
  "actor_rank s = (case phase_for_state s of Inl _ \<Rightarrow> 0 | Inr p \<Rightarrow> phase_rank p)"

definition run_rank :: "string \<Rightarrow> nat" where
  "run_rank s = (if s = ''queued'' then 0 else if s \<in> {''running'', ''paused''} then 1 else 2)"

definition worker_rank :: "string \<Rightarrow> nat" where
  "worker_rank s = (if s = ''pending'' then 0 else if s = ''enrolled'' then 1
     else if s \<in> {''active'', ''suspended''} then 2 else if s = ''draining'' then 3
     else if s = ''offline'' then 4 else 5)"

definition terminal_rank :: "string \<Rightarrow> nat" where
  "terminal_rank s = (if s = ''active'' then 0 else 1)"

lemma actor_table_closed: "table_all (\<lambda>s t. is_known_state ACTOR_LIFECYCLE t) ACTOR_LIFECYCLE"
  by (simp add: table_all_def is_known_state_def table_simps)

lemma actor_table_ranked: "table_all (\<lambda>s t. actor_rank s \<le> actor_rank t) ACTOR_LIFECYCLE"
  by (simp add: table_all_def table_simps actor_rank_def phase_for_state_def STATE_PHASES_def
      phase_rank_def)

lemma grant_table_closed: "table_all (\<lambda>s t. is_known_state GRANT_LIFECYCLE t) GRANT_LIFECYCLE"
  by (simp add: table_all_def is_known_state_def table_simps)

lemma grant_table_ranked: "table_all (\<lambda>s t. terminal_rank s < terminal_rank t) GRANT_LIFECYCLE"
  by (simp add: table_all_def table_simps terminal_rank_def)

lemma session_table_closed: "table_all (\<lambda>s t. is_known_state SESSION_LIFECYCLE t) SESSION_LIFECYCLE"
  by (simp add: table_all_def is_known_state_def table_simps)

lemma session_table_ranked: "table_all (\<lambda>s t. terminal_rank s < terminal_rank t) SESSION_LIFECYCLE"
  by (simp add: table_all_def table_simps terminal_rank_def)

lemma run_table_closed:
  "table_all (\<lambda>s t. is_known_state WORKFLOW_RUN_LIFECYCLE t) WORKFLOW_RUN_LIFECYCLE"
  by (simp add: table_all_def is_known_state_def table_simps)

lemma run_table_ranked: "table_all (\<lambda>s t. run_rank s \<le> run_rank t) WORKFLOW_RUN_LIFECYCLE"
  by (simp add: table_all_def table_simps run_rank_def)

lemma worker_table_closed: "table_all (\<lambda>s t. is_known_state WORKER_LIFECYCLE t) WORKER_LIFECYCLE"
  by (simp add: table_all_def is_known_state_def table_simps)

lemma worker_table_ranked: "table_all (\<lambda>s t. worker_rank s \<le> worker_rank t) WORKER_LIFECYCLE"
  by (simp add: table_all_def table_simps worker_rank_def)

interpretation actor_lc: ranked_machine ACTOR_LIFECYCLE actor_rank
  by unfold_locales (auto dest: table_allD [OF actor_table_closed] table_allD [OF actor_table_ranked])

interpretation grant_lc: ranked_machine GRANT_LIFECYCLE terminal_rank
  by unfold_locales
    (auto dest: table_allD [OF grant_table_closed] table_allD [OF grant_table_ranked])

interpretation session_lc: ranked_machine SESSION_LIFECYCLE terminal_rank
  by unfold_locales
    (auto dest: table_allD [OF session_table_closed] table_allD [OF session_table_ranked])

interpretation run_lc: ranked_machine WORKFLOW_RUN_LIFECYCLE run_rank
  by unfold_locales (auto dest: table_allD [OF run_table_closed] table_allD [OF run_table_ranked])

interpretation worker_lc: ranked_machine WORKER_LIFECYCLE worker_rank
  by unfold_locales
    (auto dest: table_allD [OF worker_table_closed] table_allD [OF worker_table_ranked])

section \<open>Properties\<close>

lemma phase_for_known_state: "is_known_state ACTOR_LIFECYCLE s \<longleftrightarrow> is_ok (phase_for_state s)"
  by (auto simp: is_known_state_def table_simps phase_for_state_def STATE_PHASES_def)

lemma actor_rank_phase: "phase_for_state s = Inr p \<Longrightarrow> actor_rank s = phase_rank p"
  by (simp add: actor_rank_def)

text \<open>
  Actor lifecycles only move forward. Whatever sequence of guarded transitions the service
  performs, an actor that starts in a known state ends in a known state, both states have a
  phase, and the phase never goes back (pre-birth, birth, operational, end of life).
\<close>

theorem actor_walk_phase:
  assumes "is_known_state ACTOR_LIFECYCLE s" and "walk ACTOR_LIFECYCLE s ts = Inr t"
  shows "\<exists>p q. phase_for_state s = Inr p \<and> phase_for_state t = Inr q \<and> phase_rank p \<le> phase_rank q"
proof -
  from assms have "is_known_state ACTOR_LIFECYCLE t"
    by (rule actor_lc.walk_known)
  with assms(1) obtain p q where "phase_for_state s = Inr p" and "phase_for_state t = Inr q"
    by (auto simp: phase_for_known_state is_ok_iff)
  with actor_lc.walk_rank [OF assms(2)] show ?thesis
    by (auto simp: actor_rank_phase)
qed

theorem actor_walk_phase_witness:
  "\<exists>p q. phase_for_state ''validating'' = Inr p \<and> phase_for_state ''suspended'' = Inr q
     \<and> phase_rank p \<le> phase_rank q"
proof (rule actor_walk_phase)
  show "is_known_state ACTOR_LIFECYCLE ''validating''"
    by (simp add: is_known_state_def table_simps)
  show "walk ACTOR_LIFECYCLE ''validating'' [''initializing'', ''active'', ''suspended''] = Inr ''suspended''"
    by (simp add: is_valid_transition_def allowed_from_def table_simps)
qed

text \<open>
  A worker is never stuck short of revocation, and revocation is final: from every known state
  but \<open>revoked\<close> itself the transition to \<open>revoked\<close> is legal, and no guarded walk leaves it.
\<close>

lemma worker_revocable:
  "is_known_state WORKER_LIFECYCLE s \<Longrightarrow> s = ''revoked'' \<or> is_valid_transition WORKER_LIFECYCLE s ''revoked''"
  by (auto simp: is_known_state_def is_valid_transition_def allowed_from_def table_simps)

lemma worker_revoked_final: "walk WORKER_LIFECYCLE ''revoked'' ts = Inr t \<Longrightarrow> ts = [] \<and> t = ''revoked''"
  using worker_lc.walk_terminal [of "''revoked''" ts t]
  by (auto simp: allowed_from_def table_simps)

text \<open>
  Grants and sessions take at most one step: the first guarded transition ends in a terminal
  state, so a revoked or expired grant never becomes active again.
\<close>

lemma grant_walk_short: "walk GRANT_LIFECYCLE s ts = Inr t \<Longrightarrow> length ts \<le> 1"
proof (cases ts)
  case (Cons u us)
  moreover assume "walk GRANT_LIFECYCLE s ts = Inr t"
  ultimately have "is_valid_transition GRANT_LIFECYCLE s u" and u: "walk GRANT_LIFECYCLE u us = Inr t"
    by auto
  then have "u \<in> {''revoked'', ''expired''}"
    by (auto simp: is_valid_transition_def allowed_from_def table_simps split: if_splits)
  with grant_lc.walk_terminal [OF _ u] have "us = []"
    by (auto simp: allowed_from_def table_simps)
  with Cons show ?thesis by simp
qed simp

end
