(* ===== verification/Registries.thy ===== *)
theory Registries
  imports Prelude
begin

text \<open>
  The three in-process caches of valid type strings: event types
  (\<^verbatim>\<open>domain/event_registry.py\<close>), lifecycle states (\<^verbatim>\<open>domain/lifecycle_registry.py\<close>) and
  trigger types (\<^verbatim>\<open>domain/trigger_registry.py\<close>), each with its \<open>register\<close>, \<open>is_valid\<close>,
  \<open>all\<close> and \<open>reset\<close>, and the closed vocabularies the domain modules validate against. The
  lock each method takes makes it one atomic step, which is what each definition is. The
  locale \<open>type_registry\<close> is their common contract.
\<close>

section \<open>The contract of a registry\<close>

locale type_registry =
  fixes fresh :: 'r
    and register :: "'r \<Rightarrow> string list \<Rightarrow> 'r"
    and is_valid :: "'r \<Rightarrow> string \<Rightarrow> bool"
    and all_of :: "'r \<Rightarrow> string set"
    and reset :: "'r \<Rightarrow> 'r"
  assumes fresh_all: "all_of fresh = {}"
    and fresh_valid: "is_valid fresh x"
    and register_all: "all_of (register r xs) = all_of r \<union> set xs"
    and register_valid: "is_valid (register r xs) x \<longleftrightarrow> x \<in> all_of (register r xs)"
    and reset_fresh: "reset r = fresh"
begin

definition load :: "'r \<Rightarrow> string list list \<Rightarrow> 'r" where
  "load r batches = fold (\<lambda>xs r. register r xs) batches r"

lemma load_all: "all_of (load r batches) = all_of r \<union> (\<Union>xs \<in> set batches. set xs)"
  by (induction batches arbitrary: r) (auto simp: load_def register_all)

lemma load_valid:
  "batches \<noteq> [] \<Longrightarrow> is_valid (load r batches) x \<longleftrightarrow> x \<in> all_of (load r batches)"
proof (induction batches arbitrary: r rule: rev_induct)
  case (snoc xs batches)
  then show ?case by (simp add: load_def register_valid)
qed simp

text \<open>The order of the start-up batches, and repeating them, does not matter.\<close>

lemma load_order_irrelevant:
  "batches \<noteq> [] \<Longrightarrow> set batches = set batches' \<Longrightarrow>
     is_valid (load r batches) x \<longleftrightarrow> is_valid (load r batches') x"
  by (cases "batches' = []") (auto simp: load_valid load_all)

lemma load_fresh_exact:
  "batches \<noteq> [] \<Longrightarrow> is_valid (load fresh batches) x \<longleftrightarrow> (\<exists>xs \<in> set batches. x \<in> set xs)"
  by (simp add: load_valid load_all fresh_all)

end

section \<open>Event types\<close>

record event_type_registry =
  er_types :: "string set"
  er_populated :: bool

definition er_init :: event_type_registry where
  "er_init = \<lparr> er_types = {}, er_populated = False \<rparr>"

definition er_register :: "event_type_registry \<Rightarrow> string list \<Rightarrow> event_type_registry" where
  "er_register r xs = r\<lparr> er_types := er_types r \<union> set xs, er_populated := True \<rparr>"

definition er_is_valid :: "event_type_registry \<Rightarrow> string \<Rightarrow> bool" where
  "er_is_valid r x = (if \<not> er_populated r then True else x \<in> er_types r)"

definition er_all :: "event_type_registry \<Rightarrow> string set" where
  "er_all r = er_types r"

definition er_reset :: "event_type_registry \<Rightarrow> event_type_registry" where
  "er_reset r = r\<lparr> er_types := {}, er_populated := False \<rparr>"

interpretation er: type_registry er_init er_register er_is_valid er_all er_reset
  by unfold_locales (auto simp: er_init_def er_register_def er_is_valid_def er_all_def er_reset_def)

section \<open>Lifecycle states\<close>

record lifecycle_state_registry =
  lr_states :: "string set"
  lr_populated :: bool

definition lr_init :: lifecycle_state_registry where
  "lr_init = \<lparr> lr_states = {}, lr_populated = False \<rparr>"

definition lr_register :: "lifecycle_state_registry \<Rightarrow> string list \<Rightarrow> lifecycle_state_registry" where
  "lr_register r xs = r\<lparr> lr_states := lr_states r \<union> set xs, lr_populated := True \<rparr>"

definition lr_is_valid :: "lifecycle_state_registry \<Rightarrow> string \<Rightarrow> bool" where
  "lr_is_valid r x = (if \<not> lr_populated r then True else x \<in> lr_states r)"

definition lr_all :: "lifecycle_state_registry \<Rightarrow> string set" where
  "lr_all r = lr_states r"

definition lr_reset :: "lifecycle_state_registry \<Rightarrow> lifecycle_state_registry" where
  "lr_reset r = r\<lparr> lr_states := {}, lr_populated := False \<rparr>"

definition SEED_LIFECYCLE_STATES :: "string list" where
  "SEED_LIFECYCLE_STATES =
     [''proposed'', ''designing'', ''implementing'', ''validating'', ''initializing'', ''active'',
      ''updating'', ''suspended'', ''migrating'', ''terminating'', ''terminated'', ''archived'',
      ''failed'', ''ready'', ''busy'', ''error'', ''configuring'', ''draft'', ''deprecated'',
      ''pending_approval'', ''approved'', ''revoked'', ''disabled'', ''paused'']"

interpretation lr: type_registry lr_init lr_register lr_is_valid lr_all lr_reset
  by unfold_locales (auto simp: lr_init_def lr_register_def lr_is_valid_def lr_all_def lr_reset_def)

section \<open>Trigger types\<close>

record trigger_type_registry =
  tr_types :: "string set"
  tr_populated :: bool

definition tr_init :: trigger_type_registry where
  "tr_init = \<lparr> tr_types = {}, tr_populated = False \<rparr>"

definition tr_register :: "trigger_type_registry \<Rightarrow> string list \<Rightarrow> trigger_type_registry" where
  "tr_register r xs = r\<lparr> tr_types := tr_types r \<union> set xs, tr_populated := True \<rparr>"

definition tr_is_valid :: "trigger_type_registry \<Rightarrow> string \<Rightarrow> bool" where
  "tr_is_valid r x = (if \<not> tr_populated r then True else x \<in> tr_types r)"

definition tr_all :: "trigger_type_registry \<Rightarrow> string set" where
  "tr_all r = tr_types r"

definition tr_reset :: "trigger_type_registry \<Rightarrow> trigger_type_registry" where
  "tr_reset r = r\<lparr> tr_types := {}, tr_populated := False \<rparr>"

definition SEED_TRIGGER_TYPES :: "string list" where
  "SEED_TRIGGER_TYPES = [''cron'', ''event'', ''webhook'']"

interpretation tr: type_registry tr_init tr_register tr_is_valid tr_all tr_reset
  by unfold_locales (auto simp: tr_init_def tr_register_def tr_is_valid_def tr_all_def tr_reset_def)

section \<open>Closed vocabularies\<close>

datatype vocabulary_error =
    InvalidProviderError string
  | InvalidSecretStateError string
  | InvalidProviderTypeError string
  | InvalidShareTypeError string
  | InvalidSharePermissions "string list"
  | InvalidExecutionModeError string
  | InvalidCapabilityStateError string
  | InvalidTriggerTypeError string
  | InvalidTriggerStateError string

definition SECRET_PROVIDER_TYPES :: "string list" where
  "SECRET_PROVIDER_TYPES =
     [''env'', ''vault'', ''aws-sm'', ''gcp-sm'', ''azure-kv'', ''inline'', ''custom'']"

definition SECRET_STATES :: "string list" where
  "SECRET_STATES = [''active'', ''rotated'', ''revoked'']"

definition validate_provider :: "string \<Rightarrow> vocabulary_error + unit" where
  "validate_provider p = (if p \<notin> set SECRET_PROVIDER_TYPES then Inl (InvalidProviderError p) else Inr ())"

definition validate_secret_state :: "string \<Rightarrow> vocabulary_error + unit" where
  "validate_secret_state s = (if s \<notin> set SECRET_STATES then Inl (InvalidSecretStateError s) else Inr ())"

definition ARTIFACT_PROVIDER_TYPES :: "string list" where
  "ARTIFACT_PROVIDER_TYPES =
     [''r2'', ''s3'', ''gcs'', ''azure_blob'', ''local'', ''inline'', ''custom'']"

definition validate_provider_type :: "string \<Rightarrow> vocabulary_error + string" where
  "validate_provider_type p =
     (if p \<notin> set ARTIFACT_PROVIDER_TYPES then Inl (InvalidProviderTypeError p) else Inr p)"

definition SHAREABLE_TYPES :: "string list" where
  "SHAREABLE_TYPES = [''capability'', ''artifact'', ''workflow'', ''plugin'']"

definition SHARE_PERMISSIONS :: "string list" where
  "SHARE_PERMISSIONS = [''read'', ''execute'', ''fork'']"

definition validate_share_type :: "string \<Rightarrow> vocabulary_error + unit" where
  "validate_share_type r = (if r \<notin> set SHAREABLE_TYPES then Inl (InvalidShareTypeError r) else Inr ())"

definition validate_share_permissions :: "string list \<Rightarrow> vocabulary_error + unit" where
  "validate_share_permissions ps =
     (let invalid = filter (\<lambda>p. p \<notin> set SHARE_PERMISSIONS) (remdups ps)
      in if invalid \<noteq> [] then Inl (InvalidSharePermissions invalid) else Inr ())"

definition EXECUTION_MODES :: "string list" where
  "EXECUTION_MODES = [''sync'', ''async'', ''streaming'']"

definition CAPABILITY_STATES :: "string list" where
  "CAPABILITY_STATES = [''draft'', ''active'', ''deprecated'']"

definition validate_execution_mode :: "string \<Rightarrow> vocabulary_error + string" where
  "validate_execution_mode m =
     (if m \<notin> set EXECUTION_MODES then Inl (InvalidExecutionModeError m) else Inr m)"

definition validate_capability_state :: "string \<Rightarrow> vocabulary_error + string" where
  "validate_capability_state s =
     (if s \<notin> set CAPABILITY_STATES then Inl (InvalidCapabilityStateError s) else Inr s)"

definition TRIGGER_TYPES :: "string list" where
  "TRIGGER_TYPES = [''cron'', ''event'', ''webhook'']"

definition TRIGGER_STATES :: "string list" where
  "TRIGGER_STATES = [''active'', ''paused'', ''disabled'']"

definition validate_trigger_type :: "string \<Rightarrow> vocabulary_error + unit" where
  "validate_trigger_type t = (if t \<notin> set TRIGGER_TYPES then Inl (InvalidTriggerTypeError t) else Inr ())"

definition validate_trigger_state :: "string \<Rightarrow> vocabulary_error + unit" where
  "validate_trigger_state s = (if s \<notin> set TRIGGER_STATES then Inl (InvalidTriggerStateError s) else Inr ())"

lemma validate_share_permissions_ok:
  "validate_share_permissions ps = Inr () \<longleftrightarrow> set ps \<subseteq> set SHARE_PERMISSIONS"
  by (auto simp: validate_share_permissions_def Let_def filter_empty_conv)

section \<open>Properties\<close>

text \<open>
  A populated event registry accepts exactly the union of the batches registered since it
  was last fresh, in whatever order the start-up paths registered them; the fail-open answer
  exists only before the first \<open>register\<close>.
\<close>

theorem event_registry_exact:
  assumes "batches \<noteq> []"
  shows "er_is_valid (fold (\<lambda>xs r. er_register r xs) batches (er_reset r0)) x \<longleftrightarrow>
     (\<exists>xs \<in> set batches. x \<in> set xs)"
  using er.load_fresh_exact [OF assms, of x]
  by (simp only: er.load_def er.reset_fresh)

theorem event_registry_exact_witness:
  "\<not> er_is_valid (fold (\<lambda>xs r. er_register r xs) [[''error''], [''metric'']] (er_reset er_init)) ''x''"
proof -
  have h: "[[''error''], [''metric'']] \<noteq> []" by simp
  show ?thesis using event_registry_exact [OF h, of er_init "''x''"] by simp
qed

end
