(* ===== verification/Hierarchy.thy ===== *)
theory Hierarchy
  imports Prelude
begin

text \<open>
  The two cycle checks of the domain layer: the walk up the parent pointers of the operation
  hierarchy (\<^verbatim>\<open>domain/operations.py\<close>) and the depth-first search over the edges of one graph
  class (\<^verbatim>\<open>domain/ontology.py\<close>). Each loop is a recursive function with a termination proof;
  the mappings they walk are association lists, so they are finite as Python's are.
\<close>

section \<open>Operation hierarchy\<close>

text \<open>\<open>parent_of.get(c)\<close>: None both for a root and for an unknown id.\<close>

definition parent_get :: "('a \<times> 'a option) list \<Rightarrow> 'a \<Rightarrow> 'a option" where
  "parent_get parent_of c = (case map_of parent_of c of None \<Rightarrow> None | Some p \<Rightarrow> p)"

definition unvisited :: "('a \<times> 'b) list \<Rightarrow> 'a set \<Rightarrow> nat" where
  "unvisited m visited = card (fst ` set m - visited)"

lemma unvisited_insert: "c \<in> fst ` set m \<Longrightarrow> c \<notin> visited \<Longrightarrow> unvisited m (insert c visited) < unvisited m visited"
  unfolding unvisited_def by (rule psubset_card_mono) auto

lemma unvisited_insert_le: "unvisited m (insert c visited) \<le> unvisited m visited"
  unfolding unvisited_def by (rule card_mono) auto

lemma parent_get_key: "parent_get m c = Some p \<Longrightarrow> c \<in> fst ` set m"
  by (force simp: parent_get_def dest: map_of_SomeD split: option.splits)

text \<open>The \<open>while cursor is not None\<close> loop of \<open>would_create_cycle\<close>.\<close>

function cycle_walk :: "('a \<times> 'a option) list \<Rightarrow> 'a \<Rightarrow> 'a option \<Rightarrow> 'a set \<Rightarrow> bool" where
  "cycle_walk parent_of node None visited = False"
| "cycle_walk parent_of node (Some c) visited =
     (if c = node then True
      else if c \<in> visited then True
      else cycle_walk parent_of node (parent_get parent_of c) (insert c visited))"
  by pat_completeness auto
termination
proof (relation "measure (\<lambda>(m, _, cur, vis). 2 * unvisited m vis + (if cur = None then 0 else 1))")
  fix m :: "('a \<times> 'a option) list" and node c :: 'a and vis :: "'a set"
  assume "c \<noteq> node" and "c \<notin> vis"
  then show "((m, node, parent_get m c, insert c vis), m, node, Some c, vis)
      \<in> measure (\<lambda>(m, _, cur, vis). 2 * unvisited m vis + (if cur = None then 0 else 1))"
    using unvisited_insert_le [of m c vis] unvisited_insert [of c m vis]
    by (cases "parent_get m c") (auto dest: parent_get_key)
qed simp

definition op_would_create_cycle :: "'a \<Rightarrow> 'a \<Rightarrow> ('a \<times> 'a option) list \<Rightarrow> bool" where
  "op_would_create_cycle node_id new_parent_id parent_of =
     (if node_id = new_parent_id then True
      else cycle_walk parent_of node_id (Some new_parent_id) {})"

text \<open>The loop of \<open>ancestor_depth\<close>.\<close>

function depth_walk :: "('a \<times> 'a option) list \<Rightarrow> 'a option \<Rightarrow> 'a set \<Rightarrow> nat \<Rightarrow> nat" where
  "depth_walk parent_of None visited depth = depth"
| "depth_walk parent_of (Some c) visited depth =
     (if c \<notin> visited
      then depth_walk parent_of (parent_get parent_of c) (insert c visited) (depth + 1)
      else depth)"
  by pat_completeness auto
termination
proof (relation "measure (\<lambda>(m, cur, vis, _). 2 * unvisited m vis + (if cur = None then 0 else 1))")
  fix m :: "('a \<times> 'a option) list" and c :: 'a and vis :: "'a set" and depth :: nat
  assume "c \<notin> vis"
  then show "((m, parent_get m c, insert c vis, depth + 1), m, Some c, vis, depth)
      \<in> measure (\<lambda>(m, cur, vis, _). 2 * unvisited m vis + (if cur = None then 0 else 1))"
    using unvisited_insert_le [of m c vis] unvisited_insert [of c m vis]
    by (cases "parent_get m c") (auto dest: parent_get_key)
qed simp

definition ancestor_depth :: "'a \<Rightarrow> ('a \<times> 'a option) list \<Rightarrow> nat" where
  "ancestor_depth node_id parent_of = depth_walk parent_of (parent_get parent_of node_id) {} 0"

subsection \<open>Specification: the parent relation\<close>

definition parent_rel :: "('a \<times> 'a option) list \<Rightarrow> ('a \<times> 'a) set" where
  "parent_rel m = {(c, p). parent_get m c = Some p}"

lemma parent_rel_iff [simp]: "(c, p) \<in> parent_rel m \<longleftrightarrow> parent_get m c = Some p"
  by (simp add: parent_rel_def)

text \<open>The walk up from \<open>c\<close> is deterministic.\<close>

lemma parent_rtrancl_step:
  assumes "(c, n) \<in> (parent_rel m)\<^sup>*" and "c \<noteq> n"
  shows "\<exists>p. parent_get m c = Some p \<and> (p, n) \<in> (parent_rel m)\<^sup>*"
  using assms by (auto elim: converse_rtranclE)

lemma cycle_walk_complete:
  "(c, node) \<in> (parent_rel m)\<^sup>* \<Longrightarrow> cycle_walk m node (Some c) visited"
proof (induction m node "Some c" visited arbitrary: c rule: cycle_walk.induct)
  case (2 m node c visited)
  show ?case
  proof (cases "c = node \<or> c \<in> visited")
    case False
    with "2.prems" obtain p where "parent_get m c = Some p" and "(p, node) \<in> (parent_rel m)\<^sup>*"
      using parent_rtrancl_step by metis
    with False "2.hyps" show ?thesis by auto
  qed auto
qed

text \<open>
  In a hierarchy without a cycle the guard \<open>cursor in visited\<close> never fires, and the walk says
  exactly whether it meets \<open>node\<close>: what has been visited lies strictly below the cursor.
\<close>

lemma cycle_walk_sound:
  assumes "acyclic (parent_rel m)"
  shows "cycle_walk m node (Some c) visited \<Longrightarrow> \<forall>v \<in> visited. (v, c) \<in> (parent_rel m)\<^sup>+ \<Longrightarrow>
    (c, node) \<in> (parent_rel m)\<^sup>*"
  using assms
proof (induction m node "Some c" visited arbitrary: c rule: cycle_walk.induct)
  case (2 m node c visited)
  have "c \<notin> visited" using "2.prems" by (auto simp: acyclic_def)
  show ?case
  proof (cases "c = node")
    case False
    with "2.prems" \<open>c \<notin> visited\<close> have walk: "cycle_walk m node (parent_get m c) (insert c visited)"
      by simp
    then obtain p where p: "parent_get m c = Some p" by (cases "parent_get m c") auto
    have below: "\<forall>v \<in> insert c visited. (v, p) \<in> (parent_rel m)\<^sup>+"
      using "2.prems"(2) p by (auto intro: trancl_into_trancl)
    have "(p, node) \<in> (parent_rel m)\<^sup>*"
      using "2.hyps" [OF False \<open>c \<notin> visited\<close> p] walk p below "2.prems"(3) by simp
    with p show ?thesis by (auto intro: converse_rtrancl_into_rtrancl)
  qed simp
qed

theorem op_would_create_cycle_iff:
  assumes "acyclic (parent_rel m)"
  shows "op_would_create_cycle node p m \<longleftrightarrow> (p, node) \<in> (parent_rel m)\<^sup>*"
  using cycle_walk_complete [of p node m "{}"] cycle_walk_sound [OF assms, of node p "{}"]
  by (auto simp: op_would_create_cycle_def)

text \<open>Setting one parent pointer.\<close>

lemma parent_rel_update:
  "parent_rel (AList.update n (Some p) m) = {(c, q) \<in> parent_rel m. c \<noteq> n} \<union> {(n, p)}"
  by (auto simp: parent_rel_def parent_get_def update_conv' split: if_splits)

lemma acyclic_reparent:
  assumes "acyclic R" and "(p, n) \<notin> R\<^sup>*"
  shows "acyclic ({(c, q) \<in> R. c \<noteq> n} \<union> {(n, p)})"
proof -
  have sub: "{(c, q) \<in> R. c \<noteq> n} \<subseteq> R" by auto
  have "acyclic {(c, q) \<in> R. c \<noteq> n}"
    using assms(1) sub by (rule acyclic_subset)
  moreover have "(p, n) \<notin> {(c, q) \<in> R. c \<noteq> n}\<^sup>*"
    using assms(2) rtrancl_mono [OF sub] by blast
  ultimately show ?thesis by (simp add: acyclic_insert)
qed

text \<open>The check is enough to keep the hierarchy acyclic, even from a corrupt map.\<close>

lemma op_cycle_free_update:
  assumes "acyclic (parent_rel m)" and "\<not> op_would_create_cycle n p m"
  shows "acyclic (parent_rel (AList.update n (Some p) m))"
  unfolding parent_rel_update
  using assms op_would_create_cycle_iff [OF assms(1)] by (intro acyclic_reparent) auto

subsection \<open>Depth\<close>

text \<open>In an acyclic hierarchy the count does not depend on what was visited before.\<close>

lemma depth_walk_shift:
  assumes "acyclic (parent_rel m)"
  shows "\<forall>c. cur = Some c \<longrightarrow> (\<forall>v \<in> vis \<union> vis'. (v, c) \<in> (parent_rel m)\<^sup>+) \<Longrightarrow>
    depth_walk m cur vis d + d' = depth_walk m cur vis' d' + d"
  using assms
proof (induction m cur vis d arbitrary: vis' d' rule: depth_walk.induct)
  case (2 m c vis d)
  have fresh: "c \<notin> vis" "c \<notin> vis'" using "2.prems" by (auto simp: acyclic_def)
  have "\<forall>q. parent_get m c = Some q \<longrightarrow> (\<forall>v \<in> insert c vis \<union> insert c vis'. (v, q) \<in> (parent_rel m)\<^sup>+)"
    using "2.prems"(1) by (auto intro: trancl_into_trancl)
  from "2.IH" [OF fresh(1) this "2.prems"(2), of "d' + 1"] fresh show ?case by simp
qed simp

theorem ancestor_depth_rec:
  assumes "acyclic (parent_rel m)"
  shows "ancestor_depth n m =
    (case parent_get m n of None \<Rightarrow> 0 | Some p \<Rightarrow> Suc (ancestor_depth p m))"
proof (cases "parent_get m n")
  case (Some p)
  have "\<forall>c. parent_get m p = Some c \<longrightarrow> (\<forall>v \<in> {p} \<union> {}. (v, c) \<in> (parent_rel m)\<^sup>+)"
    by auto
  from depth_walk_shift [OF assms this, of 1 0] Some show ?thesis
    by (simp add: ancestor_depth_def)
qed (simp add: ancestor_depth_def)

lemma ancestor_depth_root: "parent_get m n = None \<Longrightarrow> ancestor_depth n m = 0"
  by (simp add: ancestor_depth_def)

section \<open>Edges of one graph class\<close>

definition GRAPH_CLASSES :: "string list" where
  "GRAPH_CLASSES = [''hierarchy'', ''workflow'', ''relationship'', ''dependency'']"

definition ACYCLIC_GRAPH_CLASSES :: "string list" where
  "ACYCLIC_GRAPH_CLASSES = [''hierarchy'', ''workflow'', ''dependency'']"

datatype graph_error =
    UnknownGraphClassError string
  | GraphCycleError uuid uuid string

definition validate_graph_class :: "string \<Rightarrow> graph_error + unit" where
  "validate_graph_class g = (if g \<notin> set GRAPH_CLASSES then Inl (UnknownGraphClassError g) else Inr ())"

definition graph_class_is_acyclic :: "string \<Rightarrow> bool" where
  "graph_class_is_acyclic g \<longleftrightarrow> g \<in> set ACYCLIC_GRAPH_CLASSES"

text \<open>
  \<open>adjacency.get(node, frozenset())\<close>. The mapping holds sets; a list here is one enumeration
  of the set, in the order the iteration happens to take.
\<close>

definition adj_get :: "('a \<times> 'a list) list \<Rightarrow> 'a \<Rightarrow> 'a list" where
  "adj_get adj n = (case map_of adj n of None \<Rightarrow> [] | Some ts \<Rightarrow> ts)"

lemma adj_get_key: "adj_get adj n \<noteq> [] \<Longrightarrow> n \<in> fst ` set adj"
  by (force simp: adj_get_def dest: map_of_SomeD split: option.splits)

text \<open>
  The \<open>while stack\<close> loop. The Python stack is a list popped at its end; here its end is the
  head of the list, so \<open>stack.extend(ts)\<close> puts \<open>rev ts\<close> in front.
\<close>

function edge_search :: "('a \<times> 'a list) list \<Rightarrow> 'a \<Rightarrow> 'a list \<Rightarrow> 'a set \<Rightarrow> bool" where
  "edge_search adj src [] visited = False"
| "edge_search adj src (n # stack) visited =
     (if n = src then True
      else if n \<in> visited then edge_search adj src stack visited
      else edge_search adj src (rev (adj_get adj n) @ stack) (insert n visited))"
  by pat_completeness auto
termination
proof (relation "measures [\<lambda>(adj, _, _, vis). unvisited adj vis, \<lambda>(_, _, stack, _). length stack]")
  fix adj :: "('a \<times> 'a list) list" and src n :: 'a and stack :: "'a list" and vis :: "'a set"
  assume "n \<noteq> src" and "n \<notin> vis"
  then show "((adj, src, rev (adj_get adj n) @ stack, insert n vis), adj, src, n # stack, vis)
      \<in> measures [\<lambda>(adj, _, _, vis). unvisited adj vis, \<lambda>(_, _, stack, _). length stack]"
    using unvisited_insert_le [of adj n vis] unvisited_insert [of n adj vis] adj_get_key [of adj n]
    by (cases "adj_get adj n = []") auto
qed auto

definition edge_would_create_cycle :: "'a \<Rightarrow> 'a \<Rightarrow> ('a \<times> 'a list) list \<Rightarrow> bool" where
  "edge_would_create_cycle source_id target_id adj =
     (if source_id = target_id then True else edge_search adj source_id [target_id] {})"

definition next_version :: "int \<Rightarrow> int" where
  "next_version current_version = current_version + 1"

subsection \<open>Specification: reachability\<close>

definition edge_rel :: "('a \<times> 'a list) list \<Rightarrow> ('a \<times> 'a) set" where
  "edge_rel adj = {(s, t). t \<in> set (adj_get adj s)}"

lemma edge_rel_iff [simp]: "(s, t) \<in> edge_rel adj \<longleftrightarrow> t \<in> set (adj_get adj s)"
  by (simp add: edge_rel_def)

lemma edge_search_sound:
  "edge_search adj src stack visited \<Longrightarrow> \<exists>n \<in> set stack. (n, src) \<in> (edge_rel adj)\<^sup>*"
proof (induction adj src stack visited rule: edge_search.induct)
  case (2 adj src n stack visited)
  show ?case
  proof (cases "n = src \<or> n \<in> visited")
    case True
    with 2 show ?thesis by (auto split: if_splits)
  next
    case False
    with 2 obtain k where "k \<in> set (adj_get adj n) \<or> k \<in> set stack" and "(k, src) \<in> (edge_rel adj)\<^sup>*"
      by auto
    then show ?thesis by (auto intro: converse_rtrancl_into_rtrancl)
  qed
qed simp

text \<open>
  When the search fails, everything it saw is a set closed under edges that avoids the source.
\<close>

lemma edge_search_complete:
  "\<not> edge_search adj src stack visited \<Longrightarrow> src \<notin> visited \<Longrightarrow>
     \<exists>W. visited \<union> set stack \<subseteq> W \<and> src \<notin> W \<and> (\<forall>v \<in> W - visited. set (adj_get adj v) \<subseteq> W)"
proof (induction adj src stack visited rule: edge_search.induct)
  case (1 adj src visited)
  then show ?case by (intro exI [of _ visited]) auto
next
  case (2 adj src n stack visited)
  from "2.prems" have "n \<noteq> src" by auto
  show ?case
  proof (cases "n \<in> visited")
    case True
    with "2.prems" \<open>n \<noteq> src\<close> have "\<not> edge_search adj src stack visited" by simp
    from "2.IH"(1) [OF \<open>n \<noteq> src\<close> True this "2.prems"(2)]
    obtain W where "visited \<union> set stack \<subseteq> W" "src \<notin> W"
      and "\<forall>v \<in> W - visited. set (adj_get adj v) \<subseteq> W" by blast
    with True show ?thesis by (intro exI [of _ W]) auto
  next
    case False
    with "2.prems" \<open>n \<noteq> src\<close>
    have "\<not> edge_search adj src (rev (adj_get adj n) @ stack) (insert n visited)"
      and "src \<notin> insert n visited" by simp_all
    from "2.IH"(2) [OF \<open>n \<noteq> src\<close> False this]
    obtain W where W: "insert n visited \<union> set (rev (adj_get adj n) @ stack) \<subseteq> W" "src \<notin> W"
      and closed: "\<forall>v \<in> W - insert n visited. set (adj_get adj v) \<subseteq> W" by blast
    then have "n \<in> W" and "visited \<subseteq> W" and "set stack \<subseteq> W" and "set (adj_get adj n) \<subseteq> W" by auto
    with W(2) closed show ?thesis by (intro exI [of _ W]) auto
  qed
qed

lemma rtrancl_closed: "(a, b) \<in> R\<^sup>* \<Longrightarrow> a \<in> W \<Longrightarrow> (\<And>x y. x \<in> W \<Longrightarrow> (x, y) \<in> R \<Longrightarrow> y \<in> W) \<Longrightarrow> b \<in> W"
  by (induction rule: rtrancl_induct) auto

theorem edge_would_create_cycle_iff:
  "edge_would_create_cycle s t adj \<longleftrightarrow> (t, s) \<in> (edge_rel adj)\<^sup>*"
proof (cases "s = t")
  case False
  show ?thesis
  proof
    assume "edge_would_create_cycle s t adj"
    with False edge_search_sound [of adj s "[t]" "{}"] show "(t, s) \<in> (edge_rel adj)\<^sup>*"
      by (simp add: edge_would_create_cycle_def)
  next
    assume reach: "(t, s) \<in> (edge_rel adj)\<^sup>*"
    show "edge_would_create_cycle s t adj"
    proof (rule ccontr)
      assume "\<not> edge_would_create_cycle s t adj"
      with False edge_search_complete [of adj s "[t]" "{}"]
      obtain W where W: "t \<in> W" "s \<notin> W" "\<forall>v \<in> W. set (adj_get adj v) \<subseteq> W"
        by (auto simp: edge_would_create_cycle_def)
      with rtrancl_closed [OF reach W(1)] show False by auto
    qed
  qed
qed (simp add: edge_would_create_cycle_def)

text \<open>Adding the edge \<open>s \<rightarrow> t\<close> to the adjacency.\<close>

definition add_edge :: "'a \<Rightarrow> 'a \<Rightarrow> ('a \<times> 'a list) list \<Rightarrow> ('a \<times> 'a list) list" where
  "add_edge s t adj = AList.update s (adj_get adj s @ [t]) adj"

lemma adj_get_update: "adj_get (AList.update s ts adj) n = (if n = s then ts else adj_get adj n)"
  by (simp add: adj_get_def update_conv')

lemma edge_rel_add: "edge_rel (add_edge s t adj) = insert (s, t) (edge_rel adj)"
  by (simp add: set_eq_iff add_edge_def adj_get_update)

text \<open>
  The edge check of an acyclic graph class is exact: adding the edge keeps the class acyclic
  if and only if the depth-first search reports no cycle.
\<close>

theorem edge_check_exact:
  assumes "acyclic (edge_rel adj)"
  shows "acyclic (edge_rel (add_edge s t adj)) \<longleftrightarrow> \<not> edge_would_create_cycle s t adj"
  unfolding edge_rel_add edge_would_create_cycle_iff
  using assms by (simp add: acyclic_insert)

theorem edge_check_exact_witness:
  "\<not> acyclic (edge_rel (add_edge (3::nat) 1 [(1, [2]), (2, [3])]))"
proof -
  have "edge_rel [(1::nat, [2]), (2, [3])] \<subseteq> less_than"
    by (auto simp: edge_rel_def adj_get_def split: if_splits)
  with wf_acyclic [OF wf_less_than] have h: "acyclic (edge_rel [(1::nat, [2]), (2, [3])])"
    by (rule acyclic_subset)
  have "edge_would_create_cycle 3 1 [(1::nat, [2]), (2, [3])]"
    by (simp add: edge_would_create_cycle_def adj_get_def)
  with edge_check_exact [OF h, of 3 1] show ?thesis by simp
qed

end
