(* ===== verification/Authz.thy ===== *)
theory Authz
  imports Prelude
begin

text \<open>
  The authorization decision of \<^verbatim>\<open>domain/authorization.py\<close>: the registry of constraint
  evaluators with the eight built-in ones, the constraint loop, the share permission of an
  operation, and \<open>authorize\<close> with its normative order of checks; the per-capability rate
  checker of \<^verbatim>\<open>core/capability_rate.py\<close> and the limiter of \<^verbatim>\<open>core/rate_limit.py\<close> it calls.

  An evaluator, the rate checker and the share checker are callables that may raise; their
  result is \<open>None\<close> then, and \<open>authorize\<close> turns every raise into a denial. Two callees are
  parameters: \<open>fromiso\<close>, the aware datetime \<open>datetime.fromisoformat\<close> reads from a text (None where
  it raises or the text has no offset, which makes the comparison raise), and \<open>redis\<close>, the
  answer of the Redis server to one increment (None for a connection error).
\<close>

section \<open>Identifiers as text\<close>

definition hex_char :: "nat \<Rightarrow> char" where
  "hex_char n = (if n < 10 then char_of (48 + n) else char_of (87 + n))"

definition hex_val :: "char \<Rightarrow> nat" where
  "hex_val c = (if of_char c < (58 :: nat) then of_char c - 48 else of_char c - 87)"

text \<open>The lowest \<open>k\<close> hexadecimal digits, most significant first.\<close>

fun hex_digits :: "nat \<Rightarrow> nat \<Rightarrow> string" where
  "hex_digits 0 n = []"
| "hex_digits (Suc k) n = hex_digits k (n div 16) @ [hex_char (n mod 16)]"

definition uuid_str :: "uuid \<Rightarrow> string" where
  "uuid_str u =
     (let h = hex_digits 32 (unat u)
      in take 8 h @ ''-'' @ take 4 (drop 8 h) @ ''-'' @ take 4 (drop 12 h) @ ''-''
         @ take 4 (drop 16 h) @ ''-'' @ drop 20 h)"

definition hex_num :: "string \<Rightarrow> nat" where
  "hex_num s = foldl (\<lambda>n c. 16 * n + hex_val c) 0 s"

lemma hex_val_char: "n < 16 \<Longrightarrow> hex_val (hex_char n) = n"
  by (auto simp: hex_val_def hex_char_def of_char_of take_bit_eq_mod)

lemma hex_char_not_dash: "n < 16 \<Longrightarrow> hex_char n \<noteq> CHR ''-''"
proof
  assume n: "n < 16" and "hex_char n = CHR ''-''"
  then have "(of_char (hex_char n) :: nat) = of_char CHR ''-''" by simp
  with n show False by (auto simp: hex_char_def of_char_of take_bit_eq_mod split: if_splits)
qed

lemma hex_num_digits: "hex_num (hex_digits k n) = n mod 16 ^ k"
proof (induction k arbitrary: n)
  case 0
  then show ?case by (simp add: hex_num_def)
next
  case (Suc k)
  then have "hex_num (hex_digits (Suc k) n) = 16 * (n div 16 mod 16 ^ k) + n mod 16"
    by (simp add: hex_num_def hex_val_char)
  then show ?case by (simp add: mod_mult2_eq)
qed

lemma length_hex_digits [simp]: "length (hex_digits k n) = k"
  by (induction k arbitrary: n) auto

lemma hex_digits_no_dash: "CHR ''-'' \<notin> set (hex_digits k n)"
  using hex_char_not_dash by (induction k arbitrary: n) (auto, metis mod_less_divisor zero_less_numeral)

lemma filter_dashed:
  assumes "CHR ''-'' \<notin> set h"
  shows "filter (\<lambda>c. c \<noteq> CHR ''-'') (take 8 h @ ''-'' @ take 4 (drop 8 h) @ ''-'' @ take 4 (drop 12 h)
    @ ''-'' @ take 4 (drop 16 h) @ ''-'' @ drop 20 h) = h"
proof -
  define a b c d e where parts: "a = take 8 h" "b = take 4 (drop 8 h)" "c = take 4 (drop 12 h)"
    "d = take 4 (drop 16 h)" "e = drop 20 h"
  have step: "take k (drop j h) @ drop (k + j) h = drop j h" for k j
    unfolding drop_drop [symmetric] by (rule append_take_drop_id)
  have h: "h = a @ b @ c @ d @ e"
    unfolding parts using step [of 8 0] step [of 4 8] step [of 4 12] step [of 4 16] by simp
  have keep: "set x \<subseteq> set h \<Longrightarrow> filter (\<lambda>c. c \<noteq> CHR ''-'') x = x" for x
    using assms by (auto simp: filter_id_conv)
  have parts_kept: "filter (\<lambda>c. c \<noteq> CHR ''-'') a = a" "filter (\<lambda>c. c \<noteq> CHR ''-'') b = b"
    "filter (\<lambda>c. c \<noteq> CHR ''-'') c = c" "filter (\<lambda>c. c \<noteq> CHR ''-'') d = d"
    "filter (\<lambda>c. c \<noteq> CHR ''-'') e = e"
    by (rule keep, auto simp: h)+
  show ?thesis
    unfolding parts(1) [symmetric] parts(2) [symmetric] parts(3) [symmetric] parts(4) [symmetric]
      parts(5) [symmetric]
    using h by (simp add: parts_kept)
qed

text \<open>\<open>str\<close> of a UUID determines it.\<close>

lemma uuid_str_filter: "filter (\<lambda>c. c \<noteq> CHR ''-'') (uuid_str u) = hex_digits 32 (unat u)"
  unfolding uuid_str_def Let_def by (rule filter_dashed) (rule hex_digits_no_dash)

lemma uuid_str_inj: "uuid_str u = uuid_str v \<longleftrightarrow> u = v"
proof
  assume "uuid_str u = uuid_str v"
  then have "hex_num (hex_digits 32 (unat u)) = hex_num (hex_digits 32 (unat v))"
    by (simp flip: uuid_str_filter)
  moreover have "unat u < 16 ^ 32" "unat v < 16 ^ 32"
    using unsigned_less [of u, where 'a = nat] unsigned_less [of v, where 'a = nat] by simp_all
  ultimately show "u = v" by (simp add: hex_num_digits word_unat_eq_iff)
qed simp

section \<open>Data\<close>

record auth_actor =
  au_id :: uuid
  au_organization_id :: uuid
  au_state :: string
  au_trust_tier :: string

record auth_organization =
  ao_id :: uuid
  ao_state :: string

record auth_resource =
  ar_type :: string
  ar_id :: uuid
  ar_organization_id :: uuid

record auth_grant =
  ag_id :: uuid
  ag_organization_id :: uuid
  ag_actor_id :: uuid
  ag_capability :: string
  ag_state :: string
  ag_constraints :: "(string \<times> pyval) list"
  ag_expires_at :: "datetime option"

record decision =
  allowed :: bool
  decision_id :: uuid
  reason :: string
  dec_grant_id :: "uuid option"

type_synonym rate_checker = "(string \<times> pyval) list \<Rightarrow> bool option"
type_synonym share_checker = "string \<Rightarrow> uuid \<Rightarrow> uuid \<Rightarrow> string \<Rightarrow> bool option"

text \<open>What every evaluator receives beside the constraint's value.\<close>

record eval_ctx =
  ec_grant :: auth_grant
  ec_actor :: auth_actor
  ec_resource :: auth_resource
  ec_operation :: string
  ec_arguments :: "(string \<times> pyval) list"
  ec_now :: datetime
  ec_rate_checker :: "rate_checker option"

type_synonym evaluator = "pyval \<Rightarrow> eval_ctx \<Rightarrow> bool option"
type_synonym constraint_registry = "(string \<times> evaluator) list"

definition TRUST_ORDER :: "(string \<times> nat) list" where
  "TRUST_ORDER =
     [(''newcomer'', 0), (''contributor'', 1), (''trusted'', 2), (''core'', 3), (''admin'', 4)]"

section \<open>The registry of evaluators\<close>

definition register_constraint_evaluator ::
  "string \<Rightarrow> evaluator \<Rightarrow> constraint_registry \<Rightarrow> constraint_registry" where
  "register_constraint_evaluator name f reg = AList.update name f reg"

definition unregister_constraint_evaluator ::
  "string \<Rightarrow> constraint_registry \<Rightarrow> constraint_registry" where
  "unregister_constraint_evaluator name reg = AList.delete name reg"

definition get_supported_constraints :: "constraint_registry \<Rightarrow> string set" where
  "get_supported_constraints reg = fst ` set reg"

fun eval_operations :: evaluator where
  "eval_operations (PList xs) cx = Some (py_in (PStr (ec_operation cx)) xs)"
| "eval_operations _ cx = Some False"

fun eval_resource_types :: evaluator where
  "eval_resource_types (PList xs) cx = Some (py_in (PStr (ar_type (ec_resource cx))) xs)"
| "eval_resource_types _ cx = Some False"

fun eval_resource_ids :: evaluator where
  "eval_resource_ids (PList xs) cx = Some (py_in (PStr (uuid_str (ar_id (ec_resource cx)))) xs)"
| "eval_resource_ids _ cx = Some False"

text \<open>\<open>value not in TRUST_ORDER\<close> hashes the value, which raises for a list or a dict.\<close>

fun eval_minimum_trust_tier :: evaluator where
  "eval_minimum_trust_tier (PList xs) cx = None"
| "eval_minimum_trust_tier (PDict d) cx = None"
| "eval_minimum_trust_tier (PStr t) cx =
     (case (map_of TRUST_ORDER t, map_of TRUST_ORDER (au_trust_tier (ec_actor cx))) of
        (Some required, Some actual) \<Rightarrow> Some (actual \<ge> required)
      | _ \<Rightarrow> Some False)"
| "eval_minimum_trust_tier _ cx = Some False"

fun eval_not_before :: "(string \<Rightarrow> datetime option) \<Rightarrow> evaluator" where
  "eval_not_before fromiso (PStr s) cx =
     (case fromiso s of Some t \<Rightarrow> Some (ec_now cx \<ge> t) | None \<Rightarrow> Some False)"
| "eval_not_before fromiso _ cx = Some False"

fun eval_not_after :: "(string \<Rightarrow> datetime option) \<Rightarrow> evaluator" where
  "eval_not_after fromiso (PStr s) cx =
     (case fromiso s of Some t \<Rightarrow> Some (ec_now cx < t) | None \<Rightarrow> Some False)"
| "eval_not_after fromiso _ cx = Some False"

definition argument_allowed :: "(string \<times> pyval) list \<Rightarrow> string \<times> pyval \<Rightarrow> bool" where
  "argument_allowed arguments item =
     (case item of
        (name, PList xs) \<Rightarrow>
          (case map_of arguments name of None \<Rightarrow> False | Some v \<Rightarrow> py_in v xs)
      | _ \<Rightarrow> False)"

fun eval_arguments :: evaluator where
  "eval_arguments (PDict d) cx = Some (list_all (argument_allowed (ec_arguments cx)) d)"
| "eval_arguments _ cx = Some False"

fun eval_rate :: evaluator where
  "eval_rate (PDict d) cx = (case ec_rate_checker cx of None \<Rightarrow> Some False | Some check \<Rightarrow> check d)"
| "eval_rate _ cx = Some False"

definition builtin_registry :: "(string \<Rightarrow> datetime option) \<Rightarrow> constraint_registry" where
  "builtin_registry fromiso =
     fold (\<lambda>(name, f). register_constraint_evaluator name f)
       [(''operations'', eval_operations),
        (''resource_types'', eval_resource_types),
        (''resource_ids'', eval_resource_ids),
        (''minimum_trust_tier'', eval_minimum_trust_tier),
        (''not_before'', eval_not_before fromiso),
        (''not_after'', eval_not_after fromiso),
        (''arguments'', eval_arguments),
        (''rate'', eval_rate)] []"

section \<open>The decision\<close>

text \<open>The loop of \<open>_constraints_allow\<close>: None when an evaluator raises.\<close>

fun constraints_allow :: "constraint_registry \<Rightarrow> (string \<times> pyval) list \<Rightarrow> eval_ctx \<Rightarrow> bool option" where
  "constraints_allow reg [] cx = Some True"
| "constraints_allow reg ((name, v) # cs) cx =
     (case map_of reg name of
        None \<Rightarrow> Some False
      | Some f \<Rightarrow>
          (case f v cx of
             None \<Rightarrow> None
           | Some False \<Rightarrow> Some False
           | Some True \<Rightarrow> constraints_allow reg cs cx))"

definition operation_to_share_permission :: "string \<Rightarrow> string \<Rightarrow> string" where
  "operation_to_share_permission operation capability =
     (if operation \<in> {''read'', ''list'', ''get'', ''describe''} then ''read''
      else if operation \<in> {''execute'', ''run'', ''invoke''} then ''execute''
      else if operation \<in> {''fork'', ''clone'', ''copy''} then ''fork''
      else ''read'')"

record auth_request =
  rq_organization_id :: uuid
  rq_actor :: "auth_actor option"
  rq_organization :: "auth_organization option"
  rq_resource :: auth_resource
  rq_capability :: string
  rq_operation :: string
  rq_grants :: "auth_grant list"
  rq_arguments :: "(string \<times> pyval) list"
  rq_now :: datetime
  rq_rate_checker :: "rate_checker option"
  rq_share_checker :: "share_checker option"

definition deny :: "uuid \<Rightarrow> string \<Rightarrow> decision" where
  "deny did why = \<lparr> allowed = False, decision_id = did, reason = why, dec_grant_id = None \<rparr>"

definition is_candidate :: "auth_request \<Rightarrow> auth_actor \<Rightarrow> auth_grant \<Rightarrow> bool" where
  "is_candidate rq actor g \<longleftrightarrow>
     ag_organization_id g = rq_organization_id rq \<and> ag_actor_id g = au_id actor
     \<and> (ag_capability g = rq_capability rq \<or> ag_capability g = ''*'')
     \<and> ag_state g = ''active''
     \<and> (case ag_expires_at g of None \<Rightarrow> True | Some t \<Rightarrow> t > rq_now rq)"

definition grant_ctx :: "auth_request \<Rightarrow> auth_actor \<Rightarrow> auth_grant \<Rightarrow> eval_ctx" where
  "grant_ctx rq actor g = \<lparr> ec_grant = g, ec_actor = actor, ec_resource = rq_resource rq,
     ec_operation = rq_operation rq, ec_arguments = rq_arguments rq, ec_now = rq_now rq,
     ec_rate_checker = rq_rate_checker rq \<rparr>"

definition grant_allows :: "constraint_registry \<Rightarrow> auth_request \<Rightarrow> auth_actor \<Rightarrow> auth_grant \<Rightarrow> bool option" where
  "grant_allows reg rq actor g = constraints_allow reg (ag_constraints g) (grant_ctx rq actor g)"

text \<open>The loop over the candidates: the first whose constraints hold decides.\<close>

fun try_grants :: "constraint_registry \<Rightarrow> auth_request \<Rightarrow> auth_actor \<Rightarrow> uuid \<Rightarrow> auth_grant list \<Rightarrow> decision" where
  "try_grants reg rq actor did [] = deny did ''constraints_unsatisfied''"
| "try_grants reg rq actor did (g # gs) =
     (case grant_allows reg rq actor g of
        None \<Rightarrow> deny did ''policy_evaluation_failed''
      | Some True \<Rightarrow> \<lparr> allowed = True, decision_id = did, reason = ''allowed'', dec_grant_id = Some (ag_id g) \<rparr>
      | Some False \<Rightarrow> try_grants reg rq actor did gs)"

text \<open>
  The share of a cross-organization resource: \<open>Some True\<close> when the resource is the
  organization's own or the checker reports a share, None when the checker raises.
\<close>

definition resource_reachable :: "auth_request \<Rightarrow> bool option" where
  "resource_reachable rq =
     (let r = rq_resource rq in
      if ar_organization_id r \<noteq> rq_organization_id rq then
        (case rq_share_checker rq of
           None \<Rightarrow> Some False
         | Some check \<Rightarrow>
             check (ar_type r) (ar_id r) (rq_organization_id rq)
               (operation_to_share_permission (rq_operation rq) (rq_capability rq)))
      else Some True)"

definition authorize :: "constraint_registry \<Rightarrow> uuid \<Rightarrow> auth_request \<Rightarrow> decision" where
  "authorize reg did rq =
     (case rq_actor rq of
        None \<Rightarrow> deny did ''actor_invalid''
      | Some actor \<Rightarrow>
          if au_organization_id actor \<noteq> rq_organization_id rq \<or> au_state actor \<noteq> ''active''
          then deny did ''actor_invalid''
          else
            (case resource_reachable rq of
               None \<Rightarrow> deny did ''policy_evaluation_failed''
             | Some False \<Rightarrow> deny did ''resource_ownership_mismatch''
             | Some True \<Rightarrow>
                 (case rq_organization rq of
                    None \<Rightarrow> deny did ''organization_inactive''
                  | Some org \<Rightarrow>
                      if ao_id org \<noteq> rq_organization_id rq \<or> ao_state org \<noteq> ''active''
                      then deny did ''organization_inactive''
                      else
                        (let candidates = filter (is_candidate rq actor) (rq_grants rq)
                         in if candidates = [] then deny did ''grant_missing''
                            else try_grants reg rq actor did candidates))))"

section \<open>Rate limits\<close>

record rate_limit_result =
  rl_allowed :: bool
  rl_remaining :: int
  rl_reset_after :: int

datatype rate_error = RateValueError | RateLimiterNotAvailable

text \<open>
  \<open>RateLimiter.check\<close>: \<open>redis key window\<close> is what the increment-and-expire transaction and the
  \<open>TTL\<close> command answer, the new count and the remaining time.
\<close>

definition rate_check ::
  "(string \<Rightarrow> int \<Rightarrow> (int \<times> int) option) \<Rightarrow> string \<Rightarrow> int \<Rightarrow> int \<Rightarrow> rate_error + rate_limit_result" where
  "rate_check redis key limit window =
     (if limit \<le> 0 \<or> window \<le> 0 then Inl RateValueError
      else
        (case redis key window of
           None \<Rightarrow> Inl RateLimiterNotAvailable
         | Some (count, ttl) \<Rightarrow>
             Inr \<lparr> rl_allowed = (count \<le> limit), rl_remaining = max (limit - count) 0,
                   rl_reset_after = max ttl 0 \<rparr>))"

text \<open>\<open>isinstance(v, int)\<close>, which a bool satisfies, with the integer's value.\<close>

fun as_int :: "pyval \<Rightarrow> int option" where
  "as_int (PInt i) = Some i"
| "as_int (PBool b) = Some (if b then 1 else 0)"
| "as_int _ = None"

definition rate_key :: "uuid \<Rightarrow> string \<Rightarrow> string" where
  "rate_key actor_id capability = ''xiosync:rate:'' @ uuid_str actor_id @ '':'' @ capability"

definition build_rate_checker ::
  "(string \<Rightarrow> int \<Rightarrow> (int \<times> int) option) \<Rightarrow> uuid \<Rightarrow> string \<Rightarrow> rate_checker" where
  "build_rate_checker redis actor_id capability config =
     (case (as_int (get_none config ''limit''), as_int (get_none config ''window_seconds'')) of
        (Some limit, Some window) \<Rightarrow>
          if limit \<le> 0 \<or> window \<le> 0 then Some False
          else
            (case rate_check redis (rate_key actor_id capability) limit window of
               Inr result \<Rightarrow> Some (rl_allowed result)
             | Inl RateLimiterNotAvailable \<Rightarrow> Some False
             | Inl RateValueError \<Rightarrow> None)
      | _ \<Rightarrow> Some False)"

section \<open>Facts\<close>

lemma constraints_allow_True:
  "constraints_allow reg cs cx = Some True \<longleftrightarrow>
     (\<forall>(n, v) \<in> set cs. \<exists>f. map_of reg n = Some f \<and> f v cx = Some True)"
  by (induction cs) (auto split: option.splits bool.splits)

lemma constraints_allow_lookup:
  assumes "constraints_allow reg cs cx = Some True" and "map_of cs n = Some v" and "map_of reg n = Some f"
  shows "f v cx = Some True"
  using assms map_of_SomeD [OF assms(2)] by (fastforce simp: constraints_allow_True)

definition first_allowing :: "constraint_registry \<Rightarrow> auth_request \<Rightarrow> auth_actor \<Rightarrow> auth_grant list \<Rightarrow>
    auth_grant list \<Rightarrow> auth_grant \<Rightarrow> auth_grant list \<Rightarrow> bool" where
  "first_allowing reg rq actor gs pre g post \<longleftrightarrow>
     gs = pre @ g # post \<and> list_all (\<lambda>h. grant_allows reg rq actor h = Some False) pre
     \<and> grant_allows reg rq actor g = Some True"

lemma first_allowing_Cons:
  "(\<exists>pre g post. first_allowing reg rq actor (h # gs) pre g post) \<longleftrightarrow>
     grant_allows reg rq actor h = Some True
     \<or> grant_allows reg rq actor h = Some False \<and> (\<exists>pre g post. first_allowing reg rq actor gs pre g post)"
  (is "?L \<longleftrightarrow> ?T \<or> ?F \<and> ?R")
proof
  assume ?L
  then obtain pre g post where f: "first_allowing reg rq actor (h # gs) pre g post" by blast
  show "?T \<or> ?F \<and> ?R"
  proof (cases pre)
    case Nil
    with f show ?thesis by (simp add: first_allowing_def)
  next
    case (Cons x pre')
    with f have "?F" and "first_allowing reg rq actor gs pre' g post"
      by (simp_all add: first_allowing_def)
    then show ?thesis by blast
  qed
next
  assume "?T \<or> ?F \<and> ?R"
  then show ?L
  proof
    assume ?T
    then have "first_allowing reg rq actor (h # gs) [] h gs" by (simp add: first_allowing_def)
    then show ?L by blast
  next
    assume "?F \<and> ?R"
    then obtain pre g post where "?F" and "first_allowing reg rq actor gs pre g post" by blast
    then have "first_allowing reg rq actor (h # gs) (h # pre) g post" by (simp add: first_allowing_def)
    then show ?L by blast
  qed
qed

lemma try_grants_allowed_iff:
  "allowed (try_grants reg rq actor did gs) \<longleftrightarrow>
     (\<exists>pre g post. first_allowing reg rq actor gs pre g post)"
proof (induction gs)
  case Nil
  then show ?case by (simp add: deny_def first_allowing_def)
next
  case (Cons h gs)
  then show ?case
    unfolding first_allowing_Cons by (auto simp: deny_def split: option.split bool.split)
qed

lemma try_grants_decision:
  "allowed (try_grants reg rq actor did gs) \<Longrightarrow>
     \<exists>g \<in> set gs. dec_grant_id (try_grants reg rq actor did gs) = Some (ag_id g)
       \<and> grant_allows reg rq actor g = Some True"
  by (induction gs) (auto simp: deny_def split: option.splits bool.splits)

lemma authorize_id [simp]: "decision_id (authorize reg did rq) = did"
proof -
  have "decision_id (try_grants reg rq actor did gs) = did" for actor gs
    by (induction gs) (auto simp: deny_def split: option.split bool.split)
  then show ?thesis
    by (simp add: authorize_def deny_def Let_def split: option.split bool.split)
qed

definition gates_open :: "auth_request \<Rightarrow> auth_actor \<Rightarrow> bool" where
  "gates_open rq actor \<longleftrightarrow>
     rq_actor rq = Some actor \<and> au_organization_id actor = rq_organization_id rq
     \<and> au_state actor = ''active'' \<and> resource_reachable rq = Some True
     \<and> (\<exists>org. rq_organization rq = Some org \<and> ao_id org = rq_organization_id rq
          \<and> ao_state org = ''active'')"

lemma authorize_gates:
  "gates_open rq actor \<Longrightarrow> authorize reg did rq =
     (let cs = filter (is_candidate rq actor) (rq_grants rq)
      in if cs = [] then deny did ''grant_missing'' else try_grants reg rq actor did cs)"
  by (auto simp: authorize_def gates_open_def)

lemma authorize_gates_closed: "(\<And>actor. \<not> gates_open rq actor) \<Longrightarrow> \<not> allowed (authorize reg did rq)"
  by (auto simp: authorize_def gates_open_def deny_def split: option.splits bool.splits)

lemma authorize_allowed_gates: "allowed (authorize reg did rq) \<Longrightarrow> \<exists>actor. gates_open rq actor"
  using authorize_gates_closed by blast

section \<open>Properties\<close>

text \<open>
  C1. The decision is fail-closed and exact. A request is allowed if and only if the actor exists,
  is active and belongs to the requested organization, the resource is the organization's own or
  shared with it, the organization is active, and among the actor's live grants for the capability
  one has all its constraints registered and satisfied while every earlier one was evaluated
  without a raise and found unsatisfied. Every other path denies.
\<close>

theorem authorize_allowed_iff:
  "allowed (authorize reg did rq) \<longleftrightarrow>
     (\<exists>actor pre g post. gates_open rq actor
        \<and> filter (is_candidate rq actor) (rq_grants rq) = pre @ g # post
        \<and> list_all (\<lambda>h. grant_allows reg rq actor h = Some False) pre
        \<and> list_all (\<lambda>(n, v). case map_of reg n of None \<Rightarrow> False
              | Some f \<Rightarrow> f v (grant_ctx rq actor g) = Some True) (ag_constraints g))"
proof -
  have cons: "list_all (\<lambda>(n, v). case map_of reg n of None \<Rightarrow> False
        | Some f \<Rightarrow> f v (grant_ctx rq actor g) = Some True) (ag_constraints g)
      \<longleftrightarrow> grant_allows reg rq actor g = Some True" for actor g
    unfolding grant_allows_def constraints_allow_True list_all_iff
    by (intro ball_cong refl) (auto split: option.split)
  have gate: "allowed (authorize reg did rq) \<longleftrightarrow>
      (\<exists>pre g post. first_allowing reg rq actor (filter (is_candidate rq actor) (rq_grants rq)) pre g post)"
    if "gates_open rq actor" for actor
    unfolding authorize_gates [OF that] Let_def
    by (simp add: try_grants_allowed_iff deny_def first_allowing_def)
  show ?thesis
    unfolding cons using gate authorize_allowed_gates [of reg did rq]
    unfolding first_allowing_def by metis
qed

lemma builtin_resource_ids: "map_of (builtin_registry fromiso) ''resource_ids'' = Some eval_resource_ids"
  by (simp add: builtin_registry_def register_constraint_evaluator_def)

text \<open>
  Confinement. With the built-in evaluators, when each of the actor's grants carries a
  \<open>resource_ids\<close> constraint, an allowed request is for a resource named by the very grant that
  the decision cites: the textual comparison of identifiers admits no other resource.
\<close>

theorem resource_ids_confine:
  assumes ok: "allowed (authorize (builtin_registry fromiso) did rq)"
    and grants: "\<And>g. g \<in> set (rq_grants rq) \<Longrightarrow>
      map_of (ag_constraints g) ''resource_ids'' = Some (PList (map (\<lambda>u. PStr (uuid_str u)) (ids g)))"
  shows "\<exists>g \<in> set (rq_grants rq). dec_grant_id (authorize (builtin_registry fromiso) did rq) = Some (ag_id g)
     \<and> ag_state g = ''active'' \<and> ar_id (rq_resource rq) \<in> set (ids g)"
proof -
  obtain actor where gates: "gates_open rq actor"
    using authorize_allowed_gates [OF ok] by blast
  define cs where "cs = filter (is_candidate rq actor) (rq_grants rq)"
  have eq: "authorize (builtin_registry fromiso) did rq =
      (if cs = [] then deny did ''grant_missing'' else try_grants (builtin_registry fromiso) rq actor did cs)"
    unfolding cs_def authorize_gates [OF gates] Let_def ..
  with ok have tg: "allowed (try_grants (builtin_registry fromiso) rq actor did cs)" and "cs \<noteq> []"
    by (auto simp: deny_def split: if_splits)
  from try_grants_decision [OF tg] obtain g where g: "g \<in> set cs"
    and dec: "dec_grant_id (try_grants (builtin_registry fromiso) rq actor did cs) = Some (ag_id g)"
    and all: "constraints_allow (builtin_registry fromiso) (ag_constraints g) (grant_ctx rq actor g) = Some True"
    unfolding grant_allows_def by blast
  from g have mem: "g \<in> set (rq_grants rq)" and act: "ag_state g = ''active''"
    by (auto simp: cs_def is_candidate_def)
  from constraints_allow_lookup [OF all grants [OF mem] builtin_resource_ids]
  have "ar_id (rq_resource rq) \<in> set (ids g)"
    by (auto simp: py_in_def list_ex_iff grant_ctx_def uuid_str_inj)
  with mem act dec eq \<open>cs \<noteq> []\<close> show ?thesis by auto
qed

definition example_grant :: auth_grant where
  "example_grant = \<lparr> ag_id = 5, ag_organization_id = 1, ag_actor_id = 2, ag_capability = ''*'',
     ag_state = ''active'', ag_constraints = [(''resource_ids'', PList [PStr (uuid_str 7)])],
     ag_expires_at = None \<rparr>"

definition example_request :: auth_request where
  "example_request = \<lparr> rq_organization_id = 1,
     rq_actor = Some \<lparr> au_id = 2, au_organization_id = 1, au_state = ''active'', au_trust_tier = ''core'' \<rparr>,
     rq_organization = Some \<lparr> ao_id = 1, ao_state = ''active'' \<rparr>,
     rq_resource = \<lparr> ar_type = ''workflow'', ar_id = 7, ar_organization_id = 1 \<rparr>,
     rq_capability = ''workflow.manage'', rq_operation = ''read'', rq_grants = [example_grant],
     rq_arguments = [], rq_now = 0, rq_rate_checker = None, rq_share_checker = None \<rparr>"

lemma example_allowed: "allowed (authorize (builtin_registry fromiso) did example_request)"
  by (simp add: authorize_def example_request_def example_grant_def resource_reachable_def
      is_candidate_def grant_allows_def builtin_resource_ids grant_ctx_def py_in_def)

theorem resource_ids_confine_witness:
  "\<exists>g \<in> set (rq_grants example_request).
     dec_grant_id (authorize (builtin_registry (\<lambda>_. None)) 9 example_request) = Some (ag_id g)
     \<and> ag_state g = ''active'' \<and> ar_id (rq_resource example_request) \<in> set [7]"
proof (rule resource_ids_confine [where ids = "\<lambda>_. [7]", OF example_allowed])
  fix g assume "g \<in> set (rq_grants example_request)"
  then show "map_of (ag_constraints g) ''resource_ids'' = Some (PList (map (\<lambda>u. PStr (uuid_str u)) [7]))"
    by (simp add: example_request_def example_grant_def)
qed

text \<open>What the decision reads of a request beside its list of grants.\<close>

lemma is_candidate_grants [simp]: "is_candidate (rq\<lparr> rq_grants := gs \<rparr>) = is_candidate rq"
  by (simp add: is_candidate_def fun_eq_iff split: option.split)

lemma resource_reachable_grants [simp]: "resource_reachable (rq\<lparr> rq_grants := gs \<rparr>) = resource_reachable rq"
  by (simp add: resource_reachable_def Let_def split: option.split)

lemma grant_ctx_grants [simp]: "grant_ctx (rq\<lparr> rq_grants := gs \<rparr>) = grant_ctx rq"
  by (simp add: grant_ctx_def fun_eq_iff)

lemma try_grants_grants [simp]:
  "try_grants reg (rq\<lparr> rq_grants := gs \<rparr>) actor did cs = try_grants reg rq actor did cs"
  by (induction cs) (auto simp: grant_allows_def split: option.split bool.split)

lemma authorize_candidates:
  assumes "\<And>actor. rq_actor rq = Some actor \<Longrightarrow>
    filter (is_candidate rq actor) gs = filter (is_candidate rq actor) (rq_grants rq)"
  shows "authorize reg did (rq\<lparr> rq_grants := gs \<rparr>) = authorize reg did rq"
  using assms by (simp add: authorize_def Let_def split: option.split bool.split)

definition live_grants :: "auth_request \<Rightarrow> auth_grant list" where
  "live_grants rq = filter (\<lambda>g. case rq_actor rq of None \<Rightarrow> False
     | Some actor \<Rightarrow> is_candidate rq actor g) (rq_grants rq)"

text \<open>
  Only live grants of the acting identity count: dropping from the request every grant that is
  revoked, expired, of another actor, of another organization or for another capability changes
  neither the verdict nor the reason.
\<close>

theorem authorize_live_grants_only:
  "authorize reg did (rq\<lparr> rq_grants := live_grants rq \<rparr>) = authorize reg did rq"
  by (rule authorize_candidates) (simp add: live_grants_def)

text \<open>A shared resource is used only under the permission its operation maps to.\<close>

lemma cross_org_needs_share:
  assumes "allowed (authorize reg did rq)" and "ar_organization_id (rq_resource rq) \<noteq> rq_organization_id rq"
  shows "\<exists>check. rq_share_checker rq = Some check \<and>
    check (ar_type (rq_resource rq)) (ar_id (rq_resource rq)) (rq_organization_id rq)
      (operation_to_share_permission (rq_operation rq) (rq_capability rq)) = Some True"
  using authorize_allowed_gates [OF assms(1)] assms(2)
  by (auto simp: gates_open_def resource_reachable_def Let_def split: option.splits)

text \<open>The rate checker never admits a call beyond the configured limit, nor on a bad configuration.\<close>

lemma rate_checker_sound:
  "build_rate_checker redis actor capability config = Some True \<Longrightarrow>
     \<exists>limit window count ttl. as_int (get_none config ''limit'') = Some limit
       \<and> as_int (get_none config ''window_seconds'') = Some window \<and> 0 < limit \<and> 0 < window
       \<and> redis (rate_key actor capability) window = Some (count, ttl) \<and> count \<le> limit"
  by (auto simp: build_rate_checker_def rate_check_def split: option.splits sum.splits if_splits
      rate_error.splits)

lemma rate_checker_never_raises: "build_rate_checker redis actor capability config \<noteq> None"
  by (auto simp: build_rate_checker_def rate_check_def split: option.splits)

end
