(* ===== verification/Tenancy.thy ===== *)
theory Tenancy
  imports Prelude
begin

text \<open>
  The resolved request context of \<^verbatim>\<open>domain/context.py\<close>. Construction validates every field,
  so that holding a context is proof that the tenant was resolved. The arguments of the
  constructor are arbitrary Python values; \<open>NotUuid\<close> and \<open>NotRole\<close> carry the type name of one
  that is of another type.
\<close>

datatype platform_role = PlatformNone | PlatformAdmin

datatype membership_role = OrgOwner | OrgAdmin | OrgMember | OrgViewer

datatype uuid_arg = IsUuid uuid | NotUuid string

datatype 'r role_arg = IsRole 'r | NotRole string

datatype context_error =
    NotAUuid string string
  | NilUuid string
  | NotAPlatformRole string
  | NotAMembershipRole string

record org_context =
  oc_auth_identity_id :: uuid
  oc_actor_id :: uuid
  oc_organization_id :: uuid
  oc_session_id :: uuid
  oc_platform_role :: platform_role
  oc_membership_role :: membership_role

fun required_uuid :: "uuid_arg \<Rightarrow> string \<Rightarrow> context_error + uuid" where
  "required_uuid (NotUuid t) field = Inl (NotAUuid field t)"
| "required_uuid (IsUuid u) field = (if u = 0 then Inl (NilUuid field) else Inr u)"

fun required_platform_role :: "platform_role role_arg \<Rightarrow> context_error + platform_role" where
  "required_platform_role (NotRole t) = Inl (NotAPlatformRole t)"
| "required_platform_role (IsRole r) = Inr r"

fun required_membership_role :: "membership_role role_arg \<Rightarrow> context_error + membership_role" where
  "required_membership_role (NotRole t) = Inl (NotAMembershipRole t)"
| "required_membership_role (IsRole r) = Inr r"

text \<open>\<open>OrgContext(...)\<close> with its \<open>__post_init__\<close>.\<close>

definition mk_org_context ::
  "uuid_arg \<Rightarrow> uuid_arg \<Rightarrow> uuid_arg \<Rightarrow> uuid_arg \<Rightarrow> platform_role role_arg \<Rightarrow> membership_role role_arg
   \<Rightarrow> context_error + org_context" where
  "mk_org_context auth_identity actor organization session platform membership =
     rbind (required_uuid auth_identity ''auth_identity_id'') (\<lambda>ai.
     rbind (required_uuid actor ''actor_id'') (\<lambda>ac.
     rbind (required_uuid organization ''organization_id'') (\<lambda>org.
     rbind (required_uuid session ''session_id'') (\<lambda>se.
     rbind (required_platform_role platform) (\<lambda>pr.
     rbind (required_membership_role membership) (\<lambda>mr.
       Inr \<lparr> oc_auth_identity_id = ai, oc_actor_id = ac, oc_organization_id = org,
             oc_session_id = se, oc_platform_role = pr, oc_membership_role = mr \<rparr>))))))"

lemma required_uuid_Inr: "required_uuid a field = Inr u \<longleftrightarrow> a = IsUuid u \<and> u \<noteq> 0"
  by (cases a) auto

lemma required_role_Inr:
  "required_platform_role p = Inr r \<longleftrightarrow> p = IsRole r"
  "required_membership_role m = Inr q \<longleftrightarrow> m = IsRole q"
  by (cases p; auto) (cases m; auto)

text \<open>
  A context exists exactly for six well-typed arguments with no nil identifier, and then carries
  them unchanged: no placeholder tenant can be constructed.
\<close>

lemma mk_org_context_iff:
  "mk_org_context a b c d p m = Inr cx \<longleftrightarrow>
     a = IsUuid (oc_auth_identity_id cx) \<and> b = IsUuid (oc_actor_id cx)
     \<and> c = IsUuid (oc_organization_id cx) \<and> d = IsUuid (oc_session_id cx)
     \<and> p = IsRole (oc_platform_role cx) \<and> m = IsRole (oc_membership_role cx)
     \<and> 0 \<notin> {oc_auth_identity_id cx, oc_actor_id cx, oc_organization_id cx, oc_session_id cx}"
  by (cases cx) (auto simp: mk_org_context_def required_uuid_Inr required_role_Inr)

end
