(* ===== verification/Delegation.thy ===== *)
theory Delegation
  imports Authz Tenancy Registries
begin

text \<open>
  The authorization service (\<^verbatim>\<open>services/authorization.py\<close> over
  \<^verbatim>\<open>persistence/authorization.py\<close>) and cross-organization sharing
  (\<^verbatim>\<open>services/sharing.py\<close>). Tables are lists of rows in insertion order; a query is the list
  function it denotes, and what the schema enforces (primary keys, foreign keys) is an
  \<open>IntegrityError\<close> branch of the insert. Identifiers drawn by \<open>new_id\<close> or \<open>uuid4\<close> are arguments.

  Both services revoke along delegation chains with a recursive common table expression.
  \<open>cascade\<close> is its working-table iteration; it is a partial function, since \<open>UNION ALL\<close> on a
  cyclic parent column does not end, and the development shows that on every table the
  operations can build it does.
\<close>

section \<open>The recursive query\<close>

text \<open>One iteration: the live rows joined with the working table on the parent column.\<close>

definition cascade_children ::
  "('r \<Rightarrow> uuid) \<Rightarrow> ('r \<Rightarrow> uuid option) \<Rightarrow> ('r \<Rightarrow> bool) \<Rightarrow> 'r list \<Rightarrow> uuid list \<Rightarrow> uuid list" where
  "cascade_children idf par live rows level =
     concat (map (\<lambda>r. if live r then map (\<lambda>_. idf r) (filter (\<lambda>d. par r = Some d) level) else []) rows)"

partial_function (option) cascade ::
  "('r \<Rightarrow> uuid) \<Rightarrow> ('r \<Rightarrow> uuid option) \<Rightarrow> ('r \<Rightarrow> bool) \<Rightarrow> 'r list \<Rightarrow> uuid list \<Rightarrow> uuid list
   \<Rightarrow> uuid list option" where
  "cascade idf par live rows level acc =
     (if level = [] then Some acc
      else cascade idf par live rows (cascade_children idf par live rows level) (acc @ level))"

text \<open>What it should compute: the rows reachable from the base over live children.\<close>

definition child_rel :: "('r \<Rightarrow> uuid) \<Rightarrow> ('r \<Rightarrow> uuid option) \<Rightarrow> ('r \<Rightarrow> bool) \<Rightarrow> 'r list \<Rightarrow> (uuid \<times> uuid) set" where
  "child_rel idf par live rows = {(d, idf r) | d r. r \<in> set rows \<and> live r \<and> par r = Some d}"

lemma set_cascade_children:
  "set (cascade_children idf par live rows level) = child_rel idf par live rows `` set level"
  by (auto simp: cascade_children_def child_rel_def split: if_splits)

text \<open>Every parent was inserted before its children, and identifiers are unique.\<close>

fun parents_first :: "('r \<Rightarrow> uuid) \<Rightarrow> ('r \<Rightarrow> uuid option) \<Rightarrow> uuid set \<Rightarrow> 'r list \<Rightarrow> bool" where
  "parents_first idf par seen [] = True"
| "parents_first idf par seen (r # rows) =
     (idf r \<notin> seen \<and> (case par r of None \<Rightarrow> True | Some d \<Rightarrow> d \<in> seen)
      \<and> parents_first idf par (insert (idf r) seen) rows)"

lemma parents_first_snoc:
  "parents_first idf par seen (rows @ [r]) \<longleftrightarrow>
     parents_first idf par seen rows \<and> idf r \<notin> seen \<union> idf ` set rows
     \<and> (case par r of None \<Rightarrow> True | Some d \<Rightarrow> d \<in> seen \<union> idf ` set rows)"
  by (induction rows arbitrary: seen) (auto split: option.splits)

lemma parents_first_map:
  assumes "\<And>r. idf (f r) = idf r" and "\<And>r. par (f r) = par r"
  shows "parents_first idf par seen (map f rows) = parents_first idf par seen rows"
  using assms by (induction rows arbitrary: seen) auto

lemma parents_first_distinct: "parents_first idf par seen rows \<Longrightarrow> distinct (map idf rows) \<and> seen \<inter> idf ` set rows = {}"
  by (induction rows arbitrary: seen) fastforce+

text \<open>Such a table has a rank that grows from parent to child.\<close>

lemma parents_first_rank:
  "parents_first idf par seen rows \<Longrightarrow>
     \<exists>rank :: uuid \<Rightarrow> nat. (\<forall>u \<in> seen. rank u = 0) \<and>
       (\<forall>r \<in> set rows. \<forall>d. par r = Some d \<longrightarrow> rank d < rank (idf r)) \<and> (\<forall>u. rank u \<le> length rows)"
proof (induction rows rule: rev_induct)
  case Nil
  then show ?case by (intro exI [of _ "\<lambda>_. 0"]) simp
next
  case (snoc r rows)
  then have pf: "parents_first idf par seen rows" and new: "idf r \<notin> seen \<union> idf ` set rows"
    and par: "\<And>d. par r = Some d \<Longrightarrow> d \<in> seen \<union> idf ` set rows"
    by (auto simp: parents_first_snoc split: option.splits)
  from snoc.IH [OF pf] obtain rank :: "uuid \<Rightarrow> nat" where
    seen: "\<forall>u \<in> seen. rank u = 0" and mono: "\<And>q d. q \<in> set rows \<Longrightarrow> par q = Some d \<Longrightarrow> rank d < rank (idf q)"
    and le: "\<And>u. rank u \<le> length rows" by blast
  have parents_old: "q \<in> set rows \<Longrightarrow> par q = Some d \<Longrightarrow> d \<noteq> idf r" for q d
  proof -
    have "parents_first idf par s qs \<Longrightarrow> q \<in> set qs \<Longrightarrow> par q = Some d \<Longrightarrow> d \<in> s \<union> idf ` set qs" for s qs
      by (induction qs arbitrary: s) auto
    with pf new show "q \<in> set rows \<Longrightarrow> par q = Some d \<Longrightarrow> d \<noteq> idf r" by blast
  qed
  define rank' where "rank' = rank(idf r := Suc (length rows))"
  have "rank d < Suc (length rows)" for d using le [of d] by simp
  then have "\<forall>q \<in> set (rows @ [r]). \<forall>d. par q = Some d \<longrightarrow> rank' d < rank' (idf q)"
    using mono parents_old par new by (auto simp: rank'_def)
  moreover have "\<forall>u \<in> seen. rank' u = 0" using seen new by (auto simp: rank'_def)
  moreover have "\<forall>u. rank' u \<le> length (rows @ [r])" using le by (auto simp: rank'_def intro: le_SucI)
  ultimately show ?case by blast
qed

lemma cascade_ranked:
  assumes mono: "\<And>r d. r \<in> set rows \<Longrightarrow> par r = Some d \<Longrightarrow> (rank :: uuid \<Rightarrow> nat) d < rank (idf r)"
    and bound: "\<And>u. rank u \<le> N"
  shows "\<forall>u \<in> set level. N < rank u + m \<Longrightarrow>
    \<exists>ids. cascade idf par live rows level acc = Some ids
      \<and> set ids = set acc \<union> (child_rel idf par live rows)\<^sup>* `` set level"
proof (induction m arbitrary: level acc)
  case 0
  then have "level = []" using bound by (metis add_0_right last_in_set leD)
  then show ?case by (simp add: cascade.simps [of idf par live rows])
next
  case (Suc m)
  let ?E = "child_rel idf par live rows" and ?next = "cascade_children idf par live rows level"
  have "\<forall>u \<in> set ?next. N < rank u + m"
  proof
    fix u assume "u \<in> set ?next"
    then obtain d r where "d \<in> set level" "r \<in> set rows" "par r = Some d" "u = idf r"
      by (auto simp: set_cascade_children child_rel_def)
    with mono [of r d] Suc.prems show "N < rank u + m" by fastforce
  qed
  from Suc.IH [OF this, of "acc @ level"] obtain ids where
    ids: "cascade idf par live rows ?next (acc @ level) = Some ids"
      "set ids = set (acc @ level) \<union> ?E\<^sup>* `` set ?next" by blast
  have closure: "?E\<^sup>* `` set level = set level \<union> ?E\<^sup>* `` (?E `` set level)"
    by (auto elim: converse_rtranclE intro: converse_rtrancl_into_rtrancl)
  show ?case
  proof (cases "level = []")
    case True
    then show ?thesis by (simp add: cascade.simps [of idf par live rows])
  next
    case False
    with ids closure show ?thesis
      by (simp add: cascade.simps [of idf par live rows level] set_cascade_children Un_assoc)
  qed
qed

text \<open>On a table built in parent-first order the query ends, with the reachable rows.\<close>

lemma cascade_result:
  assumes "parents_first idf par {} rows"
  shows "\<exists>ids. cascade idf par live rows level [] = Some ids
    \<and> set ids = (child_rel idf par live rows)\<^sup>* `` set level"
proof -
  from parents_first_rank [OF assms] obtain rank :: "uuid \<Rightarrow> nat" where
    mono: "\<And>r d. r \<in> set rows \<Longrightarrow> par r = Some d \<Longrightarrow> rank d < rank (idf r)"
    and bound: "\<And>u. rank u \<le> length rows" by blast
  have "\<forall>u \<in> set level. length rows < rank u + Suc (length rows)" by simp
  from cascade_ranked [where live = live and acc = "[]", OF mono bound this] show ?thesis by simp
qed

section \<open>Tables of the authorization service\<close>

record capability_row =
  cp_id :: uuid
  cp_organization_id :: uuid
  cp_name :: string
  cp_requires :: "uuid option list"

text \<open>
  \<open>cp_requires\<close> holds the prerequisite ids; None is an entry \<open>uuid.UUID\<close> rejects.
\<close>

record grant_row =
  gr_id :: uuid
  gr_organization_id :: uuid
  gr_actor_id :: uuid
  gr_capability_id :: uuid
  gr_state :: string
  gr_constraints :: "(string \<times> pyval) list"
  gr_expires_at :: "datetime option"
  gr_revoked_at :: "datetime option"
  gr_granted_by :: "uuid option"
  gr_parent_grant_id :: "uuid option"

record policy_event =
  pe_organization_id :: uuid
  pe_actor_id :: uuid
  pe_payload :: "(string \<times> pyval) list"

record auth_db =
  db_actors :: "auth_actor list"
  db_organizations :: "auth_organization list"
  db_capabilities :: "capability_row list"
  db_grants :: "grant_row list"
  db_policy_events :: "policy_event list"

definition get_actor :: "auth_db \<Rightarrow> org_context \<Rightarrow> auth_actor option" where
  "get_actor db cx =
     find (\<lambda>a. au_organization_id a = oc_organization_id cx \<and> au_id a = oc_actor_id cx) (db_actors db)"

definition get_organization :: "auth_db \<Rightarrow> org_context \<Rightarrow> auth_organization option" where
  "get_organization db cx = find (\<lambda>o'. ao_id o' = oc_organization_id cx) (db_organizations db)"

definition grant_of_row :: "grant_row \<Rightarrow> string \<Rightarrow> auth_grant" where
  "grant_of_row g name = \<lparr> ag_id = gr_id g, ag_organization_id = gr_organization_id g,
     ag_actor_id = gr_actor_id g, ag_capability = name, ag_state = gr_state g,
     ag_constraints = gr_constraints g, ag_expires_at = gr_expires_at g \<rparr>"

text \<open>The join of grants and capabilities, filtered by tenant, actor and capability name.\<close>

definition list_grants :: "auth_db \<Rightarrow> org_context \<Rightarrow> string \<Rightarrow> auth_grant list" where
  "list_grants db cx capability =
     concat (map (\<lambda>g.
       map (\<lambda>c. grant_of_row g (cp_name c))
         (filter (\<lambda>c. cp_id c = gr_capability_id g \<and> cp_organization_id c = gr_organization_id g
            \<and> (cp_name c = capability \<or> cp_name c = ''*'')) (db_capabilities db)))
       (filter (\<lambda>g. gr_organization_id g = oc_organization_id cx \<and> gr_actor_id g = oc_actor_id cx)
         (db_grants db)))"

section \<open>AuthorizationService.authorize\<close>

text \<open>
  The environment of one call: the registry, the limiter's store if there is one, the checkers the
  caller passes, the clock, and whether the lookups and the insert of the policy event succeed.
\<close>

record auth_env =
  ae_registry :: constraint_registry
  ae_rate_limiter :: "(string \<Rightarrow> int \<Rightarrow> (int \<times> int) option) option"
  ae_rate_checker :: "rate_checker option"
  ae_share_checker :: "share_checker option"
  ae_now :: datetime
  ae_lookups_ok :: bool
  ae_emit_ok :: bool

definition effective_rate_checker :: "auth_env \<Rightarrow> org_context \<Rightarrow> string \<Rightarrow> rate_checker option" where
  "effective_rate_checker env cx capability =
     (case (ae_rate_checker env, ae_rate_limiter env) of
        (None, Some redis) \<Rightarrow> Some (build_rate_checker redis (oc_actor_id cx) capability)
      | (checker, _) \<Rightarrow> checker)"

definition service_request ::
  "auth_db \<Rightarrow> auth_env \<Rightarrow> org_context \<Rightarrow> string \<Rightarrow> string \<Rightarrow> auth_resource \<Rightarrow> (string \<times> pyval) list
   \<Rightarrow> auth_request" where
  "service_request db env cx capability operation res arguments =
     \<lparr> rq_organization_id = oc_organization_id cx, rq_actor = get_actor db cx,
       rq_organization = get_organization db cx, rq_resource = res, rq_capability = capability,
       rq_operation = operation, rq_grants = list_grants db cx capability,
       rq_arguments = arguments, rq_now = ae_now env,
       rq_rate_checker = effective_rate_checker env cx capability,
       rq_share_checker = ae_share_checker env \<rparr>"

definition decision_payload ::
  "decision \<Rightarrow> org_context \<Rightarrow> string \<Rightarrow> string \<Rightarrow> auth_resource \<Rightarrow> (string \<times> pyval) list" where
  "decision_payload d cx capability operation res =
     [(''decision_id'', PStr (uuid_str (decision_id d))),
      (''allowed'', PBool (allowed d)),
      (''reason'', PStr (reason d)),
      (''actor_id'', PStr (uuid_str (oc_actor_id cx))),
      (''requested_organization_id'', PStr (uuid_str (oc_organization_id cx))),
      (''capability'', PStr capability),
      (''operation'', PStr operation),
      (''resource_type'', PStr (ar_type res)),
      (''resource_id'', PStr (uuid_str (ar_id res))),
      (''resource_organization_id'', PStr (uuid_str (ar_organization_id res))),
      (''grant_id'', case dec_grant_id d of None \<Rightarrow> PNone | Some g \<Rightarrow> PStr (uuid_str g))]"

definition add_policy_event :: "auth_db \<Rightarrow> org_context \<Rightarrow> (string \<times> pyval) list \<Rightarrow> auth_db" where
  "add_policy_event db cx payload = db\<lparr> db_policy_events := db_policy_events db @
     [\<lparr> pe_organization_id = oc_organization_id cx, pe_actor_id = oc_actor_id cx, pe_payload = payload \<rparr>] \<rparr>"

definition service_authorize ::
  "auth_env \<Rightarrow> uuid \<Rightarrow> org_context \<Rightarrow> string \<Rightarrow> string \<Rightarrow> auth_resource \<Rightarrow> (string \<times> pyval) list
   \<Rightarrow> auth_db \<Rightarrow> decision \<times> auth_db" where
  "service_authorize env did cx capability operation res arguments db =
     (let d = (if ae_lookups_ok env
               then authorize (ae_registry env) did
                      (service_request db env cx capability operation res arguments)
               else deny did ''authorization_lookup_failed'')
      in if ae_emit_ok env
         then (d, add_policy_event db cx (decision_payload d cx capability operation res))
         else (\<lparr> allowed = False, decision_id = decision_id d,
                 reason = ''policy_event_emission_failed'', dec_grant_id = dec_grant_id d \<rparr>, db))"

section \<open>Creating and revoking grants\<close>

datatype grant_error =
    CapabilityNotFound uuid
  | BadPrerequisiteId
  | PrerequisiteNotGranted uuid
  | GrantIntegrityError

definition has_active_grant :: "auth_db \<Rightarrow> uuid \<Rightarrow> uuid \<Rightarrow> uuid \<Rightarrow> bool" where
  "has_active_grant db org actor cap =
     list_ex (\<lambda>g. gr_organization_id g = org \<and> gr_actor_id g = actor
        \<and> gr_capability_id g = cap \<and> gr_state g = ''active'') (db_grants db)"

fun check_prerequisites :: "auth_db \<Rightarrow> uuid \<Rightarrow> uuid \<Rightarrow> uuid option list \<Rightarrow> grant_error + unit" where
  "check_prerequisites db org actor [] = Inr ()"
| "check_prerequisites db org actor (None # ps) = Inl BadPrerequisiteId"
| "check_prerequisites db org actor (Some p # ps) =
     (if \<not> has_active_grant db org actor p then Inl (PrerequisiteNotGranted p)
      else check_prerequisites db org actor ps)"

text \<open>
  \<open>session.add\<close> and \<open>flush\<close> of a grant: the primary key, the state check and the three composite
  foreign keys (actor, capability and parent grant of the same organization), and the reference
  to the granting actor.
\<close>

definition insert_grant :: "grant_row \<Rightarrow> auth_db \<Rightarrow> grant_error + auth_db" where
  "insert_grant g db =
     (if gr_id g \<in> set (map gr_id (db_grants db)) \<or> gr_state g \<notin> {''active'', ''revoked''}
         \<or> \<not> list_ex (\<lambda>a. au_organization_id a = gr_organization_id g \<and> au_id a = gr_actor_id g) (db_actors db)
         \<or> \<not> list_ex (\<lambda>c. cp_organization_id c = gr_organization_id g \<and> cp_id c = gr_capability_id g)
              (db_capabilities db)
         \<or> (case gr_parent_grant_id g of None \<Rightarrow> False
            | Some p \<Rightarrow> \<not> list_ex (\<lambda>q. gr_organization_id q = gr_organization_id g \<and> gr_id q = p) (db_grants db))
         \<or> (case gr_granted_by g of None \<Rightarrow> False | Some u \<Rightarrow> u \<notin> set (map au_id (db_actors db)))
      then Inl GrantIntegrityError
      else Inr (db\<lparr> db_grants := db_grants db @ [g] \<rparr>))"

definition create_grant ::
  "org_context \<Rightarrow> uuid \<Rightarrow> uuid \<Rightarrow> uuid \<Rightarrow> uuid option \<Rightarrow> uuid option \<Rightarrow> (string \<times> pyval) list
   \<Rightarrow> datetime option \<Rightarrow> auth_db \<Rightarrow> grant_error + auth_db" where
  "create_grant cx gid actor_id capability_id granted_by parent_grant_id constraints expires_at db =
     (case find (\<lambda>c. cp_id c = capability_id \<and> cp_organization_id c = oc_organization_id cx)
             (db_capabilities db) of
        None \<Rightarrow> Inl (CapabilityNotFound capability_id)
      | Some cap \<Rightarrow>
          rbind (check_prerequisites db (oc_organization_id cx) actor_id (cp_requires cap))
            (\<lambda>_. insert_grant
               \<lparr> gr_id = gid, gr_organization_id = oc_organization_id cx, gr_actor_id = actor_id,
                 gr_capability_id = capability_id, gr_state = ''active'', gr_constraints = constraints,
                 gr_expires_at = expires_at, gr_revoked_at = None,
                 gr_granted_by = (case granted_by of None \<Rightarrow> Some (oc_actor_id cx) | Some u \<Rightarrow> Some u),
                 gr_parent_grant_id = parent_grant_id \<rparr> db))"

definition live_grant :: "uuid \<Rightarrow> grant_row \<Rightarrow> bool" where
  "live_grant org g \<longleftrightarrow> gr_state g = ''active'' \<and> gr_organization_id g = org"

definition delegation_tree :: "org_context \<Rightarrow> uuid \<Rightarrow> grant_row list \<Rightarrow> uuid list option" where
  "delegation_tree cx root_id rows =
     (let org = oc_organization_id cx
      in cascade gr_id gr_parent_grant_id (live_grant org) rows
           (map gr_id (filter (\<lambda>g. gr_id g = root_id \<and> live_grant org g) rows)) [])"

definition revoke_row :: "datetime \<Rightarrow> grant_row \<Rightarrow> grant_row" where
  "revoke_row now g = g\<lparr> gr_state := ''revoked'', gr_revoked_at := Some now \<rparr>"

text \<open>\<open>revoke_grant\<close>: the row count and the new table, or None when the query does not end.\<close>

definition revoke_grant :: "org_context \<Rightarrow> uuid \<Rightarrow> datetime \<Rightarrow> auth_db \<Rightarrow> (nat \<times> auth_db) option" where
  "revoke_grant cx root_id now db =
     map_option (\<lambda>ids.
       let hit = (\<lambda>g. gr_id g \<in> set ids \<and> gr_state g = ''active'')
       in (length (filter hit (db_grants db)),
           db\<lparr> db_grants := map (\<lambda>g. if hit g then revoke_row now g else g) (db_grants db) \<rparr>))
       (delegation_tree cx root_id (db_grants db))"

section \<open>The grant table over any sequence of operations\<close>

datatype grant_op =
    CreateGrant org_context uuid uuid uuid "uuid option" "uuid option" "(string \<times> pyval) list" "datetime option"
  | RevokeGrant org_context uuid datetime

fun grant_step :: "grant_op \<Rightarrow> auth_db \<Rightarrow> auth_db" where
  "grant_step (CreateGrant cx gid actor cap grantor parent cs expires) db =
     attempt (\<lambda>_. create_grant cx gid actor cap grantor parent cs expires) () db"
| "grant_step (RevokeGrant cx root_id now) db =
     (case revoke_grant cx root_id now db of None \<Rightarrow> db | Some (_, db') \<Rightarrow> db')"

definition grants_ok :: "auth_db \<Rightarrow> bool" where
  "grants_ok db \<longleftrightarrow> parents_first gr_id gr_parent_grant_id {} (db_grants db)"

lemma insert_grant_Inr:
  "insert_grant g db = Inr db' \<Longrightarrow>
     db' = db\<lparr> db_grants := db_grants db @ [g] \<rparr> \<and> gr_id g \<notin> gr_id ` set (db_grants db)
     \<and> (case gr_parent_grant_id g of None \<Rightarrow> True | Some p \<Rightarrow> p \<in> gr_id ` set (db_grants db))"
  by (auto simp: insert_grant_def list_ex_iff split: option.splits if_splits)

lemma create_grant_insert:
  "create_grant cx gid actor cap grantor parent cs expires db = Inr db' \<Longrightarrow>
     \<exists>g. insert_grant g db = Inr db' \<and> gr_organization_id g = oc_organization_id cx
       \<and> gr_state g = ''active''"
  by (fastforce simp: create_grant_def split: option.splits)

lemma create_grant_rows:
  assumes "create_grant cx gid actor cap grantor parent cs expires db = Inr db'"
  shows "\<exists>g. db' = db\<lparr> db_grants := db_grants db @ [g] \<rparr> \<and> gr_id g \<notin> gr_id ` set (db_grants db)
    \<and> gr_organization_id g = oc_organization_id cx \<and> gr_state g = ''active''
    \<and> (case gr_parent_grant_id g of None \<Rightarrow> True | Some p \<Rightarrow> p \<in> gr_id ` set (db_grants db))"
  using create_grant_insert [OF assms] insert_grant_Inr by blast

lemma revoke_row_simps [simp]:
  "gr_id (revoke_row now g) = gr_id g" "gr_parent_grant_id (revoke_row now g) = gr_parent_grant_id g"
  "gr_organization_id (revoke_row now g) = gr_organization_id g"
  "gr_actor_id (revoke_row now g) = gr_actor_id g" "gr_state (revoke_row now g) = ''revoked''"
  by (simp_all add: revoke_row_def)

lemma grant_step_ok: "grants_ok db \<Longrightarrow> grants_ok (grant_step x db)"
proof (cases x)
  case (CreateGrant cx gid actor cap grantor parent cs expires)
  assume ok: "grants_ok db"
  show ?thesis
  proof (cases "create_grant cx gid actor cap grantor parent cs expires db")
    case (Inr db')
    from create_grant_rows [OF Inr] ok Inr CreateGrant show ?thesis
      by (auto simp: attempt_def grants_ok_def parents_first_snoc split: option.splits)
  qed (simp add: CreateGrant attempt_def ok)
next
  case (RevokeGrant cx root_id now)
  assume ok: "grants_ok db"
  show ?thesis
  proof (cases "delegation_tree cx root_id (db_grants db)")
    case (Some ids)
    with ok RevokeGrant show ?thesis
      by (simp add: revoke_grant_def grants_ok_def Let_def parents_first_map)
  qed (simp add: RevokeGrant revoke_grant_def ok)
qed

interpretation grant_table: component grant_step grants_ok
  by unfold_locales (rule grant_step_ok)

section \<open>What revocation reaches\<close>

definition delegated_from :: "org_context \<Rightarrow> uuid \<Rightarrow> grant_row list \<Rightarrow> grant_row \<Rightarrow> bool" where
  "delegated_from cx root_id rows g \<longleftrightarrow>
     (\<exists>q \<in> set rows. gr_id q = root_id \<and> live_grant (oc_organization_id cx) q)
     \<and> (root_id, gr_id g) \<in> (child_rel gr_id gr_parent_grant_id (live_grant (oc_organization_id cx)) rows)\<^sup>*"

lemma delegated_from_root:
  "g \<in> set rows \<Longrightarrow> live_grant (oc_organization_id cx) g \<Longrightarrow> delegated_from cx (gr_id g) rows g"
  by (auto simp: delegated_from_def)

lemma delegated_from_step:
  assumes "delegated_from cx root_id rows p" and "g \<in> set rows"
    and "live_grant (oc_organization_id cx) g" and "gr_parent_grant_id g = Some (gr_id p)"
  shows "delegated_from cx root_id rows g"
proof -
  from assms(2-4)
  have "(gr_id p, gr_id g) \<in> child_rel gr_id gr_parent_grant_id (live_grant (oc_organization_id cx)) rows"
    by (auto simp: child_rel_def)
  with assms(1) show ?thesis by (auto simp: delegated_from_def intro: rtrancl_into_rtrancl)
qed

lemma delegation_tree_result:
  assumes "grants_ok db"
  shows "\<exists>ids. delegation_tree cx root_id (db_grants db) = Some ids
    \<and> (\<forall>g. gr_id g \<in> set ids \<longleftrightarrow> delegated_from cx root_id (db_grants db) g)"
proof -
  let ?live = "live_grant (oc_organization_id cx)" and ?rows = "db_grants db"
  let ?base = "map gr_id (filter (\<lambda>g. gr_id g = root_id \<and> ?live g) ?rows)"
  from cascade_result [OF assms [unfolded grants_ok_def], of ?live ?base]
  obtain ids where "cascade gr_id gr_parent_grant_id ?live ?rows ?base [] = Some ids"
    and "set ids = (child_rel gr_id gr_parent_grant_id ?live ?rows)\<^sup>* `` set ?base" by blast
  then show ?thesis
    by (intro exI [of _ ids]) (auto simp: delegation_tree_def Let_def delegated_from_def)
qed

lemma revoke_grant_total: "grants_ok db \<Longrightarrow> \<exists>n db'. revoke_grant cx root_id now db = Some (n, db')"
  using delegation_tree_result [of db cx root_id] by (auto simp: revoke_grant_def Let_def)

text \<open>
  C2. Cascading revocation is total and exact. After any sequence of grant creations and
  revocations the recursive query ends, and revoking a grant turns exactly the active grants
  reached from it over active delegations of the organization into revoked ones, leaving every
  other row, and every other table, as it was.
\<close>

theorem revoke_grant_exact:
  assumes "db_grants db0 = []" and "db = fold grant_step ops db0"
  shows "\<exists>n. revoke_grant cx root_id now db = Some (n, db\<lparr> db_grants :=
    map (\<lambda>g. if gr_state g = ''active'' \<and> delegated_from cx root_id (db_grants db) g
             then revoke_row now g else g) (db_grants db) \<rparr>)"
proof -
  have "grants_ok db0" using assms(1) by (simp add: grants_ok_def)
  then have "grants_ok db" unfolding assms(2) by (rule grant_table.run_inv)
  from delegation_tree_result [OF this, of cx root_id] obtain ids where
    ids: "delegation_tree cx root_id (db_grants db) = Some ids"
    and mem: "\<And>g. gr_id g \<in> set ids \<longleftrightarrow> delegated_from cx root_id (db_grants db) g" by blast
  have "(\<lambda>g. if gr_id g \<in> set ids \<and> gr_state g = ''active'' then revoke_row now g else g)
      = (\<lambda>g. if gr_state g = ''active'' \<and> delegated_from cx root_id (db_grants db) g
             then revoke_row now g else g)"
    by (auto simp: mem fun_eq_iff)
  with ids show ?thesis by (simp add: revoke_grant_def Let_def)
qed

definition sample_context :: org_context where
  "sample_context = \<lparr> oc_auth_identity_id = 11, oc_actor_id = 2, oc_organization_id = 1,
     oc_session_id = 12, oc_platform_role = PlatformNone, oc_membership_role = OrgOwner \<rparr>"

definition sample_auth_db :: auth_db where
  "sample_auth_db = \<lparr>
     db_actors = [\<lparr> au_id = 2, au_organization_id = 1, au_state = ''active'', au_trust_tier = ''core'' \<rparr>],
     db_organizations = [\<lparr> ao_id = 1, ao_state = ''active'' \<rparr>],
     db_capabilities = [\<lparr> cp_id = 3, cp_organization_id = 1, cp_name = ''workflow.manage'', cp_requires = [] \<rparr>],
     db_grants = [], db_policy_events = [] \<rparr>"

definition sample_grant_ops :: "grant_op list" where
  "sample_grant_ops = [CreateGrant sample_context 21 2 3 None None [] None,
     CreateGrant sample_context 22 2 3 None (Some 21) [] None]"

theorem revoke_grant_exact_witness:
  "\<exists>n. revoke_grant sample_context 21 5 (fold grant_step sample_grant_ops sample_auth_db)
     = Some (n, (fold grant_step sample_grant_ops sample_auth_db)\<lparr> db_grants :=
        map (\<lambda>g. if gr_state g = ''active''
               \<and> delegated_from sample_context 21 (db_grants (fold grant_step sample_grant_ops sample_auth_db)) g
             then revoke_row 5 g else g) (db_grants (fold grant_step sample_grant_ops sample_auth_db)) \<rparr>)"
  by (rule revoke_grant_exact [of sample_auth_db, OF _ refl]) (simp add: sample_auth_db_def)

section \<open>The decision service\<close>

lemma sample_grants_eval:
  "db_grants (fold grant_step sample_grant_ops sample_auth_db) =
     [\<lparr> gr_id = 21, gr_organization_id = 1, gr_actor_id = 2, gr_capability_id = 3, gr_state = ''active'',
        gr_constraints = [], gr_expires_at = None, gr_revoked_at = None, gr_granted_by = Some 2,
        gr_parent_grant_id = None \<rparr>,
      \<lparr> gr_id = 22, gr_organization_id = 1, gr_actor_id = 2, gr_capability_id = 3, gr_state = ''active'',
        gr_constraints = [], gr_expires_at = None, gr_revoked_at = None, gr_granted_by = Some 2,
        gr_parent_grant_id = Some 21 \<rparr>]"
  by (simp add: sample_grant_ops_def sample_auth_db_def sample_context_def create_grant_def
      insert_grant_def attempt_def)

lemma sample_delegated:
  assumes "g \<in> set (db_grants (fold grant_step sample_grant_ops sample_auth_db))"
  shows "delegated_from sample_context 21 (db_grants (fold grant_step sample_grant_ops sample_auth_db)) g"
proof -
  define rows where "rows = db_grants (fold grant_step sample_grant_ops sample_auth_db)"
  obtain g1 g2 where rows: "rows = [g1, g2]" and g1: "gr_id g1 = 21" "live_grant 1 g1"
    and g2: "live_grant 1 g2" "gr_parent_grant_id g2 = Some 21"
    unfolding rows_def sample_grants_eval by (auto simp: live_grant_def)
  have org: "oc_organization_id sample_context = 1" by (simp add: sample_context_def)
  have "delegated_from sample_context (gr_id g1) rows g1"
    by (rule delegated_from_root) (simp_all add: rows g1 org)
  moreover from this have "delegated_from sample_context (gr_id g1) rows g2"
    by (rule delegated_from_step) (simp_all add: rows g1 g2 org)
  ultimately show ?thesis using assms g1(1) unfolding rows_def [symmetric] rows by auto
qed

lemma sample_grants_ok: "grants_ok (fold grant_step sample_grant_ops sample_auth_db)"
  by (rule grant_table.run_inv) (simp add: grants_ok_def sample_auth_db_def)

lemma list_grants_row:
  "ag \<in> set (list_grants db cx capability) \<Longrightarrow>
     \<exists>g \<in> set (db_grants db). \<exists>c \<in> set (db_capabilities db). ag = grant_of_row g (cp_name c)
       \<and> gr_organization_id g = oc_organization_id cx \<and> gr_actor_id g = oc_actor_id cx
       \<and> cp_id c = gr_capability_id g \<and> cp_organization_id c = oc_organization_id cx
       \<and> (cp_name c = capability \<or> cp_name c = ''*'')"
  by (auto simp: list_grants_def)

lemma authorize_cites:
  assumes "allowed (authorize reg did rq)"
  shows "\<exists>actor g. rq_actor rq = Some actor \<and> g \<in> set (rq_grants rq) \<and> is_candidate rq actor g
    \<and> dec_grant_id (authorize reg did rq) = Some (ag_id g)"
proof -
  from authorize_allowed_gates [OF assms] obtain actor where gates: "gates_open rq actor" by blast
  define cs where "cs = filter (is_candidate rq actor) (rq_grants rq)"
  have eq: "authorize reg did rq = (if cs = [] then deny did ''grant_missing'' else try_grants reg rq actor did cs)"
    unfolding cs_def authorize_gates [OF gates] Let_def ..
  with assms have "allowed (try_grants reg rq actor did cs)" "cs \<noteq> []"
    by (auto simp: deny_def split: if_splits)
  with try_grants_decision [of reg rq actor did cs] eq gates show ?thesis
    by (auto simp: cs_def gates_open_def)
qed

text \<open>The grant a decision cites: active, unexpired, of the actor, and for the capability or the wildcard.\<close>

lemma allowed_cites:
  assumes "allowed (fst (service_authorize env did cx capability operation res args db))"
  shows "\<exists>g \<in> set (db_grants db).
    dec_grant_id (fst (service_authorize env did cx capability operation res args db)) = Some (gr_id g)
    \<and> gr_organization_id g = oc_organization_id cx \<and> gr_actor_id g = oc_actor_id cx
    \<and> gr_state g = ''active'' \<and> (case gr_expires_at g of None \<Rightarrow> True | Some t \<Rightarrow> ae_now env < t)
    \<and> (\<exists>c \<in> set (db_capabilities db). cp_id c = gr_capability_id g \<and> cp_name c \<in> {capability, ''*''})"
proof -
  let ?rq = "service_request db env cx capability operation res args"
  define d where "d = fst (service_authorize env did cx capability operation res args db)"
  from assms have d: "d = authorize (ae_registry env) did ?rq" and "allowed d"
    by (auto simp: d_def service_authorize_def Let_def deny_def split: if_splits)
  with authorize_cites [of "ae_registry env" did ?rq]
  obtain actor ag where ag: "ag \<in> set (list_grants db cx capability)" "is_candidate ?rq actor ag"
    and cite: "dec_grant_id d = Some (ag_id ag)"
    by (auto simp: service_request_def)
  from list_grants_row [OF ag(1)] obtain g c where
    g: "g \<in> set (db_grants db)" "c \<in> set (db_capabilities db)" "ag = grant_of_row g (cp_name c)"
      "gr_organization_id g = oc_organization_id cx" "gr_actor_id g = oc_actor_id cx"
      "cp_id c = gr_capability_id g" "cp_name c \<in> {capability, ''*''}" by auto
  have "gr_state g = ''active''" "case gr_expires_at g of None \<Rightarrow> True | Some t \<Rightarrow> ae_now env < t"
    using ag(2) g(3) by (auto simp: is_candidate_def grant_of_row_def service_request_def split: option.splits)
  moreover have "dec_grant_id d = Some (gr_id g)" using cite g(3) by (simp add: grant_of_row_def)
  ultimately show ?thesis using g unfolding d_def by blast
qed

text \<open>
  C17. No decision without evidence. When the service allows a request, the table holds an active,
  unexpired grant of the acting identity in its organization which the decision cites, joined to a
  capability of the requested name or the wildcard; and exactly one policy event was appended,
  whose payload records the permission, the decision and that grant. Nothing else changed.
\<close>

theorem allowed_is_audited:
  assumes "service_authorize env did cx capability operation res args db = (d, db')" and "allowed d"
  shows "\<exists>g \<in> set (db_grants db). dec_grant_id d = Some (gr_id g)
    \<and> gr_organization_id g = oc_organization_id cx \<and> gr_actor_id g = oc_actor_id cx
    \<and> gr_state g = ''active'' \<and> (case gr_expires_at g of None \<Rightarrow> True | Some t \<Rightarrow> ae_now env < t)
    \<and> (\<exists>c \<in> set (db_capabilities db). cp_id c = gr_capability_id g \<and> cp_name c \<in> {capability, ''*''})
    \<and> (\<exists>payload. db' = add_policy_event db cx payload
         \<and> map_of payload ''allowed'' = Some (PBool True)
         \<and> map_of payload ''decision_id'' = Some (PStr (uuid_str did))
         \<and> map_of payload ''grant_id'' = Some (PStr (uuid_str (gr_id g))))"
proof -
  from assms have db': "db' = add_policy_event db cx (decision_payload d cx capability operation res)"
    and did: "decision_id d = did"
    by (auto simp: service_authorize_def Let_def deny_def split: if_splits)
  from allowed_cites [of env did cx capability operation res args db] assms obtain g where
    g: "g \<in> set (db_grants db)" "dec_grant_id d = Some (gr_id g)"
      "gr_organization_id g = oc_organization_id cx" "gr_actor_id g = oc_actor_id cx" "gr_state g = ''active''"
      "case gr_expires_at g of None \<Rightarrow> True | Some t \<Rightarrow> ae_now env < t"
      "\<exists>c \<in> set (db_capabilities db). cp_id c = gr_capability_id g \<and> cp_name c \<in> {capability, ''*''}"
    by auto
  have "map_of (decision_payload d cx capability operation res) ''allowed'' = Some (PBool True)"
    "map_of (decision_payload d cx capability operation res) ''decision_id'' = Some (PStr (uuid_str did))"
    "map_of (decision_payload d cx capability operation res) ''grant_id'' = Some (PStr (uuid_str (gr_id g)))"
    using assms(2) g(2) did by (simp_all add: decision_payload_def)
  with g db' show ?thesis by blast
qed

definition sample_env :: auth_env where
  "sample_env = \<lparr> ae_registry = [], ae_rate_limiter = None, ae_rate_checker = None,
     ae_share_checker = None, ae_now = 9, ae_lookups_ok = True, ae_emit_ok = True \<rparr>"

definition sample_resource :: auth_resource where
  "sample_resource = \<lparr> ar_type = ''workflow'', ar_id = 7, ar_organization_id = 1 \<rparr>"

lemma fold_grant_step_frame:
  "db_actors (fold grant_step ops db) = db_actors db"
  "db_organizations (fold grant_step ops db) = db_organizations db"
  "db_capabilities (fold grant_step ops db) = db_capabilities db"
proof -
  have "db_actors (grant_step x db) = db_actors db \<and> db_organizations (grant_step x db) = db_organizations db
      \<and> db_capabilities (grant_step x db) = db_capabilities db" for x db
    by (cases x) (auto simp: attempt_def revoke_grant_def Let_def dest!: create_grant_rows
        split: sum.split option.splits)
  then show "db_actors (fold grant_step ops db) = db_actors db"
    "db_organizations (fold grant_step ops db) = db_organizations db"
    "db_capabilities (fold grant_step ops db) = db_capabilities db"
    by (induction ops arbitrary: db) auto
qed

lemma sample_allowed:
  "allowed (fst (service_authorize sample_env 31 sample_context ''workflow.manage'' ''read'' sample_resource []
     (fold grant_step sample_grant_ops sample_auth_db)))"
proof -
  define db where "db = fold grant_step sample_grant_ops sample_auth_db"
  have tables: "db_actors db = db_actors sample_auth_db" "db_organizations db = db_organizations sample_auth_db"
    "db_capabilities db = db_capabilities sample_auth_db"
    by (simp_all add: db_def fold_grant_step_frame)
  have "allowed (authorize [] 31 (service_request db sample_env sample_context ''workflow.manage'' ''read'' sample_resource []))"
    by (simp add: authorize_def service_request_def get_actor_def get_organization_def list_grants_def tables
        sample_auth_db_def sample_context_def sample_env_def sample_resource_def resource_reachable_def
        is_candidate_def grant_allows_def grant_of_row_def
        sample_grants_eval [folded db_def, unfolded sample_auth_db_def])
  then show ?thesis by (simp add: service_authorize_def Let_def sample_env_def db_def)
qed

theorem allowed_is_audited_witness:
  "\<exists>g \<in> set (db_grants (fold grant_step sample_grant_ops sample_auth_db)). gr_state g = ''active'' \<and> gr_actor_id g = 2"
proof -
  obtain d db' where r: "service_authorize sample_env 31 sample_context ''workflow.manage'' ''read'' sample_resource []
      (fold grant_step sample_grant_ops sample_auth_db) = (d, db')" by fastforce
  with sample_allowed have "allowed d" by simp
  from allowed_is_audited [OF r this] show ?thesis by (auto simp: sample_context_def)
qed

lemma cascade_Nil: "cascade idf par live rows [] acc = Some acc"
  by (simp add: cascade.simps)

lemma cascade_Cons: "cascade idf par live rows (x # xs) acc =
    cascade idf par live rows (cascade_children idf par live rows (x # xs)) (acc @ x # xs)"
  by (simp add: cascade.simps [of idf par live rows "x # xs"])

section \<open>What a revoked grant is good for\<close>

text \<open>A grant that is on record and not active stays so: no operation of the table reactivates it.\<close>

definition grant_dead :: "uuid \<Rightarrow> auth_db \<Rightarrow> bool" where
  "grant_dead gid db \<longleftrightarrow> gid \<in> gr_id ` set (db_grants db)
     \<and> (\<forall>g \<in> set (db_grants db). gr_id g = gid \<longrightarrow> gr_state g \<noteq> ''active'')"

lemma grant_dead_step: "grant_dead gid db \<Longrightarrow> grant_dead gid (grant_step x db)"
proof (cases x)
  case (CreateGrant cx new_id actor cap grantor parent cs expires)
  assume dead: "grant_dead gid db"
  show ?thesis
  proof (cases "create_grant cx new_id actor cap grantor parent cs expires db")
    case (Inr db')
    from create_grant_rows [OF Inr] dead Inr CreateGrant show ?thesis
      by (auto simp: attempt_def grant_dead_def)
  qed (simp add: CreateGrant attempt_def dead)
next
  case (RevokeGrant cx root_id now)
  assume dead: "grant_dead gid db"
  then show ?thesis
    by (cases "delegation_tree cx root_id (db_grants db)")
      (auto simp: RevokeGrant revoke_grant_def Let_def grant_dead_def image_iff split: if_splits)
qed

interpretation dead_grant: component grant_step "grant_dead gid" for gid
  by unfold_locales (rule grant_dead_step)

lemma revoked_subtree_dead:
  assumes "grants_ok db" and "revoke_grant cx root_id now db = Some (n, db')"
    and "q \<in> set (db_grants db)" and "delegated_from cx root_id (db_grants db) q"
  shows "grant_dead (gr_id q) db'"
proof -
  from delegation_tree_result [OF assms(1), of cx root_id] obtain ids where
    ids: "delegation_tree cx root_id (db_grants db) = Some ids"
    and mem: "\<And>g. gr_id g \<in> set ids \<longleftrightarrow> delegated_from cx root_id (db_grants db) g" by blast
  have "db_grants db' = map (\<lambda>g. if gr_id g \<in> set ids \<and> gr_state g = ''active'' then revoke_row now g else g) (db_grants db)"
    using assms(2) ids by (auto simp: revoke_grant_def Let_def)
  moreover from this have "map gr_id (db_grants db') = map gr_id (db_grants db)" by simp
  then have "gr_id ` set (db_grants db') = gr_id ` set (db_grants db)" by (metis list.set_map)
  moreover have "gr_id q \<in> set ids" using assms(4) mem by simp
  ultimately show ?thesis
    using assms(3) by (auto simp: grant_dead_def split: if_splits)
qed

text \<open>
  C38. Revocation is an access kill switch. Once a grant has been revoked, and whatever grants are
  created and revoked afterwards, no request is allowed on a grant of the revoked subtree, the
  grant itself and those delegated from it over active grants: every decision that allows, for
  whatever actor, capability, operation and resource, cites another grant, an active one of that
  actor.
\<close>

theorem revocation_cuts_access:
  assumes "grants_ok db" and "revoke_grant cx root_id now db = Some (n, db')"
    and "allowed (fst (service_authorize env did cx' capability operation res args (fold grant_step ops db')))"
  shows "\<exists>g \<in> set (db_grants (fold grant_step ops db')).
    dec_grant_id (fst (service_authorize env did cx' capability operation res args (fold grant_step ops db'))) = Some (gr_id g)
    \<and> gr_state g = ''active'' \<and> gr_actor_id g = oc_actor_id cx' \<and> gr_organization_id g = oc_organization_id cx'
    \<and> \<not> (\<exists>q \<in> set (db_grants db). delegated_from cx root_id (db_grants db) q \<and> gr_id q = gr_id g)"
proof -
  from allowed_cites [OF assms(3)] obtain g where g: "g \<in> set (db_grants (fold grant_step ops db'))"
      "dec_grant_id (fst (service_authorize env did cx' capability operation res args (fold grant_step ops db'))) = Some (gr_id g)"
      "gr_state g = ''active''" "gr_actor_id g = oc_actor_id cx'" "gr_organization_id g = oc_organization_id cx'"
    by blast
  have "gr_id q \<noteq> gr_id g" if "q \<in> set (db_grants db)" "delegated_from cx root_id (db_grants db) q" for q
    using dead_grant.run_inv [OF revoked_subtree_dead [OF assms(1,2) that], of ops] g(1,3)
    by (auto simp: grant_dead_def)
  with g show ?thesis by blast
qed

text \<open>
  So an actor all of whose grants fall with the revoked one is refused everything, until it is
  granted something else.
\<close>

definition revoked_db :: auth_db where
  "revoked_db = fold grant_step (sample_grant_ops @ [RevokeGrant sample_context 21 5]) sample_auth_db"

definition regranted_db :: auth_db where
  "regranted_db = fold grant_step [CreateGrant sample_context 25 2 3 None None [] None] revoked_db"

lemma revoked_db_is: "revoke_grant sample_context 21 5 (fold grant_step sample_grant_ops sample_auth_db) = Some (n, db')
    \<Longrightarrow> db' = revoked_db"
  by (simp add: revoked_db_def)

lemma regranted_grants:
  "map (\<lambda>g. (gr_id g, gr_state g)) (db_grants revoked_db) = [(21, ''revoked''), (22, ''revoked'')]"
  "db_grants regranted_db = [
     \<lparr> gr_id = 21, gr_organization_id = 1, gr_actor_id = 2, gr_capability_id = 3, gr_state = ''revoked'',
        gr_constraints = [], gr_expires_at = None, gr_revoked_at = Some 5, gr_granted_by = Some 2,
        gr_parent_grant_id = None \<rparr>,
     \<lparr> gr_id = 22, gr_organization_id = 1, gr_actor_id = 2, gr_capability_id = 3, gr_state = ''revoked'',
        gr_constraints = [], gr_expires_at = None, gr_revoked_at = Some 5, gr_granted_by = Some 2,
        gr_parent_grant_id = Some 21 \<rparr>,
     \<lparr> gr_id = 25, gr_organization_id = 1, gr_actor_id = 2, gr_capability_id = 3, gr_state = ''active'',
        gr_constraints = [], gr_expires_at = None, gr_revoked_at = None, gr_granted_by = Some 2,
        gr_parent_grant_id = None \<rparr>]"
  by (simp_all add: regranted_db_def revoked_db_def sample_grant_ops_def sample_auth_db_def sample_context_def
      create_grant_def insert_grant_def attempt_def revoke_grant_def delegation_tree_def cascade_Nil cascade_Cons
      cascade_children_def live_grant_def revoke_row_def)

lemma regranted_allowed:
  "\<not> allowed (fst (service_authorize sample_env 31 sample_context ''workflow.manage'' ''read'' sample_resource [] revoked_db))"
  "allowed (fst (service_authorize sample_env 31 sample_context ''workflow.manage'' ''read'' sample_resource [] regranted_db))"
proof -
  have tables: "db_actors revoked_db = db_actors sample_auth_db" "db_organizations revoked_db = db_organizations sample_auth_db"
    "db_capabilities revoked_db = db_capabilities sample_auth_db"
    unfolding revoked_db_def by (rule fold_grant_step_frame)+
  have tables': "db_actors regranted_db = db_actors sample_auth_db" "db_organizations regranted_db = db_organizations sample_auth_db"
    "db_capabilities regranted_db = db_capabilities sample_auth_db"
    unfolding regranted_db_def fold_grant_step_frame by (rule tables)+
  have none: "gr_state g \<noteq> ''active''" if "g \<in> set (db_grants revoked_db)" for g
    using regranted_grants(1) that by (cases "db_grants revoked_db") auto
  show "\<not> allowed (fst (service_authorize sample_env 31 sample_context ''workflow.manage'' ''read'' sample_resource [] revoked_db))"
    using allowed_cites none by blast
  show "allowed (fst (service_authorize sample_env 31 sample_context ''workflow.manage'' ''read'' sample_resource [] regranted_db))"
  proof -
    have "allowed (authorize [] 31 (service_request regranted_db sample_env sample_context ''workflow.manage'' ''read'' sample_resource []))"
      by (simp add: authorize_def service_request_def get_actor_def get_organization_def list_grants_def tables'
          sample_auth_db_def sample_context_def sample_env_def sample_resource_def resource_reachable_def
          is_candidate_def grant_allows_def grant_of_row_def regranted_grants(2))
    then show ?thesis by (simp add: service_authorize_def Let_def sample_env_def)
  qed
qed

theorem revocation_cuts_access_witness:
  "\<exists>i. dec_grant_id (fst (service_authorize sample_env 31 sample_context ''workflow.manage'' ''read'' sample_resource []
     regranted_db)) = Some i \<and> i \<notin> {21, 22}"
proof -
  let ?db = "fold grant_step sample_grant_ops sample_auth_db"
  obtain n db' where r: "revoke_grant sample_context 21 5 ?db = Some (n, db')"
    using revoke_grant_total [OF sample_grants_ok] by blast
  note db' = revoked_db_is [OF r]
  have ids: "\<exists>q \<in> set (db_grants ?db). delegated_from sample_context 21 (db_grants ?db) q \<and> gr_id q = i" if "i \<in> {21, 22}" for i
  proof -
    have "\<exists>q \<in> set (db_grants ?db). gr_id q = i" using that unfolding sample_grants_eval by auto
    with sample_delegated show ?thesis by blast
  qed
  from revocation_cuts_access [OF sample_grants_ok r, of sample_env 31 sample_context "''workflow.manage''" "''read''" sample_resource "[]"
      "[CreateGrant sample_context 25 2 3 None None [] None]", folded db' regranted_db_def [folded db']] regranted_allowed(2) ids
  show ?thesis unfolding db' regranted_db_def [symmetric] by blast
qed

section \<open>A gap of the cascade\<close>

text \<open>
  The schema accepts a new grant under a parent that is already revoked, and the recursive query
  walks active rows only. So a grant delegated below a revoked one keeps its access when the root of
  the chain is revoked, although the method promises to revoke all delegation descendants.
\<close>

definition gap_ops :: "grant_op list" where
  "gap_ops = [CreateGrant sample_context 21 2 3 None None [] None,
     CreateGrant sample_context 22 2 3 None (Some 21) [] None,
     RevokeGrant sample_context 22 4,
     CreateGrant sample_context 23 2 3 None (Some 22) [] None,
     RevokeGrant sample_context 21 5]"

lemma revoked_parent_gap:
  "map (\<lambda>g. (gr_id g, gr_parent_grant_id g, gr_state g)) (db_grants (fold grant_step gap_ops sample_auth_db)) =
     [(21, None, ''revoked''), (22, Some 21, ''revoked''), (23, Some 22, ''active'')]"
  by (simp add: gap_ops_def sample_auth_db_def sample_context_def create_grant_def insert_grant_def
      attempt_def revoke_grant_def delegation_tree_def cascade_Nil cascade_Cons cascade_children_def
      live_grant_def revoke_row_def)

end
