(* ===== verification/Sharing.thy ===== *)
theory Sharing
  imports Delegation
begin

text \<open>
  Cross-organization sharing (\<^verbatim>\<open>services/sharing.py\<close>): the table of shares, creation,
  cascading revocation, the listings and the share checker that the authorization decision
  consults for a resource of another organization. The cascade is the recursive query of
  \<open>Delegation\<close>, this time over \<open>parent_share_id\<close> and without a tenant filter.

  Who writes the table matters: migration 0023 gives it a policy for SELECT only, and 0025 makes
  row security binding for its owner. A superuser is not subject to it, which is the connection
  0023 describes and the one docker-compose sets up; any other role inserts nothing and updates no
  row. The role of the connection is an argument of the two writes.
\<close>

datatype db_role = Superuser | ApplicationRole

record share_row =
  sh_id :: uuid
  sh_source_org_id :: uuid
  sh_target_org_id :: "uuid option"
  sh_resource_type :: string
  sh_resource_id :: uuid
  sh_permissions :: "string list"
  sh_state :: string
  sh_expires_at :: "datetime option"
  sh_parent_share_id :: "uuid option"

datatype sharing_error =
    SharingDisabledError
  | ShareTypeError string
  | SharePermissionError "string list"
  | ShareNotFoundError uuid
  | ShareIntegrityError
  | RowSecurityError

definition check_enabled :: "bool \<Rightarrow> sharing_error + unit" where
  "check_enabled enabled = (if \<not> enabled then Inl SharingDisabledError else Inr ())"

text \<open>
  \<open>add\<close> and \<open>flush\<close>: the policy, the primary key, the check of the state and the parent's foreign key
  (0039 drops the check of the type).
\<close>

definition insert_share :: "db_role \<Rightarrow> share_row \<Rightarrow> share_row list \<Rightarrow> sharing_error + share_row list" where
  "insert_share role s rows =
     (if role \<noteq> Superuser then Inl RowSecurityError
      else if sh_id s \<in> set (map sh_id rows)
         \<or> sh_state s \<notin> {''active'', ''revoked''}
         \<or> (case sh_parent_share_id s of None \<Rightarrow> False | Some p \<Rightarrow> p \<notin> set (map sh_id rows))
      then Inl ShareIntegrityError else Inr (rows @ [s]))"

definition create_share ::
  "db_role \<Rightarrow> bool \<Rightarrow> org_context \<Rightarrow> uuid \<Rightarrow> string \<Rightarrow> uuid \<Rightarrow> uuid option \<Rightarrow> string list \<Rightarrow> datetime option
   \<Rightarrow> uuid option \<Rightarrow> share_row list \<Rightarrow> sharing_error + share_row list" where
  "create_share role enabled cx share_id resource_type resource_id target permissions expires parent rows =
     rbind (check_enabled enabled) (\<lambda>_.
       if resource_type \<notin> set SHAREABLE_TYPES then Inl (ShareTypeError resource_type)
       else
         (let perms = (if permissions = [] then [''read''] else permissions)
          in case validate_share_permissions perms of
               Inl _ \<Rightarrow> Inl (SharePermissionError perms)
             | Inr _ \<Rightarrow>
                 insert_share role \<lparr> sh_id = share_id, sh_source_org_id = oc_organization_id cx,
                   sh_target_org_id = target, sh_resource_type = resource_type,
                   sh_resource_id = resource_id, sh_permissions = perms, sh_state = ''active'',
                   sh_expires_at = expires, sh_parent_share_id = parent \<rparr> rows))"

definition live_share :: "share_row \<Rightarrow> bool" where
  "live_share s \<longleftrightarrow> sh_state s = ''active''"

definition share_tree :: "org_context \<Rightarrow> uuid \<Rightarrow> share_row list \<Rightarrow> uuid list option" where
  "share_tree cx root_id rows =
     cascade sh_id sh_parent_share_id live_share rows
       (map sh_id (filter (\<lambda>s. sh_id s = root_id \<and> sh_source_org_id s = oc_organization_id cx
          \<and> sh_state s = ''active'') rows)) []"

definition revoke_share_row :: "share_row \<Rightarrow> share_row" where
  "revoke_share_row s = s\<lparr> sh_state := ''revoked'' \<rparr>"

text \<open>
  None when the query does not end; an empty \<open>RETURNING\<close> raises \<open>ShareNotFoundError\<close>, as it does for
  a role that may update no row.
\<close>

definition revoke_share ::
  "db_role \<Rightarrow> org_context \<Rightarrow> uuid \<Rightarrow> share_row list \<Rightarrow> (sharing_error + share_row list) option" where
  "revoke_share role cx share_id rows =
     map_option (\<lambda>ids.
       let hit = (\<lambda>s. role = Superuser \<and> sh_id s \<in> set ids \<and> sh_state s = ''active'')
       in if filter hit rows = [] then Inl (ShareNotFoundError share_id)
          else Inr (map (\<lambda>s. if hit s then revoke_share_row s else s) rows))
       (share_tree cx share_id rows)"

text \<open>The listings; rows are in insertion order, so the latest first is the reverse.\<close>

definition list_shares :: "org_context \<Rightarrow> string option \<Rightarrow> nat \<Rightarrow> share_row list \<Rightarrow> share_row list" where
  "list_shares cx resource_type limit rows =
     take limit (filter (\<lambda>s. sh_source_org_id s = oc_organization_id cx
       \<and> (case resource_type of None \<Rightarrow> True | Some t \<Rightarrow> sh_resource_type s = t)) (rev rows))"

definition list_shared_with_me :: "org_context \<Rightarrow> string option \<Rightarrow> nat \<Rightarrow> share_row list \<Rightarrow> share_row list" where
  "list_shared_with_me cx resource_type limit rows =
     take limit (filter (\<lambda>s. sh_state s = ''active''
       \<and> (sh_target_org_id s = Some (oc_organization_id cx) \<or> sh_target_org_id s = None)
       \<and> (case resource_type of None \<Rightarrow> True | Some t \<Rightarrow> sh_resource_type s = t)) (rev rows))"

definition share_matches :: "datetime \<Rightarrow> string \<Rightarrow> uuid \<Rightarrow> uuid \<Rightarrow> string \<Rightarrow> share_row \<Rightarrow> bool" where
  "share_matches now resource_type resource_id org permission s \<longleftrightarrow>
     sh_resource_type s = resource_type \<and> sh_resource_id s = resource_id \<and> sh_state s = ''active''
     \<and> (sh_target_org_id s = Some org \<or> sh_target_org_id s = None)
     \<and> (case sh_expires_at s of None \<Rightarrow> True | Some t \<Rightarrow> t > now)
     \<and> permission \<in> set (sh_permissions s)"

definition build_share_checker :: "datetime \<Rightarrow> share_row list \<Rightarrow> share_checker" where
  "build_share_checker now rows resource_type resource_id org permission =
     Some (length (filter (share_matches now resource_type resource_id org permission) rows) > 0)"

section \<open>The share table over any sequence of operations\<close>

datatype share_op =
    CreateShare db_role bool org_context uuid string uuid "uuid option" "string list" "datetime option" "uuid option"
  | RevokeShare db_role org_context uuid

fun share_step :: "share_op \<Rightarrow> share_row list \<Rightarrow> share_row list" where
  "share_step (CreateShare role en cx sid rt rid target perms expires parent) rows =
     attempt (\<lambda>_. create_share role en cx sid rt rid target perms expires parent) () rows"
| "share_step (RevokeShare role cx sid) rows =
     (case revoke_share role cx sid rows of Some (Inr rows') \<Rightarrow> rows' | _ \<Rightarrow> rows)"

definition share_wf :: "share_row \<Rightarrow> bool" where
  "share_wf s \<longleftrightarrow> sh_resource_type s \<in> set SHAREABLE_TYPES \<and> set (sh_permissions s) \<subseteq> set SHARE_PERMISSIONS
     \<and> sh_permissions s \<noteq> [] \<and> sh_state s \<in> {''active'', ''revoked''}"

definition shares_ok :: "share_row list \<Rightarrow> bool" where
  "shares_ok rows \<longleftrightarrow> parents_first sh_id sh_parent_share_id {} rows \<and> list_all share_wf rows"

lemma insert_share_Inr:
  "insert_share role s rows = Inr rows' \<Longrightarrow>
     rows' = rows @ [s] \<and> sh_id s \<notin> sh_id ` set rows
     \<and> (case sh_parent_share_id s of None \<Rightarrow> True | Some p \<Rightarrow> p \<in> sh_id ` set rows)"
  by (auto simp: insert_share_def split: option.splits if_splits)

lemma create_share_insert:
  assumes "create_share role en cx sid rt rid target perms expires parent rows = Inr rows'"
  shows "\<exists>s. insert_share role s rows = Inr rows' \<and> share_wf s"
proof -
  define ps where "ps = (if perms = [] then [''read''] else perms)"
  from assms have rt: "rt \<in> set SHAREABLE_TYPES"
    by (auto simp: create_share_def split: if_splits)
  with assms have ok: "is_ok (validate_share_permissions ps)"
    by (auto simp: create_share_def ps_def Let_def is_ok_iff split: sum.splits)
  then have "set ps \<subseteq> set SHARE_PERMISSIONS" and "ps \<noteq> []"
    by (auto simp: is_ok_iff validate_share_permissions_ok ps_def)
  define s where "s = \<lparr> sh_id = sid, sh_source_org_id = oc_organization_id cx, sh_target_org_id = target,
    sh_resource_type = rt, sh_resource_id = rid, sh_permissions = ps, sh_state = ''active'',
    sh_expires_at = expires, sh_parent_share_id = parent \<rparr>"
  have "share_wf s"
    using rt \<open>set ps \<subseteq> set SHARE_PERMISSIONS\<close> \<open>ps \<noteq> []\<close> by (simp add: share_wf_def s_def)
  moreover have "insert_share role s rows = Inr rows'"
    using rt ok assms by (auto simp: create_share_def Let_def is_ok_iff s_def simp flip: ps_def)
  ultimately show ?thesis by blast
qed

lemma share_wf_revoke: "share_wf s \<Longrightarrow> share_wf (revoke_share_row s)"
  by (simp add: share_wf_def revoke_share_row_def)

lemma share_step_ok: "shares_ok rows \<Longrightarrow> shares_ok (share_step x rows)"
proof (cases x)
  case (CreateShare role en cx sid rt rid target perms expires parent)
  assume ok: "shares_ok rows"
  show ?thesis
  proof (cases "create_share role en cx sid rt rid target perms expires parent rows")
    case (Inr rows')
    then obtain s where "insert_share role s rows = Inr rows'" "share_wf s"
      using create_share_insert by blast
    with insert_share_Inr [of role s rows rows'] ok Inr CreateShare show ?thesis
      by (simp add: attempt_def shares_ok_def parents_first_snoc split: option.splits)
  qed (simp add: CreateShare attempt_def ok)
next
  case (RevokeShare role cx sid)
  assume ok: "shares_ok rows"
  have wf: "list_all share_wf (map (\<lambda>s. if P s then revoke_share_row s else s) rows)" for P
    using ok by (auto simp: shares_ok_def list_all_iff share_wf_revoke)
  have pf: "parents_first sh_id sh_parent_share_id {} (map (\<lambda>s. if P s then revoke_share_row s else s) rows)" for P
    using ok by (simp add: shares_ok_def parents_first_map revoke_share_row_def)
  show ?thesis
    using ok wf pf by (auto simp: RevokeShare revoke_share_def Let_def shares_ok_def split: option.split sum.split)
qed

interpretation share_table: component share_step shares_ok
  by unfold_locales (rule share_step_ok)

section \<open>What a revocation reaches\<close>

definition shared_from :: "org_context \<Rightarrow> uuid \<Rightarrow> share_row list \<Rightarrow> share_row \<Rightarrow> bool" where
  "shared_from cx root_id rows s \<longleftrightarrow>
     (\<exists>q \<in> set rows. sh_id q = root_id \<and> sh_source_org_id q = oc_organization_id cx \<and> sh_state q = ''active'')
     \<and> (root_id, sh_id s) \<in> (child_rel sh_id sh_parent_share_id live_share rows)\<^sup>*"

lemma share_tree_result:
  assumes "shares_ok rows"
  shows "\<exists>ids. share_tree cx root_id rows = Some ids \<and> (\<forall>s. sh_id s \<in> set ids \<longleftrightarrow> shared_from cx root_id rows s)"
proof -
  let ?base = "map sh_id (filter (\<lambda>s. sh_id s = root_id \<and> sh_source_org_id s = oc_organization_id cx
      \<and> sh_state s = ''active'') rows)"
  from assms have "parents_first sh_id sh_parent_share_id {} rows" by (simp add: shares_ok_def)
  from cascade_result [OF this, of live_share ?base]
  obtain ids where "cascade sh_id sh_parent_share_id live_share rows ?base [] = Some ids"
    and "set ids = (child_rel sh_id sh_parent_share_id live_share rows)\<^sup>* `` set ?base" by blast
  then show ?thesis
    by (intro exI [of _ ids]) (auto simp: share_tree_def shared_from_def)
qed

lemma build_share_checker_iff:
  "build_share_checker now rows rt rid org perm = Some True \<longleftrightarrow>
     (\<exists>s \<in> set rows. share_matches now rt rid org perm s)"
  by (auto simp: build_share_checker_def filter_empty_conv)

text \<open>
  C35. What a revocation closes, exactly. After a share is revoked the checker answers as if that
  share and every share reached from it over active shares did not exist, and it still finds every
  other active, unexpired share that carries the permission. The tables are those any sequence of
  operations can build. A share made below one that was revoked before is not reached, although
  the method promises all descendants: \<open>share_below_revoked_survives\<close>.
\<close>

theorem revoked_share_invisible:
  assumes "rows = fold share_step ops []" and "revoke_share role cx sid rows = Some (Inr rows')"
  shows "build_share_checker now rows' rt rid org perm = Some True \<longleftrightarrow>
    (\<exists>s \<in> set rows. share_matches now rt rid org perm s \<and> \<not> shared_from cx sid rows s)"
proof -
  have "shares_ok []" by (simp add: shares_ok_def)
  then have "shares_ok rows" unfolding assms(1) by (rule share_table.run_inv)
  from share_tree_result [OF this, of cx sid] obtain ids where
    ids: "share_tree cx sid rows = Some ids" and mem: "\<And>s. sh_id s \<in> set ids \<longleftrightarrow> shared_from cx sid rows s"
    by blast
  from assms(2) ids have rows': "rows' = map (\<lambda>s. if sh_id s \<in> set ids \<and> sh_state s = ''active''
      then revoke_share_row s else s) rows"
    by (auto simp: revoke_share_def Let_def split: if_splits)
  have "share_matches now rt rid org perm (if sh_id s \<in> set ids \<and> sh_state s = ''active''
      then revoke_share_row s else s) \<longleftrightarrow> share_matches now rt rid org perm s \<and> \<not> shared_from cx sid rows s" for s
    by (auto simp: mem share_matches_def revoke_share_row_def)
  then show ?thesis
    unfolding build_share_checker_iff rows' bex_set_map by simp
qed

definition sample_share_ops :: "share_op list" where
  "sample_share_ops = [CreateShare Superuser True sample_context 41 ''workflow'' 7 (Some 8) [''read''] None None,
     CreateShare Superuser True sample_context 42 ''workflow'' 7 (Some 9) [''read''] None (Some 41)]"

theorem revoked_share_invisible_witness:
  "build_share_checker 0 (case revoke_share Superuser sample_context 41 (fold share_step sample_share_ops []) of
      Some (Inr rows') \<Rightarrow> rows' | _ \<Rightarrow> []) ''workflow'' 7 9 ''read'' \<noteq> Some True"
proof -
  define rows where "rows = fold share_step sample_share_ops []"
  obtain s1 s2 where rows: "rows = [s1, s2]" and s: "sh_id s1 = 41" "sh_id s2 = 42" "live_share s1" "live_share s2"
    "sh_parent_share_id s1 = None" "sh_parent_share_id s2 = Some 41" "sh_source_org_id s1 = 1"
    "sh_target_org_id s1 = Some 8"
    by (simp add: rows_def sample_share_ops_def create_share_def check_enabled_def SHAREABLE_TYPES_def
        validate_share_permissions_def SHARE_PERMISSIONS_def insert_share_def attempt_def live_share_def
        sample_context_def Let_def)
  have org: "oc_organization_id sample_context = 1" by (simp add: sample_context_def)
  have tree: "share_tree sample_context 41 rows = Some [41, 42]"
    by (simp add: share_tree_def rows s org live_share_def [symmetric] cascade_Nil cascade_Cons cascade_children_def)
  then obtain rows' where r: "revoke_share Superuser sample_context 41 rows = Some (Inr rows')"
    using s by (simp add: revoke_share_def Let_def rows live_share_def)
  have "(41, 42) \<in> child_rel sh_id sh_parent_share_id live_share rows"
    using s by (auto simp: child_rel_def rows intro: exI [of _ s2])
  then have "shared_from sample_context 41 rows s2"
    using s by (auto simp: shared_from_def rows org live_share_def)
  then have "\<not> (\<exists>x \<in> set rows. share_matches 0 ''workflow'' 7 9 ''read'' x \<and> \<not> shared_from sample_context 41 rows x)"
    using s by (auto simp: rows share_matches_def)
  with revoked_share_invisible [OF rows_def r, of 0 "''workflow''" 7 9 "''read''"] r show ?thesis
    by (simp add: rows_def)
qed

text \<open>
  A foreign resource is used only through a live share. When the decision service, given the
  share checker over the table of shares, allows a request for a resource of another organization,
  the table holds an active, unexpired share of that resource, addressed to the requesting
  organization or public, that carries the permission the operation maps to.
\<close>

theorem foreign_access_has_share:
  assumes "allowed (fst (service_authorize env did cx capability operation res args db))"
    and "ae_share_checker env = Some (build_share_checker now rows)"
    and "ar_organization_id res \<noteq> oc_organization_id cx"
  shows "\<exists>s \<in> set rows. sh_resource_type s = ar_type res \<and> sh_resource_id s = ar_id res
    \<and> sh_state s = ''active'' \<and> sh_target_org_id s \<in> {Some (oc_organization_id cx), None}
    \<and> (case sh_expires_at s of None \<Rightarrow> True | Some t \<Rightarrow> now < t)
    \<and> operation_to_share_permission operation capability \<in> set (sh_permissions s)"
proof -
  let ?rq = "service_request db env cx capability operation res args"
  from assms(1) have "allowed (authorize (ae_registry env) did ?rq)"
    by (auto simp: service_authorize_def Let_def deny_def split: if_splits)
  from cross_org_needs_share [OF this] assms(2,3)
  have "build_share_checker now rows (ar_type res) (ar_id res) (oc_organization_id cx)
      (operation_to_share_permission operation capability) = Some True"
    by (simp add: service_request_def)
  then show ?thesis unfolding build_share_checker_iff by (auto simp: share_matches_def)
qed

definition foreign_env :: auth_env where
  "foreign_env = sample_env\<lparr> ae_share_checker :=
     Some (build_share_checker 0 [\<lparr> sh_id = 51, sh_source_org_id = 6, sh_target_org_id = Some 1,
       sh_resource_type = ''workflow'', sh_resource_id = 7, sh_permissions = [''read''],
       sh_state = ''active'', sh_expires_at = None, sh_parent_share_id = None \<rparr>]) \<rparr>"

lemma foreign_allowed:
  "allowed (fst (service_authorize foreign_env 31 sample_context ''workflow.manage'' ''read''
     (sample_resource\<lparr> ar_organization_id := 6 \<rparr>) []
     (sample_auth_db\<lparr> db_grants := db_grants (fold grant_step sample_grant_ops sample_auth_db) \<rparr>)))"
  unfolding sample_grants_eval
  by (simp add: service_authorize_def Let_def authorize_def service_request_def
      get_actor_def get_organization_def list_grants_def sample_auth_db_def sample_context_def sample_env_def
      sample_resource_def resource_reachable_def is_candidate_def grant_allows_def grant_of_row_def
      foreign_env_def build_share_checker_def share_matches_def operation_to_share_permission_def)

theorem foreign_access_has_share_witness:
  "\<exists>s \<in> set [\<lparr> sh_id = 51, sh_source_org_id = 6, sh_target_org_id = Some 1,
       sh_resource_type = ''workflow'', sh_resource_id = 7, sh_permissions = [''read''],
       sh_state = ''active'', sh_expires_at = None, sh_parent_share_id = None \<rparr>]. sh_resource_id s = (7 :: uuid)"
proof -
  have env: "ae_share_checker foreign_env = Some (build_share_checker 0 [\<lparr> sh_id = 51, sh_source_org_id = 6,
      sh_target_org_id = Some 1, sh_resource_type = ''workflow'', sh_resource_id = 7, sh_permissions = [''read''],
      sh_state = ''active'', sh_expires_at = None, sh_parent_share_id = None \<rparr>])"
    by (simp add: foreign_env_def)
  have "ar_organization_id (sample_resource\<lparr> ar_organization_id := 6 \<rparr>) \<noteq> oc_organization_id sample_context"
    by (simp add: sample_context_def)
  from foreign_access_has_share [OF foreign_allowed env this] show ?thesis
    by (auto simp: sample_resource_def)
qed

section \<open>Gaps of the revocation and of the policies\<close>

text \<open>
  The schema accepts a share under a parent that is already revoked, and the recursive query walks
  active rows only. So a share delegated below a revoked one still opens the resource when the root
  of the chain is revoked, although the method promises to revoke all delegation descendants.
\<close>

definition share_gap_ops :: "share_op list" where
  "share_gap_ops = [CreateShare Superuser True sample_context 41 ''workflow'' 7 (Some 8) [''read''] None None,
     CreateShare Superuser True sample_context 42 ''workflow'' 7 (Some 9) [''read''] None (Some 41),
     RevokeShare Superuser sample_context 42,
     CreateShare Superuser True sample_context 43 ''workflow'' 7 (Some 10) [''read''] None (Some 42),
     RevokeShare Superuser sample_context 41]"

lemma share_below_revoked_survives:
  "map (\<lambda>s. (sh_id s, sh_parent_share_id s, sh_state s)) (fold share_step share_gap_ops []) =
     [(41, None, ''revoked''), (42, Some 41, ''revoked''), (43, Some 42, ''active'')]"
  "build_share_checker now (fold share_step share_gap_ops []) ''workflow'' 7 10 ''read'' = Some True"
  by (simp_all add: share_gap_ops_def create_share_def check_enabled_def SHAREABLE_TYPES_def
      validate_share_permissions_def SHARE_PERMISSIONS_def insert_share_def attempt_def sample_context_def
      revoke_share_def share_tree_def cascade_Nil cascade_Cons cascade_children_def live_share_def
      revoke_share_row_def build_share_checker_def share_matches_def Let_def)

text \<open>A connection that is subject to the policies can neither share nor revoke.\<close>

lemma application_role_cannot_write:
  "\<not> is_ok (create_share ApplicationRole en cx sid rt rid target perms expires parent rows)"
  "revoke_share ApplicationRole cx sid rows \<in> {None, Some (Inl (ShareNotFoundError sid))}"
  by (auto simp: create_share_def check_enabled_def insert_share_def revoke_share_def Let_def is_ok_iff split: sum.splits)

section \<open>A gap of creation\<close>

text \<open>
  Creation asks for nothing but an enabled service, a shareable type and known permissions: not that
  the shared resource belongs to the sharing organization. So any organization can address a share
  of a resource it does not own to itself, and the checker accepts it.
\<close>

lemma self_share_accepted:
  assumes "sid \<notin> sh_id ` set rows"
  shows "\<exists>rows'. create_share Superuser True cx sid ''workflow'' foreign_id (Some (oc_organization_id cx)) [''execute'']
      None None rows = Inr rows'
    \<and> build_share_checker now rows' ''workflow'' foreign_id (oc_organization_id cx) ''execute'' = Some True"
  using assms
  by (simp add: create_share_def check_enabled_def SHAREABLE_TYPES_def validate_share_permissions_def
      SHARE_PERMISSIONS_def insert_share_def build_share_checker_def share_matches_def)

end
