(* ===== verification/Operations.thy ===== *)
theory Operations
  imports Hierarchy Tenancy
begin

text \<open>
  Operations and their hierarchy: \<^verbatim>\<open>services/operations.py\<close> over the repository
  \<^verbatim>\<open>persistence/operations.py\<close> and the table of \<^verbatim>\<open>persistence/models/operations.py\<close>. The
  cycle check and the depth are those of \<^verbatim>\<open>domain/operations.py\<close>, in \<open>Hierarchy\<close>.

  The state is a record that later theories extend, so the operations here are polymorphic in
  the rest of the database.
\<close>

record actor_row =
  ac_id :: uuid
  ac_organization_id :: uuid
  ac_state :: string
  ac_lifecycle_phase :: string
  ac_updated_at :: "datetime option"

record operation_row =
  op_id :: uuid
  op_organization_id :: uuid
  op_actor_id :: uuid
  op_operation :: string
  op_from_state :: "string option"
  op_to_state :: "string option"
  op_trigger :: string
  op_initiated_by :: uuid
  op_collaborators :: "pyval list"
  op_scope :: "string option"
  op_depth_level :: nat
  op_parent_operation_id :: "uuid option"
  op_artifacts :: "pyval option"
  op_rationale :: "string option"
  op_outcome :: "string option"
  op_started_at :: datetime

record operation_db =
  od_actors :: "actor_row list"
  od_operations :: "operation_row list"

text \<open>The keyword arguments of \<open>record_operation\<close>.\<close>

record operation_args =
  oa_actor_id :: uuid
  oa_operation :: string
  oa_trigger :: string
  oa_initiated_by :: uuid
  oa_from_state :: "string option"
  oa_to_state :: "string option"
  oa_collaborators :: "pyval list"
  oa_scope :: "string option"
  oa_parent_operation_id :: "uuid option"
  oa_artifacts :: "pyval option"
  oa_rationale :: "string option"
  oa_outcome :: "string option"

datatype operation_error =
    OperationNotFoundError uuid
  | ParentOperationNotFoundError uuid
  | HierarchyCycleError uuid uuid
  | OperationIntegrityError

section \<open>The repository\<close>

definition get_operation :: "org_context \<Rightarrow> uuid \<Rightarrow> 'z operation_db_scheme \<Rightarrow> operation_row option" where
  "get_operation cx oid db =
     find (\<lambda>r. op_organization_id r = oc_organization_id cx \<and> op_id r = oid) (od_operations db)"

definition parent_map :: "uuid \<Rightarrow> operation_row list \<Rightarrow> (uuid \<times> uuid option) list" where
  "parent_map org rows =
     map (\<lambda>r. (op_id r, op_parent_operation_id r)) (filter (\<lambda>r. op_organization_id r = org) rows)"

definition load_parent_map :: "org_context \<Rightarrow> 'z operation_db_scheme \<Rightarrow> (uuid \<times> uuid option) list" where
  "load_parent_map cx db = parent_map (oc_organization_id cx) (od_operations db)"

text \<open>The flush of a new row, with the keys and the value checks of the table.\<close>

definition actor_in_org :: "'z operation_db_scheme \<Rightarrow> uuid \<Rightarrow> uuid \<Rightarrow> bool" where
  "actor_in_org db org actor \<longleftrightarrow> list_ex (\<lambda>a. ac_organization_id a = org \<and> ac_id a = actor) (od_actors db)"

definition opt_in :: "string option \<Rightarrow> string list \<Rightarrow> bool" where
  "opt_in v allowed \<longleftrightarrow> (case v of None \<Rightarrow> True | Some s \<Rightarrow> s \<in> set allowed)"

definition operation_allowed :: "'z operation_db_scheme \<Rightarrow> operation_row \<Rightarrow> bool" where
  "operation_allowed db r \<longleftrightarrow>
     op_id r \<notin> set (map op_id (od_operations db))
     \<and> actor_in_org db (op_organization_id r) (op_actor_id r)
     \<and> actor_in_org db (op_organization_id r) (op_initiated_by r)
     \<and> (case op_parent_operation_id r of
          None \<Rightarrow> True
        | Some p \<Rightarrow> list_ex (\<lambda>x. op_organization_id x = op_organization_id r \<and> op_id x = p) (od_operations db))
     \<and> op_trigger r \<in> {''user_command'', ''schedule'', ''auto'', ''error'', ''system''}
     \<and> opt_in (op_scope r) [''actor'', ''component'', ''organization'']
     \<and> opt_in (op_outcome r) [''success'', ''partial'', ''failed'', ''pending'']"

definition operation_of_args :: "org_context \<Rightarrow> uuid \<Rightarrow> datetime \<Rightarrow> operation_args \<Rightarrow> nat \<Rightarrow> operation_row" where
  "operation_of_args cx new_id now args depth =
     \<lparr> op_id = new_id, op_organization_id = oc_organization_id cx, op_actor_id = oa_actor_id args,
       op_operation = oa_operation args, op_from_state = oa_from_state args,
       op_to_state = oa_to_state args, op_trigger = oa_trigger args,
       op_initiated_by = oa_initiated_by args, op_collaborators = oa_collaborators args,
       op_scope = oa_scope args, op_depth_level = depth,
       op_parent_operation_id = oa_parent_operation_id args, op_artifacts = oa_artifacts args,
       op_rationale = oa_rationale args, op_outcome = oa_outcome args, op_started_at = now \<rparr>"

definition insert_operation ::
  "org_context \<Rightarrow> uuid \<Rightarrow> datetime \<Rightarrow> operation_args \<Rightarrow> nat \<Rightarrow> 'z operation_db_scheme
   \<Rightarrow> operation_error + uuid \<times> 'z operation_db_scheme" where
  "insert_operation cx new_id now args depth db =
     (let r = operation_of_args cx new_id now args depth
      in if \<not> operation_allowed db r then Inl OperationIntegrityError
         else Inr (new_id, db\<lparr> od_operations := od_operations db @ [r] \<rparr>))"

text \<open>The UPDATE of \<open>set_parent\<close>; its result is whether a row was updated.\<close>

definition repo_set_parent ::
  "org_context \<Rightarrow> uuid \<Rightarrow> uuid \<Rightarrow> nat \<Rightarrow> 'z operation_db_scheme \<Rightarrow> bool \<times> 'z operation_db_scheme" where
  "repo_set_parent cx oid parent depth db =
     (let hit = (\<lambda>r. op_organization_id r = oc_organization_id cx \<and> op_id r = oid)
      in (length (filter hit (od_operations db)) = 1,
          db\<lparr> od_operations := update_where hit
             (\<lambda>r. r\<lparr> op_parent_operation_id := Some parent, op_depth_level := depth \<rparr>) (od_operations db) \<rparr>))"

section \<open>The service\<close>

definition record_operation ::
  "org_context \<Rightarrow> uuid \<Rightarrow> datetime \<Rightarrow> operation_args \<Rightarrow> 'z operation_db_scheme
   \<Rightarrow> operation_error + uuid \<times> 'z operation_db_scheme" where
  "record_operation cx new_id now args db =
     (case oa_parent_operation_id args of
        None \<Rightarrow> insert_operation cx new_id now args 0 db
      | Some p \<Rightarrow>
          let parent_of = load_parent_map cx db
          in if p \<notin> fst ` set parent_of then Inl (ParentOperationNotFoundError p)
             else insert_operation cx new_id now args (ancestor_depth p parent_of + 1) db)"

definition set_parent ::
  "org_context \<Rightarrow> uuid \<Rightarrow> uuid \<Rightarrow> 'z operation_db_scheme \<Rightarrow> operation_error + 'z operation_db_scheme" where
  "set_parent cx oid new_parent_id db =
     (case get_operation cx oid db of
        None \<Rightarrow> Inl (OperationNotFoundError oid)
      | Some _ \<Rightarrow>
          let parent_of = load_parent_map cx db
          in if new_parent_id \<notin> fst ` set parent_of then Inl (ParentOperationNotFoundError new_parent_id)
             else if op_would_create_cycle oid new_parent_id parent_of
             then Inl (HierarchyCycleError oid new_parent_id)
             else
               (case repo_set_parent cx oid new_parent_id (ancestor_depth new_parent_id parent_of + 1) db of
                  (updated, db') \<Rightarrow> if \<not> updated then Inl (OperationNotFoundError oid) else Inr db'))"

section \<open>The hierarchy invariant\<close>

text \<open>
  INV-OP-1 and INV-OP-2: in every organization the parent pointers have no cycle, and each
  points to an operation of the same organization.
\<close>

definition closed_map :: "(uuid \<times> uuid option) list \<Rightarrow> bool" where
  "closed_map m \<longleftrightarrow> list_all (\<lambda>(c, p). case p of None \<Rightarrow> True | Some q \<Rightarrow> q \<in> fst ` set m) m"

definition hierarchy_ok :: "operation_row list \<Rightarrow> bool" where
  "hierarchy_ok rows \<longleftrightarrow>
     distinct (map op_id rows)
     \<and> (\<forall>org. acyclic (parent_rel (parent_map org rows)) \<and> closed_map (parent_map org rows))"

lemma parent_map_keys: "fst ` set (parent_map org rows) = op_id ` {r \<in> set rows. op_organization_id r = org}"
  by (auto simp: parent_map_def image_iff)

lemma parent_map_distinct: "distinct (map op_id rows) \<Longrightarrow> distinct (map fst (parent_map org rows))"
proof -
  have "map fst (parent_map org rows) = map op_id (filter (\<lambda>r. op_organization_id r = org) rows)"
    by (simp add: parent_map_def comp_def)
  then show "distinct (map op_id rows) \<Longrightarrow> distinct (map fst (parent_map org rows))"
    by (simp add: distinct_map_filter)
qed

lemma parent_rel_keys: "closed_map m \<Longrightarrow> (c, p) \<in> parent_rel m \<Longrightarrow> c \<in> fst ` set m \<and> p \<in> fst ` set m"
  by (auto simp: closed_map_def list_all_iff parent_get_def dest!: map_of_SomeD split: option.splits) force+

lemma parent_get_snoc:
  assumes "n \<notin> fst ` set m"
  shows "parent_get (m @ [(n, p)]) c = (if c = n then p else parent_get m c)"
proof -
  have "map_of m n = None" using assms by (simp add: map_of_eq_None_iff)
  then show ?thesis by (auto simp: parent_get_def map_of_append map_add_def split: option.splits)
qed

lemma acyclic_snoc:
  assumes "acyclic (parent_rel m)" and "closed_map m" and "n \<notin> fst ` set m"
    and "case p of None \<Rightarrow> True | Some q \<Rightarrow> q \<in> fst ` set m"
  shows "acyclic (parent_rel (m @ [(n, p)]))"
proof (cases p)
  case None
  then have "parent_rel (m @ [(n, p)]) \<subseteq> parent_rel m"
    using assms(3) by (auto simp: parent_get_snoc split: if_splits)
  then show ?thesis using assms(1) acyclic_subset by blast
next
  case (Some q)
  then have q: "q \<in> fst ` set m" using assms(4) by simp
  have "parent_rel (m @ [(n, p)]) \<subseteq> insert (n, q) (parent_rel m)"
    using assms(3) Some by (auto simp: parent_get_snoc split: if_splits)
  moreover have "(q, n) \<notin> (parent_rel m)\<^sup>*"
  proof
    assume "(q, n) \<in> (parent_rel m)\<^sup>*"
    then have "q = n \<or> (\<exists>c. (c, n) \<in> parent_rel m)" by (auto elim: rtranclE)
    with q assms(2,3) parent_rel_keys show False by blast
  qed
  ultimately show ?thesis using assms(1) by (meson acyclic_insert acyclic_subset)
qed

lemma closed_map_snoc:
  "closed_map m \<Longrightarrow> (case p of None \<Rightarrow> True | Some q \<Rightarrow> q \<in> fst ` set m) \<Longrightarrow> closed_map (m @ [(n, p)])"
  by (auto simp: closed_map_def list_all_iff split: option.splits)

lemma parent_map_snoc:
  "parent_map org (rows @ [r]) =
     parent_map org rows @ (if op_organization_id r = org then [(op_id r, op_parent_operation_id r)] else [])"
  by (simp add: parent_map_def)

lemma insert_operation_ok:
  assumes "hierarchy_ok (od_operations db)" and "operation_allowed db r"
  shows "hierarchy_ok (od_operations db @ [r])"
proof -
  have fresh: "op_id r \<notin> op_id ` set (od_operations db)" using assms(2) by (simp add: operation_allowed_def)
  have "acyclic (parent_rel (parent_map org (od_operations db @ [r])))
      \<and> closed_map (parent_map org (od_operations db @ [r]))" for org
  proof (cases "op_organization_id r = org")
    case True
    let ?m = "parent_map org (od_operations db)"
    have n: "op_id r \<notin> fst ` set ?m" using fresh by (auto simp: parent_map_keys)
    have p: "case op_parent_operation_id r of None \<Rightarrow> True | Some q \<Rightarrow> q \<in> fst ` set ?m"
      using assms(2) True by (auto simp: operation_allowed_def parent_map_keys list_ex_iff split: option.splits)
    show ?thesis
      using assms(1) True acyclic_snoc [OF _ _ n p] closed_map_snoc [OF _ p]
      by (simp add: hierarchy_ok_def parent_map_snoc)
  qed (use assms(1) in \<open>simp add: hierarchy_ok_def parent_map_snoc\<close>)
  with assms(1) fresh show ?thesis by (simp add: hierarchy_ok_def)
qed

lemma parent_map_update:
  assumes "distinct (map op_id rows)"
  shows "parent_map org (update_where (\<lambda>r. op_organization_id r = org' \<and> op_id r = oid)
        (\<lambda>r. r\<lparr> op_parent_operation_id := Some p, op_depth_level := d \<rparr>) rows)
    = map (\<lambda>(c, q). (c, if org' = org \<and> c = oid then Some p else q)) (parent_map org rows)"
  using assms by (induction rows) (auto simp: parent_map_def)

lemma parent_get_map:
  "parent_get (map (\<lambda>(c, q). (c, if b \<and> c = oid then Some p else q)) m) c =
     (if b \<and> c = oid \<and> c \<in> fst ` set m then Some p else parent_get m c)"
  by (induction m) (auto simp: parent_get_def split: if_splits)

lemma redirect_closed:
  assumes "list_all (\<lambda>(c, q). case q of None \<Rightarrow> True | Some x \<Rightarrow> x \<in> K) m" and "p \<in> K"
  shows "list_all (\<lambda>(c, q). case q of None \<Rightarrow> True | Some x \<Rightarrow> x \<in> K)
    (map (\<lambda>(c, q). (c, if b \<and> c = oid then Some p else q)) m)"
  using assms by (induction m) auto

lemma set_parent_cases:
  assumes "set_parent cx oid new_parent db = Inr db'"
  shows "oid \<in> fst ` set (load_parent_map cx db) \<and> new_parent \<in> fst ` set (load_parent_map cx db)
    \<and> \<not> op_would_create_cycle oid new_parent (load_parent_map cx db)
    \<and> db' = db\<lparr> od_operations := update_where
        (\<lambda>r. op_organization_id r = oc_organization_id cx \<and> op_id r = oid)
        (\<lambda>r. r\<lparr> op_parent_operation_id := Some new_parent,
               op_depth_level := ancestor_depth new_parent (load_parent_map cx db) + 1 \<rparr>) (od_operations db) \<rparr>"
proof -
  from assms obtain r where r: "get_operation cx oid db = Some r"
    by (auto simp: set_parent_def split: option.splits)
  then have "r \<in> set (od_operations db)" "op_organization_id r = oc_organization_id cx" "op_id r = oid"
    unfolding get_operation_def by (auto dest: find_Some_iff_mem)
  then have "oid \<in> fst ` set (load_parent_map cx db)"
    by (auto simp: load_parent_map_def parent_map_keys)
  with assms r show ?thesis
    by (auto simp: set_parent_def repo_set_parent_def Let_def split: if_splits)
qed

lemma set_parent_ok:
  assumes "hierarchy_ok (od_operations db)" and "set_parent cx oid new_parent db = Inr db'"
  shows "hierarchy_ok (od_operations db')"
proof -
  note c = set_parent_cases [OF assms(2)]
  let ?d = "ancestor_depth new_parent (load_parent_map cx db) + 1"
  let ?rows = "update_where (\<lambda>r. op_organization_id r = oc_organization_id cx \<and> op_id r = oid)
        (\<lambda>r. r\<lparr> op_parent_operation_id := Some new_parent, op_depth_level := ?d \<rparr>) (od_operations db)"
  have dist: "distinct (map op_id (od_operations db))" using assms(1) by (simp add: hierarchy_ok_def)
  have "acyclic (parent_rel (parent_map org ?rows)) \<and> closed_map (parent_map org ?rows)" for org
  proof -
    let ?m = "parent_map org (od_operations db)" and ?b = "oc_organization_id cx = org"
    have new: "parent_map org ?rows = map (\<lambda>(c, q). (c, if ?b \<and> c = oid then Some new_parent else q)) ?m"
      by (rule parent_map_update [OF dist])
    have keys: "fst ` set (parent_map org ?rows) = fst ` set ?m" unfolding new by force
    have ok: "acyclic (parent_rel ?m)" "closed_map ?m" using assms(1) by (simp_all add: hierarchy_ok_def)
    show ?thesis
    proof (cases ?b)
      case True
      then have m: "load_parent_map cx db = ?m" by (simp add: load_parent_map_def)
      have member: "oid \<in> fst ` set ?m" "new_parent \<in> fst ` set ?m" using c unfolding m by blast+
      have get: "parent_get (parent_map org ?rows) x = (if x = oid then Some new_parent else parent_get ?m x)" for x
        unfolding new parent_get_map using True member(1) by auto
      have rel: "parent_rel (parent_map org ?rows) = {(c, q) \<in> parent_rel ?m. c \<noteq> oid} \<union> {(oid, new_parent)}"
        unfolding parent_rel_def get by (auto split: if_splits)
      have "(new_parent, oid) \<notin> (parent_rel ?m)\<^sup>*"
        using c op_would_create_cycle_iff [OF ok(1)] unfolding m by blast
      then have "acyclic (parent_rel (parent_map org ?rows))"
        unfolding rel by (rule acyclic_reparent [OF ok(1)])
      moreover have "closed_map (parent_map org ?rows)"
        unfolding closed_map_def keys unfolding new
        by (rule redirect_closed [OF ok(2) [unfolded closed_map_def] member(2)])
      ultimately show ?thesis by simp
    next
      case False
      then have "parent_map org ?rows = ?m" unfolding new by (simp add: map_idI case_prod_beta)
      with ok show ?thesis by simp
    qed
  qed
  moreover have "map op_id ?rows = map op_id (od_operations db)" by (rule map_update_where) simp
  ultimately show ?thesis using c dist by (simp add: hierarchy_ok_def)
qed

lemma record_operation_insert:
  "record_operation cx new_id now args db = Inr (i, db') \<Longrightarrow>
     \<exists>r. operation_allowed db r \<and> i = new_id \<and> db' = db\<lparr> od_operations := od_operations db @ [r] \<rparr>
       \<and> r = operation_of_args cx new_id now args
          (case oa_parent_operation_id args of None \<Rightarrow> 0 | Some p \<Rightarrow> ancestor_depth p (load_parent_map cx db) + 1)"
  by (auto simp: record_operation_def insert_operation_def Let_def split: option.splits if_splits)

lemma record_operation_ok:
  "hierarchy_ok (od_operations db) \<Longrightarrow> record_operation cx new_id now args db = Inr (i, db') \<Longrightarrow>
     hierarchy_ok (od_operations db')"
  by (drule record_operation_insert) (auto intro: insert_operation_ok)

datatype operation_call =
    RecordOperation org_context uuid datetime operation_args
  | SetParent org_context uuid uuid

fun operation_step :: "operation_call \<Rightarrow> operation_db \<Rightarrow> operation_db" where
  "operation_step (RecordOperation cx i now args) db =
     (case record_operation cx i now args db of Inl _ \<Rightarrow> db | Inr (_, db') \<Rightarrow> db')"
| "operation_step (SetParent cx oid p) db = (case set_parent cx oid p db of Inl _ \<Rightarrow> db | Inr db' \<Rightarrow> db')"

definition operations_ok :: "operation_db \<Rightarrow> bool" where
  "operations_ok db \<longleftrightarrow> hierarchy_ok (od_operations db)"

lemma operation_step_ok: "operations_ok db \<Longrightarrow> operations_ok (operation_step x db)"
  by (cases x) (auto simp: operations_ok_def split: sum.split intro: record_operation_ok set_parent_ok)

interpretation operation_table: component operation_step operations_ok
  by unfold_locales (rule operation_step_ok)

section \<open>Depth levels\<close>

lemma ancestor_depth_snoc:
  assumes acyc: "acyclic (parent_rel m)" and closed: "closed_map m" and n: "n \<notin> fst ` set m"
    and p: "case p of None \<Rightarrow> True | Some q \<Rightarrow> q \<in> fst ` set m" and c: "c \<in> fst ` set m"
  shows "ancestor_depth c (m @ [(n, p)]) = ancestor_depth c m"
proof -
  have acyc': "acyclic (parent_rel (m @ [(n, p)]))" by (rule acyclic_snoc [OF acyc closed n p])
  have "parent_rel m \<subseteq> fst ` set m \<times> fst ` set m" using parent_rel_keys [OF closed] by auto
  then have "finite (parent_rel m)" by (rule finite_subset) simp
  then have "wf ((parent_rel m)\<inverse>)" using acyc by (rule finite_acyclic_wf_converse)
  then show ?thesis using c
  proof (induction c rule: wf_induct_rule)
    case (less c)
    then have "c \<noteq> n" using n by auto
    then have get: "parent_get (m @ [(n, p)]) c = parent_get m c" using n by (simp add: parent_get_snoc)
    show ?case
    proof (cases "parent_get m c")
      case (Some q)
      then have "q \<in> fst ` set m" using parent_rel_keys [OF closed, of c q] by simp
      with less.IH [of q] Some have "ancestor_depth q (m @ [(n, p)]) = ancestor_depth q m" by simp
      with Some get show ?thesis by (simp add: ancestor_depth_rec [OF acyc] ancestor_depth_rec [OF acyc', of c])
    qed (simp add: ancestor_depth_root get)
  qed
qed

definition depths_ok :: "operation_row list \<Rightarrow> bool" where
  "depths_ok rows \<longleftrightarrow> hierarchy_ok rows
     \<and> list_all (\<lambda>r. op_depth_level r = ancestor_depth (op_id r) (parent_map (op_organization_id r) rows)) rows"

lemma record_operation_depths:
  assumes "depths_ok (od_operations db)" and "record_operation cx new_id now args db = Inr (i, db')"
  shows "depths_ok (od_operations db')"
proof -
  have hier: "hierarchy_ok (od_operations db)" using assms(1) by (simp add: depths_ok_def)
  from record_operation_insert [OF assms(2)] obtain r where r: "operation_allowed db r"
    "db' = db\<lparr> od_operations := od_operations db @ [r] \<rparr>"
    "op_organization_id r = oc_organization_id cx" "op_parent_operation_id r = oa_parent_operation_id args"
    "op_depth_level r = (case oa_parent_operation_id args of
       None \<Rightarrow> 0 | Some p \<Rightarrow> ancestor_depth p (load_parent_map cx db) + 1)"
    by (auto simp: operation_of_args_def)
  let ?m = "parent_map (op_organization_id r) (od_operations db)"
  have ok: "acyclic (parent_rel ?m)" "closed_map ?m" using hier by (simp_all add: hierarchy_ok_def)
  have n: "op_id r \<notin> fst ` set ?m" using r(1) by (auto simp: operation_allowed_def parent_map_keys)
  have p: "case op_parent_operation_id r of None \<Rightarrow> True | Some q \<Rightarrow> q \<in> fst ` set ?m"
    using r(1) by (auto simp: operation_allowed_def parent_map_keys list_ex_iff split: option.splits)
  have old: "op_depth_level x = ancestor_depth (op_id x) (parent_map (op_organization_id x) (od_operations db @ [r]))"
    if x: "x \<in> set (od_operations db)" for x
  proof -
    have d: "op_depth_level x = ancestor_depth (op_id x) (parent_map (op_organization_id x) (od_operations db))"
      using assms(1) x by (simp add: depths_ok_def list_all_iff)
    show ?thesis
    proof (cases "op_organization_id r = op_organization_id x")
      case True
      then have "op_id x \<in> fst ` set ?m" using x by (auto simp: parent_map_keys)
      from ancestor_depth_snoc [OF ok n p this] d True show ?thesis by (simp add: parent_map_snoc)
    qed (simp add: d parent_map_snoc)
  qed
  have "op_depth_level r = ancestor_depth (op_id r) (?m @ [(op_id r, op_parent_operation_id r)])"
  proof (cases "op_parent_operation_id r")
    case None
    then show ?thesis using r n by (simp add: ancestor_depth_root parent_get_snoc)
  next
    case (Some q)
    have "ancestor_depth (op_id r) (?m @ [(op_id r, op_parent_operation_id r)])
        = Suc (ancestor_depth q (?m @ [(op_id r, op_parent_operation_id r)]))"
      using ancestor_depth_rec [OF acyclic_snoc [OF ok n p], of "op_id r"] Some n by (simp add: parent_get_snoc)
    with ancestor_depth_snoc [OF ok n p, of q] Some p r show ?thesis by (simp add: load_parent_map_def)
  qed
  with old r insert_operation_ok [OF hier r(1)] show ?thesis
    by (simp add: depths_ok_def list_all_iff parent_map_snoc)
qed

section \<open>Properties\<close>

text \<open>
  C4. The operation hierarchy of every organization stays a forest. Over any sequence of
  \<open>record_operation\<close> and \<open>set_parent\<close> calls of any organizations, the parent pointers of each
  organization have no cycle and stay inside the organization.
\<close>

theorem hierarchy_stays_acyclic:
  assumes "hierarchy_ok (od_operations db)"
  shows "hierarchy_ok (od_operations (fold operation_step calls db))"
  using operation_table.run_inv [of db calls] assms by (simp add: operations_ok_def)

definition operation_context :: org_context where
  "operation_context = \<lparr> oc_auth_identity_id = 11, oc_actor_id = 2, oc_organization_id = 1,
     oc_session_id = 12, oc_platform_role = PlatformNone, oc_membership_role = OrgMember \<rparr>"

definition plain_args :: "uuid option \<Rightarrow> operation_args" where
  "plain_args parent = \<lparr> oa_actor_id = 2, oa_operation = ''step'', oa_trigger = ''auto'',
     oa_initiated_by = 2, oa_from_state = None, oa_to_state = None, oa_collaborators = [],
     oa_scope = None, oa_parent_operation_id = parent, oa_artifacts = None, oa_rationale = None,
     oa_outcome = None \<rparr>"

definition empty_operation_db :: operation_db where
  "empty_operation_db = \<lparr> od_actors = [\<lparr> ac_id = 2, ac_organization_id = 1, ac_state = ''active'',
     ac_lifecycle_phase = ''operational'', ac_updated_at = None \<rparr>], od_operations = [] \<rparr>"

lemma empty_hierarchy: "hierarchy_ok (od_operations empty_operation_db)"
  by (simp add: hierarchy_ok_def empty_operation_db_def parent_map_def closed_map_def parent_rel_def
      parent_get_def acyclic_def)

lemma hierarchy_stays_acyclic_witness:
  "hierarchy_ok (od_operations (fold operation_step
     [RecordOperation operation_context 21 5 (plain_args None), SetParent operation_context 21 21] empty_operation_db))"
  by (rule hierarchy_stays_acyclic [OF empty_hierarchy])

text \<open>
  \<open>set_parent\<close> rejects exactly the harmful reparentings: in a database whose hierarchy is
  acyclic it succeeds if and only if both operations exist in the acting organization and the
  operation is not the new parent or one of its ancestors.
\<close>

theorem set_parent_exact:
  assumes "hierarchy_ok (od_operations db)"
  shows "is_ok (set_parent cx oid new_parent db) \<longleftrightarrow>
    oid \<in> fst ` set (load_parent_map cx db) \<and> new_parent \<in> fst ` set (load_parent_map cx db)
    \<and> (new_parent, oid) \<notin> (parent_rel (load_parent_map cx db))\<^sup>*"
proof -
  let ?m = "load_parent_map cx db"
  let ?hit = "\<lambda>r. op_organization_id r = oc_organization_id cx \<and> op_id r = oid"
  have acyc: "acyclic (parent_rel ?m)" and dist: "distinct (map op_id (od_operations db))"
    using assms by (simp_all add: hierarchy_ok_def load_parent_map_def)
  have get: "get_operation cx oid db = None \<longleftrightarrow> oid \<notin> fst ` set ?m"
    by (auto simp: get_operation_def find_None_iff load_parent_map_def parent_map_keys)
  have one: "length (filter ?hit (od_operations db)) = 1" if "oid \<in> fst ` set ?m"
  proof -
    from that obtain r where r: "r \<in> set (od_operations db)" "?hit r"
      by (auto simp: load_parent_map_def parent_map_keys)
    then have "set (filter ?hit (od_operations db)) = {r}"
      using distinct_map_eq [OF dist] by auto
    moreover have "distinct (filter ?hit (od_operations db))"
      using dist by (simp add: distinct_map)
    ultimately show ?thesis using distinct_card by fastforce
  qed
  show ?thesis
    using get one op_would_create_cycle_iff [OF acyc, of oid new_parent]
    by (cases "get_operation cx oid db") (auto simp: set_parent_def repo_set_parent_def Let_def)
qed

lemma set_parent_exact_witness:
  "\<not> is_ok (set_parent operation_context 21 22 empty_operation_db)"
  using set_parent_exact [OF empty_hierarchy, of operation_context 21 22]
  by (simp add: load_parent_map_def parent_map_def empty_operation_db_def)

text \<open>
  As long as operations are only recorded, every \<open>depth_level\<close> is the number of ancestors of
  the operation in its organization.
\<close>

theorem recorded_depths_exact:
  assumes "depths_ok (od_operations db)" and "list_all (\<lambda>c. case c of RecordOperation _ _ _ _ \<Rightarrow> True | _ \<Rightarrow> False) calls"
  shows "depths_ok (od_operations (fold operation_step calls db))"
  using assms
proof (induction calls arbitrary: db)
  case (Cons c calls)
  then obtain cx i now args where c: "c = RecordOperation cx i now args" by (cases c) auto
  have "depths_ok (od_operations (operation_step c db))"
    using Cons.prems(1) record_operation_depths by (auto simp: c split: sum.split)
  with Cons show ?case by simp
qed simp

definition recorded_ops :: "operation_call list" where
  "recorded_ops = [RecordOperation operation_context 21 5 (plain_args None),
     RecordOperation operation_context 22 6 (plain_args (Some 21))]"

lemma recorded_depths_exact_witness:
  "depths_ok (od_operations (fold operation_step recorded_ops empty_operation_db))"
  by (rule recorded_depths_exact)
    (simp_all add: depths_ok_def empty_hierarchy recorded_ops_def, simp add: empty_operation_db_def)

text \<open>
  Reparenting updates the depth of the moved operation only: the levels below it become stale.
\<close>

definition two_trees :: "operation_row list" where
  "two_trees = map (\<lambda>(i, p, d). (operation_of_args operation_context i 5 (plain_args p) d))
     [(21, None, 0), (22, None, 0), (23, Some 22, 1)]"

definition two_trees_db :: operation_db where
  "two_trees_db = empty_operation_db\<lparr> od_operations := two_trees \<rparr>"

lemma reparent_leaves_stale_depths:
  "\<exists>db'. set_parent operation_context 22 21 two_trees_db = Inr db'
     \<and> map op_depth_level (od_operations db') = [0, 1, 1]
     \<and> ancestor_depth 23 (load_parent_map operation_context db') = 2"
  by (simp add: set_parent_def get_operation_def two_trees_db_def two_trees_def operation_of_args_def
      plain_args_def operation_context_def load_parent_map_def parent_map_def Let_def
      op_would_create_cycle_def parent_get_def repo_set_parent_def ancestor_depth_def)

end
