(* ===== verification/Provenance.thy ===== *)
theory Provenance
  imports Operations Lifecycle Registries Authz
begin

text \<open>
  The event stream and the lifecycle service: \<^verbatim>\<open>domain/events.py\<close>, \<^verbatim>\<open>services/events.py\<close>,
  \<^verbatim>\<open>services/quotas.py\<close>, the parts of \<^verbatim>\<open>services/webhooks.py\<close> and \<^verbatim>\<open>services/metering.py\<close> that an
  append runs, and \<^verbatim>\<open>services/lifecycle.py\<close>.

  Parameters: the signature of a webhook payload (\<open>sign\<close>, an HMAC), the registry of event types,
  the fresh identifiers and the clock. An exception leaves the caller's transaction to be
  rolled back, so the result of a raise carries no database. The primary key of the event table
  is not checked: its identifiers are fresh. Datetimes are on the UTC axis.
\<close>

section \<open>Events\<close>

definition SEVERITIES :: "string list" where
  "SEVERITIES = [''debug'', ''info'', ''warn'', ''error'', ''critical'']"

record stored_event =
  se_id :: uuid
  se_organization_id :: uuid
  se_actor_id :: "uuid option"
  se_event_type :: string
  se_payload :: "(string \<times> pyval) list"
  se_created_at :: datetime
  se_severity :: string
  se_correlation_id :: "uuid option"
  se_operation_id :: "uuid option"
  se_entity_type :: "string option"
  se_entity_id :: "uuid option"

record subscription_row =
  ws_id :: uuid
  ws_organization_id :: uuid
  ws_url :: string
  ws_event_types :: "string list"
  ws_signing_secret :: string
  ws_state :: string
  ws_headers :: "(string \<times> pyval) list"
  ws_created_at :: datetime

record meter_row =
  um_id :: uuid
  um_organization_id :: uuid
  um_period_start :: datetime
  um_period_end :: datetime
  um_metric_type :: string
  um_value :: int
  um_metadata :: "(string \<times> pyval) list"

text \<open>The database of the operations, extended; the quotas are those of the organization rows.\<close>

record prov_db = operation_db +
  pv_events :: "stored_event list"
  pv_subscriptions :: "subscription_row list"
  pv_meters :: "meter_row list"
  pv_quotas :: "(uuid \<times> (string \<times> int) list) list"

datatype prov_error =
    InvalidEventTypeError string
  | InvalidSeverityError string
  | QuotaExceededError string nat int
  | MalformedUuid string
  | EventIntegrityError
  | WebhookNotFoundError uuid
  | ActorNotFoundError uuid
  | LifecycleError transition_error
  | OperationFailed operation_error

definition validate_event_type :: "event_type_registry \<Rightarrow> string \<Rightarrow> prov_error + string" where
  "validate_event_type reg event_type =
     (if \<not> er_is_valid reg event_type then Inl (InvalidEventTypeError event_type) else Inr event_type)"

definition validate_severity :: "string \<Rightarrow> prov_error + string" where
  "validate_severity severity =
     (if severity \<notin> set SEVERITIES then Inl (InvalidSeverityError severity) else Inr severity)"

definition build_state_change_payload ::
  "string \<Rightarrow> uuid \<Rightarrow> string \<Rightarrow> string \<Rightarrow> uuid \<Rightarrow> string \<Rightarrow> string option \<Rightarrow> string
   \<Rightarrow> prov_error + (string \<times> pyval) list" where
  "build_state_change_payload entity_type entity_id from_state to_state operation_id trigger rationale severity =
     rbind (validate_severity severity) (\<lambda>_.
       Inr ([(''summary'', PStr (entity_type @ '' '' @ uuid_str entity_id @ '' transitioned from ''
                @ from_state @ '' to '' @ to_state)),
             (''severity'', PStr severity), (''entity_type'', PStr entity_type),
             (''entity_id'', PStr (uuid_str entity_id)), (''from_state'', PStr from_state),
             (''to_state'', PStr to_state), (''operation_id'', PStr (uuid_str operation_id)),
             (''trigger'', PStr trigger)]
            @ (case rationale of None \<Rightarrow> [] | Some r \<Rightarrow> [(''rationale'', PStr r)])))"

text \<open>
  \<open>uuid.UUID(s)\<close> of a string: 32 hexadecimal digits once the dashes are dropped. (The prefixes,
  braces and underscores it also tolerates do not occur in \<open>str\<close> of a UUID.)
\<close>

definition is_hex :: "char \<Rightarrow> bool" where
  "is_hex c \<longleftrightarrow> (let n = (of_char c :: nat) in (48 \<le> n \<and> n \<le> 57) \<or> (97 \<le> n \<and> n \<le> 102) \<or> (65 \<le> n \<and> n \<le> 70))"

definition to_lower_hex :: "char \<Rightarrow> char" where
  "to_lower_hex c = (let n = (of_char c :: nat) in if 65 \<le> n \<and> n \<le> 70 then char_of (n + 32) else c)"

definition parse_uuid :: "string \<Rightarrow> prov_error + uuid" where
  "parse_uuid s =
     (let h = filter (\<lambda>c. c \<noteq> CHR ''-'') s
      in if length h = 32 \<and> list_all is_hex h
         then Inr (word_of_nat (hex_num (map to_lower_hex h))) else Inl (MalformedUuid s))"

text \<open>A routing value: a UUID parsed from a string, or what the payload held.\<close>

datatype routed_id = RoutedUuid uuid | RoutedValue pyval

fun route_id :: "pyval \<Rightarrow> prov_error + routed_id" where
  "route_id (PStr s) = rbind (parse_uuid s) (\<lambda>u. Inr (RoutedUuid u))"
| "route_id v = Inr (RoutedValue v)"

record routing_fields =
  rf_severity :: "pyval option"
  rf_operation_id :: "routed_id option"
  rf_entity_type :: "pyval option"
  rf_entity_id :: "routed_id option"
  rf_correlation_id :: "routed_id option"

definition route_field :: "(string \<times> pyval) list \<Rightarrow> string \<Rightarrow> prov_error + routed_id option" where
  "route_field payload k =
     (case map_of payload k of None \<Rightarrow> Inr None | Some v \<Rightarrow> rbind (route_id v) (\<lambda>r. Inr (Some r)))"

definition extract_routing_fields :: "(string \<times> pyval) list \<Rightarrow> prov_error + routing_fields" where
  "extract_routing_fields payload =
     rbind (route_field payload ''operation_id'') (\<lambda>oi.
     rbind (route_field payload ''entity_id'') (\<lambda>ei.
     rbind (route_field payload ''correlation_id'') (\<lambda>ci.
       Inr \<lparr> rf_severity = map_of payload ''severity'', rf_operation_id = oi,
             rf_entity_type = map_of payload ''entity_type'', rf_entity_id = ei,
             rf_correlation_id = ci \<rparr>)))"

section \<open>Quotas\<close>

definition get_quotas :: "'z prov_db_scheme \<Rightarrow> uuid \<Rightarrow> (string \<times> int) list" where
  "get_quotas db org = (case map_of (pv_quotas db) org of None \<Rightarrow> [] | Some q \<Rightarrow> q)"

definition utc_day :: int where "utc_day = 86400000000"

definition check_daily_events :: "datetime \<Rightarrow> uuid \<Rightarrow> 'z prov_db_scheme \<Rightarrow> prov_error + unit" where
  "check_daily_events now org db =
     (case map_of (get_quotas db org) ''max_daily_events'' of
        None \<Rightarrow> Inr ()
      | Some limit \<Rightarrow>
          let today_start = now - now mod utc_day;
              current = length (filter (\<lambda>e. se_organization_id e = org \<and> se_created_at e \<ge> today_start) (pv_events db))
          in if int current \<ge> limit then Inl (QuotaExceededError ''daily_events'' current limit) else Inr ())"

section \<open>Metering and webhooks\<close>

definition hour :: int where "hour = 3600000000"

definition record_usage ::
  "org_context \<Rightarrow> uuid \<Rightarrow> string \<Rightarrow> int \<Rightarrow> (string \<times> pyval) list option \<Rightarrow> datetime \<Rightarrow> 'z prov_db_scheme
   \<Rightarrow> 'z prov_db_scheme" where
  "record_usage cx new_id metric_type v metadata now db =
     (let start = now - now mod hour;
          hit = (\<lambda>m. um_organization_id m = oc_organization_id cx \<and> um_period_start m = start \<and> um_metric_type m = metric_type);
          md = (case metadata of None \<Rightarrow> [] | Some d \<Rightarrow> d)
      in if list_ex hit (pv_meters db)
         then db\<lparr> pv_meters := update_where hit
                (\<lambda>m. m\<lparr> um_value := um_value m + v,
                        um_metadata := fold (\<lambda>(k, x) d. AList.update k x d) md (um_metadata m) \<rparr>) (pv_meters db) \<rparr>
         else db\<lparr> pv_meters := pv_meters db @
                [\<lparr> um_id = new_id, um_organization_id = oc_organization_id cx, um_period_start = start,
                   um_period_end = start + hour, um_metric_type = metric_type, um_value = v,
                   um_metadata = md \<rparr>] \<rparr>)"

definition get_matching_subscriptions :: "org_context \<Rightarrow> string \<Rightarrow> 'z prov_db_scheme \<Rightarrow> subscription_row list" where
  "get_matching_subscriptions cx event_type db =
     filter (\<lambda>w. event_type \<in> set (ws_event_types w) \<or> ''*'' \<in> set (ws_event_types w))
       (filter (\<lambda>w. ws_organization_id w = oc_organization_id cx \<and> ws_state w = ''active'') (pv_subscriptions db))"

definition create_subscription ::
  "org_context \<Rightarrow> uuid \<Rightarrow> datetime \<Rightarrow> string \<Rightarrow> string \<Rightarrow> string list \<Rightarrow> (string \<times> pyval) list option
   \<Rightarrow> 'z prov_db_scheme \<Rightarrow> 'z prov_db_scheme" where
  "create_subscription cx new_id now secret url event_types headers db =
     db\<lparr> pv_subscriptions := pv_subscriptions db @
       [\<lparr> ws_id = new_id, ws_organization_id = oc_organization_id cx, ws_url = url,
          ws_event_types = event_types, ws_signing_secret = secret, ws_state = ''active'',
          ws_headers = (case headers of None \<Rightarrow> [] | Some h \<Rightarrow> h), ws_created_at = now \<rparr>] \<rparr>"

definition pause_subscription ::
  "org_context \<Rightarrow> uuid \<Rightarrow> 'z prov_db_scheme \<Rightarrow> prov_error + 'z prov_db_scheme" where
  "pause_subscription cx sid db =
     (let hit = (\<lambda>w. ws_organization_id w = oc_organization_id cx \<and> ws_id w = sid)
      in if \<not> list_ex hit (pv_subscriptions db) then Inl (WebhookNotFoundError sid)
         else Inr (db\<lparr> pv_subscriptions := update_where hit (ws_state_update (\<lambda>_. ''paused'')) (pv_subscriptions db) \<rparr>))"

text \<open>The event that records the intent to deliver to one subscription.\<close>

definition dispatch_event ::
  "(string \<Rightarrow> (string \<times> pyval) list \<Rightarrow> string) \<Rightarrow> org_context \<Rightarrow> datetime \<Rightarrow> uuid \<Rightarrow> string
   \<Rightarrow> (string \<times> pyval) list \<Rightarrow> uuid \<times> subscription_row \<Rightarrow> stored_event" where
  "dispatch_event sign cx now event_id event_type payload x =
     (case x of (new_id, w) \<Rightarrow>
       \<lparr> se_id = new_id, se_organization_id = oc_organization_id cx, se_actor_id = None,
         se_event_type = ''webhook.dispatch'',
         se_payload = [(''subscription_id'', PStr (uuid_str (ws_id w))), (''target_url'', PStr (ws_url w)),
           (''source_event_id'', PStr (uuid_str event_id)),
           (''signature'', PStr (sign (ws_signing_secret w)
              [(''event_type'', PStr event_type), (''event_id'', PStr (uuid_str event_id)),
               (''payload'', PDict payload)]))],
         se_created_at = now, se_severity = ''info'', se_correlation_id = None, se_operation_id = None,
         se_entity_type = Some ''webhook_subscription'', se_entity_id = Some (ws_id w) \<rparr>)"

section \<open>Appending\<close>

text \<open>The identifiers an append draws: the event, the meter row, and one per dispatch.\<close>

record append_ids =
  ai_event :: uuid
  ai_meter :: uuid
  ai_dispatch :: "nat \<Rightarrow> uuid"

text \<open>\<open>explicit or routing.get(k)\<close>, as a value of its column; None leaves the column's default.\<close>

definition effective_id :: "uuid option \<Rightarrow> routed_id option \<Rightarrow> prov_error + uuid option" where
  "effective_id explicit routed =
     (case explicit of
        Some u \<Rightarrow> Inr (Some u)
      | None \<Rightarrow>
          (case routed of
             None \<Rightarrow> Inr None
           | Some (RoutedUuid u) \<Rightarrow> Inr (Some u)
           | Some (RoutedValue PNone) \<Rightarrow> Inr None
           | Some (RoutedValue _) \<Rightarrow> Inl EventIntegrityError))"

definition effective_text :: "string option \<Rightarrow> pyval option \<Rightarrow> prov_error + string option" where
  "effective_text explicit routed =
     (if explicit \<noteq> None \<and> explicit \<noteq> Some [] then Inr explicit
      else
        (case routed of
           None \<Rightarrow> Inr None
         | Some (PStr s) \<Rightarrow> Inr (Some s)
         | Some PNone \<Rightarrow> Inr None
         | Some _ \<Rightarrow> Inl EventIntegrityError))"

record append_args =
  aa_event_type :: string
  aa_payload :: "(string \<times> pyval) list"
  aa_actor_id :: "uuid option"
  aa_severity :: "string option"
  aa_correlation_id :: "uuid option"
  aa_operation_id :: "uuid option"
  aa_entity_type :: "string option"
  aa_entity_id :: "uuid option"

definition build_event ::
  "org_context \<Rightarrow> uuid \<Rightarrow> datetime \<Rightarrow> append_args \<Rightarrow> routing_fields \<Rightarrow> prov_error + stored_event" where
  "build_event cx event_id now args routing =
     rbind (effective_text (aa_severity args) (rf_severity routing)) (\<lambda>sev.
     rbind (effective_id (aa_correlation_id args) (rf_correlation_id routing)) (\<lambda>ci.
     rbind (effective_id (aa_operation_id args) (rf_operation_id routing)) (\<lambda>oi.
     rbind (effective_text (aa_entity_type args) (rf_entity_type routing)) (\<lambda>et.
     rbind (effective_id (aa_entity_id args) (rf_entity_id routing)) (\<lambda>ei.
       let severity = (case sev of None \<Rightarrow> ''info'' | Some s \<Rightarrow> s)
       in if severity \<notin> set SEVERITIES then Inl EventIntegrityError
          else Inr \<lparr> se_id = event_id, se_organization_id = oc_organization_id cx,
                 se_actor_id = aa_actor_id args, se_event_type = aa_event_type args,
                 se_payload = aa_payload args, se_created_at = now, se_severity = severity,
                 se_correlation_id = ci, se_operation_id = oi, se_entity_type = et,
                 se_entity_id = ei \<rparr>)))))"

definition append_event ::
  "event_type_registry \<Rightarrow> (string \<Rightarrow> (string \<times> pyval) list \<Rightarrow> string) \<Rightarrow> org_context \<Rightarrow> append_ids
   \<Rightarrow> datetime \<Rightarrow> append_args \<Rightarrow> 'z prov_db_scheme \<Rightarrow> prov_error + uuid \<times> 'z prov_db_scheme" where
  "append_event reg sign cx ids now args db =
     rbind (validate_event_type reg (aa_event_type args)) (\<lambda>_.
     rbind (check_daily_events now (oc_organization_id cx) db) (\<lambda>_.
     rbind (extract_routing_fields (aa_payload args)) (\<lambda>routing.
     rbind (build_event cx (ai_event ids) now args routing) (\<lambda>e.
       let db1 = db\<lparr> pv_events := pv_events db @ [e] \<rparr>;
           db2 = record_usage cx (ai_meter ids) ''event_count'' 1 None now db1;
           subs = get_matching_subscriptions cx (aa_event_type args) db2;
           dispatches = map (dispatch_event sign cx now (ai_event ids) (aa_event_type args) (aa_payload args))
             (zip (map (ai_dispatch ids) [0..<length subs]) subs)
       in Inr (ai_event ids, db2\<lparr> pv_events := pv_events db2 @ dispatches \<rparr>)))))"

definition append_state_change ::
  "event_type_registry \<Rightarrow> (string \<Rightarrow> (string \<times> pyval) list \<Rightarrow> string) \<Rightarrow> org_context \<Rightarrow> append_ids
   \<Rightarrow> datetime \<Rightarrow> uuid \<Rightarrow> string \<Rightarrow> string \<Rightarrow> uuid \<Rightarrow> string \<Rightarrow> string \<Rightarrow> string option \<Rightarrow> 'z prov_db_scheme
   \<Rightarrow> prov_error + uuid \<times> 'z prov_db_scheme" where
  "append_state_change reg sign cx ids now actor_id from_state to_state operation_id trigger entity_type rationale db =
     rbind (build_state_change_payload entity_type actor_id from_state to_state operation_id trigger rationale ''info'')
       (\<lambda>payload.
         append_event reg sign cx ids now
           \<lparr> aa_event_type = ''state_change'', aa_payload = payload, aa_actor_id = Some actor_id,
             aa_severity = None, aa_correlation_id = None, aa_operation_id = None,
             aa_entity_type = None, aa_entity_id = None \<rparr> db)"

definition get_event :: "org_context \<Rightarrow> uuid \<Rightarrow> 'z prov_db_scheme \<Rightarrow> stored_event option" where
  "get_event cx event_id db =
     find (\<lambda>e. se_organization_id e = oc_organization_id cx \<and> se_id e = event_id) (pv_events db)"

definition list_by_type :: "org_context \<Rightarrow> string \<Rightarrow> 'z prov_db_scheme \<Rightarrow> stored_event list" where
  "list_by_type cx event_type db =
     sort_key se_created_at
       (filter (\<lambda>e. se_organization_id e = oc_organization_id cx \<and> se_event_type e = event_type) (pv_events db))"

section \<open>The lifecycle service\<close>

record lifecycle_transition =
  lt_actor_id :: uuid
  lt_from_state :: string
  lt_to_state :: string
  lt_lifecycle_phase :: string
  lt_operation_id :: uuid
  lt_event_id :: uuid

definition set_actor_state :: "org_context \<Rightarrow> uuid \<Rightarrow> string \<Rightarrow> string \<Rightarrow> datetime \<Rightarrow> 'z operation_db_scheme \<Rightarrow> 'z operation_db_scheme" where
  "set_actor_state cx actor_id st phase now db =
     db\<lparr> od_actors := update_where (\<lambda>a. ac_organization_id a = oc_organization_id cx \<and> ac_id a = actor_id)
       (\<lambda>a. a\<lparr> ac_state := st, ac_lifecycle_phase := phase, ac_updated_at := Some now \<rparr>) (od_actors db) \<rparr>"

definition transition_actor ::
  "event_type_registry \<Rightarrow> (string \<Rightarrow> (string \<times> pyval) list \<Rightarrow> string) \<Rightarrow> org_context \<Rightarrow> uuid \<Rightarrow> append_ids
   \<Rightarrow> datetime \<Rightarrow> uuid \<Rightarrow> string \<Rightarrow> string \<Rightarrow> uuid option \<Rightarrow> string option \<Rightarrow> 'z prov_db_scheme
   \<Rightarrow> prov_error + lifecycle_transition \<times> 'z prov_db_scheme" where
  "transition_actor reg sign cx op_new_id ids now actor_id to_state trigger initiated_by rationale db =
     (case find (\<lambda>a. ac_organization_id a = oc_organization_id cx \<and> ac_id a = actor_id) (od_actors db) of
        None \<Rightarrow> Inl (ActorNotFoundError actor_id)
      | Some actor \<Rightarrow>
          let from_state = ac_state actor
          in rbind (case assert_transition ACTOR_LIFECYCLE from_state to_state of
                      Inl e \<Rightarrow> Inl (LifecycleError e) | Inr u \<Rightarrow> Inr u) (\<lambda>_.
             rbind (case phase_for_state to_state of Inl e \<Rightarrow> Inl (LifecycleError e) | Inr p \<Rightarrow> Inr p) (\<lambda>new_phase.
             let db1 = set_actor_state cx actor_id to_state new_phase now db
             in rbind (case record_operation cx op_new_id now
                    \<lparr> oa_actor_id = actor_id, oa_operation = ''actor.state_change'', oa_trigger = trigger,
                      oa_initiated_by = (case initiated_by of None \<Rightarrow> oc_actor_id cx | Some i \<Rightarrow> i),
                      oa_from_state = Some from_state, oa_to_state = Some to_state, oa_collaborators = [],
                      oa_scope = Some ''actor'', oa_parent_operation_id = None, oa_artifacts = None,
                      oa_rationale = rationale, oa_outcome = Some ''success'' \<rparr> db1 of
                      Inl e \<Rightarrow> Inl (OperationFailed e) | Inr x \<Rightarrow> Inr x) (\<lambda>(operation_id, db2).
                rbind (append_state_change reg sign cx ids now actor_id from_state to_state operation_id trigger
                    ''actor'' rationale db2) (\<lambda>(event_id, db3).
                  Inr (\<lparr> lt_actor_id = actor_id, lt_from_state = from_state, lt_to_state = to_state,
                         lt_lifecycle_phase = new_phase, lt_operation_id = operation_id,
                         lt_event_id = event_id \<rparr>, db3))))))"

section \<open>What an append leaves behind\<close>

lemma hex_char_hex: "n < 16 \<Longrightarrow> is_hex (hex_char n) \<and> to_lower_hex (hex_char n) = hex_char n"
  by (auto simp: is_hex_def to_lower_hex_def hex_char_def of_char_of take_bit_eq_mod Let_def)

lemma hex_digits_hex: "list_all is_hex (hex_digits k n) \<and> map to_lower_hex (hex_digits k n) = hex_digits k n"
  by (induction k arbitrary: n) (auto simp: hex_char_hex)

lemma parse_uuid_str [simp]: "parse_uuid (uuid_str u) = Inr u"
proof -
  have "unat u < 16 ^ 32" using unsigned_less [of u, where 'a = nat] by simp
  then show ?thesis
    using hex_digits_hex [of 32 "unat u"]
    by (simp add: parse_uuid_def uuid_str_filter hex_num_digits)
qed

lemma record_usage_keeps [simp]:
  "pv_events (record_usage cx i m v md now db) = pv_events db"
  "od_actors (record_usage cx i m v md now db) = od_actors db"
  "od_operations (record_usage cx i m v md now db) = od_operations db"
  "pv_subscriptions (record_usage cx i m v md now db) = pv_subscriptions db"
  by (simp_all add: record_usage_def Let_def)

definition is_dispatch :: "org_context \<Rightarrow> stored_event \<Rightarrow> bool" where
  "is_dispatch cx d \<longleftrightarrow> se_event_type d = ''webhook.dispatch'' \<and> se_organization_id d = oc_organization_id cx"

lemma append_event_effect:
  assumes "append_event reg sign cx ids now args db = Inr (i, db')"
  shows "\<exists>routing e ds. i = ai_event ids \<and> extract_routing_fields (aa_payload args) = Inr routing
    \<and> build_event cx i now args routing = Inr e
    \<and> pv_events db' = pv_events db @ e # ds \<and> list_all (is_dispatch cx) ds
    \<and> length ds = length (get_matching_subscriptions cx (aa_event_type args) db)
    \<and> od_actors db' = od_actors db \<and> od_operations db' = od_operations db"
proof -
  from assms obtain routing e where re: "extract_routing_fields (aa_payload args) = Inr routing"
    "build_event cx (ai_event ids) now args routing = Inr e" by (auto simp: append_event_def)
  show ?thesis
    using assms re
    by (intro exI [of _ routing] exI [of _ e] exI [of _ "map (dispatch_event sign cx now (ai_event ids) (aa_event_type args) (aa_payload args))
             (zip (map (ai_dispatch ids) [0..<length (get_matching_subscriptions cx (aa_event_type args) db)])
               (get_matching_subscriptions cx (aa_event_type args) db))"])
      (auto simp: append_event_def Let_def list_all_iff is_dispatch_def dispatch_event_def
        get_matching_subscriptions_def)
qed

lemma state_change_effect:
  assumes "append_state_change reg sign cx ids now actor from_s to_s oid trigger et rationale db = Inr (i, db')"
  shows "\<exists>e ds. i = ai_event ids \<and> se_id e = i \<and> se_organization_id e = oc_organization_id cx
    \<and> se_event_type e = ''state_change'' \<and> se_actor_id e = Some actor \<and> se_severity e = ''info''
    \<and> se_operation_id e = Some oid \<and> se_entity_type e = Some et \<and> se_entity_id e = Some actor
    \<and> get_none (se_payload e) ''from_state'' = PStr from_s \<and> get_none (se_payload e) ''to_state'' = PStr to_s
    \<and> pv_events db' = pv_events db @ e # ds \<and> list_all (is_dispatch cx) ds
    \<and> od_actors db' = od_actors db \<and> od_operations db' = od_operations db"
proof -
  define payload where "payload = [(''summary'', PStr (et @ '' '' @ uuid_str actor @ '' transitioned from ''
                @ from_s @ '' to '' @ to_s)),
             (''severity'', PStr ''info''), (''entity_type'', PStr et),
             (''entity_id'', PStr (uuid_str actor)), (''from_state'', PStr from_s),
             (''to_state'', PStr to_s), (''operation_id'', PStr (uuid_str oid)),
             (''trigger'', PStr trigger)]
            @ (case rationale of None \<Rightarrow> [] | Some r \<Rightarrow> [(''rationale'', PStr r)])"
  define args where "args = \<lparr> aa_event_type = ''state_change'', aa_payload = payload, aa_actor_id = Some actor,
             aa_severity = None, aa_correlation_id = None, aa_operation_id = None,
             aa_entity_type = None, aa_entity_id = None \<rparr>"
  have "append_event reg sign cx ids now args db = Inr (i, db')"
    using assms by (simp add: append_state_change_def build_state_change_payload_def validate_severity_def
        SEVERITIES_def args_def payload_def)
  from append_event_effect [OF this] obtain routing e ds where
    i: "i = ai_event ids" and routing: "extract_routing_fields payload = Inr routing"
    and e: "build_event cx i now args routing = Inr e"
    and db': "pv_events db' = pv_events db @ e # ds" "list_all (is_dispatch cx) ds"
      "od_actors db' = od_actors db" "od_operations db' = od_operations db"
    by (auto simp: args_def)
  have keys: "map_of payload ''severity'' = Some (PStr ''info'')" "map_of payload ''entity_type'' = Some (PStr et)"
    "map_of payload ''entity_id'' = Some (PStr (uuid_str actor))"
    "map_of payload ''operation_id'' = Some (PStr (uuid_str oid))" "map_of payload ''correlation_id'' = None"
    "map_of payload ''from_state'' = Some (PStr from_s)" "map_of payload ''to_state'' = Some (PStr to_s)"
    by (simp_all add: payload_def split: option.split)
  from routing have r: "routing = \<lparr> rf_severity = Some (PStr ''info''), rf_operation_id = Some (RoutedUuid oid),
      rf_entity_type = Some (PStr et), rf_entity_id = Some (RoutedUuid actor), rf_correlation_id = None \<rparr>"
    by (simp add: extract_routing_fields_def route_field_def keys)
  from e have "e = \<lparr> se_id = i, se_organization_id = oc_organization_id cx, se_actor_id = Some actor,
      se_event_type = ''state_change'', se_payload = payload, se_created_at = now, se_severity = ''info'',
      se_correlation_id = None, se_operation_id = Some oid, se_entity_type = Some et,
      se_entity_id = Some actor \<rparr>"
    by (simp add: build_event_def r args_def effective_text_def effective_id_def SEVERITIES_def)
  then show ?thesis using i db' keys by (intro exI [of _ e] exI [of _ ds]) (simp add: get_none_def)
qed

section \<open>What a transition leaves behind\<close>

lemma set_actor_state_ops [simp]: "od_operations (set_actor_state cx a s p now db) = od_operations db"
  by (simp add: set_actor_state_def)

lemma set_actor_state_events [simp]: "pv_events (set_actor_state cx a s p now db) = pv_events db"
  by (simp add: set_actor_state_def)

lemma record_operation_keeps:
  fixes db :: "'z prov_db_scheme"
  assumes "record_operation cx i now args db = Inr (j, db')"
  shows "j = i \<and> od_actors db' = od_actors db \<and> pv_events db' = pv_events db"
  using record_operation_insert [OF assms] by auto

definition transition_done ::
  "org_context \<Rightarrow> uuid \<Rightarrow> lifecycle_transition \<Rightarrow> 'z prov_db_scheme \<Rightarrow> 'z prov_db_scheme \<Rightarrow> bool" where
  "transition_done cx actor_id lt db db' \<longleftrightarrow>
     (\<exists>a phase now o_row e ds.
        find (\<lambda>a. ac_organization_id a = oc_organization_id cx \<and> ac_id a = actor_id) (od_actors db) = Some a
        \<and> lt_from_state lt = ac_state a
        \<and> is_valid_transition ACTOR_LIFECYCLE (ac_state a) (lt_to_state lt)
        \<and> phase_for_state (lt_to_state lt) = Inr phase
        \<and> od_actors db' = od_actors (set_actor_state cx actor_id (lt_to_state lt) phase now db)
        \<and> od_operations db' = od_operations db @ [o_row]
        \<and> op_id o_row = lt_operation_id lt \<and> op_organization_id o_row = oc_organization_id cx
        \<and> op_actor_id o_row = actor_id \<and> op_operation o_row = ''actor.state_change''
        \<and> op_from_state o_row = Some (ac_state a) \<and> op_to_state o_row = Some (lt_to_state lt)
        \<and> pv_events db' = pv_events db @ e # ds \<and> list_all (is_dispatch cx) ds
        \<and> se_id e = lt_event_id lt \<and> se_organization_id e = oc_organization_id cx
        \<and> se_event_type e = ''state_change'' \<and> se_operation_id e = Some (lt_operation_id lt)
        \<and> se_entity_id e = Some actor_id \<and> se_actor_id e = Some actor_id)"

lemma transition_actor_done:
  assumes "transition_actor reg sign cx oid ids now actor_id to_state trigger initiated_by rationale db = Inr (lt, db')"
  shows "transition_done cx actor_id lt db db' \<and> lt_to_state lt = to_state"
proof -
  from assms obtain a where a: "find (\<lambda>a. ac_organization_id a = oc_organization_id cx \<and> ac_id a = actor_id) (od_actors db) = Some a"
    by (auto simp: transition_actor_def split: option.splits)
  from assms a have legal: "is_valid_transition ACTOR_LIFECYCLE (ac_state a) to_state"
    by (auto simp: transition_actor_def Let_def assert_transition_def split: if_splits)
  then have asserted: "assert_transition ACTOR_LIFECYCLE (ac_state a) to_state = Inr ()" by simp
  from assms a asserted obtain phase where phase: "phase_for_state to_state = Inr phase"
    by (auto simp: transition_actor_def Let_def split: sum.splits)
  define db1 where "db1 = set_actor_state cx actor_id to_state phase now db"
  define args where "args = \<lparr> oa_actor_id = actor_id, oa_operation = ''actor.state_change'', oa_trigger = trigger,
                      oa_initiated_by = (case initiated_by of None \<Rightarrow> oc_actor_id cx | Some i \<Rightarrow> i),
                      oa_from_state = Some (ac_state a), oa_to_state = Some to_state, oa_collaborators = [],
                      oa_scope = Some ''actor'', oa_parent_operation_id = None, oa_artifacts = None,
                      oa_rationale = rationale, oa_outcome = Some ''success'' \<rparr>"
  obtain j db2 where rec: "record_operation cx oid now args db1 = Inr (j, db2)"
    using assms a asserted phase
    by (cases "record_operation cx oid now args db1") (auto simp: transition_actor_def Let_def db1_def args_def)
  have rest: "rbind (append_state_change reg sign cx ids now actor_id (ac_state a) to_state j trigger
          ''actor'' rationale db2) (\<lambda>(event_id, db3).
        Inr (\<lparr> lt_actor_id = actor_id, lt_from_state = ac_state a, lt_to_state = to_state,
               lt_lifecycle_phase = phase, lt_operation_id = j, lt_event_id = event_id \<rparr>, db3)) = Inr (lt, db')"
    using assms a asserted phase rec by (simp add: transition_actor_def Let_def db1_def args_def)
  then obtain i where ap: "append_state_change reg sign cx ids now actor_id (ac_state a) to_state j trigger
          ''actor'' rationale db2 = Inr (i, db')"
    and lt: "lt = \<lparr> lt_actor_id = actor_id, lt_from_state = ac_state a, lt_to_state = to_state,
               lt_lifecycle_phase = phase, lt_operation_id = j, lt_event_id = i \<rparr>"
    by (auto split: prod.splits)
  from record_operation_insert [OF rec] obtain o_row where o_row: "od_operations db2 = od_operations db1 @ [o_row]"
    "op_id o_row = j" "op_organization_id o_row = oc_organization_id cx" "op_actor_id o_row = actor_id"
    "op_operation o_row = ''actor.state_change''" "op_from_state o_row = Some (ac_state a)"
    "op_to_state o_row = Some to_state"
    by (auto simp: operation_of_args_def args_def)
  from state_change_effect [OF ap] obtain e ds where e: "se_id e = i" "se_organization_id e = oc_organization_id cx"
    "se_event_type e = ''state_change''" "se_operation_id e = Some j" "se_entity_id e = Some actor_id"
    "se_actor_id e = Some actor_id" "pv_events db' = pv_events db2 @ e # ds" "list_all (is_dispatch cx) ds"
    "od_actors db' = od_actors db2" "od_operations db' = od_operations db2" by blast
  show ?thesis
    unfolding transition_done_def
    using a legal phase o_row e record_operation_keeps [OF rec]
    by (auto simp: lt db1_def intro!: exI [of _ a] exI [of _ phase] exI [of _ now] exI [of _ o_row] exI [of _ e] exI [of _ ds])
qed

section \<open>The audit trail\<close>

record transition_call =
  tc_context :: org_context
  tc_operation_id :: uuid
  tc_ids :: append_ids
  tc_now :: datetime
  tc_actor_id :: uuid
  tc_to_state :: string
  tc_trigger :: string
  tc_initiated_by :: "uuid option"
  tc_rationale :: "string option"

definition transition_step ::
  "event_type_registry \<Rightarrow> (string \<Rightarrow> (string \<times> pyval) list \<Rightarrow> string) \<Rightarrow> transition_call \<Rightarrow> prov_db \<Rightarrow> prov_db" where
  "transition_step reg sign c db =
     (case transition_actor reg sign (tc_context c) (tc_operation_id c) (tc_ids c) (tc_now c) (tc_actor_id c)
        (tc_to_state c) (tc_trigger c) (tc_initiated_by c) (tc_rationale c) db of
        Inl _ \<Rightarrow> db | Inr (_, db') \<Rightarrow> db')"

definition actor_of :: "uuid \<Rightarrow> uuid \<Rightarrow> 'z operation_db_scheme \<Rightarrow> actor_row option" where
  "actor_of org actor db = find (\<lambda>a. ac_organization_id a = org \<and> ac_id a = actor) (od_actors db)"

definition state_operations :: "uuid \<Rightarrow> uuid \<Rightarrow> 'z operation_db_scheme \<Rightarrow> operation_row list" where
  "state_operations org actor db =
     filter (\<lambda>r. op_organization_id r = org \<and> op_actor_id r = actor \<and> op_operation r = ''actor.state_change'')
       (od_operations db)"

definition state_events :: "uuid \<Rightarrow> uuid \<Rightarrow> 'z prov_db_scheme \<Rightarrow> stored_event list" where
  "state_events org actor db =
     filter (\<lambda>e. se_organization_id e = org \<and> se_event_type e = ''state_change'' \<and> se_entity_id e = Some actor)
       (pv_events db)"

text \<open>
  The recorded operations of an actor replay, from the state \<open>s0\<close> it had when recording began, to
  the state it has, by legal transitions only; and its \<open>state_change\<close> events refer to exactly
  these operations, in the same order.
\<close>

definition audit_ok :: "uuid \<Rightarrow> uuid \<Rightarrow> string \<Rightarrow> prov_db \<Rightarrow> bool" where
  "audit_ok org actor s0 db \<longleftrightarrow>
     (case actor_of org actor db of
        None \<Rightarrow> False
      | Some a \<Rightarrow> walk ACTOR_LIFECYCLE s0 (map (the \<circ> op_to_state) (state_operations org actor db)) = Inr (ac_state a))
     \<and> map se_operation_id (state_events org actor db) = map (Some \<circ> op_id) (state_operations org actor db)"

lemma walk_snoc: "walk m s ts = Inr u \<Longrightarrow> is_valid_transition m u t \<Longrightarrow> walk m s (ts @ [t]) = Inr t"
  by (induction ts arbitrary: s) auto

lemma actor_of_set:
  "actor_of org actor (set_actor_state cx a s p now db) =
     (if org = oc_organization_id cx \<and> actor = a
      then map_option (\<lambda>r. r\<lparr> ac_state := s, ac_lifecycle_phase := p, ac_updated_at := Some now \<rparr>) (actor_of org actor db)
      else actor_of org actor db)"
proof -
  let ?p = "\<lambda>r. ac_organization_id r = org \<and> ac_id r = actor"
  let ?q = "\<lambda>r. ac_organization_id r = oc_organization_id cx \<and> ac_id r = a"
  let ?f = "\<lambda>r. r\<lparr> ac_state := s, ac_lifecycle_phase := p, ac_updated_at := Some now \<rparr>"
  have "actor_of org actor (set_actor_state cx a s p now db)
      = map_option (\<lambda>r. if ?q r then ?f r else r) (actor_of org actor db)"
    unfolding actor_of_def set_actor_state_def by (simp add: find_update_where)
  moreover have "ac_organization_id r = org \<and> ac_id r = actor" if "actor_of org actor db = Some r" for r
    using that unfolding actor_of_def by (auto dest: find_Some_iff_mem)
  ultimately show ?thesis by (cases "actor_of org actor db") auto
qed

lemma actor_of_cong: "od_actors db = od_actors db' \<Longrightarrow> actor_of org actor db = actor_of org actor db'"
  by (simp add: actor_of_def)

lemma dispatch_not_state_change:
  "list_all (is_dispatch cx) ds \<Longrightarrow>
     filter (\<lambda>e. se_organization_id e = org \<and> se_event_type e = ''state_change'' \<and> se_entity_id e = Some actor) ds = []"
  by (induction ds) (auto simp: is_dispatch_def)

lemma transition_audit:
  fixes db db' :: prov_db
  assumes "transition_done cx a lt db db'" and "audit_ok org actor s0 db"
  shows "audit_ok org actor s0 db'"
proof -
  from assms(1) obtain x phase now o_row e ds where
    x: "actor_of (oc_organization_id cx) a db = Some x"
    and legal: "is_valid_transition ACTOR_LIFECYCLE (ac_state x) (lt_to_state lt)"
    and actors: "od_actors db' = od_actors (set_actor_state cx a (lt_to_state lt) phase now db)"
    and ops: "od_operations db' = od_operations db @ [o_row]" "op_id o_row = lt_operation_id lt"
      "op_organization_id o_row = oc_organization_id cx" "op_actor_id o_row = a"
      "op_operation o_row = ''actor.state_change''" "op_to_state o_row = Some (lt_to_state lt)"
    and ev: "pv_events db' = pv_events db @ e # ds" "list_all (is_dispatch cx) ds"
      "se_organization_id e = oc_organization_id cx" "se_event_type e = ''state_change''"
      "se_operation_id e = Some (lt_operation_id lt)" "se_entity_id e = Some a"
    unfolding transition_done_def actor_of_def by blast
  let ?hit = "org = oc_organization_id cx \<and> actor = a"
  have so: "state_operations org actor db' = state_operations org actor db @ (if ?hit then [o_row] else [])"
    using ops by (auto simp: state_operations_def)
  have se: "state_events org actor db' = state_events org actor db @ (if ?hit then [e] else [])"
    using ev dispatch_not_state_change [OF ev(2), of org actor] by (auto simp: state_events_def)
  have ac: "actor_of org actor db' = (if ?hit
      then map_option (\<lambda>r. r\<lparr> ac_state := lt_to_state lt, ac_lifecycle_phase := phase, ac_updated_at := Some now \<rparr>)
        (actor_of org actor db) else actor_of org actor db)"
    using actor_of_cong [OF actors, of org actor] by (simp add: actor_of_set)
  show ?thesis
  proof (cases ?hit)
    case True
    then have get: "actor_of org actor db = Some x" using x by simp
    with assms(2) have "walk ACTOR_LIFECYCLE s0 (map (the \<circ> op_to_state) (state_operations org actor db)) = Inr (ac_state x)"
      by (simp add: audit_ok_def)
    note w = walk_snoc [OF this legal]
    have so': "state_operations org actor db' = state_operations org actor db @ [o_row]"
      and se': "state_events org actor db' = state_events org actor db @ [e]"
      using so se True by (simp_all only: simp_thms if_True)
    obtain y where y: "actor_of org actor db' = Some y" "ac_state y = lt_to_state lt"
      unfolding ac using True get by auto
    have "walk ACTOR_LIFECYCLE s0 (map (the \<circ> op_to_state) (state_operations org actor db')) = Inr (ac_state y)"
      unfolding so' y(2) using w ops(6) by simp
    moreover have "map se_operation_id (state_events org actor db') = map (Some \<circ> op_id) (state_operations org actor db')"
      unfolding so' se' using assms(2) ev(5) ops(2) by (simp add: audit_ok_def)
    ultimately show ?thesis using y(1) by (simp add: audit_ok_def)
  next
    case False
    then show ?thesis using assms(2)
      by (simp only: audit_ok_def so se ac False if_False append_Nil2)
  qed
qed

lemma transition_step_audit: "audit_ok org actor s0 db \<Longrightarrow> audit_ok org actor s0 (transition_step reg sign c db)"
  by (auto simp: transition_step_def split: sum.split dest!: transition_actor_done intro: transition_audit)

interpretation audit: component "transition_step reg sign" "audit_ok org actor s0" for reg sign org actor s0
  by unfold_locales (rule transition_step_audit)

text \<open>The stream is append-only: no call loses an event.\<close>

lemma transition_step_events: "set (pv_events db) \<subseteq> set (pv_events (transition_step reg sign c db))"
proof -
  have "set (pv_events db) \<subseteq> set (pv_events db')" if "transition_done cx a lt db db'" for cx a lt and db' :: prov_db
  proof -
    from that obtain e ds where "pv_events db' = pv_events db @ e # ds" unfolding transition_done_def by blast
    then show ?thesis by auto
  qed
  then show ?thesis
    by (auto simp: transition_step_def split: sum.split dest!: transition_actor_done) blast
qed

interpretation audit_stream: monotone_component "transition_step reg sign" "\<lambda>_. True" "\<lambda>db. set (pv_events db)"
  for reg sign
  by unfold_locales (auto simp: transition_step_events)

section \<open>Properties\<close>

text \<open>
  C3. The audit trail is complete and replayable. From a database in which an actor has state
  \<open>s0\<close> and no recorded state change, after any sequence of transition calls for any actors and
  organizations, failing ones included, the recorded \<open>actor.state_change\<close> operations of the actor
  lead from \<open>s0\<close> to its present state by legal transitions, and there is exactly one
  \<open>state_change\<close> event for each of them, in the same order.
\<close>

theorem audit_trail_replays:
  assumes "actor_of org actor db = Some a" and "state_operations org actor db = []"
    and "state_events org actor db = []"
  shows "audit_ok org actor (ac_state a) (fold (transition_step reg sign) calls db)"
  by (rule audit.run_inv) (simp add: audit_ok_def assms)

text \<open>
  A transition that returns has done all of its parts: the source state was the actor's and
  the step legal, the actor has the new state and its phase, one operation and one
  \<open>state_change\<close> event that refers to it were appended in the acting organization, and whatever
  else was appended is the intent to deliver a webhook.
\<close>

theorem transition_complete:
  assumes "transition_actor reg sign cx oid ids now actor_id to_state trigger initiated_by rationale db = Inr (lt, db')"
  shows "transition_done cx actor_id lt db db' \<and> lt_to_state lt = to_state"
  by (rule transition_actor_done [OF assms])

text \<open>
  Events are never lost or rewritten: every event stored before a sequence of transition
  calls is stored, unchanged, after it.
\<close>

theorem event_stream_append_only:
  "set (pv_events db) \<subseteq> set (pv_events (fold (transition_step reg sign) calls db))"
  by (rule audit_stream.run_mono) simp

definition prov_context :: org_context where
  "prov_context = operation_context"

definition sample_prov_db :: prov_db where
  "sample_prov_db = \<lparr> od_actors = [\<lparr> ac_id = 2, ac_organization_id = 1, ac_state = ''active'',
     ac_lifecycle_phase = ''operational'', ac_updated_at = None \<rparr>], od_operations = [], pv_events = [],
     pv_subscriptions = [], pv_meters = [], pv_quotas = [] \<rparr>"

definition sample_call :: "string \<Rightarrow> transition_call" where
  "sample_call to_state = \<lparr> tc_context = prov_context, tc_operation_id = 31,
     tc_ids = \<lparr> ai_event = 41, ai_meter = 51, ai_dispatch = (\<lambda>_. 61) \<rparr>, tc_now = 5, tc_actor_id = 2,
     tc_to_state = to_state, tc_trigger = ''system'', tc_initiated_by = None, tc_rationale = None \<rparr>"

lemma audit_trail_replays_witness:
  "audit_ok 1 2 ''active'' (fold (transition_step er_init (\<lambda>_ _. []))
     [sample_call ''suspended'', sample_call ''archived''] sample_prov_db)"
  using audit_trail_replays [of 1 2 sample_prov_db "hd (od_actors sample_prov_db)" er_init "\<lambda>_ _. []"
      "[sample_call ''suspended'', sample_call ''archived'']"]
  by (simp add: sample_prov_db_def actor_of_def state_operations_def state_events_def)

lemma append_state_change_succeeds:
  assumes "\<not> er_populated reg" and "map_of (pv_quotas db) (oc_organization_id cx) = None"
  shows "is_ok (append_state_change reg sign cx ids now actor from_s to_s oid trigger et rationale db)"
  using assms
  by (simp add: append_state_change_def build_state_change_payload_def validate_severity_def SEVERITIES_def
      append_event_def validate_event_type_def er_is_valid_def check_daily_events_def get_quotas_def
      extract_routing_fields_def route_field_def build_event_def effective_text_def effective_id_def Let_def
      is_ok_iff split: option.split)

lemma sample_transition_ok:
  "is_ok (transition_actor er_init sign prov_context 31 ids 5 2 ''suspended'' ''system'' None None sample_prov_db)"
proof -
  let ?a = "hd (od_actors sample_prov_db)"
  let ?db = "set_actor_state prov_context 2 ''suspended'' ''operational'' 5 sample_prov_db"
  have a: "find (\<lambda>a. ac_organization_id a = oc_organization_id prov_context \<and> ac_id a = 2) (od_actors sample_prov_db) = Some ?a"
    and st: "ac_state ?a = ''active''"
    by (simp_all add: sample_prov_db_def prov_context_def operation_context_def)
  have legal: "assert_transition ACTOR_LIFECYCLE ''active'' ''suspended'' = Inr ()"
    by (simp add: is_valid_transition_def allowed_from_def ACTOR_LIFECYCLE_def)
  have phase: "phase_for_state ''suspended'' = Inr ''operational''"
    by (simp add: phase_for_state_def STATE_PHASES_def)
  have ok: "operation_allowed ?db (operation_of_args prov_context 31 5 args 0)"
    if "oa_actor_id args = 2" "oa_initiated_by args = 2" "oa_trigger args = ''system''" "oa_scope args = Some ''actor''"
      "oa_outcome args = Some ''success''" "oa_parent_operation_id args = None" for args
    using that by (simp add: operation_allowed_def operation_of_args_def actor_in_org_def opt_in_def
        set_actor_state_def sample_prov_db_def prov_context_def operation_context_def)
  have init: "oc_actor_id prov_context = 2" by (simp add: prov_context_def operation_context_def)
  have app: "\<exists>x. append_state_change er_init sign prov_context ids 5 2 ''active'' ''suspended'' 31 ''system'' ''actor'' None
      (?db\<lparr> od_operations := rows \<rparr>) = Inr x" for rows
    using append_state_change_succeeds [of er_init "?db\<lparr> od_operations := rows \<rparr>" prov_context]
    by (simp add: er_init_def set_actor_state_def sample_prov_db_def is_ok_iff)
  show ?thesis
    by (auto simp: transition_actor_def a st legal phase Let_def record_operation_def insert_operation_def ok init
        is_ok_iff) (metis app surj_pair)
qed

lemma transition_complete_witness:
  "\<exists>lt db'. transition_done prov_context 2 lt sample_prov_db db' \<and> lt_to_state lt = ''suspended''"
proof -
  obtain lt db' where "transition_actor er_init (\<lambda>_ _. []) prov_context 31
     \<lparr> ai_event = 41, ai_meter = 51, ai_dispatch = (\<lambda>_. 61) \<rparr> 5 2 ''suspended'' ''system'' None None sample_prov_db
   = Inr (lt, db')" using sample_transition_ok [unfolded is_ok_iff] by (metis surj_pair)
  from transition_complete [OF this] show ?thesis by blast
qed

text \<open>Events and rows of other organizations are not what an append or a pause touches.\<close>

lemma append_event_foreign:
  "append_event reg sign cx ids now args db = Inr (i, db') \<Longrightarrow> org \<noteq> oc_organization_id cx \<Longrightarrow>
     filter (\<lambda>e. se_organization_id e = org) (pv_events db') = filter (\<lambda>e. se_organization_id e = org) (pv_events db)"
proof -
  assume "append_event reg sign cx ids now args db = Inr (i, db')" and org: "org \<noteq> oc_organization_id cx"
  from append_event_effect [OF this(1)] obtain routing e ds where
    "build_event cx i now args routing = Inr e" "pv_events db' = pv_events db @ e # ds" "list_all (is_dispatch cx) ds"
    by blast
  moreover from this(1) have "se_organization_id e = oc_organization_id cx"
    by (auto simp: build_event_def Let_def split: if_splits)
  moreover have "filter (\<lambda>e. se_organization_id e = org) ds = []" if "list_all (is_dispatch cx) ds"
    using that org by (induction ds) (auto simp: is_dispatch_def)
  ultimately show ?thesis using org by simp
qed

lemma pause_subscription_silences:
  assumes "pause_subscription cx sid db = Inr db'" and "w \<in> set (get_matching_subscriptions cx event_type db')"
  shows "ws_id w \<noteq> sid"
proof
  assume id: "ws_id w = sid"
  let ?hit = "\<lambda>w. ws_organization_id w = oc_organization_id cx \<and> ws_id w = sid"
  from assms(1) have "pv_subscriptions db' = update_where ?hit (ws_state_update (\<lambda>_. ''paused'')) (pv_subscriptions db)"
    by (auto simp: pause_subscription_def Let_def split: if_splits)
  then have "set (pv_subscriptions db') = (\<lambda>r. if ?hit r then r\<lparr> ws_state := ''paused'' \<rparr> else r) ` set (pv_subscriptions db)"
    by (simp only: set_update_where)
  moreover have w: "w \<in> set (pv_subscriptions db')" "ws_organization_id w = oc_organization_id cx"
    "ws_state w = ''active''"
    using assms(2) by (auto simp: get_matching_subscriptions_def)
  ultimately obtain r where "w = (if ?hit r then r\<lparr> ws_state := ''paused'' \<rparr> else r)" by blast
  with id w(2,3) show False by (simp split: if_splits)
qed

end
