(* ===== verification/Workers.thy ===== *)
theory Workers
  imports Authz Tenancy
begin

text \<open>
  Trust tiers, versioned capabilities, and the enrollment and credential lifecycles of workers:
  \<^verbatim>\<open>domain/workers.py\<close>, the matching functions of \<^verbatim>\<open>domain/capabilities.py\<close> and
  \<^verbatim>\<open>services/workers.py\<close> over the two tables of \<^verbatim>\<open>persistence/models/workers.py\<close>.

  Parameters: the digest of the enrollment token (\<open>sha\<close>), the identifier derived from it
  (\<open>derive\<close>), the fresh identifiers and the clock. The credential's JWT is built and discarded by
  the code and has no effect, so only the check of its signing key is modelled.
\<close>

section \<open>Trust tiers\<close>

definition TRUST_TIERS :: "string list" where
  "TRUST_TIERS = [''newcomer'', ''contributor'', ''trusted'', ''core'', ''admin'']"

fun index_of :: "'a \<Rightarrow> 'a list \<Rightarrow> nat option" where
  "index_of x [] = None"
| "index_of x (y # ys) = (if y = x then Some 0 else map_option Suc (index_of x ys))"

datatype tier_error = UnknownTier string

definition trust_tier_index :: "string \<Rightarrow> tier_error + nat" where
  "trust_tier_index tier =
     (case index_of tier TRUST_TIERS of None \<Rightarrow> Inl (UnknownTier tier) | Some i \<Rightarrow> Inr i)"

definition trust_tier_satisfies :: "string \<Rightarrow> string \<Rightarrow> tier_error + bool" where
  "trust_tier_satisfies actor_tier required_tier =
     rbind (trust_tier_index actor_tier) (\<lambda>a.
     rbind (trust_tier_index required_tier) (\<lambda>r. Inr (a \<ge> r)))"

definition worker_can_promote :: "string \<Rightarrow> int \<Rightarrow> int \<Rightarrow> tier_error + bool" where
  "worker_can_promote current_tier successful required =
     (if current_tier = ''admin'' then Inr False
      else rbind (trust_tier_index current_tier) (\<lambda>_. Inr (successful \<ge> required)))"

definition worker_can_demote :: "string \<Rightarrow> int \<Rightarrow> int \<Rightarrow> tier_error + bool" where
  "worker_can_demote current_tier failed threshold =
     (if current_tier = ''newcomer'' then Inr False
      else rbind (trust_tier_index current_tier) (\<lambda>_. Inr (failed \<ge> threshold)))"

text \<open>The tier table of the authorization decision is the same order.\<close>

lemma trust_order_agrees: "map_of TRUST_ORDER t = index_of t TRUST_TIERS"
  by (simp add: TRUST_ORDER_def TRUST_TIERS_def)

lemma trust_tier_index_iff: "trust_tier_index t = Inr i \<longleftrightarrow> index_of t TRUST_TIERS = Some i"
  by (auto simp: trust_tier_index_def split: option.split)

section \<open>Versioned capabilities\<close>

definition parse_versioned_capability :: "string \<Rightarrow> string \<times> nat option" where
  "parse_versioned_capability capability =
     (if CHR '':'' \<notin> set capability then (capability, None)
      else
        (case rsplit1 CHR '':'' capability of
           None \<Rightarrow> (capability, None)
         | Some (name, version_str) \<Rightarrow>
             if starts_with version_str ''v'' \<and> isdigit (tl version_str)
             then (name, Some (digits_val (tl version_str)))
             else (capability, None)))"

fun manifest_loop :: "string list \<Rightarrow> string \<Rightarrow> nat option \<Rightarrow> bool" where
  "manifest_loop [] req_name req_version = False"
| "manifest_loop (cap # caps) req_name req_version =
     (case parse_versioned_capability cap of (cap_name, cap_version) \<Rightarrow>
        if cap_name \<noteq> req_name then manifest_loop caps req_name req_version
        else
          (case req_version of
             None \<Rightarrow> True
           | Some r \<Rightarrow>
               (case cap_version of
                  None \<Rightarrow> True
                | Some c \<Rightarrow> if c \<ge> r then True else manifest_loop caps req_name req_version)))"

definition capability_matches :: "string list \<Rightarrow> string \<Rightarrow> bool \<Rightarrow> bool" where
  "capability_matches worker_manifest required_capability version_aware =
     (if \<not> version_aware then required_capability \<in> set worker_manifest
      else
        (case parse_versioned_capability required_capability of (req_name, req_version) \<Rightarrow>
           manifest_loop worker_manifest req_name req_version))"

text \<open>When a declared capability satisfies a required one.\<close>

definition version_satisfies :: "nat option \<Rightarrow> nat option \<Rightarrow> bool" where
  "version_satisfies declared required =
     (case required of None \<Rightarrow> True | Some r \<Rightarrow> (case declared of None \<Rightarrow> True | Some c \<Rightarrow> c \<ge> r))"

lemma manifest_loop_iff:
  "manifest_loop caps n v \<longleftrightarrow>
     (\<exists>cap \<in> set caps. fst (parse_versioned_capability cap) = n
        \<and> version_satisfies (snd (parse_versioned_capability cap)) v)"
proof (induction caps)
  case (Cons cap caps)
  obtain m w where "parse_versioned_capability cap = (m, w)" by fastforce
  with Cons.IH show ?case by (cases v; cases w) (auto simp: version_satisfies_def)
qed simp

lemma parse_versioned_suffix:
  "parse_versioned_capability (name @ '':v'' @ nat_str n) = (name, Some n)"
proof -
  have "CHR '':'' \<notin> set (CHR ''v'' # nat_str n)"
    using nat_str_digits [of n] is_digit_not_punct by (fastforce simp: list_all_iff)
  then have "rsplit1 CHR '':'' (name @ '':v'' @ nat_str n) = Some (name, CHR ''v'' # nat_str n)"
    by (simp add: rsplit1_Some)
  then show ?thesis by (simp add: parse_versioned_capability_def starts_with_def)
qed

section \<open>Enrollment states and credentials\<close>

definition worker_is_enrollable :: "string \<Rightarrow> bool" where
  "worker_is_enrollable enrollment_state \<longleftrightarrow> enrollment_state = ''pending''"

definition worker_is_active :: "string \<Rightarrow> bool" where
  "worker_is_active enrollment_state \<longleftrightarrow> enrollment_state = ''approved''"

definition credential_is_valid :: "datetime \<Rightarrow> datetime option \<Rightarrow> datetime \<Rightarrow> bool" where
  "credential_is_valid expires_at revoked_at now \<longleftrightarrow> revoked_at = None \<and> expires_at > now"

definition credential_is_expired :: "datetime \<Rightarrow> datetime \<Rightarrow> bool" where
  "credential_is_expired expires_at now \<longleftrightarrow> expires_at \<le> now"

record worker_enrollment =
  we_id :: uuid
  we_organization_id :: uuid
  we_worker_id :: uuid
  we_enrollment_state :: string
  we_pool_type :: string
  we_public_key :: string
  we_enrollment_token_hash :: string
  we_approved_by :: "uuid option"
  we_approved_at :: "datetime option"
  we_software_version :: "string option"
  we_software_hash :: "string option"
  we_capability_manifest :: "string list"
  we_updated_at :: "datetime option"

record worker_credential =
  wc_id :: uuid
  wc_organization_id :: uuid
  wc_enrollment_id :: uuid
  wc_scoped_capabilities :: "string list"
  wc_issued_at :: datetime
  wc_expires_at :: datetime
  wc_revoked_at :: "datetime option"

text \<open>The two tables, and the actors (organization and id) their foreign keys refer to.\<close>

record worker_db =
  wd_actors :: "(uuid \<times> uuid) list"
  wd_enrollments :: "worker_enrollment list"
  wd_credentials :: "worker_credential list"

datatype worker_error =
    InvalidEnrollmentTokenError
  | WorkerAlreadyEnrolledError uuid
  | EnrollmentNotFoundError uuid
  | WrongEnrollmentState string
  | InactiveWorkerError string
  | SigningKeyMissing
  | CredentialNotFoundError uuid
  | WorkerIntegrityError

section \<open>The service\<close>

text \<open>\<open>select(WorkerEnrollment).where(organization_id, id)\<close>: at most one row, the id is the key.\<close>

definition get_enrollment :: "org_context \<Rightarrow> uuid \<Rightarrow> worker_db \<Rightarrow> worker_enrollment option" where
  "get_enrollment cx enrollment_id db =
     find (\<lambda>r. we_organization_id r = oc_organization_id cx \<and> we_id r = enrollment_id) (wd_enrollments db)"

definition get_credential :: "org_context \<Rightarrow> uuid \<Rightarrow> worker_db \<Rightarrow> worker_credential option" where
  "get_credential cx credential_id db =
     find (\<lambda>c. wc_organization_id c = oc_organization_id cx \<and> wc_id c = credential_id) (wd_credentials db)"

definition set_enrollment ::
  "uuid \<Rightarrow> (worker_enrollment \<Rightarrow> worker_enrollment) \<Rightarrow> worker_db \<Rightarrow> worker_db" where
  "set_enrollment enrollment_id f db =
     db\<lparr> wd_enrollments := update_where (\<lambda>r. we_id r = enrollment_id) f (wd_enrollments db) \<rparr>"

text \<open>
  The flush of a new enrollment, with the constraints of its table. The check on \<open>pool_type\<close> that the model
  class still declares was widened by migration 0032 and dropped by 0039: any pool type is accepted.
\<close>

definition insert_enrollment :: "worker_enrollment \<Rightarrow> worker_db \<Rightarrow> worker_error + worker_db" where
  "insert_enrollment r db =
     (if we_id r \<in> set (map we_id (wd_enrollments db))
         \<or> list_ex (\<lambda>x. we_organization_id x = we_organization_id r \<and> we_worker_id x = we_worker_id r)
             (wd_enrollments db)
         \<or> we_enrollment_state r \<notin> {''pending'', ''approved'', ''suspended'', ''revoked''}
         \<or> (we_organization_id r, we_worker_id r) \<notin> set (wd_actors db)
      then Inl WorkerIntegrityError
      else Inr (db\<lparr> wd_enrollments := wd_enrollments db @ [r] \<rparr>))"

definition register_worker ::
  "(string \<Rightarrow> string) \<Rightarrow> (string \<Rightarrow> uuid) \<Rightarrow> org_context \<Rightarrow> uuid \<Rightarrow> string \<Rightarrow> string \<Rightarrow> string \<Rightarrow> uuid option
   \<Rightarrow> string option \<Rightarrow> string option \<Rightarrow> string list option \<Rightarrow> worker_db \<Rightarrow> worker_error + worker_db" where
  "register_worker sha derive cx new_id enrollment_token public_key pool_type worker_id
     software_version software_hash capability_manifest db =
     (if enrollment_token = [] then Inl InvalidEnrollmentTokenError
      else
        let worker = (case worker_id of Some w \<Rightarrow> w | None \<Rightarrow> derive enrollment_token)
        in if list_ex (\<lambda>x. we_organization_id x = oc_organization_id cx \<and> we_worker_id x = worker)
                (wd_enrollments db)
           then Inl (WorkerAlreadyEnrolledError worker)
           else
             insert_enrollment
               \<lparr> we_id = new_id, we_organization_id = oc_organization_id cx, we_worker_id = worker,
                 we_enrollment_state = ''pending'', we_pool_type = pool_type,
                 we_public_key = public_key, we_enrollment_token_hash = sha enrollment_token,
                 we_approved_by = None, we_approved_at = None,
                 we_software_version = software_version, we_software_hash = software_hash,
                 we_capability_manifest = (case capability_manifest of None \<Rightarrow> [] | Some xs \<Rightarrow> xs),
                 we_updated_at = None \<rparr> db)"

definition approve_row :: "uuid \<Rightarrow> datetime \<Rightarrow> worker_enrollment \<Rightarrow> worker_enrollment" where
  "approve_row approver now r =
     r\<lparr> we_enrollment_state := ''approved'', we_approved_by := Some approver,
        we_approved_at := Some now, we_updated_at := Some now \<rparr>"

definition approve_worker :: "org_context \<Rightarrow> uuid \<Rightarrow> uuid \<Rightarrow> datetime \<Rightarrow> worker_db \<Rightarrow> worker_error + worker_db" where
  "approve_worker cx enrollment_id approver now db =
     (case get_enrollment cx enrollment_id db of
        None \<Rightarrow> Inl (EnrollmentNotFoundError enrollment_id)
      | Some row \<Rightarrow>
          if \<not> worker_is_enrollable (we_enrollment_state row)
          then Inl (WrongEnrollmentState (we_enrollment_state row))
          else if (we_organization_id row, approver) \<notin> set (wd_actors db) then Inl WorkerIntegrityError
          else Inr (set_enrollment (we_id row) (approve_row approver now) db))"

definition set_state_row :: "string \<Rightarrow> datetime \<Rightarrow> worker_enrollment \<Rightarrow> worker_enrollment" where
  "set_state_row st now r = r\<lparr> we_enrollment_state := st, we_updated_at := Some now \<rparr>"

definition suspend_worker :: "org_context \<Rightarrow> uuid \<Rightarrow> datetime \<Rightarrow> worker_db \<Rightarrow> worker_error + worker_db" where
  "suspend_worker cx enrollment_id now db =
     (case get_enrollment cx enrollment_id db of
        None \<Rightarrow> Inl (EnrollmentNotFoundError enrollment_id)
      | Some row \<Rightarrow>
          if we_enrollment_state row \<noteq> ''approved''
          then Inl (WrongEnrollmentState (we_enrollment_state row))
          else Inr (set_enrollment (we_id row) (set_state_row ''suspended'' now) db))"

definition revoke_worker :: "org_context \<Rightarrow> uuid \<Rightarrow> datetime \<Rightarrow> worker_db \<Rightarrow> worker_error + worker_db" where
  "revoke_worker cx enrollment_id now db =
     (case get_enrollment cx enrollment_id db of
        None \<Rightarrow> Inl (EnrollmentNotFoundError enrollment_id)
      | Some row \<Rightarrow> Inr (set_enrollment (we_id row) (set_state_row ''revoked'' now) db))"

text \<open>The environment variable of the signing key, absent or blank.\<close>

definition credential_signing_key :: "string option \<Rightarrow> worker_error + string" where
  "credential_signing_key env =
     (let key = strip (case env of None \<Rightarrow> [] | Some s \<Rightarrow> s)
      in if key = [] then Inl SigningKeyMissing else Inr key)"

definition insert_credential :: "worker_credential \<Rightarrow> worker_db \<Rightarrow> worker_error + worker_db" where
  "insert_credential c db =
     (if wc_id c \<in> set (map wc_id (wd_credentials db))
         \<or> \<not> list_ex (\<lambda>r. we_organization_id r = wc_organization_id c \<and> we_id r = wc_enrollment_id c)
              (wd_enrollments db)
      then Inl WorkerIntegrityError
      else Inr (db\<lparr> wd_credentials := wd_credentials db @ [c] \<rparr>))"

definition issue_credential ::
  "string option \<Rightarrow> org_context \<Rightarrow> uuid \<Rightarrow> uuid \<Rightarrow> string list \<Rightarrow> int \<Rightarrow> datetime \<Rightarrow> worker_db
   \<Rightarrow> worker_error + worker_db" where
  "issue_credential env cx new_id enrollment_id scoped_capabilities duration now db =
     (case get_enrollment cx enrollment_id db of
        None \<Rightarrow> Inl (EnrollmentNotFoundError enrollment_id)
      | Some row \<Rightarrow>
          if \<not> worker_is_active (we_enrollment_state row)
          then Inl (InactiveWorkerError (we_enrollment_state row))
          else rbind (credential_signing_key env) (\<lambda>_.
            insert_credential
              \<lparr> wc_id = new_id, wc_organization_id = oc_organization_id cx,
                wc_enrollment_id = enrollment_id, wc_scoped_capabilities = scoped_capabilities,
                wc_issued_at = now, wc_expires_at = now + duration, wc_revoked_at = None \<rparr> db))"

definition revoke_credential :: "org_context \<Rightarrow> uuid \<Rightarrow> datetime \<Rightarrow> worker_db \<Rightarrow> worker_error + worker_db" where
  "revoke_credential cx credential_id now db =
     (case get_credential cx credential_id db of
        None \<Rightarrow> Inl (CredentialNotFoundError credential_id)
      | Some c \<Rightarrow>
          Inr (db\<lparr> wd_credentials :=
            update_where (\<lambda>x. wc_id x = wc_id c) (wc_revoked_at_update (\<lambda>_. Some now)) (wd_credentials db) \<rparr>))"

section \<open>The tables over any sequence of operations\<close>

datatype worker_op =
    RegisterWorker org_context uuid string string string "uuid option" "string option" "string option"
      "string list option"
  | ApproveWorker org_context uuid uuid datetime
  | SuspendWorker org_context uuid datetime
  | RevokeWorker org_context uuid datetime
  | IssueCredential org_context uuid uuid "string list" int datetime
  | RevokeCredential org_context uuid datetime

fun worker_apply ::
  "(string \<Rightarrow> string) \<Rightarrow> (string \<Rightarrow> uuid) \<Rightarrow> string option \<Rightarrow> worker_op \<Rightarrow> worker_db \<Rightarrow> worker_error + worker_db"
where
  "worker_apply sha derive env (RegisterWorker cx i t k p w v h m) db =
     register_worker sha derive cx i t k p w v h m db"
| "worker_apply sha derive env (ApproveWorker cx e b now) db = approve_worker cx e b now db"
| "worker_apply sha derive env (SuspendWorker cx e now) db = suspend_worker cx e now db"
| "worker_apply sha derive env (RevokeWorker cx e now) db = revoke_worker cx e now db"
| "worker_apply sha derive env (IssueCredential cx i e caps d now) db = issue_credential env cx i e caps d now db"
| "worker_apply sha derive env (RevokeCredential cx c now) db = revoke_credential cx c now db"

definition worker_step ::
  "(string \<Rightarrow> string) \<Rightarrow> (string \<Rightarrow> uuid) \<Rightarrow> string option \<Rightarrow> worker_op \<Rightarrow> worker_db \<Rightarrow> worker_db" where
  "worker_step sha derive env = attempt (worker_apply sha derive env)"

fun op_context :: "worker_op \<Rightarrow> org_context" where
  "op_context (RegisterWorker cx _ _ _ _ _ _ _ _) = cx"
| "op_context (ApproveWorker cx _ _ _) = cx"
| "op_context (SuspendWorker cx _ _) = cx"
| "op_context (RevokeWorker cx _ _) = cx"
| "op_context (IssueCredential cx _ _ _ _ _) = cx"
| "op_context (RevokeCredential cx _ _) = cx"

text \<open>
  What a step may do to the tables: append an enrollment, change the state of one enrollment
  of the acting organization, append a credential, or revoke one of its credentials.
\<close>

inductive legal_move :: "string \<Rightarrow> string \<Rightarrow> bool" where
  approve: "legal_move ''pending'' ''approved''"
| suspend: "legal_move ''approved'' ''suspended''"
| revoke: "legal_move s ''revoked''"

inductive_cases legal_move_from_revoked: "legal_move ''revoked'' t"

definition same_identity :: "worker_enrollment \<Rightarrow> worker_enrollment \<Rightarrow> bool" where
  "same_identity r s \<longleftrightarrow> we_id s = we_id r \<and> we_organization_id s = we_organization_id r
     \<and> we_worker_id s = we_worker_id r \<and> we_enrollment_token_hash s = we_enrollment_token_hash r
     \<and> we_pool_type s = we_pool_type r \<and> we_public_key s = we_public_key r"

definition enrollment_ok :: "(uuid \<times> uuid) list \<Rightarrow> worker_enrollment \<Rightarrow> bool" where
  "enrollment_ok actors r \<longleftrightarrow>
     (we_organization_id r, we_worker_id r) \<in> set actors
     \<and> we_enrollment_state r \<in> {''pending'', ''approved'', ''suspended'', ''revoked''}
     \<and> (case we_approved_by r of
          None \<Rightarrow> we_enrollment_state r \<notin> {''approved'', ''suspended''}
        | Some b \<Rightarrow> (we_organization_id r, b) \<in> set actors \<and> we_enrollment_state r \<noteq> ''pending'')"

definition credential_ok :: "worker_enrollment list \<Rightarrow> worker_credential \<Rightarrow> bool" where
  "credential_ok enrollments c \<longleftrightarrow>
     list_ex (\<lambda>r. we_id r = wc_enrollment_id c \<and> we_organization_id r = wc_organization_id c
        \<and> we_approved_by r \<noteq> None) enrollments"

definition workers_ok :: "worker_db \<Rightarrow> bool" where
  "workers_ok db \<longleftrightarrow>
     distinct (map we_id (wd_enrollments db))
     \<and> distinct (map (\<lambda>r. (we_organization_id r, we_worker_id r)) (wd_enrollments db))
     \<and> list_all (enrollment_ok (wd_actors db)) (wd_enrollments db)
     \<and> distinct (map wc_id (wd_credentials db))
     \<and> list_all (credential_ok (wd_enrollments db)) (wd_credentials db)"

inductive worker_effect :: "org_context \<Rightarrow> worker_db \<Rightarrow> worker_db \<Rightarrow> bool" for cx where
  enrolled: "we_organization_id r = oc_organization_id cx \<Longrightarrow> we_enrollment_state r = ''pending'' \<Longrightarrow>
     we_approved_by r = None \<Longrightarrow>
     (we_organization_id r, we_worker_id r) \<in> set (wd_actors db) \<Longrightarrow>
     we_id r \<notin> we_id ` set (wd_enrollments db) \<Longrightarrow>
     (we_organization_id r, we_worker_id r) \<notin>
       (\<lambda>x. (we_organization_id x, we_worker_id x)) ` set (wd_enrollments db) \<Longrightarrow>
     worker_effect cx db (db\<lparr> wd_enrollments := wd_enrollments db @ [r] \<rparr>)"
| moved: "row \<in> set (wd_enrollments db) \<Longrightarrow> we_organization_id row = oc_organization_id cx \<Longrightarrow>
     same_identity row (f row) \<Longrightarrow> legal_move (we_enrollment_state row) (we_enrollment_state (f row)) \<Longrightarrow>
     (case we_approved_by (f row) of
        None \<Rightarrow> we_approved_by row = None \<and> we_enrollment_state (f row) = ''revoked''
      | Some b \<Rightarrow> (we_organization_id row, b) \<in> set (wd_actors db) \<and> we_enrollment_state (f row) \<noteq> ''pending'') \<Longrightarrow>
     worker_effect cx db (set_enrollment (we_id row) f db)"
| issued: "row \<in> set (wd_enrollments db) \<Longrightarrow> we_organization_id row = oc_organization_id cx \<Longrightarrow>
     we_enrollment_state row = ''approved'' \<Longrightarrow> wc_enrollment_id c = we_id row \<Longrightarrow>
     wc_organization_id c = oc_organization_id cx \<Longrightarrow> wc_id c \<notin> wc_id ` set (wd_credentials db) \<Longrightarrow>
     worker_effect cx db (db\<lparr> wd_credentials := wd_credentials db @ [c] \<rparr>)"
| revoked: "c \<in> set (wd_credentials db) \<Longrightarrow> wc_organization_id c = oc_organization_id cx \<Longrightarrow>
     worker_effect cx db (db\<lparr> wd_credentials :=
       update_where (\<lambda>x. wc_id x = wc_id c) (wc_revoked_at_update (\<lambda>_. Some now)) (wd_credentials db) \<rparr>)"

lemma get_enrollment_mem:
  "get_enrollment cx e db = Some r \<Longrightarrow>
     r \<in> set (wd_enrollments db) \<and> we_organization_id r = oc_organization_id cx \<and> we_id r = e"
  unfolding get_enrollment_def by (drule find_Some_iff_mem) simp

lemma get_credential_mem:
  "get_credential cx c db = Some r \<Longrightarrow>
     r \<in> set (wd_credentials db) \<and> wc_organization_id r = oc_organization_id cx \<and> wc_id r = c"
  unfolding get_credential_def by (drule find_Some_iff_mem) simp

lemma register_effect:
  "register_worker sha derive cx i t k p w v h m db = Inr db' \<Longrightarrow> worker_effect cx db db'"
  by (auto simp: register_worker_def insert_enrollment_def Let_def list_ex_iff split: if_splits
      intro!: worker_effect.enrolled)

lemma approve_effect:
  assumes "approve_worker cx e b now db = Inr db'" shows "worker_effect cx db db'"
proof -
  from assms obtain r where r: "get_enrollment cx e db = Some r" "we_enrollment_state r = ''pending''"
    "(we_organization_id r, b) \<in> set (wd_actors db)"
    "db' = set_enrollment (we_id r) (approve_row b now) db"
    by (auto simp: approve_worker_def worker_is_enrollable_def split: option.splits if_splits)
  with get_enrollment_mem [OF r(1)] show ?thesis
    by (auto intro!: worker_effect.moved legal_move.approve simp: approve_row_def same_identity_def)
qed

lemma approved_has_approver:
  "enrollment_ok actors r \<Longrightarrow> we_enrollment_state r \<in> {''approved'', ''suspended''} \<Longrightarrow>
     \<exists>b. we_approved_by r = Some b \<and> (we_organization_id r, b) \<in> set actors"
  by (auto simp: enrollment_ok_def split: option.splits)

lemma suspend_effect:
  assumes "suspend_worker cx e now db = Inr db'" and "workers_ok db" shows "worker_effect cx db db'"
proof -
  from assms(1) obtain r where r: "get_enrollment cx e db = Some r" "we_enrollment_state r = ''approved''"
    "db' = set_enrollment (we_id r) (set_state_row ''suspended'' now) db"
    by (auto simp: suspend_worker_def split: option.splits if_splits)
  then have "r \<in> set (wd_enrollments db)" by (simp add: get_enrollment_mem)
  with assms(2) r(2) obtain b where "we_approved_by r = Some b" "(we_organization_id r, b) \<in> set (wd_actors db)"
    using approved_has_approver [of "wd_actors db" r] by (auto simp: workers_ok_def list_all_iff)
  with r get_enrollment_mem [OF r(1)] show ?thesis
    by (auto intro!: worker_effect.moved legal_move.suspend simp: set_state_row_def same_identity_def)
qed

lemma revoke_effect:
  assumes "revoke_worker cx e now db = Inr db'" and "workers_ok db" shows "worker_effect cx db db'"
proof -
  from assms(1) obtain r where r: "get_enrollment cx e db = Some r"
    "db' = set_enrollment (we_id r) (set_state_row ''revoked'' now) db"
    by (auto simp: revoke_worker_def split: option.splits)
  then have "r \<in> set (wd_enrollments db)" by (simp add: get_enrollment_mem)
  with assms(2) have "enrollment_ok (wd_actors db) r" by (simp add: workers_ok_def list_all_iff)
  with r get_enrollment_mem [OF r(1)] show ?thesis
    by (auto intro!: worker_effect.moved legal_move.revoke
        simp: set_state_row_def same_identity_def enrollment_ok_def split: option.splits)
qed

lemma issue_effect:
  assumes "issue_credential env cx i e caps d now db = Inr db'" shows "worker_effect cx db db'"
proof -
  from assms obtain r where r: "get_enrollment cx e db = Some r" "we_enrollment_state r = ''approved''"
    by (auto simp: issue_credential_def worker_is_active_def split: option.splits if_splits)
  with assms get_enrollment_mem [OF r(1)] show ?thesis
    by (auto simp: issue_credential_def insert_credential_def worker_is_active_def split: if_splits
        intro!: worker_effect.issued [of r])
qed

lemma revoke_credential_effect:
  "revoke_credential cx c now db = Inr db' \<Longrightarrow> worker_effect cx db db'"
  by (auto simp: revoke_credential_def dest: get_credential_mem split: option.splits
      intro!: worker_effect.revoked)

lemma worker_apply_effect:
  "worker_apply sha derive env x db = Inr db' \<Longrightarrow> workers_ok db \<Longrightarrow> worker_effect (op_context x) db db'"
  by (cases x)
    (auto dest: register_effect approve_effect suspend_effect revoke_effect issue_effect
      revoke_credential_effect)

lemma worker_step_cases:
  assumes "workers_ok db"
  shows "worker_step sha derive env x db = db \<or> worker_effect (op_context x) db (worker_step sha derive env x db)"
  using worker_apply_effect [of sha derive env x db] assms
  by (auto simp: worker_step_def attempt_def split: sum.splits)

subsection \<open>The invariant\<close>

lemma moved_rows:
  assumes "distinct (map we_id rows)" and "row \<in> set rows" and "x \<in> set rows" and "we_id x = we_id row"
  shows "x = row"
  using assms by (metis distinct_map_eq)

lemma credential_ok_mono:
  assumes "credential_ok rows c"
    and "\<And>r. r \<in> set rows \<Longrightarrow> \<exists>r' \<in> set rows'. we_id r' = we_id r
      \<and> we_organization_id r' = we_organization_id r \<and> (we_approved_by r \<noteq> None \<longrightarrow> we_approved_by r' \<noteq> None)"
  shows "credential_ok rows' c"
  using assms unfolding credential_ok_def list_ex_iff by metis

lemma worker_effect_ok: "worker_effect cx db db' \<Longrightarrow> workers_ok db \<Longrightarrow> workers_ok db'"
proof (induction rule: worker_effect.induct)
  case (enrolled r db)
  then have "credential_ok (wd_enrollments db @ [r]) c" if "c \<in> set (wd_credentials db)" for c
    using that by (auto simp: workers_ok_def list_all_iff credential_ok_def)
  with enrolled show ?case
    by (auto simp: workers_ok_def list_all_iff enrollment_ok_def)
next
  case (moved row db f)
  let ?rows = "update_where (\<lambda>r. we_id r = we_id row) f (wd_enrollments db)"
  have row: "x = row" if "x \<in> set (wd_enrollments db)" "we_id x = we_id row" for x
    using moved that moved_rows by (auto simp: workers_ok_def)
  have same: "we_id (f row) = we_id row" "we_organization_id (f row) = we_organization_id row"
      "we_worker_id (f row) = we_worker_id row" "we_pool_type (f row) = we_pool_type row"
    using moved by (auto simp: same_identity_def)
  have "map we_id ?rows = map we_id (wd_enrollments db)"
    by (rule map_update_where) (metis row same(1))
  moreover have "map (\<lambda>r. (we_organization_id r, we_worker_id r)) ?rows
      = map (\<lambda>r. (we_organization_id r, we_worker_id r)) (wd_enrollments db)"
    by (rule map_update_where) (metis row same(2,3))
  moreover have "list_all (enrollment_ok (wd_actors db)) ?rows"
  proof (rule list_all_update_where)
    fix x assume "x \<in> set (wd_enrollments db)" "we_id x = we_id row" "enrollment_ok (wd_actors db) x"
    with row [of x] moved same show "enrollment_ok (wd_actors db) (f x)"
      by (auto simp: enrollment_ok_def elim!: legal_move.cases split: option.splits)
  qed (use moved in \<open>simp add: workers_ok_def\<close>)
  moreover have "list_all (credential_ok ?rows) (wd_credentials db)"
    unfolding list_all_iff
  proof
    fix c assume "c \<in> set (wd_credentials db)"
    then have "credential_ok (wd_enrollments db) c" using moved by (simp add: workers_ok_def list_all_iff)
    then show "credential_ok ?rows c"
    proof (rule credential_ok_mono)
      fix r assume r: "r \<in> set (wd_enrollments db)"
      let ?s = "if we_id r = we_id row then f r else r"
      have "?s \<in> set ?rows" using r by (auto simp: set_update_where)
      moreover have "we_approved_by r \<noteq> None \<longrightarrow> we_approved_by ?s \<noteq> None"
        using row [OF r] moved by (auto split: option.splits)
      ultimately show "\<exists>r' \<in> set ?rows. we_id r' = we_id r
          \<and> we_organization_id r' = we_organization_id r \<and> (we_approved_by r \<noteq> None \<longrightarrow> we_approved_by r' \<noteq> None)"
        using row [OF r] same by (intro bexI [of _ ?s]) auto
    qed
  qed
  ultimately show ?case using moved by (simp add: workers_ok_def set_enrollment_def)
next
  case (issued row db c)
  then have "enrollment_ok (wd_actors db) row" by (simp add: workers_ok_def list_all_iff)
  with issued have "credential_ok (wd_enrollments db) c"
    using approved_has_approver [of "wd_actors db" row] by (auto simp: credential_ok_def list_ex_iff)
  with issued show ?case by (simp add: workers_ok_def)
next
  case (revoked c db now)
  let ?creds = "update_where (\<lambda>x. wc_id x = wc_id c) (wc_revoked_at_update (\<lambda>_. Some now)) (wd_credentials db)"
  have "map wc_id ?creds = map wc_id (wd_credentials db)" by (rule map_update_where) simp
  moreover have "list_all (credential_ok (wd_enrollments db)) ?creds"
    using revoked by (intro list_all_update_where) (auto simp: workers_ok_def credential_ok_def)
  ultimately show ?case using revoked by (simp add: workers_ok_def)
qed

lemma worker_step_ok: "workers_ok db \<Longrightarrow> workers_ok (worker_step sha derive env x db)"
  by (metis worker_effect_ok worker_step_cases)

interpretation worker_tables: component "worker_step sha derive env" workers_ok for sha derive env
  by unfold_locales (rule worker_step_ok)

subsection \<open>Histories\<close>

text \<open>What one step does to a row that is there, and to the credentials of an enrollment.\<close>

lemma worker_effect_row:
  assumes "worker_effect cx db db'" and "workers_ok db" and "r \<in> set (wd_enrollments db)"
  shows "\<exists>r' \<in> set (wd_enrollments db'). same_identity r r'
    \<and> (we_enrollment_state r' = we_enrollment_state r \<or> legal_move (we_enrollment_state r) (we_enrollment_state r'))"
  using assms
proof (induction rule: worker_effect.induct)
  case (moved row db f)
  let ?s = "if we_id r = we_id row then f r else r"
  have "?s \<in> set (wd_enrollments (set_enrollment (we_id row) f db))"
    using moved by (auto simp: set_enrollment_def set_update_where)
  moreover have "r = row" if "we_id r = we_id row"
    using moved that moved_rows by (auto simp: workers_ok_def)
  ultimately show ?case using moved
    by (intro bexI [of _ ?s]) (auto simp: same_identity_def)
qed (auto simp: same_identity_def intro!: bexI [of _ r])

definition credential_ids :: "uuid \<Rightarrow> worker_db \<Rightarrow> uuid list" where
  "credential_ids e db = map wc_id (filter (\<lambda>c. wc_enrollment_id c = e) (wd_credentials db))"

lemma worker_effect_credentials:
  assumes "worker_effect cx db db'" and "workers_ok db" and "r \<in> set (wd_enrollments db)"
    and "we_enrollment_state r \<noteq> ''approved''"
  shows "credential_ids (we_id r) db' = credential_ids (we_id r) db"
  using assms
proof (induction rule: worker_effect.induct)
  case (issued row db c)
  then have "we_id row \<noteq> we_id r" using moved_rows [of "wd_enrollments db" row r] by (auto simp: workers_ok_def)
  with issued show ?case by (simp add: credential_ids_def)
next
  case (revoked c db now)
  have "map wc_id (filter (\<lambda>c. wc_enrollment_id c = e)
      (update_where p (wc_revoked_at_update (\<lambda>_. Some now)) cs)) =
    map wc_id (filter (\<lambda>c. wc_enrollment_id c = e) cs)" for e p cs
    by (induction cs) auto
  then show ?case by (simp add: credential_ids_def)
qed (auto simp: credential_ids_def set_enrollment_def)

lemma same_identity_trans: "same_identity r s \<Longrightarrow> same_identity s t \<Longrightarrow> same_identity r t"
  by (simp add: same_identity_def)

lemma worker_history:
  assumes "workers_ok db" and "r \<in> set (wd_enrollments db)"
  shows "\<exists>r' \<in> set (wd_enrollments (fold (worker_step sha derive env) ops db)).
    same_identity r r' \<and> legal_move\<^sup>*\<^sup>* (we_enrollment_state r) (we_enrollment_state r')"
  using assms
proof (induction ops arbitrary: db r)
  case Nil
  then show ?case by (auto simp: same_identity_def)
next
  case (Cons x ops)
  let ?db1 = "worker_step sha derive env x db"
  obtain r1 where r1: "r1 \<in> set (wd_enrollments ?db1)" "same_identity r r1"
    "legal_move\<^sup>*\<^sup>* (we_enrollment_state r) (we_enrollment_state r1)"
    using worker_step_cases [OF Cons.prems(1), of sha derive env x] worker_effect_row [OF _ Cons.prems]
      Cons.prems(2) by (metis same_identity_def r_into_rtranclp rtranclp.rtrancl_refl)
  from Cons.IH [OF worker_step_ok [OF Cons.prems(1)] r1(1)] r1(2,3) show ?case
    by simp (metis same_identity_trans rtranclp_trans)
qed

lemma legal_from_revoked: "legal_move\<^sup>*\<^sup>* ''revoked'' t \<Longrightarrow> t = ''revoked''"
  by (induction rule: rtranclp_induct) (auto elim: legal_move_from_revoked legal_move.cases)

lemma legal_from_suspended: "legal_move\<^sup>*\<^sup>* ''suspended'' t \<Longrightarrow> t \<in> {''suspended'', ''revoked''}"
  by (induction rule: rtranclp_induct) (auto elim: legal_move.cases)

lemma inactive_history:
  assumes "workers_ok db" and "r \<in> set (wd_enrollments db)"
    and "we_enrollment_state r \<in> {''suspended'', ''revoked''}"
  shows "credential_ids (we_id r) (fold (worker_step sha derive env) ops db) = credential_ids (we_id r) db"
  using assms
proof (induction ops arbitrary: db r)
  case (Cons x ops)
  let ?db1 = "worker_step sha derive env x db"
  obtain r1 where r1: "r1 \<in> set (wd_enrollments ?db1)" "we_id r1 = we_id r"
      "we_enrollment_state r1 \<in> {''suspended'', ''revoked''}"
    and ids: "credential_ids (we_id r) ?db1 = credential_ids (we_id r) db"
  proof (cases "?db1 = db")
    case False
    then have eff: "worker_effect (op_context x) db ?db1"
      using worker_step_cases [OF Cons.prems(1), of sha derive env x] by simp
    from worker_effect_row [OF eff Cons.prems(1,2)] Cons.prems(3) have
      "\<exists>r1 \<in> set (wd_enrollments ?db1). we_id r1 = we_id r \<and> we_enrollment_state r1 \<in> {''suspended'', ''revoked''}"
      by (auto simp: same_identity_def elim!: legal_move.cases)
    moreover have "credential_ids (we_id r) ?db1 = credential_ids (we_id r) db"
      using worker_effect_credentials [OF eff Cons.prems(1,2)] Cons.prems(3) by auto
    ultimately show ?thesis using that by blast
  qed (use Cons.prems that in auto)
  from Cons.IH [OF worker_step_ok [OF Cons.prems(1)] r1(1,3)] r1(2) ids show ?case by simp
qed simp

definition credential_dead :: "uuid \<Rightarrow> worker_db \<Rightarrow> bool" where
  "credential_dead cid db \<longleftrightarrow> cid \<in> wc_id ` set (wd_credentials db)
     \<and> list_all (\<lambda>c. wc_id c = cid \<longrightarrow> wc_revoked_at c \<noteq> None) (wd_credentials db)"

lemma revoked_ids:
  "wc_id ` set (update_where p (wc_revoked_at_update (\<lambda>_. Some now)) cs) = wc_id ` set cs"
  by (induction cs) auto

lemma worker_effect_dead: "worker_effect cx db db' \<Longrightarrow> credential_dead cid db \<Longrightarrow> credential_dead cid db'"
proof (induction rule: worker_effect.induct)
  case (revoked c db now)
  then show ?case by (simp add: credential_dead_def revoked_ids) (auto simp: list_all_iff set_update_where)
qed (auto simp: credential_dead_def set_enrollment_def list_all_iff)

lemma worker_run_dead:
  "workers_ok db \<Longrightarrow> credential_dead cid db \<Longrightarrow>
     credential_dead cid (fold (worker_step sha derive env) ops db)"
proof (induction ops arbitrary: db)
  case (Cons x ops)
  have "credential_dead cid (worker_step sha derive env x db)"
    using worker_step_cases [OF Cons.prems(1), of sha derive env x] worker_effect_dead Cons.prems(2) by metis
  with Cons show ?case by (simp add: worker_step_ok)
qed simp

text \<open>The rows of every organization but \<open>org\<close>.\<close>

definition foreign_rows :: "uuid \<Rightarrow> worker_db \<Rightarrow> worker_enrollment list \<times> worker_credential list" where
  "foreign_rows org db =
     (filter (\<lambda>r. we_organization_id r \<noteq> org) (wd_enrollments db),
      filter (\<lambda>c. wc_organization_id c \<noteq> org) (wd_credentials db))"

lemma worker_effect_foreign:
  assumes "worker_effect cx db db'" and "workers_ok db"
  shows "foreign_rows (oc_organization_id cx) db' = foreign_rows (oc_organization_id cx) db"
  using assms
proof (induction rule: worker_effect.induct)
  case (moved row db f)
  have "filter (\<lambda>r. we_organization_id r \<noteq> oc_organization_id cx)
      (update_where (\<lambda>r. we_id r = we_id row) f (wd_enrollments db))
    = filter (\<lambda>r. we_organization_id r \<noteq> oc_organization_id cx) (wd_enrollments db)"
  proof (rule filter_update_where)
    fix x assume "x \<in> set (wd_enrollments db)" "we_id x = we_id row"
    then have "x = row" using moved moved_rows by (auto simp: workers_ok_def)
    with moved show "\<not> we_organization_id x \<noteq> oc_organization_id cx
        \<and> \<not> we_organization_id (f x) \<noteq> oc_organization_id cx"
      by (auto simp: same_identity_def)
  qed
  then show ?case by (simp add: foreign_rows_def set_enrollment_def)
next
  case (revoked c db now)
  have "filter (\<lambda>r. wc_organization_id r \<noteq> oc_organization_id cx)
      (update_where (\<lambda>x. wc_id x = wc_id c) (wc_revoked_at_update (\<lambda>_. Some now)) (wd_credentials db))
    = filter (\<lambda>r. wc_organization_id r \<noteq> oc_organization_id cx) (wd_credentials db)"
  proof (rule filter_update_where)
    fix x assume x: "x \<in> set (wd_credentials db)" "wc_id x = wc_id c"
    then have "x = c" using revoked distinct_map_eq [of wc_id "wd_credentials db" x c] by (simp add: workers_ok_def)
    with revoked show "\<not> wc_organization_id x \<noteq> oc_organization_id cx
        \<and> \<not> wc_organization_id (wc_revoked_at_update (\<lambda>_. Some now) x) \<noteq> oc_organization_id cx" by simp
  qed
  then show ?case by (simp add: foreign_rows_def)
qed (auto simp: foreign_rows_def)

section \<open>Properties\<close>

definition sample_worker_db :: worker_db where
  "sample_worker_db = \<lparr> wd_actors = [(1, 2), (1, 5)],
     wd_enrollments = [\<lparr> we_id = 31, we_organization_id = 1, we_worker_id = 5,
       we_enrollment_state = ''approved'', we_pool_type = ''volunteer'', we_public_key = ''k'',
       we_enrollment_token_hash = ''h'', we_approved_by = Some 2, we_approved_at = Some 7,
       we_software_version = None, we_software_hash = None, we_capability_manifest = [],
       we_updated_at = Some 7 \<rparr>],
     wd_credentials = [\<lparr> wc_id = 41, wc_organization_id = 1, wc_enrollment_id = 31,
       wc_scoped_capabilities = [], wc_issued_at = 10, wc_expires_at = 20, wc_revoked_at = None \<rparr>] \<rparr>"

definition worker_context :: org_context where
  "worker_context = \<lparr> oc_auth_identity_id = 11, oc_actor_id = 2, oc_organization_id = 1,
     oc_session_id = 12, oc_platform_role = PlatformNone, oc_membership_role = OrgAdmin \<rparr>"

lemma sample_worker_db_ok: "workers_ok sample_worker_db"
  by (simp add: workers_ok_def sample_worker_db_def enrollment_ok_def credential_ok_def)

text \<open>
  The enrollment table keeps its history. Over any sequence of service calls, of any
  organization, the tables keep their constraints, and every enrollment is still there with
  its organization, worker, key and token digest, in a state reached from its old one by
  approval of a pending, suspension of an approved, or revocation of any enrollment.
\<close>

theorem enrollment_history:
  assumes "workers_ok db" and "r \<in> set (wd_enrollments db)"
  shows "workers_ok (fold (worker_step sha derive env) ops db)
    \<and> list_ex (\<lambda>r'. same_identity r r' \<and> legal_move\<^sup>*\<^sup>* (we_enrollment_state r) (we_enrollment_state r'))
        (wd_enrollments (fold (worker_step sha derive env) ops db))"
  using worker_history [OF assms] worker_tables.run_inv [OF assms(1)] by (auto simp: list_ex_iff)

lemma enrollment_history_witness:
  "workers_ok (fold (worker_step id (\<lambda>_. 0) None)
     [SuspendWorker worker_context 31 9, ApproveWorker worker_context 31 2 10] sample_worker_db)"
  by (rule enrollment_history [OF sample_worker_db_ok, of "hd (wd_enrollments sample_worker_db)", THEN conjunct1])
    (simp add: sample_worker_db_def)

text \<open>
  C7. Suspension and revocation end a worker. From the moment an enrollment is suspended or
  revoked, whatever calls follow, it never returns to a state in which credentials are issued,
  and the set of its credentials does not grow.
\<close>

theorem inactive_worker_final:
  assumes "workers_ok db" and "r \<in> set (wd_enrollments db)"
    and "we_enrollment_state r \<in> {''suspended'', ''revoked''}"
  shows "list_all (\<lambda>r'. we_id r' = we_id r \<longrightarrow> \<not> worker_is_active (we_enrollment_state r'))
      (wd_enrollments (fold (worker_step sha derive env) ops db))
    \<and> credential_ids (we_id r) (fold (worker_step sha derive env) ops db) = credential_ids (we_id r) db"
proof -
  let ?db = "fold (worker_step sha derive env) ops db"
  from worker_history [OF assms(1,2)] obtain r' where
    r': "r' \<in> set (wd_enrollments ?db)" "same_identity r r'"
      "legal_move\<^sup>*\<^sup>* (we_enrollment_state r) (we_enrollment_state r')" by blast
  then have "we_enrollment_state r' \<in> {''suspended'', ''revoked''}"
    using assms(3) legal_from_revoked legal_from_suspended by fastforce
  moreover have "x = r'" if "x \<in> set (wd_enrollments ?db)" "we_id x = we_id r" for x
    using that r' moved_rows [of "wd_enrollments ?db" r' x] worker_tables.run_inv [OF assms(1)]
    by (simp add: workers_ok_def same_identity_def)
  ultimately have "list_all (\<lambda>r'. we_id r' = we_id r \<longrightarrow> \<not> worker_is_active (we_enrollment_state r'))
      (wd_enrollments ?db)"
    by (auto simp: list_all_iff worker_is_active_def)
  then show ?thesis using inactive_history [OF assms] by simp
qed

definition suspended_worker_db :: worker_db where
  "suspended_worker_db = worker_step id (\<lambda>_. 0) None (SuspendWorker worker_context 31 9) sample_worker_db"

lemma suspended_worker_eval:
  "suspended_worker_db = sample_worker_db\<lparr> wd_enrollments :=
     map (set_state_row ''suspended'' 9) (wd_enrollments sample_worker_db) \<rparr>"
  by (simp add: suspended_worker_db_def worker_step_def attempt_def suspend_worker_def get_enrollment_def
      sample_worker_db_def worker_context_def set_enrollment_def)

lemma inactive_worker_final_witness:
  "credential_ids 31 (fold (worker_step id (\<lambda>_. 0) (Some ''key''))
     [IssueCredential worker_context 42 31 [''c''] 10 11] suspended_worker_db) = [41]"
proof -
  let ?r = "set_state_row ''suspended'' 9 (hd (wd_enrollments sample_worker_db))"
  have "workers_ok suspended_worker_db"
    unfolding suspended_worker_db_def by (rule worker_step_ok [OF sample_worker_db_ok])
  from inactive_worker_final [OF this, of ?r id "\<lambda>_. 0" "Some ''key''"
      "[IssueCredential worker_context 42 31 [''c''] 10 11]"]
  show ?thesis
    by (simp add: suspended_worker_eval sample_worker_db_def set_state_row_def credential_ids_def)
qed

text \<open>
  Exactly the approved workers of the acting organization get credentials:
  \<open>issue_credential\<close> succeeds if and only if the enrollment exists in that organization, is
  approved, the signing key is set and the identifier is fresh, and it then appends one
  unrevoked credential for that enrollment that expires after the given duration.
\<close>

theorem issue_credential_exact:
  assumes "workers_ok db"
  shows "issue_credential env cx cid e caps duration now db = Inr db' \<longleftrightarrow>
    list_ex (\<lambda>r. we_organization_id r = oc_organization_id cx \<and> we_id r = e
       \<and> we_enrollment_state r = ''approved'') (wd_enrollments db)
    \<and> is_ok (credential_signing_key env) \<and> cid \<notin> set (map wc_id (wd_credentials db))
    \<and> db' = db\<lparr> wd_credentials := wd_credentials db @
        [\<lparr> wc_id = cid, wc_organization_id = oc_organization_id cx, wc_enrollment_id = e,
           wc_scoped_capabilities = caps, wc_issued_at = now, wc_expires_at = now + duration,
           wc_revoked_at = None \<rparr>] \<rparr>"
proof -
  have "get_enrollment cx e db = Some r \<longleftrightarrow>
      r \<in> set (wd_enrollments db) \<and> we_organization_id r = oc_organization_id cx \<and> we_id r = e" for r
    unfolding get_enrollment_def using assms by (intro find_unique) (simp add: workers_ok_def)
  then have "list_ex (\<lambda>r. we_organization_id r = oc_organization_id cx \<and> we_id r = e
       \<and> we_enrollment_state r = ''approved'') (wd_enrollments db) \<longleftrightarrow>
    (\<exists>r. get_enrollment cx e db = Some r \<and> we_enrollment_state r = ''approved'')"
    by (auto simp: list_ex_iff)
  then show ?thesis
    by (cases "get_enrollment cx e db")
      (auto simp: issue_credential_def worker_is_active_def insert_credential_def list_ex_iff is_ok_iff
        dest: get_enrollment_mem)
qed

lemma issue_credential_exact_witness:
  "\<not> is_ok (issue_credential (Some ''  '') worker_context 42 31 [''c''] 10 11 sample_worker_db)
   \<and> is_ok (issue_credential (Some ''key'') worker_context 42 31 [''c''] 10 11 sample_worker_db)"
proof -
  have blank: "\<not> is_ok (credential_signing_key (Some ''  ''))"
    by (simp add: credential_signing_key_def strip_def lstrip_def is_space_def)
  have set: "is_ok (credential_signing_key (Some ''key''))"
    by (simp add: credential_signing_key_def strip_def lstrip_def is_space_def)
  show ?thesis
    using blank set
    by (auto simp: is_ok_iff issue_credential_exact [OF sample_worker_db_ok])
      (simp_all add: sample_worker_db_def worker_context_def)
qed

text \<open>
  C18. A revoked credential is dead for good: after \<open>revoke_credential\<close>, whatever calls follow,
  the credential is still on record and at no time valid.
\<close>

theorem revoked_credential_dead:
  assumes "workers_ok db" and "revoke_credential cx cid now db = Inr db'"
  shows "cid \<in> wc_id ` set (wd_credentials (fold (worker_step sha derive env) ops db'))
    \<and> list_all (\<lambda>c. wc_id c = cid \<longrightarrow> \<not> credential_is_valid (wc_expires_at c) (wc_revoked_at c) t)
        (wd_credentials (fold (worker_step sha derive env) ops db'))"
proof -
  from assms(2) obtain c where c: "get_credential cx cid db = Some c"
    and db': "db' = db\<lparr> wd_credentials :=
      update_where (\<lambda>x. wc_id x = wc_id c) (wc_revoked_at_update (\<lambda>_. Some now)) (wd_credentials db) \<rparr>"
    by (auto simp: revoke_credential_def split: option.splits)
  have "wc_id ` set (wd_credentials db') = wc_id ` set (wd_credentials db)"
    by (simp add: db' revoked_ids)
  with get_credential_mem [OF c] have "credential_dead cid db'"
    by (auto simp: db' credential_dead_def set_update_where list_all_iff)
  moreover have "workers_ok db'"
    using worker_effect_ok [OF revoke_credential_effect [OF assms(2)] assms(1)] .
  ultimately have "credential_dead cid (fold (worker_step sha derive env) ops db')"
    by (rule worker_run_dead [rotated])
  then show ?thesis by (auto simp: credential_dead_def credential_is_valid_def list_all_iff)
qed

lemma revoked_credential_dead_witness:
  "\<exists>db'. revoke_credential worker_context 41 12 sample_worker_db = Inr db'
     \<and> list_all (\<lambda>c. wc_id c = 41 \<longrightarrow> \<not> credential_is_valid (wc_expires_at c) (wc_revoked_at c) 15)
         (wd_credentials (fold (worker_step id (\<lambda>_. 0) (Some ''key''))
            [IssueCredential worker_context 41 31 [] 10 13] db'))"
proof -
  have "is_ok (revoke_credential worker_context 41 12 sample_worker_db)"
    by (simp add: revoke_credential_def get_credential_def sample_worker_db_def worker_context_def)
  then obtain db' where "revoke_credential worker_context 41 12 sample_worker_db = Inr db'"
    by (auto simp: is_ok_iff)
  with revoked_credential_dead [OF sample_worker_db_ok this] show ?thesis by blast
qed

text \<open>
  Tenant isolation: calls made in the context of one organization leave every enrollment
  and credential of every other organization as it was.
\<close>

theorem worker_tenant_isolation:
  assumes "workers_ok db" and "list_all (\<lambda>x. oc_organization_id (op_context x) = org) ops"
  shows "foreign_rows org (fold (worker_step sha derive env) ops db) = foreign_rows org db"
  using assms
proof (induction ops arbitrary: db)
  case (Cons x ops)
  have "foreign_rows org (worker_step sha derive env x db) = foreign_rows org db"
    using worker_step_cases [OF Cons.prems(1), of sha derive env x]
      worker_effect_foreign [OF _ Cons.prems(1), of "op_context x"] Cons.prems(2) by auto
  with Cons show ?case by (simp add: worker_step_ok)
qed simp

lemma worker_tenant_isolation_witness:
  "foreign_rows 3 (fold (worker_step id (\<lambda>_. 0) None)
     [RevokeWorker (worker_context\<lparr> oc_organization_id := 3 \<rparr>) 31 9] sample_worker_db)
   = (wd_enrollments sample_worker_db, wd_credentials sample_worker_db)"
  using worker_tenant_isolation [OF sample_worker_db_ok,
      of 3 "[RevokeWorker (worker_context\<lparr> oc_organization_id := 3 \<rparr>) 31 9]" id "\<lambda>_. 0" None]
  by (simp add: foreign_rows_def sample_worker_db_def)

text \<open>
  Version-aware matching is a lower bound per name: a manifest satisfies \<open>name:vM\<close> exactly
  when it lists the bare name, or the name with a version at least \<open>M\<close>; it satisfies a required
  bare name (without a colon) exactly when it lists that name in any version.
\<close>

theorem capability_matches_exact:
  assumes "CHR '':'' \<notin> set bare"
  shows "capability_matches manifest (name @ '':v'' @ nat_str m) True
     = list_ex (\<lambda>cap. fst (parse_versioned_capability cap) = name
         \<and> (case snd (parse_versioned_capability cap) of None \<Rightarrow> True | Some c \<Rightarrow> m \<le> c)) manifest
   \<and> capability_matches manifest bare True
     = list_ex (\<lambda>cap. fst (parse_versioned_capability cap) = bare) manifest"
proof
  show "capability_matches manifest (name @ '':v'' @ nat_str m) True
     = list_ex (\<lambda>cap. fst (parse_versioned_capability cap) = name
         \<and> (case snd (parse_versioned_capability cap) of None \<Rightarrow> True | Some c \<Rightarrow> m \<le> c)) manifest"
    by (simp only: capability_matches_def parse_versioned_suffix)
      (auto simp: manifest_loop_iff version_satisfies_def list_ex_iff)
  have "parse_versioned_capability bare = (bare, None)"
    using assms by (simp add: parse_versioned_capability_def)
  then show "capability_matches manifest bare True
     = list_ex (\<lambda>cap. fst (parse_versioned_capability cap) = bare) manifest"
    by (auto simp: capability_matches_def manifest_loop_iff version_satisfies_def list_ex_iff)
qed

lemma capability_matches_exact_witness:
  "capability_matches [''ocr:v2''] (''ocr'' @ '':v'' @ nat_str 1) True
   \<and> \<not> capability_matches [''ocr:v2''] (''ocr'' @ '':v'' @ nat_str 3) True
   \<and> capability_matches [''ocr:v2''] ''ocr'' True"
proof -
  have two: "parse_versioned_capability ''ocr:v2'' = (''ocr'', Some 2)"
    by (simp add: parse_versioned_capability_def starts_with_def isdigit_def is_digit_def digits_val_def
        digit_val_def)
  show ?thesis
    using capability_matches_exact [of "''ocr''" "[''ocr:v2'']" "''ocr''" 1]
      capability_matches_exact [of "''ocr''" "[''ocr:v2'']" "''ocr''" 3] two by simp
qed

text \<open>
  The domain predicate on trust tiers and the constraint evaluator of the authorization
  decision are the same comparison, wherever both tiers are known.
\<close>

lemma minimum_tier_agrees:
  "trust_tier_satisfies (au_trust_tier (ec_actor cx)) required = Inr b \<Longrightarrow>
     eval_minimum_trust_tier (PStr required) cx = Some b"
  by (auto simp: trust_tier_satisfies_def trust_tier_index_iff trust_order_agrees split: option.splits)

text \<open>A credential is issued for any scope, the empty one included, and for any duration.\<close>

lemma empty_scope_issued:
  "is_ok (issue_credential (Some ''key'') worker_context 42 31 [] (- 5) 11 sample_worker_db)"
  by (simp add: issue_credential_def get_enrollment_def sample_worker_db_def worker_context_def
      worker_is_active_def credential_signing_key_def insert_credential_def strip_def lstrip_def is_space_def)

end
