(* ===== verification/Cron.thy ===== *)
theory Cron
  imports Prelude
begin

text \<open>
  Cron expressions (\<^verbatim>\<open>domain/triggers.py\<close>): validation, expansion of a field into the set of its
  values, and the search for the next fire time.

  A datetime is read here as a wall clock: the number of microseconds since 0001-01-01 00:00:00.
  Its month, day, hour, minute and weekday follow the proleptic Gregorian calendar, as Python's
  \<open>datetime\<close> does, and a value after 9999-12-31 23:59:59.999999 is an \<open>OverflowError\<close>.
\<close>

datatype cron_error = InvalidCronExpressionError | CronValueError | CronOverflowError

section \<open>The calendar\<close>

definition is_leap :: "nat \<Rightarrow> bool" where
  "is_leap y \<longleftrightarrow> y mod 4 = 0 \<and> (y mod 100 \<noteq> 0 \<or> y mod 400 = 0)"

definition days_before_year :: "nat \<Rightarrow> nat" where
  "days_before_year year = (let y = year - 1 in y * 365 + y div 4 - y div 100 + y div 400)"

definition month_lengths :: "bool \<Rightarrow> nat list" where
  "month_lengths leap = [31, if leap then 29 else 28, 31, 30, 31, 30, 31, 31, 30, 31, 30, 31]"

text \<open>The month (from 1) and day of a day number within the year.\<close>

fun month_day :: "nat list \<Rightarrow> nat \<Rightarrow> nat \<times> nat" where
  "month_day [] n = (1, n + 1)"
| "month_day (l # ls) n = (if n < l then (1, n + 1) else (case month_day ls (n - l) of (m, d) \<Rightarrow> (m + 1, d)))"

text \<open>The year, month and day of a day number: the algorithm of \<open>datetime._ord2ymd\<close>.\<close>

definition year_of_days :: "nat \<Rightarrow> nat \<times> nat" where
  "year_of_days n =
     (let n400 = n div 146097; a = n mod 146097; n100 = a div 36524; b = a mod 36524;
          n4 = b div 1461; c = b mod 1461; n1 = c div 365; r = c mod 365;
          year = n400 * 400 + 1 + n100 * 100 + n4 * 4 + n1
      in if n1 = 4 \<or> n100 = 4 then (year - 1, 365) else (year, r))"

definition ymd_of_days :: "nat \<Rightarrow> nat \<times> nat \<times> nat" where
  "ymd_of_days n =
     (case year_of_days n of (y, r) \<Rightarrow> (case month_day (month_lengths (is_leap y)) r of (m, d) \<Rightarrow> (y, m, d)))"

definition minute_us :: int where "minute_us = 60000000"
definition hour_us :: int where "hour_us = 3600000000"
definition day_us :: int where "day_us = 86400000000"

definition dt_days :: "datetime \<Rightarrow> nat" where "dt_days t = nat (t div day_us)"
definition dt_month :: "datetime \<Rightarrow> int" where "dt_month t = int (fst (snd (ymd_of_days (dt_days t))))"
definition dt_day :: "datetime \<Rightarrow> int" where "dt_day t = int (snd (snd (ymd_of_days (dt_days t))))"
definition dt_weekday :: "datetime \<Rightarrow> int" where "dt_weekday t = int (dt_days t mod 7)"
definition dt_hour :: "datetime \<Rightarrow> int" where "dt_hour t = t mod day_us div hour_us"
definition dt_minute :: "datetime \<Rightarrow> int" where "dt_minute t = t mod hour_us div minute_us"

text \<open>The first microsecond that is not a datetime: midnight of 10000-01-01.\<close>

definition dt_end :: datetime where "dt_end = int (days_before_year 10000) * day_us"

definition dt_add :: "datetime \<Rightarrow> int \<Rightarrow> cron_error + datetime" where
  "dt_add t d = (if 0 \<le> t + d \<and> t + d < dt_end then Inr (t + d) else Inl CronOverflowError)"

section \<open>Validation\<close>

definition CRON_RANGES :: "(int \<times> int) list" where
  "CRON_RANGES = [(0, 59), (0, 23), (1, 31), (1, 12), (0, 7)]"

definition check_bound :: "int \<Rightarrow> int \<Rightarrow> string \<Rightarrow> cron_error + unit" where
  "check_bound lo hi s =
     (if \<not> isdigit s then Inl InvalidCronExpressionError
      else
        (case py_int s of
           None \<Rightarrow> Inl CronValueError
         | Some v \<Rightarrow> if v < lo \<or> v > hi then Inl InvalidCronExpressionError else Inr ()))"

definition check_step :: "string list \<Rightarrow> cron_error + unit" where
  "check_step step_parts =
     (if length step_parts > 2 then Inl InvalidCronExpressionError
      else if length step_parts = 2 then
        (let step_val = step_parts ! 1
         in if \<not> isdigit step_val then Inl InvalidCronExpressionError
            else (case py_int step_val of
                    None \<Rightarrow> Inl CronValueError
                  | Some v \<Rightarrow> if v = 0 then Inl InvalidCronExpressionError else Inr ()))
      else Inr ())"

definition check_base :: "int \<Rightarrow> int \<Rightarrow> string \<Rightarrow> cron_error + unit" where
  "check_base lo hi base =
     (if base = ''*'' then Inr ()
      else if CHR ''-'' \<in> set base then
        (let range_parts = split_on CHR ''-'' base
         in if length range_parts \<noteq> 2 then Inl InvalidCronExpressionError
            else for_each (check_bound lo hi) range_parts)
      else check_bound lo hi base)"

definition check_part :: "int \<Rightarrow> int \<Rightarrow> string \<Rightarrow> cron_error + unit" where
  "check_part lo hi raw =
     (let part = strip raw
      in if part = [] then Inl InvalidCronExpressionError
         else (let step_parts = split_on CHR ''/'' part
               in rbind (check_step step_parts) (\<lambda>_. check_base lo hi (hd step_parts))))"

definition validate_cron_field :: "string \<Rightarrow> int \<times> int \<Rightarrow> cron_error + unit" where
  "validate_cron_field field bounds =
     (case bounds of (lo, hi) \<Rightarrow> for_each (check_part lo hi) (split_on CHR '','' field))"

definition validate_cron_expression :: "string \<Rightarrow> cron_error + unit" where
  "validate_cron_expression expression =
     (let fields = split_ws (strip expression)
      in if length fields \<noteq> 5 then Inl InvalidCronExpressionError
         else for_each (\<lambda>(f, r). validate_cron_field f r) (zip fields CRON_RANGES))"

section \<open>Expansion\<close>

text \<open>\<open>range(start, stop, step)\<close>, which rejects a zero step.\<close>

definition py_range :: "int \<Rightarrow> int \<Rightarrow> int \<Rightarrow> cron_error + int list" where
  "py_range start stop step =
     (if step = 0 then Inl CronValueError
      else if step > 0 then Inr (map (\<lambda>i. start + int i * step) [0..<nat ((stop - start + step - 1) div step)])
      else Inr (map (\<lambda>i. start + int i * step) [0..<nat ((start - stop - step - 1) div (- step))]))"

definition cron_int :: "string \<Rightarrow> cron_error + int" where
  "cron_int s = (case py_int s of None \<Rightarrow> Inl CronValueError | Some v \<Rightarrow> Inr v)"

definition base_bounds :: "int \<Rightarrow> int \<Rightarrow> string \<Rightarrow> cron_error + int \<times> int" where
  "base_bounds lo hi base =
     (if base = ''*'' then Inr (lo, hi)
      else if CHR ''-'' \<in> set base then
        (let rp = split_on CHR ''-'' base
         in rbind (cron_int (rp ! 0)) (\<lambda>a. rbind (cron_int (rp ! 1)) (\<lambda>b. Inr (a, b))))
      else rbind (cron_int base) (\<lambda>a. Inr (a, a)))"

definition expand_part :: "int \<Rightarrow> int \<Rightarrow> string \<Rightarrow> cron_error + int list" where
  "expand_part lo hi part =
     (let step_parts = split_on CHR ''/'' part; base = hd step_parts
      in rbind (if length step_parts = 2 then cron_int (step_parts ! 1) else Inr 1) (\<lambda>step.
         rbind (base_bounds lo hi base) (\<lambda>(start, end).
         rbind (py_range start (end + 1) step) (\<lambda>vs.
           Inr (filter (\<lambda>v. lo \<le> v \<and> v \<le> hi) vs)))))"

definition expand_field :: "string \<Rightarrow> int \<times> int \<Rightarrow> cron_error + int set" where
  "expand_field field bounds =
     (case bounds of (lo, hi) \<Rightarrow>
        rbind (traverse (expand_part lo hi) (split_on CHR '','' field)) (\<lambda>vss. Inr (set (concat vss))))"

section \<open>The next fire time\<close>

definition iso_to_cron_dow :: "int set \<Rightarrow> int set" where
  "iso_to_cron_dow dows = (\<lambda>d. (d + 6) mod 7) ` (dows \<inter> {0..6})"

record cron_sets =
  cs_minutes :: "int set"
  cs_hours :: "int set"
  cs_days :: "int set"
  cs_months :: "int set"
  cs_dows :: "int set"

definition expand_all :: "string list \<Rightarrow> cron_error + cron_sets" where
  "expand_all fs =
     rbind (expand_field (fs ! 0) (0, 59)) (\<lambda>minutes.
     rbind (expand_field (fs ! 1) (0, 23)) (\<lambda>hours.
     rbind (expand_field (fs ! 2) (1, 31)) (\<lambda>days.
     rbind (expand_field (fs ! 3) (1, 12)) (\<lambda>months.
     rbind (expand_field (fs ! 4) (0, 7)) (\<lambda>dows.
       Inr \<lparr> cs_minutes = minutes, cs_hours = hours, cs_days = days, cs_months = months,
             cs_dows = (\<lambda>d. if d = 7 then 0 else d) ` dows \<rparr>)))))"

definition cron_matches :: "cron_sets \<Rightarrow> datetime \<Rightarrow> bool" where
  "cron_matches cs t \<longleftrightarrow>
     dt_month t \<in> cs_months cs \<and> dt_day t \<in> cs_days cs
     \<and> dt_weekday t \<in> iso_to_cron_dow (cs_dows cs)
     \<and> dt_hour t \<in> cs_hours cs \<and> dt_minute t \<in> cs_minutes cs"

text \<open>The loop: one minute at a time, up to the limit.\<close>

function cron_loop :: "cron_sets \<Rightarrow> datetime \<Rightarrow> datetime \<Rightarrow> cron_error + datetime option" where
  "cron_loop cs candidate limit =
     (if candidate < limit then
        (if cron_matches cs candidate then Inr (Some candidate)
         else (case dt_add candidate minute_us of
                 Inl e \<Rightarrow> Inl e
               | Inr candidate' \<Rightarrow> cron_loop cs candidate' limit))
      else Inr None)"
  by pat_completeness auto
termination
  by (relation "measure (\<lambda>(cs, c, l). nat (l - c))")
    (auto simp: dt_add_def minute_us_def split: if_splits)

declare cron_loop.simps [simp del]

definition next_cron_fire :: "string \<Rightarrow> datetime \<Rightarrow> cron_error + datetime option" where
  "next_cron_fire expression after =
     (let fs = split_ws (strip expression)
      in if length fs \<noteq> 5 then Inr None
         else rbind (expand_all fs) (\<lambda>cs.
           if cs_minutes cs = {} \<or> cs_hours cs = {} \<or> cs_days cs = {} \<or> cs_months cs = {} \<or> cs_dows cs = {}
           then Inr None
           else rbind (dt_add (after - after mod minute_us) minute_us) (\<lambda>candidate.
                rbind (dt_add after (366 * day_us)) (\<lambda>limit.
                  cron_loop cs candidate limit))))"

section \<open>The calendar is right\<close>

lemma month_day_range:
  "n < sum_list ls \<Longrightarrow>
     (case month_day ls n of (m, d) \<Rightarrow>
        1 \<le> m \<and> m \<le> length ls \<and> 1 \<le> d \<and> d \<le> ls ! (m - 1) \<and> sum_list (take (m - 1) ls) + d = n + 1)"
proof (induction ls arbitrary: n)
  case (Cons l ls)
  show ?case
  proof (cases "n < l")
    case False
    obtain m d where md: "month_day ls (n - l) = (m, d)" by fastforce
    from False Cons.prems have "n - l < sum_list ls" by simp
    from Cons.IH [OF this] md False show ?thesis by (cases m) auto
  qed simp
qed simp

definition year_days :: "nat \<Rightarrow> nat" where
  "year_days y = (if is_leap y then 366 else 365)"

lemma sum_month_lengths: "sum_list (month_lengths (is_leap y)) = year_days y"
  by (simp add: month_lengths_def year_days_def)

lemma year_parts:
  fixes h :: nat
  assumes "i \<le> 3" and "f \<le> 24" and "c \<le> 3"
  shows "days_before_year (h * 400 + 1 + c * 100 + f * 4 + i) = 146097 * h + 36524 * c + 1461 * f + 365 * i"
proof -
  have "(h * 400 + c * 100 + f * 4 + i) div 4 = 100 * h + 25 * c + f"
    and "(h * 400 + c * 100 + f * 4 + i) div 100 = 4 * h + c"
    and "(h * 400 + c * 100 + f * 4 + i) div 400 = h"
    using assms by (auto intro!: div_nat_eqI)
  then show ?thesis by (simp add: days_before_year_def)
qed

lemma leap_day_year:
  fixes h :: nat
  assumes "f \<le> 23" shows "is_leap (h * 400 + c * 100 + f * 4 + 4)"
proof -
  have four: "h * 400 + c * 100 + f * 4 + 4 = 4 * (h * 100 + c * 25 + f + 1)" by simp
  have hundred: "h * 400 + c * 100 + f * 4 + 4 = (f * 4 + 4) + 100 * (h * 4 + c)" by simp
  have "(h * 400 + c * 100 + f * 4 + 4) mod 4 = 0" by (simp only: four mod_mult_self1_is_0)
  moreover have "(h * 400 + c * 100 + f * 4 + 4) mod 100 = f * 4 + 4"
    unfolding hundred mod_mult_self2 using assms by simp
  ultimately show ?thesis by (simp add: is_leap_def)
qed

lemma leap_century: "is_leap (h * 400 + 400)"
proof -
  have "h * 400 + 400 = 4 * (h * 100 + 100)" and "h * 400 + 400 = 400 * (h + 1)" by simp_all
  then have "(h * 400 + 400) mod 4 = 0" and "(h * 400 + 400) mod 400 = 0"
    by (metis mod_mult_self1_is_0)+
  then show ?thesis by (simp add: is_leap_def)
qed

lemma year_of_days_correct:
  assumes "year_of_days n = (y, r)"
  shows "1 \<le> y \<and> r < year_days y \<and> days_before_year y + r = n"
proof -
  define h where "h = n div 146097"
  define a where "a = n mod 146097"
  define c where "c = a div 36524"
  define b where "b = a mod 36524"
  define f where "f = b div 1461"
  define e where "e = b mod 1461"
  define i where "i = e div 365"
  define q where "q = e mod 365"
  have n: "n = 146097 * h + 36524 * c + 1461 * f + 365 * i + q"
    by (simp add: h_def a_def c_def b_def f_def e_def i_def q_def)
  have bounds: "a < 146097" "b < 36524" "e < 1461" "q < 365"
    by (simp_all add: a_def b_def e_def q_def)
  have abe: "a = 36524 * c + b" "b = 1461 * f + e" "e = 365 * i + q"
    by (simp_all add: c_def b_def f_def e_def i_def q_def)
  have cfi: "c \<le> 4" "f \<le> 24" "i \<le> 4" using bounds abe by linarith+
  have yr: "year_of_days n = (if i = 4 \<or> c = 4 then (h * 400 + c * 100 + f * 4 + i, 365)
      else (h * 400 + 1 + c * 100 + f * 4 + i, q))"
    by (simp add: year_of_days_def Let_def h_def a_def c_def b_def f_def e_def i_def q_def)
  consider (century) "c = 4" | (leap) "c \<le> 3" "i = 4" | (plain) "c \<le> 3" "i \<le> 3"
    using cfi by linarith
  then show ?thesis
  proof cases
    case century
    then have "f = 0" "i = 0" "q = 0" using bounds abe by linarith+
    with century yr assms have y: "y = h * 400 + 400" "r = 365" by auto
    have "days_before_year y = 146097 * h + 36524 * 3 + 1461 * 24 + 365 * 3"
      using year_parts [of 3 24 3 h] y by (simp add: add.commute)
    then show ?thesis using n y century \<open>f = 0\<close> \<open>i = 0\<close> \<open>q = 0\<close> leap_century [of h] by (simp add: year_days_def)
  next
    case leap
    then have "q = 0" "f \<le> 23" using bounds abe by linarith+
    with leap yr assms have y: "y = h * 400 + c * 100 + f * 4 + 4" "r = 365" by auto
    have "days_before_year y = 146097 * h + 36524 * c + 1461 * f + 365 * 3"
      using year_parts [of 3 f c h] y leap \<open>f \<le> 23\<close> by (simp add: add.commute)
    then show ?thesis using n y leap \<open>q = 0\<close> leap_day_year [OF \<open>f \<le> 23\<close>, of h c]
      by (simp add: year_days_def)
  next
    case plain
    with yr assms have y: "y = h * 400 + 1 + c * 100 + f * 4 + i" "r = q" by auto
    then show ?thesis using year_parts [of i f c h] plain cfi n bounds by (simp add: year_days_def)
  qed
qed

text \<open>
  The number of the day, from its date: the days of the years before, of the months before, and
  of the month up to it.
\<close>

definition day_number :: "nat \<Rightarrow> nat \<Rightarrow> nat \<Rightarrow> nat" where
  "day_number y m d = days_before_year y + sum_list (take (m - 1) (month_lengths (is_leap y))) + d - 1"

lemma ymd_of_days_correct:
  assumes "ymd_of_days n = (y, m, d)"
  shows "1 \<le> y \<and> 1 \<le> m \<and> m \<le> 12 \<and> 1 \<le> d \<and> d \<le> month_lengths (is_leap y) ! (m - 1)
    \<and> day_number y m d = n"
proof -
  obtain r where y: "year_of_days n = (y, r)" and md: "month_day (month_lengths (is_leap y)) r = (m, d)"
    using assms by (auto simp: ymd_of_days_def split: prod.splits)
  note yr = year_of_days_correct [OF y]
  have len: "length (month_lengths (is_leap y)) = 12" by (simp add: month_lengths_def)
  have "r < sum_list (month_lengths (is_leap y))" using yr by (simp add: sum_month_lengths)
  from month_day_range [OF this] md yr len show ?thesis by (auto simp: day_number_def)
qed

section \<open>What a validated field means\<close>

lemma check_bound_ok: "check_bound lo hi s = Inr () \<Longrightarrow> \<exists>v. py_int s = Some v \<and> lo \<le> v \<and> v \<le> hi"
  by (auto simp: check_bound_def split: if_splits option.splits)

lemma check_step_ok:
  "check_step ps = Inr () \<Longrightarrow> length ps \<le> 2 \<and> (length ps = 2 \<longrightarrow> (\<exists>v. py_int (ps ! 1) = Some v \<and> 0 < v))"
  by (auto simp: check_step_def Let_def py_int_isdigit split: if_splits option.splits)

lemma check_base_ok:
  assumes "check_base lo hi base = Inr ()" and "lo \<le> hi"
  shows "\<exists>a b. base_bounds lo hi base = Inr (a, b) \<and> lo \<le> a \<and> a \<le> hi \<and> lo \<le> b \<and> b \<le> hi"
proof (cases "base \<noteq> ''*'' \<and> CHR ''-'' \<in> set base")
  case True
  with assms have "length (split_on CHR ''-'' base) = 2"
    and ok: "for_each (check_bound lo hi) (split_on CHR ''-'' base) = Inr ()"
    by (auto simp: check_base_def Let_def split: if_splits)
  then obtain x y where xy: "split_on CHR ''-'' base = [x, y]"
    by (auto simp: numeral_2_eq_2 length_Suc_conv)
  with ok have "check_bound lo hi x = Inr ()" "check_bound lo hi y = Inr ()" by auto
  then obtain a b where "py_int x = Some a" "py_int y = Some b" "lo \<le> a" "a \<le> hi" "lo \<le> b" "b \<le> hi"
    using check_bound_ok by blast
  with True xy show ?thesis by (simp add: base_bounds_def cron_int_def)
next
  case False
  show ?thesis
  proof (cases "base = ''*''")
    case True
    with assms(2) show ?thesis by (simp add: base_bounds_def)
  next
    case nstar: False
    with False assms have "check_bound lo hi base = Inr ()" by (auto simp: check_base_def)
    from check_bound_ok [OF this] nstar False show ?thesis
      by (auto simp: base_bounds_def cron_int_def)
  qed
qed

lemma split_ws_from_nospace:
  "f \<in> set (split_ws_from acc s) \<Longrightarrow> \<forall>c \<in> set acc. \<not> is_space c \<Longrightarrow> \<forall>c \<in> set f. \<not> is_space c"
  by (induction acc s rule: split_ws_from.induct) (auto split: if_splits)

lemma split_ws_nospace: "f \<in> set (split_ws s) \<Longrightarrow> \<forall>c \<in> set f. \<not> is_space c"
  unfolding split_ws_def by (rule split_ws_from_nospace) auto

lemma py_range_set:
  assumes "0 < step"
  shows "\<exists>vs. py_range start stop step = Inr vs \<and> set vs = {v. start \<le> v \<and> v < stop \<and> step dvd (v - start)}"
proof -
  have "v \<in> (\<lambda>i. start + int i * step) ` {0..<nat ((stop - start + step - 1) div step)}
      \<longleftrightarrow> start \<le> v \<and> v < stop \<and> step dvd (v - start)" (is "?L \<longleftrightarrow> ?R") for v
  proof
    assume ?L
    then obtain i where i: "v = start + int i * step" "i < nat ((stop - start + step - 1) div step)"
      by (metis (no_types, lifting) atLeastLessThan_iff imageE)
    then have "int i + 1 \<le> (stop - start + step - 1) div step" by linarith
    then have "(int i + 1) * step \<le> (stop - start + step - 1) div step * step"
      using assms by (intro mult_right_mono) auto
    also have "\<dots> \<le> stop - start + step - 1"
      using pos_mod_sign [OF assms, of "stop - start + step - 1"] by (simp add: minus_mod_eq_div_mult [symmetric])
    finally have "(int i + 1) * step \<le> stop - start + step - 1" .
    then show ?R using i(1) assms by (auto simp: algebra_simps)
  next
    assume ?R
    then obtain k where k: "v = start + k * step" by (metis add.commute diff_add_cancel dvdE mult.commute)
    with \<open>?R\<close> assms have "0 \<le> k" "k * step < stop - start"
      by (auto simp: zero_le_mult_iff)
    then have "(k + 1) * step \<le> stop - start + step - 1" by (simp add: algebra_simps)
    then have "k + 1 \<le> (stop - start + step - 1) div step"
      using zdiv_mono1 [of "(k + 1) * step" "stop - start + step - 1" step] assms by simp
    with \<open>0 \<le> k\<close> k show ?L by (intro image_eqI [of _ _ "nat k"]) auto
  qed
  then show ?thesis using assms by (auto simp: py_range_def)
qed

text \<open>The values a part of a field stands for.\<close>

definition part_step :: "string \<Rightarrow> int" where
  "part_step part =
     (case split_on CHR ''/'' part of
        [_, s] \<Rightarrow> (case py_int s of Some v \<Rightarrow> v | None \<Rightarrow> 1)
      | _ \<Rightarrow> 1)"

definition part_values :: "int \<Rightarrow> int \<Rightarrow> string \<Rightarrow> int set" where
  "part_values lo hi part =
     (case base_bounds lo hi (hd (split_on CHR ''/'' part)) of
        Inr (a, b) \<Rightarrow> {v. lo \<le> v \<and> v \<le> hi \<and> a \<le> v \<and> v \<le> b \<and> part_step part dvd (v - a)}
      | Inl _ \<Rightarrow> {})"

lemma expand_part_validated:
  assumes "check_part lo hi part = Inr ()" and "lo \<le> hi" and "\<forall>c \<in> set part. \<not> is_space c"
  shows "\<exists>vs. expand_part lo hi part = Inr vs \<and> set vs = part_values lo hi part"
proof -
  have "strip part = part" using assms(3) by (rule strip_nonspace)
  with assms(1) have step: "check_step (split_on CHR ''/'' part) = Inr ()"
    and base: "check_base lo hi (hd (split_on CHR ''/'' part)) = Inr ()"
    by (auto simp: check_part_def Let_def split: if_splits)
  from check_base_ok [OF base assms(2)] obtain a b where
    ab: "base_bounds lo hi (hd (split_on CHR ''/'' part)) = Inr (a, b)" by blast
  have st: "(if length (split_on CHR ''/'' part) = 2 then cron_int (split_on CHR ''/'' part ! 1) else Inr 1)
      = Inr (part_step part) \<and> 0 < part_step part"
  proof (cases "length (split_on CHR ''/'' part) = 2")
    case True
    then obtain x y where xy: "split_on CHR ''/'' part = [x, y]"
      by (auto simp: numeral_2_eq_2 length_Suc_conv)
    with check_step_ok [OF step] show ?thesis by (auto simp: part_step_def cron_int_def)
  next
    case False
    then show ?thesis by (auto simp: part_step_def split: list.splits)
  qed
  with py_range_set [of "part_step part" a "b + 1"] ab show ?thesis
    by (auto simp: expand_part_def Let_def part_values_def)
qed

definition field_values :: "int \<times> int \<Rightarrow> string \<Rightarrow> int set" where
  "field_values bounds field =
     (\<Union>part \<in> set (split_on CHR '','' field). part_values (fst bounds) (snd bounds) part)"

lemma traverse_sets:
  "(\<And>x. x \<in> set xs \<Longrightarrow> \<exists>vs. f x = Inr vs \<and> set vs = g x) \<Longrightarrow>
     \<exists>vss. traverse f xs = Inr vss \<and> set (concat vss) = (\<Union>x \<in> set xs. g x)"
proof (induction xs)
  case (Cons x xs)
  then obtain vs vss where "f x = Inr vs" "set vs = g x" "traverse f xs = Inr vss"
    "set (concat vss) = (\<Union>x \<in> set xs. g x)" by force
  then show ?case by auto
qed simp

lemma expand_field_validated:
  assumes "validate_cron_field field bounds = Inr ()" and "fst bounds \<le> snd bounds"
    and "\<forall>c \<in> set field. \<not> is_space c"
  shows "expand_field field bounds = Inr (field_values bounds field)"
proof -
  obtain lo hi where b: "bounds = (lo, hi)" by fastforce
  have "\<exists>vss. traverse (expand_part lo hi) (split_on CHR '','' field) = Inr vss
      \<and> set (concat vss) = (\<Union>part \<in> set (split_on CHR '','' field). part_values lo hi part)"
  proof (rule traverse_sets)
    fix part assume part: "part \<in> set (split_on CHR '','' field)"
    then have "\<forall>c \<in> set part. \<not> is_space c" using set_split_on assms(3) by blast
    moreover have "check_part lo hi part = Inr ()"
      using assms(1) part b by (simp add: validate_cron_field_def for_each_ok_iff)
    ultimately show "\<exists>vs. expand_part lo hi part = Inr vs \<and> set vs = part_values lo hi part"
      using expand_part_validated assms(2) b by simp
  qed
  then show ?thesis by (auto simp: b expand_field_def field_values_def)
qed

section \<open>The search\<close>

lemma cron_loop_result:
  assumes "0 \<le> c" and "limit + minute_us \<le> dt_end"
  shows "\<exists>r. cron_loop cs c limit = Inr r \<and>
    (case r of
       None \<Rightarrow> \<forall>k. c + int k * minute_us < limit \<longrightarrow> \<not> cron_matches cs (c + int k * minute_us)
     | Some t \<Rightarrow> \<exists>k. t = c + int k * minute_us \<and> t < limit \<and> cron_matches cs t
         \<and> (\<forall>j<k. \<not> cron_matches cs (c + int j * minute_us)))"
  using assms
proof (induction cs c limit rule: cron_loop.induct)
  case (1 cs c limit)
  show ?case
  proof (cases "c < limit \<and> \<not> cron_matches cs c")
    case True
    then have next_ok: "dt_add c minute_us = Inr (c + minute_us)"
      using "1.prems" by (simp add: dt_add_def minute_us_def)
    with True have loop: "cron_loop cs c limit = cron_loop cs (c + minute_us) limit"
      by (simp add: cron_loop.simps [of cs c limit])
    from "1.IH" [OF _ _ next_ok] True "1.prems" obtain r where
      r: "cron_loop cs (c + minute_us) limit = Inr r"
      "case r of
       None \<Rightarrow> \<forall>k. c + minute_us + int k * minute_us < limit \<longrightarrow>
         \<not> cron_matches cs (c + minute_us + int k * minute_us)
     | Some t \<Rightarrow> \<exists>k. t = c + minute_us + int k * minute_us \<and> t < limit \<and> cron_matches cs t
         \<and> (\<forall>j<k. \<not> cron_matches cs (c + minute_us + int j * minute_us))"
      by (auto simp: minute_us_def)
    have shift: "c + minute_us + int k * minute_us = c + int (Suc k) * minute_us" for k
      by (simp add: algebra_simps)
    show ?thesis
    proof (cases r)
      case None
      then have "\<not> cron_matches cs (c + int k * minute_us)" if "c + int k * minute_us < limit" for k
        using r(2) True that unfolding shift by (cases k) auto
      then show ?thesis using loop r(1) None by auto
    next
      case (Some t)
      with r(2) obtain k where k: "t = c + int (Suc k) * minute_us" "t < limit" "cron_matches cs t"
        "\<forall>j<k. \<not> cron_matches cs (c + int (Suc j) * minute_us)" unfolding shift by auto
      have "\<not> cron_matches cs (c + int j * minute_us)" if "j < Suc k" for j
        using that k(4) True by (cases j) auto
      with k(1-3) have "\<exists>k. t = c + int k * minute_us \<and> t < limit \<and> cron_matches cs t
         \<and> (\<forall>j<k. \<not> cron_matches cs (c + int j * minute_us))"
        by (intro exI [of _ "Suc k"]) blast
      then show ?thesis using loop r(1) Some by simp
    qed
  next
    case False
    have "minute_us > 0" by (simp add: minute_us_def)
    then have "c \<le> c + int k * minute_us" for k by simp
    then have "\<not> c < limit \<Longrightarrow> \<not> c + int k * minute_us < limit" for k by (meson leD le_less_trans)
    with False show ?thesis
      by (cases "c < limit") (auto simp: cron_loop.simps [of cs c limit] intro!: exI [of _ "0 :: nat"])
  qed
qed

text \<open>The datetimes a five-field expression denotes: whole minutes, Sunday both 0 and 7.\<close>

definition cron_denotes :: "string \<Rightarrow> datetime \<Rightarrow> bool" where
  "cron_denotes expression t \<longleftrightarrow>
     (case split_ws (strip expression) of
        [mi, ho, da, mo, dw] \<Rightarrow>
          t mod minute_us = 0
          \<and> dt_minute t \<in> field_values (0, 59) mi \<and> dt_hour t \<in> field_values (0, 23) ho
          \<and> dt_day t \<in> field_values (1, 31) da \<and> dt_month t \<in> field_values (1, 12) mo
          \<and> (\<exists>d \<in> field_values (0, 7) dw. d mod 7 = (dt_weekday t + 1) mod 7)
      | _ \<Rightarrow> False)"

lemma part_values_range: "part_values lo hi p \<subseteq> {lo..hi}"
  by (cases "base_bounds lo hi (hd (split_on CHR ''/'' p))") (auto simp: part_values_def)

lemma field_values_range: "field_values (lo, hi) f \<subseteq> {lo..hi}"
  using part_values_range by (fastforce simp: field_values_def)

lemma dow_value:
  assumes "d \<in> {0..7 :: int}" and "w \<in> {0..6}"
  shows "(if d = 7 then 0 else d) \<in> {0..6} \<and>
    (w = ((if d = 7 then 0 else d) + 6) mod 7 \<longleftrightarrow> d mod 7 = (w + 1) mod 7)"
proof -
  from assms have "d \<in> {0, 1, 2, 3, 4, 5, 6, 7}" "w \<in> {0, 1, 2, 3, 4, 5, 6}"
    by (auto simp: atLeastAtMost_def)
  then show ?thesis by (elim insertE) simp_all
qed

lemma dow_conversion:
  assumes "D \<subseteq> {0..7}" and "w \<in> {0..6}"
  shows "w \<in> iso_to_cron_dow ((\<lambda>d. if d = 7 then 0 else d) ` D) \<longleftrightarrow> (\<exists>d \<in> D. d mod 7 = (w + 1) mod 7)"
proof -
  let ?f = "\<lambda>d :: int. if d = 7 then 0 else d"
  have "w \<in> iso_to_cron_dow (?f ` D) \<longleftrightarrow> (\<exists>d \<in> D. ?f d \<in> {0..6} \<and> w = (?f d + 6) mod 7)"
    unfolding iso_to_cron_dow_def by blast
  also have "\<dots> \<longleftrightarrow> (\<exists>d \<in> D. d mod 7 = (w + 1) mod 7)"
  proof (rule bex_cong [OF refl])
    fix d assume "d \<in> D"
    then have "d \<in> {0..7}" using assms(1) by blast
    from dow_value [OF this assms(2)]
    show "(?f d \<in> {0..6} \<and> w = (?f d + 6) mod 7) \<longleftrightarrow> d mod 7 = (w + 1) mod 7" by blast
  qed
  finally show ?thesis .
qed

lemma validated_fields:
  assumes "validate_cron_expression expression = Inr ()"
  obtains mi ho da mo dw where "split_ws (strip expression) = [mi, ho, da, mo, dw]"
    "expand_all [mi, ho, da, mo, dw] = Inr \<lparr> cs_minutes = field_values (0, 59) mi,
       cs_hours = field_values (0, 23) ho, cs_days = field_values (1, 31) da,
       cs_months = field_values (1, 12) mo,
       cs_dows = (\<lambda>d. if d = 7 then 0 else d) ` field_values (0, 7) dw \<rparr>"
proof -
  from assms have "length (split_ws (strip expression)) = 5"
    by (auto simp: validate_cron_expression_def Let_def split: if_splits)
  then obtain mi ho da mo dw where fs: "split_ws (strip expression) = [mi, ho, da, mo, dw]"
    by (auto simp: length_Suc_conv numeral_eq_Suc)
  have ns: "\<forall>c \<in> set f. \<not> is_space c" if "f \<in> {mi, ho, da, mo, dw}" for f
    using split_ws_nospace [of f "strip expression"] that fs by auto
  from assms fs have ok: "validate_cron_field mi (0, 59) = Inr ()" "validate_cron_field ho (0, 23) = Inr ()"
    "validate_cron_field da (1, 31) = Inr ()" "validate_cron_field mo (1, 12) = Inr ()"
    "validate_cron_field dw (0, 7) = Inr ()"
    by (auto simp: validate_cron_expression_def CRON_RANGES_def)
  have ex: "expand_field mi (0, 59) = Inr (field_values (0, 59) mi)"
    "expand_field ho (0, 23) = Inr (field_values (0, 23) ho)"
    "expand_field da (1, 31) = Inr (field_values (1, 31) da)"
    "expand_field mo (1, 12) = Inr (field_values (1, 12) mo)"
    "expand_field dw (0, 7) = Inr (field_values (0, 7) dw)"
    using expand_field_validated [OF ok(1) _ ns [of mi]] expand_field_validated [OF ok(2) _ ns [of ho]]
      expand_field_validated [OF ok(3) _ ns [of da]] expand_field_validated [OF ok(4) _ ns [of mo]]
      expand_field_validated [OF ok(5) _ ns [of dw]] by simp_all
  show ?thesis
  proof (rule that [OF fs])
    show "expand_all [mi, ho, da, mo, dw] = Inr \<lparr> cs_minutes = field_values (0, 59) mi,
       cs_hours = field_values (0, 23) ho, cs_days = field_values (1, 31) da,
       cs_months = field_values (1, 12) mo,
       cs_dows = (\<lambda>d. if d = 7 then 0 else d) ` field_values (0, 7) dw \<rparr>"
      by (simp add: expand_all_def ex)
  qed
qed

lemma denotes_matches:
  assumes "split_ws (strip expression) = [mi, ho, da, mo, dw]" and "t mod minute_us = 0"
  shows "cron_denotes expression t \<longleftrightarrow> cron_matches \<lparr> cs_minutes = field_values (0, 59) mi,
       cs_hours = field_values (0, 23) ho, cs_days = field_values (1, 31) da,
       cs_months = field_values (1, 12) mo,
       cs_dows = (\<lambda>d. if d = 7 then 0 else d) ` field_values (0, 7) dw \<rparr> t"
proof -
  have w: "dt_weekday t \<in> {0..6}" by (simp add: dt_weekday_def)
  show ?thesis
    using assms dow_conversion [OF field_values_range w]
    by (simp only: cron_denotes_def cron_matches_def cron_sets.simps list.case simp_thms conj_ac)
qed

text \<open>
  The contract of the search: the first of the whole minutes strictly after \<open>after\<close> and before
  \<open>after\<close> plus 366 days that the expression denotes.
\<close>

definition cron_candidate :: "string \<Rightarrow> datetime \<Rightarrow> datetime \<Rightarrow> bool" where
  "cron_candidate expression after t \<longleftrightarrow>
     after < t \<and> t < after + 366 * day_us \<and> cron_denotes expression t"

lemma next_minutes:
  "(\<exists>k. t = (after - after mod minute_us + minute_us) + int k * minute_us) \<longleftrightarrow>
     after < t \<and> t mod minute_us = 0" (is "?L \<longleftrightarrow> ?R")
proof
  have pos: "0 < minute_us" by (simp add: minute_us_def)
  assume ?L
  then obtain k where "t = (after - after mod minute_us + minute_us) + int k * minute_us" by blast
  then have t: "t = minute_us * (after div minute_us + 1 + int k)"
    by (simp add: minus_mod_eq_mult_div algebra_simps)
  then have "t mod minute_us = 0" by simp
  have "after < minute_us * (after div minute_us + 1)"
  proof -
    have "after = minute_us * (after div minute_us) + after mod minute_us" by simp
    then show ?thesis using pos_mod_bound [OF pos, of after] by (simp only: distrib_left mult_1_right)
  qed
  moreover have "minute_us * (after div minute_us + 1) \<le> t"
    unfolding t using pos by (intro mult_left_mono) auto
  ultimately have "after < t" by linarith
  with \<open>t mod minute_us = 0\<close> show ?R by simp
next
  have pos: "0 < minute_us" by (simp add: minute_us_def)
  assume ?R
  then obtain q where q: "t = minute_us * q" by auto
  have "minute_us * (after div minute_us) \<le> after"
    using pos_mod_sign [OF pos, of after] mult_div_mod_eq [of minute_us after] by linarith
  then have "minute_us * (after div minute_us) < minute_us * q" using \<open>?R\<close> q by linarith
  then have "after div minute_us + 1 \<le> q" using pos by simp
  then obtain k where "q = after div minute_us + 1 + int k" using zle_iff_zadd by blast
  with q show ?L by (intro exI [of _ k]) (simp add: minus_mod_eq_mult_div algebra_simps)
qed

lemma next_cron_fire_search:
  assumes "validate_cron_expression expression = Inr ()"
    and "0 \<le> after" and "after + 366 * day_us + minute_us \<le> dt_end"
  shows "\<exists>r. next_cron_fire expression after = Inr r \<and>
    (case r of
       None \<Rightarrow> \<forall>t. \<not> cron_candidate expression after t
     | Some t \<Rightarrow> cron_candidate expression after t \<and> (\<forall>t'<t. \<not> cron_candidate expression after t'))"
proof -
  obtain mi ho da mo dw where fs: "split_ws (strip expression) = [mi, ho, da, mo, dw]"
    and ex0: "expand_all [mi, ho, da, mo, dw] = Inr \<lparr> cs_minutes = field_values (0, 59) mi,
       cs_hours = field_values (0, 23) ho, cs_days = field_values (1, 31) da,
       cs_months = field_values (1, 12) mo,
       cs_dows = (\<lambda>d. if d = 7 then 0 else d) ` field_values (0, 7) dw \<rparr>"
    by (rule validated_fields [OF assms(1)])
  define cs where cs: "cs = \<lparr> cs_minutes = field_values (0, 59) mi,
       cs_hours = field_values (0, 23) ho, cs_days = field_values (1, 31) da,
       cs_months = field_values (1, 12) mo,
       cs_dows = (\<lambda>d. if d = 7 then 0 else d) ` field_values (0, 7) dw \<rparr>"
  have ex: "expand_all [mi, ho, da, mo, dw] = Inr cs" by (simp only: ex0 cs)
  have den: "cron_denotes expression t \<longleftrightarrow> t mod minute_us = 0 \<and> cron_matches cs t" for t
  proof (cases "t mod minute_us = 0")
    case True
    from denotes_matches [OF fs this] True show ?thesis unfolding cs by blast
  next
    case False
    then show ?thesis unfolding cron_denotes_def fs by simp
  qed
  let ?c = "after - after mod minute_us + minute_us" and ?l = "after + 366 * day_us"
  show ?thesis
  proof (cases "cs_minutes cs = {} \<or> cs_hours cs = {} \<or> cs_days cs = {} \<or> cs_months cs = {} \<or> cs_dows cs = {}")
    case True
    then have "\<not> cron_matches cs t" for t by (auto simp: cron_matches_def iso_to_cron_dow_def)
    then show ?thesis using True by (simp add: next_cron_fire_def fs ex den cron_candidate_def)
  next
    case False
    have pos: "0 < minute_us" "minute_us < 366 * day_us" by (simp_all add: minute_us_def day_us_def)
    have mod: "0 \<le> after mod minute_us" "after mod minute_us < minute_us" "after mod minute_us \<le> after"
      using pos(1) assms(2) by (simp_all add: zmod_le_nonneg_dividend)
    then have c: "0 \<le> ?c" using pos by linarith
    have "?c < dt_end" "?l < dt_end" "0 \<le> ?l" using mod pos assms(2,3) by linarith+
    with c have "dt_add (after - after mod minute_us) minute_us = Inr ?c"
      and "dt_add after (366 * day_us) = Inr ?l"
      by (simp_all only: dt_add_def simp_thms if_True)
    then have "next_cron_fire expression after = cron_loop cs ?c ?l"
      unfolding next_cron_fire_def fs Let_def using False
      by (simp only: ex rbind.simps if_False simp_thms) simp
    moreover from cron_loop_result [OF c assms(3), of cs] obtain r where
      r: "cron_loop cs ?c ?l = Inr r" "case r of
       None \<Rightarrow> \<forall>k. ?c + int k * minute_us < ?l \<longrightarrow> \<not> cron_matches cs (?c + int k * minute_us)
     | Some t \<Rightarrow> \<exists>k. t = ?c + int k * minute_us \<and> t < ?l \<and> cron_matches cs t
         \<and> (\<forall>j<k. \<not> cron_matches cs (?c + int j * minute_us))" by blast
    moreover have "case r of
       None \<Rightarrow> \<forall>t. \<not> cron_candidate expression after t
     | Some t \<Rightarrow> cron_candidate expression after t \<and> (\<forall>t'<t. \<not> cron_candidate expression after t')"
    proof (cases r)
      case None
      with r(2) have none: "\<not> cron_matches cs (?c + int k * minute_us)" if "?c + int k * minute_us < ?l" for k
        using that by simp
      have "\<not> cron_candidate expression after t" for t
        using none next_minutes [of t after] by (auto simp: cron_candidate_def den)
      with None show ?thesis by simp
    next
      case (Some t)
      with r(2) obtain k where k: "t = ?c + int k * minute_us" "t < ?l" "cron_matches cs t"
        "\<forall>j<k. \<not> cron_matches cs (?c + int j * minute_us)" by (simp only: option.case) blast
      have "\<not> cron_candidate expression after t'" if "t' < t" for t'
      proof
        assume cand: "cron_candidate expression after t'"
        then obtain j where j: "t' = ?c + int j * minute_us"
          using next_minutes [of t' after] by (auto simp: cron_candidate_def den)
        with that k(1) have "int j * minute_us < int k * minute_us" by simp
        then have "j < k" by (simp add: minute_us_def)
        with k(4) j cand show False by (simp add: cron_candidate_def den)
      qed
      moreover have "cron_candidate expression after t"
        using k next_minutes [of t after] by (auto simp: cron_candidate_def den)
      ultimately show ?thesis using Some by simp
    qed
    ultimately show ?thesis by simp
  qed
qed

section \<open>Properties\<close>

text \<open>
  C20. On a validated expression \<open>next_cron_fire\<close> never raises (before the year 9999) and is exact:
  it returns the first whole minute after \<open>after\<close> that the expression denotes, and None only
  if it denotes none within 366 days. What an expression denotes is read off its fields, not
  off the loop: a part \<open>a-b/s\<close> stands for the values from \<open>a\<close> to \<open>b\<close> in steps of \<open>s\<close>.
\<close>

theorem next_cron_fire_least:
  assumes "validate_cron_expression expression = Inr ()"
    and "0 \<le> after" and "after + 366 * day_us + minute_us \<le> dt_end"
  shows "\<exists>r. next_cron_fire expression after = Inr r \<and>
    (case r of
       None \<Rightarrow> \<forall>t. \<not> cron_candidate expression after t
     | Some t \<Rightarrow> cron_candidate expression after t \<and> (\<forall>t'<t. \<not> cron_candidate expression after t'))"
  by (rule next_cron_fire_search [OF assms])

lemma sample_cron_fields:
  "split_ws (strip ''*/15 * * * *'') = [''*/15'', ''*'', ''*'', ''*'', ''*'']"
  by (simp add: split_ws_def strip_def lstrip_def is_space_def)

lemma sample_cron_valid: "validate_cron_expression ''*/15 * * * *'' = Inr ()"
  unfolding validate_cron_expression_def sample_cron_fields
  by (simp add: CRON_RANGES_def validate_cron_field_def check_part_def check_step_def check_base_def
      strip_def lstrip_def is_space_def isdigit_def is_digit_def py_int_def int_of_body_def
      digits_val_def digit_val_def Let_def)

lemma sample_time_bound: "dt_end = 315537897600000000"
  by (simp add: dt_end_def days_before_year_def day_us_def)

lemma next_cron_fire_least_witness:
  "\<exists>r. next_cron_fire ''*/15 * * * *'' 0 = Inr r"
  using next_cron_fire_least [OF sample_cron_valid, of 0]
  by (auto simp: sample_time_bound day_us_def minute_us_def)

text \<open>
  A range whose bounds are reversed passes validation and denotes nothing: the schedule is
  accepted and never fires.
\<close>

lemma reversed_range_fields:
  "split_ws (strip ''5-1 * * * *'') = [''5-1'', ''*'', ''*'', ''*'', ''*'']"
  by (simp add: split_ws_def strip_def lstrip_def is_space_def)

lemma reversed_range_never_fires:
  "validate_cron_expression ''5-1 * * * *'' = Inr () \<and> \<not> cron_denotes ''5-1 * * * *'' t"
proof
  show "validate_cron_expression ''5-1 * * * *'' = Inr ()"
    unfolding validate_cron_expression_def reversed_range_fields
    by (simp add: CRON_RANGES_def validate_cron_field_def check_part_def check_step_def check_base_def
        check_bound_def strip_def lstrip_def is_space_def isdigit_def is_digit_def py_int_def
        int_of_body_def digits_val_def digit_val_def Let_def)
  have "base_bounds 0 59 ''5-1'' = Inr (5, 1)"
    by (simp add: base_bounds_def cron_int_def strip_def lstrip_def is_space_def is_digit_def py_int_def
        int_of_body_def digits_val_def digit_val_def Let_def)
  then have "field_values (0, 59) ''5-1'' = {}"
    by (simp add: field_values_def part_values_def)
  then show "\<not> cron_denotes ''5-1 * * * *'' t"
    by (simp add: cron_denotes_def reversed_range_fields)
qed

end
