(* ===== verification/WorkflowDag.thy ===== *)
theory WorkflowDag
  imports Prelude "HOL-Library.Char_ord" "HOL-Library.List_Lexorder"
begin

text \<open>
  Validation of workflow specifications and their data flow (\<^verbatim>\<open>domain/workflows.py\<close>): the
  topological sort with its in-degree table and queue, the predecessor sets, the checks of
  \<open>input_from\<close>, \<open>validate_workflow_dag\<close>, and the run-time resolution of inputs.

  A specification is the Python dict it arrives as. Identifiers of nodes are strings; a value of
  another type where a string, a list or a dict is expected is a \<open>SpecTypeError\<close>, and a missing
  required key is a \<open>SpecKeyError\<close>. The iteration order of the set of node ids is a parameter,
  \<open>listing\<close>, of which only a faithful enumeration is assumed.
\<close>

datatype dag_error =
    WorkflowSpecError string
  | WorkflowCycleError
  | DataFlowError string
  | SpecKeyError string
  | SpecTypeError

section \<open>Topological order\<close>

text \<open>\<open>adj[n]\<close> after the loop over the edges, and the in-degree table.\<close>

definition succs :: "('a \<times> 'a) list \<Rightarrow> 'a \<Rightarrow> 'a list" where
  "succs edges n = map snd (filter (\<lambda>e. fst e = n) edges)"

definition in_degrees :: "('a \<times> 'a) list \<Rightarrow> 'a \<Rightarrow> int" where
  "in_degrees edges = fold (\<lambda>e f. f(snd e := f (snd e) + 1)) edges (\<lambda>_. 0)"

text \<open>The inner loop over the neighbours: decrement, and enqueue at zero.\<close>

fun relax :: "'a list \<Rightarrow> ('a \<Rightarrow> int) \<Rightarrow> 'a list \<Rightarrow> ('a \<Rightarrow> int) \<times> 'a list" where
  "relax [] d q = (d, q)"
| "relax (m # ms) d q =
     (let d' = d(m := d m - 1) in relax ms d' (if d' m = 0 then q @ [m] else q))"

lemma relax_degree: "fst (relax ms d q) m = d m - int (count_list ms m)"
  by (induction ms arbitrary: d q) (auto simp: Let_def)

lemma relax_queue:
  "\<exists>R. snd (relax ms d q) = q @ R \<and> distinct R
     \<and> set R = {m \<in> set ms. 0 < d m \<and> d m \<le> int (count_list ms m)}"
proof (induction ms arbitrary: d q)
  case Nil
  then show ?case by simp
next
  case (Cons x ms)
  define d1 where "d1 = d(x := d x - 1)"
  define q1 where "q1 = (if d1 x = 0 then q @ [x] else q)"
  from Cons.IH [of d1 q1] obtain R where
    R: "snd (relax ms d1 q1) = q1 @ R" "distinct R"
      "set R = {m \<in> set ms. 0 < d1 m \<and> d1 m \<le> int (count_list ms m)}" by blast
  have eq: "snd (relax (x # ms) d q) = q1 @ R"
    using R(1) by (simp add: d1_def q1_def)
  have pos: "0 < count_list ms x \<longleftrightarrow> x \<in> set ms"
    by (metis count_list_0_iff gr0I less_irrefl)
  show ?case
  proof (cases "d x = 1")
    case True
    then have "q1 @ R = q @ (x # R)" "x \<notin> set R" by (simp_all add: q1_def d1_def R(3))
    moreover have "set (x # R) = {m \<in> set (x # ms). 0 < d m \<and> d m \<le> int (count_list (x # ms) m)}"
      using True by (auto simp: R(3) d1_def)
    ultimately show ?thesis using eq R(2) by (intro exI [of _ "x # R"]) simp
  next
    case False
    then have "q1 = q" by (simp add: q1_def d1_def)
    moreover have "set R = {m \<in> set (x # ms). 0 < d m \<and> d m \<le> int (count_list (x # ms) m)}"
      using False pos by (auto simp: R(3) d1_def)
    ultimately show ?thesis using eq R(2) by (intro exI [of _ R]) simp
  qed
qed

definition waiting :: "('a \<times> 'a) list \<Rightarrow> ('a \<Rightarrow> int) \<Rightarrow> nat" where
  "waiting edges d = card {m \<in> snd ` set edges. 0 < d m}"

lemma relax_measure:
  "length (snd (relax (succs edges n) d q)) + waiting edges (fst (relax (succs edges n) d q))
     \<le> length q + waiting edges d"
proof -
  let ?ms = "succs edges n" and ?d' = "fst (relax (succs edges n) d q)"
  from relax_queue [of ?ms d q] obtain R where R: "snd (relax ?ms d q) = q @ R" "distinct R"
    "set R = {m \<in> set ?ms. 0 < d m \<and> d m \<le> int (count_list ?ms m)}" by blast
  have sub: "set R \<subseteq> {m \<in> snd ` set edges. 0 < d m}"
    by (auto simp: R(3) succs_def)
  have "{m \<in> snd ` set edges. 0 < ?d' m} \<subseteq> {m \<in> snd ` set edges. 0 < d m} - set R"
    by (auto simp: relax_degree R(3))
  then have "waiting edges ?d' \<le> card ({m \<in> snd ` set edges. 0 < d m} - set R)"
    unfolding waiting_def by (intro card_mono) auto
  also have "\<dots> = waiting edges d - card (set R)"
    unfolding waiting_def using sub by (intro card_Diff_subset) auto
  finally have "waiting edges ?d' \<le> waiting edges d - length R"
    using R(2) by (simp add: distinct_card)
  moreover have "length R \<le> waiting edges d"
    unfolding waiting_def distinct_card [OF R(2), symmetric] using sub by (intro card_mono) auto
  ultimately show ?thesis using R(1) by simp
qed

text \<open>The \<open>while queue\<close> loop.\<close>

function kahn :: "('a \<times> 'a) list \<Rightarrow> ('a \<Rightarrow> int) \<Rightarrow> 'a list \<Rightarrow> 'a list \<Rightarrow> 'a list" where
  "kahn edges d [] order = order"
| "kahn edges d (n # q) order =
     kahn edges (fst (relax (succs edges n) d q)) (snd (relax (succs edges n) d q)) (order @ [n])"
  by pat_completeness auto
termination
  by (relation "measure (\<lambda>(edges, d, q, _). length q + waiting edges d)")
    (auto intro: le_less_trans [OF relax_measure])

definition topological_order :: "'a list \<Rightarrow> ('a \<times> 'a) list \<Rightarrow> dag_error + 'a list" where
  "topological_order nodes edges =
     (let d = in_degrees edges;
          order = kahn edges d (filter (\<lambda>n. d n = 0) nodes) []
      in if length order \<noteq> length nodes then Inl WorkflowCycleError else Inr order)"

subsection \<open>Correctness\<close>

text \<open>Edges into \<open>m\<close> whose source has not been emitted.\<close>

definition pending :: "('a \<times> 'a) list \<Rightarrow> 'a set \<Rightarrow> 'a \<Rightarrow> nat" where
  "pending edges done m = length (filter (\<lambda>e. snd e = m \<and> fst e \<notin> done) edges)"

lemma in_degrees_pending: "in_degrees edges m = int (pending edges {} m)"
proof -
  have "fold (\<lambda>e f. f(snd e := f (snd e) + 1)) edges f m
      = f m + int (length (filter (\<lambda>e. snd e = m) edges))" for f :: "'a \<Rightarrow> int"
    by (induction edges arbitrary: f) auto
  then show ?thesis by (simp add: in_degrees_def pending_def)
qed

lemma count_succs: "count_list (succs edges n) m = length (filter (\<lambda>e. snd e = m \<and> fst e = n) edges)"
  by (induction edges) (auto simp: succs_def)

lemma pending_insert:
  "n \<notin> done \<Longrightarrow> pending edges done m = pending edges (insert n done) m + count_list (succs edges n) m"
  unfolding count_succs pending_def by (induction edges) auto

lemma pending_zero: "pending edges done m = 0 \<longleftrightarrow> (\<forall>e \<in> set edges. snd e = m \<longrightarrow> fst e \<in> done)"
  by (auto simp: pending_def filter_empty_conv)

text \<open>An order in which every edge into an element comes from an earlier one.\<close>

definition topo_sorted :: "('a \<times> 'a) list \<Rightarrow> 'a list \<Rightarrow> bool" where
  "topo_sorted edges order \<longleftrightarrow>
     (\<forall>i < length order. \<forall>s. (s, order ! i) \<in> set edges \<longrightarrow> s \<in> set (take i order))"

lemma topo_sorted_snoc:
  "topo_sorted edges (order @ [n]) \<longleftrightarrow>
     topo_sorted edges order \<and> (\<forall>s. (s, n) \<in> set edges \<longrightarrow> s \<in> set order)"
  by (auto simp: topo_sorted_def nth_append less_Suc_eq)

definition kahn_inv :: "'a set \<Rightarrow> ('a \<times> 'a) list \<Rightarrow> ('a \<Rightarrow> int) \<Rightarrow> 'a list \<Rightarrow> 'a list \<Rightarrow> bool" where
  "kahn_inv N edges d q order \<longleftrightarrow>
     distinct (order @ q) \<and> set (order @ q) \<subseteq> N
     \<and> (\<forall>m. d m = int (pending edges (set order) m))
     \<and> (\<forall>m \<in> N. d m = 0 \<longleftrightarrow> m \<in> set (order @ q))
     \<and> topo_sorted edges order"

lemma kahn_step_inv:
  assumes inv: "kahn_inv N edges d (n # q) order" and edges: "snd ` set edges \<subseteq> N"
  shows "kahn_inv N edges (fst (relax (succs edges n) d q)) (snd (relax (succs edges n) d q)) (order @ [n])"
proof -
  let ?ms = "succs edges n" and ?d' = "fst (relax (succs edges n) d q)"
  from relax_queue [of ?ms d q] obtain R where R: "snd (relax ?ms d q) = q @ R" "distinct R"
    "set R = {m \<in> set ?ms. 0 < d m \<and> d m \<le> int (count_list ?ms m)}" by blast
  have n: "n \<notin> set order" "n \<in> N" and deg: "\<And>m. d m = int (pending edges (set order) m)"
    and zero: "\<And>m. m \<in> N \<Longrightarrow> d m = 0 \<longleftrightarrow> m \<in> set (order @ n # q)"
    using inv by (auto simp: kahn_inv_def)
  have deg': "?d' m = int (pending edges (insert n (set order)) m)" for m
    using deg [of m] pending_insert [OF n(1), of edges m] by (simp add: relax_degree)
  have msN: "set ?ms \<subseteq> N" using edges by (auto simp: succs_def)
  have setR: "set R = {m \<in> set ?ms. ?d' m = 0}"
  proof -
    have "0 < d m \<and> d m \<le> int (count_list ?ms m) \<longleftrightarrow> ?d' m = 0" if "m \<in> set ?ms" for m
    proof -
      have "0 < count_list ?ms m" using that by (metis count_list_0_iff gr0I)
      then show ?thesis using deg [of m] pending_insert [OF n(1), of edges m] by (simp add: relax_degree)
    qed
    then show ?thesis using R(3) by auto
  qed
  have old: "set R \<inter> set (order @ n # q) = {}"
    using R(3) zero msN by fastforce
  have new_zero: "?d' m = 0 \<longleftrightarrow> m \<in> set ((order @ [n]) @ q @ R)" if m: "m \<in> N" for m
  proof (cases "d m = 0")
    case True
    then have "?d' m = 0" using deg [of m] deg' [of m] pending_insert [OF n(1), of edges m] by simp
    then show ?thesis using True zero [OF m] by auto
  next
    case False
    have "?d' m = 0 \<Longrightarrow> m \<in> set ?ms"
      using False count_list_0_iff [of ?ms m] by (fastforce simp: relax_degree)
    then show ?thesis using False zero [OF m] setR by auto
  qed
  have "\<forall>s. (s, n) \<in> set edges \<longrightarrow> s \<in> set order"
    using zero [OF n(2)] deg [of n] by (fastforce simp: pending_zero)
  then show ?thesis
    using inv R(1,2) old msN setR deg' new_zero
    by (auto simp: kahn_inv_def topo_sorted_snoc)
qed

lemma kahn_final:
  "kahn_inv N edges d q order \<Longrightarrow> snd ` set edges \<subseteq> N \<Longrightarrow>
     \<exists>d'. kahn_inv N edges d' [] (kahn edges d q order)"
proof (induction edges d q order rule: kahn.induct)
  case (2 edges d n q order)
  from kahn_step_inv [OF "2.prems"] "2.IH" "2.prems"(2) show ?case by auto
qed auto

lemma kahn_inv_init:
  "distinct nodes \<Longrightarrow> kahn_inv (set nodes) edges (in_degrees edges)
     (filter (\<lambda>n. in_degrees edges n = 0) nodes) []"
  by (auto simp: kahn_inv_def in_degrees_pending topo_sorted_def)

lemma topo_sorted_acyclic:
  assumes sorted: "topo_sorted edges order" and dist: "distinct order" and all: "snd ` set edges \<subseteq> set order"
  shows "acyclic (set edges)"
proof -
  define pos where "pos x = (THE i. i < length order \<and> order ! i = x)" for x
  have pos: "pos (order ! i) = i" if "i < length order" for i
    unfolding pos_def using that dist by (auto simp: nth_eq_iff_index_eq)
  have "set edges \<subseteq> measure pos"
  proof clarify
    fix s t assume e: "(s, t) \<in> set edges"
    then have "t \<in> set order" using all by force
    then obtain i where i: "i < length order" "order ! i = t" by (auto simp: in_set_conv_nth)
    with e sorted have "s \<in> set (take i order)" by (auto simp: topo_sorted_def)
    then obtain j where "j < i" "order ! j = s" by (auto simp: in_set_conv_nth)
    with i pos show "(s, t) \<in> measure pos" by auto
  qed
  then show ?thesis by (rule acyclic_subset [OF wf_acyclic [OF wf_measure]])
qed

text \<open>Emitted is everything if and only if there is no cycle.\<close>

lemma kahn_complete:
  assumes fin: "kahn_inv (set nodes) edges d [] order" and edges: "fst ` set edges \<union> snd ` set edges \<subseteq> set nodes"
  shows "set order = set nodes \<longleftrightarrow> acyclic (set edges)"
proof
  assume "set order = set nodes"
  with fin edges show "acyclic (set edges)"
    by (intro topo_sorted_acyclic [of edges order]) (auto simp: kahn_inv_def)
next
  assume acyc: "acyclic (set edges)"
  show "set order = set nodes"
  proof (rule ccontr)
    assume "set order \<noteq> set nodes"
    then have "set nodes - set order \<noteq> {}" using fin by (auto simp: kahn_inv_def)
    moreover have "wf (set edges)" using acyc by (simp add: finite_acyclic_wf)
    ultimately obtain m where m: "m \<in> set nodes - set order"
      and least: "\<And>s. (s, m) \<in> set edges \<Longrightarrow> s \<notin> set nodes - set order"
      by (metis wfE_min')
    then have "\<forall>e \<in> set edges. snd e = m \<longrightarrow> fst e \<in> set order" using edges by fastforce
    then have "pending edges (set order) m = 0" by (simp add: pending_zero)
    with fin m show False by (auto simp: kahn_inv_def)
  qed
qed

lemma topological_order_cases:
  assumes "distinct nodes" and "fst ` set edges \<union> snd ` set edges \<subseteq> set nodes"
  shows "case topological_order nodes edges of
      Inl e \<Rightarrow> e = WorkflowCycleError \<and> \<not> acyclic (set edges)
    | Inr order \<Rightarrow> acyclic (set edges) \<and> distinct order \<and> set order = set nodes \<and> topo_sorted edges order"
proof -
  define order where "order = kahn edges (in_degrees edges) (filter (\<lambda>n. in_degrees edges n = 0) nodes) []"
  have "snd ` set edges \<subseteq> set nodes" using assms(2) by simp
  from kahn_final [OF kahn_inv_init [OF assms(1), of edges] this] obtain d where
    fin: "kahn_inv (set nodes) edges d [] order" unfolding order_def by blast
  then have facts: "distinct order" "set order \<subseteq> set nodes" "topo_sorted edges order"
    by (auto simp: kahn_inv_def)
  have "length order = length nodes \<longleftrightarrow> set order = set nodes"
    using facts(1,2) assms(1) by (metis card_subset_eq distinct_card finite_set)
  then show ?thesis
    using kahn_complete [OF fin assms(2)] facts by (simp add: topological_order_def Let_def flip: order_def)
qed

section \<open>Reading a specification\<close>

text \<open>
  \<open>spec.get(k, [])\<close>, iterated: an empty string or dict iterates like an empty list, the elements
  of a non-empty one are strings, on which the subscript that follows raises.
\<close>

definition spec_list :: "(string \<times> pyval) list \<Rightarrow> string \<Rightarrow> dag_error + pyval list" where
  "spec_list spec k =
     (case map_of spec k of
        None \<Rightarrow> Inr []
      | Some (PList xs) \<Rightarrow> Inr xs
      | Some (PStr []) \<Rightarrow> Inr []
      | Some (PDict []) \<Rightarrow> Inr []
      | Some _ \<Rightarrow> Inl SpecTypeError)"

fun as_dict :: "pyval \<Rightarrow> dag_error + (string \<times> pyval) list" where
  "as_dict (PDict d) = Inr d"
| "as_dict _ = Inl SpecTypeError"

definition req_str :: "(string \<times> pyval) list \<Rightarrow> string \<Rightarrow> dag_error + string" where
  "req_str d k =
     (case map_of d k of
        None \<Rightarrow> Inl (SpecKeyError k)
      | Some (PStr s) \<Rightarrow> Inr s
      | Some _ \<Rightarrow> Inl SpecTypeError)"

definition read_node :: "pyval \<Rightarrow> dag_error + string \<times> pyval" where
  "read_node v = rbind (as_dict v) (\<lambda>d. rbind (req_str d ''id'') (\<lambda>i. Inr (i, get_none d ''input_from'')))"

text \<open>The body of the loop over the edges, with its two membership checks.\<close>

definition read_edge :: "string set \<Rightarrow> pyval \<Rightarrow> dag_error + string \<times> string" where
  "read_edge node_ids v =
     rbind (as_dict v) (\<lambda>d. rbind (req_str d ''from'') (\<lambda>src. rbind (req_str d ''to'') (\<lambda>dst.
       if src \<notin> node_ids then Inl (WorkflowSpecError src)
       else if dst \<notin> node_ids then Inl (WorkflowSpecError dst)
       else Inr (src, dst))))"

text \<open>The loop that fills \<open>predecessors\<close>, one edge at a time in the order of the list.\<close>

definition add_predecessor :: "'a \<times> 'a \<Rightarrow> ('a \<Rightarrow> 'a set) \<Rightarrow> 'a \<Rightarrow> 'a set" where
  "add_predecessor e preds =
     (let p1 = preds(snd e := insert (fst e) (preds (snd e)))
      in p1(snd e := p1 (snd e) \<union> p1 (fst e)))"

definition predecessors :: "('a \<times> 'a) list \<Rightarrow> 'a \<Rightarrow> 'a set" where
  "predecessors edges = fold add_predecessor edges (\<lambda>_. {})"

definition check_upstream :: "string set \<Rightarrow> string set \<Rightarrow> string \<Rightarrow> string \<Rightarrow> dag_error + unit" where
  "check_upstream node_ids preds node_id upstream =
     (if upstream \<notin> node_ids then Inl (DataFlowError node_id)
      else if upstream \<notin> preds then Inl (DataFlowError node_id)
      else Inr ())"

definition upstream_of :: "string \<Rightarrow> string" where
  "upstream_of source_path = hd (split_on CHR ''.'' source_path)"

definition check_input_item ::
  "string set \<Rightarrow> string set \<Rightarrow> string \<Rightarrow> string \<times> pyval \<Rightarrow> dag_error + unit" where
  "check_input_item node_ids preds node_id item =
     (case item of (key, source_path) \<Rightarrow>
        if key = [] then Inl (DataFlowError node_id)
        else
          (case source_path of
             PStr path \<Rightarrow>
               if path = [] then Inl (DataFlowError node_id)
               else check_upstream node_ids preds node_id (upstream_of path)
           | _ \<Rightarrow> Inl (DataFlowError node_id)))"

fun validate_input_from :: "string set \<Rightarrow> string set \<Rightarrow> string \<Rightarrow> pyval \<Rightarrow> dag_error + unit" where
  "validate_input_from node_ids preds node_id (PStr upstream) = check_upstream node_ids preds node_id upstream"
| "validate_input_from node_ids preds node_id (PDict items) =
     for_each (check_input_item node_ids preds node_id) items"
| "validate_input_from node_ids preds node_id _ = Inl (DataFlowError node_id)"

definition check_node :: "string set \<Rightarrow> (string \<Rightarrow> string set) \<Rightarrow> string \<times> pyval \<Rightarrow> dag_error + unit" where
  "check_node node_ids preds n =
     (case n of (node_id, input_from) \<Rightarrow>
        if input_from = PNone then Inr ()
        else validate_input_from node_ids (preds node_id) node_id input_from)"

definition validate_workflow_dag ::
  "(string set \<Rightarrow> string list) \<Rightarrow> (string \<times> pyval) list \<Rightarrow> dag_error + unit" where
  "validate_workflow_dag listing spec =
     rbind (spec_list spec ''nodes'') (\<lambda>raw_nodes.
     rbind (traverse read_node raw_nodes) (\<lambda>nodes.
     rbind (spec_list spec ''edges'') (\<lambda>raw_edges.
     let node_ids = set (map fst nodes)
     in rbind (traverse (read_edge node_ids) raw_edges) (\<lambda>edge_pairs.
        rbind (topological_order (listing node_ids) edge_pairs) (\<lambda>_.
          for_each (check_node node_ids (predecessors edge_pairs)) nodes)))))"

text \<open>\<open>validate_data_flow\<close> is an alias.\<close>

definition validate_data_flow ::
  "(string set \<Rightarrow> string list) \<Rightarrow> (string \<times> pyval) list \<Rightarrow> dag_error + unit" where
  "validate_data_flow = validate_workflow_dag"

section \<open>Resolving inputs at run time\<close>

text \<open>The loop over the path segments, with its \<open>break\<close>.\<close>

fun walk_path :: "pyval \<Rightarrow> string list \<Rightarrow> pyval" where
  "walk_path v [] = v"
| "walk_path (PDict d) (seg # segs) = walk_path (get_none d seg) segs"
| "walk_path v (seg # segs) = PNone"

definition source_value :: "(string \<times> pyval) list \<Rightarrow> string \<Rightarrow> pyval" where
  "source_value results source_path =
     (let parts = split_on CHR ''.'' source_path
      in walk_path (get_none results (hd parts)) (tl parts))"

datatype input_from = FromNode string | FromPaths "(string \<times> string) list"

fun resolve_node_inputs :: "input_from \<Rightarrow> (string \<times> pyval) list \<Rightarrow> (string \<times> pyval) list" where
  "resolve_node_inputs (FromNode upstream) results =
     (case get_none results upstream of
        PDict d \<Rightarrow> d
      | v \<Rightarrow> [(''_result'', v)])"
| "resolve_node_inputs (FromPaths items) results =
     fold (\<lambda>(key, source_path) resolved. AList.update key (source_value results source_path) resolved) items []"

section \<open>What a validated specification guarantees\<close>

lemma add_predecessor_apply:
  "add_predecessor e preds x =
     (if x = snd e then insert (fst e) (preds (snd e)) \<union> (if fst e = snd e then {} else preds (fst e))
      else preds x)"
  by (auto simp: add_predecessor_def Let_def)

text \<open>Soundness of the predecessor sets, in any order of the edges.\<close>

lemma fold_predecessors_sound:
  assumes "\<And>x y. x \<in> p y \<Longrightarrow> (x, y) \<in> R\<^sup>+" and "set edges \<subseteq> R"
    and "s \<in> fold add_predecessor edges p t"
  shows "(s, t) \<in> R\<^sup>+"
  using assms
proof (induction edges arbitrary: p)
  case (Cons e edges)
  obtain a b where ab: "e = (a, b)" by (cases e)
  then have e: "(a, b) \<in> R" using Cons.prems(2) by auto
  have "(x, y) \<in> R\<^sup>+" if x: "x \<in> add_predecessor e p y" for x y
  proof -
    consider "x \<in> p y" | "y = b" "x = a" | "y = b" "x \<in> p a"
      using x by (auto simp: add_predecessor_apply ab split: if_splits)
    then show ?thesis
      using e Cons.prems(1) by cases (auto intro: trancl_into_trancl)
  qed
  then show ?case using Cons.IH [of "add_predecessor e p"] Cons.prems(2,3) by simp
qed simp

lemma predecessors_sound: "s \<in> predecessors edges t \<Longrightarrow> (s, t) \<in> (set edges)\<^sup>+"
  unfolding predecessors_def by (rule fold_predecessors_sound [of "\<lambda>_. {}"]) auto

text \<open>Every upstream node that an accepted declaration names is a known transitive predecessor.\<close>

fun upstreams :: "pyval \<Rightarrow> string set" where
  "upstreams (PStr u) = {u}"
| "upstreams (PDict items) = {upstream_of p | k p. (k, PStr p) \<in> set items}"
| "upstreams _ = {}"

lemma validate_input_from_sound:
  "validate_input_from node_ids preds node_id v = Inr () \<Longrightarrow> u \<in> upstreams v \<Longrightarrow> u \<in> node_ids \<inter> preds"
proof (cases v)
  case (PDict items)
  assume ok: "validate_input_from node_ids preds node_id v = Inr ()" and "u \<in> upstreams v"
  then obtain k p where "(k, PStr p) \<in> set items" "u = upstream_of p" using PDict by auto
  moreover have "check_input_item node_ids preds node_id (k, PStr p) = Inr ()"
    using ok PDict calculation(1) by (auto simp: for_each_ok_iff)
  ultimately show ?thesis by (auto simp: check_input_item_def check_upstream_def split: if_splits)
qed (auto simp: check_upstream_def split: if_splits)

definition valid_listing :: "(string set \<Rightarrow> string list) \<Rightarrow> bool" where
  "valid_listing listing \<longleftrightarrow> (\<forall>S. finite S \<longrightarrow> distinct (listing S) \<and> set (listing S) = S)"

definition spec_nodes :: "(string \<times> pyval) list \<Rightarrow> (string \<times> pyval) list" where
  "spec_nodes spec =
     (case rbind (spec_list spec ''nodes'') (traverse read_node) of Inr nodes \<Rightarrow> nodes | Inl _ \<Rightarrow> [])"

definition spec_edges :: "(string \<times> pyval) list \<Rightarrow> (string \<times> string) list" where
  "spec_edges spec =
     (case rbind (spec_list spec ''edges'') (traverse (read_edge (fst ` set (spec_nodes spec)))) of
        Inr edges \<Rightarrow> edges | Inl _ \<Rightarrow> [])"

lemma read_edge_ends: "read_edge N v = Inr e \<Longrightarrow> fst e \<in> N \<and> snd e \<in> N"
  by (auto simp: read_edge_def split: if_splits)

lemma traverse_read_edge_ends:
  assumes "traverse (read_edge N) vs = Inr es" shows "fst ` set es \<union> snd ` set es \<subseteq> N"
proof -
  from assms have "list_all2 (\<lambda>v e. read_edge N v = Inr e) vs es" by (simp add: traverse_Inr)
  then show ?thesis
    by (induction rule: list_all2_induct) (auto dest: read_edge_ends)
qed

lemma validate_ok_unfold:
  assumes "validate_workflow_dag listing spec = Inr ()"
  shows "is_ok (topological_order (listing (fst ` set (spec_nodes spec))) (spec_edges spec))"
    and "\<forall>n \<in> set (spec_nodes spec).
      check_node (fst ` set (spec_nodes spec)) (predecessors (spec_edges spec)) n = Inr ()"
    and "fst ` set (spec_edges spec) \<union> snd ` set (spec_edges spec) \<subseteq> fst ` set (spec_nodes spec)"
proof -
  from assms obtain rn re nodes edges order where
    r: "spec_list spec ''nodes'' = Inr rn" "spec_list spec ''edges'' = Inr re"
      "traverse read_node rn = Inr nodes" "traverse (read_edge (fst ` set nodes)) re = Inr edges"
      "topological_order (listing (fst ` set nodes)) edges = Inr order"
      "for_each (check_node (fst ` set nodes) (predecessors edges)) nodes = Inr ()"
    by (auto simp: validate_workflow_dag_def Let_def)
  then have n: "spec_nodes spec = nodes" by (simp add: spec_nodes_def)
  with r have e: "spec_edges spec = edges" by (simp add: spec_edges_def)
  show "is_ok (topological_order (listing (fst ` set (spec_nodes spec))) (spec_edges spec))"
    using r n e by simp
  show "\<forall>n \<in> set (spec_nodes spec).
      check_node (fst ` set (spec_nodes spec)) (predecessors (spec_edges spec)) n = Inr ()"
    using r n e by (simp add: for_each_ok_iff)
  show "fst ` set (spec_edges spec) \<union> snd ` set (spec_edges spec) \<subseteq> fst ` set (spec_nodes spec)"
    using traverse_read_edge_ends [OF r(4)] n e by simp
qed

lemma topo_sorted_trancl:
  assumes "topo_sorted edges order" and "(s, t) \<in> (set edges)\<^sup>+" and "i < length order" and "order ! i = t"
  shows "s \<in> set (take i order)"
  using assms(2-)
proof (induction arbitrary: i rule: trancl_induct)
  case (base t)
  then show ?case using assms(1) by (auto simp: topo_sorted_def)
next
  case (step t u)
  then have "t \<in> set (take i order)" using assms(1) by (auto simp: topo_sorted_def)
  then obtain j where j: "j < i" "j < length order" "order ! j = t"
    by (auto simp: in_set_conv_nth)
  with step.IH have "s \<in> set (take j order)" by blast
  then show ?case using set_take_subset_set_take [of j i order] j(1) by auto
qed

section \<open>Properties\<close>

text \<open>
  C39. Kahn's algorithm in \<open>topological_order\<close>, on any graph whose edges join listed nodes:
  it raises the cycle error exactly when the edges have a cycle, and otherwise returns every
  node exactly once, each after all the sources of its edges.
\<close>

theorem topological_order_exact:
  assumes "distinct nodes" and "fst ` set edges \<union> snd ` set edges \<subseteq> set nodes"
  shows "topological_order nodes edges =
      (if acyclic (set edges) then Inr (projr (topological_order nodes edges)) else Inl WorkflowCycleError)
    \<and> (acyclic (set edges) \<longrightarrow>
        distinct (projr (topological_order nodes edges))
        \<and> set (projr (topological_order nodes edges)) = set nodes
        \<and> topo_sorted edges (projr (topological_order nodes edges)))"
  using topological_order_cases [OF assms] by (auto split: sum.splits)

lemma topological_order_exact_witness:
  "topological_order [1, 2, 3 :: int] [(3, 1), (1, 2), (3, 2)] = Inr [3, 1, 2]
   \<and> (acyclic (set [(3, 1), (1, 2), (3, 2)] :: (int \<times> int) set))"
proof -
  have eq: "topological_order [1, 2, 3 :: int] [(3, 1), (1, 2), (3, 2)] = Inr [3, 1, 2]"
    by (simp add: topological_order_def in_degrees_def succs_def Let_def)
  show ?thesis
    using topological_order_exact [of "[1, 2, 3 :: int]" "[(3, 1), (1, 2), (3, 2)]"] eq
    by (auto split: if_splits)
qed

text \<open>
  C21. A specification that \<open>validate_workflow_dag\<close> accepts has acyclic edges between its own
  nodes, and every upstream node that an \<open>input_from\<close> names is a node of the specification and a
  strict transitive predecessor of the reader: whatever topological order a run follows, the
  upstream node has run before.
\<close>

theorem validated_inputs_ready:
  assumes "valid_listing listing" and "validate_workflow_dag listing spec = Inr ()"
    and "(n, v) \<in> set (spec_nodes spec)" and "u \<in> upstreams v"
    and "topo_sorted (spec_edges spec) order" and "i < length order" and "order ! i = n"
  shows "acyclic (set (spec_edges spec)) \<and> u \<in> fst ` set (spec_nodes spec)
    \<and> (u, n) \<in> (set (spec_edges spec))\<^sup>+ \<and> u \<in> set (take i order)"
proof -
  let ?N = "fst ` set (spec_nodes spec)" and ?E = "spec_edges spec"
  note ok = validate_ok_unfold [OF assms(2)]
  from assms(1) have "distinct (listing ?N)" "set (listing ?N) = ?N" by (auto simp: valid_listing_def)
  with ok(1,3) have acyc: "acyclic (set ?E)"
    using topological_order_cases [of "listing ?N" ?E] by (auto simp: is_ok_iff)
  from ok(2) assms(3) have "check_node ?N (predecessors ?E) (n, v) = Inr ()" by blast
  with assms(4) have "u \<in> ?N \<inter> predecessors ?E n"
    by (cases "v = PNone") (auto simp: check_node_def dest: validate_input_from_sound)
  then have "u \<in> ?N" "(u, n) \<in> (set ?E)\<^sup>+" by (auto dest: predecessors_sound)
  with acyc topo_sorted_trancl [OF assms(5) _ assms(6,7)] show ?thesis by blast
qed

definition sample_spec :: "(string \<times> pyval) list" where
  "sample_spec =
     [(''nodes'', PList
        [PDict [(''id'', PStr ''a'')], PDict [(''id'', PStr ''b''), (''input_from'', PStr ''a'')]]),
      (''edges'', PList [PDict [(''from'', PStr ''a''), (''to'', PStr ''b'')]])]"

text \<open>One enumeration of the sets: sorted.\<close>

definition sorted_listing :: "string set \<Rightarrow> string list" where
  "sorted_listing S = sorted_list_of_set S"

lemma valid_sorted_listing: "valid_listing sorted_listing"
  by (simp add: valid_listing_def sorted_listing_def)

lemma sorted_listing_samples:
  "sorted_listing {''a'', ''b''} = [''a'', ''b'']"
  "sorted_listing {''a'', ''b'', ''c''} = [''a'', ''b'', ''c'']"
  by (simp_all add: sorted_listing_def less_char_def)

lemma sample_spec_parts:
  "spec_nodes sample_spec = [(''a'', PNone), (''b'', PStr ''a'')]"
  "spec_edges sample_spec = [(''a'', ''b'')]"
  by (simp_all add: spec_nodes_def spec_edges_def sample_spec_def spec_list_def read_node_def
      read_edge_def req_str_def get_none_def)

lemma sample_spec_valid: "validate_workflow_dag sorted_listing sample_spec = Inr ()"
  by (simp add: validate_workflow_dag_def sample_spec_def spec_list_def read_node_def
      read_edge_def req_str_def get_none_def topological_order_def in_degrees_def succs_def Let_def
      check_node_def check_upstream_def predecessors_def add_predecessor_def sorted_listing_samples)

lemma validated_inputs_ready_witness:
  "acyclic (set (spec_edges sample_spec)) \<and> ''a'' \<in> set (take 1 [''a'', ''b''])"
proof -
  have "topo_sorted (spec_edges sample_spec) [''a'', ''b'']"
    by (auto simp: sample_spec_parts topo_sorted_def less_Suc_eq)
  then show ?thesis
    using validated_inputs_ready [OF valid_sorted_listing sample_spec_valid,
        of "''b''" "PStr ''a''" "''a''" "[''a'', ''b'']" 1]
    by (simp add: sample_spec_parts)
qed

text \<open>
  The predecessor sets follow the order of the edge list: an edge that comes before the edges
  that lead to its source misses their sources.
\<close>

lemma predecessors_miss_late_edges:
  "predecessors [(''b'', ''c''), (''a'', ''b'')] ''c'' = {''b''}"
  "predecessors [(''a'', ''b''), (''b'', ''c'')] ''c'' = {''a'', ''b''}"
  by (auto simp: predecessors_def add_predecessor_def Let_def)

definition late_edge_spec :: "(string \<times> string) list \<Rightarrow> (string \<times> pyval) list" where
  "late_edge_spec edges =
     [(''nodes'', PList [PDict [(''id'', PStr ''a'')], PDict [(''id'', PStr ''b'')],
        PDict [(''id'', PStr ''c''), (''input_from'', PStr ''a'')]]),
      (''edges'', PList (map (\<lambda>(s, t). PDict [(''from'', PStr s), (''to'', PStr t)]) edges))]"

text \<open>
  The verdict on a specification depends on the order in which its edges are listed: with
  \<open>a\<close> before \<open>b\<close> before \<open>c\<close> and \<open>c\<close> reading the output of \<open>a\<close>, the specification is accepted
  when the edge \<open>(a, b)\<close> is listed first, and rejected as not a topological predecessor when it is
  listed last.
\<close>

theorem edge_order_matters:
  "validate_workflow_dag sorted_listing (late_edge_spec [(''a'', ''b''), (''b'', ''c'')]) = Inr ()
   \<and> validate_workflow_dag sorted_listing (late_edge_spec [(''b'', ''c''), (''a'', ''b'')])
     = Inl (DataFlowError ''c'')"
  by (simp add: validate_workflow_dag_def late_edge_spec_def spec_list_def read_node_def
      read_edge_def req_str_def get_none_def topological_order_def in_degrees_def succs_def Let_def
      check_node_def check_upstream_def predecessors_def add_predecessor_def sorted_listing_samples)

text \<open>
  What a path of \<open>input_from\<close> resolves to: the value at the end of the walk through nested
  dictionaries, None as soon as a key is missing or a value on the way is not a dictionary.
\<close>

fun at_path :: "pyval \<Rightarrow> string list \<Rightarrow> pyval option" where
  "at_path v [] = Some v"
| "at_path v (seg # segs) =
     (case v of PDict d \<Rightarrow> (case map_of d seg of None \<Rightarrow> None | Some w \<Rightarrow> at_path w segs) | _ \<Rightarrow> None)"

lemma walk_path_none: "walk_path PNone segs = PNone"
  by (cases segs) auto

lemma at_path_none: "at_path PNone segs = Some w \<Longrightarrow> w = PNone"
  by (cases segs) auto

lemma walk_path_at: "walk_path v segs = (case at_path v segs of Some w \<Rightarrow> w | None \<Rightarrow> PNone)"
  by (induction v segs rule: walk_path.induct)
    (auto simp: get_none_def walk_path_none split: option.splits)

lemma fold_resolve:
  "map_of (fold (\<lambda>(k, p) r. AList.update k (f p) r) items acc) key =
     (case map_of (rev items) key of Some p \<Rightarrow> Some (f p) | None \<Rightarrow> map_of acc key)"
  by (induction items arbitrary: acc)
    (auto simp: update_conv' map_of_append map_add_def split: option.splits)

lemma map_of_rev_distinct: "distinct (map fst items) \<Longrightarrow> map_of (rev items) = map_of items"
  by (rule map_of_inject_set [THEN iffD2]) (auto simp: rev_map [symmetric])

text \<open>
  \<open>resolve_node_inputs\<close> on a mapping: every declared key, and no other, is present in the
  result, bound to the value its dotted path names in the upstream results, and to None
  where the path leads nowhere.
\<close>

theorem resolve_inputs_exact:
  assumes "distinct (map fst items)"
  shows "map_of (resolve_node_inputs (FromPaths items) results) key =
    map_option (\<lambda>path.
      let segs = split_on CHR ''.'' path
      in (case at_path (PDict results) segs of Some w \<Rightarrow> w | None \<Rightarrow> PNone))
    (map_of items key)"
proof -
  have "source_value results path =
      (case at_path (PDict results) (split_on CHR ''.'' path) of Some w \<Rightarrow> w | None \<Rightarrow> PNone)" for path
  proof -
    obtain s segs where "split_on CHR ''.'' path = s # segs"
      by (cases "split_on CHR ''.'' path") auto
    then show ?thesis
      by (auto simp: source_value_def Let_def get_none_def walk_path_none walk_path_at at_path_none
          split: option.splits)
  qed
  then show ?thesis
    by (auto simp: fold_resolve map_of_rev_distinct [OF assms] Let_def split: option.splits)
qed

lemma resolve_inputs_exact_witness:
  "map_of (resolve_node_inputs (FromPaths [(''raw'', ''fetch.data'')])
      [(''fetch'', PDict [(''data'', PInt 7)])]) ''raw'' = Some (PInt 7)"
  using resolve_inputs_exact [of "[(''raw'', ''fetch.data'')]"
      "[(''fetch'', PDict [(''data'', PInt 7)])]" "''raw''"] by simp

end
