(* ===== verification/Filters.thy ===== *)
theory Filters
  imports WorkflowDag
begin

text \<open>
  Filter expressions of event triggers: \<open>_evaluate_filter\<close> of \<^verbatim>\<open>domain/triggers.py\<close>, and its
  copy in \<^verbatim>\<open>subsystems/xioflow/domain/trigger_filter.py\<close> that the event router calls.

  The result None stands for an exception that leaves the function: a \<open>TypeError\<close> of \<open>in\<close> or of
  an iteration, an \<open>AttributeError\<close> of a field that is not a string.
\<close>

section \<open>Comparisons of Python values\<close>

fun str_sign :: "string \<Rightarrow> string \<Rightarrow> int" where
  "str_sign [] [] = 0"
| "str_sign [] (c # s) = -1"
| "str_sign (c # s) [] = 1"
| "str_sign (c # s) (d # t) =
     (if (of_char c :: nat) < of_char d then -1 else if (of_char d :: nat) < of_char c then 1 else str_sign s t)"

text \<open>
  The sign of an ordered comparison; None is a \<open>TypeError\<close>. Lists compare at the first position
  where the elements are not equal.
\<close>

fun py_sign :: "pyval \<Rightarrow> pyval \<Rightarrow> int option"
  and py_sign_list :: "pyval list \<Rightarrow> pyval list \<Rightarrow> int option" where
  "py_sign (PStr s) w = (case w of PStr t \<Rightarrow> Some (str_sign s t) | _ \<Rightarrow> None)"
| "py_sign (PList xs) w = (case w of PList ys \<Rightarrow> py_sign_list xs ys | _ \<Rightarrow> None)"
| "py_sign (PBool b) w = map_option (\<lambda>r. if (if b then 1 else 0) < r then -1 else if r < (if b then 1 else 0) then 1 else 0) (py_num w)"
| "py_sign (PInt i) w = map_option (\<lambda>r. if of_int i < r then -1 else if r < of_int i then 1 else 0) (py_num w)"
| "py_sign (PFloat q) w = map_option (\<lambda>r. if q < r then -1 else if r < q then 1 else 0) (py_num w)"
| "py_sign PNone w = None"
| "py_sign (PDict d) w = None"
| "py_sign_list [] ys = Some (if ys = [] then 0 else -1)"
| "py_sign_list (x # xs) ys =
     (case ys of [] \<Rightarrow> Some 1 | y # ys' \<Rightarrow> if py_eq x y then py_sign_list xs ys' else py_sign x y)"

text \<open>\<open>x in c\<close>, for a value \<open>c\<close> of any type.\<close>

fun py_contains :: "pyval \<Rightarrow> pyval \<Rightarrow> bool option" where
  "py_contains (PList xs) v = Some (py_in v xs)"
| "py_contains (PStr s) v = (case v of PStr t \<Rightarrow> Some (contains_str s t) | _ \<Rightarrow> None)"
| "py_contains (PDict d) v =
     (case v of PList _ \<Rightarrow> None | PDict _ \<Rightarrow> None | PStr k \<Rightarrow> Some (k \<in> fst ` set d) | _ \<Rightarrow> Some False)"
| "py_contains _ v = None"

text \<open>\<open>c or []\<close>.\<close>

definition or_empty :: "pyval \<Rightarrow> pyval" where
  "or_empty c = (if py_truthy c then c else PList [])"

text \<open>The elements a \<open>for\<close> loop takes from a value.\<close>

fun iter_values :: "pyval \<Rightarrow> pyval list option" where
  "iter_values (PList xs) = Some xs"
| "iter_values (PStr s) = Some (map (\<lambda>c. PStr [c]) s)"
| "iter_values (PDict d) = Some (map (\<lambda>kv. PStr (fst kv)) d)"
| "iter_values _ = None"

section \<open>The evaluator\<close>

text \<open>The branches on \<open>op\<close>, once the field has been looked up.\<close>

definition eval_op :: "pyval \<Rightarrow> pyval \<Rightarrow> pyval \<Rightarrow> bool option" where
  "eval_op op actual expected =
     (let compare = (\<lambda>p. if actual = PNone then Some False
                         else (case py_sign actual expected of None \<Rightarrow> Some False | Some s \<Rightarrow> Some (p s)))
      in if op = PStr ''eq'' then Some (py_eq actual expected)
         else if op = PStr ''ne'' then Some (\<not> py_eq actual expected)
         else if op = PStr ''gt'' then compare (\<lambda>s. s > 0)
         else if op = PStr ''gte'' then compare (\<lambda>s. s \<ge> 0)
         else if op = PStr ''lt'' then compare (\<lambda>s. s < 0)
         else if op = PStr ''lte'' then compare (\<lambda>s. s \<le> 0)
         else if op = PStr ''in'' then py_contains (or_empty expected) actual
         else if op = PStr ''contains'' then py_contains (or_empty actual) expected
         else if op = PStr ''exists'' then Some (actual \<noteq> PNone)
         else Some True)"

definition eval_leaf :: "(string \<times> pyval) list \<Rightarrow> (string \<times> pyval) list \<Rightarrow> bool option" where
  "eval_leaf filter_expr payload =
     (case (case map_of filter_expr ''field'' of None \<Rightarrow> PStr [] | Some f \<Rightarrow> f) of
        PStr field \<Rightarrow>
          eval_op (case map_of filter_expr ''op'' of None \<Rightarrow> PStr ''eq'' | Some op \<Rightarrow> op)
            (walk_path (PDict payload) (split_on CHR ''.'' field)) (get_none filter_expr ''value'')
      | _ \<Rightarrow> None)"

fun vdepth :: "pyval \<Rightarrow> nat" and vdepth_list :: "pyval list \<Rightarrow> nat" and vdepth_items :: "(string \<times> pyval) list \<Rightarrow> nat" where
  "vdepth (PList xs) = Suc (vdepth_list xs)"
| "vdepth (PDict d) = Suc (vdepth_items d)"
| "vdepth _ = 0"
| "vdepth_list [] = 0"
| "vdepth_list (x # xs) = max (vdepth x) (vdepth_list xs)"
| "vdepth_items [] = 0"
| "vdepth_items (x # xs) = max (vdepth (snd x)) (vdepth_items xs)"

lemma vdepth_strings: "vdepth_list (map (\<lambda>x. PStr (f x)) xs) = 0"
  by (induction xs) auto

lemma vdepth_items_get: "map_of d k = Some v \<Longrightarrow> vdepth v \<le> vdepth_items d"
  by (induction d) (auto split: if_splits)

lemma vdepth_iter: "iter_values v = Some vs \<Longrightarrow> vdepth_list vs \<le> vdepth v"
  by (cases v) (auto simp: vdepth_strings)

function (sequential) evaluate_filter :: "(string \<times> pyval) list \<Rightarrow> pyval \<Rightarrow> bool option"
  and filter_all :: "(string \<times> pyval) list \<Rightarrow> pyval list \<Rightarrow> bool option"
  and filter_any :: "(string \<times> pyval) list \<Rightarrow> pyval list \<Rightarrow> bool option" where
  "evaluate_filter payload (PDict d) =
     (case map_of d ''all'' of
        Some v \<Rightarrow> (case iter_values v of None \<Rightarrow> None | Some fs \<Rightarrow> filter_all payload fs)
      | None \<Rightarrow>
          (case map_of d ''any'' of
             Some v \<Rightarrow> (case iter_values v of None \<Rightarrow> None | Some fs \<Rightarrow> filter_any payload fs)
           | None \<Rightarrow> eval_leaf d payload))"
| "evaluate_filter payload v = Some True"
| "filter_all payload [] = Some True"
| "filter_all payload (f # fs) =
     (case evaluate_filter payload f of
        None \<Rightarrow> None | Some False \<Rightarrow> Some False | Some True \<Rightarrow> filter_all payload fs)"
| "filter_any payload [] = Some False"
| "filter_any payload (f # fs) =
     (case evaluate_filter payload f of
        None \<Rightarrow> None | Some True \<Rightarrow> Some True | Some False \<Rightarrow> filter_any payload fs)"
  by pat_completeness auto
termination
proof (relation "measures
    [\<lambda>x. case x of Inl (_, v) \<Rightarrow> vdepth v | Inr (Inl (_, vs)) \<Rightarrow> vdepth_list vs | Inr (Inr (_, vs)) \<Rightarrow> vdepth_list vs,
     \<lambda>x. case x of Inl _ \<Rightarrow> 0 | Inr (Inl (_, vs)) \<Rightarrow> Suc (length vs) | Inr (Inr (_, vs)) \<Rightarrow> Suc (length vs)]")
qed (auto dest!: vdepth_items_get vdepth_iter simp: max_def)

text \<open>The copy the event router uses has the same body.\<close>

definition xioflow_evaluate_filter :: "pyval \<Rightarrow> (string \<times> pyval) list \<Rightarrow> bool option" where
  "xioflow_evaluate_filter filter_expr payload = evaluate_filter payload filter_expr"

section \<open>Boolean semantics\<close>

lemma filter_all_true: "filter_all payload fs = Some True \<longleftrightarrow> list_all (\<lambda>f. evaluate_filter payload f = Some True) fs"
  by (induction fs) (auto split: option.splits bool.splits)

lemma filter_any_true:
  "list_all (\<lambda>f. evaluate_filter payload f \<noteq> None) fs \<Longrightarrow>
     filter_any payload fs = Some (list_ex (\<lambda>f. evaluate_filter payload f = Some True) fs)"
  by (induction fs) (auto split: option.splits bool.splits)

text \<open>
  Filters that raise on no payload: leaves whose field is a string and whose operator is not \<open>in\<close>
  or \<open>contains\<close>, except \<open>in\<close> with a list, combined by \<open>all\<close> and \<open>any\<close> over lists.
\<close>

fun safe_filter :: "pyval \<Rightarrow> bool" and safe_filters :: "pyval list \<Rightarrow> bool" and safe_items :: "(string \<times> pyval) list \<Rightarrow> bool" where
  "safe_filter (PDict d) =
     (if map_of d ''all'' \<noteq> None \<or> map_of d ''any'' \<noteq> None then safe_items d
      else
        (case map_of d ''field'' of None \<Rightarrow> True | Some (PStr _) \<Rightarrow> True | Some _ \<Rightarrow> False)
        \<and> (case map_of d ''op'' of
             Some (PStr op) \<Rightarrow>
               op \<noteq> ''contains''
               \<and> (op = ''in'' \<longrightarrow> (case get_none d ''value'' of PList _ \<Rightarrow> True | PNone \<Rightarrow> True | _ \<Rightarrow> False))
           | _ \<Rightarrow> True))"
| "safe_filter _ = True"
| "safe_filters [] = True"
| "safe_filters (f # fs) = (safe_filter f \<and> safe_filters fs)"
| "safe_items [] = True"
| "safe_items (x # xs) =
     ((if fst x = ''all'' \<or> fst x = ''any'' then (case snd x of PList fs \<Rightarrow> safe_filters fs | _ \<Rightarrow> False) else True)
      \<and> safe_items xs)"

lemma safe_items_get:
  "safe_items d \<Longrightarrow> map_of d k = Some v \<Longrightarrow> k = ''all'' \<or> k = ''any'' \<Longrightarrow>
     \<exists>fs. v = PList fs \<and> safe_filters fs"
  by (induction d) (auto split: if_splits pyval.splits)

lemma if_not_None: "(c \<Longrightarrow> a \<noteq> None) \<Longrightarrow> (\<not> c \<Longrightarrow> b \<noteq> None) \<Longrightarrow> (if c then a else b) \<noteq> None"
  by simp

lemma eval_op_total:
  assumes "op \<noteq> PStr ''contains''" and "op = PStr ''in'' \<Longrightarrow> \<exists>xs. or_empty expected = PList xs"
  shows "eval_op op actual expected \<noteq> None"
proof -
  have in_op: "op = PStr ''in'' \<Longrightarrow> py_contains (or_empty expected) actual \<noteq> None" using assms(2) by auto
  have cmp: "(if actual = PNone then Some False
      else (case py_sign actual expected of None \<Rightarrow> Some False | Some s \<Rightarrow> Some (p s))) \<noteq> None" for p :: "int \<Rightarrow> bool"
    by (simp split: option.split del: not_None_eq)
  note some = option.distinct(2)
  show ?thesis
    unfolding eval_op_def Let_def
    by (rule if_not_None, rule some, rule if_not_None, rule some, rule if_not_None, rule cmp,
        rule if_not_None, rule cmp, rule if_not_None, rule cmp, rule if_not_None, rule cmp,
        rule if_not_None, erule in_op, rule if_not_None, erule notE [OF assms(1)],
        rule if_not_None, rule some, rule some)
qed

lemma eval_leaf_safe:
  assumes "safe_filter (PDict d)" and "map_of d ''all'' = None" and "map_of d ''any'' = None"
  shows "\<exists>b. eval_leaf d payload = Some b"
proof -
  obtain field where f: "(case map_of d ''field'' of None \<Rightarrow> PStr [] | Some f \<Rightarrow> f) = PStr field"
    using assms by (cases "map_of d ''field''") (auto split: pyval.splits)
  define op where "op = (case map_of d ''op'' of None \<Rightarrow> PStr ''eq'' | Some op \<Rightarrow> op)"
  have "op \<noteq> PStr ''contains''"
    using assms by (auto simp: op_def split: option.splits)
  moreover have "op = PStr ''in'' \<Longrightarrow> \<exists>xs. or_empty (get_none d ''value'') = PList xs"
    using assms by (cases "get_none d ''value''") (auto simp: op_def or_empty_def split: option.splits)
  ultimately have "\<exists>b. eval_op op actual (get_none d ''value'') = Some b" for actual
    using eval_op_total [of op "get_none d ''value''" actual] by blast
  then show ?thesis using f by (simp add: eval_leaf_def op_def)
qed

lemma safe_total:
  "safe_filter v \<Longrightarrow> evaluate_filter payload v \<noteq> None"
  "safe_filters vs \<Longrightarrow> filter_all payload vs \<noteq> None"
  "safe_filters vs \<Longrightarrow> filter_any payload vs \<noteq> None"
proof (induction payload v and payload vs and payload vs rule: evaluate_filter_filter_all_filter_any.induct)
  case (1 payload d)
  show ?case
  proof (cases "map_of d ''all''")
    case (Some v)
    with "1.prems" safe_items_get [of d "''all''" v] obtain fs where "v = PList fs" "safe_filters fs" by auto
    with Some "1.IH"(2) [OF Some, of fs] show ?thesis by simp
  next
    case none: None
    show ?thesis
    proof (cases "map_of d ''any''")
      case (Some v)
      with "1.prems" safe_items_get [of d "''any''" v] obtain fs where "v = PList fs" "safe_filters fs" by auto
      with none Some "1.IH"(1) [OF none Some, of fs] show ?thesis by simp
    next
      case None
      with none eval_leaf_safe [OF "1.prems" none None, of payload] show ?thesis by auto
    qed
  qed
qed (auto split: option.splits bool.splits)

lemma filter_all_safe:
  "safe_filters fs \<Longrightarrow> filter_all payload fs = Some (list_all (\<lambda>f. evaluate_filter payload f = Some True) fs)"
  using safe_total(2) [of fs payload] filter_all_true [of payload fs] by (cases "filter_all payload fs") auto

lemma safe_filters_list: "safe_filters fs \<longleftrightarrow> list_all safe_filter fs"
  by (induction fs) auto

lemma filter_any_safe:
  "safe_filters fs \<Longrightarrow> filter_any payload fs = Some (list_ex (\<lambda>f. evaluate_filter payload f = Some True) fs)"
  by (rule filter_any_true) (use safe_total(1) in \<open>auto simp: safe_filters_list list_all_iff\<close>)

section \<open>Properties\<close>

text \<open>
  Safe filter expressions have a total boolean semantics: a filter built from leaves with
  string fields and comparison operators evaluates to a truth value on every payload, and on
  such filters \<open>all\<close> is the conjunction and \<open>any\<close> the disjunction of the listed filters.
\<close>

theorem safe_filter_boolean:
  assumes "safe_filter f" and "safe_filters fs"
  shows "evaluate_filter payload f \<noteq> None
    \<and> evaluate_filter payload (PDict [(''all'', PList fs)])
        = Some (list_all (\<lambda>g. evaluate_filter payload g = Some True) fs)
    \<and> evaluate_filter payload (PDict [(''any'', PList fs)])
        = Some (list_ex (\<lambda>g. evaluate_filter payload g = Some True) fs)"
  using safe_total(1) [OF assms(1)] filter_all_safe [OF assms(2)] filter_any_safe [OF assms(2)] by simp

definition large_amount :: pyval where
  "large_amount = PDict [(''field'', PStr ''amount''), (''op'', PStr ''gt''), (''value'', PInt 1000)]"

lemma safe_filter_boolean_witness:
  "evaluate_filter [(''amount'', PInt 2000)] (PDict [(''all'', PList [large_amount, PNone])]) = Some True"
proof -
  have safe: "safe_filter large_amount" "safe_filters [large_amount, PNone]" by (simp_all add: large_amount_def)
  have "evaluate_filter [(''amount'', PInt 2000)] large_amount = Some True"
    by (simp add: large_amount_def eval_leaf_def eval_op_def get_none_def)
  with safe_filter_boolean [OF safe, of "[(''amount'', PInt 2000)]"] show ?thesis by simp
qed

text \<open>Outside that fragment an event payload can make the evaluation raise.\<close>

lemma contains_on_number_raises:
  "evaluate_filter [(''amount'', PInt 5)]
     (PDict [(''field'', PStr ''amount''), (''op'', PStr ''contains''), (''value'', PStr ''x'')]) = None"
  by (simp add: eval_leaf_def eval_op_def get_none_def or_empty_def)

end
