(* ===== verification/Triggers.thy ===== *)
theory Triggers
  imports Filters Tenancy
begin

text \<open>
  Workflow triggers: the trigger service (\<^verbatim>\<open>services/triggers.py\<close>), the cron ticker
  (\<^verbatim>\<open>worker/ticker.py\<close>) and the event router (\<^verbatim>\<open>worker/event_router.py\<close>) over the tables of
  templates, triggers, events and runs.

  Parameters: \<open>prev\<close>, the previous slot that the third-party package \<open>croniter\<close> computes (None for
  an invalid schedule or an exception); \<open>pick\<close>, the order in which the database returns the
  joined rows of the router's query, which has no ORDER BY; the fresh identifiers and the clock.
\<close>

record template_row =
  tm_id :: uuid
  tm_organization_id :: uuid
  tm_slug :: string
  tm_dag_domain :: string
  tm_dag_root_intent :: string
  tm_template_type :: string
  tm_config :: "(string \<times> pyval) list"

record trigger_row =
  tg_id :: uuid
  tg_organization_id :: uuid
  tg_template_id :: uuid
  tg_trigger_type :: string
  tg_cron_schedule :: "string option"
  tg_event_name :: "string option"
  tg_enabled :: bool
  tg_context_defaults :: "(string \<times> pyval) list"
  tg_filter_expression :: pyval
  tg_last_fired_at :: "datetime option"
  tg_created_at :: datetime

record event_row =
  ev_id :: uuid
  ev_organization_id :: uuid
  ev_event_type :: string
  ev_payload :: "(string \<times> pyval) list"
  ev_created_at :: datetime

record run_row =
  rn_id :: uuid
  rn_organization_id :: uuid
  rn_template_id :: uuid
  rn_trigger_id :: uuid
  rn_state :: string
  rn_context :: "(string \<times> pyval) list"
  rn_template_snapshot :: "(string \<times> pyval) list option"
  rn_started_at :: datetime

record trigger_db =
  td_templates :: "template_row list"
  td_triggers :: "trigger_row list"
  td_events :: "event_row list"
  td_runs :: "run_row list"

datatype trigger_error =
    TriggerValueError string
  | TemplateNotFound uuid
  | TriggerNotFoundError uuid

section \<open>The service\<close>

definition ALLOWED_TRIGGER_TYPES :: "string list" where
  "ALLOWED_TRIGGER_TYPES = [''cron'', ''event'']"

definition is_blank :: "string option \<Rightarrow> bool" where
  "is_blank s \<longleftrightarrow> (case s of None \<Rightarrow> True | Some t \<Rightarrow> t = [])"

definition get_trigger :: "org_context \<Rightarrow> uuid \<Rightarrow> trigger_db \<Rightarrow> trigger_error + trigger_row" where
  "get_trigger cx trigger_id db =
     (case find (\<lambda>t. tg_organization_id t = oc_organization_id cx \<and> tg_id t = trigger_id) (td_triggers db) of
        None \<Rightarrow> Inl (TriggerNotFoundError trigger_id)
      | Some t \<Rightarrow> Inr t)"

definition create_trigger ::
  "org_context \<Rightarrow> uuid \<Rightarrow> datetime \<Rightarrow> uuid \<Rightarrow> string \<Rightarrow> string option \<Rightarrow> string option
   \<Rightarrow> (string \<times> pyval) list option \<Rightarrow> pyval \<Rightarrow> bool \<Rightarrow> trigger_db \<Rightarrow> trigger_error + trigger_db" where
  "create_trigger cx new_id now template_id trigger_type cron_schedule event_name context_defaults
     filter_expression enabled db =
     (if trigger_type \<notin> set ALLOWED_TRIGGER_TYPES then Inl (TriggerValueError ''trigger_type'')
      else if trigger_type = ''cron'' \<and> is_blank cron_schedule then Inl (TriggerValueError ''cron_schedule'')
      else if trigger_type = ''event'' \<and> is_blank event_name then Inl (TriggerValueError ''event_name'')
      else if \<not> list_ex (\<lambda>m. tm_id m = template_id \<and> tm_organization_id m = oc_organization_id cx) (td_templates db)
      then Inl (TemplateNotFound template_id)
      else
        Inr (db\<lparr> td_triggers := td_triggers db @
          [\<lparr> tg_id = new_id, tg_organization_id = oc_organization_id cx, tg_template_id = template_id,
             tg_trigger_type = trigger_type, tg_cron_schedule = cron_schedule,
             tg_event_name = event_name, tg_enabled = enabled,
             tg_context_defaults = (case context_defaults of None \<Rightarrow> [] | Some d \<Rightarrow> d),
             tg_filter_expression = filter_expression, tg_last_fired_at = None,
             tg_created_at = now \<rparr>] \<rparr>))"

definition set_enabled :: "org_context \<Rightarrow> uuid \<Rightarrow> bool \<Rightarrow> trigger_db \<Rightarrow> trigger_error + trigger_db" where
  "set_enabled cx trigger_id enabled db =
     (let hit = (\<lambda>t. tg_id t = trigger_id \<and> tg_organization_id t = oc_organization_id cx)
      in if \<not> list_ex hit (td_triggers db) then Inl (TriggerNotFoundError trigger_id)
         else Inr (db\<lparr> td_triggers := update_where hit (tg_enabled_update (\<lambda>_. enabled)) (td_triggers db) \<rparr>))"

definition delete_trigger :: "org_context \<Rightarrow> uuid \<Rightarrow> trigger_db \<Rightarrow> trigger_error + trigger_db" where
  "delete_trigger cx trigger_id db =
     (let hit = (\<lambda>t. tg_id t = trigger_id \<and> tg_organization_id t = oc_organization_id cx)
      in if \<not> list_ex hit (td_triggers db) then Inl (TriggerNotFoundError trigger_id)
         else Inr (db\<lparr> td_triggers := filter (\<lambda>t. \<not> hit t) (td_triggers db) \<rparr>))"

text \<open>\<open>list_triggers\<close>: the optional conditions and the order of creation, newest first.\<close>

definition list_triggers ::
  "org_context \<Rightarrow> string option \<Rightarrow> bool option \<Rightarrow> uuid option \<Rightarrow> trigger_db \<Rightarrow> trigger_row list" where
  "list_triggers cx trigger_type enabled template_id db =
     sort_key (\<lambda>t. - tg_created_at t)
       (filter (\<lambda>t. tg_organization_id t = oc_organization_id cx
          \<and> (is_blank trigger_type \<or> trigger_type = Some (tg_trigger_type t))
          \<and> (case enabled of None \<Rightarrow> True | Some b \<Rightarrow> tg_enabled t = b)
          \<and> (case template_id of None \<Rightarrow> True | Some m \<Rightarrow> tg_template_id t = m)) (td_triggers db))"

text \<open>\<open>{**a, **b}\<close>.\<close>

definition merge_dicts :: "(string \<times> pyval) list \<Rightarrow> (string \<times> pyval) list \<Rightarrow> (string \<times> pyval) list" where
  "merge_dicts a b = fold (\<lambda>(k, v) d. AList.update k v d) b a"

text \<open>The snapshot of the template that a run stores: looked up by id alone.\<close>

definition template_snapshot :: "uuid \<Rightarrow> trigger_db \<Rightarrow> (string \<times> pyval) list option" where
  "template_snapshot template_id db =
     map_option (\<lambda>m. [(''slug'', PStr (tm_slug m)), (''dag_domain'', PStr (tm_dag_domain m)),
        (''dag_root_intent'', PStr (tm_dag_root_intent m)),
        (''template_type'', PStr (tm_template_type m)), (''config'', PDict (tm_config m))])
       (find (\<lambda>m. tm_id m = template_id) (td_templates db))"

definition pending_run ::
  "uuid \<Rightarrow> datetime \<Rightarrow> trigger_row \<Rightarrow> (string \<times> pyval) list \<Rightarrow> trigger_db \<Rightarrow> run_row" where
  "pending_run run_id now t ctx db =
     \<lparr> rn_id = run_id, rn_organization_id = tg_organization_id t, rn_template_id = tg_template_id t,
       rn_trigger_id = tg_id t, rn_state = ''PENDING'', rn_context = ctx,
       rn_template_snapshot = template_snapshot (tg_template_id t) db, rn_started_at = now \<rparr>"

definition fire_now ::
  "org_context \<Rightarrow> uuid \<Rightarrow> datetime \<Rightarrow> uuid \<Rightarrow> (string \<times> pyval) list option \<Rightarrow> trigger_db
   \<Rightarrow> trigger_error + uuid \<times> trigger_db" where
  "fire_now cx run_id now trigger_id extra_context db =
     rbind (get_trigger cx trigger_id db) (\<lambda>t.
       let merged = merge_dicts (tg_context_defaults t) (case extra_context of None \<Rightarrow> [] | Some d \<Rightarrow> d)
       in Inr (run_id, db\<lparr>
            td_runs := td_runs db @ [(pending_run run_id now t merged db)\<lparr> rn_organization_id := oc_organization_id cx \<rparr>],
            td_triggers := update_where (\<lambda>x. tg_id x = trigger_id)
              (tg_last_fired_at_update (\<lambda>_. Some now)) (td_triggers db) \<rparr>))"

section \<open>The cron ticker\<close>

definition is_due ::
  "(string \<Rightarrow> datetime \<Rightarrow> datetime option) \<Rightarrow> string option \<Rightarrow> datetime option \<Rightarrow> datetime \<Rightarrow> bool" where
  "is_due prev cron_schedule last_fired_at now =
     (if is_blank cron_schedule then False
      else
        (case prev (the cron_schedule) now of
           None \<Rightarrow> False
         | Some p \<Rightarrow> (case last_fired_at of None \<Rightarrow> True | Some l \<Rightarrow> l < p)))"

definition cron_rows :: "trigger_db \<Rightarrow> trigger_row list" where
  "cron_rows db = take 100 (filter (\<lambda>t. tg_trigger_type t = ''cron'' \<and> tg_enabled t) (td_triggers db))"

text \<open>
  The guard of the UPDATE on the row as it is now: an SQL comparison with NULL is not true.
\<close>

definition fire_guard :: "trigger_row \<Rightarrow> trigger_row \<Rightarrow> bool" where
  "fire_guard row x \<longleftrightarrow> tg_id x = tg_id row
     \<and> (tg_last_fired_at x = None \<or> (tg_last_fired_at row \<noteq> None \<and> tg_last_fired_at x = tg_last_fired_at row))"

text \<open>
  The body of the loop for one row of the snapshot. \<open>now\<close> is the ticker's clock, \<open>db_now\<close> the
  database's; the tables may have changed since the snapshot was read.
\<close>

definition tick_row ::
  "(string \<Rightarrow> datetime \<Rightarrow> datetime option) \<Rightarrow> datetime \<Rightarrow> datetime \<Rightarrow> uuid \<Rightarrow> trigger_row \<Rightarrow> trigger_db
   \<Rightarrow> nat \<times> trigger_db" where
  "tick_row prev now db_now run_id row db =
     (if \<not> is_due prev (tg_cron_schedule row) (tg_last_fired_at row) now then (0, db)
      else if \<not> list_ex (fire_guard row) (td_triggers db) then (0, db)
      else
        (1, db\<lparr> td_triggers := update_where (fire_guard row)
                  (tg_last_fired_at_update (\<lambda>_. Some db_now)) (td_triggers db),
                td_runs := td_runs db @ [pending_run run_id db_now row (tg_context_defaults row) db] \<rparr>))"

fun tick_rows ::
  "(string \<Rightarrow> datetime \<Rightarrow> datetime option) \<Rightarrow> datetime \<Rightarrow> datetime \<Rightarrow> (uuid \<times> trigger_row) list \<Rightarrow> trigger_db
   \<Rightarrow> nat \<times> trigger_db" where
  "tick_rows prev now db_now [] db = (0, db)"
| "tick_rows prev now db_now ((run_id, row) # rows) db =
     (case tick_row prev now db_now run_id row db of (n, db1) \<Rightarrow>
        (case tick_rows prev now db_now rows db1 of (m, db2) \<Rightarrow> (n + m, db2)))"

text \<open>The fresh identifiers, one for each row of the loop.\<close>

definition with_ids :: "(nat \<Rightarrow> uuid) \<Rightarrow> 'r list \<Rightarrow> (uuid \<times> 'r) list" where
  "with_ids run_ids rows = zip (map run_ids [0..<length rows]) rows"

definition tick_cron_triggers ::
  "(string \<Rightarrow> datetime \<Rightarrow> datetime option) \<Rightarrow> datetime \<Rightarrow> datetime \<Rightarrow> (nat \<Rightarrow> uuid) \<Rightarrow> trigger_db \<Rightarrow> nat \<times> trigger_db" where
  "tick_cron_triggers prev now db_now run_ids db =
     tick_rows prev now db_now (with_ids run_ids (cron_rows db)) db"

section \<open>The event router\<close>

definition five_minutes :: int where "five_minutes = 300000000"

definition already_fired :: "trigger_row \<Rightarrow> event_row \<Rightarrow> run_row list \<Rightarrow> bool" where
  "already_fired t e runs \<longleftrightarrow> list_ex (\<lambda>r. rn_trigger_id r = tg_id t \<and> rn_started_at r \<ge> ev_created_at e) runs"

definition event_joins :: "datetime \<Rightarrow> trigger_db \<Rightarrow> (event_row \<times> trigger_row) list" where
  "event_joins db_now db =
     [(e, t). e \<leftarrow> td_events db, t \<leftarrow> td_triggers db,
        tg_event_name t = Some (ev_event_type e) \<and> tg_organization_id t = ev_organization_id e
        \<and> tg_trigger_type t = ''event'' \<and> tg_enabled t
        \<and> ev_created_at e > db_now - five_minutes \<and> \<not> already_fired t e (td_runs db)]"

definition event_context :: "(uuid \<Rightarrow> string) \<Rightarrow> event_row \<Rightarrow> trigger_row \<Rightarrow> (string \<times> pyval) list" where
  "event_context show_id e t =
     merge_dicts (tg_context_defaults t)
       [(''event_type'', PStr (ev_event_type e)), (''event_id'', PStr (show_id (ev_id e)))]"

definition match_filter :: "trigger_row \<Rightarrow> event_row \<Rightarrow> bool option" where
  "match_filter t e =
     (if py_truthy (tg_filter_expression t)
      then xioflow_evaluate_filter (tg_filter_expression t) (ev_payload e) else Some True)"

text \<open>The loop over the matches; None when the filter raises, which rolls everything back.\<close>

fun route_matches ::
  "(uuid \<Rightarrow> string) \<Rightarrow> datetime \<Rightarrow> (uuid \<times> event_row \<times> trigger_row) list \<Rightarrow> trigger_db \<Rightarrow> (nat \<times> trigger_db) option"
where
  "route_matches show_id db_now [] db = Some (0, db)"
| "route_matches show_id db_now ((run_id, e, t) # ms) db =
     (case match_filter t e of
        None \<Rightarrow> None
      | Some False \<Rightarrow> route_matches show_id db_now ms db
      | Some True \<Rightarrow>
          map_option (\<lambda>(n, db'). (n + 1, db'))
            (route_matches show_id db_now ms
              (db\<lparr> td_runs := td_runs db @ [pending_run run_id db_now t (event_context show_id e t) db] \<rparr>)))"

definition evaluate_event_triggers ::
  "(uuid \<Rightarrow> string) \<Rightarrow> ((event_row \<times> trigger_row) list \<Rightarrow> (event_row \<times> trigger_row) list) \<Rightarrow> datetime
   \<Rightarrow> (nat \<Rightarrow> uuid) \<Rightarrow> nat \<Rightarrow> trigger_db \<Rightarrow> (nat \<times> trigger_db) option" where
  "evaluate_event_triggers show_id pick db_now run_ids limit db =
     route_matches show_id db_now (with_ids run_ids (take limit (pick (event_joins db_now db)))) db"

section \<open>Cron triggers do not fire twice\<close>

text \<open>
  One iteration of some worker's loop: its clock, the database's clock, the identifier of the
  run and the row as that worker's snapshot has it.
\<close>

type_synonym tick = "datetime \<times> datetime \<times> uuid \<times> trigger_row"

fun tick_step :: "(string \<Rightarrow> datetime \<Rightarrow> datetime option) \<Rightarrow> tick \<Rightarrow> trigger_db \<Rightarrow> trigger_db" where
  "tick_step prev (now, db_now, run_id, row) db = snd (tick_row prev now db_now run_id row db)"

definition runs_of :: "uuid \<Rightarrow> trigger_db \<Rightarrow> nat" where
  "runs_of trigger_id db = length (filter (\<lambda>r. rn_trigger_id r = trigger_id) (td_runs db))"

text \<open>No row of the trigger passes the guard of a worker whose snapshot has \<open>L\<close> any more.\<close>

definition closed_for :: "uuid \<Rightarrow> datetime option \<Rightarrow> trigger_db \<Rightarrow> bool" where
  "closed_for trigger_id L db \<longleftrightarrow>
     list_all (\<lambda>x. tg_id x = trigger_id \<longrightarrow> tg_last_fired_at x \<noteq> None \<and> tg_last_fired_at x \<noteq> L) (td_triggers db)"

definition stale_tick :: "uuid \<Rightarrow> datetime option \<Rightarrow> tick \<Rightarrow> bool" where
  "stale_tick trigger_id L x =
     (case x of (now, db_now, run_id, row) \<Rightarrow>
        Some db_now \<noteq> L \<and> (tg_id row = trigger_id \<longrightarrow> tg_last_fired_at row = L))"

lemma pending_run_trigger [simp]: "rn_trigger_id (pending_run i now t ctx db) = tg_id t"
  by (simp add: pending_run_def)

lemma tick_step_closed:
  assumes "closed_for trigger_id L db" and "stale_tick trigger_id L x"
  shows "closed_for trigger_id L (tick_step prev x db) \<and> runs_of trigger_id (tick_step prev x db) = runs_of trigger_id db"
proof -
  obtain now db_now run_id row where x: "x = (now, db_now, run_id, row)" by (cases x)
  show ?thesis
  proof (cases "tg_id row = trigger_id")
    case True
    with assms x have "\<not> list_ex (fire_guard row) (td_triggers db)"
      by (auto simp: closed_for_def stale_tick_def list_all_iff list_ex_iff fire_guard_def)
    with assms show ?thesis by (simp add: x tick_row_def)
  next
    case False
    with assms x show ?thesis
      by (auto simp: tick_row_def closed_for_def runs_of_def stale_tick_def list_all_iff set_update_where
          fire_guard_def)
  qed
qed

lemma tick_step_once:
  assumes "stale_tick trigger_id L x" and "distinct (map tg_id (td_triggers db))"
  shows "runs_of trigger_id (tick_step prev x db) = runs_of trigger_id db
    \<or> runs_of trigger_id (tick_step prev x db) = runs_of trigger_id db + 1
      \<and> closed_for trigger_id L (tick_step prev x db)"
proof -
  obtain now db_now run_id row where x: "x = (now, db_now, run_id, row)" by (cases x)
  show ?thesis
  proof (cases "tg_id row = trigger_id \<and> list_ex (fire_guard row) (td_triggers db)
      \<and> is_due prev (tg_cron_schedule row) (tg_last_fired_at row) now")
    case True
    then obtain y where y: "y \<in> set (td_triggers db)" "fire_guard row y" by (auto simp: list_ex_iff)
    have "fire_guard row z" if "z \<in> set (td_triggers db)" "tg_id z = trigger_id" for z
      using distinct_map_eq [OF assms(2) that(1) y(1)] that(2) y(2) True by (simp add: fire_guard_def)
    then have "closed_for trigger_id L (tick_step prev x db)"
      using True assms(1) x by (auto simp: closed_for_def tick_row_def stale_tick_def list_all_iff set_update_where)
    then show ?thesis using True x by (simp add: tick_row_def runs_of_def)
  next
    case False
    then show ?thesis using x by (auto simp: tick_row_def runs_of_def)
  qed
qed

lemma tick_step_ids: "map tg_id (td_triggers (tick_step prev x db)) = map tg_id (td_triggers db)"
proof -
  obtain now db_now run_id row where "x = (now, db_now, run_id, row)" by (cases x)
  then show ?thesis by (simp add: tick_row_def map_update_where)
qed

lemma ticks_closed:
  "closed_for trigger_id L db \<Longrightarrow> list_all (stale_tick trigger_id L) xs \<Longrightarrow>
     runs_of trigger_id (fold (tick_step prev) xs db) = runs_of trigger_id db"
proof (induction xs arbitrary: db)
  case (Cons x xs)
  with tick_step_closed [of trigger_id L db x prev] Cons.IH [of "tick_step prev x db"] show ?case
    by (simp del: tick_step.simps)
qed simp

lemma ticks_once:
  "list_all (stale_tick trigger_id L) xs \<Longrightarrow> distinct (map tg_id (td_triggers db)) \<Longrightarrow>
     runs_of trigger_id (fold (tick_step prev) xs db) \<le> runs_of trigger_id db + 1"
proof (induction xs arbitrary: db)
  case (Cons x xs)
  from Cons.prems have x: "stale_tick trigger_id L x" and xs: "list_all (stale_tick trigger_id L) xs" by auto
  let ?db1 = "tick_step prev x db"
  have d: "distinct (map tg_id (td_triggers ?db1))" using Cons.prems by (simp add: tick_step_ids)
  from tick_step_once [OF x Cons.prems(2), of prev] show ?case
  proof
    assume "runs_of trigger_id ?db1 = runs_of trigger_id db"
    with Cons.IH [OF xs d] show ?thesis by simp
  next
    assume "runs_of trigger_id ?db1 = runs_of trigger_id db + 1 \<and> closed_for trigger_id L ?db1"
    with ticks_closed [OF _ xs, of ?db1 prev] show ?thesis by simp
  qed
qed simp

section \<open>What the router creates\<close>

definition passes :: "event_row \<times> trigger_row \<Rightarrow> bool" where
  "passes m \<longleftrightarrow> match_filter (snd m) (fst m) = Some True"

lemma pending_run_runs [simp]: "pending_run i now t ctx (db\<lparr> td_runs := rs \<rparr>) = pending_run i now t ctx db"
  by (simp add: pending_run_def template_snapshot_def)

lemma route_matches_runs:
  assumes "route_matches show_id db_now ms db = Some (n, db')"
  shows "db' = db\<lparr> td_runs := td_runs db @
      map (\<lambda>(i, e, t). pending_run i db_now t (event_context show_id e t) db) (filter (passes \<circ> snd) ms) \<rparr>
    \<and> n = length (filter (passes \<circ> snd) ms)"
  using assms
proof (induction ms arbitrary: db n db')
  case (Cons m ms)
  obtain i e t where m: "m = (i, e, t)" by (cases m)
  show ?case
  proof (cases "match_filter t e")
    case (Some b)
    show ?thesis
    proof (cases b)
      case True
      with Cons.prems m Some obtain k where k: "n = k + 1"
        "route_matches show_id db_now ms
          (db\<lparr> td_runs := td_runs db @ [pending_run i db_now t (event_context show_id e t) db] \<rparr>) = Some (k, db')"
        by auto
      from Cons.IH [OF k(2)] k(1) show ?thesis using m Some True by (simp add: passes_def)
    next
      case False
      with Cons.prems m Some Cons.IH [of db n db'] show ?thesis by (simp add: passes_def)
    qed
  qed (use Cons.prems m in simp)
qed simp

lemma with_ids_map: "map snd (filter (P \<circ> snd) (with_ids ids xs)) = filter P xs"
proof -
  have zip: "map snd (filter (P \<circ> snd) (zip ys xs)) = filter P xs" if "length ys = length xs" for ys :: "uuid list"
    using that by (induction ys xs rule: list_induct2) auto
  show ?thesis unfolding with_ids_def by (rule zip) simp
qed

section \<open>Properties\<close>

text \<open>
  C8. No double fire. However the loops of any number of concurrent tickers interleave, if they
  all read the trigger before any of them fired it (the same \<open>last_fired_at\<close>), at most one of
  them creates a run for it: the guard of the UPDATE admits a snapshot once.
\<close>

theorem no_double_fire:
  assumes "distinct (map tg_id (td_triggers db))" and "list_all (stale_tick trigger_id L) ticks"
  shows "runs_of trigger_id (fold (tick_step prev) ticks db) \<le> runs_of trigger_id db + 1"
  by (rule ticks_once [OF assms(2,1)])

definition nightly :: trigger_row where
  "nightly = \<lparr> tg_id = 51, tg_organization_id = 1, tg_template_id = 61, tg_trigger_type = ''cron'',
     tg_cron_schedule = Some ''0 3 * * *'', tg_event_name = None, tg_enabled = True,
     tg_context_defaults = [], tg_filter_expression = PNone, tg_last_fired_at = None, tg_created_at = 0 \<rparr>"

definition sample_trigger_db :: trigger_db where
  "sample_trigger_db = \<lparr> td_templates = [], td_triggers = [nightly], td_events = [], td_runs = [] \<rparr>"

lemma no_double_fire_witness:
  "runs_of 51 (fold (tick_step (\<lambda>_ now. Some now)) [(100, 101, 71, nightly), (100, 102, 72, nightly)] sample_trigger_db) \<le> 1"
  using no_double_fire [of sample_trigger_db 51 None "[(100, 101, 71, nightly), (100, 102, 72, nightly)]"
      "\<lambda>_ now. Some now"]
  by (simp add: sample_trigger_db_def nightly_def stale_tick_def runs_of_def del: tick_step.simps)

text \<open>
  The event router creates exactly the runs it should from the rows it takes: when it
  returns, it has appended one PENDING run per taken pair of event and trigger whose filter
  passes, in the trigger's organization, which is the event's, and changed nothing else; its
  result is their number.
\<close>

theorem router_exact:
  assumes "evaluate_event_triggers show_id pick db_now ids limit db = Some (n, db')"
    and "set (pick (event_joins db_now db)) \<subseteq> set (event_joins db_now db)"
  shows "n = length (filter passes (take limit (pick (event_joins db_now db))))
    \<and> db'\<lparr> td_runs := [] \<rparr> = db\<lparr> td_runs := [] \<rparr>
    \<and> map (\<lambda>r. (rn_trigger_id r, rn_organization_id r, rn_state r, rn_started_at r)) (td_runs db')
      = map (\<lambda>r. (rn_trigger_id r, rn_organization_id r, rn_state r, rn_started_at r)) (td_runs db)
        @ map (\<lambda>(e, t). (tg_id t, ev_organization_id e, ''PENDING'', db_now))
            (filter passes (take limit (pick (event_joins db_now db))))"
proof -
  let ?ms = "take limit (pick (event_joins db_now db))"
  let ?r = "\<lambda>(i, e, t). pending_run i db_now t (event_context show_id e t) db"
  let ?f = "\<lambda>r. (rn_trigger_id r, rn_organization_id r, rn_state r, rn_started_at r)"
  from route_matches_runs [OF assms(1) [unfolded evaluate_event_triggers_def]] have
    db': "db' = db\<lparr> td_runs := td_runs db @ map ?r (filter (passes \<circ> snd) (with_ids ids ?ms)) \<rparr>"
    and n: "n = length (map snd (filter (passes \<circ> snd) (with_ids ids ?ms)))" by auto
  have org: "tg_organization_id t = ev_organization_id e" if "(e, t) \<in> set ?ms" for e t
  proof -
    from that assms(2) have "(e, t) \<in> set (event_joins db_now db)" by (auto dest: in_set_takeD)
    then show ?thesis by (auto simp: event_joins_def)
  qed
  have "map ?f (map ?r xs) = map ((\<lambda>(e, t). (tg_id t, ev_organization_id e, ''PENDING'', db_now)) \<circ> snd) xs"
    if "set (map snd xs) \<subseteq> set ?ms" for xs
    using that org by (induction xs) (auto simp: pending_run_def)
  from this [of "filter (passes \<circ> snd) (with_ids ids ?ms)"] have
    "map ?f (map ?r (filter (passes \<circ> snd) (with_ids ids ?ms)))
       = map (\<lambda>(e, t). (tg_id t, ev_organization_id e, ''PENDING'', db_now)) (filter passes ?ms)"
    unfolding map_map [symmetric] with_ids_map by auto
  then show ?thesis using db' n by (simp add: with_ids_map)
qed

definition on_document :: trigger_row where
  "on_document = nightly\<lparr> tg_id := 52, tg_trigger_type := ''event'', tg_event_name := Some ''document'' \<rparr>"

definition document_event :: "uuid \<Rightarrow> datetime \<Rightarrow> event_row" where
  "document_event i t = \<lparr> ev_id = i, ev_organization_id = 1, ev_event_type = ''document'', ev_payload = [],
     ev_created_at = t \<rparr>"

definition two_event_db :: trigger_db where
  "two_event_db = \<lparr> td_templates = [], td_triggers = [on_document],
     td_events = [document_event 81 10, document_event 82 11], td_runs = [] \<rparr>"

lemma two_event_joins:
  "event_joins 20 two_event_db = [(document_event 81 10, on_document), (document_event 82 11, on_document)]"
  by (simp add: event_joins_def two_event_db_def on_document_def document_event_def nightly_def
      five_minutes_def already_fired_def)

lemma two_event_runs: "td_runs two_event_db = []"
  by (simp add: two_event_db_def)

lemma on_document_passes: "match_filter on_document e = Some True"
  by (simp add: match_filter_def on_document_def nightly_def)

lemma router_exact_witness:
  "\<exists>db'. evaluate_event_triggers (\<lambda>_. []) id 20 (\<lambda>i. of_nat (90 + i)) 100 two_event_db = Some (2, db')
     \<and> length (td_runs db') = 2"
proof -
  have "\<exists>n db'. evaluate_event_triggers (\<lambda>_. []) id 20 (\<lambda>i. of_nat (90 + i)) 100 two_event_db = Some (n, db')"
    by (simp add: evaluate_event_triggers_def two_event_joins with_ids_def on_document_passes)
  then obtain n db' where ev: "evaluate_event_triggers (\<lambda>_. []) id 20 (\<lambda>i. of_nat (90 + i)) 100 two_event_db = Some (n, db')"
    by blast
  have "n = 2" and "length (map (\<lambda>r. (rn_trigger_id r, rn_organization_id r, rn_state r, rn_started_at r)) (td_runs db')) = 2"
    using router_exact [OF ev] by (simp_all add: two_event_joins two_event_runs passes_def on_document_passes)
  with ev show ?thesis by simp
qed

text \<open>
  The router does not run an event twice for a trigger: once it has taken a passing pair,
  the query of any later call, on any later state of the events and triggers that keeps the
  runs, no longer returns that pair.
\<close>

theorem router_idempotent:
  assumes "evaluate_event_triggers show_id pick db_now ids limit db = Some (n, db')"
    and "(e, t) \<in> set (take limit (pick (event_joins db_now db)))" and "passes (e, t)"
    and "ev_created_at e \<le> db_now" and "set (td_runs db') \<subseteq> set (td_runs later)"
  shows "(e, t) \<notin> set (event_joins later_now later)"
proof -
  let ?ms = "take limit (pick (event_joins db_now db))"
  have "(e, t) \<in> set (map snd (filter (passes \<circ> snd) (with_ids ids ?ms)))"
    unfolding with_ids_map using assms(2,3) by simp
  then obtain i where i: "(i, e, t) \<in> set (filter (passes \<circ> snd) (with_ids ids ?ms))" by fastforce
  let ?r = "pending_run i db_now t (event_context show_id e t) db"
  from route_matches_runs [OF assms(1) [unfolded evaluate_event_triggers_def]] i
  have "?r \<in> set (td_runs db')" by force
  moreover have "rn_trigger_id ?r = tg_id t" "rn_started_at ?r = db_now" by (simp_all add: pending_run_def)
  ultimately have "already_fired t e (td_runs later)"
    unfolding already_fired_def list_ex_iff using assms(4,5) by (intro bexI [of _ ?r]) auto
  then show ?thesis by (auto simp: event_joins_def)
qed

lemma router_idempotent_witness:
  "\<exists>db'. evaluate_event_triggers (\<lambda>_. []) id 20 (\<lambda>i. of_nat (90 + i)) 100 two_event_db = Some (2, db')
     \<and> (document_event 81 10, on_document) \<notin> set (event_joins 30 db')"
proof -
  have "\<exists>db'. evaluate_event_triggers (\<lambda>_. []) id 20 (\<lambda>i. of_nat (90 + i)) 100 two_event_db = Some (2, db')"
    by (simp add: evaluate_event_triggers_def two_event_joins with_ids_def on_document_passes)
  then obtain db' where ev: "evaluate_event_triggers (\<lambda>_. []) id 20 (\<lambda>i. of_nat (90 + i)) 100 two_event_db = Some (2, db')"
    by blast
  have "(document_event 81 10, on_document) \<notin> set (event_joins 30 db')"
    by (rule router_idempotent [OF ev])
      (simp_all add: two_event_joins passes_def on_document_passes document_event_def)
  with ev show ?thesis by blast
qed

text \<open>
  An event that the batch limit leaves out is lost when an event of the same type was taken
  in its place: the run created for the taken event is newer than both, and the idempotency
  condition of the next call then excludes the one left out, although it never ran.
\<close>

theorem limit_drops_event:
  "\<exists>db'. evaluate_event_triggers (\<lambda>_. []) id 20 (\<lambda>i. of_nat (90 + i)) 1 two_event_db = Some (1, db')
     \<and> map rn_context (td_runs db') = [event_context (\<lambda>_. []) (document_event 81 10) on_document]
     \<and> (document_event 82 11, on_document) \<in> set (event_joins 20 two_event_db)
     \<and> event_joins 30 db' = []"
  by (simp add: evaluate_event_triggers_def two_event_joins with_ids_def on_document_passes pending_run_def)
    (simp add: event_joins_def two_event_db_def on_document_def document_event_def nightly_def
      five_minutes_def already_fired_def template_snapshot_def)

text \<open>One event whose filter raises blocks every other pair of its batch.\<close>

lemma poison_event_blocks:
  "(i, e, t) \<in> set ms \<Longrightarrow> match_filter t e = None \<Longrightarrow> route_matches show_id db_now ms db = None"
  by (induction ms arbitrary: db) (auto split: option.split bool.split)

text \<open>The service never touches the triggers of another organization.\<close>

lemma set_enabled_foreign:
  "set_enabled cx i b db = Inr db' \<Longrightarrow>
     filter (\<lambda>t. tg_organization_id t \<noteq> oc_organization_id cx) (td_triggers db')
       = filter (\<lambda>t. tg_organization_id t \<noteq> oc_organization_id cx) (td_triggers db)"
  by (auto simp: set_enabled_def Let_def split: if_splits intro!: filter_update_where)

lemma delete_trigger_foreign:
  "delete_trigger cx i db = Inr db' \<Longrightarrow>
     filter (\<lambda>t. tg_organization_id t \<noteq> oc_organization_id cx) (td_triggers db')
       = filter (\<lambda>t. tg_organization_id t \<noteq> oc_organization_id cx) (td_triggers db)"
  by (auto simp: delete_trigger_def Let_def split: if_splits intro!: filter_cong [OF refl])

end
