(* ===== verification/Tasks.thy ===== *)
theory Tasks
  imports WorkflowDag Tenancy
begin

text \<open>
  The workflow service (\<^verbatim>\<open>services/workflows.py\<close>): workflow templates and runs, the lease protocol
  of tasks, and the governance of the dead-letter queue.

  The tables are what the caller's session sees: the statements select by id alone and leave the
  tenant filter to the row-level security that \<^verbatim>\<open>persistence/tenancy.py\<close> binds to the session.
  The repository holds no definition of \<^verbatim>\<open>workflow_tasks\<close>; its id is taken to be the primary key.
  Parameters: fresh identifiers, clocks, the set enumeration \<open>listing\<close> of \<open>WorkflowDag\<close>, and
  \<open>json_text\<close>, whether the database driver hands a JSON column back as text or as the decoded
  object.
\<close>

section \<open>Tables\<close>

record workflow_row =
  wf_id :: uuid
  wf_organization_id :: uuid
  wf_name :: string
  wf_spec :: "(string \<times> pyval) list"
  wf_state :: string
  wf_created_by :: uuid

record workflow_run =
  wr_id :: uuid
  wr_organization_id :: uuid
  wr_workflow_id :: uuid
  wr_state :: string
  wr_initiated_by :: uuid

record task_record =
  tk_id :: uuid
  tk_organization_id :: uuid
  tk_run_id :: uuid
  tk_node_id :: string
  tk_capability_id :: uuid
  tk_state :: string
  tk_attempts :: nat
  tk_lease_id :: "uuid option"
  tk_leased_by :: "uuid option"
  tk_lease_expires_at :: "datetime option"
  tk_input :: "(string \<times> pyval) list"
  tk_priority :: int

record dead_letter_record =
  dl_id :: uuid
  dl_organization_id :: uuid
  dl_task_id :: uuid
  dl_state :: string
  dl_failure_reason :: string
  dl_proposal_id :: "uuid option"
  dl_diagnosis :: "(string \<times> pyval) list option"
  dl_stack_trace :: "string option"
  dl_last_checkpoint :: "(string \<times> pyval) list"
  dl_original_input :: "(string \<times> pyval) list"
  dl_attempts :: nat

record workflow_db =
  wk_workflows :: "workflow_row list"
  wk_runs :: "workflow_run list"
  wk_tasks :: "task_record list"
  wk_dead_letters :: "dead_letter_record list"

record completion_outcome =
  co_task_id :: uuid
  co_state :: string
  co_result :: pyval
  co_duplicate :: bool

datatype task_error =
    TaskNotFoundError uuid
  | UnleaseableError uuid string
  | InactiveLeaseError uuid
  | NonCompletableError uuid string
  | DeadLetterNotFoundError uuid
  | DeadLetterStateError string
  | ApprovalRequired
  | InvalidSpec dag_error
  | NoResultFound
  | TaskTypeError
  | TaskIntegrityError

section \<open>Workflows and runs\<close>

definition create_workflow ::
  "org_context \<Rightarrow> uuid \<Rightarrow> string \<Rightarrow> uuid \<Rightarrow> (string \<times> pyval) list \<Rightarrow> workflow_db \<Rightarrow> task_error + workflow_db" where
  "create_workflow cx new_id name created_by spec db =
     (if new_id \<in> wf_id ` set (wk_workflows db) then Inl TaskIntegrityError
      else Inr (db\<lparr> wk_workflows := wk_workflows db @
        [\<lparr> wf_id = new_id, wf_organization_id = oc_organization_id cx, wf_name = name, wf_spec = spec,
           wf_state = ''draft'', wf_created_by = created_by \<rparr>] \<rparr>))"

text \<open>\<open>.one()\<close> raises \<open>NoResultFound\<close> for an unknown id; the validation error leaves the row as it was.\<close>

definition publish_workflow ::
  "(string set \<Rightarrow> string list) \<Rightarrow> uuid \<Rightarrow> workflow_db \<Rightarrow> task_error + workflow_db" where
  "publish_workflow listing workflow_id db =
     (case find (\<lambda>w. wf_id w = workflow_id) (wk_workflows db) of
        None \<Rightarrow> Inl NoResultFound
      | Some row \<Rightarrow>
          (case validate_workflow_dag listing (wf_spec row) of
             Inl e \<Rightarrow> Inl (InvalidSpec e)
           | Inr _ \<Rightarrow> Inr (db\<lparr> wk_workflows := update_where (\<lambda>w. wf_id w = workflow_id)
                                (wf_state_update (\<lambda>_. ''published'')) (wk_workflows db) \<rparr>)))"

definition start_run :: "org_context \<Rightarrow> uuid \<Rightarrow> uuid \<Rightarrow> uuid \<Rightarrow> workflow_db \<Rightarrow> task_error + workflow_db" where
  "start_run cx new_id workflow_id initiated_by db =
     (if new_id \<in> wr_id ` set (wk_runs db) then Inl TaskIntegrityError
      else Inr (db\<lparr> wk_runs := wk_runs db @
        [\<lparr> wr_id = new_id, wr_organization_id = oc_organization_id cx, wr_workflow_id = workflow_id,
           wr_state = ''running'', wr_initiated_by = initiated_by \<rparr>] \<rparr>))"

definition enqueue_task ::
  "org_context \<Rightarrow> uuid \<Rightarrow> uuid \<Rightarrow> string \<Rightarrow> uuid \<Rightarrow> int \<Rightarrow> (string \<times> pyval) list option \<Rightarrow> workflow_db
   \<Rightarrow> task_error + workflow_db" where
  "enqueue_task cx new_id run_id node_id capability_id priority input_data db =
     (if new_id \<in> tk_id ` set (wk_tasks db) then Inl TaskIntegrityError
      else Inr (db\<lparr> wk_tasks := wk_tasks db @
        [\<lparr> tk_id = new_id, tk_organization_id = oc_organization_id cx, tk_run_id = run_id,
           tk_node_id = node_id, tk_capability_id = capability_id, tk_state = ''queued'', tk_attempts = 0,
           tk_lease_id = None, tk_leased_by = None, tk_lease_expires_at = None,
           tk_input = (case input_data of None \<Rightarrow> [] | Some d \<Rightarrow> d), tk_priority = priority \<rparr>] \<rparr>))"

section \<open>The lease protocol\<close>

definition get_task :: "uuid \<Rightarrow> workflow_db \<Rightarrow> task_record option" where
  "get_task tid db = find (\<lambda>t. tk_id t = tid) (wk_tasks db)"

definition set_task :: "uuid \<Rightarrow> (task_record \<Rightarrow> task_record) \<Rightarrow> workflow_db \<Rightarrow> workflow_db" where
  "set_task tid f db = db\<lparr> wk_tasks := update_where (\<lambda>t. tk_id t = tid) f (wk_tasks db) \<rparr>"

text \<open>
  \<open>lease_task\<close> reads and checks the row, then writes it with a statement that repeats no condition. The two
  halves are definitions of their own, since another session may run between them; \<open>lease_task\<close> is the two in
  one step, a call that overlaps no other. The heartbeat, the completion and the expiry read and then write by
  id in the same way, and are each given as one step too.
\<close>

definition lease_check :: "uuid \<Rightarrow> workflow_db \<Rightarrow> task_error + unit" where
  "lease_check tid db =
     (case get_task tid db of
        None \<Rightarrow> Inl (TaskNotFoundError tid)
      | Some row \<Rightarrow> if tk_state row \<noteq> ''queued'' then Inl (UnleaseableError tid (tk_state row)) else Inr ())"

definition lease_row :: "uuid \<Rightarrow> uuid \<Rightarrow> datetime \<Rightarrow> task_record \<Rightarrow> task_record" where
  "lease_row lease_id leased_by expires_at t =
     t\<lparr> tk_state := ''leased'', tk_lease_id := Some lease_id, tk_leased_by := Some leased_by,
        tk_lease_expires_at := Some expires_at, tk_attempts := tk_attempts t + 1 \<rparr>"

definition lease_write :: "uuid \<Rightarrow> uuid \<Rightarrow> uuid \<Rightarrow> datetime \<Rightarrow> workflow_db \<Rightarrow> workflow_db" where
  "lease_write tid lease_id leased_by expires_at = set_task tid (lease_row lease_id leased_by expires_at)"

definition lease_task ::
  "uuid \<Rightarrow> uuid \<Rightarrow> int \<Rightarrow> datetime \<Rightarrow> uuid \<Rightarrow> workflow_db \<Rightarrow> task_error + task_record \<times> workflow_db" where
  "lease_task tid leased_by duration now lease_id db =
     rbind (lease_check tid db) (\<lambda>_.
       let db' = lease_write tid lease_id leased_by (now + duration) db
       in case get_task tid db' of None \<Rightarrow> Inl NoResultFound | Some t \<Rightarrow> Inr (t, db'))"

text \<open>The heartbeat compares the lease id only, neither the state nor the expiry.\<close>

definition heartbeat_task ::
  "uuid \<Rightarrow> uuid \<Rightarrow> int \<Rightarrow> datetime \<Rightarrow> workflow_db \<Rightarrow> task_error + task_record \<times> workflow_db" where
  "heartbeat_task tid lease_id duration now db =
     (case get_task tid db of
        None \<Rightarrow> Inl (InactiveLeaseError tid)
      | Some row \<Rightarrow>
          if tk_lease_id row \<noteq> Some lease_id then Inl (InactiveLeaseError tid)
          else
            let db' = set_task tid (tk_lease_expires_at_update (\<lambda>_. Some (now + duration))) db
            in case get_task tid db' of None \<Rightarrow> Inl NoResultFound | Some t \<Rightarrow> Inr (t, db'))"

definition clear_lease :: "string \<Rightarrow> task_record \<Rightarrow> task_record" where
  "clear_lease state t =
     t\<lparr> tk_state := state, tk_lease_id := None, tk_leased_by := None, tk_lease_expires_at := None \<rparr>"

definition complete_task ::
  "uuid \<Rightarrow> uuid \<Rightarrow> pyval \<Rightarrow> workflow_db \<Rightarrow> task_error + completion_outcome \<times> workflow_db" where
  "complete_task tid lease_id result db =
     (case get_task tid db of
        None \<Rightarrow> Inl (TaskNotFoundError tid)
      | Some row \<Rightarrow>
          if tk_state row = ''completed''
          then Inr (\<lparr> co_task_id = tid, co_state = ''completed'', co_result = PNone, co_duplicate = True \<rparr>, db)
          else if tk_state row \<noteq> ''leased'' then Inl (NonCompletableError tid (tk_state row))
          else if tk_lease_id row \<noteq> Some lease_id then Inl (InactiveLeaseError tid)
          else Inr (\<lparr> co_task_id = tid, co_state = ''completed'', co_result = result, co_duplicate = False \<rparr>,
                    set_task tid (clear_lease ''completed'') db))"

definition lease_expired :: "org_context \<Rightarrow> datetime \<Rightarrow> task_record \<Rightarrow> bool" where
  "lease_expired cx now t \<longleftrightarrow> tk_state t = ''leased''
     \<and> (case tk_lease_expires_at t of None \<Rightarrow> False | Some e \<Rightarrow> e < now)
     \<and> tk_organization_id t = oc_organization_id cx"

definition expire_leases :: "org_context \<Rightarrow> datetime \<Rightarrow> workflow_db \<Rightarrow> uuid list \<times> workflow_db" where
  "expire_leases cx now db =
     (let task_ids = map tk_id (filter (lease_expired cx now) (wk_tasks db))
      in (task_ids,
          if task_ids = [] then db
          else db\<lparr> wk_tasks := update_where (\<lambda>t. tk_id t \<in> set task_ids) (clear_lease ''queued'') (wk_tasks db) \<rparr>))"

section \<open>Dead letters\<close>

text \<open>
  The input is read back with \<open>json.loads\<close>, which raises a \<open>TypeError\<close> on a decoded object; an
  empty decoded object is falsy and is not passed to it.
\<close>

definition stored_input :: "bool \<Rightarrow> task_record \<Rightarrow> task_error + (string \<times> pyval) list" where
  "stored_input json_text t =
     (if json_text then Inr (tk_input t)
      else if tk_input t = [] then Inr [] else Inl TaskTypeError)"

definition dead_letter_task ::
  "bool \<Rightarrow> org_context \<Rightarrow> uuid \<Rightarrow> uuid \<Rightarrow> string \<Rightarrow> string option \<Rightarrow> (string \<times> pyval) list option \<Rightarrow> workflow_db
   \<Rightarrow> task_error + workflow_db" where
  "dead_letter_task json_text cx new_id tid failure_reason stack_trace last_checkpoint db =
     (case get_task tid db of
        None \<Rightarrow> Inl (TaskNotFoundError tid)
      | Some task_row \<Rightarrow>
          let db1 = set_task tid (tk_state_update (\<lambda>_. ''dead_letter'')) db
          in rbind (stored_input json_text task_row) (\<lambda>original.
             if new_id \<in> dl_id ` set (wk_dead_letters db1) then Inl TaskIntegrityError
             else Inr (db1\<lparr> wk_dead_letters := wk_dead_letters db1 @
               [\<lparr> dl_id = new_id, dl_organization_id = oc_organization_id cx, dl_task_id = tid,
                  dl_state = ''open'', dl_failure_reason = failure_reason, dl_proposal_id = None,
                  dl_diagnosis = None, dl_stack_trace = stack_trace,
                  dl_last_checkpoint = (case last_checkpoint of None \<Rightarrow> [] | Some c \<Rightarrow> c),
                  dl_original_input = original, dl_attempts = tk_attempts task_row \<rparr>] \<rparr>)))"

definition get_dead_letter :: "uuid \<Rightarrow> workflow_db \<Rightarrow> dead_letter_record option" where
  "get_dead_letter did db = find (\<lambda>d. dl_id d = did) (wk_dead_letters db)"

definition set_dead_letter ::
  "uuid \<Rightarrow> (dead_letter_record \<Rightarrow> dead_letter_record) \<Rightarrow> workflow_db \<Rightarrow> workflow_db" where
  "set_dead_letter did f db = db\<lparr> wk_dead_letters := update_where (\<lambda>d. dl_id d = did) f (wk_dead_letters db) \<rparr>"

definition propose_dlq_correction ::
  "uuid \<Rightarrow> uuid \<Rightarrow> (string \<times> pyval) list \<Rightarrow> workflow_db \<Rightarrow> task_error + workflow_db" where
  "propose_dlq_correction proposal_id did diagnosis db =
     (case get_dead_letter did db of
        None \<Rightarrow> Inl (DeadLetterNotFoundError did)
      | Some row \<Rightarrow>
          if dl_state row \<noteq> ''open'' then Inl (DeadLetterStateError (dl_state row))
          else Inr (set_dead_letter did
            (\<lambda>d. d\<lparr> dl_state := ''investigating'', dl_proposal_id := Some proposal_id,
                    dl_diagnosis := Some diagnosis \<rparr>) db))"

definition resolve_dead_letter :: "uuid \<Rightarrow> bool \<Rightarrow> workflow_db \<Rightarrow> task_error + workflow_db" where
  "resolve_dead_letter did explicit_approval db =
     (if \<not> explicit_approval then Inl ApprovalRequired
      else
        (case get_dead_letter did db of
           None \<Rightarrow> Inl (DeadLetterNotFoundError did)
         | Some row \<Rightarrow>
             if dl_state row \<noteq> ''investigating'' then Inl (DeadLetterStateError (dl_state row))
             else Inr (set_dead_letter did (dl_state_update (\<lambda>_. ''resolved'')) db)))"

section \<open>Histories of the service\<close>

text \<open>
  A history records, newest first, the leases granted and the completions accepted (a duplicate
  completion changes nothing and is not recorded).
\<close>

datatype task_event = Leased uuid uuid | Completed uuid uuid

fun event_task :: "task_event \<Rightarrow> uuid" where
  "event_task (Leased t _) = t"
| "event_task (Completed t _) = t"

fun last_lease :: "uuid \<Rightarrow> task_event list \<Rightarrow> uuid option" where
  "last_lease t [] = None"
| "last_lease t (Leased t' l # hist) = (if t' = t then Some l else last_lease t hist)"
| "last_lease t (Completed _ _ # hist) = last_lease t hist"

fun lease_count :: "uuid \<Rightarrow> task_event list \<Rightarrow> nat" where
  "lease_count t [] = 0"
| "lease_count t (Leased t' _ # hist) = (if t' = t then 1 else 0) + lease_count t hist"
| "lease_count t (Completed _ _ # hist) = lease_count t hist"

datatype workflow_call =
    CreateWorkflow org_context uuid string uuid "(string \<times> pyval) list"
  | PublishWorkflow uuid
  | StartRun org_context uuid uuid uuid
  | EnqueueTask org_context uuid uuid string uuid int "(string \<times> pyval) list option"
  | LeaseTask uuid uuid int datetime uuid
  | HeartbeatTask uuid uuid int datetime
  | CompleteTask uuid uuid pyval
  | ExpireLeases org_context datetime
  | DeadLetterTask org_context uuid uuid string "string option" "(string \<times> pyval) list option"
  | ProposeCorrection uuid uuid "(string \<times> pyval) list"
  | ResolveDeadLetter uuid bool

fun task_calls :: "(string set \<Rightarrow> string list) \<Rightarrow> bool \<Rightarrow> workflow_call \<Rightarrow> workflow_db
    \<Rightarrow> task_error + task_event list \<times> workflow_db" where
  "task_calls ls jt (CreateWorkflow cx i name by spec) db = rbind (create_workflow cx i name by spec db) (\<lambda>d. Inr ([], d))"
| "task_calls ls jt (PublishWorkflow i) db = rbind (publish_workflow ls i db) (\<lambda>d. Inr ([], d))"
| "task_calls ls jt (StartRun cx i w by) db = rbind (start_run cx i w by db) (\<lambda>d. Inr ([], d))"
| "task_calls ls jt (EnqueueTask cx i r n c p inp) db = rbind (enqueue_task cx i r n c p inp db) (\<lambda>d. Inr ([], d))"
| "task_calls ls jt (LeaseTask t by dur now l) db =
     rbind (lease_task t by dur now l db) (\<lambda>(_, d). Inr ([Leased t l], d))"
| "task_calls ls jt (HeartbeatTask t l dur now) db = rbind (heartbeat_task t l dur now db) (\<lambda>(_, d). Inr ([], d))"
| "task_calls ls jt (CompleteTask t l res) db =
     rbind (complete_task t l res db) (\<lambda>(out, d). Inr (if co_duplicate out then [] else [Completed t l], d))"
| "task_calls ls jt (ExpireLeases cx now) db = Inr ([], snd (expire_leases cx now db))"
| "task_calls ls jt (DeadLetterTask cx i t why trace chk) db =
     rbind (dead_letter_task jt cx i t why trace chk db) (\<lambda>d. Inr ([], d))"
| "task_calls ls jt (ProposeCorrection i d diag) db = rbind (propose_dlq_correction i d diag db) (\<lambda>d. Inr ([], d))"
| "task_calls ls jt (ResolveDeadLetter d ok) db = rbind (resolve_dead_letter d ok db) (\<lambda>d. Inr ([], d))"

definition workflow_step ::
  "(string set \<Rightarrow> string list) \<Rightarrow> bool \<Rightarrow> workflow_call \<Rightarrow> task_event list \<times> workflow_db
   \<Rightarrow> task_event list \<times> workflow_db" where
  "workflow_step ls jt call s =
     (case task_calls ls jt call (snd s) of Inl _ \<Rightarrow> s | Inr (es, db) \<Rightarrow> (es @ fst s, db))"

section \<open>The invariant of tasks\<close>

text \<open>A task of the vocabulary, with the lease columns its state asks for.\<close>

definition task_typed :: "task_record \<Rightarrow> bool" where
  "task_typed t \<longleftrightarrow>
     tk_state t \<in> {''queued'', ''leased'', ''completed'', ''dead_letter''}
     \<and> (tk_state t = ''leased'' \<longrightarrow> tk_lease_id t \<noteq> None \<and> tk_leased_by t \<noteq> None \<and> tk_lease_expires_at t \<noteq> None)
     \<and> (tk_state t \<in> {''queued'', ''completed''} \<longrightarrow>
          tk_lease_id t = None \<and> tk_leased_by t = None \<and> tk_lease_expires_at t = None)"

text \<open>How a row stands to the history of its task.\<close>

definition task_history :: "task_event list \<Rightarrow> task_record \<Rightarrow> bool" where
  "task_history hist t \<longleftrightarrow>
     (tk_state t = ''leased'' \<longrightarrow> tk_lease_id t = last_lease (tk_id t) hist)
     \<and> tk_attempts t = lease_count (tk_id t) hist
     \<and> ((\<exists>l. Completed (tk_id t) l \<in> set hist) \<longrightarrow> tk_state t \<in> {''completed'', ''dead_letter''})"

text \<open>Each completion is the first of its task and is made under the latest lease.\<close>

fun log_ok :: "task_event list \<Rightarrow> bool" where
  "log_ok [] = True"
| "log_ok (Leased _ _ # hist) = log_ok hist"
| "log_ok (Completed t l # hist) =
     ((\<forall>l'. Completed t l' \<notin> set hist) \<and> last_lease t hist = Some l \<and> log_ok hist)"

definition tasks_ok :: "task_event list \<times> workflow_db \<Rightarrow> bool" where
  "tasks_ok s \<longleftrightarrow>
     distinct (map tk_id (wk_tasks (snd s)))
     \<and> (\<forall>t \<in> set (wk_tasks (snd s)). task_typed t \<and> task_history (fst s) t)
     \<and> (\<forall>e \<in> set (fst s). event_task e \<in> tk_id ` set (wk_tasks (snd s)))
     \<and> log_ok (fst s)"

lemma log_okD: "log_ok (post @ Completed t l # pre) \<Longrightarrow> (\<forall>l'. Completed t l' \<notin> set pre) \<and> last_lease t pre = Some l"
  by (induction post rule: log_ok.induct) auto

lemma log_ok_append: "log_ok (xs @ ys) \<Longrightarrow> log_ok ys"
  by (induction xs rule: log_ok.induct) auto

lemma no_events:
  assumes "\<And>e. e \<in> set hist \<Longrightarrow> event_task e \<noteq> t"
  shows "last_lease t hist = None \<and> lease_count t hist = 0 \<and> (\<forall>l. Completed t l \<notin> set hist)"
proof -
  have "last_lease t hist = None \<and> lease_count t hist = 0"
    using assms by (induction hist rule: log_ok.induct) force+
  then show ?thesis using assms by force
qed

text \<open>An update of rows that keeps them well-formed, with the events it is recorded under.\<close>

lemma tasks_ok_update:
  assumes ok: "tasks_ok (hist, db)" and ids: "\<And>t. tk_id (f t) = tk_id t"
    and rows: "\<And>t. t \<in> set (wk_tasks db) \<Longrightarrow> p t \<Longrightarrow> task_typed (f t) \<and> task_history (es @ hist) (f t)"
    and others: "\<And>t. t \<in> set (wk_tasks db) \<Longrightarrow> \<not> p t \<Longrightarrow> task_history (es @ hist) t"
    and events: "\<And>e. e \<in> set es \<Longrightarrow> event_task e \<in> tk_id ` set (wk_tasks db)"
    and hist: "log_ok (es @ hist)"
    and db': "wk_tasks db' = update_where p f (wk_tasks db)"
  shows "tasks_ok (es @ hist, db')"
proof -
  have same: "map tk_id (update_where p f (wk_tasks db)) = map tk_id (wk_tasks db)"
    by (rule map_update_where) (rule ids)
  then have ids': "tk_id ` set (update_where p f (wk_tasks db)) = tk_id ` set (wk_tasks db)"
    by (metis set_map)
  have "task_typed t \<and> task_history (es @ hist) t" if "t \<in> set (update_where p f (wk_tasks db))" for t
    using that rows others ok by (auto simp: set_update_where tasks_ok_def)
  then show ?thesis
    using ok events hist same ids' db' by (auto simp: tasks_ok_def)
qed

lemma get_task_Some: "get_task t db = Some r \<Longrightarrow> r \<in> set (wk_tasks db) \<and> tk_id r = t"
  unfolding get_task_def by (drule find_Some_iff_mem)

lemma get_task_row:
  assumes "tasks_ok (hist, db)" and "get_task t db = Some r" and "x \<in> set (wk_tasks db)" and "tk_id x = t"
  shows "x = r"
proof -
  have "r \<in> set (wk_tasks db) \<and> tk_id r = t" using assms(2) by (rule get_task_Some)
  then show ?thesis using assms distinct_map_eq [of tk_id "wk_tasks db" x r] by (simp add: tasks_ok_def)
qed

lemma tasks_keep: "tasks_ok (hist, db) \<Longrightarrow> wk_tasks db' = wk_tasks db \<Longrightarrow> tasks_ok (hist, db')"
  by (simp add: tasks_ok_def)

lemma task_history_other:
  "event_task e \<noteq> tk_id t \<Longrightarrow> task_history hist t \<Longrightarrow> task_history (e # hist) t"
  by (cases e) (auto simp: task_history_def)

lemma enqueue_task_ok:
  assumes "tasks_ok (hist, db)" and "enqueue_task cx i r n c p inp db = Inr db'"
  shows "tasks_ok (hist, db')"
proof -
  have "event_task e \<noteq> i" if "e \<in> set hist" for e
    using assms that by (auto simp: tasks_ok_def enqueue_task_def split: if_splits)
  from no_events [of hist i, OF this] show ?thesis
    using assms by (auto simp: tasks_ok_def enqueue_task_def task_typed_def task_history_def split: if_splits)
qed

lemma lease_task_cases:
  assumes "lease_task t by dur now l db = Inr (r, db')"
  obtains row where "get_task t db = Some row" and "tk_state row = ''queued''"
    and "db' = lease_write t l by (now + dur) db"
  using assms that by (auto simp: lease_task_def lease_check_def Let_def split: option.splits if_splits)

lemma lease_task_ok:
  assumes ok: "tasks_ok (hist, db)" and lease: "lease_task t by dur now l db = Inr (r, db')"
  shows "tasks_ok (Leased t l # hist, db')"
proof -
  from lease obtain row where row: "get_task t db = Some row" "tk_state row = ''queued''"
    and db': "db' = lease_write t l by (now + dur) db" by (rule lease_task_cases)
  have only: "x = row" if "x \<in> set (wk_tasks db)" "tk_id x = t" for x
    using get_task_row [OF ok row(1)] that by blast
  have mem: "row \<in> set (wk_tasks db) \<and> tk_id row = t" using row(1) by (rule get_task_Some)
  have "tasks_ok ([Leased t l] @ hist, db')"
  proof (rule tasks_ok_update [OF ok, where f = "lease_row l by (now + dur)" and p = "\<lambda>x. tk_id x = t"])
    fix x assume "x \<in> set (wk_tasks db)" "tk_id x = t"
    with only ok row show "task_typed (lease_row l by (now + dur) x)
        \<and> task_history ([Leased t l] @ hist) (lease_row l by (now + dur) x)"
      by (auto simp: tasks_ok_def task_typed_def task_history_def lease_row_def)
  next
    fix x assume "x \<in> set (wk_tasks db)" "tk_id x \<noteq> t"
    then show "task_history ([Leased t l] @ hist) x"
      using ok by (auto intro!: task_history_other simp: tasks_ok_def)
  qed (use ok mem db' in \<open>auto simp: lease_row_def lease_write_def set_task_def tasks_ok_def\<close>)
  then show ?thesis by simp
qed

lemma heartbeat_task_ok:
  assumes ok: "tasks_ok (hist, db)" and beat: "heartbeat_task t l dur now db = Inr (r, db')"
  shows "tasks_ok (hist, db')"
proof -
  from beat obtain row where row: "get_task t db = Some row" "tk_lease_id row = Some l"
    and db': "db' = set_task t (tk_lease_expires_at_update (\<lambda>_. Some (now + dur))) db"
    by (auto simp: heartbeat_task_def Let_def split: option.splits if_splits)
  have only: "x = row" if "x \<in> set (wk_tasks db)" "tk_id x = t" for x
    using get_task_row [OF ok row(1)] that by blast
  have "tasks_ok ([] @ hist, db')"
    by (rule tasks_ok_update [OF ok, where f = "tk_lease_expires_at_update (\<lambda>_. Some (now + dur))"
          and p = "\<lambda>x. tk_id x = t"])
      (use only ok row db' in \<open>fastforce simp: tasks_ok_def task_typed_def task_history_def set_task_def\<close>)+
  then show ?thesis by simp
qed

lemma complete_task_cases:
  assumes "complete_task t l res db = Inr (out, db')"
  obtains (duplicate) "co_duplicate out" "db' = db"
  | (first) row where "\<not> co_duplicate out" "get_task t db = Some row" "tk_state row = ''leased''"
      "tk_lease_id row = Some l" "db' = set_task t (clear_lease ''completed'') db"
  using assms by (auto simp: complete_task_def split: option.splits if_splits)

lemma complete_task_ok:
  assumes ok: "tasks_ok (hist, db)" and row: "get_task t db = Some row" "tk_state row = ''leased''"
    "tk_lease_id row = Some l" and db': "db' = set_task t (clear_lease ''completed'') db"
  shows "tasks_ok (Completed t l # hist, db')"
proof -
  have only: "x = row" if "x \<in> set (wk_tasks db)" "tk_id x = t" for x
    using get_task_row [OF ok row(1)] that by blast
  have mem: "row \<in> set (wk_tasks db) \<and> tk_id row = t" using row(1) by (rule get_task_Some)
  then have typed: "task_typed row \<and> task_history hist row" using ok by (simp add: tasks_ok_def)
  have "tasks_ok ([Completed t l] @ hist, db')"
  proof (rule tasks_ok_update [OF ok, where f = "clear_lease ''completed''" and p = "\<lambda>x. tk_id x = t"])
    fix x assume "x \<in> set (wk_tasks db)" "tk_id x = t"
    with only typed mem show "task_typed (clear_lease ''completed'' x)
        \<and> task_history ([Completed t l] @ hist) (clear_lease ''completed'' x)"
      by (auto simp: task_typed_def task_history_def clear_lease_def)
  next
    fix x assume "x \<in> set (wk_tasks db)" "tk_id x \<noteq> t"
    then show "task_history ([Completed t l] @ hist) x"
      using ok by (auto intro!: task_history_other simp: tasks_ok_def)
  next
    show "log_ok ([Completed t l] @ hist)"
      using typed row mem ok by (auto simp: task_history_def tasks_ok_def)
  qed (use ok mem db' in \<open>auto simp: clear_lease_def set_task_def\<close>)
  then show ?thesis by simp
qed

lemma expire_leases_ok:
  assumes ok: "tasks_ok (hist, db)"
  shows "tasks_ok (hist, snd (expire_leases cx now db))"
proof -
  let ?ids = "map tk_id (filter (lease_expired cx now) (wk_tasks db))"
  have leased: "tk_state x = ''leased''" if x: "x \<in> set (wk_tasks db)" "tk_id x \<in> set ?ids" for x
  proof -
    from x(2) obtain y where y: "y \<in> set (wk_tasks db)" "tk_id y = tk_id x" "lease_expired cx now y" by auto
    with x(1) ok have "x = y" using distinct_map_eq [of tk_id "wk_tasks db" x y] by (simp add: tasks_ok_def)
    with y show ?thesis by (simp add: lease_expired_def)
  qed
  have db': "wk_tasks (snd (expire_leases cx now db))
      = update_where (\<lambda>x. tk_id x \<in> set ?ids) (clear_lease ''queued'') (wk_tasks db)"
  proof (cases "?ids = []")
    case True
    then have "update_where (\<lambda>x. tk_id x \<in> set ?ids) (clear_lease ''queued'') (wk_tasks db) = wk_tasks db"
      by (intro update_where_none) (simp only: True list.set empty_iff not_False_eq_True)
    with True show ?thesis by (simp add: expire_leases_def Let_def)
  next
    case False
    then show ?thesis by (simp add: expire_leases_def Let_def)
  qed
  have "tasks_ok ([] @ hist, snd (expire_leases cx now db))"
  proof (rule tasks_ok_update [OF ok _ _ _ _ _ db'])
    fix x assume "x \<in> set (wk_tasks db)" "tk_id x \<in> set ?ids"
    with leased ok show "task_typed (clear_lease ''queued'' x) \<and> task_history ([] @ hist) (clear_lease ''queued'' x)"
      by (fastforce simp: tasks_ok_def task_typed_def task_history_def clear_lease_def)
  qed (use ok in \<open>auto simp: clear_lease_def tasks_ok_def\<close>)
  then show ?thesis by simp
qed

lemma dead_letter_task_ok:
  assumes ok: "tasks_ok (hist, db)" and dead: "dead_letter_task jt cx i t why trace chk db = Inr db'"
  shows "tasks_ok (hist, db')"
proof -
  from dead have db': "wk_tasks db' = update_where (\<lambda>x. tk_id x = t) (tk_state_update (\<lambda>_. ''dead_letter'')) (wk_tasks db)"
    by (auto simp: dead_letter_task_def Let_def set_task_def split: option.splits if_splits)
  have "tasks_ok ([] @ hist, db')"
    by (rule tasks_ok_update [OF ok _ _ _ _ _ db'])
      (use ok in \<open>auto simp: tasks_ok_def task_typed_def task_history_def\<close>)
  then show ?thesis by simp
qed

text \<open>The calls that touch no task.\<close>

lemma other_calls_keep_tasks:
  "create_workflow cx i name by spec db = Inr db' \<Longrightarrow> wk_tasks db' = wk_tasks db"
  "publish_workflow ls i db = Inr db' \<Longrightarrow> wk_tasks db' = wk_tasks db"
  "start_run cx i w by db = Inr db' \<Longrightarrow> wk_tasks db' = wk_tasks db"
  "propose_dlq_correction i d diag db = Inr db' \<Longrightarrow> wk_tasks db' = wk_tasks db"
  "resolve_dead_letter d ok db = Inr db' \<Longrightarrow> wk_tasks db' = wk_tasks db"
  by (auto simp: create_workflow_def publish_workflow_def start_run_def propose_dlq_correction_def
      resolve_dead_letter_def set_dead_letter_def split: if_splits option.splits sum.splits)

lemma task_calls_ok:
  assumes ok: "tasks_ok (hist, db)" and call: "task_calls ls jt call db = Inr (es, db')"
  shows "tasks_ok (es @ hist, db')"
proof (cases call)
  case (CreateWorkflow cx i name u spec)
  with call show ?thesis by (auto intro!: tasks_keep [OF ok] intro: other_calls_keep_tasks)
next
  case (PublishWorkflow i)
  with call show ?thesis by (auto intro!: tasks_keep [OF ok] intro: other_calls_keep_tasks)
next
  case (StartRun cx i w u)
  with call show ?thesis by (auto intro!: tasks_keep [OF ok] intro: other_calls_keep_tasks)
next
  case (EnqueueTask cx i r n c p inp)
  with call show ?thesis by (auto intro: enqueue_task_ok [OF ok])
next
  case (LeaseTask t u dur now l)
  with call show ?thesis by (auto intro: lease_task_ok [OF ok])
next
  case (HeartbeatTask t l dur now)
  with call show ?thesis by (auto intro: heartbeat_task_ok [OF ok])
next
  case (CompleteTask t l res)
  with call obtain out where fin: "complete_task t l res db = Inr (out, db')"
    and es: "es = (if co_duplicate out then [] else [Completed t l])" by auto
  from fin show ?thesis
  proof (cases rule: complete_task_cases)
    case duplicate
    with es ok show ?thesis by simp
  next
    case (first row)
    with es show ?thesis by (simp add: complete_task_ok [OF ok])
  qed
next
  case (ExpireLeases cx now)
  with call show ?thesis by (auto intro: expire_leases_ok [OF ok])
next
  case (DeadLetterTask cx i t why trace chk)
  with call show ?thesis by (auto intro: dead_letter_task_ok [OF ok])
next
  case (ProposeCorrection i d diag)
  with call show ?thesis by (auto intro!: tasks_keep [OF ok] intro: other_calls_keep_tasks)
next
  case (ResolveDeadLetter d ap)
  with call show ?thesis by (auto intro!: tasks_keep [OF ok] intro: other_calls_keep_tasks)
qed

lemma workflow_step_ok: "tasks_ok s \<Longrightarrow> tasks_ok (workflow_step ls jt call s)"
  using task_calls_ok [of "fst s" "snd s"] by (auto simp: workflow_step_def split: sum.split)

interpretation task_service: component "workflow_step ls jt" tasks_ok for ls jt
  by unfold_locales (rule workflow_step_ok)

section \<open>Properties\<close>

lemma log_ok_unique:
  "log_ok (post @ Completed t l # pre) \<Longrightarrow> Completed t l' \<notin> set post"
  by (induction post rule: log_ok.induct) auto

lemma tasks_ok_start: "wk_tasks db = [] \<Longrightarrow> tasks_ok ([], db)"
  by (simp add: tasks_ok_def)

definition workflow_context :: org_context where
  "workflow_context = \<lparr> oc_auth_identity_id = 11, oc_actor_id = 2, oc_organization_id = 1,
     oc_session_id = 12, oc_platform_role = PlatformNone, oc_membership_role = OrgAdmin \<rparr>"

definition empty_workflow_db :: workflow_db where
  "empty_workflow_db = \<lparr> wk_workflows = [], wk_runs = [], wk_tasks = [], wk_dead_letters = [] \<rparr>"

text \<open>A task leased, lost, leased again, and completed by the second holder.\<close>

definition sample_task_calls :: "workflow_call list" where
  "sample_task_calls =
     [EnqueueTask workflow_context 5 4 ''fetch'' 9 5 None, LeaseTask 5 21 60 0 31, ExpireLeases workflow_context 100,
      LeaseTask 5 22 60 100 32, CompleteTask 5 31 PNone, CompleteTask 5 32 PNone]"

lemmas workflow_eval = sample_task_calls_def empty_workflow_db_def workflow_step_def enqueue_task_def
  lease_task_def lease_check_def lease_write_def lease_row_def get_task_def set_task_def expire_leases_def
  lease_expired_def complete_task_def clear_lease_def workflow_context_def Let_def

lemma sample_task_history:
  "fst (fold (workflow_step ls jt) sample_task_calls ([], empty_workflow_db))
     = [Completed 5 32, Leased 5 32, Leased 5 31]"
  by (simp add: workflow_eval)

text \<open>
  C11. Among calls that do not overlap, the lease protocol executes a task once. In any history of service
  calls that are run one after the other, each from its first read to its last write, an accepted completion
  is the only one of its task, and it is made under the lease that was granted last, so a worker whose lease
  was reclaimed cannot complete the task. Calls of two sessions that overlap break this, as
  \<open>interleaved_leases_complete_twice\<close> below shows: no statement repeats the condition it rests on.
\<close>

theorem task_completed_once:
  assumes "wk_tasks db = []"
    and "fst (fold (workflow_step ls jt) calls ([], db)) = post @ Completed t l # pre"
  shows "(\<forall>l'. Completed t l' \<notin> set (post @ pre)) \<and> last_lease t pre = Some l"
proof -
  have "tasks_ok (fold (workflow_step ls jt) calls ([], db))"
    using assms(1) by (intro task_service.run_inv tasks_ok_start)
  then have "log_ok (post @ Completed t l # pre)" using assms(2) by (simp add: tasks_ok_def)
  then show ?thesis using log_okD [of post t l pre] log_ok_unique [of post t l pre] by auto
qed

theorem task_completed_once_witness:
  "(\<forall>l'. Completed 5 l' \<notin> set ([] @ [Leased 5 32, Leased 5 31])) \<and> last_lease 5 [Leased 5 32, Leased 5 31] = Some 32"
proof (rule task_completed_once)
  show "wk_tasks empty_workflow_db = []" by (simp add: empty_workflow_db_def)
  show "fst (fold (workflow_step sorted_listing True) sample_task_calls ([], empty_workflow_db))
      = [] @ Completed 5 32 # [Leased 5 32, Leased 5 31]"
    using sample_task_history by simp
qed

text \<open>
  C40. Task rows keep their type. Whatever calls are made, task ids are unique, every state is of
  the vocabulary, a leased task has all three lease columns, a queued or completed one has none of
  them, and the attempts counter is the number of leases granted for the task.
\<close>

theorem task_rows_typed:
  assumes "wk_tasks db = []" and "fold (workflow_step ls jt) calls ([], db) = (hist, db')"
  shows "distinct (map tk_id (wk_tasks db'))
    \<and> (\<forall>t \<in> set (wk_tasks db'). task_typed t \<and> tk_attempts t = lease_count (tk_id t) hist)"
proof -
  have "tasks_ok (fold (workflow_step ls jt) calls ([], db))"
    using assms(1) by (intro task_service.run_inv tasks_ok_start)
  then show ?thesis using assms(2) by (auto simp: tasks_ok_def task_history_def)
qed

theorem task_rows_typed_witness:
  "\<exists>db' :: workflow_db. distinct (map tk_id (wk_tasks db'))
    \<and> (\<forall>t \<in> set (wk_tasks db'). task_typed t \<and> tk_attempts t = lease_count (tk_id t) [Completed 5 32, Leased 5 32, Leased 5 31])"
proof -
  let ?s = "fold (workflow_step sorted_listing True) sample_task_calls ([], empty_workflow_db)"
  have s: "?s = ([Completed 5 32, Leased 5 32, Leased 5 31], snd ?s)"
    by (metis prod.collapse sample_task_history)
  have "wk_tasks empty_workflow_db = []" by (simp add: empty_workflow_db_def)
  from task_rows_typed [OF this s] show ?thesis by (rule exI)
qed

text \<open>
  \<open>complete_task\<close> is exact. It ends in an accepted completion if and only if the task
  exists, is leased, and the lease presented is its lease; then the task is completed and holds no
  lease, and nothing else changes. A completed task answers every lease with a duplicate and no
  change; every other call raises.
\<close>

theorem complete_task_exact:
  "complete_task t l res db =
     (case get_task t db of
        None \<Rightarrow> Inl (TaskNotFoundError t)
      | Some row \<Rightarrow>
          if tk_state row = ''leased'' \<and> tk_lease_id row = Some l
          then Inr (\<lparr> co_task_id = t, co_state = ''completed'', co_result = res, co_duplicate = False \<rparr>,
                    db\<lparr> wk_tasks := map (\<lambda>x. if tk_id x = t then clear_lease ''completed'' x else x) (wk_tasks db) \<rparr>)
          else if tk_state row = ''completed''
          then Inr (\<lparr> co_task_id = t, co_state = ''completed'', co_result = PNone, co_duplicate = True \<rparr>, db)
          else if tk_state row = ''leased'' then Inl (InactiveLeaseError t)
          else Inl (NonCompletableError t (tk_state row)))"
  by (auto simp: complete_task_def set_task_def update_where_def split: option.split)

section \<open>Where the service falls short\<close>

text \<open>
  The read and the write of \<open>lease_task\<close> are not one atomic step, as its documentation has it: a
  second session that checked the task before the first one leased and completed it writes its
  lease over the completed row, and completes the task a second time.
\<close>

lemma interleaved_leases_complete_twice:
  assumes "wk_tasks db = [t]" and "tk_id t = i" and "tk_state t = ''queued''"
  shows "lease_check i db = Inr ()
    \<and> (\<exists>r db1 out1 db2 out2 db3. lease_task i w1 d now l1 db = Inr (r, db1)
        \<and> complete_task i l1 res db1 = Inr (out1, db2) \<and> \<not> co_duplicate out1
        \<and> complete_task i l2 res (lease_write i l2 w2 e db2) = Inr (out2, db3) \<and> \<not> co_duplicate out2)"
  using assms by (simp add: workflow_eval)

text \<open>A heartbeat extends the lease of a dead-lettered task, and of one whose lease has run out.\<close>

lemma heartbeat_ignores_state:
  assumes "get_task i db = Some row" and "tk_lease_id row = Some l"
  shows "\<exists>r db'. heartbeat_task i l d now db = Inr (r, db')"
proof -
  have "get_task i (set_task i (tk_lease_expires_at_update (\<lambda>_. e)) db) \<noteq> None" for e
    using get_task_Some [OF assms(1)]
    by (auto simp: get_task_def set_task_def find_None_iff set_update_where)
  with assms show ?thesis
    by (auto simp: heartbeat_task_def Let_def split: option.split)
qed

text \<open>A completed task can be moved to the dead letters.\<close>

lemma completed_task_dead_lettered:
  assumes "get_task t db = Some row" and "tk_input row = []" and "i \<notin> dl_id ` set (wk_dead_letters db)"
  shows "\<exists>db'. dead_letter_task jt cx i t why trace chk db = Inr db'"
  using assms by (simp add: dead_letter_task_def stored_input_def Let_def set_task_def)

text \<open>With a driver that decodes JSON columns, a task with an input cannot be dead-lettered.\<close>

lemma dead_letter_rejects_input:
  assumes "get_task t db = Some row" and "tk_input row \<noteq> []"
  shows "dead_letter_task False cx i t why trace chk db = Inl TaskTypeError"
  using assms by (simp add: dead_letter_task_def stored_input_def Let_def)

end
