(* ===== verification/Tokens.thy ===== *)
theory Tokens
  imports Provenance Tasks
begin

text \<open>
  Bearer material: the access tokens of \<^verbatim>\<open>platform/tokens.py\<close>, the task credentials of
  \<^verbatim>\<open>platform/task_credentials.py\<close>, and the lease endpoint of \<^verbatim>\<open>api/routers/execution.py\<close> that
  leases a task and mints its credential.

  PyJWT is a parameter: \<open>enc\<close> signs a payload with a secret, \<open>dec\<close> answers the payload of a token
  under a secret and the names of the required claims, None for any \<open>PyJWTError\<close>. The one law the
  code relies on is \<open>jwt_faithful\<close>: the claims it issues, signed with a secret, decode under it. Tokens are opaque, so their
  type is a variable. Datetimes are microseconds since the Unix epoch here.
\<close>

section \<open>Clocks and timestamps\<close>

datatype clock_time = Aware datetime | Naive datetime

text \<open>\<open>int(t.timestamp())\<close> truncates towards zero.\<close>

definition timestamp :: "datetime \<Rightarrow> int" where
  "timestamp t = (if t < 0 then - (- t div 1000000) else t div 1000000)"

definition MIN_TIMESTAMP :: int where "MIN_TIMESTAMP = -62135596800"

definition MAX_TIMESTAMP :: int where "MAX_TIMESTAMP = 253402300799"

datatype token_error = TokenValueError | TokenRejected | TokenOverflow

text \<open>
  \<open>datetime.fromtimestamp(s, tz=UTC)\<close>: a \<open>ValueError\<close> for a year that a datetime cannot hold, an
  \<open>OverflowError\<close> or \<open>OSError\<close> for one that the C library cannot.
\<close>

definition from_timestamp :: "int \<Rightarrow> token_error + datetime" where
  "from_timestamp s =
     (if MIN_TIMESTAMP \<le> s \<and> s \<le> MAX_TIMESTAMP then Inr (s * 1000000)
      else if \<bar>s\<bar> \<le> 67768036191676799 then Inl TokenRejected
      else Inl TokenOverflow)"

type_synonym payload = "(string \<times> pyval) list"
type_synonym 'tok jwt_encode = "payload \<Rightarrow> string \<Rightarrow> 'tok"
type_synonym 'tok jwt_decode = "string \<Rightarrow> 'tok \<Rightarrow> string list \<Rightarrow> payload option"

text \<open>A required claim: a missing one is a \<open>KeyError\<close>. A \<open>TypeError\<close> or \<open>ValueError\<close> of a conversion is rejected as well.\<close>

definition claim :: "payload \<Rightarrow> string \<Rightarrow> token_error + pyval" where
  "claim p k = (case map_of p k of None \<Rightarrow> Inl TokenRejected | Some v \<Rightarrow> Inr v)"

definition claim_int :: "payload \<Rightarrow> string \<Rightarrow> token_error + int" where
  "claim_int p k = rbind (claim p k) (\<lambda>v. case py_int_of v of None \<Rightarrow> Inl TokenRejected | Some i \<Rightarrow> Inr i)"

definition as_uuid :: "(pyval \<Rightarrow> string) \<Rightarrow> pyval \<Rightarrow> token_error + uuid" where
  "as_uuid repr v = (case parse_uuid (py_str repr v) of Inl _ \<Rightarrow> Inl TokenRejected | Inr u \<Rightarrow> Inr u)"

definition claim_uuid :: "(pyval \<Rightarrow> string) \<Rightarrow> payload \<Rightarrow> string \<Rightarrow> token_error + uuid" where
  "claim_uuid repr p k = rbind (claim p k) (as_uuid repr)"

definition claim_time :: "payload \<Rightarrow> string \<Rightarrow> token_error + datetime" where
  "claim_time p k = rbind (claim_int p k) from_timestamp"

section \<open>Access tokens\<close>

record access_claims =
  at_jti :: string
  at_session_id :: uuid
  at_organization_id :: uuid
  at_actor_id :: uuid
  at_issued_at :: datetime
  at_expires_at :: datetime

definition ACCESS_TOKEN_MAX_TTL :: int where "ACCESS_TOKEN_MAX_TTL = 15 * 60 * 1000000"

definition ACCESS_CLAIMS :: "string list" where
  "ACCESS_CLAIMS = [''jti'', ''sid'', ''org'', ''act'', ''iat'', ''exp'']"

definition issue_access_token ::
  "'tok jwt_encode \<Rightarrow> string \<Rightarrow> uuid \<Rightarrow> uuid \<Rightarrow> uuid \<Rightarrow> uuid \<Rightarrow> clock_time \<Rightarrow> int
   \<Rightarrow> token_error + 'tok \<times> access_claims" where
  "issue_access_token enc secret new_id session_id organization_id actor_id now ttl =
     (if secret = [] then Inl TokenValueError
      else case now of
        Naive _ \<Rightarrow> Inl TokenValueError
      | Aware t \<Rightarrow>
          if ttl \<le> 0 \<or> ttl > ACCESS_TOKEN_MAX_TTL then Inl TokenValueError
          else
            let jti = uuid_str new_id; expires_at = t + ttl;
                payload = [(''jti'', PStr jti), (''sid'', PStr (uuid_str session_id)),
                  (''org'', PStr (uuid_str organization_id)), (''act'', PStr (uuid_str actor_id)),
                  (''iat'', PInt (timestamp t)), (''exp'', PInt (timestamp expires_at))]
            in Inr (enc payload secret,
                 \<lparr> at_jti = jti, at_session_id = session_id, at_organization_id = organization_id,
                   at_actor_id = actor_id, at_issued_at = t, at_expires_at = expires_at \<rparr>))"

definition verify_access_token ::
  "'tok jwt_decode \<Rightarrow> (pyval \<Rightarrow> string) \<Rightarrow> string \<Rightarrow> 'tok \<Rightarrow> clock_time \<Rightarrow> token_error + access_claims" where
  "verify_access_token dec repr secret token now =
     (case now of
        Naive _ \<Rightarrow> Inl TokenValueError
      | Aware t \<Rightarrow>
          (case dec secret token ACCESS_CLAIMS of
             None \<Rightarrow> Inl TokenRejected
           | Some p \<Rightarrow>
               rbind (claim_int p ''exp'') (\<lambda>e.
                 if e \<le> timestamp t then Inl TokenRejected
                 else
                   rbind (claim p ''jti'') (\<lambda>jti.
                   rbind (claim_uuid repr p ''sid'') (\<lambda>sid.
                   rbind (claim_uuid repr p ''org'') (\<lambda>org.
                   rbind (claim_uuid repr p ''act'') (\<lambda>act.
                   rbind (claim_time p ''iat'') (\<lambda>iat.
                   rbind (claim_time p ''exp'') (\<lambda>ex.
                     Inr \<lparr> at_jti = py_str repr jti, at_session_id = sid, at_organization_id = org,
                           at_actor_id = act, at_issued_at = iat, at_expires_at = ex \<rparr>)))))))))"

section \<open>Task credentials\<close>

record task_claims =
  tc_jti :: string
  tc_task_id :: uuid
  tc_worker_id :: uuid
  tc_lease_id :: uuid
  tc_organization_id :: uuid
  tc_scoped_capabilities :: "uuid list"
  tc_issued_at :: datetime
  tc_expires_at :: datetime

definition TASK_CREDENTIAL_MAX_TTL :: int where "TASK_CREDENTIAL_MAX_TTL = 60 * 60 * 1000000"

definition TASK_CLAIMS :: "string list" where
  "TASK_CLAIMS = [''jti'', ''tsk'', ''wkr'', ''lse'', ''org'', ''cap'', ''iat'', ''exp'']"

definition mint_task_credential ::
  "'tok jwt_encode \<Rightarrow> string \<Rightarrow> uuid \<Rightarrow> uuid \<Rightarrow> uuid \<Rightarrow> uuid \<Rightarrow> uuid \<Rightarrow> uuid list \<Rightarrow> clock_time \<Rightarrow> clock_time
   \<Rightarrow> token_error + 'tok \<times> task_claims" where
  "mint_task_credential enc secret new_id task_id worker_id lease_id organization_id scoped now expires_at =
     (if secret = [] then Inl TokenValueError
      else case (now, expires_at) of
        (Aware t, Aware e) \<Rightarrow>
          if scoped = [] then Inl TokenValueError
          else if e - t \<le> 0 then Inl TokenValueError
          else if e - t > TASK_CREDENTIAL_MAX_TTL then Inl TokenValueError
          else
            let jti = uuid_str new_id;
                payload = [(''jti'', PStr jti), (''tsk'', PStr (uuid_str task_id)),
                  (''wkr'', PStr (uuid_str worker_id)), (''lse'', PStr (uuid_str lease_id)),
                  (''org'', PStr (uuid_str organization_id)), (''cap'', PList (map (PStr \<circ> uuid_str) scoped)),
                  (''iat'', PInt (timestamp t)), (''exp'', PInt (timestamp e))]
            in Inr (enc payload secret,
                 \<lparr> tc_jti = jti, tc_task_id = task_id, tc_worker_id = worker_id, tc_lease_id = lease_id,
                   tc_organization_id = organization_id, tc_scoped_capabilities = scoped,
                   tc_issued_at = t, tc_expires_at = e \<rparr>)
      | _ \<Rightarrow> Inl TokenValueError)"

text \<open>Iterating over the \<open>cap\<close> claim: a string iterates over its characters, a dict over its keys.\<close>

fun iterate :: "pyval \<Rightarrow> token_error + pyval list" where
  "iterate (PList xs) = Inr xs"
| "iterate (PStr s) = Inr (map (\<lambda>c. PStr [c]) s)"
| "iterate (PDict d) = Inr (map (PStr \<circ> fst) d)"
| "iterate _ = Inl TokenRejected"

definition verify_task_credential ::
  "'tok jwt_decode \<Rightarrow> (pyval \<Rightarrow> string) \<Rightarrow> string \<Rightarrow> 'tok \<Rightarrow> clock_time \<Rightarrow> uuid option \<Rightarrow> uuid option
   \<Rightarrow> token_error + task_claims" where
  "verify_task_credential dec repr secret token now expected_task_id expected_worker_id =
     (case now of
        Naive _ \<Rightarrow> Inl TokenValueError
      | Aware t \<Rightarrow>
          (case dec secret token TASK_CLAIMS of
             None \<Rightarrow> Inl TokenRejected
           | Some p \<Rightarrow>
               rbind (claim_int p ''exp'') (\<lambda>e.
                 if e \<le> timestamp t then Inl TokenRejected
                 else
                   rbind (claim p ''jti'') (\<lambda>jti.
                   rbind (claim_uuid repr p ''tsk'') (\<lambda>tsk.
                   rbind (claim_uuid repr p ''wkr'') (\<lambda>wkr.
                   rbind (claim_uuid repr p ''lse'') (\<lambda>lse.
                   rbind (claim_uuid repr p ''org'') (\<lambda>org.
                   rbind (claim p ''cap'') (\<lambda>cap.
                   rbind (iterate cap) (\<lambda>caps.
                   rbind (traverse (as_uuid repr) caps) (\<lambda>scoped.
                   rbind (claim_time p ''iat'') (\<lambda>iat.
                   rbind (claim_time p ''exp'') (\<lambda>ex.
                     let claims = \<lparr> tc_jti = py_str repr jti, tc_task_id = tsk, tc_worker_id = wkr,
                           tc_lease_id = lse, tc_organization_id = org, tc_scoped_capabilities = scoped,
                           tc_issued_at = iat, tc_expires_at = ex \<rparr>
                     in if expected_task_id \<noteq> None \<and> expected_task_id \<noteq> Some tsk then Inl TokenRejected
                        else if expected_worker_id \<noteq> None \<and> expected_worker_id \<noteq> Some wkr then Inl TokenRejected
                        else Inr claims)))))))))))))"

text \<open>\<open>load_task_credential_signing_key\<close>: the environment variable, stripped.\<close>

definition load_task_credential_signing_key :: "string option \<Rightarrow> token_error + string" where
  "load_task_credential_signing_key env =
     (let key = strip (case env of None \<Rightarrow> [] | Some s \<Rightarrow> s) in if key = [] then Inl TokenValueError else Inr key)"

section \<open>The lease endpoint\<close>

text \<open>
  \<open>POST /tasks/{task_id}/lease\<close>: the request model bounds the duration; the key is read from the
  environment as it is; a failure of the minting leaves the request with an error, and the session
  is rolled back.
\<close>

datatype lease_failure = DurationRejected | LeaseRefused task_error | MintFailed token_error

definition lease_endpoint ::
  "'tok jwt_encode \<Rightarrow> string option \<Rightarrow> org_context \<Rightarrow> uuid \<Rightarrow> uuid \<Rightarrow> int \<Rightarrow> datetime \<Rightarrow> uuid \<Rightarrow> uuid \<Rightarrow> workflow_db
   \<Rightarrow> lease_failure + task_record \<times> 'tok \<times> task_claims \<times> workflow_db" where
  "lease_endpoint enc env cx task_id leased_by seconds now lease_id jti db =
     (if seconds < 1 \<or> seconds > 3600 then Inl DurationRejected
      else case lease_task task_id leased_by (seconds * 1000000) now lease_id db of
        Inl e \<Rightarrow> Inl (LeaseRefused e)
      | Inr (record, db') \<Rightarrow>
          (case (tk_lease_id record, tk_lease_expires_at record) of
             (Some lease, Some expires) \<Rightarrow>
               (case mint_task_credential enc (case env of None \<Rightarrow> [] | Some k \<Rightarrow> k) jti (tk_id record) leased_by lease
                   (oc_organization_id cx) [tk_capability_id record] (Aware now) (Aware expires) of
                  Inl e \<Rightarrow> Inl (MintFailed e)
                | Inr (token, claims) \<Rightarrow> Inr (record, token, claims, db'))
           | _ \<Rightarrow> Inl (MintFailed TokenValueError)))"

section \<open>Facts\<close>

text \<open>A moment that a datetime can hold.\<close>

definition valid_time :: "datetime \<Rightarrow> bool" where
  "valid_time t \<longleftrightarrow> MIN_TIMESTAMP * 1000000 \<le> t \<and> t < (MAX_TIMESTAMP + 1) * 1000000"

lemma timestamp_range: "valid_time t \<Longrightarrow> MIN_TIMESTAMP \<le> timestamp t \<and> timestamp t \<le> MAX_TIMESTAMP"
  by (simp add: valid_time_def timestamp_def MIN_TIMESTAMP_def MAX_TIMESTAMP_def) linarith

lemma from_timestamp_valid [simp]: "valid_time t \<Longrightarrow> from_timestamp (timestamp t) = Inr (timestamp t * 1000000)"
  using timestamp_range by (simp add: from_timestamp_def)

lemma claim_simps [simp]:
  "claim ((k, v) # p) k' = (if k = k' then Inr v else claim p k')"
  "claim [] k' = Inl TokenRejected"
  by (simp_all add: claim_def)

lemma as_uuid_str [simp]: "as_uuid repr (PStr (uuid_str u)) = Inr u"
  by (simp add: as_uuid_def)

lemma traverse_uuids [simp]: "traverse (as_uuid repr) (map (PStr \<circ> uuid_str) us) = Inr us"
  by (induction us) simp_all

text \<open>
  What the code relies on of PyJWT, for one secret: a payload that this code issues, of the claims of an access
  token or of a task credential, with text, whole numbers and lists of text as their values, decodes to itself
  under the secret that signed it. No other payload and no other secret is spoken of: PyJWT refuses some, as a
  secret that looks like a PEM key.
\<close>

fun claim_value :: "pyval \<Rightarrow> bool" where
  "claim_value (PStr _) = True"
| "claim_value (PInt _) = True"
| "claim_value (PList vs) = list_all (\<lambda>v. case v of PStr _ \<Rightarrow> True | _ \<Rightarrow> False) vs"
| "claim_value _ = False"

definition jwt_faithful :: "'tok jwt_encode \<Rightarrow> 'tok jwt_decode \<Rightarrow> string \<Rightarrow> bool" where
  "jwt_faithful enc dec secret \<longleftrightarrow>
     (\<forall>p. map fst p \<in> {ACCESS_CLAIMS, TASK_CLAIMS} \<longrightarrow> list_all (claim_value \<circ> snd) p
        \<longrightarrow> dec secret (enc p secret) (map fst p) = Some p)"

lemma jwt_faithfulD:
  "jwt_faithful enc dec secret \<Longrightarrow> map fst p = required \<Longrightarrow> required \<in> {ACCESS_CLAIMS, TASK_CLAIMS}
     \<Longrightarrow> list_all (claim_value \<circ> snd) p \<Longrightarrow> dec secret (enc p secret) required = Some p"
  unfolding jwt_faithful_def by blast

lemma issue_access_token_Inr:
  assumes "issue_access_token enc secret new_id sid org act now ttl = Inr (token, claims)"
  obtains t where "now = Aware t" and "secret \<noteq> []" and "0 < ttl" and "ttl \<le> ACCESS_TOKEN_MAX_TTL"
    and "token = enc [(''jti'', PStr (uuid_str new_id)), (''sid'', PStr (uuid_str sid)), (''org'', PStr (uuid_str org)),
      (''act'', PStr (uuid_str act)), (''iat'', PInt (timestamp t)), (''exp'', PInt (timestamp (t + ttl)))] secret"
    and "claims = \<lparr> at_jti = uuid_str new_id, at_session_id = sid, at_organization_id = org, at_actor_id = act,
      at_issued_at = t, at_expires_at = t + ttl \<rparr>"
  using assms by (auto simp: issue_access_token_def Let_def split: if_splits clock_time.splits)

text \<open>A concrete signature scheme: the token is the payload with its secret.\<close>

definition plain_encode :: "(payload \<times> string) jwt_encode" where
  "plain_encode p secret = (p, secret)"

definition plain_decode :: "(payload \<times> string) jwt_decode" where
  "plain_decode secret token required =
     (if snd token = secret \<and> list_all (\<lambda>k. map_of (fst token) k \<notin> {None, Some PNone}) required
      then Some (fst token) else None)"

lemma claims_present:
  assumes "PNone \<notin> snd ` set p"
  shows "list_all (\<lambda>k. map_of p k \<notin> {None, Some PNone}) (map fst p)"
  unfolding list_all_iff
proof
  fix k assume "k \<in> set (map fst p)"
  then have "k \<in> dom (map_of p)" by (simp add: dom_map_of_conv_image_fst)
  then obtain v where v: "map_of p k = Some v" by blast
  then have "(k, v) \<in> set p" by (rule map_of_SomeD)
  with assms have "v \<noteq> PNone" by (auto simp: image_iff)
  with v show "map_of p k \<notin> {None, Some PNone}" by simp
qed

lemma plain_faithful: "jwt_faithful plain_encode plain_decode secret"
  unfolding jwt_faithful_def plain_encode_def plain_decode_def fst_conv snd_conv
proof (intro allI impI)
  fix p :: payload
  assume "list_all (claim_value \<circ> snd) p"
  then have "PNone \<notin> snd ` set p" by (force simp: list_all_iff)
  then have "list_all (\<lambda>k. map_of p k \<notin> {None, Some PNone}) (map fst p)" by (rule claims_present)
  then show "(if secret = secret \<and> list_all (\<lambda>k. map_of p k \<notin> {None, Some PNone}) (map fst p) then Some p else None) = Some p"
    by (simp only: simp_thms if_True)
qed

lemmas token_claims = claim_int_def claim_uuid_def claim_time_def

text \<open>An issued token verifies to its claims, with the times rounded down to the second, until its expiry.\<close>

lemma issued_token_verifies:
  assumes "jwt_faithful enc dec secret"
    and "issue_access_token enc secret new_id sid org act (Aware t) ttl = Inr (token, claims)"
    and "valid_time t" and "valid_time (t + ttl)"
  shows "verify_access_token dec repr secret token (Aware t') =
    (if timestamp (t + ttl) \<le> timestamp t' then Inl TokenRejected
     else Inr (claims\<lparr> at_issued_at := timestamp t * 1000000, at_expires_at := timestamp (t + ttl) * 1000000 \<rparr>))"
proof -
  from assms(2) have secret: "secret \<noteq> []"
    and token: "token = enc [(''jti'', PStr (uuid_str new_id)), (''sid'', PStr (uuid_str sid)),
      (''org'', PStr (uuid_str org)), (''act'', PStr (uuid_str act)), (''iat'', PInt (timestamp t)),
      (''exp'', PInt (timestamp (t + ttl)))] secret" (is "token = enc ?p secret")
    and claims: "claims = \<lparr> at_jti = uuid_str new_id, at_session_id = sid, at_organization_id = org,
      at_actor_id = act, at_issued_at = t, at_expires_at = t + ttl \<rparr>"
    by (auto elim!: issue_access_token_Inr)
  have "dec secret token ACCESS_CLAIMS = Some ?p"
    unfolding token by (rule jwt_faithfulD [OF assms(1)]) (simp_all add: ACCESS_CLAIMS_def)
  then show ?thesis using assms(3,4) by (simp add: verify_access_token_def token_claims claims)
qed

section \<open>Properties\<close>

text \<open>
  C36. Access tokens round trip. A token that was issued verifies under its secret to the
  identities it was issued for, with both times rounded down to the second, at every moment whose
  second is before that of its expiry, and is rejected from then on.
\<close>

theorem access_token_roundtrip:
  assumes "jwt_faithful enc dec secret"
    and "issue_access_token enc secret new_id sid org act (Aware t) ttl = Inr (token, claims)"
    and "valid_time t" and "valid_time (t + ttl)"
  shows "verify_access_token dec repr secret token (Aware t') =
    (if timestamp (t + ttl) \<le> timestamp t' then Inl TokenRejected
     else Inr (claims\<lparr> at_issued_at := timestamp t * 1000000, at_expires_at := timestamp (t + ttl) * 1000000 \<rparr>))"
  using assms by (rule issued_token_verifies)

theorem access_token_roundtrip_witness:
  "\<exists>claims. verify_access_token plain_decode (\<lambda>_. []) ''k'' (plain_encode [(''jti'', PStr (uuid_str 1)), (''sid'', PStr (uuid_str 2)),
      (''org'', PStr (uuid_str 3)), (''act'', PStr (uuid_str 4)), (''iat'', PInt 5), (''exp'', PInt 65)] ''k'') (Aware 64999999)
    = Inr claims"
proof -
  let ?token = "plain_encode [(''jti'', PStr (uuid_str 1)), (''sid'', PStr (uuid_str 2)),
      (''org'', PStr (uuid_str 3)), (''act'', PStr (uuid_str 4)), (''iat'', PInt 5), (''exp'', PInt 65)] ''k''"
  have "issue_access_token plain_encode ''k'' 1 2 3 4 (Aware 5000000) 60000000 = Inr (?token,
      \<lparr> at_jti = uuid_str 1, at_session_id = 2, at_organization_id = 3, at_actor_id = 4,
        at_issued_at = 5000000, at_expires_at = 65000000 \<rparr>)"
    by (simp add: issue_access_token_def ACCESS_TOKEN_MAX_TTL_def Let_def timestamp_def)
  note access_token_roundtrip [OF plain_faithful this, of "\<lambda>_. []" 64999999]
  then show ?thesis by (simp add: valid_time_def MIN_TIMESTAMP_def MAX_TIMESTAMP_def timestamp_def)
qed

text \<open>
  A leased task comes with a credential for it and for nothing else. With a signing key
  configured and a duration the endpoint admits, a granted lease is never lost to the minting; the
  credential verifies exactly for this task and this worker, in the seconds before the lease
  expires, and names the lease that the task now holds.
\<close>

theorem lease_credential_bound:
  assumes "jwt_faithful enc dec key" and "key \<noteq> []" and "1 \<le> seconds" and "seconds \<le> 3600"
    and lease: "lease_task tid worker (seconds * 1000000) now lease_id db = Inr (task, db')"
    and "valid_time now" and "valid_time (now + seconds * 1000000)"
  shows "\<exists>token claims. lease_endpoint enc (Some key) cx tid worker seconds now lease_id jti db
      = Inr (task, token, claims, db')
    \<and> get_task tid db' = Some task \<and> tk_lease_id task = Some lease_id
    \<and> (\<forall>t' task' worker'. verify_task_credential dec repr key token (Aware t') (Some task') (Some worker') =
        (if timestamp (now + seconds * 1000000) \<le> timestamp t' \<or> task' \<noteq> tid \<or> worker' \<noteq> worker then Inl TokenRejected
         else Inr \<lparr> tc_jti = uuid_str jti, tc_task_id = tid, tc_worker_id = worker, tc_lease_id = lease_id,
           tc_organization_id = oc_organization_id cx, tc_scoped_capabilities = [tk_capability_id task],
           tc_issued_at = timestamp now * 1000000,
           tc_expires_at = timestamp (now + seconds * 1000000) * 1000000 \<rparr>))"
proof -
  let ?exp = "now + seconds * 1000000"
  define p where "p = [(''jti'', PStr (uuid_str jti)), (''tsk'', PStr (uuid_str tid)), (''wkr'', PStr (uuid_str worker)),
    (''lse'', PStr (uuid_str lease_id)), (''org'', PStr (uuid_str (oc_organization_id cx))),
    (''cap'', PList (map (PStr \<circ> uuid_str) [tk_capability_id task])),
    (''iat'', PInt (timestamp now)), (''exp'', PInt (timestamp ?exp))]"
  have look: "claim p ''jti'' = Inr (PStr (uuid_str jti))" "claim_uuid repr p ''tsk'' = Inr tid"
    "claim_uuid repr p ''wkr'' = Inr worker" "claim_uuid repr p ''lse'' = Inr lease_id"
    "claim_uuid repr p ''org'' = Inr (oc_organization_id cx)"
    "claim p ''cap'' = Inr (PList (map (PStr \<circ> uuid_str) [tk_capability_id task]))"
    "claim_int p ''exp'' = Inr (timestamp ?exp)" "claim_time p ''iat'' = Inr (timestamp now * 1000000)"
    "claim_time p ''exp'' = Inr (timestamp ?exp * 1000000)"
    using assms(6,7) by (simp_all add: p_def token_claims)
  have row: "get_task tid db' = Some task"
    using lease by (auto simp: lease_task_def Let_def split: option.splits)
  then have mem: "task \<in> set (wk_tasks db') \<and> tk_id task = tid" by (rule get_task_Some)
  from lease have db': "db' = lease_write tid lease_id worker ?exp db" by (rule lease_task_cases)
  then have "task \<in> set (update_where (\<lambda>x. tk_id x = tid) (lease_row lease_id worker ?exp) (wk_tasks db))"
    using mem by (simp add: lease_write_def set_task_def)
  then obtain x where "task = (if tk_id x = tid then lease_row lease_id worker ?exp x else x)"
    unfolding set_update_where by blast
  with mem have "task = lease_row lease_id worker ?exp x" by (cases "tk_id x = tid") simp_all
  then have fields: "tk_lease_id task = Some lease_id" "tk_lease_expires_at task = Some ?exp"
    by (simp_all add: lease_row_def)
  have dec: "dec key (enc p key) TASK_CLAIMS = Some p"
    by (rule jwt_faithfulD [OF assms(1)]) (simp_all add: TASK_CLAIMS_def p_def)
  have "lease_endpoint enc (Some key) cx tid worker seconds now lease_id jti db = Inr (task, enc p key,
      \<lparr> tc_jti = uuid_str jti, tc_task_id = tid, tc_worker_id = worker, tc_lease_id = lease_id,
        tc_organization_id = oc_organization_id cx, tc_scoped_capabilities = [tk_capability_id task],
        tc_issued_at = now, tc_expires_at = ?exp \<rparr>, db')"
    using assms(2-5) mem fields
    by (simp add: lease_endpoint_def mint_task_credential_def TASK_CREDENTIAL_MAX_TTL_def Let_def p_def)
  moreover have "verify_task_credential dec repr key (enc p key) (Aware t') (Some task') (Some worker') =
      (if timestamp ?exp \<le> timestamp t' \<or> task' \<noteq> tid \<or> worker' \<noteq> worker then Inl TokenRejected
       else Inr \<lparr> tc_jti = uuid_str jti, tc_task_id = tid, tc_worker_id = worker, tc_lease_id = lease_id,
           tc_organization_id = oc_organization_id cx, tc_scoped_capabilities = [tk_capability_id task],
           tc_issued_at = timestamp now * 1000000, tc_expires_at = timestamp ?exp * 1000000 \<rparr>)" for t' task' worker'
    by (simp add: verify_task_credential_def dec look Let_def)
  ultimately show ?thesis using row fields(1) by blast
qed

definition queued_task_db :: workflow_db where
  "queued_task_db = empty_workflow_db\<lparr> wk_tasks :=
     [\<lparr> tk_id = 5, tk_organization_id = 1, tk_run_id = 4, tk_node_id = ''fetch'', tk_capability_id = 9,
        tk_state = ''queued'', tk_attempts = 0, tk_lease_id = None, tk_leased_by = None,
        tk_lease_expires_at = None, tk_input = [], tk_priority = 5 \<rparr>] \<rparr>"

theorem lease_credential_bound_witness:
  "\<exists>task token claims db'. lease_endpoint plain_encode (Some ''k'') workflow_context 5 21 60 0 31 77 queued_task_db
      = Inr (task, token, claims, db')
    \<and> (\<forall>t'. verify_task_credential plain_decode (\<lambda>_. []) ''k'' token (Aware t') (Some 6) (Some 21) = Inl TokenRejected)"
proof -
  have "\<exists>task db'. lease_task 5 21 (60 * 1000000) 0 31 queued_task_db = Inr (task, db')"
    by (simp add: workflow_eval queued_task_db_def)
  then obtain task db' where lease: "lease_task 5 21 (60 * 1000000) 0 31 queued_task_db = Inr (task, db')" by blast
  have "valid_time 0" "valid_time (0 + 60 * 1000000)"
    by (simp_all add: valid_time_def MIN_TIMESTAMP_def MAX_TIMESTAMP_def)
  from lease_credential_bound [OF plain_faithful _ _ _ lease this, of "''k''" workflow_context 77 "\<lambda>_. []"]
  show ?thesis by auto
qed

end
