(* ===== verification/Coordination.thy ===== *)
theory Coordination
  imports Prelude
begin

text \<open>
  The multi-agent coordinator (\<^verbatim>\<open>subsystems/xioflow/engine/coordinator.py\<close>): construction and
  validation of a plan, assignment of agents, and the loop that executes the ready tasks round by
  round.

  A plan is the dictionary of its nodes, in insertion order. The tasks of a round run concurrently,
  but each writes its own node and reads only results of tasks that ended in earlier rounds, so a
  round is one simultaneous step. The run of an agent, \<^verbatim>\<open>engine/agent_executor.py\<close>, is the
  parameter \<open>run\<close>. Agents come in the order in which the database scans them; the ORDER BY is a
  stable sort of it, so its ties are broken arbitrarily.
\<close>

record task_node =
  cn_task_id :: string
  cn_description :: string
  cn_agent_id :: "string option"
  cn_agent_type :: "string option"
  cn_domain :: "string option"
  cn_depends_on :: "string list"
  cn_critical :: bool
  cn_state :: string
  cn_result :: pyval
  cn_error :: "string option"
  cn_agent_run_id :: pyval

record task_spec =
  ts_task_id :: "string option"
  ts_description :: "string option"
  ts_agent_id :: "string option"
  ts_agent_type :: "string option"
  ts_domain :: "string option"
  ts_depends_on :: "string list option"
  ts_critical :: "bool option"

type_synonym plan = "(string \<times> task_node) list"

datatype plan_error = CircularDependency string | MissingDescription

section \<open>Construction of a plan\<close>

definition build_node :: "nat \<Rightarrow> task_spec \<Rightarrow> plan_error + task_node" where
  "build_node i t =
     (case ts_description t of
        None \<Rightarrow> Inl MissingDescription
      | Some d \<Rightarrow> Inr
          \<lparr> cn_task_id = (case ts_task_id t of None \<Rightarrow> ''task_'' @ nat_str i | Some tid \<Rightarrow> tid),
            cn_description = d, cn_agent_id = ts_agent_id t, cn_agent_type = ts_agent_type t,
            cn_domain = ts_domain t,
            cn_depends_on = (case ts_depends_on t of None \<Rightarrow> [] | Some ds \<Rightarrow> ds),
            cn_critical = (case ts_critical t of None \<Rightarrow> True | Some c \<Rightarrow> c),
            cn_state = ''PENDING'', cn_result = PDict [], cn_error = None, cn_agent_run_id = PNone \<rparr>)"

fun build_nodes :: "nat \<Rightarrow> task_spec list \<Rightarrow> plan_error + task_node list" where
  "build_nodes i [] = Inr []"
| "build_nodes i (t # ts) = rbind (build_node i t) (\<lambda>n. rbind (build_nodes (Suc i) ts) (\<lambda>ns. Inr (n # ns)))"

text \<open>\<open>{t.task_id: t for t in tasks}\<close>: a later node takes the place of an earlier one of the same id.\<close>

definition plan_of :: "task_node list \<Rightarrow> plan" where
  "plan_of nodes = fold (\<lambda>n p. AList.update (cn_task_id n) n p) nodes []"

lemma path_measure: "map_of p tid = Some n \<Longrightarrow> tid \<notin> path \<Longrightarrow> card (fst ` set p - insert tid path) < card (fst ` set p - path)"
proof (rule psubset_card_mono)
  assume "map_of p tid = Some n" "tid \<notin> path"
  then have "tid \<in> fst ` set p - path" by (auto dest: map_of_SomeD intro: rev_image_eqI)
  then show "fst ` set p - insert tid path \<subset> fst ` set p - path" by auto
qed simp

text \<open>\<open>_dfs\<close>: \<open>path\<close> is the stack of the recursion, which every call leaves as it found it.\<close>

function dfs :: "plan \<Rightarrow> string set \<Rightarrow> string set \<Rightarrow> string \<Rightarrow> plan_error + string set"
  and dfs_all :: "plan \<Rightarrow> string set \<Rightarrow> string set \<Rightarrow> string list \<Rightarrow> plan_error + string set" where
  "dfs p path visited tid =
     (if tid \<in> path then Inl (CircularDependency tid)
      else if tid \<in> visited then Inr visited
      else case map_of p tid of
        None \<Rightarrow> Inr (insert tid visited)
      | Some n \<Rightarrow> rbind (dfs_all p (insert tid path) visited (cn_depends_on n)) (\<lambda>v. Inr (insert tid v)))"
| "dfs_all p path visited [] = Inr visited"
| "dfs_all p path visited (d # ds) =
     (if d \<in> fst ` set p then rbind (dfs p path visited d) (\<lambda>v. dfs_all p path v ds)
      else dfs_all p path visited ds)"
  by pat_completeness auto

termination
  by (relation "measures
      [case_sum (\<lambda>(p, path, visited, tid). card (fst ` set p - path)) (\<lambda>(p, path, visited, ds). card (fst ` set p - path)),
       case_sum (\<lambda>_. 0) (\<lambda>(p, path, visited, ds). Suc (length ds))]")
    (auto simp: path_measure)

declare dfs.simps [simp del]

definition validate_dag :: "plan \<Rightarrow> plan_error + unit" where
  "validate_dag p = rbind (dfs_all p {} {} (map fst p)) (\<lambda>_. Inr ())"

section \<open>The state of a plan\<close>

definition deps_satisfied :: "plan \<Rightarrow> task_node \<Rightarrow> bool" where
  "deps_satisfied p n \<longleftrightarrow>
     list_all (\<lambda>d. case map_of p d of None \<Rightarrow> True | Some m \<Rightarrow> cn_state m \<in> {''SUCCESS'', ''SKIPPED''}) (cn_depends_on n)"

definition is_ready :: "plan \<Rightarrow> task_node \<Rightarrow> bool" where
  "is_ready p n \<longleftrightarrow> cn_state n = ''PENDING'' \<and> deps_satisfied p n"

definition get_ready_tasks :: "plan \<Rightarrow> task_node list" where
  "get_ready_tasks p = filter (is_ready p) (map snd p)"

definition is_complete :: "plan \<Rightarrow> bool" where
  "is_complete p \<longleftrightarrow> list_all (\<lambda>(_, n). cn_state n \<in> {''SUCCESS'', ''FAILED'', ''SKIPPED''}) p"

definition has_critical_failure :: "plan \<Rightarrow> bool" where
  "has_critical_failure p \<longleftrightarrow> list_ex (\<lambda>(_, n). cn_state n = ''FAILED'' \<and> cn_critical n) p"

section \<open>Agents\<close>

record agent_row =
  ag_id :: string
  ag_organization_id :: string
  ag_agent_type :: string
  ag_state :: string
  ag_is_enabled :: bool
  ag_deleted :: bool
  ag_total_failures :: int
  ag_total_successes :: int

definition truthy_text :: "string option \<Rightarrow> bool" where
  "truthy_text s \<longleftrightarrow> s \<noteq> None \<and> s \<noteq> Some []"

definition agent_matches :: "string \<Rightarrow> string option \<Rightarrow> agent_row \<Rightarrow> bool" where
  "agent_matches org_id agent_type a \<longleftrightarrow>
     ag_organization_id a = org_id \<and> ag_is_enabled a \<and> \<not> ag_deleted a
     \<and> (truthy_text agent_type \<longrightarrow> Some (ag_agent_type a) = agent_type)
     \<and> ag_state a \<in> {''idle'', ''errored''}"

text \<open>The key of the ORDER BY, compared lexicographically.\<close>

definition agent_before :: "agent_row \<Rightarrow> agent_row \<Rightarrow> bool" where
  "agent_before a b \<longleftrightarrow>
     (let ka = if ag_state a = ''idle'' then 0 else 1 :: nat; kb = if ag_state b = ''idle'' then 0 else 1
      in ka < kb \<or> ka = kb \<and> (ag_total_failures a < ag_total_failures b
          \<or> ag_total_failures a = ag_total_failures b \<and> ag_total_successes b < ag_total_successes a))"

text \<open>The first row of the sorted result.\<close>

fun best_of :: "agent_row option \<Rightarrow> agent_row list \<Rightarrow> agent_row option" where
  "best_of best [] = best"
| "best_of best (a # as) =
     best_of (case best of None \<Rightarrow> Some a | Some b \<Rightarrow> if agent_before a b then Some a else Some b) as"

definition find_best_agent :: "agent_row list \<Rightarrow> string \<Rightarrow> string option \<Rightarrow> agent_row option" where
  "find_best_agent agents org_id agent_type = best_of None (filter (agent_matches org_id agent_type) agents)"

definition assign_agent :: "agent_row list \<Rightarrow> string \<Rightarrow> task_node \<Rightarrow> task_node" where
  "assign_agent agents org_id n =
     (if truthy_text (cn_agent_id n) then n
      else case find_best_agent agents org_id (cn_agent_type n) of
        None \<Rightarrow> n
      | Some a \<Rightarrow> n\<lparr> cn_agent_id := Some (ag_id a) \<rparr>)"

definition assign_agents :: "agent_row list \<Rightarrow> string \<Rightarrow> plan \<Rightarrow> plan" where
  "assign_agents agents org_id p = map (map_prod id (assign_agent agents org_id)) p"

section \<open>Execution\<close>

text \<open>What \<open>execute_goal\<close> answers: an exception, or a dictionary with its truthiness of \<open>success\<close>.\<close>

datatype run_outcome =
    RunRaised string
  | RunResult bool "pyval option" "string option" pyval

type_synonym agent_run = "string \<Rightarrow> string \<Rightarrow> (string \<times> pyval) list \<Rightarrow> run_outcome"

definition task_context :: "plan \<Rightarrow> (string \<times> pyval) list \<Rightarrow> task_node \<Rightarrow> (string \<times> pyval) list" where
  "task_context p context n =
     fold (\<lambda>d c. case map_of p d of
              None \<Rightarrow> c
            | Some m \<Rightarrow> if py_truthy (cn_result m) then AList.update (''dep_'' @ d) (cn_result m) c else c)
       (cn_depends_on n) context"

definition execute_task :: "agent_run \<Rightarrow> (string \<times> pyval) list \<Rightarrow> plan \<Rightarrow> task_node \<Rightarrow> task_node" where
  "execute_task run context p n =
     (if \<not> truthy_text (cn_agent_id n)
      then n\<lparr> cn_state := ''FAILED'', cn_error := Some ''No agent assigned'' \<rparr>
      else case run (the (cn_agent_id n)) (cn_description n) (task_context p context n) of
        RunRaised e \<Rightarrow> n\<lparr> cn_state := ''FAILED'', cn_error := Some e \<rparr>
      | RunResult success results err run_id \<Rightarrow>
          let n' = n\<lparr> cn_agent_run_id := run_id \<rparr>
          in if success
             then n'\<lparr> cn_state := ''SUCCESS'', cn_result := (case results of None \<Rightarrow> PList [] | Some r \<Rightarrow> r) \<rparr>
             else n'\<lparr> cn_state := ''FAILED'', cn_error := Some (case err of None \<Rightarrow> ''unknown'' | Some e \<Rightarrow> e) \<rparr>)"

definition execute_round :: "agent_run \<Rightarrow> (string \<times> pyval) list \<Rightarrow> plan \<Rightarrow> plan" where
  "execute_round run context p =
     map (map_prod id (\<lambda>n. if is_ready p n then execute_task run context p n else n)) p"

definition skip_pending :: "plan \<Rightarrow> plan" where
  "skip_pending p =
     map (map_prod id (\<lambda>n. if cn_state n = ''PENDING''
       then n\<lparr> cn_state := ''SKIPPED'', cn_error := Some ''skipped due to critical failure'' \<rparr> else n)) p"

text \<open>The loop with the iterations that are left.\<close>

fun plan_loop :: "agent_run \<Rightarrow> (string \<times> pyval) list \<Rightarrow> nat \<Rightarrow> plan \<Rightarrow> plan" where
  "plan_loop run context 0 p = p"
| "plan_loop run context (Suc k) p =
     (if is_complete p then p
      else if has_critical_failure p then skip_pending p
      else if get_ready_tasks p = [] then p
      else plan_loop run context k (execute_round run context p))"

definition plan_success :: "plan \<Rightarrow> bool" where
  "plan_success p \<longleftrightarrow> \<not> has_critical_failure p \<and> list_all (\<lambda>(_, n). cn_state n \<in> {''SUCCESS'', ''SKIPPED''}) p"

definition coordinate ::
  "agent_run \<Rightarrow> agent_row list \<Rightarrow> string \<Rightarrow> task_spec list \<Rightarrow> (string \<times> pyval) list \<Rightarrow> plan_error + bool \<times> plan" where
  "coordinate run agents org_id tasks context =
     rbind (build_nodes 0 tasks) (\<lambda>nodes.
       let p = plan_of nodes
       in rbind (validate_dag p) (\<lambda>_.
         let q = plan_loop run context (length p * 2) (assign_agents agents org_id p)
         in Inr (plan_success q, q)))"

section \<open>The search for a cycle\<close>

text \<open>The dependencies between the tasks of the plan; unknown names do not count.\<close>

definition dep_rel :: "plan \<Rightarrow> (string \<times> string) set" where
  "dep_rel p = {(t, d). \<exists>n. map_of p t = Some n \<and> d \<in> set (cn_depends_on n) \<and> d \<in> fst ` set p}"

definition settled :: "('a \<times> 'a) set \<Rightarrow> 'a set \<Rightarrow> bool" where
  "settled R V \<longleftrightarrow> R `` V \<subseteq> V \<and> acyclic (R \<inter> V \<times> V)"

lemma settled_insert:
  assumes V: "settled R V" and x: "R `` {x} \<subseteq> V"
  shows "settled R (insert x V)"
proof (cases "x \<in> V")
  case True
  with V show ?thesis by (simp add: insert_absorb)
next
  case False
  let ?T = "R \<inter> insert x V \<times> insert x V"
  have into: "b \<in> V" if "(a, b) \<in> ?T" for a b
    using that V x False by (auto simp: settled_def)
  have path: "b \<in> V \<and> (a = x \<or> (a, b) \<in> (R \<inter> V \<times> V)\<^sup>+)" if "(a, b) \<in> ?T\<^sup>+" for a b
    using that
  proof (induction rule: trancl_induct)
    case (base b)
    then have "b \<in> V" by (rule into)
    moreover have "a = x \<or> (a, b) \<in> R \<inter> V \<times> V" using base \<open>b \<in> V\<close> by blast
    ultimately show ?case by blast
  next
    case (step b c)
    have c: "c \<in> V" by (rule into) (rule step.hyps(2))
    moreover have "(b, c) \<in> R \<inter> V \<times> V" using step c by blast
    ultimately show ?case using step.IH by (blast intro: trancl_into_trancl)
  qed
  have "acyclic ?T"
  proof (rule acyclicI, intro allI notI)
    fix a assume "(a, a) \<in> ?T\<^sup>+"
    from path [OF this] False have "(a, a) \<in> (R \<inter> V \<times> V)\<^sup>+" by auto
    with V show False by (simp add: settled_def acyclic_def)
  qed
  with V x show ?thesis by (auto simp: settled_def)
qed

lemma dep_rel_image: "map_of p t = Some n \<Longrightarrow> dep_rel p `` {t} = set (cn_depends_on n) \<inter> fst ` set p"
  by (auto simp: dep_rel_def)

lemma dfs_sound:
  "dfs p path V t = Inr V' \<Longrightarrow> settled (dep_rel p) V \<Longrightarrow> settled (dep_rel p) V' \<and> V \<subseteq> V' \<and> t \<in> V'"
  "dfs_all p path V ds = Inr V' \<Longrightarrow> settled (dep_rel p) V \<Longrightarrow>
     settled (dep_rel p) V' \<and> V \<subseteq> V' \<and> set ds \<inter> fst ` set p \<subseteq> V'"
proof (induction p path V t and p path V ds arbitrary: V' and V' rule: dfs_dfs_all.induct)
  case (1 p path V t)
  show ?case
  proof (cases "map_of p t")
    case None
    then have "dep_rel p `` {t} = {}" by (auto simp: dep_rel_def)
    with 1 None show ?thesis by (auto simp: dfs.simps settled_insert split: if_splits)
  next
    case (Some n)
    show ?thesis
    proof (cases "t \<in> V")
      case True
      with 1 show ?thesis by (auto simp: dfs.simps split: if_splits)
    next
      case False
      with 1(2) Some obtain W where W: "dfs_all p (insert t path) V (cn_depends_on n) = Inr W"
        and V': "V' = insert t W" and free: "t \<notin> path"
        by (auto simp: dfs.simps split: if_splits)
      from 1(1) [OF free False Some W 1(3)] have IH: "settled (dep_rel p) W" "V \<subseteq> W"
        "set (cn_depends_on n) \<inter> fst ` set p \<subseteq> W" by auto
      from IH(3) have "dep_rel p `` {t} \<subseteq> W" by (simp add: dep_rel_image [OF Some])
      with IH(1) have "settled (dep_rel p) (insert t W)" by (rule settled_insert)
      with IH(2) show ?thesis unfolding V' by blast
    qed
  qed
next
  case (2 p path V)
  then show ?case by simp
next
  case (3 p path V d ds)
  show ?case
  proof (cases "d \<in> fst ` set p")
    case True
    with 3(4) obtain W where W: "dfs p path V d = Inr W" "dfs_all p path W ds = Inr V'" by auto
    from 3(1) [OF True W(1) 3(5)] have first: "settled (dep_rel p) W" "V \<subseteq> W" "d \<in> W" by auto
    from 3(2) [OF True W(2) first(1)] first show ?thesis by auto
  next
    case False
    with 3(4) have "dfs_all p path V ds = Inr V'" by simp
    from 3(3) [OF False this 3(5)] False show ?thesis by auto
  qed
qed

lemma dfs_complete:
  "dfs p path V t = Inl e \<Longrightarrow> (\<forall>q \<in> path. (q, t) \<in> (dep_rel p)\<^sup>+) \<Longrightarrow> \<not> acyclic (dep_rel p)"
  "dfs_all p path V ds = Inl e \<Longrightarrow> (\<forall>q \<in> path. \<forall>d \<in> set ds \<inter> fst ` set p. (q, d) \<in> (dep_rel p)\<^sup>+) \<Longrightarrow> \<not> acyclic (dep_rel p)"
proof (induction p path V t and p path V ds rule: dfs_dfs_all.induct)
  case (1 p path V t)
  show ?case
  proof (cases "t \<in> path")
    case True
    with 1 show ?thesis by (auto simp: acyclic_def)
  next
    case False
    with 1(2) obtain n where n: "map_of p t = Some n" "t \<notin> V"
      and err: "dfs_all p (insert t path) V (cn_depends_on n) = Inl e"
      by (auto simp: dfs.simps rbind_eq_Inl split: if_splits option.splits)
    have "(t, d) \<in> dep_rel p" if "d \<in> set (cn_depends_on n) \<inter> fst ` set p" for d
      using that n by (auto simp: dep_rel_def)
    with 1(3) have "\<forall>q \<in> insert t path. \<forall>d \<in> set (cn_depends_on n) \<inter> fst ` set p. (q, d) \<in> (dep_rel p)\<^sup>+"
      by (auto intro: trancl_into_trancl)
    with 1(1) [OF False n(2,1) err] show ?thesis by blast
  qed
next
  case (2 p path V)
  then show ?case by simp
next
  case (3 p path V d ds)
  show ?case
  proof (cases "d \<in> fst ` set p")
    case True
    with 3(4) consider "dfs p path V d = Inl e" | W where "dfs_all p path W ds = Inl e"
      by (auto simp: rbind_eq_Inl)
    then show ?thesis
    proof cases
      case 1
      from 3(1) [OF True this] 3(5) True show ?thesis by simp
    next
      case 2
      from 3(2) [OF True 2] 3(5) show ?thesis by simp
    qed
  next
    case False
    with 3(4) have "dfs_all p path V ds = Inl e" by simp
    from 3(3) [OF False this] 3(5) show ?thesis by simp
  qed
qed

lemma validate_dag_iff: "validate_dag p = Inr () \<longleftrightarrow> acyclic (dep_rel p)"
proof (cases "dfs_all p {} {} (map fst p)")
  case (Inl e)
  with dfs_complete(2) [OF Inl] show ?thesis by (simp add: validate_dag_def)
next
  case (Inr V)
  have "settled (dep_rel p) {}" by (simp add: settled_def acyclic_def)
  with dfs_sound(2) [OF Inr] have V: "settled (dep_rel p) V" "fst ` set p \<subseteq> V" by auto
  have "dep_rel p \<subseteq> V \<times> V"
    using V(2) by (auto simp: dep_rel_def dest!: map_of_SomeD intro!: subsetD [OF V(2)] image_eqI)
  then have "dep_rel p \<inter> V \<times> V = dep_rel p" by blast
  with V(1) Inr show ?thesis by (simp add: settled_def validate_dag_def)
qed

section \<open>The rounds\<close>

lemma map_of_map_prod [simp]: "map_of (map (map_prod id f) p) k = map_option f (map_of p k)"
  by (induction p) auto

lemma dep_rel_map_prod: "(\<And>n. cn_depends_on (f n) = cn_depends_on n) \<Longrightarrow> dep_rel (map (map_prod id f) p) = dep_rel p"
  by (force simp: dep_rel_def)

definition plan_nodes :: "plan \<Rightarrow> task_node set" where
  "plan_nodes p = snd ` set p"

lemma plan_nodes_map_prod [simp]: "plan_nodes (map (map_prod id f) p) = f ` plan_nodes p"
  by (auto simp: plan_nodes_def image_image)

definition deps_succeeded :: "plan \<Rightarrow> task_node \<Rightarrow> bool" where
  "deps_succeeded p n \<longleftrightarrow> (\<forall>d \<in> set (cn_depends_on n). \<forall>m. map_of p d = Some m \<longrightarrow> cn_state m = ''SUCCESS'')"

lemma deps_succeeded_satisfied: "deps_succeeded p n \<Longrightarrow> deps_satisfied p n"
  by (auto simp: deps_succeeded_def deps_satisfied_def list_all_iff split: option.split)

text \<open>While the loop runs nothing is skipped, and whatever has run had its dependencies done.\<close>

definition plan_running :: "plan \<Rightarrow> bool" where
  "plan_running p \<longleftrightarrow> distinct (map fst p)
     \<and> (\<forall>n \<in> plan_nodes p. cn_state n \<in> {''PENDING'', ''SUCCESS'', ''FAILED''}
          \<and> (cn_state n \<noteq> ''PENDING'' \<longrightarrow> deps_succeeded p n))"

text \<open>What the loop leaves.\<close>

definition plan_ended :: "plan \<Rightarrow> bool" where
  "plan_ended p \<longleftrightarrow> distinct (map fst p)
     \<and> (\<forall>n \<in> plan_nodes p. cn_state n \<in> {''PENDING'', ''SUCCESS'', ''FAILED'', ''SKIPPED''}
          \<and> (cn_state n \<in> {''SUCCESS'', ''FAILED''} \<longrightarrow> deps_succeeded p n)
          \<and> (cn_state n = ''PENDING'' \<longrightarrow> \<not> has_critical_failure p \<and> \<not> deps_succeeded p n)
          \<and> (cn_state n = ''SKIPPED'' \<longrightarrow> has_critical_failure p))"

definition pending_tasks :: "plan \<Rightarrow> nat" where
  "pending_tasks p = length (filter (\<lambda>n. cn_state n = ''PENDING'') (map snd p))"

lemma execute_task_simps [simp]:
  "cn_depends_on (execute_task run c p n) = cn_depends_on n"
  "cn_critical (execute_task run c p n) = cn_critical n"
  "cn_agent_id (execute_task run c p n) = cn_agent_id n"
  "cn_state (execute_task run c p n) \<noteq> ''PENDING''"
  by (simp_all add: execute_task_def Let_def split: run_outcome.split)

lemma execute_task_state: "cn_state (execute_task run c p n) \<in> {''SUCCESS'', ''FAILED''}"
  by (simp add: execute_task_def Let_def split: run_outcome.split)

lemma in_plan: "map_of p d = Some m \<Longrightarrow> m \<in> plan_nodes p"
  unfolding plan_nodes_def by (force dest: map_of_SomeD)

lemma ready_deps_succeeded:
  assumes "plan_running p" and "is_ready p n"
  shows "deps_succeeded p n"
proof -
  have "cn_state m = ''SUCCESS''" if "d \<in> set (cn_depends_on n)" "map_of p d = Some m" for d m
  proof -
    have "cn_state m \<in> {''SUCCESS'', ''SKIPPED''}"
      using that assms(2) by (auto simp: is_ready_def deps_satisfied_def list_all_iff split: option.splits)
    moreover have "cn_state m \<in> {''PENDING'', ''SUCCESS'', ''FAILED''}"
      using in_plan [OF that(2)] assms(1) by (simp add: plan_running_def)
    ultimately show ?thesis by auto
  qed
  then show ?thesis by (simp add: deps_succeeded_def)
qed

lemma deps_succeeded_mono:
  assumes "deps_succeeded p n" and "cn_depends_on n' = cn_depends_on n"
    and "\<And>m. m \<in> plan_nodes p \<Longrightarrow> cn_state m = ''SUCCESS'' \<Longrightarrow> cn_state (f m) = ''SUCCESS''"
  shows "deps_succeeded (map (map_prod id f) p) n'"
  unfolding deps_succeeded_def
proof (intro ballI allI impI)
  fix d m assume d: "d \<in> set (cn_depends_on n')" and m: "map_of (map (map_prod id f) p) d = Some m"
  from m obtain m0 where m0: "map_of p d = Some m0" "m = f m0" by auto
  with d assms(1,2) have "cn_state m0 = ''SUCCESS''" by (simp add: deps_succeeded_def)
  with assms(3) [OF in_plan [OF m0(1)]] m0(2) show "cn_state m = ''SUCCESS''" by simp
qed

lemma execute_round_running:
  assumes run: "plan_running p"
  shows "plan_running (execute_round r c p)"
proof -
  let ?f = "\<lambda>n. if is_ready p n then execute_task r c p n else n"
  have keys: "map fst (map (map_prod id ?f) p) = map fst p" by simp
  have "cn_state (?f n) \<in> {''PENDING'', ''SUCCESS'', ''FAILED''}
      \<and> (cn_state (?f n) \<noteq> ''PENDING'' \<longrightarrow> deps_succeeded (map (map_prod id ?f) p) (?f n))"
    if n: "n \<in> plan_nodes p" for n
  proof -
    have old: "cn_state n \<in> {''PENDING'', ''SUCCESS'', ''FAILED''}" "cn_state n \<noteq> ''PENDING'' \<longrightarrow> deps_succeeded p n"
      using run n by (auto simp: plan_running_def)
    have "deps_succeeded p n" if "cn_state (?f n) \<noteq> ''PENDING''"
      using old(2) that ready_deps_succeeded [OF run, of n] by (cases "is_ready p n") simp_all
    then have "deps_succeeded (map (map_prod id ?f) p) (?f n)" if "cn_state (?f n) \<noteq> ''PENDING''"
      by (rule deps_succeeded_mono) (use that in \<open>auto simp: is_ready_def\<close>)
    moreover have "cn_state (?f n) \<in> {''PENDING'', ''SUCCESS'', ''FAILED''}"
      using old(1) execute_task_state [of r c p n] by auto
    ultimately show ?thesis by blast
  qed
  note nodes = this
  show ?thesis
    unfolding execute_round_def plan_running_def plan_nodes_map_prod ball_simps(9) keys
  proof (rule conjI)
    show "distinct (map fst p)" using run by (simp add: plan_running_def)
  qed (use nodes in \<open>rule ballI\<close>)
qed

lemma execute_round_pending:
  assumes "get_ready_tasks p \<noteq> []"
  shows "pending_tasks (execute_round r c p) < pending_tasks p"
proof -
  let ?f = "\<lambda>n. if is_ready p n then execute_task r c p n else n"
  let ?pend = "\<lambda>n. cn_state n = ''PENDING''"
  have round: "map snd (execute_round r c p) = map ?f (map snd p)"
    by (simp add: execute_round_def)
  from assms obtain n where n: "n \<in> set (map snd p)" "is_ready p n"
    by (auto simp: get_ready_tasks_def filter_empty_conv)
  have "filter ?pend (map ?f ns) = filter (\<lambda>n. \<not> is_ready p n) (filter ?pend ns)" for ns
    by (induction ns) auto
  then have "pending_tasks (execute_round r c p) = length (filter (\<lambda>n. \<not> is_ready p n) (filter ?pend (map snd p)))"
    unfolding pending_tasks_def round by (rule arg_cong)
  also have "\<dots> < length (filter ?pend (map snd p))"
    by (rule length_filter_less [of n]) (use n in \<open>auto simp: is_ready_def\<close>)
  finally show ?thesis by (simp add: pending_tasks_def)
qed

lemma critical_map_prod:
  "has_critical_failure (map (map_prod id f) p) \<longleftrightarrow> (\<exists>n \<in> plan_nodes p. cn_state (f n) = ''FAILED'' \<and> cn_critical (f n))"
  by (force simp: has_critical_failure_def list_ex_iff plan_nodes_def)

lemma critical_iff: "has_critical_failure p \<longleftrightarrow> (\<exists>n \<in> plan_nodes p. cn_state n = ''FAILED'' \<and> cn_critical n)"
  by (force simp: has_critical_failure_def list_ex_iff plan_nodes_def)

lemma complete_iff: "is_complete p \<longleftrightarrow> (\<forall>n \<in> plan_nodes p. cn_state n \<in> {''SUCCESS'', ''FAILED'', ''SKIPPED''})"
  by (force simp: is_complete_def list_all_iff plan_nodes_def)

lemma not_ready_iff: "get_ready_tasks p = [] \<longleftrightarrow> (\<forall>n \<in> plan_nodes p. \<not> is_ready p n)"
  by (force simp: get_ready_tasks_def filter_empty_conv plan_nodes_def)

lemma skip_pending_ended:
  assumes run: "plan_running p" and crit: "has_critical_failure p"
  shows "plan_ended (skip_pending p)"
proof -
  let ?f = "\<lambda>n. if cn_state n = ''PENDING''
       then n\<lparr> cn_state := ''SKIPPED'', cn_error := Some ''skipped due to critical failure'' \<rparr> else n"
  have keys: "map fst (map (map_prod id ?f) p) = map fst p" by simp
  have crit': "has_critical_failure (map (map_prod id ?f) p)"
    using crit unfolding critical_map_prod critical_iff by fastforce
  have "deps_succeeded (map (map_prod id ?f) p) n" if "deps_succeeded p n" for n
    using that by (rule deps_succeeded_mono) simp_all
  then show ?thesis
    using run keys crit' unfolding skip_pending_def plan_ended_def plan_running_def plan_nodes_map_prod ball_simps(9)
    by fastforce
qed

text \<open>The iterations that the loop allows itself are more than the pending tasks, so it is never cut short.\<close>

lemma plan_loop_ended:
  "plan_running p \<Longrightarrow> pending_tasks p < k \<Longrightarrow> plan_ended (plan_loop r c k p) \<and> dep_rel (plan_loop r c k p) = dep_rel p"
proof (induction k arbitrary: p)
  case (Suc k)
  consider "is_complete p" | "\<not> is_complete p" "has_critical_failure p"
    | "\<not> is_complete p" "\<not> has_critical_failure p" "get_ready_tasks p = []"
    | "\<not> is_complete p" "\<not> has_critical_failure p" "get_ready_tasks p \<noteq> []" by blast
  then show ?case
  proof cases
    case 1
    with Suc.prems(1) have "plan_ended p" by (fastforce simp: plan_ended_def plan_running_def complete_iff)
    with 1 show ?thesis by simp
  next
    case 2
    moreover have "dep_rel (skip_pending p) = dep_rel p"
      unfolding skip_pending_def by (rule dep_rel_map_prod) simp
    ultimately show ?thesis using skip_pending_ended [OF Suc.prems(1)] by simp
  next
    case 3
    then have "\<not> deps_succeeded p n" if "n \<in> plan_nodes p" "cn_state n = ''PENDING''" for n
      using that by (auto simp: not_ready_iff is_ready_def dest: deps_succeeded_satisfied)
    with Suc.prems(1) 3(2) have "plan_ended p" by (fastforce simp: plan_ended_def plan_running_def)
    with 3 show ?thesis by simp
  next
    case 4
    have "pending_tasks (execute_round r c p) < k"
      using execute_round_pending [OF 4(3), of r c] Suc.prems(2) by simp
    from Suc.IH [OF execute_round_running [OF Suc.prems(1)] this]
    have "plan_ended (plan_loop r c (Suc k) p)" "dep_rel (plan_loop r c (Suc k) p) = dep_rel (execute_round r c p)"
      using 4 by simp_all
    moreover have "dep_rel (execute_round r c p) = dep_rel p"
      unfolding execute_round_def by (rule dep_rel_map_prod) simp
    ultimately show ?thesis by simp
  qed
qed simp

lemma plan_of_distinct: "distinct (map fst (plan_of nodes))"
proof -
  have "distinct (map fst p) \<Longrightarrow> distinct (map fst (fold (\<lambda>n p. AList.update (cn_task_id n) n p) nodes p))" for p
    by (induction nodes arbitrary: p) (simp_all add: distinct_update)
  then show ?thesis by (simp add: plan_of_def)
qed

lemma build_nodes_state: "build_nodes i ts = Inr nodes \<Longrightarrow> n \<in> set nodes \<Longrightarrow> cn_state n = ''PENDING''"
  by (induction i ts arbitrary: nodes rule: build_nodes.induct) (auto simp: build_node_def split: option.splits)

lemma plan_of_nodes: "plan_nodes (plan_of nodes) \<subseteq> set nodes"
proof -
  have "plan_nodes (fold (\<lambda>n p. AList.update (cn_task_id n) n p) nodes p) \<subseteq> set nodes \<union> plan_nodes p" for p
  proof (induction nodes arbitrary: p)
    case (Cons n nodes)
    have "plan_nodes (AList.update (cn_task_id n) n p) \<subseteq> insert n (plan_nodes p)"
      by (induction p) (auto simp: plan_nodes_def)
    with Cons.IH [of "AList.update (cn_task_id n) n p"] show ?case by auto
  qed simp
  from this [of "[]"] show ?thesis by (simp add: plan_of_def plan_nodes_def)
qed

lemma assign_agent_simps [simp]:
  "cn_depends_on (assign_agent agents org n) = cn_depends_on n"
  "cn_state (assign_agent agents org n) = cn_state n"
  by (simp_all add: assign_agent_def split: option.split)

lemma coordinate_cases:
  assumes "coordinate run agents org tasks context = Inr (ok, q)"
  obtains nodes where "build_nodes 0 tasks = Inr nodes" and "acyclic (dep_rel (plan_of nodes))"
    and "q = plan_loop run context (length (plan_of nodes) * 2) (assign_agents agents org (plan_of nodes))"
    and "ok = plan_success q"
  using assms by (auto simp: coordinate_def Let_def simp flip: validate_dag_iff)

lemma start_running:
  assumes "build_nodes 0 tasks = Inr nodes"
  shows "plan_running (assign_agents agents org (plan_of nodes))"
proof -
  have "cn_state n = ''PENDING''" if "n \<in> plan_nodes (plan_of nodes)" for n
    using build_nodes_state [OF assms] plan_of_nodes [of nodes] that by blast
  moreover have "map fst (assign_agents agents org (plan_of nodes)) = map fst (plan_of nodes)"
    by (simp add: assign_agents_def)
  ultimately show ?thesis
    using plan_of_distinct [of nodes] unfolding plan_running_def assign_agents_def plan_nodes_map_prod by auto
qed

lemma pending_le_length: "pending_tasks p \<le> length p"
  unfolding pending_tasks_def by (metis length_filter_le length_map)

lemma plan_loop_keys: "map fst (plan_loop run c k p) = map fst p"
proof (induction k arbitrary: p)
  case (Suc k)
  have "map fst (skip_pending p) = map fst p" "map fst (execute_round run c p) = map fst p"
    by (simp_all add: skip_pending_def execute_round_def)
  then show ?case using Suc.IH [of "execute_round run c p"] by simp
qed simp

lemma coordinate_ended:
  assumes "build_nodes 0 tasks = Inr nodes"
    and "q = plan_loop run context (length (plan_of nodes) * 2) (assign_agents agents org (plan_of nodes))"
  shows "plan_ended q \<and> dep_rel q = dep_rel (plan_of nodes)"
proof -
  let ?p = "assign_agents agents org (plan_of nodes)"
  have deps: "dep_rel ?p = dep_rel (plan_of nodes)"
    unfolding assign_agents_def by (rule dep_rel_map_prod) simp
  have len: "length ?p = length (plan_of nodes)" by (simp add: assign_agents_def)
  show ?thesis
  proof (cases "plan_of nodes")
    case Nil
    with assms(2) show ?thesis by (simp add: plan_ended_def plan_nodes_def assign_agents_def)
  next
    case (Cons x xs)
    then have "pending_tasks ?p < length (plan_of nodes) * 2" using pending_le_length [of ?p] len by simp
    from plan_loop_ended [OF start_running [OF assms(1)] this] assms(2) deps show ?thesis by simp
  qed
qed

text \<open>In an acyclic plan a task that is still pending was blocked by a failure it depends on.\<close>

lemma finite_dep_rel: "finite (dep_rel p)"
proof (rule finite_subset)
  show "dep_rel p \<subseteq> fst ` set p \<times> fst ` set p" by (auto simp: dep_rel_def dest!: map_of_SomeD intro: rev_image_eqI)
qed simp

lemma pending_blocked:
  assumes ended: "plan_ended q" and acyclic: "acyclic (dep_rel q)"
  shows "map_of q t = Some n \<Longrightarrow> cn_state n = ''PENDING'' \<Longrightarrow>
    \<exists>f m. (t, f) \<in> (dep_rel q)\<^sup>+ \<and> map_of q f = Some m \<and> cn_state m = ''FAILED''"
proof (induction t arbitrary: n rule: wf_induct_rule [OF finite_acyclic_wf_converse [OF finite_dep_rel acyclic]])
  case (1 t)
  have n: "n \<in> plan_nodes q" using 1(2) by (rule in_plan)
  with ended 1(3) have "\<not> deps_succeeded q n" and uncritical: "\<not> has_critical_failure q"
    by (auto simp: plan_ended_def)
  then obtain d m where d: "d \<in> set (cn_depends_on n)" "map_of q d = Some m" "cn_state m \<noteq> ''SUCCESS''"
    by (auto simp: deps_succeeded_def)
  then have edge: "(t, d) \<in> dep_rel q" using 1(2) by (auto simp: dep_rel_def dest: map_of_SomeD intro: rev_image_eqI)
  from ended in_plan [OF d(2)] d(3) uncritical have "cn_state m = ''PENDING'' \<or> cn_state m = ''FAILED''"
    by (auto simp: plan_ended_def)
  then show ?case
  proof
    assume "cn_state m = ''PENDING''"
    from 1(1) [OF _ d(2) this] edge obtain f m' where "(d, f) \<in> (dep_rel q)\<^sup>+" "map_of q f = Some m'" "cn_state m' = ''FAILED''"
      by auto
    with edge show ?thesis by (meson trancl_into_trancl2)
  qed (use d edge in blast)
qed

text \<open>When no agent fails, no task does.\<close>

definition all_healthy :: "plan \<Rightarrow> bool" where
  "all_healthy p \<longleftrightarrow> (\<forall>n \<in> plan_nodes p. truthy_text (cn_agent_id n) \<and> cn_state n \<noteq> ''FAILED'')"

lemma plan_loop_healthy:
  assumes "\<And>a d x. \<exists>r e i. run a d x = RunResult True r e i"
  shows "all_healthy p \<Longrightarrow> all_healthy (plan_loop run c k p)"
proof (induction k arbitrary: p)
  case (Suc k)
  have "cn_state (execute_task run c p n) \<noteq> ''FAILED''" if "truthy_text (cn_agent_id n)" for n
    using assms [of "the (cn_agent_id n)" "cn_description n" "task_context p c n"] that
    by (auto simp: execute_task_def Let_def)
  with Suc.prems have "all_healthy (execute_round run c p)"
    unfolding all_healthy_def execute_round_def plan_nodes_map_prod ball_simps(9) by simp
  moreover have "\<not> has_critical_failure p" using Suc.prems by (auto simp: all_healthy_def critical_iff)
  ultimately show ?case using Suc by simp
qed simp

section \<open>Properties\<close>

text \<open>
  C14. A plan is accepted exactly when its dependencies have no cycle: the depth-first search of
  \<open>CoordinationPlan\<close> raises if and only if the relation of the dependencies between its tasks is cyclic.
\<close>

theorem plan_accepted_iff_acyclic: "is_ok (validate_dag p) \<longleftrightarrow> acyclic (dep_rel p)"
proof -
  have "is_ok (validate_dag p) \<longleftrightarrow> validate_dag p = Inr ()" by (cases "validate_dag p") auto
  then show ?thesis by (simp add: validate_dag_iff)
qed

text \<open>
  C13. A coordination ends in an orderly state. Whatever the agents answer, when \<open>coordinate\<close>
  returns no task is left running; a task that ran has all its known dependencies in SUCCESS; tasks are
  skipped only after a critical failure; a task still pending depends, directly or not, on a failed
  one; and the reported success is that every task succeeded.
\<close>

theorem coordination_outcome:
  assumes "coordinate run agents org tasks context = Inr (ok, q)"
  shows "(\<forall>n \<in> plan_nodes q. cn_state n \<in> {''PENDING'', ''SUCCESS'', ''FAILED'', ''SKIPPED''})
    \<and> (\<forall>n \<in> plan_nodes q. cn_state n \<in> {''SUCCESS'', ''FAILED''} \<longrightarrow> deps_succeeded q n)
    \<and> (\<forall>n \<in> plan_nodes q. cn_state n = ''SKIPPED'' \<longrightarrow> has_critical_failure q)
    \<and> (\<forall>t n. map_of q t = Some n \<longrightarrow> cn_state n = ''PENDING'' \<longrightarrow>
         (\<exists>f m. (t, f) \<in> (dep_rel q)\<^sup>+ \<and> map_of q f = Some m \<and> cn_state m = ''FAILED''))
    \<and> (ok \<longleftrightarrow> (\<forall>n \<in> plan_nodes q. cn_state n = ''SUCCESS''))"
proof -
  from assms obtain nodes where "build_nodes 0 tasks = Inr nodes" and acyclic: "acyclic (dep_rel (plan_of nodes))"
    and "q = plan_loop run context (length (plan_of nodes) * 2) (assign_agents agents org (plan_of nodes))"
    and ok: "ok = plan_success q" by (rule coordinate_cases)
  from coordinate_ended [OF this(1,3)] acyclic have q: "plan_ended q" "acyclic (dep_rel q)" by simp_all
  have "plan_success q \<longleftrightarrow> \<not> has_critical_failure q \<and> (\<forall>n \<in> plan_nodes q. cn_state n \<in> {''SUCCESS'', ''SKIPPED''})"
    by (force simp: plan_success_def list_all_iff plan_nodes_def)
  then have "ok \<longleftrightarrow> (\<forall>n \<in> plan_nodes q. cn_state n = ''SUCCESS'')"
    using q(1) ok by (auto simp: plan_ended_def critical_iff)
  with q(1) pending_blocked [OF q] show ?thesis unfolding plan_ended_def by blast
qed

definition sample_plan_tasks :: "task_spec list" where
  "sample_plan_tasks =
     [\<lparr> ts_task_id = Some ''a'', ts_description = Some ''sign in'', ts_agent_id = Some ''g1'', ts_agent_type = None,
        ts_domain = None, ts_depends_on = None, ts_critical = None \<rparr>,
      \<lparr> ts_task_id = Some ''b'', ts_description = Some ''extract'', ts_agent_id = Some ''g2'', ts_agent_type = None,
        ts_domain = None, ts_depends_on = Some [''a''], ts_critical = Some False \<rparr>]"

definition all_succeed :: agent_run where
  "all_succeed agent goal context = RunResult True (Some (PList [PStr goal])) None PNone"

lemma sample_plan_nodes:
  "\<exists>n m. build_nodes 0 sample_plan_tasks = Inr [n, m] \<and> cn_task_id n = ''a'' \<and> cn_depends_on n = []
     \<and> cn_task_id m = ''b'' \<and> cn_depends_on m = [''a''] \<and> cn_agent_id n = Some ''g1'' \<and> cn_agent_id m = Some ''g2''"
  by (simp add: sample_plan_tasks_def build_node_def)

lemma sample_plan_acyclic:
  assumes "cn_task_id n = ''a''" and "cn_depends_on n = []" and "cn_task_id m = ''b''" and "cn_depends_on m = [''a'']"
  shows "acyclic (dep_rel (plan_of [n, m]))"
proof -
  have "validate_dag (plan_of [n, m]) = Inr ()"
    using assms by (simp add: plan_of_def validate_dag_def dfs.simps)
  then show ?thesis by (simp add: validate_dag_iff)
qed

text \<open>
  C37. A coordination whose agents succeed completes. If the dependencies are acyclic, every task
  has or is found an agent, and every run of an agent succeeds, then \<open>coordinate\<close> returns with success
  and every task of the plan in SUCCESS: the limit on the number of rounds is never what ends it.
\<close>

theorem coordination_completes:
  assumes "build_nodes 0 tasks = Inr nodes" and "acyclic (dep_rel (plan_of nodes))"
    and "\<And>n. n \<in> set nodes \<Longrightarrow> truthy_text (cn_agent_id (assign_agent agents org n))"
    and "\<And>agent goal c. \<exists>r e i. run agent goal c = RunResult True r e i"
  shows "\<exists>q. coordinate run agents org tasks context = Inr (True, q)
    \<and> map fst q = map fst (plan_of nodes) \<and> (\<forall>n \<in> plan_nodes q. cn_state n = ''SUCCESS'')"
proof -
  let ?p = "assign_agents agents org (plan_of nodes)"
  let ?q = "plan_loop run context (length (plan_of nodes) * 2) ?p"
  have "validate_dag (plan_of nodes) = Inr ()" using assms(2) by (simp add: validate_dag_iff)
  then have run: "coordinate run agents org tasks context = Inr (plan_success ?q, ?q)"
    using assms(1) by (simp add: coordinate_def Let_def)
  from coordinate_ended [OF assms(1) refl] assms(2) have ended: "plan_ended ?q" "acyclic (dep_rel ?q)" by simp_all
  have "all_healthy ?p"
    unfolding all_healthy_def assign_agents_def plan_nodes_map_prod ball_simps(9)
    using assms(3) build_nodes_state [OF assms(1)] plan_of_nodes [of nodes] by fastforce
  then have healthy: "all_healthy ?q" by (intro plan_loop_healthy assms(4))
  then have "\<not> has_critical_failure ?q" by (auto simp: all_healthy_def critical_iff)
  moreover have "cn_state n \<noteq> ''PENDING''" if n: "n \<in> plan_nodes ?q" for n
  proof
    assume pend: "cn_state n = ''PENDING''"
    from n obtain t where "(t, n) \<in> set ?q" by (auto simp: plan_nodes_def)
    then have "map_of ?q t = Some n" using ended(1) by (simp add: plan_ended_def)
    from pending_blocked [OF ended this pend] healthy show False
      by (auto simp: all_healthy_def dest: in_plan)
  qed
  ultimately have all: "\<forall>n \<in> plan_nodes ?q. cn_state n = ''SUCCESS''"
    using ended(1) healthy by (fastforce simp: plan_ended_def all_healthy_def)
  then have "plan_success ?q" by (force simp: plan_success_def critical_iff list_all_iff plan_nodes_def)
  with run all plan_loop_keys [of run "context" "length (plan_of nodes) * 2" ?p] show ?thesis
    by (auto simp: assign_agents_def)
qed

theorem coordination_completes_witness:
  "\<exists>q. coordinate all_succeed [] ''org'' sample_plan_tasks [] = Inr (True, q)
    \<and> map fst q = [''a'', ''b''] \<and> (\<forall>n \<in> plan_nodes q. cn_state n = ''SUCCESS'')"
proof -
  from sample_plan_nodes obtain n m where nodes: "build_nodes 0 sample_plan_tasks = Inr [n, m]"
    and n: "cn_task_id n = ''a''" "cn_depends_on n = []" "cn_agent_id n = Some ''g1''"
    and m: "cn_task_id m = ''b''" "cn_depends_on m = [''a'']" "cn_agent_id m = Some ''g2''" by blast
  have "\<exists>q. coordinate all_succeed [] ''org'' sample_plan_tasks [] = Inr (True, q)
    \<and> map fst q = map fst (plan_of [n, m]) \<and> (\<forall>n \<in> plan_nodes q. cn_state n = ''SUCCESS'')"
  proof (rule coordination_completes [OF nodes])
    show "acyclic (dep_rel (plan_of [n, m]))" using n(1,2) m(1,2) by (rule sample_plan_acyclic)
    show "truthy_text (cn_agent_id (assign_agent [] ''org'' k))" if "k \<in> set [n, m]" for k
      using that n m by (auto simp: assign_agent_def truthy_text_def)
  qed (simp add: all_succeed_def)
  then show ?thesis using n m by (simp add: plan_of_def)
qed

theorem coordination_outcome_witness:
  "\<exists>ok q. coordinate all_succeed [] ''org'' sample_plan_tasks [] = Inr (ok, q)
    \<and> (ok \<longleftrightarrow> (\<forall>n \<in> plan_nodes q. cn_state n = ''SUCCESS''))"
proof -
  from sample_plan_nodes obtain n m where nodes: "build_nodes 0 sample_plan_tasks = Inr [n, m]"
    and n: "cn_task_id n = ''a''" "cn_depends_on n = []"
    and m: "cn_task_id m = ''b''" "cn_depends_on m = [''a'']" by blast
  have "validate_dag (plan_of [n, m]) = Inr ()"
    using sample_plan_acyclic [OF n m] by (simp add: validate_dag_iff)
  with nodes obtain ok q where "coordinate all_succeed [] ''org'' sample_plan_tasks [] = Inr (ok, q)"
    by (simp add: coordinate_def Let_def)
  from coordination_outcome [OF this] this show ?thesis by blast
qed

end
