(* ===== verification/Runs.thy ===== *)
theory Runs
  imports Tenancy "HOL-Library.Multiset"
begin

text \<open>
  Workflow runs: the tables \<^verbatim>\<open>xioflow_runs\<close>, \<^verbatim>\<open>xioflow_tasks\<close> and \<^verbatim>\<open>xioflow_dead_letters\<close> with the rules the
  database enforces on them (the state guard and the dead-letter trigger of
  \<^verbatim>\<open>persistence/migrations/versions/p2_001_state_machine_dlq.py\<close>, the checks of migrations 0029 and 0064,
  the columns that \<^verbatim>\<open>f1a2b3c4d5e6\<close> makes NOT NULL), and the code that moves them: the dispatcher and the
  reaper of \<^verbatim>\<open>worker\<close>, the endpoints of \<^verbatim>\<open>subsystems/xioflow/api\<close> (\<^verbatim>\<open>runs.py\<close>, \<^verbatim>\<open>events.py\<close>,
  \<^verbatim>\<open>orchestrator.py\<close>), the orchestrator of \<^verbatim>\<open>subsystems/xioflow/engine\<close> and the control of \<^verbatim>\<open>subsystems/xioview\<close>.
  The table \<^verbatim>\<open>workflow_templates\<close> with \<^verbatim>\<open>subsystems/xioflow/services/templates.py\<close>, and the cleanup function of
  migration p4001 on these tables: a deleted template is cleared from its runs, and old ended runs are deleted.

  Parameters: the rows other transactions have locked (\<open>locked\<close>, which SKIP LOCKED leaves out), the
  choice between rows that compare equal (\<open>chosen\<close>), the order of a query without ORDER BY (\<open>order\<close>, a key), what a script or a
  DAG does when it is executed, clocks and fresh identifiers. The queries order runs by a column
  \<^verbatim>\<open>priority\<close> that no migration adds; the model has it.
\<close>

section \<open>Tables\<close>

record xtemplate =
  qt_id :: uuid
  qt_organization_id :: "uuid option"
  qt_is_platform_global :: bool
  qt_name :: string
  qt_slug :: string
  qt_script_ref :: string
  qt_template_type :: string
  qt_dag_domain :: "string option"
  qt_dag_root_intent :: "string option"
  qt_config :: "(string \<times> pyval) list"
  qt_project_id :: "uuid option"
  qt_category :: "string option"
  qt_description :: "string option"

record xrun =
  xr_id :: uuid
  xr_organization_id :: uuid
  xr_template_id :: "uuid option"
  xr_state :: string
  xr_context :: "(string \<times> pyval) list"
  xr_template_snapshot :: "(string \<times> pyval) list option"
  xr_priority :: "int option"
  xr_error :: "string option"
  xr_started_at :: datetime
  xr_finished_at :: "datetime option"

record xtask =
  xt_id :: uuid
  xt_run_id :: uuid
  xt_organization_id :: uuid
  xt_node_intent :: string
  xt_state :: string
  xt_attempt_count :: int
  xt_retry_count :: int
  xt_max_retries :: int
  xt_priority :: int
  xt_result :: "pyval option"
  xt_error :: "string option"
  xt_claimed_at :: "datetime option"
  xt_completed_at :: "datetime option"
  xt_lease_expires_at :: "datetime option"

record xdead =
  xd_id :: uuid
  xd_run_id :: uuid
  xd_task_id :: "uuid option"
  xd_organization_id :: uuid
  xd_payload :: pyval
  xd_retry_count :: int
  xd_last_error :: string
  xd_created_at :: datetime
  xd_resolved_at :: "datetime option"

text \<open>
  \<open>x_gone\<close> is no table: it holds the ids of the runs that were deleted. Ids are fresh UUIDs, so the id of a
  new run is none of them; the code never reads it.
\<close>

record xdb =
  x_templates :: "xtemplate list"
  x_runs :: "xrun list"
  x_tasks :: "xtask list"
  x_dead :: "xdead list"
  x_gone :: "uuid set"

datatype run_error =
    StateDenied string string
  | CheckViolation
  | NotNullViolation
  | ForeignKeyViolation
  | DuplicateKey
  | Unprocessable
  | RunForbidden
  | RunNotFound
  | DeadLetterMissing
  | RunConflict
  | TemplateNotFound
  | MultipleResultsFound

section \<open>Rules of the database\<close>

definition RUN_STATES :: "string set" where
  "RUN_STATES = {''PENDING'', ''RUNNING'', ''SUCCESS'', ''FAILED'', ''CANCELLED''}"

definition TASK_STATES :: "string set" where
  "TASK_STATES = {''PENDING'', ''CLAIMED'', ''SUCCESS'', ''FAILED'', ''DEAD''}"

definition terminal :: "string \<Rightarrow> bool" where
  "terminal s \<longleftrightarrow> s \<in> {''SUCCESS'', ''FAILED'', ''CANCELLED''}"

text \<open>\<open>xioflow_runs_state_guard\<close>, run for every row of an UPDATE that names the column \<open>state\<close>.\<close>

definition state_guard :: "string \<Rightarrow> string \<Rightarrow> run_error + unit" where
  "state_guard old new =
     (if terminal old \<and> new \<noteq> old then Inl (StateDenied old new)
      else if old = ''PENDING'' \<and> new \<notin> {''RUNNING'', ''CANCELLED''} then Inl (StateDenied old new)
      else if old = ''RUNNING'' \<and> new \<notin> {''SUCCESS'', ''FAILED'', ''CANCELLED''} then Inl (StateDenied old new)
      else Inr ())"

definition run_check :: "string \<Rightarrow> string \<Rightarrow> run_error + unit" where
  "run_check old new = rbind (state_guard old new) (\<lambda>_. if new \<in> RUN_STATES then Inr () else Inl CheckViolation)"

definition update_runs :: "(xrun \<Rightarrow> bool) \<Rightarrow> (xrun \<Rightarrow> xrun) \<Rightarrow> xdb \<Rightarrow> run_error + xdb" where
  "update_runs p f db =
     rbind (for_each (\<lambda>r. run_check (xr_state r) (xr_state (f r))) (filter p (x_runs db)))
       (\<lambda>_. Inr (db\<lparr> x_runs := update_where p f (x_runs db) \<rparr>))"

text \<open>\<open>xioflow_tasks_dlq_insert\<close>: the letters that an UPDATE of \<open>state\<close> leaves behind; \<open>gen\<close> is \<open>gen_random_uuid\<close>.\<close>

definition dlq_due :: "xtask \<Rightarrow> xtask \<Rightarrow> bool" where
  "dlq_due old new \<longleftrightarrow> xt_state new = ''FAILED'' \<and> xt_state old \<noteq> ''FAILED'' \<and> xt_retry_count new \<ge> xt_max_retries new"

definition dlq_letter :: "(uuid \<Rightarrow> uuid) \<Rightarrow> datetime \<Rightarrow> xtask \<Rightarrow> xdead" where
  "dlq_letter gen now t =
     \<lparr> xd_id = gen (xt_id t), xd_run_id = xt_run_id t, xd_task_id = Some (xt_id t),
       xd_organization_id = xt_organization_id t,
       xd_payload = (case xt_result t of None \<Rightarrow> PDict [] | Some r \<Rightarrow> r), xd_retry_count = xt_retry_count t,
       xd_last_error = (case xt_error t of None \<Rightarrow> ''unknown'' | Some e \<Rightarrow> e),
       xd_created_at = now, xd_resolved_at = None \<rparr>"

definition task_check :: "xtask \<Rightarrow> run_error + unit" where
  "task_check t =
     (if xt_state t \<in> TASK_STATES \<and> -1000 \<le> xt_priority t \<and> xt_priority t \<le> 1000 then Inr () else Inl CheckViolation)"

definition update_tasks ::
  "(uuid \<Rightarrow> uuid) \<Rightarrow> datetime \<Rightarrow> (xtask \<Rightarrow> bool) \<Rightarrow> (xtask \<Rightarrow> xtask) \<Rightarrow> xdb \<Rightarrow> run_error + xdb" where
  "update_tasks gen now p f db =
     rbind (for_each (task_check \<circ> f) (filter p (x_tasks db)))
       (\<lambda>_. Inr (db\<lparr> x_tasks := update_where p f (x_tasks db),
         x_dead := x_dead db @ map (dlq_letter gen now \<circ> f) (filter (\<lambda>t. p t \<and> dlq_due t (f t)) (x_tasks db)) \<rparr>))"

definition claimed_task :: "uuid \<Rightarrow> uuid \<Rightarrow> uuid \<Rightarrow> string \<Rightarrow> datetime \<Rightarrow> xtask" where
  "claimed_task new_id run_id organization_id intent now =
     \<lparr> xt_id = new_id, xt_run_id = run_id, xt_organization_id = organization_id, xt_node_intent = intent,
       xt_state = ''CLAIMED'', xt_attempt_count = 1, xt_retry_count = 0, xt_max_retries = 3,
       xt_priority = 0, xt_result = None, xt_error = None, xt_claimed_at = Some now,
       xt_completed_at = None, xt_lease_expires_at = None \<rparr>"

text \<open>An INSERT that leaves out \<open>organization_id\<close> passes None. The defaults of migration 0044 apply.\<close>

definition insert_task :: "uuid \<Rightarrow> uuid \<Rightarrow> uuid option \<Rightarrow> string \<Rightarrow> datetime \<Rightarrow> xdb \<Rightarrow> run_error + xdb" where
  "insert_task new_id run_id org intent now db =
     (case org of
        None \<Rightarrow> Inl NotNullViolation
      | Some organization_id \<Rightarrow>
          if new_id \<in> xt_id ` set (x_tasks db) then Inl DuplicateKey
          else if run_id \<notin> xr_id ` set (x_runs db) then Inl ForeignKeyViolation
          else Inr (db\<lparr> x_tasks := x_tasks db @ [claimed_task new_id run_id organization_id intent now] \<rparr>))"

text \<open>ON CONFLICT DO NOTHING covers a key that is taken, not a missing value.\<close>

definition insert_dead :: "uuid \<Rightarrow> uuid \<Rightarrow> uuid \<Rightarrow> uuid option \<Rightarrow> pyval \<Rightarrow> int \<Rightarrow> string \<Rightarrow> datetime \<Rightarrow> xdb
   \<Rightarrow> run_error + xdb" where
  "insert_dead new_id run_id task_id org payload retries err now db =
     (case org of
        None \<Rightarrow> Inl NotNullViolation
      | Some organization_id \<Rightarrow>
          if new_id \<in> xd_id ` set (x_dead db) then Inr db
          else if run_id \<notin> xr_id ` set (x_runs db) then Inl ForeignKeyViolation
          else Inr (db\<lparr> x_dead := x_dead db @
            [\<lparr> xd_id = new_id, xd_run_id = run_id, xd_task_id = Some task_id, xd_organization_id = organization_id,
               xd_payload = payload, xd_retry_count = retries, xd_last_error = err, xd_created_at = now,
               xd_resolved_at = None \<rparr>] \<rparr>))"

section \<open>Queries\<close>

text \<open>The first row of a sorted result: one that no other row precedes, \<open>i\<close> choosing between equals.\<close>

definition chosen :: "nat \<Rightarrow> 'r list \<Rightarrow> 'r option" where
  "chosen i rows = (if rows = [] then None else Some (rows ! (i mod length rows)))"

definition minimal :: "('r \<Rightarrow> 'r \<Rightarrow> bool) \<Rightarrow> 'r list \<Rightarrow> 'r list" where
  "minimal before rows = filter (\<lambda>r. \<not> list_ex (\<lambda>s. before s r) rows) rows"

definition template_of :: "xrun \<Rightarrow> xdb \<Rightarrow> xtemplate option" where
  "template_of r db =
     (case xr_template_id r of None \<Rightarrow> None | Some tid \<Rightarrow> find (\<lambda>t. qt_id t = tid) (x_templates db))"

text \<open>ORDER BY \<open>priority DESC NULLS LAST, started_at ASC\<close>.\<close>

definition run_before :: "xrun \<Rightarrow> xrun \<Rightarrow> bool" where
  "run_before a b \<longleftrightarrow>
     (case (xr_priority a, xr_priority b) of
        (Some p, Some q) \<Rightarrow> p > q \<or> p = q \<and> xr_started_at a < xr_started_at b
      | (Some _, None) \<Rightarrow> True
      | (None, Some _) \<Rightarrow> False
      | (None, None) \<Rightarrow> xr_started_at a < xr_started_at b)"

text \<open>\<open>_assert_run\<close>.\<close>

definition assert_run :: "uuid \<Rightarrow> uuid \<Rightarrow> xdb \<Rightarrow> run_error + xrun" where
  "assert_run rid org db =
     (case find (\<lambda>r. xr_id r = rid \<and> xr_organization_id r = org) (x_runs db) of
        None \<Rightarrow> Inl RunNotFound | Some r \<Rightarrow> Inr r)"

section \<open>Dispatching runs\<close>

record dispatch_request =
  dq_template_id :: "uuid option"
  dq_dag_domain :: "string option"
  dq_dag_root_intent :: "string option"
  dq_context :: "(string \<times> pyval) list"
  dq_priority :: int
  dq_trace :: bool

definition present :: "string option \<Rightarrow> bool" where
  "present s \<longleftrightarrow> s \<noteq> None \<and> s \<noteq> Some []"

definition opt_str :: "string option \<Rightarrow> pyval" where
  "opt_str s = (case s of None \<Rightarrow> PNone | Some t \<Rightarrow> PStr t)"

definition template_matches :: "uuid \<Rightarrow> dispatch_request \<Rightarrow> xtemplate \<Rightarrow> bool" where
  "template_matches org body t \<longleftrightarrow>
     qt_dag_domain t = dq_dag_domain body \<and> qt_dag_root_intent t = dq_dag_root_intent body
     \<and> qt_template_type t = ''xioflow_dag'' \<and> (qt_organization_id t = Some org \<or> qt_is_platform_global t)"

definition own_first :: "xtemplate \<Rightarrow> xtemplate \<Rightarrow> bool" where
  "own_first s t \<longleftrightarrow> \<not> qt_is_platform_global s \<and> qt_is_platform_global t"

definition resolve_template :: "nat \<Rightarrow> uuid \<Rightarrow> dispatch_request \<Rightarrow> xdb \<Rightarrow> uuid option" where
  "resolve_template i org body db =
     (case dq_template_id body of
        Some t \<Rightarrow> Some t
      | None \<Rightarrow> map_option qt_id (chosen i (minimal own_first (filter (template_matches org body) (x_templates db)))))"

definition snapshot_of :: "xtemplate \<Rightarrow> (string \<times> pyval) list" where
  "snapshot_of t =
     [(''slug'', PStr (qt_slug t)), (''dag_domain'', opt_str (qt_dag_domain t)),
      (''dag_root_intent'', opt_str (qt_dag_root_intent t)), (''template_type'', PStr (qt_template_type t)),
      (''config'', PDict (qt_config t))]"

text \<open>\<open>dispatch_run\<close> inserts no \<open>priority\<close>: that of the request is not used. Triggers and agents insert runs as well.\<close>

definition insert_run ::
  "uuid \<Rightarrow> uuid \<Rightarrow> uuid option \<Rightarrow> (string \<times> pyval) list \<Rightarrow> (string \<times> pyval) list option \<Rightarrow> int option \<Rightarrow> datetime \<Rightarrow> xdb
   \<Rightarrow> run_error + xdb" where
  "insert_run new_id org template_id ctx snapshot priority now db =
     (if new_id \<in> xr_id ` set (x_runs db) \<union> x_gone db then Inl DuplicateKey
      else if \<not> (case template_id of None \<Rightarrow> True | Some t \<Rightarrow> t \<in> qt_id ` set (x_templates db)) then Inl ForeignKeyViolation
      else Inr (db\<lparr> x_runs := x_runs db @
        [\<lparr> xr_id = new_id, xr_organization_id = org, xr_template_id = template_id, xr_state = ''PENDING'',
           xr_context = ctx, xr_template_snapshot = snapshot, xr_priority = priority,
           xr_error = None, xr_started_at = now, xr_finished_at = None \<rparr>] \<rparr>))"

definition dispatch_run :: "nat \<Rightarrow> org_context \<Rightarrow> dispatch_request \<Rightarrow> uuid \<Rightarrow> datetime \<Rightarrow> xdb \<Rightarrow> run_error + xdb" where
  "dispatch_run i cx body new_id now db =
     (if dq_template_id body = None \<and> \<not> (present (dq_dag_domain body) \<and> present (dq_dag_root_intent body))
      then Inl Unprocessable
      else
        let org = oc_organization_id cx;
            template_id = resolve_template i org body db;
            run_context = (if dq_trace body then AList.update ''trace_mode'' (PBool True) (dq_context body)
                           else dq_context body);
            snap_row = (case template_id of None \<Rightarrow> None | Some tid \<Rightarrow> find (\<lambda>t. qt_id t = tid) (x_templates db))
        in insert_run new_id org template_id run_context (map_option snapshot_of snap_row) None now db)"

section \<open>Claiming runs\<close>

text \<open>The rows of the CTE: \<open>UPDATE ... SET state = 'RUNNING'\<close> on the first of them that is not locked.\<close>

definition claim_row :: "nat \<Rightarrow> uuid set \<Rightarrow> (xrun \<Rightarrow> bool) \<Rightarrow> (xrun \<Rightarrow> xrun) \<Rightarrow> xdb \<Rightarrow> run_error + (xrun \<times> xdb) option" where
  "claim_row i locked q f db =
     (case chosen i (minimal run_before
         (filter (\<lambda>r. xr_state r = ''PENDING'' \<and> q r \<and> xr_id r \<notin> locked) (x_runs db))) of
        None \<Rightarrow> Inr None
      | Some r \<Rightarrow> rbind (update_runs (\<lambda>x. xr_id x = xr_id r) f db) (\<lambda>db'. Inr (Some (f r, db'))))"

definition is_dag_run :: "xdb \<Rightarrow> xrun \<Rightarrow> bool" where
  "is_dag_run db r \<longleftrightarrow>
     (case template_of r db of None \<Rightarrow> False | Some t \<Rightarrow> qt_template_type t = ''xioflow_dag'')"

text \<open>\<open>_claim_next_pending\<close>: the context is joined with the browser session of the organization, if there is one.\<close>

definition claim_next_pending ::
  "nat \<Rightarrow> uuid set \<Rightarrow> (uuid \<Rightarrow> string option) \<Rightarrow> xdb \<Rightarrow> run_error + (xrun \<times> xdb) option" where
  "claim_next_pending i locked session_of db =
     claim_row i locked (\<lambda>r. \<not> is_dag_run db r)
       (\<lambda>r. r\<lparr> xr_state := ''RUNNING'',
               xr_context := (case session_of (xr_organization_id r) of
                  None \<Rightarrow> xr_context r
                | Some s \<Rightarrow> AList.update ''session_id'' (PStr s) (xr_context r)) \<rparr>) db"

definition run_intent :: "xrun \<Rightarrow> xdb \<Rightarrow> string" where
  "run_intent r db = (case template_of r db of Some t \<Rightarrow> if qt_name t = [] then ''dag_root'' else qt_name t | None \<Rightarrow> ''dag_root'')"

definition claim_dag ::
  "(xrun \<Rightarrow> bool) \<Rightarrow> (xrun \<Rightarrow> uuid) \<Rightarrow> nat \<Rightarrow> uuid set \<Rightarrow> uuid \<Rightarrow> datetime \<Rightarrow> xdb \<Rightarrow> run_error + (xrun \<times> xdb) option" where
  "claim_dag q org i locked task_id now db =
     rbind (claim_row i locked (\<lambda>r. q r \<and> is_dag_run db r) (xr_state_update (\<lambda>_. ''RUNNING'')) db)
       (\<lambda>c. case c of
          None \<Rightarrow> Inr None
        | Some (r, db') \<Rightarrow>
            rbind (insert_task task_id (xr_id r) (Some (org r)) (run_intent r db) now db')
              (\<lambda>db''. Inr (Some (r, db''))))"

text \<open>The endpoint of an organization, and the one for workers, which sees every organization.\<close>

definition claim_pending_dag_run ::
  "nat \<Rightarrow> uuid set \<Rightarrow> org_context \<Rightarrow> uuid \<Rightarrow> datetime \<Rightarrow> xdb \<Rightarrow> run_error + (xrun \<times> xdb) option" where
  "claim_pending_dag_run i locked cx =
     claim_dag (\<lambda>r. xr_organization_id r = oc_organization_id cx) (\<lambda>_. oc_organization_id cx) i locked"

definition claim_pending_dag_run_internal ::
  "nat \<Rightarrow> uuid set \<Rightarrow> uuid \<Rightarrow> datetime \<Rightarrow> xdb \<Rightarrow> run_error + (xrun \<times> xdb) option" where
  "claim_pending_dag_run_internal = claim_dag (\<lambda>_. True) xr_organization_id"

section \<open>Reporting completion\<close>

definition outcome_state :: "bool \<Rightarrow> string" where
  "outcome_state success = (if success then ''SUCCESS'' else ''FAILED'')"

definition complete_rows ::
  "(xrun \<Rightarrow> bool) \<Rightarrow> (uuid \<Rightarrow> uuid) \<Rightarrow> bool \<Rightarrow> uuid option \<Rightarrow> pyval \<Rightarrow> string option \<Rightarrow> datetime \<Rightarrow> xdb \<Rightarrow> run_error + xdb" where
  "complete_rows p gen success task_id result err now db =
     rbind (case task_id of
              None \<Rightarrow> Inr db
            | Some tid \<Rightarrow> update_tasks gen now (\<lambda>t. xt_id t = tid)
                (\<lambda>t. t\<lparr> xt_state := outcome_state success, xt_result := Some result, xt_error := err,
                        xt_completed_at := Some now \<rparr>) db)
       (update_runs p
          (\<lambda>r. r\<lparr> xr_state := outcome_state success, xr_finished_at := Some now, xr_error := err \<rparr>))"

definition complete_run ::
  "org_context \<Rightarrow> (uuid \<Rightarrow> uuid) \<Rightarrow> uuid \<Rightarrow> bool \<Rightarrow> uuid option \<Rightarrow> pyval \<Rightarrow> string option \<Rightarrow> datetime \<Rightarrow> xdb \<Rightarrow> run_error + xdb" where
  "complete_run cx gen rid = complete_rows (\<lambda>r. xr_id r = rid \<and> xr_organization_id r = oc_organization_id cx) gen"

definition complete_run_internal ::
  "(uuid \<Rightarrow> uuid) \<Rightarrow> uuid \<Rightarrow> bool \<Rightarrow> uuid option \<Rightarrow> pyval \<Rightarrow> string option \<Rightarrow> datetime \<Rightarrow> xdb \<Rightarrow> run_error + xdb" where
  "complete_run_internal gen rid = complete_rows (\<lambda>r. xr_id r = rid) gen"

section \<open>The dispatcher\<close>

record exec_result =
  ex_success :: bool
  ex_status :: string
  ex_result :: pyval
  ex_error :: "string option"
  ex_stdout_tail :: string

definition failed_result :: "string \<Rightarrow> exec_result" where
  "failed_result err =
     \<lparr> ex_success = False, ex_status = ''error'', ex_result = PDict [], ex_error = Some err, ex_stdout_tail = [] \<rparr>"

definition finalise ::
  "(uuid \<Rightarrow> uuid) \<Rightarrow> datetime \<Rightarrow> uuid \<Rightarrow> uuid \<Rightarrow> uuid \<Rightarrow> exec_result \<Rightarrow> xdb \<Rightarrow> run_error + xdb" where
  "finalise gen now dlq_id rid tid result db =
     rbind (update_tasks gen now (\<lambda>t. xt_id t = tid)
         (\<lambda>t. t\<lparr> xt_state := outcome_state (ex_success result), xt_result := Some (ex_result result),
                 xt_error := ex_error result, xt_completed_at := Some now \<rparr>) db) (\<lambda>db1.
     rbind (update_runs (\<lambda>r. xr_id r = rid)
         (\<lambda>r. r\<lparr> xr_state := outcome_state (ex_success result), xr_finished_at := Some now \<rparr>) db1) (\<lambda>db2.
     if \<not> ex_success result \<and> ex_status result \<noteq> ''deferred''
     then insert_dead dlq_id rid tid None
            (PDict [(''script_ref'', PStr (ex_status result)), (''stdout_tail'', PStr (ex_stdout_tail result))]) 1
            (take 500 (case ex_error result of None \<Rightarrow> ''None'' | Some e \<Rightarrow> e)) now db2
     else Inr db2))"

text \<open>What the dispatcher uses of its surroundings.\<close>

record dispatch_env =
  de_locked :: "uuid set"
  de_choice :: "nat \<Rightarrow> nat"
  de_session_of :: "uuid \<Rightarrow> string option"
  de_script :: "string \<Rightarrow> xrun \<Rightarrow> exec_result"
  de_dag :: "string \<Rightarrow> string \<Rightarrow> xrun \<Rightarrow> exec_result"
  de_task_id :: "nat \<Rightarrow> uuid"
  de_dlq_id :: "nat \<Rightarrow> uuid"
  de_gen :: "uuid \<Rightarrow> uuid"
  de_now :: datetime

definition template_text :: "(xtemplate \<Rightarrow> string option) \<Rightarrow> xtemplate option \<Rightarrow> string" where
  "template_text f t = (case t of None \<Rightarrow> [] | Some x \<Rightarrow> (case f x of None \<Rightarrow> [] | Some s \<Rightarrow> s))"

definition execute_run :: "dispatch_env \<Rightarrow> xtemplate option \<Rightarrow> xrun \<Rightarrow> exec_result" where
  "execute_run env t r =
     (let ttype = map_option qt_template_type t; script_ref = template_text (Some \<circ> qt_script_ref) t;
          domain = template_text qt_dag_domain t; intent = template_text qt_dag_root_intent t
      in if ttype = Some ''script'' \<and> script_ref \<noteq> [] then de_script env script_ref r
         else if ttype = Some ''xioflow_dag''
         then if domain = [] \<or> intent = []
              then failed_result ''xioflow_dag template missing dag_domain or dag_root_intent''
              else de_dag env domain intent r
         else failed_result ''unknown template_type or missing script_ref'')"

text \<open>One round of the loop; None when the queue is empty. The task is created without an organization.\<close>

definition dispatch_one :: "dispatch_env \<Rightarrow> nat \<Rightarrow> xdb \<Rightarrow> run_error + xdb option" where
  "dispatch_one env n db =
     rbind (claim_next_pending (de_choice env n) (de_locked env) (de_session_of env) db) (\<lambda>c. case c of
        None \<Rightarrow> Inr None
      | Some (r, db1) \<Rightarrow>
          let t = template_of r db; script_ref = template_text (Some \<circ> qt_script_ref) t;
              intent = template_text qt_dag_root_intent t;
              node_intent = (if script_ref \<noteq> [] then script_ref else if intent \<noteq> [] then intent else ''dag_root'')
          in rbind (insert_task (de_task_id env n) (xr_id r) None node_intent (de_now env) db1) (\<lambda>db2.
             rbind (finalise (de_gen env) (de_now env) (de_dlq_id env n) (xr_id r) (de_task_id env n)
                      (execute_run env t r) db2) (\<lambda>db3. Inr (Some db3))))"

text \<open>
  \<open>dispatch_pending_runs\<close>: each round ends in a commit, so a raise keeps what the rounds before it
  did. The result is the error, if one escapes, the number of runs processed, and the tables.
\<close>

fun dispatch_loop :: "dispatch_env \<Rightarrow> nat \<Rightarrow> nat \<Rightarrow> xdb \<Rightarrow> run_error option \<times> nat \<times> xdb" where
  "dispatch_loop env 0 n db = (None, n, db)"
| "dispatch_loop env (Suc k) n db =
     (case dispatch_one env n db of
        Inl e \<Rightarrow> (Some e, n, db)
      | Inr None \<Rightarrow> (None, n, db)
      | Inr (Some db') \<Rightarrow> dispatch_loop env k (Suc n) db')"

definition dispatch_pending_runs :: "dispatch_env \<Rightarrow> nat \<Rightarrow> xdb \<Rightarrow> run_error option \<times> nat \<times> xdb" where
  "dispatch_pending_runs env max_per_tick db = dispatch_loop env max_per_tick 0 db"

section \<open>The endpoints of a run\<close>

definition pause_run :: "org_context \<Rightarrow> uuid \<Rightarrow> xdb \<Rightarrow> run_error + xdb" where
  "pause_run cx rid db =
     rbind (assert_run rid (oc_organization_id cx) db) (\<lambda>run.
       if xr_state run \<notin> {''RUNNING'', ''PENDING''} then Inl RunConflict
       else update_runs (\<lambda>r. xr_id r = rid) (xr_state_update (\<lambda>_. ''PAUSED'')) db)"

definition resume_run :: "org_context \<Rightarrow> uuid \<Rightarrow> xdb \<Rightarrow> run_error + xdb" where
  "resume_run cx rid db =
     rbind (assert_run rid (oc_organization_id cx) db) (\<lambda>run.
       if xr_state run \<noteq> ''PAUSED'' then Inl RunConflict
       else update_runs (\<lambda>r. xr_id r = rid) (\<lambda>r. r\<lparr> xr_state := ''PENDING'', xr_finished_at := None \<rparr>) db)"

definition cancel_run :: "org_context \<Rightarrow> uuid \<Rightarrow> datetime \<Rightarrow> xdb \<Rightarrow> run_error + xdb" where
  "cancel_run cx rid now db =
     rbind (assert_run rid (oc_organization_id cx) db) (\<lambda>run.
       if terminal (xr_state run) then Inl RunConflict
       else update_runs (\<lambda>r. xr_id r = rid)
              (\<lambda>r. r\<lparr> xr_state := ''CANCELLED'', xr_finished_at := Some now \<rparr>) db)"

definition retry_dlq :: "(uuid \<Rightarrow> uuid) \<Rightarrow> uuid \<Rightarrow> datetime \<Rightarrow> xdb \<Rightarrow> run_error + xdb" where
  "retry_dlq gen did now db =
     (case find (\<lambda>d. xd_id d = did) (x_dead db) of
        None \<Rightarrow> Inl DeadLetterMissing
      | Some d \<Rightarrow>
          rbind (update_runs (\<lambda>r. xr_id r = xd_run_id d)
              (\<lambda>r. r\<lparr> xr_state := ''PENDING'', xr_finished_at := None \<rparr>) db) (\<lambda>db1.
          rbind (update_tasks gen now (\<lambda>t. xt_run_id t = xd_run_id d)
              (\<lambda>t. t\<lparr> xt_state := ''PENDING'', xt_claimed_at := None, xt_error := None \<rparr>) db1) (\<lambda>db2.
          Inr (db2\<lparr> x_dead := update_where (\<lambda>x. xd_id x = did) (xd_resolved_at_update (\<lambda>_. Some now)) (x_dead db2) \<rparr>))))"

definition hitl_pause :: "uuid \<Rightarrow> pyval \<Rightarrow> xdb \<Rightarrow> run_error + xdb" where
  "hitl_pause rid hitl =
     update_runs (\<lambda>r. xr_id r = rid)
       (\<lambda>r. r\<lparr> xr_state := ''PAUSED'', xr_context := AList.update ''hitl'' hitl (xr_context r) \<rparr>)"

definition hitl_resume :: "uuid \<Rightarrow> xdb \<Rightarrow> run_error + xdb" where
  "hitl_resume rid =
     update_runs (\<lambda>r. xr_id r = rid \<and> xr_state r = ''PAUSED'') (xr_state_update (\<lambda>_. ''RUNNING''))"

text \<open>\<open>set_run_state\<close> of the remote control swallows every error.\<close>

definition set_run_state :: "uuid \<Rightarrow> uuid \<Rightarrow> string \<Rightarrow> string list \<Rightarrow> xdb \<Rightarrow> xdb" where
  "set_run_state rid org new_state valid_from db =
     (case update_runs (\<lambda>r. xr_id r = rid \<and> xr_organization_id r = org \<and> xr_state r \<in> set valid_from)
         (xr_state_update (\<lambda>_. new_state)) db of Inl _ \<Rightarrow> db | Inr db' \<Rightarrow> db')"

section \<open>The orchestrator\<close>

definition claim_next_runs ::
  "(xrun list \<Rightarrow> xrun list) \<Rightarrow> uuid set \<Rightarrow> uuid \<Rightarrow> string \<Rightarrow> nat option \<Rightarrow> string option \<Rightarrow> xdb \<Rightarrow> run_error + xrun list \<times> xdb" where
  "claim_next_runs ordered locked org worker_id max_claims proxy_country db =
     (let limit = (case max_claims of Some n \<Rightarrow> if n = 0 then 10 else n | None \<Rightarrow> 10);
          capable = (\<lambda>r. \<not> present proxy_country \<or> get_none (xr_context r) ''required_proxy_country'' = PNone
            \<or> get_none (xr_context r) ''required_proxy_country'' = opt_str proxy_country);
          ids = map xr_id (take limit (ordered (filter (\<lambda>r. xr_organization_id r = org \<and> xr_state r = ''PENDING''
            \<and> capable r \<and> xr_id r \<notin> locked) (x_runs db))));
          f = (\<lambda>r. r\<lparr> xr_state := ''CLAIMED'', xr_context := AList.update ''claimed_by'' (PStr worker_id) (xr_context r) \<rparr>)
      in rbind (update_runs (\<lambda>r. xr_id r \<in> set ids) f db)
           (\<lambda>db'. Inr (map f (filter (\<lambda>r. xr_id r \<in> set ids) (x_runs db)), db')))"

definition allocate_run_to_worker :: "uuid \<Rightarrow> string \<Rightarrow> xdb \<Rightarrow> run_error + bool \<times> xdb" where
  "allocate_run_to_worker rid worker_id db =
     (let p = (\<lambda>r. xr_id r = rid \<and> xr_state r = ''PENDING'')
      in rbind (update_runs p (\<lambda>r. r\<lparr> xr_state := ''CLAIMED'',
             xr_context := AList.update ''claimed_by'' (PStr worker_id) (xr_context r) \<rparr>) db)
           (\<lambda>db'. Inr (list_ex p (x_runs db), db')))"

definition is_stuck :: "uuid option \<Rightarrow> int \<Rightarrow> datetime \<Rightarrow> xrun \<Rightarrow> bool" where
  "is_stuck org timeout now r \<longleftrightarrow> xr_state r \<in> {''CLAIMED'', ''RUNNING''} \<and> xr_started_at r < now - timeout * 1000000
     \<and> (case org of None \<Rightarrow> True | Some x \<Rightarrow> xr_organization_id r = x)"

definition detect_stuck_runs :: "uuid option \<Rightarrow> int \<Rightarrow> datetime \<Rightarrow> xdb \<Rightarrow> run_error + xrun list \<times> xdb" where
  "detect_stuck_runs org timeout now db =
     (let stuck = filter (is_stuck org timeout now) (x_runs db)
      in if stuck = [] then Inr ([], db)
         else rbind (update_runs (\<lambda>r. xr_id r \<in> set (map xr_id stuck) \<and> xr_state r \<in> {''CLAIMED'', ''RUNNING''})
                (\<lambda>r. r\<lparr> xr_state := ''CANCELLED'', xr_finished_at := Some now,
                   xr_context := AList.update ''cancel_reason'' (PStr ''stuck_timeout'') (xr_context r) \<rparr>) db)
              (\<lambda>db'. Inr (stuck, db')))"

definition create_escalation :: "uuid \<Rightarrow> pyval \<Rightarrow> xdb \<Rightarrow> run_error + xdb" where
  "create_escalation rid esc =
     update_runs (\<lambda>r. xr_id r = rid)
       (\<lambda>r. r\<lparr> xr_context := AList.update ''escalation'' esc (xr_context r), xr_state := ''WAITING_HUMAN'' \<rparr>)"

definition mark_resolved :: "(string \<times> pyval) list \<Rightarrow> (string \<times> pyval) list" where
  "mark_resolved c =
     (case map_of c ''escalation'' of
        Some (PDict e) \<Rightarrow> AList.update ''escalation'' (PDict (AList.update ''resolved'' (PBool True) e)) c
      | _ \<Rightarrow> c)"

definition resolve_escalation :: "uuid \<Rightarrow> xdb \<Rightarrow> run_error + bool \<times> xdb" where
  "resolve_escalation rid db =
     (let p = (\<lambda>r. xr_id r = rid \<and> xr_state r = ''WAITING_HUMAN'')
      in rbind (update_runs p (\<lambda>r. r\<lparr> xr_context := mark_resolved (xr_context r), xr_state := ''RUNNING'' \<rparr>) db)
           (\<lambda>db'. Inr (list_ex p (x_runs db), db')))"

text \<open>
  The endpoints of \<^verbatim>\<open>api/orchestrator.py\<close>; \<open>org\<close> is None where the handler has no request to read the
  organization from.
\<close>

definition orchestrator_cancel :: "uuid option \<Rightarrow> uuid \<Rightarrow> datetime \<Rightarrow> xdb \<Rightarrow> run_error + xdb" where
  "orchestrator_cancel org rid now db =
     (case org of
        None \<Rightarrow> Inl RunForbidden
      | Some o' \<Rightarrow>
          let p = (\<lambda>r. xr_id r = rid \<and> xr_organization_id r = o'
                  \<and> xr_state r \<in> {''PENDING'', ''CLAIMED'', ''RUNNING'', ''WAITING_HUMAN''})
          in rbind (update_runs p (\<lambda>r. r\<lparr> xr_state := ''CANCELLED'', xr_finished_at := Some now,
                 xr_context := AList.update ''cancel_reason'' (PStr ''manual'') (xr_context r) \<rparr>) db)
               (\<lambda>db'. if list_ex p (x_runs db) then Inr db' else Inl RunConflict))"

definition reprioritize :: "uuid option \<Rightarrow> uuid \<Rightarrow> int \<Rightarrow> xdb \<Rightarrow> run_error + xdb" where
  "reprioritize org rid priority db =
     (case org of
        None \<Rightarrow> Inl RunForbidden
      | Some o' \<Rightarrow>
          let p = (\<lambda>r. xr_id r = rid \<and> xr_organization_id r = o' \<and> xr_state r = ''PENDING'')
          in if \<not> (0 \<le> priority \<and> priority \<le> 100) then Inl Unprocessable
             else if list_ex p (x_runs db)
             then Inr (db\<lparr> x_runs := update_where p (xr_priority_update (\<lambda>_. Some priority)) (x_runs db) \<rparr>)
             else Inl RunConflict)"

text \<open>The columns of \<open>get_queue_depth\<close>: emergency, urgent, high, normal, background, total.\<close>

definition get_queue_depth :: "uuid \<Rightarrow> xdb \<Rightarrow> nat list" where
  "get_queue_depth org db =
     (let ps = map xr_priority (filter (\<lambda>r. xr_organization_id r = org \<and> xr_state r = ''PENDING'') (x_runs db));
          band = (\<lambda>q. length (filter (case_option False q) ps))
      in [band (\<lambda>p. p \<ge> 80), band (\<lambda>p. p \<ge> 60 \<and> p < 80), band (\<lambda>p. p \<ge> 40 \<and> p < 60), band (\<lambda>p. p \<ge> 20 \<and> p < 40),
          length (filter (case_option True (\<lambda>p. p < 20)) ps), length ps])"

section \<open>The reaper\<close>

definition is_stale :: "datetime \<Rightarrow> xtask \<Rightarrow> bool" where
  "is_stale now t \<longleftrightarrow> xt_state t = ''CLAIMED''
     \<and> (case xt_lease_expires_at t of
          Some e \<Rightarrow> e < now
        | None \<Rightarrow> (case xt_claimed_at t of None \<Rightarrow> False | Some c \<Rightarrow> c < now - 10 * 60 * 1000000))"

definition requeue :: "xtask \<Rightarrow> xtask \<Rightarrow> xtask" where
  "requeue row t =
     (let new_retry = xt_retry_count row + 1
      in t\<lparr> xt_state := ''PENDING'', xt_claimed_at := None, xt_lease_expires_at := None, xt_retry_count := new_retry,
            xt_attempt_count := xt_attempt_count t + 1, xt_priority := - (new_retry * 10),
            xt_error := Some ''lease_expired_retry'' \<rparr>)"

definition reap_row :: "(uuid \<Rightarrow> uuid) \<Rightarrow> uuid \<Rightarrow> datetime \<Rightarrow> xtask \<Rightarrow> xdb \<Rightarrow> run_error + xdb" where
  "reap_row gen dlq_id now row db =
     (if xt_retry_count row < xt_max_retries row
      then update_tasks gen now (\<lambda>t. xt_id t = xt_id row) (requeue row) db
      else
        rbind (update_tasks gen now (\<lambda>t. xt_id t = xt_id row)
            (\<lambda>t. t\<lparr> xt_state := ''FAILED'', xt_error := Some ''max_retries_exceeded'' \<rparr>) db) (\<lambda>db1.
        rbind (insert_dead dlq_id (xt_run_id row) (xt_id row) None
            (PDict [(''intent'', PStr (xt_node_intent row)), (''retry_count'', PInt (xt_retry_count row))])
            (xt_retry_count row) ''max_retries_exceeded'' now db1) (\<lambda>db2.
        update_runs (\<lambda>r. xr_id r = xt_run_id row \<and> \<not> terminal (xr_state r))
          (\<lambda>r. r\<lparr> xr_state := ''FAILED'', xr_finished_at := Some now, xr_error := Some ''task_max_retries_exceeded'' \<rparr>) db2)))"

fun reap_rows :: "(uuid \<Rightarrow> uuid) \<Rightarrow> (uuid \<Rightarrow> uuid) \<Rightarrow> datetime \<Rightarrow> xtask list \<Rightarrow> xdb \<Rightarrow> run_error + xdb" where
  "reap_rows gen dlq_id now [] db = Inr db"
| "reap_rows gen dlq_id now (row # rows) db =
     rbind (reap_row gen (dlq_id (xt_id row)) now row db) (reap_rows gen dlq_id now rows)"

definition reap_expired_leases ::
  "(xtask \<Rightarrow> nat) \<Rightarrow> (uuid \<Rightarrow> uuid) \<Rightarrow> (uuid \<Rightarrow> uuid) \<Rightarrow> datetime \<Rightarrow> xdb \<Rightarrow> run_error + nat \<times> xdb" where
  "reap_expired_leases order gen dlq_id now db =
     (let stale = take 100 (sort_key order (filter (is_stale now) (x_tasks db)))
      in rbind (reap_rows gen dlq_id now stale db) (\<lambda>db'. Inr (length stale, db')))"

section \<open>Templates\<close>

text \<open>
  \<open>register_template\<close> updates the template of the organization that has the slug of the name, and inserts one
  otherwise; no index makes the slug unique, so more than one row raises. The key of \<open>project_id\<close> is the table
  of projects.
\<close>

record template_body =
  tb_name :: string
  tb_category :: "string option"
  tb_script_ref :: string
  tb_template_type :: string
  tb_dag_domain :: "string option"
  tb_dag_root_intent :: "string option"
  tb_config :: "(string \<times> pyval) list"
  tb_project_id :: "uuid option"
  tb_is_platform_global :: bool
  tb_description :: "string option"

definition template_slug :: "string \<Rightarrow> string" where
  "template_slug name = map (\<lambda>c. if c = CHR '' '' \<or> c = CHR ''-'' then CHR ''_'' else c) (str_lower name)"

definition TEMPLATE_TYPES :: "string set" where
  "TEMPLATE_TYPES = {''script'', ''xioflow_dag''}"

definition rewritten :: "template_body \<Rightarrow> xtemplate \<Rightarrow> xtemplate" where
  "rewritten body t = t\<lparr> qt_name := tb_name body, qt_category := tb_category body,
     qt_script_ref := tb_script_ref body, qt_template_type := tb_template_type body,
     qt_dag_domain := tb_dag_domain body, qt_dag_root_intent := tb_dag_root_intent body,
     qt_config := tb_config body, qt_description := tb_description body \<rparr>"

definition new_template :: "org_context \<Rightarrow> template_body \<Rightarrow> uuid \<Rightarrow> xtemplate" where
  "new_template cx body new_id =
     \<lparr> qt_id = new_id, qt_organization_id = Some (oc_organization_id cx),
       qt_is_platform_global = tb_is_platform_global body, qt_name = tb_name body,
       qt_slug = template_slug (tb_name body), qt_script_ref = tb_script_ref body,
       qt_template_type = tb_template_type body, qt_dag_domain = tb_dag_domain body,
       qt_dag_root_intent = tb_dag_root_intent body, qt_config = tb_config body,
       qt_project_id = tb_project_id body, qt_category = tb_category body, qt_description = tb_description body \<rparr>"

definition register_template ::
  "uuid set \<Rightarrow> org_context \<Rightarrow> template_body \<Rightarrow> uuid \<Rightarrow> xdb \<Rightarrow> run_error + (xtemplate \<times> xdb)" where
  "register_template projects cx body new_id db =
     (case filter (\<lambda>t. qt_organization_id t = Some (oc_organization_id cx) \<and> qt_slug t = template_slug (tb_name body))
             (x_templates db) of
        [t] \<Rightarrow>
          if tb_template_type body \<notin> TEMPLATE_TYPES then Inl CheckViolation
          else Inr (rewritten body t,
            db\<lparr> x_templates := update_where (\<lambda>u. qt_id u = qt_id t) (rewritten body) (x_templates db) \<rparr>)
      | [] \<Rightarrow>
          if tb_template_type body \<notin> TEMPLATE_TYPES then Inl CheckViolation
          else if new_id \<in> qt_id ` set (x_templates db) then Inl DuplicateKey
          else if \<not> (case tb_project_id body of None \<Rightarrow> True | Some pr \<Rightarrow> pr \<in> projects) then Inl ForeignKeyViolation
          else Inr (new_template cx body new_id, db\<lparr> x_templates := x_templates db @ [new_template cx body new_id] \<rparr>)
      | _ \<Rightarrow> Inl MultipleResultsFound)"

text \<open>
  The key of \<^verbatim>\<open>xioflow_runs.template_id\<close> is ON DELETE SET NULL: the runs of the template lose it. That update
  does not name \<open>state\<close>, so the state guard is not run.
\<close>

definition delete_template :: "org_context \<Rightarrow> uuid \<Rightarrow> xdb \<Rightarrow> run_error + xdb" where
  "delete_template cx tid db =
     (if list_ex (\<lambda>t. qt_id t = tid \<and> qt_organization_id t = Some (oc_organization_id cx)) (x_templates db)
      then Inr (db\<lparr> x_templates := filter (\<lambda>t. qt_id t \<noteq> tid) (x_templates db),
                    x_runs := update_where (\<lambda>r. xr_template_id r = Some tid) (xr_template_id_update (\<lambda>_. None)) (x_runs db) \<rparr>)
      else Inl TemplateNotFound)"

definition template_visible :: "org_context \<Rightarrow> xtemplate \<Rightarrow> bool" where
  "template_visible cx t \<longleftrightarrow> qt_organization_id t = Some (oc_organization_id cx) \<or> qt_is_platform_global t"

text \<open>\<open>scalar_one_or_none\<close>; \<open>rank\<close> is the order of names in the collation of the database.\<close>

definition one_template :: "xtemplate list \<Rightarrow> run_error + xtemplate" where
  "one_template ts = (case ts of [] \<Rightarrow> Inl TemplateNotFound | [t] \<Rightarrow> Inr t | _ \<Rightarrow> Inl MultipleResultsFound)"

definition get_template :: "org_context \<Rightarrow> uuid \<Rightarrow> xdb \<Rightarrow> run_error + xtemplate" where
  "get_template cx tid db = one_template (filter (\<lambda>t. qt_id t = tid \<and> template_visible cx t) (x_templates db))"

definition get_template_by_slug :: "org_context \<Rightarrow> string \<Rightarrow> xdb \<Rightarrow> run_error + xtemplate" where
  "get_template_by_slug cx slug db = one_template (filter (\<lambda>t. qt_slug t = slug \<and> template_visible cx t) (x_templates db))"

definition list_templates :: "(string \<Rightarrow> nat) \<Rightarrow> org_context \<Rightarrow> uuid option \<Rightarrow> string option \<Rightarrow> xdb \<Rightarrow> xtemplate list" where
  "list_templates rank cx project_id category db =
     sort_key (rank \<circ> qt_name) (filter (\<lambda>t. template_visible cx t
       \<and> (project_id = None \<or> qt_project_id t = project_id \<or> qt_project_id t = None)
       \<and> (category = None \<or> qt_category t = category)) (x_templates db))"

section \<open>Retention\<close>

text \<open>
  The part of \<^verbatim>\<open>xiosync_retention_cleanup\<close> (migration p4001) on these tables: the runs that ended longer ago
  than \<open>runs_days\<close>, with the tasks and the letters that the keys of \<open>run_id\<close> cascade to, and the old letters.
  A run that ended without a time of ending stays.
\<close>

definition day :: int where "day = 24 * 3600 * 1000000"

definition run_expired :: "int \<Rightarrow> datetime \<Rightarrow> xrun \<Rightarrow> bool" where
  "run_expired days now r \<longleftrightarrow> terminal (xr_state r)
     \<and> (case xr_finished_at r of None \<Rightarrow> False | Some f \<Rightarrow> f < now - days * day)"

definition retention_cleanup :: "int \<Rightarrow> int \<Rightarrow> datetime \<Rightarrow> xdb \<Rightarrow> xdb" where
  "retention_cleanup runs_days dead_letters_days now db =
     (let ids = xr_id ` set (filter (run_expired runs_days now) (x_runs db))
      in db\<lparr> x_runs := filter (\<lambda>r. \<not> run_expired runs_days now r) (x_runs db),
             x_tasks := filter (\<lambda>t. xt_run_id t \<notin> ids) (x_tasks db),
             x_dead := filter (\<lambda>d. xd_run_id d \<notin> ids \<and> \<not> xd_created_at d < now - dead_letters_days * day) (x_dead db),
             x_gone := x_gone db \<union> ids \<rparr>)"

section \<open>Histories\<close>

datatype claimant = OrgWorker org_context | AnyWorker

definition claim_by :: "claimant \<Rightarrow> nat \<Rightarrow> uuid set \<Rightarrow> uuid \<Rightarrow> datetime \<Rightarrow> xdb \<Rightarrow> run_error + (xrun \<times> xdb) option" where
  "claim_by who = (case who of OrgWorker cx \<Rightarrow> (\<lambda>i locked. claim_pending_dag_run i locked cx)
                             | AnyWorker \<Rightarrow> claim_pending_dag_run_internal)"

datatype run_call =
    InsertRun uuid uuid "uuid option" "(string \<times> pyval) list" "(string \<times> pyval) list option" "int option" datetime
  | DispatchRun nat org_context dispatch_request uuid datetime
  | ClaimDag claimant nat "uuid set" uuid datetime
  | DispatchPending dispatch_env nat
  | CompleteRun org_context "uuid \<Rightarrow> uuid" uuid bool "uuid option" pyval "string option" datetime
  | CompleteRunInternal "uuid \<Rightarrow> uuid" uuid bool "uuid option" pyval "string option" datetime
  | PauseRun org_context uuid
  | ResumeRun org_context uuid
  | CancelRun org_context uuid datetime
  | RetryDlq "uuid \<Rightarrow> uuid" uuid datetime
  | HitlPause uuid pyval
  | HitlResume uuid
  | SetRunState uuid uuid string "string list"
  | ClaimNextRuns "xrun list \<Rightarrow> xrun list" "uuid set" uuid string "nat option" "string option"
  | AllocateRun uuid string
  | DetectStuck "uuid option" int datetime
  | CreateEscalation uuid pyval
  | ResolveEscalation uuid
  | OrchestratorCancel "uuid option" uuid datetime
  | Reprioritize "uuid option" uuid int
  | Reap "xtask \<Rightarrow> nat" "uuid \<Rightarrow> uuid" "uuid \<Rightarrow> uuid" datetime
  | RegisterTemplate "uuid set" org_context template_body uuid
  | DeleteTemplate org_context uuid
  | RetentionCleanup int int datetime

definition keep_db :: "xdb \<Rightarrow> ('a \<times> xdb) option \<Rightarrow> xdb" where
  "keep_db db c = (case c of None \<Rightarrow> db | Some (_, db') \<Rightarrow> db')"

fun run_calls :: "run_call \<Rightarrow> xdb \<Rightarrow> run_error + xdb" where
  "run_calls (InsertRun i org t c s p now) db = insert_run i org t c s p now db"
| "run_calls (DispatchRun k cx body i now) db = dispatch_run k cx body i now db"
| "run_calls (ClaimDag who k locked i now) db = map_sum id (keep_db db) (claim_by who k locked i now db)"
| "run_calls (DispatchPending env k) db = Inr (snd (snd (dispatch_pending_runs env k db)))"
| "run_calls (CompleteRun cx gen i ok t res err now) db = complete_run cx gen i ok t res err now db"
| "run_calls (CompleteRunInternal gen i ok t res err now) db = complete_run_internal gen i ok t res err now db"
| "run_calls (PauseRun cx i) db = pause_run cx i db"
| "run_calls (ResumeRun cx i) db = resume_run cx i db"
| "run_calls (CancelRun cx i now) db = cancel_run cx i now db"
| "run_calls (RetryDlq gen d now) db = retry_dlq gen d now db"
| "run_calls (HitlPause i h) db = hitl_pause i h db"
| "run_calls (HitlResume i) db = hitl_resume i db"
| "run_calls (SetRunState i org s vs) db = Inr (set_run_state i org s vs db)"
| "run_calls (ClaimNextRuns ord locked org w m c) db = map_sum id snd (claim_next_runs ord locked org w m c db)"
| "run_calls (AllocateRun i w) db = map_sum id snd (allocate_run_to_worker i w db)"
| "run_calls (DetectStuck org d now) db = map_sum id snd (detect_stuck_runs org d now db)"
| "run_calls (CreateEscalation i e) db = create_escalation i e db"
| "run_calls (ResolveEscalation i) db = map_sum id snd (resolve_escalation i db)"
| "run_calls (OrchestratorCancel org i now) db = orchestrator_cancel org i now db"
| "run_calls (Reprioritize org i p) db = reprioritize org i p db"
| "run_calls (Reap order gen ids now) db = map_sum id snd (reap_expired_leases order gen ids now db)"
| "run_calls (RegisterTemplate projects cx body i) db = map_sum id snd (register_template projects cx body i db)"
| "run_calls (DeleteTemplate cx i) db = delete_template cx i db"
| "run_calls (RetentionCleanup runs_days letters_days now) db = Inr (retention_cleanup runs_days letters_days now db)"

definition run_step :: "run_call \<Rightarrow> xdb \<Rightarrow> xdb" where
  "run_step = attempt run_calls"

section \<open>Invariant and evolution\<close>

text \<open>The retries of a task: at most three, each one lowering its priority by ten.\<close>

definition task_bounded :: "xtask \<Rightarrow> bool" where
  "task_bounded t \<longleftrightarrow> xt_max_retries t = 3 \<and> 0 \<le> xt_retry_count t \<and> xt_retry_count t \<le> 3
     \<and> xt_priority t = - (xt_retry_count t * 10) \<and> xt_attempt_count t = xt_retry_count t + 1"

text \<open>Keys are unique, states are of their vocabulary, and tasks and letters refer to runs that exist.\<close>

definition runs_ok :: "xdb \<Rightarrow> bool" where
  "runs_ok db \<longleftrightarrow> distinct (map xr_id (x_runs db)) \<and> xr_state ` set (x_runs db) \<subseteq> RUN_STATES
     \<and> distinct (map xt_id (x_tasks db)) \<and> xt_state ` set (x_tasks db) \<subseteq> TASK_STATES
     \<and> list_all task_bounded (x_tasks db) \<and> xt_run_id ` set (x_tasks db) \<subseteq> xr_id ` set (x_runs db)
     \<and> xd_run_id ` set (x_dead db) \<subseteq> xr_id ` set (x_runs db)"

text \<open>The states a run can come to from a state.\<close>

definition run_moves :: "string \<Rightarrow> string \<Rightarrow> bool" where
  "run_moves s s' \<longleftrightarrow> s = s' \<or> s = ''PENDING'' \<and> s' \<in> RUN_STATES \<or> s = ''RUNNING'' \<and> terminal s'"

text \<open>A call that deletes no run and no template keeps every run, with its template.\<close>

definition run_continues :: "xrun \<Rightarrow> xrun \<Rightarrow> bool" where
  "run_continues r r' \<longleftrightarrow> xr_id r' = xr_id r \<and> xr_organization_id r' = xr_organization_id r
     \<and> run_moves (xr_state r) (xr_state r')"

definition run_stays :: "xdb \<Rightarrow> xdb \<Rightarrow> bool" where
  "run_stays db db' \<longleftrightarrow> (\<forall>r \<in> set (x_runs db). \<exists>r' \<in> set (x_runs db').
     run_continues r r' \<and> xr_template_id r' = xr_template_id r)"

text \<open>The cleanup deletes runs; their ids do not come back.\<close>

definition run_evolves :: "xdb \<Rightarrow> xdb \<Rightarrow> bool" where
  "run_evolves db db' \<longleftrightarrow> x_gone db \<subseteq> x_gone db'
     \<and> (\<forall>r \<in> set (x_runs db). xr_id r \<in> x_gone db' \<or> (\<exists>r' \<in> set (x_runs db'). run_continues r r'))"

definition gone_ok :: "xdb \<Rightarrow> bool" where
  "gone_ok db \<longleftrightarrow> xr_id ` set (x_runs db) \<inter> x_gone db = {}"

lemma run_moves_refl [simp]: "run_moves s s"
  by (simp add: run_moves_def)

lemma run_moves_trans: "run_moves s t \<Longrightarrow> run_moves t u \<Longrightarrow> run_moves s u"
  by (auto simp: run_moves_def RUN_STATES_def terminal_def)

lemma run_check_moves:
  "run_check s s' = Inr () \<Longrightarrow> s \<in> RUN_STATES \<Longrightarrow> run_moves s s'"
  "run_check s s' = Inr () \<Longrightarrow> s' \<in> RUN_STATES"
  by (auto simp: run_check_def state_guard_def run_moves_def RUN_STATES_def terminal_def split: if_splits)

text \<open>No UPDATE of the column \<open>state\<close> leaves a pending or running run where it is.\<close>

lemma run_check_steps:
  "run_check s s' = Inr () \<Longrightarrow> s = ''PENDING'' \<Longrightarrow> s' \<in> {''RUNNING'', ''CANCELLED''}"
  "run_check s s' = Inr () \<Longrightarrow> s = ''RUNNING'' \<Longrightarrow> terminal s'"
  "run_check s s' = Inr () \<Longrightarrow> terminal s \<Longrightarrow> s' = s"
  by (auto simp: run_check_def state_guard_def terminal_def split: if_splits)

lemma run_continues_refl [simp]: "run_continues r r"
  by (simp add: run_continues_def)

lemma run_continues_trans: "run_continues r s \<Longrightarrow> run_continues s t \<Longrightarrow> run_continues r t"
  unfolding run_continues_def using run_moves_trans by auto

lemma run_stays_refl [simp]: "run_stays db db"
  by (auto simp: run_stays_def intro!: bexI)

lemma run_stays_trans: "run_stays db1 db2 \<Longrightarrow> run_stays db2 db3 \<Longrightarrow> run_stays db1 db3"
  unfolding run_stays_def using run_continues_trans by metis

lemma run_evolves_refl [simp]: "run_evolves db db"
  by (auto simp: run_evolves_def intro!: bexI)

lemma run_evolves_trans:
  assumes "run_evolves db1 db2" and "run_evolves db2 db3"
  shows "run_evolves db1 db3"
  unfolding run_evolves_def
proof (intro conjI ballI)
  show "x_gone db1 \<subseteq> x_gone db3" using assms by (auto simp: run_evolves_def)
  fix r assume "r \<in> set (x_runs db1)"
  with assms(1) consider "xr_id r \<in> x_gone db2" | s where "s \<in> set (x_runs db2)" "run_continues r s"
    unfolding run_evolves_def by blast
  then show "xr_id r \<in> x_gone db3 \<or> (\<exists>r' \<in> set (x_runs db3). run_continues r r')"
  proof cases
    case 1
    then show ?thesis using assms(2) by (auto simp: run_evolves_def)
  next
    case (2 s)
    moreover from 2(2) have "xr_id s = xr_id r" by (simp add: run_continues_def)
    ultimately show ?thesis using assms(2) run_continues_trans unfolding run_evolves_def by metis
  qed
qed

text \<open>An assignment keeps the identity of a run.\<close>

definition same_run :: "(xrun \<Rightarrow> xrun) \<Rightarrow> bool" where
  "same_run f \<longleftrightarrow> (\<forall>r. xr_id (f r) = xr_id r \<and> xr_organization_id (f r) = xr_organization_id r
     \<and> xr_template_id (f r) = xr_template_id r)"

lemma update_runs_Inr:
  assumes "update_runs p f db = Inr db'"
  shows "db' = db\<lparr> x_runs := update_where p f (x_runs db) \<rparr>"
    and "r \<in> set (x_runs db) \<Longrightarrow> p r \<Longrightarrow> run_check (xr_state r) (xr_state (f r)) = Inr ()"
  using assms by (auto simp: update_runs_def for_each_ok_iff)

lemma update_runs_stays:
  assumes ok: "runs_ok db" and upd: "update_runs p f db = Inr db'" and same: "same_run f"
  shows "run_stays db db'"
  unfolding run_stays_def
proof
  fix r assume r: "r \<in> set (x_runs db)"
  let ?r = "if p r then f r else r"
  have "?r \<in> set (x_runs db')"
    unfolding update_runs_Inr(1) [OF upd] using r by (simp add: set_update_where image_iff) blast
  moreover have "run_moves (xr_state r) (xr_state ?r)"
    using update_runs_Inr(2) [OF upd r] run_check_moves(1) ok r by (auto simp: runs_ok_def)
  ultimately show "\<exists>r' \<in> set (x_runs db'). run_continues r r' \<and> xr_template_id r' = xr_template_id r"
    using same unfolding same_run_def run_continues_def by (intro bexI [of _ ?r]) auto
qed

lemma update_run_ids:
  assumes "\<And>r. key (f r) = key r"
  shows "key ` set (update_where p f rows) = key ` set rows"
proof -
  have "map key (update_where p f rows) = map key rows" using assms by (intro map_update_where)
  then show ?thesis by (metis list.set_map)
qed

lemma update_runs_ok:
  assumes ok: "runs_ok db" and upd: "update_runs p f db = Inr db'" and same: "same_run f"
  shows "runs_ok db'"
proof -
  have ids: "map xr_id (x_runs db') = map xr_id (x_runs db)"
    unfolding update_runs_Inr(1) [OF upd] using same by (simp add: map_update_where same_run_def)
  then have set_ids: "xr_id ` set (x_runs db') = xr_id ` set (x_runs db)" by (metis list.set_map)
  have "xr_state r \<in> RUN_STATES" if r: "r \<in> set (x_runs db')" for r
  proof -
    from r obtain r0 where r0: "r0 \<in> set (x_runs db)" "r = (if p r0 then f r0 else r0)"
      unfolding update_runs_Inr(1) [OF upd] by (auto simp: set_update_where)
    with ok run_check_moves(2) [OF update_runs_Inr(2) [OF upd r0(1)]] show ?thesis
      by (auto simp: runs_ok_def)
  qed
  with ok ids set_ids update_runs_Inr(1) [OF upd] show ?thesis by (auto simp: runs_ok_def)
qed

text \<open>Nothing claims a task that was put back, so no claimed task has been retried, and none is retried twice.\<close>

definition task_fresh :: "xtask \<Rightarrow> bool" where
  "task_fresh t \<longleftrightarrow> xt_retry_count t \<le> 1 \<and> (xt_state t = ''CLAIMED'' \<longrightarrow> xt_retry_count t = 0)"

definition tasks_fresh :: "xdb \<Rightarrow> bool" where
  "tasks_fresh db \<longleftrightarrow> list_all task_fresh (x_tasks db)"

text \<open>All at once, in the form that the operations use; a statement on tasks or letters moves no run.\<close>

definition keeps :: "xdb \<Rightarrow> xdb \<Rightarrow> bool" where
  "keeps db db' \<longleftrightarrow> (runs_ok db \<longrightarrow> runs_ok db' \<and> run_stays db db' \<and> x_gone db' = x_gone db
     \<and> (gone_ok db \<longrightarrow> gone_ok db') \<and> (tasks_fresh db \<longrightarrow> tasks_fresh db'))"

lemma keeps_refl [simp, intro]: "keeps db db"
  by (simp add: keeps_def)

lemma keeps_trans [trans]: "keeps db1 db2 \<Longrightarrow> keeps db2 db3 \<Longrightarrow> keeps db1 db3"
  unfolding keeps_def using run_stays_trans by auto

lemma update_runs_keeps: "update_runs p f db = Inr db' \<Longrightarrow> same_run f \<Longrightarrow> keeps db db'"
  using update_runs_ok update_runs_stays update_runs_Inr(1) [of p f db db']
  by (simp add: keeps_def tasks_fresh_def gone_ok_def update_run_ids same_run_def)

lemma run_stays_same: "x_runs db' = x_runs db \<Longrightarrow> run_stays db db'"
  by (auto simp: run_stays_def intro!: bexI)

lemma update_tasks_keeps:
  assumes upd: "update_tasks gen now p f db = Inr db'"
    and same: "\<And>t. runs_ok db \<Longrightarrow> t \<in> set (x_tasks db) \<Longrightarrow> p t \<Longrightarrow> xt_id (f t) = xt_id t \<and> xt_run_id (f t) = xt_run_id t
      \<and> (task_bounded t \<longrightarrow> task_bounded (f t)) \<and> (task_fresh t \<longrightarrow> task_fresh (f t))"
  shows "keeps db db'"
  unfolding keeps_def
proof
  assume ok: "runs_ok db"
  note same = same [OF ok]
  from upd have runs: "x_runs db' = x_runs db" and gone: "x_gone db' = x_gone db" and tasks: "x_tasks db' = update_where p f (x_tasks db)"
    and dead: "x_dead db' = x_dead db @ map (dlq_letter gen now \<circ> f) (filter (\<lambda>t. p t \<and> dlq_due t (f t)) (x_tasks db))"
    and check: "\<And>t. t \<in> set (x_tasks db) \<Longrightarrow> p t \<Longrightarrow> task_check (f t) = Inr ()"
    by (auto simp: update_tasks_def for_each_ok_iff)
  have "map xt_id (x_tasks db') = map xt_id (x_tasks db)" "map xt_run_id (x_tasks db') = map xt_run_id (x_tasks db)"
    unfolding tasks using same by (simp_all add: map_update_where)
  then have ids: "map xt_id (x_tasks db') = map xt_id (x_tasks db)"
    and run_ids: "xt_run_id ` set (x_tasks db') = xt_run_id ` set (x_tasks db)" by (simp, metis list.set_map)
  have letters: "xd_run_id ` set (x_dead db') \<subseteq> xd_run_id ` set (x_dead db) \<union> xt_run_id ` set (x_tasks db)"
    unfolding dead using same by (auto simp: dlq_letter_def)
  have states: "xt_state ` set (x_tasks db') \<subseteq> TASK_STATES"
  proof
    fix st assume "st \<in> xt_state ` set (x_tasks db')"
    then obtain t where t: "t \<in> set (x_tasks db)" "st = xt_state (if p t then f t else t)"
      unfolding tasks set_update_where by blast
    from check [OF t(1)] have "p t \<Longrightarrow> xt_state (f t) \<in> TASK_STATES" by (auto simp: task_check_def split: if_splits)
    with ok t show "st \<in> TASK_STATES" by (auto simp: runs_ok_def)
  qed
  have bounded: "list_all task_bounded (x_tasks db')"
    unfolding tasks using ok same by (intro list_all_update_where) (auto simp: runs_ok_def)
  have "xd_run_id ` set (x_dead db') \<subseteq> xr_id ` set (x_runs db)"
    using ok by (intro subset_trans [OF letters] Un_least) (simp_all add: runs_ok_def)
  with ok states bounded have "runs_ok db'" by (simp add: runs_ok_def ids run_ids runs)
  moreover have "tasks_fresh db \<longrightarrow> tasks_fresh db'"
    unfolding tasks_fresh_def tasks using same by (auto intro!: list_all_update_where)
  ultimately show "runs_ok db' \<and> run_stays db db' \<and> x_gone db' = x_gone db
     \<and> (gone_ok db \<longrightarrow> gone_ok db') \<and> (tasks_fresh db \<longrightarrow> tasks_fresh db')"
    using run_stays_same [OF runs] by (simp add: gone runs gone_ok_def)
qed

lemma insert_run_keeps:
  assumes "insert_run i org t c s p now db = Inr db'"
  shows "keeps db db'"
proof -
  from assms obtain row where rows: "x_runs db' = x_runs db @ [row]" "x_tasks db' = x_tasks db" "x_dead db' = x_dead db"
    "xr_id row \<notin> xr_id ` set (x_runs db)" "xr_id row \<notin> x_gone db" "x_gone db' = x_gone db" "xr_state row = ''PENDING''"
    by (auto simp: insert_run_def split: if_splits option.splits)
  then have "run_stays db db'" by (auto simp: run_stays_def intro!: bexI)
  with rows show ?thesis by (simp add: keeps_def runs_ok_def tasks_fresh_def gone_ok_def RUN_STATES_def subset_insertI2)
qed

lemma insert_task_keeps:
  assumes "insert_task i r org intent now db = Inr db'"
  shows "keeps db db'"
proof -
  from assms obtain row where "x_runs db' = x_runs db" "x_gone db' = x_gone db" "x_dead db' = x_dead db" "x_tasks db' = x_tasks db @ [row]"
    "xt_id row \<notin> xt_id ` set (x_tasks db)" "xt_run_id row \<in> xr_id ` set (x_runs db)" "xt_state row = ''CLAIMED''" "task_bounded row" "task_fresh row"
    by (auto simp: insert_task_def claimed_task_def task_bounded_def task_fresh_def split: if_splits option.splits)
  then show ?thesis by (simp add: keeps_def runs_ok_def tasks_fresh_def gone_ok_def run_stays_same TASK_STATES_def)
qed

lemma insert_dead_keeps:
  assumes "insert_dead i r t org p n e now db = Inr db'"
  shows "keeps db db'"
proof (cases "db' = db")
  case False
  with assms obtain row where "x_runs db' = x_runs db" "x_gone db' = x_gone db" "x_tasks db' = x_tasks db" "x_dead db' = x_dead db @ [row]"
    "xd_run_id row \<in> xr_id ` set (x_runs db)"
    by (auto simp: insert_dead_def split: if_splits option.splits)
  then show ?thesis by (simp add: keeps_def runs_ok_def tasks_fresh_def gone_ok_def run_stays_same)
qed simp

lemma same_run_simps [simp]: "same_run f \<longleftrightarrow> (\<forall>r. xr_id (f r) = xr_id r \<and> xr_organization_id (f r) = xr_organization_id r
     \<and> xr_template_id (f r) = xr_template_id r)"
  by (simp add: same_run_def)

lemma claim_row_Some:
  assumes "claim_row i locked q f db = Inr (Some (r', db'))"
  obtains r where "r \<in> set (x_runs db)" and "xr_state r = ''PENDING''" and "q r" and "xr_id r \<notin> locked"
    and "r' = f r" and "update_runs (\<lambda>x. xr_id x = xr_id r) f db = Inr db'"
    and "\<And>s. s \<in> set (x_runs db) \<Longrightarrow> xr_state s = ''PENDING'' \<Longrightarrow> q s \<Longrightarrow> xr_id s \<notin> locked \<Longrightarrow> \<not> run_before s r"
proof -
  let ?cands = "filter (\<lambda>r. xr_state r = ''PENDING'' \<and> q r \<and> xr_id r \<notin> locked) (x_runs db)"
  from assms obtain r where r: "chosen i (minimal run_before ?cands) = Some r"
    and rest: "r' = f r" "update_runs (\<lambda>x. xr_id x = xr_id r) f db = Inr db'"
    by (auto simp: claim_row_def split: option.splits)
  from r have "r \<in> set (minimal run_before ?cands)" by (auto simp: chosen_def split: if_splits)
  then show thesis by (intro that [of r]) (use rest in \<open>auto simp: minimal_def list_ex_iff\<close>)
qed

lemma claim_row_keeps: "claim_row i locked q f db = Inr (Some (r', db')) \<Longrightarrow> same_run f \<Longrightarrow> keeps db db'"
  by (erule claim_row_Some) (rule update_runs_keeps)

section \<open>Every call keeps the tables\<close>

lemma complete_rows_keeps:
  assumes "complete_rows p gen ok tid res err now db = Inr db'"
  shows "keeps db db'"
proof -
  from assms obtain db1 where
    tasks: "(case tid of None \<Rightarrow> Inr db | Some i \<Rightarrow> update_tasks gen now (\<lambda>t. xt_id t = i)
        (\<lambda>t. t\<lparr> xt_state := outcome_state ok, xt_result := Some res, xt_error := err,
                xt_completed_at := Some now \<rparr>) db) = Inr db1"
    and runs: "update_runs p (\<lambda>r. r\<lparr> xr_state := outcome_state ok, xr_finished_at := Some now, xr_error := err \<rparr>) db1 = Inr db'"
    by (auto simp: complete_rows_def)
  have "keeps db db1" using tasks by (auto split: option.splits simp: task_bounded_def task_fresh_def outcome_state_def dest!: update_tasks_keeps)
  also have "keeps db1 db'" using runs by (rule update_runs_keeps) simp
  finally show ?thesis .
qed

lemma finalise_keeps:
  assumes "finalise gen now d r t result db = Inr db'"
  shows "keeps db db'"
proof -
  from assms obtain db1 db2 where
    tasks: "update_tasks gen now (\<lambda>x. xt_id x = t)
        (\<lambda>x. x\<lparr> xt_state := outcome_state (ex_success result), xt_result := Some (ex_result result),
                xt_error := ex_error result, xt_completed_at := Some now \<rparr>) db = Inr db1"
    and runs: "update_runs (\<lambda>x. xr_id x = r)
        (\<lambda>x. x\<lparr> xr_state := outcome_state (ex_success result), xr_finished_at := Some now \<rparr>) db1 = Inr db2"
    and dead: "db' = db2 \<or> (\<exists>p e. insert_dead d r t None p 1 e now db2 = Inr db')"
    by (auto simp: finalise_def split: if_splits)
  have "keeps db db1" using tasks by (rule update_tasks_keeps) (simp add: task_bounded_def task_fresh_def outcome_state_def)
  also have "keeps db1 db2" using runs by (rule update_runs_keeps) simp
  also have "keeps db2 db'" using dead insert_dead_keeps by auto
  finally show ?thesis .
qed

lemma claim_dag_keeps: "claim_dag q org i locked t now db = Inr (Some (r, db')) \<Longrightarrow> keeps db db'"
  by (auto simp: claim_dag_def split: option.splits intro: keeps_trans dest!: claim_row_keeps insert_task_keeps)

lemma claim_by_keeps: "claim_by who i locked t now db = Inr (Some (r, db')) \<Longrightarrow> keeps db db'"
  by (auto simp: claim_by_def claim_pending_dag_run_def claim_pending_dag_run_internal_def split: claimant.splits
      dest: claim_dag_keeps)

lemma dispatch_one_keeps: "dispatch_one env n db = Inr (Some db') \<Longrightarrow> keeps db db'"
proof -
  assume "dispatch_one env n db = Inr (Some db')"
  then obtain r db1 db2 k intent where claim: "claim_next_pending (de_choice env n) (de_locked env) (de_session_of env) db = Inr (Some (r, db1))"
    and task: "insert_task (de_task_id env n) (xr_id r) None intent (de_now env) db1 = Inr db2"
    and fin: "finalise (de_gen env) (de_now env) (de_dlq_id env n) (xr_id r) (de_task_id env n) k db2 = Inr db'"
    by (auto simp: dispatch_one_def Let_def split: option.splits)
  from claim have "keeps db db1" unfolding claim_next_pending_def by (rule claim_row_keeps) simp
  also note insert_task_keeps [OF task]
  also note finalise_keeps [OF fin]
  finally show ?thesis .
qed

lemma dispatch_loop_keeps: "keeps db (snd (snd (dispatch_loop env k n db)))"
  by (induction env k n db rule: dispatch_loop.induct)
    (auto split: sum.split option.split intro: keeps_trans dispatch_one_keeps)

lemma resolve_keeps: "keeps db (db\<lparr> x_dead := update_where p (xd_resolved_at_update f) (x_dead db) \<rparr>)"
proof -
  have "map xd_run_id (update_where p (xd_resolved_at_update f) (x_dead db)) = map xd_run_id (x_dead db)"
    by (simp add: map_update_where)
  then have "xd_run_id ` set (update_where p (xd_resolved_at_update f) (x_dead db)) = xd_run_id ` set (x_dead db)"
    by (metis list.set_map)
  then show ?thesis by (simp add: keeps_def runs_ok_def tasks_fresh_def gone_ok_def run_stays_same)
qed

lemma retry_dlq_cases:
  assumes "retry_dlq gen d now db = Inr db'"
  obtains dl db1 db2 where "find (\<lambda>x. xd_id x = d) (x_dead db) = Some dl"
    and "update_runs (\<lambda>r. xr_id r = xd_run_id dl) (\<lambda>r. r\<lparr> xr_state := ''PENDING'', xr_finished_at := None \<rparr>) db = Inr db1"
    and "update_tasks gen now (\<lambda>t. xt_run_id t = xd_run_id dl)
        (\<lambda>t. t\<lparr> xt_state := ''PENDING'', xt_claimed_at := None, xt_error := None \<rparr>) db1 = Inr db2"
    and "db' = db2\<lparr> x_dead := update_where (\<lambda>x. xd_id x = d) (xd_resolved_at_update (\<lambda>_. Some now)) (x_dead db2) \<rparr>"
  using assms by (simp add: retry_dlq_def split: option.splits) blast

lemma retry_dlq_keeps: "retry_dlq gen d now db = Inr db' \<Longrightarrow> keeps db db'"
proof (erule retry_dlq_cases)
  fix dl db1 db2
  assume runs: "update_runs (\<lambda>r. xr_id r = xd_run_id dl) (\<lambda>r. r\<lparr> xr_state := ''PENDING'', xr_finished_at := None \<rparr>) db = Inr db1"
    and tasks: "update_tasks gen now (\<lambda>t. xt_run_id t = xd_run_id dl)
        (\<lambda>t. t\<lparr> xt_state := ''PENDING'', xt_claimed_at := None, xt_error := None \<rparr>) db1 = Inr db2"
    and db': "db' = db2\<lparr> x_dead := update_where (\<lambda>x. xd_id x = d) (xd_resolved_at_update (\<lambda>_. Some now)) (x_dead db2) \<rparr>"
  have "keeps db db1" by (rule update_runs_keeps [OF runs]) simp
  also have "keeps db1 db2" by (rule update_tasks_keeps [OF tasks]) (simp add: task_bounded_def task_fresh_def outcome_state_def)
  also have "keeps db2 db'" unfolding db' by (rule resolve_keeps)
  finally show ?thesis .
qed

lemma reprioritize_keeps: "reprioritize org i p db = Inr db' \<Longrightarrow> keeps db db'"
proof -
  assume "reprioritize org i p db = Inr db'"
  then obtain q where db': "db' = db\<lparr> x_runs := update_where q (xr_priority_update (\<lambda>_. Some p)) (x_runs db) \<rparr>"
    by (auto simp: reprioritize_def Let_def split: option.splits if_splits)
  have "run_stays db db'"
    unfolding run_stays_def
  proof
    fix r assume r: "r \<in> set (x_runs db)"
    let ?r = "if q r then r\<lparr> xr_priority := Some p \<rparr> else r"
    have "?r \<in> set (x_runs db')" unfolding db' using r by (auto simp: set_update_where image_iff)
    then show "\<exists>r' \<in> set (x_runs db'). run_continues r r' \<and> xr_template_id r' = xr_template_id r"
      by (intro bexI [of _ ?r]) (simp_all add: run_continues_def)
  qed
  moreover have "map xr_id (x_runs db') = map xr_id (x_runs db)" "map xr_state (x_runs db') = map xr_state (x_runs db)"
    unfolding db' by (simp_all add: map_update_where)
  then have "map xr_id (x_runs db') = map xr_id (x_runs db)" "xr_id ` set (x_runs db') = xr_id ` set (x_runs db)"
    "xr_state ` set (x_runs db') = xr_state ` set (x_runs db)" by (simp, metis list.set_map, metis list.set_map)
  ultimately show ?thesis using db' by (simp add: keeps_def runs_ok_def tasks_fresh_def gone_ok_def)
qed

text \<open>A row that is read is the row that is written, since ids are unique.\<close>

lemma task_eq: "runs_ok db \<Longrightarrow> t \<in> set (x_tasks db) \<Longrightarrow> row \<in> set (x_tasks db) \<Longrightarrow> xt_id t = xt_id row \<Longrightarrow> t = row"
  using distinct_map_eq [of xt_id "x_tasks db"] by (simp add: runs_ok_def)

lemma bounded_row: "runs_ok db \<Longrightarrow> row \<in> set (x_tasks db) \<Longrightarrow> task_bounded row"
  by (simp add: runs_ok_def list_all_iff)

lemma reap_row_Inr:
  assumes "reap_row gen d now row db = Inr db'"
  shows "xt_retry_count row < xt_max_retries row \<and> update_tasks gen now (\<lambda>t. xt_id t = xt_id row) (requeue row) db = Inr db'"
  using assms by (auto simp: reap_row_def insert_dead_def split: if_splits)

lemma reap_row_keeps:
  assumes "reap_row gen d now row db = Inr db'" and "row \<in> set (x_tasks db)" and "xt_state row = ''CLAIMED''"
  shows "keeps db db'"
proof -
  from reap_row_Inr [OF assms(1)] have less: "xt_retry_count row < xt_max_retries row"
    and upd: "update_tasks gen now (\<lambda>t. xt_id t = xt_id row) (requeue row) db = Inr db'" by simp_all
  from upd show ?thesis
  proof (rule update_tasks_keeps)
    fix t assume "runs_ok db" "t \<in> set (x_tasks db)" "xt_id t = xt_id row"
    with assms(2) have "t = row" "task_bounded row" by (auto intro: task_eq bounded_row)
    with less show "xt_id (requeue row t) = xt_id t \<and> xt_run_id (requeue row t) = xt_run_id t
      \<and> (task_bounded t \<longrightarrow> task_bounded (requeue row t)) \<and> (task_fresh t \<longrightarrow> task_fresh (requeue row t))"
      using assms(3) by (simp add: requeue_def Let_def task_bounded_def task_fresh_def)
  qed
qed

lemma reap_row_others:
  assumes "reap_row gen d now row db = Inr db'" and "t \<in> set (x_tasks db)" and "xt_id t \<noteq> xt_id row"
  shows "t \<in> set (x_tasks db')"
proof -
  from reap_row_Inr [OF assms(1)]
  have "x_tasks db' = update_where (\<lambda>t. xt_id t = xt_id row) (requeue row) (x_tasks db)"
    by (auto simp: update_tasks_def)
  with assms(2,3) show ?thesis by (auto simp: set_update_where image_iff)
qed

lemma reap_rows_keeps:
  assumes "reap_rows gen ids now rows db = Inr db'" and "distinct (map xt_id rows)" and "set rows \<subseteq> set (x_tasks db)"
    and "\<And>t. t \<in> set rows \<Longrightarrow> xt_state t = ''CLAIMED''"
  shows "keeps db db'"
  using assms
proof (induction rows arbitrary: db)
  case (Cons row rows)
  then obtain db1 where row: "reap_row gen (ids (xt_id row)) now row db = Inr db1"
    and rows: "reap_rows gen ids now rows db1 = Inr db'" by auto
  have "keeps db db1" using row Cons.prems(3,4) by (intro reap_row_keeps) auto
  also have "set rows \<subseteq> set (x_tasks db1)"
  proof
    fix t assume t: "t \<in> set rows"
    have "xt_id row \<notin> xt_id ` set rows" using Cons.prems(2) by simp
    with t have "xt_id t \<noteq> xt_id row" by (metis imageI)
    with t Cons.prems(3) show "t \<in> set (x_tasks db1)" by (intro reap_row_others [OF row]) auto
  qed
  then have "keeps db1 db'" using rows Cons.prems(2,4) by (intro Cons.IH) auto
  finally show ?case .
qed simp

text \<open>The rows of a tick.\<close>

definition reap_batch :: "(xtask \<Rightarrow> nat) \<Rightarrow> datetime \<Rightarrow> xdb \<Rightarrow> xtask list" where
  "reap_batch order now db = take 100 (sort_key order (filter (is_stale now) (x_tasks db)))"

lemma reap_batch_rows:
  assumes "distinct (map xt_id (x_tasks db))"
  shows "distinct (map xt_id (reap_batch order now db))" and "set (reap_batch order now db) \<subseteq> set (x_tasks db)"
    and "t \<in> set (reap_batch order now db) \<Longrightarrow> is_stale now t"
proof -
  have "mset (map xt_id (sort_key order (filter (is_stale now) (x_tasks db)))) = mset (map xt_id (filter (is_stale now) (x_tasks db)))"
    by simp
  then have "distinct (map xt_id (sort_key order (filter (is_stale now) (x_tasks db))))"
    using assms distinct_map_filter [of xt_id "x_tasks db" "is_stale now"] by (metis mset_eq_imp_distinct_iff)
  then show "distinct (map xt_id (reap_batch order now db))"
    unfolding reap_batch_def take_map [symmetric] by (rule distinct_take)
  show "set (reap_batch order now db) \<subseteq> set (x_tasks db)"
    unfolding reap_batch_def by (rule subset_trans [OF set_take_subset]) auto
  show "t \<in> set (reap_batch order now db) \<Longrightarrow> is_stale now t"
    unfolding reap_batch_def by (drule in_set_takeD) simp
qed

lemma map_sum_Inr: "map_sum id f m = Inr y \<longleftrightarrow> (\<exists>x. m = Inr x \<and> y = f x)"
  by (cases m) auto

text \<open>The calls that are one statement behind guards.\<close>

lemma endpoint_keeps:
  "pause_run cx i db = Inr db' \<Longrightarrow> keeps db db'"
  "resume_run cx i db = Inr db' \<Longrightarrow> keeps db db'"
  "cancel_run cx i now db = Inr db' \<Longrightarrow> keeps db db'"
  "hitl_pause i h db = Inr db' \<Longrightarrow> keeps db db'"
  "hitl_resume i db = Inr db' \<Longrightarrow> keeps db db'"
  "create_escalation i h db = Inr db' \<Longrightarrow> keeps db db'"
  "dispatch_run k cx body i now db = Inr db' \<Longrightarrow> keeps db db'"
  by (auto simp: pause_run_def resume_run_def cancel_run_def hitl_pause_def hitl_resume_def create_escalation_def
      dispatch_run_def Let_def split: if_splits dest: insert_run_keeps dest!: update_runs_keeps)

lemma claim_next_runs_keeps: "claim_next_runs ord locked org w m c db = Inr (rs, db') \<Longrightarrow> keeps db db'"
  unfolding claim_next_runs_def Let_def by (simp only: rbind_eq_Inr sum.inject prod.inject) (auto dest!: update_runs_keeps)

lemma allocate_keeps: "allocate_run_to_worker i w db = Inr (b, db') \<Longrightarrow> keeps db db'"
  unfolding allocate_run_to_worker_def Let_def
  by (simp only: rbind_eq_Inr sum.inject prod.inject) (auto dest!: update_runs_keeps)

lemma detect_stuck_keeps: "detect_stuck_runs org d now db = Inr (rs, db') \<Longrightarrow> keeps db db'"
  unfolding detect_stuck_runs_def Let_def
  by (simp only: rbind_eq_Inr sum.inject prod.inject split: if_splits) (auto dest!: update_runs_keeps)

lemma resolve_escalation_keeps: "resolve_escalation i db = Inr (b, db') \<Longrightarrow> keeps db db'"
  unfolding resolve_escalation_def Let_def
  by (simp only: rbind_eq_Inr sum.inject prod.inject) (auto dest!: update_runs_keeps)

lemma orchestrator_cancel_keeps: "orchestrator_cancel org i now db = Inr db' \<Longrightarrow> keeps db db'"
  unfolding orchestrator_cancel_def Let_def
  by (cases org) (simp, simp only: option.case rbind_eq_Inr split: if_splits, auto dest!: update_runs_keeps)

lemma reap_keeps:
  assumes "reap_expired_leases order gen ids now db = Inr (n, db')"
  shows "keeps db db'"
proof (cases "distinct (map xt_id (x_tasks db))")
  case True
  from assms have "reap_rows gen ids now (reap_batch order now db) db = Inr db'"
    by (auto simp: reap_expired_leases_def reap_batch_def Let_def)
  then show ?thesis using reap_batch_rows(1,2) [OF True]
  proof (rule reap_rows_keeps)
    show "xt_state t = ''CLAIMED''" if "t \<in> set (reap_batch order now db)" for t
      using reap_batch_rows(3) [OF True that] by (simp add: is_stale_def)
  qed
qed (simp add: keeps_def runs_ok_def)

lemma set_run_state_keeps: "keeps db (set_run_state i org st vs db)"
  by (auto simp: set_run_state_def split: sum.split dest!: update_runs_keeps)

lemma register_template_keeps: "register_template projects cx body i db = Inr (t, db') \<Longrightarrow> keeps db db'"
proof -
  assume "register_template projects cx body i db = Inr (t, db')"
  then have "x_runs db' = x_runs db" "x_tasks db' = x_tasks db" "x_dead db' = x_dead db" "x_gone db' = x_gone db"
    by (auto simp: register_template_def split: list.splits if_splits)
  then show ?thesis by (simp add: keeps_def runs_ok_def tasks_fresh_def gone_ok_def run_stays_same)
qed

lemma delete_template_Inr:
  assumes "delete_template cx i db = Inr db'"
  shows "x_runs db' = update_where (\<lambda>r. xr_template_id r = Some i) (xr_template_id_update (\<lambda>_. None)) (x_runs db)"
    and "x_tasks db' = x_tasks db" "x_dead db' = x_dead db" "x_gone db' = x_gone db"
  using assms by (auto simp: delete_template_def split: if_splits)

lemma delete_template_run:
  assumes "delete_template cx i db = Inr db'" and "r \<in> set (x_runs db)"
  shows "\<exists>r' \<in> set (x_runs db'). run_continues r r' \<and> (xr_template_id r' = xr_template_id r \<or> xr_template_id r' = None \<and> xr_template_id r = Some i)"
proof -
  let ?r = "if xr_template_id r = Some i then xr_template_id_update (\<lambda>_. None) r else r"
  have "?r \<in> set (x_runs db')" unfolding delete_template_Inr(1) [OF assms(1)] using assms(2) by (auto simp: set_update_where image_iff)
  then show ?thesis by (intro bexI [of _ ?r]) (simp_all add: run_continues_def)
qed

definition run_inv :: "xdb \<Rightarrow> bool" where
  "run_inv db \<longleftrightarrow> runs_ok db \<and> tasks_fresh db \<and> gone_ok db"

lemma delete_template_inv:
  assumes "delete_template cx i db = Inr db'" and "run_inv db"
  shows "run_inv db'"
proof -
  note runs = delete_template_Inr [OF assms(1)]
  have "map xr_id (x_runs db') = map xr_id (x_runs db)" unfolding runs(1) by (simp add: map_update_where)
  moreover have "xr_id ` set (x_runs db') = xr_id ` set (x_runs db)" "xr_state ` set (x_runs db') = xr_state ` set (x_runs db)"
    unfolding runs(1) by (simp_all add: update_run_ids)
  ultimately show ?thesis using assms(2) runs(2-) by (simp add: run_inv_def runs_ok_def tasks_fresh_def gone_ok_def)
qed

lemmas call_keeps = insert_run_keeps complete_rows_keeps endpoint_keeps claim_next_runs_keeps allocate_keeps
  detect_stuck_keeps resolve_escalation_keeps orchestrator_cancel_keeps reap_keeps set_run_state_keeps
  retry_dlq_keeps reprioritize_keeps dispatch_loop_keeps claim_by_keeps register_template_keeps

fun deletes :: "run_call \<Rightarrow> bool" where
  "deletes (RetentionCleanup _ _ _) = True"
| "deletes (DeleteTemplate _ _) = True"
| "deletes _ = False"

lemma run_calls_keeps: "run_calls call db = Inr db' \<Longrightarrow> \<not> deletes call \<Longrightarrow> keeps db db'"
  by (cases call; simp only: run_calls.simps complete_run_def complete_run_internal_def dispatch_pending_runs_def map_sum_Inr
        sum.inject; auto simp: keep_db_def split: option.splits intro: call_keeps)

lemma run_step_keeps: "\<not> deletes call \<Longrightarrow> keeps db (run_step call db)"
  using run_calls_keeps [of call db] by (auto simp: run_step_def attempt_def split: sum.split)

text \<open>The cleanup leaves no task and no letter without its run.\<close>

lemma cleanup_inv:
  assumes "run_inv db"
  shows "run_inv (retention_cleanup d l now db)"
proof -
  let ?db = "retention_cleanup d l now db"
  have ok: "runs_ok db" and g: "gone_ok db" using assms by (simp_all add: run_inv_def)
  have dist: "inj_on xr_id (set (x_runs db))" using ok by (simp add: runs_ok_def distinct_map)
  have runs: "x_runs ?db = filter (\<lambda>r. \<not> run_expired d now r) (x_runs db)"
    and gone: "x_gone ?db = x_gone db \<union> xr_id ` {r \<in> set (x_runs db). run_expired d now r}"
    and tasks: "x_tasks ?db = filter (\<lambda>t. xt_run_id t \<notin> xr_id ` {r \<in> set (x_runs db). run_expired d now r}) (x_tasks db)"
    by (simp_all add: retention_cleanup_def Let_def)
  have left: "i \<in> xr_id ` set (x_runs ?db)"
    if "i \<in> xr_id ` set (x_runs db)" "i \<notin> xr_id ` {r \<in> set (x_runs db). run_expired d now r}" for i
    using that by (auto simp: runs)
  have t: "xt_run_id ` set (x_tasks ?db) \<subseteq> xr_id ` set (x_runs ?db)"
    using ok left by (auto simp: tasks runs_ok_def)
  have l: "xd_run_id ` set (x_dead ?db) \<subseteq> xr_id ` set (x_runs ?db)"
    using ok left by (auto simp: retention_cleanup_def runs_ok_def Let_def)
  have "runs_ok ?db"
    using ok t l by (auto simp: runs_ok_def runs tasks distinct_map_filter list_all_iff)
  moreover have "tasks_fresh ?db" using assms by (auto simp: run_inv_def tasks_fresh_def tasks list_all_iff)
  moreover have "gone_ok ?db"
    using g dist by (auto simp: gone_ok_def runs gone dest: inj_onD)
  ultimately show ?thesis by (simp add: run_inv_def)
qed

lemma cleanup_evolves: "run_evolves db (retention_cleanup d l now db)"
  unfolding run_evolves_def by (auto simp: retention_cleanup_def Let_def intro!: bexI)

lemma deletes_iff: "deletes call \<longleftrightarrow> (\<exists>d l now. call = RetentionCleanup d l now) \<or> (\<exists>cx i. call = DeleteTemplate cx i)"
  by (cases call) simp_all

lemma run_step_cleanup [simp]: "run_step (RetentionCleanup d l now) db = retention_cleanup d l now db"
  by (simp add: run_step_def attempt_def)

lemma run_step_delete: "run_step (DeleteTemplate cx i) db = db \<or> delete_template cx i db = Inr (run_step (DeleteTemplate cx i) db)"
  by (auto simp: run_step_def attempt_def split: sum.split)

text \<open>What one call does to a run that is there before it.\<close>

lemma run_step_run:
  assumes "run_inv db" and "r \<in> set (x_runs db)"
  shows "(\<exists>r' \<in> set (x_runs (run_step c db)). run_continues r r' \<and> (xr_template_id r' = xr_template_id r
      \<or> xr_template_id r' = None \<and> (\<exists>cx t. c = DeleteTemplate cx t \<and> xr_template_id r = Some t)))
    \<or> (\<exists>d l now. c = RetentionCleanup d l now \<and> run_expired d now r)"
proof (cases "deletes c")
  case False
  from run_step_keeps [OF this] assms show ?thesis by (fastforce simp: keeps_def run_inv_def run_stays_def)
next
  case True
  then consider d l now where "c = RetentionCleanup d l now" | cx i where "c = DeleteTemplate cx i" by (auto simp: deletes_iff)
  then show ?thesis
  proof cases
    case (1 d l now)
    then show ?thesis using assms(2)
      by (cases "run_expired d now r") (auto simp: retention_cleanup_def Let_def intro!: bexI [of _ r])
  next
    case (2 cx i)
    then show ?thesis using run_step_delete [of cx i db] delete_template_run [OF _ assms(2)] assms(2)
      by (metis run_continues_refl)
  qed
qed

lemma run_step_inv:
  assumes "run_inv db"
  shows "run_inv (run_step c db)"
proof (cases "deletes c")
  case False
  from run_step_keeps [OF this] assms show ?thesis by (simp add: keeps_def run_inv_def)
next
  case True
  then show ?thesis using assms run_step_delete cleanup_inv delete_template_inv by (metis deletes_iff run_step_cleanup)
qed

lemma run_step_gone:
  assumes "run_inv db"
  shows "x_gone db \<subseteq> x_gone (run_step c db)"
proof (cases "deletes c")
  case False
  from run_step_keeps [OF this] assms show ?thesis by (simp add: keeps_def run_inv_def)
next
  case True
  then show ?thesis using run_step_delete delete_template_Inr(4) cleanup_evolves
    by (metis deletes_iff run_step_cleanup run_evolves_def order_refl)
qed

lemma run_step_evolves:
  assumes "run_inv db"
  shows "run_evolves db (run_step c db)"
  unfolding run_evolves_def
proof (intro conjI ballI run_step_gone assms)
  fix r assume r: "r \<in> set (x_runs db)"
  show "xr_id r \<in> x_gone (run_step c db) \<or> (\<exists>r' \<in> set (x_runs (run_step c db)). run_continues r r')"
    using run_step_run [OF assms r, of c] r by (auto simp: retention_cleanup_def Let_def)
qed

interpretation run_tables: evolving_component run_step run_inv run_evolves
  by unfold_locales (auto intro: run_step_inv run_step_evolves run_evolves_trans)

text \<open>The states that are reached from tables without runs.\<close>

lemma reached_inv:
  assumes "x_runs db = []" and "x_tasks db = []" and "x_dead db = []"
  shows "run_inv (fold run_step xs db)"
  by (rule run_tables.run_inv) (simp add: run_inv_def runs_ok_def tasks_fresh_def gone_ok_def assms)

lemma reached_ok: "x_runs db = [] \<Longrightarrow> x_tasks db = [] \<Longrightarrow> x_dead db = [] \<Longrightarrow> runs_ok (fold run_step xs db)"
  using reached_inv by (simp add: run_inv_def)

section \<open>What the calls do\<close>

lemma run_eq: "runs_ok db \<Longrightarrow> r \<in> set (x_runs db) \<Longrightarrow> s \<in> set (x_runs db) \<Longrightarrow> xr_id r = xr_id s \<Longrightarrow> r = s"
  using distinct_map_eq [of xr_id "x_runs db"] by (simp add: runs_ok_def)

lemma run_valid: "runs_ok db \<Longrightarrow> r \<in> set (x_runs db) \<Longrightarrow> xr_state r \<in> RUN_STATES"
  by (auto simp: runs_ok_def)

lemma run_check_exit: "s \<in> RUN_STATES \<Longrightarrow> run_check s s' = Inr () \<Longrightarrow> s' \<in> {''RUNNING'', ''SUCCESS'', ''FAILED'', ''CANCELLED''}"
  by (auto simp: run_check_def state_guard_def RUN_STATES_def terminal_def split: if_splits)

text \<open>An UPDATE to a state that no run can be moved to either raises or finds no row.\<close>

lemma parked_update:
  assumes "runs_ok db" and "\<And>r. xr_state (f r) \<notin> {''RUNNING'', ''SUCCESS'', ''FAILED'', ''CANCELLED''}"
    and "update_runs p f db = Inr db'"
  shows "db' = db" and "\<And>r. r \<in> set (x_runs db) \<Longrightarrow> \<not> p r"
proof -
  show none: "\<not> p r" if "r \<in> set (x_runs db)" for r
    using update_runs_Inr(2) [OF assms(3) that] run_check_exit [OF run_valid [OF assms(1) that]] assms(2) by blast
  show "db' = db" using update_runs_Inr(1) [OF assms(3)] none by (simp add: update_where_none)
qed

lemma assert_run_Inr: "assert_run i org db = Inr r \<Longrightarrow> r \<in> set (x_runs db) \<and> xr_id r = i"
  by (auto simp: assert_run_def split: option.splits dest: find_Some_iff_mem)

lemma claim_by_Some:
  assumes "claim_by who i locked t now db = Inr (Some (r', db'))"
  obtains r db1 where "r \<in> set (x_runs db)" and "xr_state r = ''PENDING''" and "r' = r\<lparr> xr_state := ''RUNNING'' \<rparr>"
    and "x_runs db' = update_where (\<lambda>x. xr_id x = xr_id r) (xr_state_update (\<lambda>_. ''RUNNING'')) (x_runs db)"
proof -
  from assms obtain q org db1 where row: "claim_row i locked q (xr_state_update (\<lambda>_. ''RUNNING'')) db = Inr (Some (r', db1))"
    and task: "insert_task t (xr_id r') (Some (org r')) (run_intent r' db) now db1 = Inr db'"
    by (auto simp: claim_by_def claim_pending_dag_run_def claim_pending_dag_run_internal_def claim_dag_def
        split: claimant.splits option.splits)
  from row show thesis
  proof (rule claim_row_Some)
    fix r assume "r \<in> set (x_runs db)" "xr_state r = ''PENDING''" "r' = r\<lparr> xr_state := ''RUNNING'' \<rparr>"
      and upd: "update_runs (\<lambda>x. xr_id x = xr_id r) (xr_state_update (\<lambda>_. ''RUNNING'')) db = Inr db1"
    moreover have "x_runs db' = x_runs db1" using task by (auto simp: insert_task_def split: if_splits)
    ultimately show thesis using update_runs_Inr(1) [OF upd] by (intro that [of r]) simp_all
  qed
qed

lemma run_before_asym: "asymp run_before"
  by (rule asympI) (auto simp: run_before_def split: option.splits)

lemma run_before_trans: "transp run_before"
  by (rule transpI) (auto simp: run_before_def split: option.splits)

lemma minimal_nonempty: "rows \<noteq> [] \<Longrightarrow> minimal run_before rows \<noteq> []"
proof -
  assume "rows \<noteq> []"
  then have "\<exists>m \<in> set rows. \<forall>x \<in> set rows. x \<noteq> m \<longrightarrow> \<not> run_before x m"
    using run_before_asym run_before_trans
    by (intro Finite_Set.bex_min_element) (auto intro: asymp_on_subset transp_on_subset)
  then obtain m where "m \<in> set rows" "\<forall>x \<in> set rows. x \<noteq> m \<longrightarrow> \<not> run_before x m" by blast
  moreover have "\<not> run_before m m" using run_before_asym by (auto dest: asympD)
  ultimately have "m \<in> set (minimal run_before rows)" by (auto simp: minimal_def list_ex_iff)
  then show ?thesis by force
qed

lemma chosen_minimal:
  assumes "rows \<noteq> []"
  obtains r where "chosen i (minimal run_before rows) = Some r" and "r \<in> set rows" and "\<And>s. s \<in> set rows \<Longrightarrow> \<not> run_before s r"
proof -
  let ?ms = "minimal run_before rows"
  have "?ms \<noteq> []" by (rule minimal_nonempty [OF assms])
  then have "?ms ! (i mod length ?ms) \<in> set ?ms" by simp
  with \<open>?ms \<noteq> []\<close> show thesis by (intro that [of "?ms ! (i mod length ?ms)"]) (auto simp: chosen_def minimal_def list_ex_iff)
qed

lemma update_one_run:
  assumes "runs_ok db" and "r \<in> set (x_runs db)" and "run_check (xr_state r) (xr_state (f r)) = Inr ()"
  shows "update_runs (\<lambda>x. xr_id x = xr_id r) f db = Inr (db\<lparr> x_runs := update_where (\<lambda>x. xr_id x = xr_id r) f (x_runs db) \<rparr>)"
proof -
  have "for_each (\<lambda>r. run_check (xr_state r) (xr_state (f r))) (filter (\<lambda>x. xr_id x = xr_id r) (x_runs db)) = Inr ()"
    using assms by (auto simp: for_each_ok_iff dest: run_eq [OF assms(1) assms(2)])
  then show ?thesis by (simp add: update_runs_def)
qed

lemma claim_check [simp]: "run_check ''PENDING'' ''RUNNING'' = Inr ()"
  by (simp add: run_check_def state_guard_def terminal_def RUN_STATES_def)

text \<open>A claim, computed: the queue is empty, or one of its first runs is taken.\<close>

lemma claim_row_exact:
  fixes q db locked
  defines "cands \<equiv> filter (\<lambda>r. xr_state r = ''PENDING'' \<and> q r \<and> xr_id r \<notin> locked) (x_runs db)"
  assumes ok: "runs_ok db" and f: "\<And>r. xr_state (f r) = ''RUNNING''"
  shows "(cands = [] \<longrightarrow> claim_row i locked q f db = Inr None)
    \<and> (cands \<noteq> [] \<longrightarrow> (\<exists>r \<in> set cands. (\<forall>s \<in> set cands. \<not> run_before s r)
         \<and> claim_row i locked q f db = Inr (Some (f r,
             db\<lparr> x_runs := update_where (\<lambda>x. xr_id x = xr_id r) f (x_runs db) \<rparr>))))"
proof (intro conjI impI)
  show "claim_row i locked q f db = Inr None" if "cands = []"
    using that by (simp add: claim_row_def cands_def minimal_def chosen_def)
next
  assume "cands \<noteq> []"
  then obtain r where r: "chosen i (minimal run_before cands) = Some r" "r \<in> set cands"
    and first: "\<And>s. s \<in> set cands \<Longrightarrow> \<not> run_before s r" by (rule chosen_minimal [where i = i]) blast
  then have "r \<in> set (x_runs db)" "xr_state r = ''PENDING''" by (auto simp: cands_def)
  then have "update_runs (\<lambda>x. xr_id x = xr_id r) f db
      = Inr (db\<lparr> x_runs := update_where (\<lambda>x. xr_id x = xr_id r) f (x_runs db) \<rparr>)"
    using f by (intro update_one_run ok) simp_all
  then have "claim_row i locked q f db = Inr (Some (f r, db\<lparr> x_runs := update_where (\<lambda>x. xr_id x = xr_id r) f (x_runs db) \<rparr>))"
    using r(1) by (simp add: claim_row_def cands_def)
  with r(2) first show "\<exists>r \<in> set cands. (\<forall>s \<in> set cands. \<not> run_before s r)
         \<and> claim_row i locked q f db = Inr (Some (f r,
             db\<lparr> x_runs := update_where (\<lambda>x. xr_id x = xr_id r) f (x_runs db) \<rparr>))" by blast
qed

section \<open>Properties\<close>

lemma run_fate:
  assumes "run_inv db" and "r \<in> set (x_runs db)"
  shows "(\<exists>r' \<in> set (x_runs (fold run_step ys db)). run_continues r r' \<and> (xr_template_id r' = xr_template_id r
      \<or> xr_template_id r' = None \<and> (\<exists>cx t. DeleteTemplate cx t \<in> set ys \<and> xr_template_id r = Some t)))
    \<or> xr_id r \<in> x_gone (fold run_step ys db) \<and> (\<exists>k d l now s. k < length ys \<and> ys ! k = RetentionCleanup d l now
        \<and> s \<in> set (x_runs (fold run_step (take k ys) db)) \<and> xr_id s = xr_id r \<and> run_expired d now s)"
    (is "?stays ys db r \<or> ?gone ys db r")
  using assms
proof (induction ys arbitrary: db r)
  case Nil
  then show ?case by (auto intro!: bexI [of _ r])
next
  case (Cons c ys)
  let ?db = "run_step c db"
  have inv: "run_inv ?db" by (rule run_step_inv [OF Cons.prems(1)])
  from run_step_run [OF Cons.prems, of c] consider r1 where "r1 \<in> set (x_runs ?db)" "run_continues r r1"
      "xr_template_id r1 = xr_template_id r \<or> xr_template_id r1 = None \<and> (\<exists>cx t. c = DeleteTemplate cx t \<and> xr_template_id r = Some t)"
    | d l now where "c = RetentionCleanup d l now" "run_expired d now r" by blast
  then show ?case
  proof cases
    case (1 r1)
    have id: "xr_id r1 = xr_id r" using 1(2) by (simp add: run_continues_def)
    from Cons.IH [OF inv 1(1)] show ?thesis
    proof
      assume "?stays ys ?db r1"
      then obtain r' where "r' \<in> set (x_runs (fold run_step ys ?db))" "run_continues r1 r'"
        "xr_template_id r' = xr_template_id r1 \<or> xr_template_id r' = None \<and> (\<exists>cx t. DeleteTemplate cx t \<in> set ys \<and> xr_template_id r1 = Some t)"
        by blast
      with 1(2,3) run_continues_trans have "?stays (c # ys) db r" by (fastforce intro!: bexI [of _ r'])
      then show ?thesis ..
    next
      assume "?gone ys ?db r1"
      then obtain k d l now s where "xr_id r \<in> x_gone (fold run_step ys ?db)" "k < length ys" "ys ! k = RetentionCleanup d l now"
        "s \<in> set (x_runs (fold run_step (take k ys) ?db))" "xr_id s = xr_id r" "run_expired d now s" unfolding id by blast
      then have "?gone (c # ys) db r" by (auto intro!: exI [of _ "Suc k"])
      then show ?thesis ..
    qed
  next
    case (2 d l now)
    then have "xr_id r \<in> x_gone ?db" using Cons.prems(2) by (auto simp: retention_cleanup_def Let_def)
    then have "xr_id r \<in> x_gone (fold run_step ys ?db)" using run_tables.run_evolves [OF inv] by (auto simp: run_evolves_def)
    moreover have "0 < length (c # ys)" "(c # ys) ! 0 = RetentionCleanup d l now"
      "r \<in> set (x_runs (fold run_step (take 0 (c # ys)) db))" using 2(1) Cons.prems(2) by simp_all
    ultimately have "?gone (c # ys) db r" using 2(2) unfolding fold_Cons comp_apply by blast
    then show ?thesis ..
  qed
qed

text \<open>
  C9. Run states follow the state machine. In any history of calls of the dispatcher, the reaper, the
  endpoints, the orchestrator, the remote control, the templates and the retention cleanup, a run that exists
  at some moment exists once at every later one, with the same organization and a state of the vocabulary; a
  running run never goes back to the queue, and a run that has ended keeps its end state. Its template stays,
  or is cleared by a deletion of that template. The run is missing only after a retention cleanup found it
  ended longer ago than the days it was called with.
\<close>

theorem run_history:
  assumes "x_runs db = []" and "x_tasks db = []" and "x_dead db = []"
    and "db1 = fold run_step xs db" and "r \<in> set (x_runs db1)"
  shows "(\<exists>r'. filter (\<lambda>x. xr_id x = xr_id r) (x_runs (fold run_step ys db1)) = [r']
      \<and> xr_organization_id r' = xr_organization_id r
      \<and> (xr_template_id r' = xr_template_id r
         \<or> xr_template_id r' = None \<and> (\<exists>cx t. DeleteTemplate cx t \<in> set ys \<and> xr_template_id r = Some t))
      \<and> xr_state r' \<in> {''PENDING'', ''RUNNING'', ''SUCCESS'', ''FAILED'', ''CANCELLED''}
      \<and> (xr_state r = ''RUNNING'' \<longrightarrow> xr_state r' \<noteq> ''PENDING'')
      \<and> (xr_state r \<in> {''SUCCESS'', ''FAILED'', ''CANCELLED''} \<longrightarrow> xr_state r' = xr_state r))
    \<or> (filter (\<lambda>x. xr_id x = xr_id r) (x_runs (fold run_step ys db1)) = []
      \<and> (\<exists>k days letters now s ended. k < length ys \<and> ys ! k = RetentionCleanup days letters now
           \<and> s \<in> set (x_runs (fold run_step (take k ys) db1)) \<and> xr_id s = xr_id r
           \<and> xr_state s \<in> {''SUCCESS'', ''FAILED'', ''CANCELLED''}
           \<and> xr_finished_at s = Some ended \<and> ended < now - days * day))"
proof -
  let ?db2 = "fold run_step ys db1"
  have inv1: "run_inv db1" unfolding assms(4) by (intro reached_inv assms(1-3))
  then have "run_inv ?db2" by (rule run_tables.run_inv)
  then have ok2: "runs_ok ?db2" and gone2: "gone_ok ?db2" by (simp_all add: run_inv_def)
  from run_fate [OF inv1 assms(5), of ys] show ?thesis
  proof
    assume "\<exists>r' \<in> set (x_runs ?db2). run_continues r r' \<and> (xr_template_id r' = xr_template_id r
      \<or> xr_template_id r' = None \<and> (\<exists>cx t. DeleteTemplate cx t \<in> set ys \<and> xr_template_id r = Some t))"
    then obtain r' where r': "r' \<in> set (x_runs ?db2)" "run_continues r r'" "xr_template_id r' = xr_template_id r
      \<or> xr_template_id r' = None \<and> (\<exists>cx t. DeleteTemplate cx t \<in> set ys \<and> xr_template_id r = Some t)" by blast
    have "distinct (map xr_id (x_runs ?db2))" using ok2 by (simp add: runs_ok_def)
    then have "filter (\<lambda>x. xr_id x = xr_id r') (x_runs ?db2) = [r']" using r'(1) by (rule filter_key)
    moreover have "xr_state r' \<in> RUN_STATES" by (rule run_valid [OF ok2 r'(1)])
    ultimately show ?thesis using r'(2,3)
      by (intro disjI1 exI [of _ r']) (auto simp: run_continues_def run_moves_def RUN_STATES_def terminal_def)
  next
    assume gone: "xr_id r \<in> x_gone ?db2 \<and> (\<exists>k d l now s. k < length ys \<and> ys ! k = RetentionCleanup d l now
        \<and> s \<in> set (x_runs (fold run_step (take k ys) db1)) \<and> xr_id s = xr_id r \<and> run_expired d now s)"
    then obtain k d l now s where k: "k < length ys" "ys ! k = RetentionCleanup d l now"
        "s \<in> set (x_runs (fold run_step (take k ys) db1))" "xr_id s = xr_id r" "run_expired d now s" by blast
    moreover from k(5) obtain e where "xr_state s \<in> {''SUCCESS'', ''FAILED'', ''CANCELLED''}"
      "xr_finished_at s = Some e" "e < now - d * day" by (auto simp: run_expired_def terminal_def split: option.splits)
    moreover have "filter (\<lambda>x. xr_id x = xr_id r) (x_runs ?db2) = []"
      using gone gone2 by (auto simp: gone_ok_def filter_empty_conv)
    ultimately show ?thesis by blast
  qed
qed

text \<open>
  C10. A run is handed out once. Whatever calls lie between two successful claims, by workers of an
  organization or by internal ones, they return different runs.
\<close>

theorem run_claimed_once:
  assumes "x_runs db = []" and "x_tasks db = []" and "x_dead db = []"
    and "claim_by who i locked t now (fold run_step xs db) = Inr (Some (r, db1))"
    and "claim_by who' i' locked' t' now' (fold run_step ys db1) = Inr (Some (r', db2))"
  shows "xr_id r' \<noteq> xr_id r"
proof
  assume same: "xr_id r' = xr_id r"
  have "run_inv (fold run_step xs db)" by (intro reached_inv assms(1-3))
  then have inv1: "run_inv db1" using claim_by_keeps [OF assms(4)] by (simp add: keeps_def run_inv_def)
  then have "run_inv (fold run_step ys db1)" by (rule run_tables.run_inv)
  then have ok2: "runs_ok (fold run_step ys db1)" and gone2: "gone_ok (fold run_step ys db1)" by (simp_all add: run_inv_def)
  from assms(4) have "r \<in> set (x_runs db1) \<and> xr_state r = ''RUNNING''"
    by (rule claim_by_Some) (auto simp: set_update_where image_iff)
  moreover from assms(5) obtain p where p: "p \<in> set (x_runs (fold run_step ys db1))" "xr_state p = ''PENDING''" "xr_id r' = xr_id p"
    by (rule claim_by_Some) simp
  with gone2 same have "xr_id r \<notin> x_gone (fold run_step ys db1)" by (auto simp: gone_ok_def)
  ultimately obtain s where s: "s \<in> set (x_runs (fold run_step ys db1))" "xr_id s = xr_id r"
    "run_moves ''RUNNING'' (xr_state s)" using run_tables.run_evolves [OF inv1] unfolding run_evolves_def run_continues_def by metis
  from s p same have "p = s" by (intro run_eq [OF ok2]) simp_all
  with s(3) p(2) show False by (simp add: run_moves_def terminal_def)
qed

text \<open>
  Claiming takes the head of the queue. In every reachable state, a claim by a worker of an
  organization with a fresh task id either finds no pending, unlocked DAG run of the organization and
  changes nothing, or takes one that no other such run precedes in priority and age: the run becomes
  RUNNING, one claimed task is added for it, and nothing else changes. It never raises.
\<close>

theorem claim_exact:
  assumes "x_runs db0 = []" and "x_tasks db0 = []" and "x_dead db0 = []" and "db = fold run_step xs db0"
    and "tid \<notin> xt_id ` set (x_tasks db)"
    and "cands = filter (\<lambda>r. xr_state r = ''PENDING'' \<and> xr_organization_id r = oc_organization_id cx
      \<and> is_dag_run db r \<and> xr_id r \<notin> locked) (x_runs db)"
  shows "(cands = [] \<longrightarrow> claim_pending_dag_run i locked cx tid now db = Inr None)
    \<and> (cands \<noteq> [] \<longrightarrow> (\<exists>r t. r \<in> set cands \<and> (\<forall>s \<in> set cands. \<not> run_before s r)
         \<and> xt_id t = tid \<and> xt_run_id t = xr_id r \<and> xt_state t = ''CLAIMED'' \<and> xt_organization_id t = xr_organization_id r
         \<and> claim_pending_dag_run i locked cx tid now db = Inr (Some (r\<lparr> xr_state := ''RUNNING'' \<rparr>,
             db\<lparr> x_runs := map (\<lambda>x. if xr_id x = xr_id r then x\<lparr> xr_state := ''RUNNING'' \<rparr> else x) (x_runs db),
                 x_tasks := x_tasks db @ [t] \<rparr>))))"
proof -
  have ok: "runs_ok db" unfolding assms(4) by (intro reached_ok assms(1-3))
  have "cands = filter (\<lambda>r. xr_state r = ''PENDING'' \<and> (xr_organization_id r = oc_organization_id cx \<and> is_dag_run db r)
      \<and> xr_id r \<notin> locked) (x_runs db)" by (simp add: assms(6) conj_assoc)
  note row = claim_row_exact [OF ok, where f = "xr_state_update (\<lambda>_. ''RUNNING'')" and i = i and locked = locked
    and q = "\<lambda>r. xr_organization_id r = oc_organization_id cx \<and> is_dag_run db r", folded this]
  show ?thesis
  proof (intro conjI impI)
    show "claim_pending_dag_run i locked cx tid now db = Inr None" if "cands = []"
      using row that by (simp add: claim_pending_dag_run_def claim_dag_def)
  next
    assume "cands \<noteq> []"
    with row obtain r where r: "r \<in> set cands" "\<forall>s \<in> set cands. \<not> run_before s r"
      and claim: "claim_row i locked (\<lambda>r. xr_organization_id r = oc_organization_id cx \<and> is_dag_run db r)
        (xr_state_update (\<lambda>_. ''RUNNING'')) db = Inr (Some (r\<lparr> xr_state := ''RUNNING'' \<rparr>,
          db\<lparr> x_runs := update_where (\<lambda>x. xr_id x = xr_id r) (xr_state_update (\<lambda>_. ''RUNNING'')) (x_runs db) \<rparr>))"
      by auto
    let ?r = "r\<lparr> xr_state := ''RUNNING'' \<rparr>"
    let ?db = "db\<lparr> x_runs := update_where (\<lambda>x. xr_id x = xr_id r) (xr_state_update (\<lambda>_. ''RUNNING'')) (x_runs db) \<rparr>"
    from r(1) have mem: "r \<in> set (x_runs db)" and org: "xr_organization_id r = oc_organization_id cx"
      by (simp_all add: assms(6))
    have "xr_id ?r \<in> xr_id ` set (x_runs ?db)"
      using mem by (simp add: update_run_ids)
    define t where "t = claimed_task tid (xr_id r) (oc_organization_id cx) (run_intent ?r db) now"
    have t: "xt_id t = tid" "xt_run_id t = xr_id r" "xt_state t = ''CLAIMED''" "xt_organization_id t = oc_organization_id cx"
      by (simp_all add: t_def claimed_task_def)
    have task: "insert_task tid (xr_id ?r) (Some (oc_organization_id cx)) (run_intent ?r db) now ?db
        = Inr (?db\<lparr> x_tasks := x_tasks db @ [t] \<rparr>)"
      using assms(5) \<open>xr_id ?r \<in> _\<close> by (simp add: insert_task_def t_def)
    have "claim_pending_dag_run i locked cx tid now db = Inr (Some (?r,
        db\<lparr> x_runs := map (\<lambda>x. if xr_id x = xr_id r then x\<lparr> xr_state := ''RUNNING'' \<rparr> else x) (x_runs db),
            x_tasks := x_tasks db @ [t] \<rparr>))"
      using task by (simp add: claim_pending_dag_run_def claim_dag_def claim update_where_def)
    with r t org show "\<exists>r t. r \<in> set cands \<and> (\<forall>s \<in> set cands. \<not> run_before s r)
         \<and> xt_id t = tid \<and> xt_run_id t = xr_id r \<and> xt_state t = ''CLAIMED'' \<and> xt_organization_id t = xr_organization_id r
         \<and> claim_pending_dag_run i locked cx tid now db = Inr (Some (r\<lparr> xr_state := ''RUNNING'' \<rparr>,
             db\<lparr> x_runs := map (\<lambda>x. if xr_id x = xr_id r then x\<lparr> xr_state := ''RUNNING'' \<rparr> else x) (x_runs db),
                 x_tasks := x_tasks db @ [t] \<rparr>))"
      by (intro exI [of _ r] exI [of _ t]) simp
  qed
qed

text \<open>
  C34. Nothing parks a run or brings one back. In every reachable state pausing, resuming and retrying a
  dead letter raise, and a pause or an escalation for a human, their resumption, and a claim or
  allocation by the orchestrator leave every table as it is: they raise or find no row.
\<close>

theorem parked_calls_inert:
  assumes "x_runs db0 = []" and "x_tasks db0 = []" and "x_dead db0 = []" and "db = fold run_step xs db0"
  shows "\<not> is_ok (pause_run cx i db) \<and> \<not> is_ok (resume_run cx i db) \<and> \<not> is_ok (retry_dlq gen d now db)
    \<and> run_step (HitlPause i h) db = db \<and> run_step (HitlResume i) db = db
    \<and> run_step (CreateEscalation i h) db = db \<and> run_step (ResolveEscalation i) db = db
    \<and> run_step (ClaimNextRuns ord locked org w m c) db = db \<and> run_step (AllocateRun i w) db = db"
proof -
  have ok: "runs_ok db" unfolding assms(4) by (intro reached_ok assms(1-3))
  note parked = parked_update [OF ok]
  have valid: "xr_state r \<noteq> ''PAUSED'' \<and> xr_state r \<noteq> ''WAITING_HUMAN''" if "r \<in> set (x_runs db)" for r
    using run_valid [OF ok that] by (auto simp: RUN_STATES_def)
  have none: "update_runs (\<lambda>r. P r \<and> xr_state r = st) f db = Inr db" if "st = ''PAUSED'' \<or> st = ''WAITING_HUMAN''" for P f st
  proof -
    have "filter (\<lambda>r. P r \<and> xr_state r = st) (x_runs db) = []" using that valid by (auto simp: filter_empty_conv)
    moreover have "update_where (\<lambda>r. P r \<and> xr_state r = st) f (x_runs db) = x_runs db"
      using that valid by (auto intro!: update_where_none)
    ultimately show ?thesis by (simp add: update_runs_def)
  qed
  have "\<not> is_ok (pause_run cx i db)"
    by (auto simp: is_ok_iff pause_run_def split: if_splits dest!: assert_run_Inr dest: parked(2) [rotated])
  moreover have "\<not> is_ok (resume_run cx i db)"
    using valid by (auto simp: is_ok_iff resume_run_def split: if_splits dest!: assert_run_Inr)
  moreover have "\<not> is_ok (retry_dlq gen d now db)"
  proof
    assume "is_ok (retry_dlq gen d now db)"
    then obtain db' where "retry_dlq gen d now db = Inr db'" by (auto simp: is_ok_iff)
    then obtain dl db1 where dl: "find (\<lambda>x. xd_id x = d) (x_dead db) = Some dl" and
      upd: "update_runs (\<lambda>r. xr_id r = xd_run_id dl) (\<lambda>r. r\<lparr> xr_state := ''PENDING'', xr_finished_at := None \<rparr>) db = Inr db1"
      by (rule retry_dlq_cases)
    from find_Some_iff_mem [OF dl] have "xd_run_id dl \<in> xd_run_id ` set (x_dead db)" by simp
    with ok have "xd_run_id dl \<in> xr_id ` set (x_runs db)" by (auto simp only: runs_ok_def dest: subsetD)
    then obtain r where "r \<in> set (x_runs db)" "xr_id r = xd_run_id dl" by (metis imageE)
    with parked(2) [OF _ upd] show False by simp
  qed
  moreover have "run_step (HitlPause i h) db = db" "run_step (CreateEscalation i h) db = db"
    by (auto simp: run_step_def attempt_def hitl_pause_def create_escalation_def split: sum.split dest: parked(1) [rotated])
  moreover have "run_step (HitlResume i) db = db" "run_step (ResolveEscalation i) db = db"
    using none by (simp_all add: run_step_def attempt_def hitl_resume_def resolve_escalation_def Let_def)
  moreover have "run_step (ClaimNextRuns ord locked org w m c) db = db" "run_step (AllocateRun i w) db = db"
    by (auto simp: run_step_def attempt_def claim_next_runs_def allocate_run_to_worker_def Let_def map_sum_Inr
        split: sum.split dest!: parked(1) [rotated])
  ultimately show ?thesis by blast
qed

text \<open>
  The dispatcher starts nothing. In every reachable state a tick of \<open>dispatch_pending_runs\<close>
  processes no run and leaves every table as it is; when a run is claimable, it ends in the violation
  of the NOT NULL column that the insertion of its task leaves out.
\<close>

theorem dispatcher_starts_nothing:
  assumes "x_runs db0 = []" and "x_tasks db0 = []" and "x_dead db0 = []" and "db = fold run_step xs db0"
  shows "dispatch_pending_runs env k db =
    (if k = 0 \<or> filter (\<lambda>r. xr_state r = ''PENDING'' \<and> \<not> is_dag_run db r \<and> xr_id r \<notin> de_locked env) (x_runs db) = []
     then (None, 0, db) else (Some NotNullViolation, 0, db))"
proof -
  have ok: "runs_ok db" unfolding assms(4) by (intro reached_ok assms(1-3))
  let ?f = "\<lambda>r. r\<lparr> xr_state := ''RUNNING'', xr_context := (case de_session_of env (xr_organization_id r) of
      None \<Rightarrow> xr_context r | Some s \<Rightarrow> AList.update ''session_id'' (PStr s) (xr_context r)) \<rparr>"
  note row = claim_row_exact [OF ok, where f = ?f and i = "de_choice env 0" and locked = "de_locked env"
      and q = "\<lambda>r. \<not> is_dag_run db r", simplified]
  show ?thesis
  proof (cases k)
    case 0
    then show ?thesis by (simp add: dispatch_pending_runs_def)
  next
    case (Suc k')
    let ?cands = "filter (\<lambda>r. xr_state r = ''PENDING'' \<and> \<not> is_dag_run db r \<and> xr_id r \<notin> de_locked env) (x_runs db)"
    show ?thesis
    proof (cases "?cands = []")
      case True
      with row have "claim_next_pending (de_choice env 0) (de_locked env) (de_session_of env) db = Inr None"
        by (simp add: claim_next_pending_def)
      then show ?thesis using Suc True by (simp add: dispatch_pending_runs_def dispatch_one_def)
    next
      case False
      with row have "\<exists>r db'. claim_next_pending (de_choice env 0) (de_locked env) (de_session_of env) db = Inr (Some (r, db'))"
        unfolding claim_next_pending_def by blast
      then obtain r db' where
        "claim_next_pending (de_choice env 0) (de_locked env) (de_session_of env) db = Inr (Some (r, db'))" by blast
      then show ?thesis using Suc False by (simp add: dispatch_pending_runs_def dispatch_one_def insert_task_def Let_def)
    qed
  qed
qed

text \<open>
  C33. Retries are bounded, by one. In every reachable state a task has been retried at most once of the
  three times it may be, its attempts and its priority, which stays in the bounds of the schema, count
  the retries, and a task that was put back in the queue is not claimed again.
\<close>

theorem task_retries_bounded:
  assumes "x_runs db0 = []" and "x_tasks db0 = []" and "x_dead db0 = []" and "t \<in> set (x_tasks (fold run_step xs db0))"
  shows "0 \<le> xt_retry_count t \<and> xt_retry_count t \<le> 1 \<and> xt_max_retries t = 3
    \<and> xt_priority t = - 10 * xt_retry_count t \<and> -1000 \<le> xt_priority t \<and> xt_priority t \<le> 1000
    \<and> xt_attempt_count t = xt_retry_count t + 1 \<and> (xt_state t = ''CLAIMED'' \<longrightarrow> xt_retry_count t = 0)"
proof -
  have "run_inv (fold run_step xs db0)" by (intro reached_inv assms(1-3))
  with assms(4) have "task_bounded t" "task_fresh t"
    by (auto simp: run_inv_def tasks_fresh_def list_all_iff intro: bounded_row)
  then show ?thesis by (simp add: task_bounded_def task_fresh_def)
qed

lemma reap_rows_exact:
  assumes "runs_ok db" and "distinct (map xt_id rows)" and "set rows \<subseteq> set (x_tasks db)"
    and "\<And>t. t \<in> set rows \<Longrightarrow> xt_state t = ''CLAIMED''"
  shows "reap_rows gen ids now rows db =
    (if \<exists>t \<in> set rows. xt_retry_count t = 3 then Inl NotNullViolation
     else Inr (db\<lparr> x_tasks := map (\<lambda>t. if t \<in> set rows then requeue t t else t) (x_tasks db) \<rparr>))"
  using assms
proof (induction rows arbitrary: db)
  case (Cons row rows)
  then have row: "row \<in> set (x_tasks db)" and b: "task_bounded row"
    by (auto intro: bounded_row)
  have only: "filter (\<lambda>t. xt_id t = xt_id row) (x_tasks db) = [row]"
    using Cons.prems(1) row by (intro filter_key) (simp_all add: runs_ok_def)
  show ?case
  proof (cases "xt_retry_count row = 3")
    case True
    have "task_check (row\<lparr> xt_state := ''FAILED'', xt_error := Some ''max_retries_exceeded'' \<rparr>) = Inr ()"
      using b True by (simp add: task_check_def task_bounded_def TASK_STATES_def)
    then have "reap_row gen (ids (xt_id row)) now row db = Inl NotNullViolation"
      using b True by (simp add: reap_row_def update_tasks_def only insert_dead_def task_bounded_def)
    with True show ?thesis by simp
  next
    case False
    let ?db = "db\<lparr> x_tasks := map (\<lambda>t. if t = row then requeue t t else t) (x_tasks db) \<rparr>"
    have check: "task_check (requeue row row) = Inr ()" and queued: "\<not> dlq_due row (requeue row row)"
      using b by (simp_all add: task_check_def task_bounded_def TASK_STATES_def requeue_def dlq_due_def Let_def)
    have letters: "filter (\<lambda>t. xt_id t = xt_id row \<and> dlq_due t (requeue row t)) (x_tasks db) = []"
      using queued task_eq [OF Cons.prems(1) _ row] by (auto simp: filter_empty_conv)
    have "update_where (\<lambda>t. xt_id t = xt_id row) (requeue row) (x_tasks db)
        = map (\<lambda>t. if t = row then requeue t t else t) (x_tasks db)"
      unfolding update_where_def using task_eq [OF Cons.prems(1) _ row] by (intro map_cong) auto
    with check letters have step: "reap_row gen (ids (xt_id row)) now row db = Inr ?db"
      using b False by (simp add: reap_row_def update_tasks_def only task_bounded_def)
    have others: "xt_id t \<noteq> xt_id row" if "t \<in> set rows" for t
      using that Cons.prems(2) by (auto simp: image_iff dest: sym)
    have "runs_ok ?db" using reap_row_keeps [OF step row] Cons.prems(1,4) by (simp add: keeps_def)
    moreover have "set rows \<subseteq> set (x_tasks ?db)"
    proof
      fix t assume "t \<in> set rows"
      with Cons.prems(3) others show "t \<in> set (x_tasks ?db)" by (intro reap_row_others [OF step]) auto
    qed
    ultimately have IH: "reap_rows gen ids now rows ?db =
      (if \<exists>t \<in> set rows. xt_retry_count t = 3 then Inl NotNullViolation
       else Inr (?db\<lparr> x_tasks := map (\<lambda>t. if t \<in> set rows then requeue t t else t) (x_tasks ?db) \<rparr>))"
      using Cons.prems(2,4) by (intro Cons.IH) auto
    have "xt_id (requeue row row) = xt_id row" by (simp add: requeue_def Let_def)
    with others have "requeue row row \<notin> set rows" by blast
    then have "map (\<lambda>t. if t \<in> set rows then requeue t t else t) (x_tasks ?db)
        = map (\<lambda>t. if t \<in> set (row # rows) then requeue t t else t) (x_tasks db)"
      by (auto simp: others)
    with step IH False show ?thesis by simp
  qed
qed simp

text \<open>
  C32. A tick of the reaper is all or nothing. On well-formed tables it takes up to a hundred stale tasks,
  in an order of the database's choice. When none of them has used up its retries, each is put back in the
  queue and nothing else changes; when one has, the tick raises and no task is put back.
\<close>

theorem reaper_exact:
  assumes "runs_ok db" and "batch = take 100 (sort_key order (filter (is_stale now) (x_tasks db)))"
  shows "reap_expired_leases order gen ids now db =
    (if \<exists>t \<in> set batch. xt_retry_count t = 3 then Inl NotNullViolation
     else Inr (length batch, db\<lparr> x_tasks := map (\<lambda>t. if t \<in> set batch then requeue t t else t) (x_tasks db) \<rparr>))"
proof -
  have "distinct (map xt_id (x_tasks db))" using assms(1) by (simp add: runs_ok_def)
  note rows = reap_batch_rows [OF this, where order = order and now = now, folded assms(2) [folded reap_batch_def]]
  have "reap_rows gen ids now batch db =
    (if \<exists>t \<in> set batch. xt_retry_count t = 3 then Inl NotNullViolation
     else Inr (db\<lparr> x_tasks := map (\<lambda>t. if t \<in> set batch then requeue t t else t) (x_tasks db) \<rparr>))"
  proof (rule reap_rows_exact [OF assms(1) rows(1,2)])
    show "xt_state t = ''CLAIMED''" if "t \<in> set batch" for t
      using rows(3) [OF that] by (simp add: is_stale_def)
  qed
  then show ?thesis by (simp add: reap_expired_leases_def assms(2) Let_def)
qed

text \<open>The bands of \<open>get_queue_depth\<close> partition the queue.\<close>

lemma queue_bands_partition:
  "\<exists>e u h n b. get_queue_depth org db = [e, u, h, n, b, e + u + h + n + b]"
proof -
  have part: "length ps = length (filter (case_option False (\<lambda>p. p \<ge> 80)) ps)
      + length (filter (case_option False (\<lambda>p. p \<ge> 60 \<and> p < 80)) ps)
      + length (filter (case_option False (\<lambda>p. p \<ge> 40 \<and> p < 60)) ps)
      + length (filter (case_option False (\<lambda>p. p \<ge> 20 \<and> p < 40)) ps)
      + length (filter (case_option True (\<lambda>p. p < 20)) ps)" for ps :: "int option list"
  proof (induction ps)
    case (Cons p ps)
    then show ?case by (cases p) simp_all
  qed simp
  show ?thesis
    unfolding get_queue_depth_def Let_def
    by (subst part [of "map xr_priority (filter (\<lambda>r. xr_organization_id r = org \<and> xr_state r = ''PENDING'') (x_runs db))"]) blast
qed

text \<open>
  A template of an organization with the slug of a platform-global one makes the look-up by that slug raise:
  both rows are visible, and \<open>scalar_one_or_none\<close> takes one at most.
\<close>

lemma slug_of_global_clashes:
  assumes "register_template projects cx body i db = Inr (t, db')"
    and "\<And>v. v \<in> set (x_templates db) \<Longrightarrow> qt_organization_id v = Some (oc_organization_id cx) \<Longrightarrow> qt_slug v \<noteq> template_slug (tb_name body)"
    and "u \<in> set (x_templates db)" and "qt_is_platform_global u" and "qt_slug u = template_slug (tb_name body)"
  shows "get_template_by_slug cx (template_slug (tb_name body)) db' = Inl MultipleResultsFound"
proof -
  let ?org = "\<lambda>v. qt_organization_id v = Some (oc_organization_id cx) \<and> qt_slug v = template_slug (tb_name body)"
  let ?rows = "filter (\<lambda>v. qt_slug v = template_slug (tb_name body) \<and> template_visible cx v) (x_templates db')"
  have "filter ?org (x_templates db) = []" using assms(2) by (auto simp: filter_empty_conv)
  with assms(1) have new: "x_templates db' = x_templates db @ [new_template cx body i]"
    and fresh: "i \<notin> qt_id ` set (x_templates db)" by (auto simp: register_template_def split: if_splits)
  have "qt_id (new_template cx body i) = i" by (simp add: new_template_def)
  with fresh assms(3) have "u \<noteq> new_template cx body i" by force
  moreover have "u \<in> set ?rows" "new_template cx body i \<in> set ?rows"
    using assms(3-5) by (auto simp: new template_visible_def new_template_def)
  ultimately obtain a b cs where "?rows = a # b # cs" by (cases ?rows; cases "tl ?rows") auto
  then show ?thesis by (simp add: get_template_by_slug_def one_template_def)
qed

section \<open>A concrete history\<close>

definition sample_templates :: xdb where
  "sample_templates = \<lparr> x_templates =
     [\<lparr> qt_id = 3, qt_organization_id = Some 1, qt_is_platform_global = False, qt_name = ''login'', qt_slug = ''login'',
        qt_script_ref = [], qt_template_type = ''xioflow_dag'', qt_dag_domain = Some ''example.org'',
        qt_dag_root_intent = Some ''login'', qt_config = [], qt_project_id = None, qt_category = None,
        qt_description = None \<rparr>], x_runs = [], x_tasks = [], x_dead = [], x_gone = {} \<rparr>"

definition queue_two :: "run_call list" where
  "queue_two = [InsertRun 10 1 (Some 3) [] None None 50, InsertRun 11 1 (Some 3) [] None (Some 5) 100]"

definition run_eleven :: xrun where
  "run_eleven = \<lparr> xr_id = 11, xr_organization_id = 1, xr_template_id = Some 3, xr_state = ''PENDING'', xr_context = [],
     xr_template_snapshot = None, xr_priority = Some 5, xr_error = None, xr_started_at = 100, xr_finished_at = None \<rparr>"

definition run_ten :: xrun where
  "run_ten = run_eleven\<lparr> xr_id := 10, xr_priority := None, xr_started_at := 50 \<rparr>"

definition queued_db :: xdb where
  "queued_db = sample_templates\<lparr> x_runs := [run_ten, run_eleven] \<rparr>"

lemma sample_start [simp]: "x_runs sample_templates = []" "x_tasks sample_templates = []" "x_dead sample_templates = []"
  and sample_gone [simp]: "x_gone sample_templates = {}"
  by (simp_all add: sample_templates_def)

lemma queued_runs: "fold run_step queue_two sample_templates = queued_db"
  by (simp add: queue_two_def queued_db_def run_ten_def run_eleven_def sample_templates_def run_step_def attempt_def insert_run_def)

lemmas claim_eval = claim_by_def claim_pending_dag_run_internal_def claim_dag_def claim_row_def is_dag_run_def template_of_def
  minimal_def chosen_def run_before_def update_runs_def update_where_def insert_task_def claimed_task_def queued_db_def
  sample_templates_def run_ten_def run_eleven_def

definition claimed_db :: xdb where
  "claimed_db = queued_db\<lparr> x_runs := [run_ten, run_eleven\<lparr> xr_state := ''RUNNING'' \<rparr>],
     x_tasks := [claimed_task 20 11 1 ''login'' 200] \<rparr>"

lemma first_claim:
  "claim_by AnyWorker 0 {} 20 200 queued_db = Inr (Some (run_eleven\<lparr> xr_state := ''RUNNING'' \<rparr>, claimed_db))"
  by (simp add: claim_eval claimed_db_def run_intent_def)

lemma second_claim: "\<exists>r' db2. claim_by AnyWorker 0 {} 21 201 claimed_db = Inr (Some (r', db2))"
  by (simp add: claim_eval claimed_db_def)

text \<open>The template of a claimed run is deleted; the run ends and is cleaned up a day later.\<close>

definition template_admin :: org_context where
  "template_admin = \<lparr> oc_auth_identity_id = 11, oc_actor_id = 2, oc_organization_id = 1,
     oc_session_id = 12, oc_platform_role = PlatformNone, oc_membership_role = OrgAdmin \<rparr>"

definition later_calls :: "run_call list" where
  "later_calls = [ClaimDag AnyWorker 0 {} 20 200, DeleteTemplate template_admin 3,
     CompleteRunInternal id 11 True (Some 20) PNone None 300, RetentionCleanup 1 1 (day + 400)]"

theorem run_history_witness:
  "filter (\<lambda>x. xr_id x = 10) (x_runs (fold run_step later_calls queued_db)) \<noteq> []
   \<and> filter (\<lambda>x. xr_id x = 11) (x_runs (fold run_step later_calls queued_db)) = []
   \<and> (\<exists>k < length later_calls. \<exists>days letters now. later_calls ! k = RetentionCleanup days letters now)"
proof -
  have eval: "fold run_step later_calls queued_db = claimed_db\<lparr> x_templates := [],
      x_runs := [run_ten\<lparr> xr_template_id := None \<rparr>], x_tasks := [], x_gone := {11} \<rparr>"
  proof -
    have "run_step (ClaimDag AnyWorker 0 {} 20 200) queued_db = claimed_db"
      by (simp add: run_step_def attempt_def first_claim keep_db_def)
    moreover have "run_step (DeleteTemplate template_admin 3) claimed_db = claimed_db\<lparr> x_templates := [],
        x_runs := [run_ten\<lparr> xr_template_id := None \<rparr>, run_eleven\<lparr> xr_template_id := None, xr_state := ''RUNNING'' \<rparr>] \<rparr>"
      by (simp add: run_step_def attempt_def delete_template_def claimed_db_def queued_db_def sample_templates_def
          template_admin_def run_ten_def run_eleven_def)
    ultimately show ?thesis
      by (simp add: later_calls_def run_step_def attempt_def complete_run_internal_def complete_rows_def update_tasks_def
          update_runs_def task_check_def claimed_db_def claimed_task_def outcome_state_def TASK_STATES_def run_check_def
          state_guard_def terminal_def RUN_STATES_def dlq_due_def retention_cleanup_def run_expired_def day_def
          run_ten_def run_eleven_def queued_db_def sample_templates_def Let_def)
  qed
  have "run_eleven \<in> set (x_runs queued_db)" by (simp add: queued_db_def)
  from run_history [OF sample_start queued_runs [symmetric] this, of later_calls]
  show ?thesis unfolding eval by (auto simp: run_eleven_def run_ten_def)
qed

theorem run_claimed_once_witness:
  "\<exists>r' db2. claim_by AnyWorker 0 {} 21 201 claimed_db = Inr (Some (r', db2)) \<and> xr_id r' \<noteq> 11"
proof -
  from second_claim obtain r' db2 where claim: "claim_by AnyWorker 0 {} 21 201 claimed_db = Inr (Some (r', db2))" by blast
  have "claim_by AnyWorker 0 {} 20 200 (fold run_step queue_two sample_templates)
      = Inr (Some (run_eleven\<lparr> xr_state := ''RUNNING'' \<rparr>, claimed_db))"
    unfolding queued_runs by (rule first_claim)
  moreover have "claim_by AnyWorker 0 {} 21 201 (fold run_step [] claimed_db) = Inr (Some (r', db2))" using claim by simp
  ultimately have "xr_id r' \<noteq> xr_id (run_eleven\<lparr> xr_state := ''RUNNING'' \<rparr>)"
    by (rule run_claimed_once [OF sample_start])
  with claim show ?thesis by (auto simp: run_eleven_def)
qed

definition run_context :: org_context where
  "run_context = \<lparr> oc_auth_identity_id = 11, oc_actor_id = 2, oc_organization_id = 1,
     oc_session_id = 12, oc_platform_role = PlatformNone, oc_membership_role = OrgAdmin \<rparr>"

theorem claim_exact_witness:
  "\<exists>r db'. xr_id r = 11 \<and> claim_pending_dag_run 7 {10} run_context 20 200 queued_db = Inr (Some (r, db'))"
proof -
  let ?cands = "filter (\<lambda>r. xr_state r = ''PENDING'' \<and> xr_organization_id r = oc_organization_id run_context
      \<and> is_dag_run queued_db r \<and> xr_id r \<notin> {10}) (x_runs queued_db)"
  have cands: "?cands = [run_eleven]"
    by (simp add: queued_db_def run_ten_def run_eleven_def is_dag_run_def template_of_def sample_templates_def run_context_def)
  have "20 \<notin> xt_id ` set (x_tasks queued_db)" by (simp add: queued_db_def sample_templates_def)
  from claim_exact [OF sample_start queued_runs [symmetric] this refl, of run_context "{10}" 7 200]
  obtain r db' where "r \<in> set ?cands" "claim_pending_dag_run 7 {10} run_context 20 200 queued_db
      = Inr (Some (r\<lparr> xr_state := ''RUNNING'' \<rparr>, db'))"
    unfolding cands by auto
  then show ?thesis unfolding cands by (auto simp: run_eleven_def)
qed

theorem parked_calls_inert_witness:
  "\<not> is_ok (pause_run run_context 11 queued_db) \<and> run_step (HitlPause 11 PNone) queued_db = queued_db"
  using parked_calls_inert [OF sample_start queued_runs [symmetric], of run_context 11] by blast

definition idle_env :: dispatch_env where
  "idle_env = \<lparr> de_locked = {}, de_choice = id, de_session_of = (\<lambda>_. None),
     de_script = (\<lambda>_ _. failed_result []), de_dag = (\<lambda>_ _ _. failed_result []),
     de_task_id = of_nat, de_dlq_id = of_nat, de_gen = id, de_now = 0 \<rparr>"

text \<open>A run without a template is one that the dispatcher would take.\<close>

theorem dispatcher_starts_nothing_witness:
  "\<exists>db. x_runs db \<noteq> [] \<and> dispatch_pending_runs idle_env 3 db = (Some NotNullViolation, 0, db)"
proof -
  let ?db = "fold run_step [InsertRun 9 1 None [] None None 50] sample_templates"
  have rows: "map xr_id (filter (\<lambda>r. xr_state r = ''PENDING'' \<and> \<not> is_dag_run ?db r \<and> xr_id r \<notin> de_locked idle_env) (x_runs ?db)) = [9]"
    by (simp add: run_step_def attempt_def insert_run_def idle_env_def is_dag_run_def template_of_def)
  then have "filter (\<lambda>r. xr_state r = ''PENDING'' \<and> \<not> is_dag_run ?db r \<and> xr_id r \<notin> de_locked idle_env) (x_runs ?db) \<noteq> []"
    by (metis list.simps(8) not_Cons_self2)
  moreover from this have "x_runs ?db \<noteq> []" by (metis filter.simps(1))
  ultimately show ?thesis
    using dispatcher_starts_nothing [OF sample_start refl, of idle_env 3 "[InsertRun 9 1 None [] None None 50]"] by auto
qed

lemma claimed_run: "fold run_step (queue_two @ [ClaimDag AnyWorker 0 {} 20 200]) sample_templates = claimed_db"
proof -
  have "run_step (ClaimDag AnyWorker 0 {} 20 200) queued_db = claimed_db"
    by (simp add: run_step_def attempt_def first_claim keep_db_def)
  then show ?thesis by (simp add: queued_runs)
qed

theorem task_retries_bounded_witness:
  "claimed_task 20 11 1 ''login'' 200 \<in> set (x_tasks claimed_db) \<and> xt_retry_count (claimed_task 20 11 1 ''login'' 200) \<le> 1"
proof -
  have mem: "claimed_task 20 11 1 ''login'' 200 \<in> set (x_tasks claimed_db)" by (simp add: claimed_db_def)
  then have "claimed_task 20 11 1 ''login'' 200
      \<in> set (x_tasks (fold run_step (queue_two @ [ClaimDag AnyWorker 0 {} 20 200]) sample_templates))"
    unfolding claimed_run .
  from task_retries_bounded [OF sample_start this] mem show ?thesis by blast
qed

text \<open>With a task that has used up its retries the tick raises.\<close>

definition exhausted_db :: xdb where
  "exhausted_db = claimed_db\<lparr> x_tasks :=
     [(claimed_task 20 11 1 ''login'' 200)\<lparr> xt_retry_count := 3, xt_attempt_count := 4, xt_priority := -30 \<rparr>,
      claimed_task 21 11 1 ''login'' 200] \<rparr>"

theorem reaper_exact_witness:
  "reap_expired_leases (\<lambda>_. 0) id id 700000000 exhausted_db = Inl NotNullViolation"
proof -
  have ok: "runs_ok exhausted_db"
    by (simp add: exhausted_db_def claimed_db_def queued_db_def sample_templates_def run_ten_def run_eleven_def runs_ok_def
        claimed_task_def task_bounded_def RUN_STATES_def TASK_STATES_def)
  have batch: "take 100 (sort_key (\<lambda>_. 0) (filter (is_stale 700000000) (x_tasks exhausted_db))) = x_tasks exhausted_db"
    by (simp add: exhausted_db_def is_stale_def claimed_task_def)
  from reaper_exact [OF ok refl, of "\<lambda>_. 0" id id 700000000] show ?thesis
    unfolding batch by (simp add: exhausted_db_def)
qed

end
