(* ===== verification/Breaker.thy ===== *)
theory Breaker
  imports Prelude
begin

text \<open>
  The circuit breaker of the workflow engine (\<open>xioflow/engine/circuit_breaker.py\<close>): its three
  states, the operations under its lock, each with the value of the clock it reads, and what
  a history of operations does. A clock value is the rational a float denotes.
\<close>

section \<open>The breaker\<close>

datatype circuit_state = CLOSED | OPEN | HALF_OPEN

record circuit_breaker =
  failure_threshold :: int
  recovery_timeout :: rat
  cb_state :: circuit_state
  failures :: int
  last_failure_time :: rat

definition new_breaker :: "int \<Rightarrow> rat \<Rightarrow> circuit_breaker" where
  "new_breaker threshold timeout =
     \<lparr>failure_threshold = threshold, recovery_timeout = timeout,
      cb_state = CLOSED, failures = 0, last_failure_time = 0\<rparr>"

text \<open>The defaults of the constructor.\<close>

definition default_breaker :: circuit_breaker where
  "default_breaker = new_breaker 3 60"

definition allow_request :: "rat \<Rightarrow> circuit_breaker \<Rightarrow> bool \<times> circuit_breaker" where
  "allow_request now cb =
     (if cb_state cb = CLOSED then (True, cb)
      else if cb_state cb = OPEN then
        (if now - last_failure_time cb \<ge> recovery_timeout cb
         then (True, cb\<lparr>cb_state := HALF_OPEN\<rparr>) else (False, cb))
      else (False, cb))"

definition record_success :: "circuit_breaker \<Rightarrow> circuit_breaker" where
  "record_success cb =
     (if cb_state cb = HALF_OPEN then cb\<lparr>cb_state := CLOSED, failures := 0\<rparr>
      else if cb_state cb = CLOSED then cb\<lparr>failures := 0\<rparr>
      else cb)"

definition record_failure :: "rat \<Rightarrow> circuit_breaker \<Rightarrow> circuit_breaker" where
  "record_failure now cb =
     (if cb_state cb = HALF_OPEN then cb\<lparr>cb_state := OPEN, last_failure_time := now\<rparr>
      else if cb_state cb = CLOSED then
        (let cb' = cb\<lparr>failures := failures cb + 1\<rparr>
         in if failures cb' \<ge> failure_threshold cb'
            then cb'\<lparr>cb_state := OPEN, last_failure_time := now\<rparr> else cb')
      else cb)"

lemmas breaker_defs = allow_request_def record_success_def record_failure_def

section \<open>Histories\<close>

datatype breaker_op = Allow rat | Success | Failure rat

fun breaker_do :: "breaker_op \<Rightarrow> circuit_breaker \<Rightarrow> circuit_breaker" where
  "breaker_do (Allow now) cb = snd (allow_request now cb)"
| "breaker_do Success cb = record_success cb"
| "breaker_do (Failure now) cb = record_failure now cb"

definition breaker_run :: "breaker_op list \<Rightarrow> circuit_breaker \<Rightarrow> circuit_breaker" where
  "breaker_run ops cb = fold breaker_do ops cb"

text \<open>The answers the calls of \<open>allow_request\<close> in a history get.\<close>

fun answers :: "breaker_op list \<Rightarrow> circuit_breaker \<Rightarrow> bool list" where
  "answers [] cb = []"
| "answers (Allow now # ops) cb =
     fst (allow_request now cb) # answers ops (snd (allow_request now cb))"
| "answers (x # ops) cb = answers ops (breaker_do x cb)"

lemma breaker_run_simps [simp]:
  "breaker_run [] cb = cb"
  "breaker_run (x # ops) cb = breaker_run ops (breaker_do x cb)"
  "breaker_run (xs @ ops) cb = breaker_run ops (breaker_run xs cb)"
  by (simp_all add: breaker_run_def)

text \<open>
  The invariant: a closed breaker has counted fewer failures than its threshold, unless the
  threshold is not positive; the configuration never changes.
\<close>

definition breaker_inv :: "int \<Rightarrow> rat \<Rightarrow> circuit_breaker \<Rightarrow> bool" where
  "breaker_inv k d cb \<longleftrightarrow>
     failure_threshold cb = k \<and> recovery_timeout cb = d \<and> 0 \<le> failures cb \<and>
     (cb_state cb = CLOSED \<longrightarrow> failures cb < max 1 k) \<and> (cb_state cb \<noteq> CLOSED \<longrightarrow> max 1 k \<le> failures cb)"

interpretation breaker: component breaker_do "breaker_inv k d" for k d
proof
  fix cb x
  assume "breaker_inv k d cb"
  then show "breaker_inv k d (breaker_do x cb)"
    by (cases x) (auto simp: breaker_inv_def breaker_defs Let_def max_def)
qed

lemma breaker_inv_new: "breaker_inv k d (new_breaker k d)"
  by (simp add: breaker_inv_def new_breaker_def)

lemma breaker_inv_run: "breaker_inv k d (breaker_run ops (new_breaker k d))"
  unfolding breaker_run_def by (rule breaker.run_inv [OF breaker_inv_new])

section \<open>Tripping\<close>

text \<open>The outcomes reported at the end of a history that are failures.\<close>

fun failing_tail :: "breaker_op list \<Rightarrow> int" where
  "failing_tail [] = 0"
| "failing_tail (Failure _ # ops) = failing_tail ops + 1"
| "failing_tail (_ # ops) = 0"

fun is_failure :: "breaker_op \<Rightarrow> bool" where
  "is_failure (Failure _) = True"
| "is_failure _ = False"

fun is_outcome :: "breaker_op \<Rightarrow> bool" where
  "is_outcome (Allow _) = False"
| "is_outcome _ = True"

text \<open>Some stretch of the history is \<open>k\<close> failures in a row.\<close>

definition failing_stretch :: "nat \<Rightarrow> breaker_op list \<Rightarrow> bool" where
  "failing_stretch k ops \<longleftrightarrow> (\<exists>ys. sublist ys ops \<and> length ys = k \<and> list_all is_failure ys)"

definition streak :: "breaker_op list \<Rightarrow> nat" where
  "streak ops = length (takeWhile is_failure (rev ops))"

lemma streak_snoc:
  "streak (ops @ [Failure t]) = Suc (streak ops)"
  "streak (ops @ [Success]) = 0"
  "streak [] = 0"
  by (simp_all add: streak_def)

lemma streak_witness: "streak ops = n \<Longrightarrow> suffix (drop (length ops - n) ops) ops \<and> list_all is_failure (drop (length ops - n) ops) \<and> length (drop (length ops - n) ops) = n"
proof -
  assume n: "streak ops = n"
  have eq: "takeWhile is_failure (rev ops) = take n (rev ops)"
    using n unfolding streak_def by (metis takeWhile_eq_take)
  have "n \<le> length ops"
    using n unfolding streak_def by (metis length_rev length_takeWhile_le)
  moreover have "list_all is_failure (rev (takeWhile is_failure (rev ops)))"
    by (auto simp: list_all_iff dest: set_takeWhileD)
  ultimately show ?thesis
    unfolding eq by (simp add: take_rev suffix_drop)
qed

lemma streak_max:
  assumes "suffix ys ops" and "list_all is_failure ys"
  shows "length ys \<le> streak ops"
proof -
  from assms(1) obtain zs where zs: "ops = zs @ ys" by (auto simp: suffix_def)
  have "list_all is_failure (rev ys)" using assms(2) by simp
  then show ?thesis
    unfolding streak_def zs rev_append by (subst takeWhile_append2) (auto simp: list_all_iff)
qed

lemma failing_stretch_snoc:
  assumes "1 \<le> k"
  shows "failing_stretch k (ops @ [x]) \<longleftrightarrow> failing_stretch k ops \<or> k \<le> streak (ops @ [x])"
proof
  assume "failing_stretch k (ops @ [x])"
  then obtain ys where ys: "sublist ys (ops @ [x])" "length ys = k" "list_all is_failure ys"
    by (auto simp: failing_stretch_def)
  then obtain a b where ab: "ops @ [x] = a @ ys @ b" by (auto simp: sublist_def)
  have "sublist ys ops \<or> suffix ys (ops @ [x])"
  proof (cases b rule: rev_cases)
    case Nil
    then show ?thesis using ab by (auto simp: suffix_def)
  next
    case (snoc b' y)
    then have "ops = a @ ys @ b'" using ab by simp
    then show ?thesis by (auto simp: sublist_def)
  qed
  then consider "sublist ys ops" | "suffix ys (ops @ [x])" by blast
  then show "failing_stretch k ops \<or> k \<le> streak (ops @ [x])"
  proof cases
    case 1
    with ys show ?thesis by (auto simp: failing_stretch_def)
  next
    case 2
    with ys streak_max show ?thesis by metis
  qed
next
  assume "failing_stretch k ops \<or> k \<le> streak (ops @ [x])"
  then show "failing_stretch k (ops @ [x])"
  proof
    assume "failing_stretch k ops"
    then show ?thesis
      by (force simp: failing_stretch_def sublist_def)
  next
    assume k: "k \<le> streak (ops @ [x])"
    define ys where "ys = drop (length (ops @ [x]) - streak (ops @ [x])) (ops @ [x])"
    have ys: "suffix ys (ops @ [x])" "list_all is_failure ys" "length ys = streak (ops @ [x])"
      using streak_witness [of "ops @ [x]", OF refl] by (auto simp: ys_def)
    have "sublist (take k ys) (ops @ [x])"
    proof -
      obtain zs where "ops @ [x] = zs @ take k ys @ drop k ys" using ys(1) by (auto simp: suffix_def)
      then show ?thesis unfolding sublist_def by blast
    qed
    moreover have "length (take k ys) = k" "list_all is_failure (take k ys)"
      using ys k by (auto simp: list_all_iff dest: in_set_takeD)
    ultimately show ?thesis by (auto simp: failing_stretch_def)
  qed
qed

lemma trip_state:
  assumes "1 \<le> k" and "list_all is_outcome ops"
  shows "cb_state (breaker_run ops (new_breaker (int k) d)) = (if failing_stretch k ops then OPEN else CLOSED)
    \<and> (\<not> failing_stretch k ops \<longrightarrow> failures (breaker_run ops (new_breaker (int k) d)) = int (streak ops))
    \<and> failure_threshold (breaker_run ops (new_breaker (int k) d)) = int k"
  using assms(2)
proof (induction ops rule: rev_induct)
  case Nil
  have "\<not> failing_stretch k []" using assms(1) by (auto simp: failing_stretch_def)
  then show ?case by (simp add: new_breaker_def streak_snoc)
next
  case (snoc x ops)
  define cb where "cb = breaker_run ops (new_breaker (int k) d)"
  have IH: "cb_state cb = (if failing_stretch k ops then OPEN else CLOSED)"
    "\<not> failing_stretch k ops \<Longrightarrow> failures cb = int (streak ops)" "failure_threshold cb = int k"
    using snoc by (auto simp: cb_def)
  have run: "breaker_run (ops @ [x]) (new_breaker (int k) d) = breaker_do x cb"
    by (simp add: cb_def)
  have ex: "failing_stretch k (ops @ [x]) \<longleftrightarrow> failing_stretch k ops \<or> k \<le> streak (ops @ [x])"
    by (rule failing_stretch_snoc [OF assms(1)])
  show ?case
    unfolding run ex using snoc.prems IH assms(1)
    by (cases x) (auto simp: streak_snoc breaker_defs Let_def)
qed

text \<open>A breaker that has only been told outcomes opens exactly when \<open>failure_threshold\<close> of them in
  a row were failures, and a success in between starts the count again.
\<close>

theorem trips_exactly:
  assumes "1 \<le> k" and "list_all is_outcome ops"
  shows "cb_state (breaker_run ops (new_breaker (int k) d)) = OPEN \<longleftrightarrow> failing_stretch k ops"
  using trip_state [OF assms, of d] by auto

theorem trips_exactly_witness:
  "(cb_state (breaker_run [Failure 1, Success, Failure 2] (new_breaker (int 2) 60)) = OPEN
    \<longleftrightarrow> failing_stretch 2 [Failure 1, Success, Failure 2])
   \<and> cb_state (breaker_run [Failure 1, Success, Failure 2] (new_breaker 2 60)) = CLOSED
   \<and> cb_state (breaker_run [Failure 1, Success, Failure 2, Failure 3] (new_breaker 2 60)) = OPEN"
  using trips_exactly [of 2 "[Failure 1, Success, Failure 2]" 60]
  by (simp add: new_breaker_def breaker_defs)

section \<open>Recovery\<close>

text \<open>
  While the breaker is open every request before the end of the recovery time is refused,
  whatever outcomes are reported meanwhile.
\<close>

fun before :: "rat \<Rightarrow> breaker_op \<Rightarrow> bool" where
  "before t (Allow now) = (now < t)"
| "before t _ = True"

lemma open_refuses:
  assumes "cb_state cb = OPEN" and "list_all (before (last_failure_time cb + recovery_timeout cb)) ops"
  shows "breaker_run ops cb = cb \<and> True \<notin> set (answers ops cb)"
  using assms(2)
proof (induction ops)
  case (Cons x ops)
  have "breaker_do x cb = cb"
    using Cons.prems assms(1) by (cases x) (auto simp: breaker_defs)
  moreover have "fst (allow_request now cb) = False" if "x = Allow now" for now
    using that Cons.prems assms(1) by (auto simp: allow_request_def)
  ultimately show ?case using Cons by (cases x) auto
qed simp

text \<open>Once a probe is out, no further request is admitted until its outcome is reported.\<close>

fun is_allow :: "breaker_op \<Rightarrow> bool" where
  "is_allow (Allow _) = True"
| "is_allow _ = False"

lemma half_open_refuses:
  "cb_state cb = HALF_OPEN \<Longrightarrow> list_all is_allow ops \<Longrightarrow> breaker_run ops cb = cb \<and> True \<notin> set (answers ops cb)"
proof (induction ops)
  case (Cons x ops)
  then show ?case by (cases x) (auto simp: allow_request_def)
qed simp

lemma one_probe_list:
  "cb_state cb = OPEN \<Longrightarrow> list_all is_allow ops \<Longrightarrow> length (filter id (answers ops cb)) \<le> 1"
proof (induction ops)
  case (Cons x ops)
  then obtain now where x: "x = Allow now" by (cases x) auto
  show ?case
  proof (cases "last_failure_time cb + recovery_timeout cb \<le> now")
    case True
    define cb' where "cb' = cb\<lparr>cb_state := HALF_OPEN\<rparr>"
    have allow: "allow_request now cb = (True, cb')"
      using True Cons.prems by (simp add: allow_request_def cb'_def algebra_simps)
    have "True \<notin> set (answers ops cb')"
      using half_open_refuses [of cb' ops] Cons.prems by (simp add: cb'_def)
    then have "filter id (answers ops cb') = []" by (metis (mono_tags) filter_False id_apply)
    with x allow show ?thesis by (simp add: id_def)
  next
    case False
    then have "allow_request now cb = (False, cb)"
      using Cons.prems by (simp add: allow_request_def algebra_simps)
    with x Cons show ?thesis by simp
  qed
qed simp

text \<open>A breaker that is open refuses every request made before its recovery time is over, whatever
  outcomes come in; and of all the requests made with no outcome reported in between, at any
  times, it admits at most one probe.
\<close>

theorem open_breaker_protects:
  assumes "cb_state cb = OPEN"
    and "list_all (before (last_failure_time cb + recovery_timeout cb)) ops" and "list_all is_allow probes"
  shows "True \<notin> set (answers ops cb) \<and> length (filter id (answers probes cb)) \<le> 1"
  using open_refuses [OF assms(1,2)] one_probe_list [OF assms(1,3)] by simp

definition tripped :: circuit_breaker where
  "tripped = breaker_run [Failure 10, Failure 11, Failure 12] default_breaker"

lemma tripped_simps [simp]:
  "cb_state tripped = OPEN" "last_failure_time tripped = 12" "recovery_timeout tripped = 60"
  by (simp_all add: tripped_def default_breaker_def new_breaker_def breaker_defs)

theorem open_breaker_protects_witness:
  "True \<notin> set (answers [Allow 20, Success, Allow 71] tripped)
   \<and> length (filter id (answers [Allow 71, Allow 72, Allow 73, Allow 500] tripped)) \<le> 1
   \<and> answers [Allow 71, Allow 72, Allow 73, Allow 500] tripped = [False, True, False, False]"
  using open_breaker_protects [of tripped "[Allow 20, Success, Allow 71]" "[Allow 71, Allow 72, Allow 73, Allow 500]"]
  by (simp add: allow_request_def)

text \<open>
  A probe that reports neither outcome leaves the breaker half open, and then nothing but a
  report gets it out: it refuses every later request, at any time. The engine has such
  probes: the actions \<open>delay\<close>, \<open>navigate\<close>, \<open>scroll_down\<close>, \<open>wait\<close>, \<open>conditional\<close>, \<open>done\<close>, an
  assertion that holds and a resolved \<open>human_input\<close> report nothing.
\<close>

lemma silent_probe_locks_out:
  assumes "cb_state cb = OPEN" and "last_failure_time cb + recovery_timeout cb \<le> now"
    and "list_all is_allow later"
  shows "fst (allow_request now cb)" and "True \<notin> set (answers later (snd (allow_request now cb)))"
  using assms half_open_refuses [of "cb\<lparr>cb_state := HALF_OPEN\<rparr>" later]
  by (auto simp: allow_request_def)

lemma probe_outcome:
  assumes "cb_state cb = HALF_OPEN"
  shows "record_success cb = cb\<lparr>cb_state := CLOSED, failures := 0\<rparr>"
    and "record_failure now cb = cb\<lparr>cb_state := OPEN, last_failure_time := now\<rparr>"
  using assms by (simp_all add: breaker_defs)

end
