(* ===== verification/MemoryGraph.thy ===== *)
theory MemoryGraph
  imports Prelude Filters
begin

text \<open>
  The memory graph of the workflow engine (\<open>xioflow/memory/memory_graph.py\<close>): the rows of
  \<open>xioflow_memory_nodes\<close>, the lookup of an intent by tier, and the traversal that turns the
  intents a start intent leads to into the tree the executor walks.

  The order in which the database returns rows is unspecified: \<open>order\<close> is an arbitrary key of
  the rows. Building a query reads attributes of the mapped class, and reading one the class
  lacks raises; \<open>memory_node_attributes\<close> are those of \<open>models/memory_nodes.py\<close>, and \<open>deleted_at\<close>,
  which the look-ups filter on, is not among them. The traversal is modelled over any look-up.
\<close>

section \<open>Rows\<close>

record memory_node =
  mn_id :: uuid
  mn_organization_id :: uuid
  mn_project_id :: "uuid option"
  mn_tier :: string
  mn_status :: string
  mn_domain :: string
  mn_intent :: string
  mn_context_hash :: string
  mn_device_type :: "string option"
  mn_os_name :: "string option"
  mn_browser :: "string option"
  mn_viewport_width :: "int option"
  mn_viewport_height :: "int option"
  mn_face_value :: pyval
  mn_place_value :: pyval
  mn_action_type :: string
  mn_action_params :: "(string \<times> pyval) list option"
  mn_output_var :: "string option"
  mn_execution_mode :: string
  mn_previous_intent :: "string option"
  mn_volatility_type :: string
  mn_fallback_plugin :: "string option"
  mn_bayesian_score :: rat
  mn_ema_score :: rat
  mn_total_vote_weight :: rat
  mn_promotions :: int
  mn_ref_count :: int
  mn_locator_priority :: "int list option"
  mn_recorded_by :: "uuid option"
  mn_recording_method :: string
  mn_client_id :: "string option"
  mn_last_used :: datetime
  mn_deleted_at :: "datetime option"

text \<open>The attributes of the mapped class. The column \<open>deleted_at\<close> is not among them.\<close>

definition memory_node_attributes :: "string list" where
  "memory_node_attributes =
     [''id'', ''organization_id'', ''project_id'', ''tier'', ''status'', ''domain'', ''intent'',
      ''context_hash'', ''device_type'', ''os_name'', ''browser'', ''viewport_width'',
      ''viewport_height'', ''face_value'', ''place_value'', ''action_type'', ''action_params'',
      ''output_var'', ''execution_mode'', ''previous_intent'', ''next_nodes'', ''condition'',
      ''volatility_type'', ''fallback_plugin'', ''bayesian_score'', ''ema_score'',
      ''total_vote_weight'', ''promotions'', ''ref_count'', ''locator_priority'', ''recorded_by'',
      ''recording_method'', ''client_id'', ''created_at'', ''last_used'', ''updated_at'',
      ''lookup_key'']"

definition reads_attribute :: "string \<Rightarrow> bool" where
  "reads_attribute a \<longleftrightarrow> a \<in> set memory_node_attributes"

datatype memory_error = MissingAttribute string | BadIntent | IntegrityViolation

type_synonym memory_table = "memory_node list"

definition default_tiers :: "string list" where
  "default_tiers =
     [''project_experimental'', ''project_ground_truth'', ''organization_shared'', ''platform_global'']"

text \<open>The CHECK constraints of the table, as the last migrations leave them.\<close>

definition action_types_allowed :: "string list" where
  "action_types_allowed =
     [''click'', ''type'', ''fill'', ''extract_data'', ''scroll_down'',
      ''navigate'', ''wait'', ''done'', ''trigger_sub_workflow'',
      ''compute_node'', ''conditional'',
      ''script'', ''delay'', ''http_request'',
      ''assertion'', ''human_input'', ''ssh_command'',
      ''llm_prompt'', ''webhook_fire'',
      ''press'', ''hover'', ''select_option'', ''check'', ''uncheck'']"

definition recording_methods_allowed :: "string list" where
  "recording_methods_allowed =
     [''auto_learn'', ''teacher_extension'', ''declarative_dag'', ''mcp_chat'', ''auto_trace'']"

definition vocabulary_ok :: "memory_node \<Rightarrow> bool" where
  "vocabulary_ok n \<longleftrightarrow>
     mn_action_type n \<in> set action_types_allowed \<and> mn_recording_method n \<in> set recording_methods_allowed \<and>
     mn_status n \<in> set [''ACTIVE'', ''ARCHIVED'', ''DEPRECATED''] \<and>
     mn_execution_mode n \<in> set [''sequential'', ''parallel''] \<and>
     mn_volatility_type n \<in> set [''static'', ''dynamic'', ''bubble'']"

definition score_bounds_ok :: "memory_node \<Rightarrow> bool" where
  "score_bounds_ok n \<longleftrightarrow>
     - 1 \<le> mn_bayesian_score n \<and> mn_bayesian_score n \<le> 1 \<and>
     - 1 \<le> mn_ema_score n \<and> mn_ema_score n \<le> 1 \<and> 0 \<le> mn_total_vote_weight n"

definition memory_node_ok :: "memory_node \<Rightarrow> bool" where
  "memory_node_ok n \<longleftrightarrow> vocabulary_ok n \<and> score_bounds_ok n"

section \<open>Single rows\<close>

text \<open>The arguments of \<open>save_new_action\<close> beside the keys, as a row of which it replaces the rest.\<close>

definition new_action :: "uuid \<Rightarrow> datetime \<Rightarrow> memory_node \<Rightarrow> memory_node" where
  "new_action new_id now args =
     args\<lparr>mn_id := new_id, mn_tier := ''project_experimental'', mn_status := ''ACTIVE'',
       mn_bayesian_score := 1/2, mn_ema_score := 1/2, mn_total_vote_weight := 0,
       mn_promotions := 0, mn_ref_count := 0, mn_locator_priority := Some [1,2,3,4,5,6,7,8,9,10],
       mn_last_used := now, mn_deleted_at := None\<rparr>"

definition save_new_action :: "uuid \<Rightarrow> datetime \<Rightarrow> memory_node \<Rightarrow> memory_table \<Rightarrow> memory_error + (uuid \<times> memory_table)" where
  "save_new_action new_id now args rows =
     (if memory_node_ok (new_action new_id now args)
      then Inr (new_id, rows @ [new_action new_id now args]) else Inl IntegrityViolation)"

definition get_node :: "uuid \<Rightarrow> memory_table \<Rightarrow> memory_error + memory_node option" where
  "get_node node_id rows =
     (if \<not> reads_attribute ''deleted_at'' then Inl (MissingAttribute ''deleted_at'')
      else Inr (find (\<lambda>n. mn_id n = node_id \<and> mn_deleted_at n = None) rows))"

definition update_node :: "uuid \<Rightarrow> (memory_node \<Rightarrow> memory_node) \<Rightarrow> memory_table \<Rightarrow> memory_error + memory_table" where
  "update_node node_id set_attrs rows =
     (if list_all (\<lambda>n. mn_id n = node_id \<longrightarrow> memory_node_ok (set_attrs n)) rows
      then Inr (update_where (\<lambda>n. mn_id n = node_id) set_attrs rows) else Inl IntegrityViolation)"

definition update_locator_priority :: "uuid \<Rightarrow> int list \<Rightarrow> memory_table \<Rightarrow> memory_error + memory_table" where
  "update_locator_priority node_id new_priority rows =
     update_node node_id (\<lambda>n. n\<lparr>mn_locator_priority := Some new_priority\<rparr>) rows"

definition update_last_used :: "datetime \<Rightarrow> uuid \<Rightarrow> memory_table \<Rightarrow> memory_error + memory_table" where
  "update_last_used now node_id rows = update_node node_id (\<lambda>n. n\<lparr>mn_last_used := now\<rparr>) rows"

definition increment_ref_count :: "uuid \<Rightarrow> memory_table \<Rightarrow> memory_table" where
  "increment_ref_count node_id rows =
     update_where (\<lambda>n. mn_id n = node_id) (\<lambda>n. n\<lparr>mn_ref_count := mn_ref_count n + 1\<rparr>) rows"

section \<open>Lookup\<close>

definition lookup_match :: "string \<Rightarrow> string \<Rightarrow> string \<Rightarrow> uuid \<Rightarrow> uuid option \<Rightarrow> memory_node \<Rightarrow> bool" where
  "lookup_match domain intent context_hash org project n \<longleftrightarrow>
     mn_domain n = domain \<and> mn_intent n = intent \<and> mn_context_hash n = context_hash \<and>
     mn_organization_id n = org \<and> mn_status n = ''ACTIVE'' \<and> mn_deleted_at n = None \<and>
     (project = None \<or> mn_project_id n = project)"

text \<open>\<open>nodes_by_tier\<close> keeps the last row of each tier; the first tier of the list that is in it wins.\<close>

fun first_tier :: "string list \<Rightarrow> memory_node list \<Rightarrow> memory_node option" where
  "first_tier [] nodes = None"
| "first_tier (tier # tiers) nodes =
     (case find (\<lambda>n. mn_tier n = tier) (rev nodes) of
        Some n \<Rightarrow> Some n
      | None \<Rightarrow> first_tier tiers nodes)"

definition lookup_action ::
  "(memory_node \<Rightarrow> nat) \<Rightarrow> memory_table \<Rightarrow> string \<Rightarrow> string \<Rightarrow> string \<Rightarrow> uuid \<Rightarrow> string list \<Rightarrow>
   uuid option \<Rightarrow> memory_error + memory_node option" where
  "lookup_action order rows domain intent context_hash org tiers project =
     (if \<not> reads_attribute ''deleted_at'' then Inl (MissingAttribute ''deleted_at'')
      else Inr (first_tier (if tiers = [] then default_tiers else tiers)
                  (sort_key order (filter (lookup_match domain intent context_hash org project) rows))))"

section \<open>The tree\<close>

text \<open>
  What a node of the tree carries. \<open>dn_condition\<close> is the value of the key \<open>condition\<close>, None where
  the node has no such key.
\<close>

record dag_info =
  dn_id :: uuid
  dn_intent :: string
  dn_action_type :: string
  dn_action_params :: "(string \<times> pyval) list"
  dn_face_value :: pyval
  dn_place_value :: pyval
  dn_output_var :: "string option"
  dn_execution_mode :: string
  dn_volatility_type :: string
  dn_fallback_plugin :: "string option"
  dn_condition :: "pyval option"

datatype dag_node = DagNode (node_info: dag_info) (next_nodes: "dag_node list")

definition params_or_empty :: "memory_node \<Rightarrow> (string \<times> pyval) list" where
  "params_or_empty nd = (case mn_action_params nd of None \<Rightarrow> [] | Some d \<Rightarrow> d)"

definition tree_info :: "string \<Rightarrow> memory_node \<Rightarrow> dag_info" where
  "tree_info intent nd =
     \<lparr>dn_id = mn_id nd, dn_intent = intent, dn_action_type = mn_action_type nd,
      dn_action_params = params_or_empty nd, dn_face_value = mn_face_value nd,
      dn_place_value = mn_place_value nd, dn_output_var = mn_output_var nd,
      dn_execution_mode = mn_execution_mode nd, dn_volatility_type = mn_volatility_type nd,
      dn_fallback_plugin = mn_fallback_plugin nd, dn_condition = None\<rparr>"

text \<open>\<open>(action_params or {}).get("next_intents", [])\<close>, as the loop over it sees it: None where iterating raises.\<close>

definition next_intents :: "memory_node \<Rightarrow> memory_error + pyval list" where
  "next_intents nd =
     (case map_of (params_or_empty nd) ''next_intents'' of
        None \<Rightarrow> Inr []
      | Some v \<Rightarrow> (case iter_values v of None \<Rightarrow> Inl BadIntent | Some vs \<Rightarrow> Inr vs))"

text \<open>
  \<open>traverse\<close>: the recursion is on \<open>max_depth + 1 - current_depth\<close>; the two lists are the sets
  \<open>visited\<close> (in the order of insertion) and \<open>visited_nodes\<close>. The format of a next intent is a
  string; None finds no row; a list or a dict is not hashable and raises, and a number, which
  only the database can refuse or match, is taken to raise too.
\<close>

fun walk_graph :: "(string \<Rightarrow> memory_error + memory_node option) \<Rightarrow> nat \<Rightarrow> string list \<Rightarrow> uuid list \<Rightarrow> pyval \<Rightarrow>
    memory_error + (dag_node option \<times> string list \<times> uuid list)"
  and walk_all :: "(string \<Rightarrow> memory_error + memory_node option) \<Rightarrow> nat \<Rightarrow> string list \<Rightarrow> uuid list \<Rightarrow> pyval list \<Rightarrow>
    memory_error + (dag_node list \<times> string list \<times> uuid list)" where
  "walk_graph lookup 0 vis ids v = Inr (None, vis, ids)"
| "walk_graph lookup (Suc n) vis ids v =
     (case v of
        PStr intent \<Rightarrow>
          if intent \<in> set vis then Inr (None, vis, ids)
          else rbind (lookup intent) (\<lambda>found.
            case found of
              None \<Rightarrow> Inr (None, vis @ [intent], ids)
            | Some nd \<Rightarrow>
                rbind (next_intents nd) (\<lambda>vs.
                rbind (walk_all lookup n (vis @ [intent]) (ids @ [mn_id nd]) vs) (\<lambda>(children, vis', ids').
                  Inr (Some (DagNode (tree_info intent nd) children), vis', ids'))))
      | PNone \<Rightarrow> Inr (None, vis, ids)
      | _ \<Rightarrow> Inl BadIntent)"
| "walk_all lookup n vis ids [] = Inr ([], vis, ids)"
| "walk_all lookup n vis ids (v # vs) =
     rbind (walk_graph lookup n vis ids v) (\<lambda>(child, vis', ids').
     rbind (walk_all lookup n vis' ids' vs) (\<lambda>(children, vis'', ids'').
       Inr ((case child of None \<Rightarrow> children | Some c \<Rightarrow> c # children), vis'', ids'')))"

definition get_workflow_graph ::
  "(memory_node \<Rightarrow> nat) \<Rightarrow> string \<Rightarrow> string \<Rightarrow> uuid \<Rightarrow> string \<Rightarrow> uuid option \<Rightarrow> nat \<Rightarrow> memory_table \<Rightarrow>
   memory_error + (dag_node option \<times> memory_table)" where
  "get_workflow_graph order domain start_intent org context_hash project max_depth rows =
     rbind (walk_graph (\<lambda>intent. lookup_action order rows domain intent context_hash org [] project)
              (Suc max_depth) [] [] (PStr start_intent)) (\<lambda>(tree, _, ids).
       case tree of
         None \<Rightarrow> Inr (None, rows)
       | Some t \<Rightarrow> Inr (Some t, fold increment_ref_count ids rows))"

section \<open>What the traversal returns\<close>

text \<open>The nodes of a tree in the order in which the executor reaches them.\<close>

fun preorder :: "dag_node \<Rightarrow> dag_info list" where
  "preorder (DagNode x ts) = x # concat (map preorder ts)"

definition preorder_opt :: "dag_node option \<Rightarrow> dag_info list" where
  "preorder_opt t = (case t of None \<Rightarrow> [] | Some t \<Rightarrow> preorder t)"

definition found_info :: "(string \<Rightarrow> memory_error + memory_node option) \<Rightarrow> string \<Rightarrow> dag_info list" where
  "found_info lookup x = (case lookup x of Inr (Some nd) \<Rightarrow> [tree_info x nd] | _ \<Rightarrow> [])"

lemma found_info_simps [simp]:
  "lookup x = Inr (Some nd) \<Longrightarrow> found_info lookup x = [tree_info x nd]"
  "lookup x = Inr None \<Longrightarrow> found_info lookup x = []"
  by (simp_all add: found_info_def)

lemma tree_info_simps [simp]:
  "dn_id (tree_info x nd) = mn_id nd" "dn_intent (tree_info x nd) = x" "dn_condition (tree_info x nd) = None"
  by (simp_all add: tree_info_def)

lemma concat_children:
  "concat (map preorder (case c of None \<Rightarrow> cs | Some c \<Rightarrow> c # cs)) = preorder_opt c @ concat (map preorder cs)"
  by (cases c) (auto simp: preorder_opt_def)

text \<open>
  A traversal appends the intents it visits to \<open>visited\<close>, none of them twice, and the tree is,
  in preorder, those of them that have a row; \<open>visited_nodes\<close> grows by their identifiers.
\<close>

lemma walk_graph_spec:
  "walk_graph lookup n vis ids v = Inr (t, vis', ids') \<Longrightarrow> distinct vis \<Longrightarrow>
     \<exists>w. vis' = vis @ w \<and> distinct vis' \<and> preorder_opt t = concat (map (found_info lookup) w) \<and>
         ids' = ids @ map dn_id (preorder_opt t)"
  and walk_all_spec:
  "walk_all lookup n vis ids vs = Inr (ts, vis', ids') \<Longrightarrow> distinct vis \<Longrightarrow>
     \<exists>w. vis' = vis @ w \<and> distinct vis' \<and> concat (map preorder ts) = concat (map (found_info lookup) w) \<and>
         ids' = ids @ map dn_id (concat (map preorder ts))"
proof (induction lookup n vis ids v and lookup n vis ids vs arbitrary: t vis' ids' and ts vis' ids' rule: walk_graph_walk_all.induct)
  case (1 lookup vis ids v)
  then show ?case by (auto simp: preorder_opt_def)
next
  case (2 lookup n vis ids v)
  show ?case
  proof (cases "\<exists>x. v = PStr x \<and> x \<notin> set vis")
    case False
    with 2 show ?thesis by (auto simp: preorder_opt_def split: pyval.splits if_splits)
  next
    case True
    then obtain x where x: "v = PStr x" "x \<notin> set vis" by blast
    from 2(2) x obtain found where found: "lookup x = Inr found"
      by auto
    show ?thesis
    proof (cases found)
      case None
      with 2(2,3) x found show ?thesis
        by (intro exI [of _ "[x]"]) (auto simp: preorder_opt_def)
    next
      case (Some nd)
      with 2(2) x found obtain vs cs where vs: "next_intents nd = Inr vs"
        and cs: "walk_all lookup n (vis @ [x]) (ids @ [mn_id nd]) vs = Inr (cs, vis', ids')"
        and t: "t = Some (DagNode (tree_info x nd) cs)"
        by auto
      have "distinct (vis @ [x])" using 2(3) x by simp
      from 2(1) [OF x(1) x(2) cs this] obtain w where
        w: "vis' = (vis @ [x]) @ w" "distinct vis'"
          "concat (map preorder cs) = concat (map (found_info lookup) w)"
          "ids' = (ids @ [mn_id nd]) @ map dn_id (concat (map preorder cs))"
        by blast
      with found Some t show ?thesis
        by (intro exI [of _ "x # w"]) (simp add: preorder_opt_def)
    qed
  qed
next
  case (3 lookup n vis ids)
  then show ?case by auto
next
  case (4 lookup n vis ids v vs)
  from 4(3) obtain c vis1 ids1 cs where c: "walk_graph lookup n vis ids v = Inr (c, vis1, ids1)"
    and cs: "walk_all lookup n vis1 ids1 vs = Inr (cs, vis', ids')"
    and ts: "ts = (case c of None \<Rightarrow> cs | Some c \<Rightarrow> c # cs)"
    by auto
  from 4(1) [OF c 4(4)] obtain w1 where w1: "vis1 = vis @ w1" "distinct vis1"
    "preorder_opt c = concat (map (found_info lookup) w1)" "ids1 = ids @ map dn_id (preorder_opt c)" by blast
  from 4(2) [OF cs w1(2)] obtain w2 where w2: "vis' = vis1 @ w2" "distinct vis'"
    "concat (map preorder cs) = concat (map (found_info lookup) w2)"
    "ids' = ids1 @ map dn_id (concat (map preorder cs))" by blast
  from w1 w2 show ?case
    unfolding ts concat_children by (intro exI [of _ "w1 @ w2"]) simp
qed

text \<open>The tree never has more levels than the recursion.\<close>

fun height :: "dag_node \<Rightarrow> nat" where
  "height (DagNode x ts) = Suc (Max (insert 0 (set (map height ts))))"

lemma walk_graph_height:
  "walk_graph lookup n vis ids v = Inr (Some t, vis', ids') \<Longrightarrow> height t \<le> n"
  and walk_all_height:
  "walk_all lookup n vis ids vs = Inr (ts, vis', ids') \<Longrightarrow> \<forall>t \<in> set ts. height t \<le> n"
proof (induction lookup n vis ids v and lookup n vis ids vs arbitrary: t vis' ids' and ts vis' ids' rule: walk_graph_walk_all.induct)
  case (2 lookup n vis ids v)
  then show ?case by (auto split: pyval.splits if_splits option.splits)
next
  case (4 lookup n vis ids v vs)
  then show ?case by (fastforce split: option.splits)
qed auto

subsection \<open>Reachable intents\<close>

definition edges :: "(string \<Rightarrow> memory_error + memory_node option) \<Rightarrow> (string \<times> string) set" where
  "edges lookup = {(x, y). \<exists>nd vs. lookup x = Inr (Some nd) \<and> next_intents nd = Inr vs \<and> PStr y \<in> set vs}"

text \<open>The lookup of the intent does not raise, and its row lists next intents in the documented format.\<close>

definition readable :: "(string \<Rightarrow> memory_error + memory_node option) \<Rightarrow> string \<Rightarrow> bool" where
  "readable lookup x \<longleftrightarrow>
     (case lookup x of
        Inl _ \<Rightarrow> False
      | Inr None \<Rightarrow> True
      | Inr (Some nd) \<Rightarrow> (case next_intents nd of Inl _ \<Rightarrow> False | Inr vs \<Rightarrow> list_all (\<lambda>v. v \<in> range PStr) vs))"

definition reachable :: "(string \<Rightarrow> memory_error + memory_node option) \<Rightarrow> string \<Rightarrow> string set" where
  "reachable lookup start = {x. (start, x) \<in> (edges lookup)\<^sup>*}"

lemma reachable_step: "x \<in> reachable lookup s \<Longrightarrow> (x, y) \<in> edges lookup \<Longrightarrow> y \<in> reachable lookup s"
  unfolding reachable_def by (simp add: rtrancl.rtrancl_into_rtrancl)

lemma readable_cases:
  assumes "readable lookup x"
  obtains "lookup x = Inr None"
  | nd ys where "lookup x = Inr (Some nd)" "next_intents nd = Inr (map PStr ys)" "\<And>y. y \<in> set ys \<Longrightarrow> (x, y) \<in> edges lookup"
proof (cases "lookup x")
  case (Inl e)
  with assms show thesis by (simp add: readable_def)
next
  case (Inr found)
  show thesis
  proof (cases found)
    case None
    with Inr that(1) show thesis by simp
  next
    case (Some nd)
    with assms Inr obtain vs where vs: "next_intents nd = Inr vs" "\<forall>v \<in> set vs. v \<in> range PStr"
      by (auto simp: readable_def list_all_iff split: sum.splits)
    from vs(2) obtain ys where "vs = map PStr ys" by (metis ex_map_conv rangeE)
    with vs(1) Inr Some that(2) show thesis by (auto simp: edges_def)
  qed
qed

text \<open>
  A walk that is not cut by the depth visits, from intents of a closed set \<open>U\<close>, only intents of
  \<open>U\<close>, and whatever it visits it visits with all its successors.
\<close>

definition closed_intents :: "(string \<Rightarrow> memory_error + memory_node option) \<Rightarrow> string set \<Rightarrow> bool" where
  "closed_intents lookup U \<longleftrightarrow> (\<forall>x \<in> U. readable lookup x \<and> (\<forall>y. (x, y) \<in> edges lookup \<longrightarrow> y \<in> U))"

definition covers :: "(string \<Rightarrow> memory_error + memory_node option) \<Rightarrow> string set \<Rightarrow> string list \<Rightarrow> string set \<Rightarrow> string list \<Rightarrow> bool" where
  "covers lookup U vis start vis' \<longleftrightarrow>
     set vis \<subseteq> set vis' \<and> start \<subseteq> set vis' \<and> set vis' \<subseteq> set vis \<union> U \<and>
     (\<forall>x y. x \<in> set vis' \<longrightarrow> x \<notin> set vis \<longrightarrow> (x, y) \<in> edges lookup \<longrightarrow> y \<in> set vis')"

lemma covers_trans:
  assumes "covers lookup U vis A vis1" and "covers lookup U vis1 B vis2"
  shows "covers lookup U vis (A \<union> B) vis2"
proof -
  have sub: "set vis \<subseteq> set vis1" "set vis1 \<subseteq> set vis2" "A \<subseteq> set vis1" "B \<subseteq> set vis2"
    "set vis1 \<subseteq> set vis \<union> U" "set vis2 \<subseteq> set vis1 \<union> U"
    using assms by (auto simp: covers_def)
  have "y \<in> set vis2" if "x \<in> set vis2" "x \<notin> set vis" "(x, y) \<in> edges lookup" for x y
  proof (cases "x \<in> set vis1")
    case True
    with assms(1) that have "y \<in> set vis1" by (auto simp: covers_def)
    with sub(2) show ?thesis by blast
  next
    case False
    with assms(2) that show ?thesis by (auto simp: covers_def)
  qed
  moreover have "set vis \<subseteq> set vis2" "A \<union> B \<subseteq> set vis2" "set vis2 \<subseteq> set vis \<union> U" using sub by blast+
  ultimately show ?thesis unfolding covers_def by blast
qed

lemma walk_graph_covers:
  "finite U \<Longrightarrow> closed_intents lookup U \<Longrightarrow>
     card (U - set vis) \<le> n \<Longrightarrow> v = PStr s \<Longrightarrow> s \<in> U \<Longrightarrow>
     \<exists>t vis' ids'. walk_graph lookup n vis ids v = Inr (t, vis', ids') \<and> covers lookup U vis {s} vis'"
  and walk_all_covers:
  "finite U \<Longrightarrow> closed_intents lookup U \<Longrightarrow>
     card (U - set vis) \<le> n \<Longrightarrow> vs = map PStr ys \<Longrightarrow> set ys \<subseteq> U \<Longrightarrow>
     \<exists>ts vis' ids'. walk_all lookup n vis ids vs = Inr (ts, vis', ids') \<and> covers lookup U vis (set ys) vis'"
proof (induction lookup n vis ids v and lookup n vis ids vs arbitrary: s and ys rule: walk_graph_walk_all.induct)
  case (1 lookup vis ids v)
  then have "U \<subseteq> set vis" by simp
  with 1 show ?case by (auto simp: covers_def)
next
  case (2 lookup n vis ids v)
  show ?case
  proof (cases "s \<in> set vis")
    case True
    with 2(5,6) show ?thesis by (auto simp: covers_def)
  next
    case False
    have "readable lookup s" using 2(3,6) by (simp add: closed_intents_def)
    then show ?thesis
    proof (cases rule: readable_cases)
      case 1
      then have "walk_graph lookup (Suc n) vis ids v = Inr (None, vis @ [s], ids)"
        using False 2(5) by simp
      moreover have "covers lookup U vis {s} (vis @ [s])"
        using 1 2(6) by (auto simp: covers_def edges_def)
      ultimately show ?thesis by blast
    next
      case (2 nd ys)
      note node = this
      have "U - set (vis @ [s]) = (U - set vis) - {s}" by auto
      moreover have "s \<in> U - set vis" using False "2.prems"(5) by simp
      ultimately have "card (U - set (vis @ [s])) \<le> n"
        using "2.prems"(1,3) by (simp add: card_Diff_singleton)
      moreover have "set ys \<subseteq> U" using node(3) "2.prems"(2,5) by (auto simp: closed_intents_def)
      ultimately obtain ts vis' ids' where
        ts: "walk_all lookup n (vis @ [s]) (ids @ [mn_id nd]) (map PStr ys) = Inr (ts, vis', ids')"
        and cov: "covers lookup U (vis @ [s]) (set ys) vis'"
        using "2.IH" [OF "2.prems"(4) False] "2.prems"(1,2) by blast
      have "y \<in> set vis'" if "(s, y) \<in> edges lookup" for y
        using that node(1,2) cov by (auto simp: edges_def covers_def)
      with cov "2.prems"(5) have "covers lookup U vis {s} vis'"
        by (auto simp: covers_def)
      with ts node(1,2) False "2.prems"(4) show ?thesis by simp
    qed
  qed
next
  case (3 lookup n vis ids)
  then show ?case by (auto simp: covers_def)
next
  case (4 lookup n vis ids v vs)
  from 4(6) obtain s ys' where ys: "ys = s # ys'" and v: "v = PStr s" and vs: "vs = map PStr ys'"
    by (cases ys) auto
  with 4(7) have s: "s \<in> U" "set ys' \<subseteq> U" by auto
  from 4(1) [OF 4(3,4,5) v s(1)] obtain t vis1 ids1 where
    t: "walk_graph lookup n vis ids v = Inr (t, vis1, ids1)" and c1: "covers lookup U vis {s} vis1" by blast
  have "card (U - set vis1) \<le> card (U - set vis)"
    using c1 4(3) by (intro card_mono) (auto simp: covers_def)
  with 4(5) have "card (U - set vis1) \<le> n" by simp
  from 4(2) [OF 4(3,4) this vs s(2)] obtain ts vis' ids' where
    ts: "walk_all lookup n vis1 ids1 vs = Inr (ts, vis', ids')" and c2: "covers lookup U vis1 (set ys') vis'" by blast
  from covers_trans [OF c1 c2] have "covers lookup U vis (set ys) vis'" by (simp add: ys)
  with t ts show ?case by auto
qed

lemma edges_to_readable: "(\<And>x. x \<in> reachable lookup s \<Longrightarrow> readable lookup x) \<Longrightarrow> closed_intents lookup (reachable lookup s)"
  unfolding closed_intents_def by (meson reachable_step)

text \<open>
  Over a look-up that answers, the traversal of a graph, cyclic or not, ends, and with fewer than \<open>max_depth + 2\<close>
  intents reachable from the start it visits exactly these: \<open>visited\<close> holds each of them once,
  and the tree holds, once each, those of them that have a row.
\<close>

lemma traversal_complete:
  assumes "finite (reachable lookup s)" and "card (reachable lookup s) \<le> Suc max_depth"
    and "\<And>x. x \<in> reachable lookup s \<Longrightarrow> readable lookup x"
  shows "\<exists>t vis ids. walk_graph lookup (Suc max_depth) [] [] (PStr s) = Inr (t, vis, ids) \<and>
     distinct vis \<and> set vis = reachable lookup s \<and>
     distinct (map dn_intent (preorder_opt t)) \<and>
     set (map dn_intent (preorder_opt t)) = {x \<in> reachable lookup s. \<exists>nd. lookup x = Inr (Some nd)}"
proof -
  have start: "s \<in> reachable lookup s" by (simp add: reachable_def)
  have "card (reachable lookup s - set []) \<le> Suc max_depth" using assms(2) by simp
  from walk_graph_covers [OF assms(1) edges_to_readable this refl start] assms(3) obtain t vis ids where
    w: "walk_graph lookup (Suc max_depth) [] [] (PStr s) = Inr (t, vis, ids)"
    and cov: "covers lookup (reachable lookup s) [] {s} vis" by blast
  have "x \<in> set vis" if "(s, x) \<in> (edges lookup)\<^sup>*" for x
    using that cov by (induction) (auto simp: covers_def)
  with cov have vis: "set vis = reachable lookup s" by (auto simp: covers_def reachable_def)
  from walk_graph_spec [OF w] have spec: "distinct vis" "preorder_opt t = concat (map (found_info lookup) vis)" by auto
  have names: "map dn_intent (concat (map (found_info lookup) xs)) = filter (\<lambda>x. \<exists>nd. lookup x = Inr (Some nd)) xs" for xs
    by (induction xs) (auto simp: found_info_def split: sum.splits option.splits)
  have "map dn_intent (preorder_opt t) = filter (\<lambda>x. \<exists>nd. lookup x = Inr (Some nd)) vis"
    unfolding spec(2) by (rule names)
  with vis spec(1) show ?thesis
    by (intro exI [of _ t] exI [of _ vis] exI [of _ ids] conjI [OF w]) auto
qed

lemma reachable_subset:
  assumes "s \<in> U" and "\<And>x y. x \<in> U \<Longrightarrow> (x, y) \<in> edges lookup \<Longrightarrow> y \<in> U"
  shows "reachable lookup s \<subseteq> U"
proof
  fix x
  assume "x \<in> reachable lookup s"
  then have "(s, x) \<in> (edges lookup)\<^sup>*" by (simp add: reachable_def)
  then show "x \<in> U" using assms by induction auto
qed

text \<open>A graph with a cycle and a node that two others lead to.\<close>

definition sample_node :: "uuid \<Rightarrow> string \<Rightarrow> string list \<Rightarrow> memory_node" where
  "sample_node i intent next =
     \<lparr>mn_id = i, mn_organization_id = 1, mn_project_id = None, mn_tier = ''project_experimental'',
      mn_status = ''ACTIVE'', mn_domain = ''shop'', mn_intent = intent, mn_context_hash = ''default'',
      mn_device_type = None, mn_os_name = None, mn_browser = None, mn_viewport_width = None,
      mn_viewport_height = None, mn_face_value = PDict [], mn_place_value = PDict [],
      mn_action_type = ''conditional'',
      mn_action_params = Some [(''next_intents'', PList (map PStr next))], mn_output_var = None,
      mn_execution_mode = ''sequential'', mn_previous_intent = None, mn_volatility_type = ''static'',
      mn_fallback_plugin = None, mn_bayesian_score = 1/2, mn_ema_score = 1/2,
      mn_total_vote_weight = 0, mn_promotions = 0, mn_ref_count = 0, mn_locator_priority = None,
      mn_recorded_by = None, mn_recording_method = ''auto_learn'', mn_client_id = None,
      mn_last_used = 0, mn_deleted_at = None\<rparr>"

definition diamond_rows :: memory_table where
  "diamond_rows =
     [sample_node 1 ''a'' [''b'', ''c''], sample_node 2 ''b'' [''d''], sample_node 3 ''c'' [''d'', ''a''],
      sample_node 4 ''d'' [''gone'']]"

text \<open>A look-up by intent alone, as the query would be if the class had the column.\<close>

definition diamond_lookup :: "string \<Rightarrow> memory_error + memory_node option" where
  "diamond_lookup intent = Inr (find (\<lambda>n. mn_intent n = intent) diamond_rows)"

lemma diamond_lookup_simps [simp]:
  "diamond_lookup ''a'' = Inr (Some (sample_node 1 ''a'' [''b'', ''c'']))"
  "diamond_lookup ''b'' = Inr (Some (sample_node 2 ''b'' [''d'']))"
  "diamond_lookup ''c'' = Inr (Some (sample_node 3 ''c'' [''d'', ''a'']))"
  "diamond_lookup ''d'' = Inr (Some (sample_node 4 ''d'' [''gone'']))"
  "diamond_lookup ''gone'' = Inr None"
  by (simp_all add: diamond_lookup_def diamond_rows_def sample_node_def)

lemma next_intents_sample [simp]: "next_intents (sample_node i x next) = Inr (map PStr next)"
  by (simp add: next_intents_def params_or_empty_def sample_node_def)

lemma mn_id_sample [simp]: "mn_id (sample_node i x next) = i"
  by (simp add: sample_node_def)

lemma diamond_reachable: "reachable diamond_lookup ''a'' \<subseteq> {''a'', ''b'', ''c'', ''d'', ''gone''}"
  by (rule reachable_subset) (auto simp: edges_def)

lemma diamond_readable: "x \<in> {''a'', ''b'', ''c'', ''d'', ''gone''} \<Longrightarrow> readable diamond_lookup x"
  by (auto simp: readable_def)

lemma diamond_traversed:
  "(\<exists>t vis ids. walk_graph diamond_lookup (Suc 100) [] [] (PStr ''a'') = Inr (t, vis, ids) \<and>
     distinct vis \<and> set vis = reachable diamond_lookup ''a'' \<and>
     distinct (map dn_intent (preorder_opt t)) \<and>
     set (map dn_intent (preorder_opt t)) = {x \<in> reachable diamond_lookup ''a''. \<exists>nd. diamond_lookup x = Inr (Some nd)})"
proof (rule traversal_complete)
  show "finite (reachable diamond_lookup ''a'')"
    by (rule finite_subset [OF diamond_reachable]) simp
  have "card (reachable diamond_lookup ''a'') \<le> card {''a'', ''b'', ''c'', ''d'', ''gone''}"
    by (rule card_mono [OF _ diamond_reachable]) simp
  also have "\<dots> \<le> Suc 100" by (simp add: card_insert_if)
  finally show "card (reachable diamond_lookup ''a'') \<le> Suc 100" .
  show "readable diamond_lookup x" if "x \<in> reachable diamond_lookup ''a''" for x
    using that diamond_reachable diamond_readable by blast
qed

text \<open>
  A node that two others lead to hangs below the first only: \<open>d\<close> comes before \<open>c\<close>, although \<open>c\<close>
  leads to it too, so that a walk of the tree runs it before its second predecessor.
\<close>

lemma join_runs_before_predecessor:
  "(case walk_graph diamond_lookup (Suc 100) [] [] (PStr ''a'') of
      Inr (t, _, _) \<Rightarrow> map dn_intent (preorder_opt t)
    | Inl _ \<Rightarrow> []) = [''a'', ''b'', ''d'', ''c'']"
  by (simp add: preorder_opt_def eval_nat_numeral)

section \<open>As the class is mapped\<close>

text \<open>
  No look-up returns: the filter on \<open>deleted_at\<close> reads an attribute the class does not have. A
  migration adds the column to the table, but the class was not extended, so that an executor on
  this graph never gets a tree.
\<close>

lemma lookup_raises_as_mapped:
  "lookup_action order rows domain intent context_hash org tiers project = Inl (MissingAttribute ''deleted_at'')"
  "get_node node_id rows = Inl (MissingAttribute ''deleted_at'')"
  "get_workflow_graph order domain start org context_hash project max_depth rows = Inl (MissingAttribute ''deleted_at'')"
  by (simp_all add: lookup_action_def get_node_def get_workflow_graph_def reads_attribute_def memory_node_attributes_def)

end
