(* ===== verification/Consensus.thy ===== *)
theory Consensus
  imports MemoryGraph
begin

text \<open>
  Voting on memory nodes (\<open>xioflow/memory/consensus_engine.py\<close>): the Bayesian moving average, the
  ledger of votes with its upsert, and the promotion, demotion and archiving that follow a vote.
  The decimal constants of the settings are taken as the rationals they are written as.
\<close>

section \<open>Scores\<close>

record consensus_settings =
  ema_alpha :: rat
  prior_weight :: rat
  prior_mean :: rat
  promote_threshold :: rat
  demote_threshold :: rat
  archive_threshold :: rat

definition engine_settings :: consensus_settings where
  "engine_settings =
     \<lparr>ema_alpha = 3/10, prior_weight = 5, prior_mean = 1/2,
      promote_threshold = 3/4, demote_threshold = 1/4, archive_threshold = 1/10\<rparr>"

definition calculate_bayesian_ema :: "rat \<Rightarrow> rat \<Rightarrow> rat \<Rightarrow> rat \<Rightarrow> consensus_settings \<Rightarrow> rat \<times> rat \<times> rat" where
  "calculate_bayesian_ema existing_score raw_vote tier_confidence vote_weight settings =
     (let alpha = ema_alpha settings;
          new_ema = alpha * (raw_vote * tier_confidence) + (1 - alpha) * existing_score;
          new_weight = vote_weight + \<bar>raw_vote\<bar>;
          bayesian = (new_weight * new_ema + prior_weight settings * prior_mean settings) / (new_weight + prior_weight settings)
      in (bayesian, new_ema, new_weight))"

section \<open>The ledger and the vote\<close>

record consensus_vote =
  cv_organization_id :: uuid
  cv_node_id :: uuid
  cv_voter_id :: string
  cv_raw_vote :: rat
  cv_tier_confidence :: rat
  cv_context_hash :: "string option"

record consensus_db =
  cd_nodes :: memory_table
  cd_votes :: "consensus_vote list"

definition vote_ok :: "consensus_vote \<Rightarrow> bool" where
  "vote_ok v \<longleftrightarrow> - 1 \<le> cv_raw_vote v \<and> cv_raw_vote v \<le> 1 \<and> 0 \<le> cv_tier_confidence v \<and> cv_tier_confidence v \<le> 1"

text \<open>
  The unique constraint on node, voter and context: SQL takes two NULLs for different, so a vote
  without a context conflicts with none.
\<close>

definition same_ballot :: "consensus_vote \<Rightarrow> consensus_vote \<Rightarrow> bool" where
  "same_ballot v w \<longleftrightarrow>
     cv_node_id v = cv_node_id w \<and> cv_voter_id v = cv_voter_id w \<and>
     cv_context_hash v = cv_context_hash w \<and> cv_context_hash v \<noteq> None"

definition upsert_vote :: "consensus_vote \<Rightarrow> consensus_vote list \<Rightarrow> consensus_vote list" where
  "upsert_vote v votes =
     (if list_ex (same_ballot v) votes
      then update_where (same_ballot v)
             (\<lambda>w. w\<lparr>cv_raw_vote := cv_raw_vote v, cv_tier_confidence := cv_tier_confidence v\<rparr>) votes
      else votes @ [v])"

definition next_tier :: "consensus_settings \<Rightarrow> rat \<Rightarrow> rat \<Rightarrow> memory_node \<Rightarrow> memory_node" where
  "next_tier settings bayesian new_weight n =
     (if bayesian > promote_threshold settings \<and> new_weight > 5 then
        if mn_tier n = ''project_experimental''
        then n\<lparr>mn_tier := ''project_ground_truth'', mn_promotions := mn_promotions n + 1\<rparr>
        else if mn_tier n = ''project_ground_truth''
        then n\<lparr>mn_tier := ''organization_shared'', mn_promotions := mn_promotions n + 1\<rparr>
        else n
      else if bayesian < demote_threshold settings then
        if mn_tier n = ''organization_shared'' then n\<lparr>mn_tier := ''project_ground_truth''\<rparr>
        else if mn_tier n = ''project_ground_truth'' then n\<lparr>mn_tier := ''project_experimental''\<rparr>
        else n
      else n)"

definition archive_low :: "consensus_settings \<Rightarrow> rat \<Rightarrow> memory_node \<Rightarrow> memory_node" where
  "archive_low settings bayesian n =
     (if bayesian < archive_threshold settings \<and> mn_ref_count n = 0 then n\<lparr>mn_status := ''ARCHIVED''\<rparr> else n)"

definition apply_vote :: "consensus_settings \<Rightarrow> rat \<Rightarrow> rat \<Rightarrow> memory_node \<Rightarrow> memory_node" where
  "apply_vote settings raw_vote tier_confidence n =
     (case calculate_bayesian_ema (mn_ema_score n) raw_vote tier_confidence (mn_total_vote_weight n) settings of
        (bayesian, new_ema, new_weight) \<Rightarrow>
          let n' = n\<lparr>mn_bayesian_score := bayesian, mn_ema_score := new_ema, mn_total_vote_weight := new_weight\<rparr>
          in if mn_tier n' = ''platform_global'' then n'
             else archive_low settings bayesian (next_tier settings bayesian new_weight n'))"

text \<open>
  \<open>submit_vote\<close>: the vote must refer to a node; the node is voted on only in its own organization,
  and otherwise the vote stays in the ledger without effect.
\<close>

definition submit_vote :: "uuid \<Rightarrow> uuid \<Rightarrow> string \<Rightarrow> rat \<Rightarrow> rat \<Rightarrow> string option \<Rightarrow> consensus_db \<Rightarrow> memory_error + consensus_db" where
  "submit_vote org node_id voter raw_vote tier_confidence context_hash db =
     (let v = \<lparr>cv_organization_id = org, cv_node_id = node_id, cv_voter_id = voter, cv_raw_vote = raw_vote,
               cv_tier_confidence = tier_confidence, cv_context_hash = context_hash\<rparr>;
          mine = (\<lambda>n. mn_id n = node_id \<and> mn_organization_id n = org)
      in if \<not> vote_ok v \<or> \<not> list_ex (\<lambda>n. mn_id n = node_id) (cd_nodes db) then Inl IntegrityViolation
         else let db' = db\<lparr>cd_votes := upsert_vote v (cd_votes db)\<rparr>
              in if \<not> list_ex mine (cd_nodes db) then Inr db'
                 else if list_all (\<lambda>n. mine n \<longrightarrow> memory_node_ok (apply_vote engine_settings raw_vote tier_confidence n)) (cd_nodes db)
                 then Inr (db'\<lparr>cd_nodes := update_where mine (apply_vote engine_settings raw_vote tier_confidence) (cd_nodes db)\<rparr>)
                 else Inl IntegrityViolation)"

section \<open>Bounds\<close>

lemma convex_bounds:
  fixes a x y :: rat
  assumes "0 \<le> a" "a \<le> 1" "- 1 \<le> x" "x \<le> 1" "- 1 \<le> y" "y \<le> 1"
  shows "- 1 \<le> a * x + (1 - a) * y \<and> a * x + (1 - a) * y \<le> 1"
proof -
  have "a * x \<le> a * 1" "(1 - a) * y \<le> (1 - a) * 1" "a * - 1 \<le> a * x" "(1 - a) * - 1 \<le> (1 - a) * y"
    using assms by (intro mult_left_mono; simp)+
  then show ?thesis by (simp add: algebra_simps)
qed

lemma weighted_bounds:
  fixes w p x m :: rat
  assumes "0 \<le> w" "0 < p" "- 1 \<le> x" "x \<le> 1" "- 1 \<le> m" "m \<le> 1"
  shows "- 1 \<le> (w * x + p * m) / (w + p) \<and> (w * x + p * m) / (w + p) \<le> 1"
proof -
  have pos: "0 < w + p" using assms by simp
  have "w * x \<le> w * 1" "p * m \<le> p * 1" "w * - 1 \<le> w * x" "p * - 1 \<le> p * m"
    using assms by (intro mult_left_mono; simp)+
  then show ?thesis using pos by (simp add: divide_le_eq le_divide_eq)
qed

lemma vote_times_confidence:
  fixes r c :: rat
  assumes "- 1 \<le> r" "r \<le> 1" "0 \<le> c" "c \<le> 1"
  shows "- 1 \<le> r * c \<and> r * c \<le> 1"
proof -
  have "r * c \<le> 1 * c" "- 1 * c \<le> r * c" using assms by (intro mult_right_mono; simp)+
  with assms show ?thesis by simp
qed

lemma vote_keeps_bounds:
  assumes "score_bounds_ok n" and "- 1 \<le> r" "r \<le> 1" "0 \<le> c" "c \<le> 1"
  shows "score_bounds_ok (apply_vote engine_settings r c n)"
proof -
  define e where "e = 3/10 * (r * c) + (1 - 3/10) * mn_ema_score n"
  define w where "w = mn_total_vote_weight n + \<bar>r\<bar>"
  have e: "- 1 \<le> e" "e \<le> 1"
    using convex_bounds [of "3/10" "r * c" "mn_ema_score n"] vote_times_confidence [OF assms(2-5)] assms(1)
    by (auto simp: e_def score_bounds_ok_def)
  have w: "0 \<le> w" using assms(1) by (simp add: w_def score_bounds_ok_def)
  have b: "- 1 \<le> (w * e + 5 * (1/2)) / (w + 5)" "(w * e + 5 * (1/2)) / (w + 5) \<le> 1"
    using weighted_bounds [OF w, of 5 e "1/2"] e by auto
  have "calculate_bayesian_ema (mn_ema_score n) r c (mn_total_vote_weight n) engine_settings
      = ((w * e + 5 * (1/2)) / (w + 5), e, w)"
    by (simp add: calculate_bayesian_ema_def engine_settings_def e_def w_def Let_def)
  with b e w show ?thesis
    by (simp add: apply_vote_def Let_def score_bounds_ok_def archive_low_def next_tier_def)
qed

lemma vote_keeps_vocabulary: "vocabulary_ok n \<Longrightarrow> vocabulary_ok (apply_vote s r c n)"
  by (auto simp: apply_vote_def vocabulary_ok_def archive_low_def next_tier_def Let_def split: prod.splits)

text \<open>No vote within the bounds of the ledger can make the table refuse the update: whatever the
  history of a node, its scores stay between -1 and 1 and its weight non-negative, so a vote on
  a node of the own organization always succeeds and keeps every row within its constraints.
\<close>

theorem vote_never_out_of_bounds:
  assumes "list_all memory_node_ok (cd_nodes db)" and "list_ex (\<lambda>n. mn_id n = node_id) (cd_nodes db)"
    and "- 1 \<le> r" "r \<le> 1" "0 \<le> c" "c \<le> 1"
  shows "\<exists>db'. submit_vote org node_id voter r c ctx db = Inr db' \<and> list_all memory_node_ok (cd_nodes db')"
proof -
  define mine :: "memory_node \<Rightarrow> bool" where "mine = (\<lambda>n. mn_id n = node_id \<and> mn_organization_id n = org)"
  have ok: "memory_node_ok (apply_vote engine_settings r c n)" if "n \<in> set (cd_nodes db)" for n :: memory_node
    using that assms vote_keeps_bounds [of n r c] vote_keeps_vocabulary [of n engine_settings r c]
    by (auto simp: memory_node_ok_def list_all_iff)
  then have "list_all (\<lambda>n. mine n \<longrightarrow> memory_node_ok (apply_vote engine_settings r c n)) (cd_nodes db)"
    by (simp add: list_all_iff)
  moreover have "list_all memory_node_ok (update_where mine (apply_vote engine_settings r c) (cd_nodes db))"
    using assms(1) ok by (intro list_all_update_where) auto
  ultimately show ?thesis
    using assms by (simp add: submit_vote_def vote_ok_def mine_def Let_def)
qed

definition ballot_box :: consensus_db where
  "ballot_box = \<lparr>cd_nodes = [sample_node 1 ''a'' [], sample_node 2 ''b'' []], cd_votes = []\<rparr>"

lemma ballot_box_ok: "list_all memory_node_ok (cd_nodes ballot_box)"
  by (simp add: ballot_box_def memory_node_ok_def vocabulary_ok_def score_bounds_ok_def sample_node_def
      action_types_allowed_def recording_methods_allowed_def)

theorem vote_never_out_of_bounds_witness:
  "\<exists>db'. submit_vote 1 2 ''w'' (- 1) (1/2) None ballot_box = Inr db' \<and> list_all memory_node_ok (cd_nodes db')"
  using vote_never_out_of_bounds [OF ballot_box_ok, of 2 "- 1" "1/2" 1 "''w''" None] by (simp add: ballot_box_def)

section \<open>The ladder of tiers\<close>

fun tier_rank :: "string \<Rightarrow> int" where
  "tier_rank t =
     (if t = ''project_experimental'' then 0 else if t = ''project_ground_truth'' then 1
      else if t = ''organization_shared'' then 2 else 3)"

declare tier_rank.simps [simp del]

text \<open>A vote moves a node at most one step along the tiers: up only when the new Bayesian score is
  above 3/4 and the weight above 5, never past \<open>organization_shared\<close>, and then it counts a
  promotion; down only when the score is below 1/4. It archives only an unreferenced node, and
  only when the score is below 1/10. A node of the global tier keeps its tier and its status.
\<close>

theorem vote_ladder:
  "let n' = apply_vote engine_settings r c n; up = tier_rank (mn_tier n') - tier_rank (mn_tier n) in
     \<bar>up\<bar> \<le> 1 \<and>
     (up = 1 \<longleftrightarrow> mn_promotions n' = mn_promotions n + 1) \<and>
     (0 < up \<longrightarrow> 3/4 < mn_bayesian_score n' \<and> 5 < mn_total_vote_weight n' \<and> tier_rank (mn_tier n') \<le> 2) \<and>
     (up < 0 \<longrightarrow> mn_bayesian_score n' < 1/4) \<and>
     (mn_status n' \<noteq> mn_status n \<longrightarrow> mn_status n' = ''ARCHIVED'' \<and> mn_bayesian_score n' < 1/10 \<and> mn_ref_count n = 0) \<and>
     (mn_tier n = ''platform_global'' \<longrightarrow> up = 0 \<and> mn_status n' = mn_status n)"
proof -
  define b where "b = fst (calculate_bayesian_ema (mn_ema_score n) r c (mn_total_vote_weight n) engine_settings)"
  define e where "e = fst (snd (calculate_bayesian_ema (mn_ema_score n) r c (mn_total_vote_weight n) engine_settings))"
  define w where "w = snd (snd (calculate_bayesian_ema (mn_ema_score n) r c (mn_total_vote_weight n) engine_settings))"
  have calc: "calculate_bayesian_ema (mn_ema_score n) r c (mn_total_vote_weight n) engine_settings = (b, e, w)"
    by (simp add: b_def e_def w_def)
  define m where "m = n\<lparr>mn_bayesian_score := b, mn_ema_score := e, mn_total_vote_weight := w\<rparr>"
  have m: "mn_tier m = mn_tier n" "mn_status m = mn_status n" "mn_promotions m = mn_promotions n"
    "mn_ref_count m = mn_ref_count n" "mn_bayesian_score m = b" "mn_total_vote_weight m = w" by (simp_all add: m_def)
  have eq: "apply_vote engine_settings r c n =
      (if mn_tier n = ''platform_global'' then m else archive_low engine_settings b (next_tier engine_settings b w m))"
    unfolding apply_vote_def calc by (simp add: Let_def m_def)
  have rank: "tier_rank ''project_experimental'' = 0" "tier_rank ''project_ground_truth'' = 1"
    "tier_rank ''organization_shared'' = 2" "tier_rank ''platform_global'' = 3"
    by (simp_all add: tier_rank.simps)
  have arch: "mn_tier (archive_low s b k) = mn_tier k" "mn_promotions (archive_low s b k) = mn_promotions k"
    "mn_bayesian_score (archive_low s b k) = mn_bayesian_score k" "mn_total_vote_weight (archive_low s b k) = mn_total_vote_weight k"
    "mn_status (archive_low s b k) = (if b < archive_threshold s \<and> mn_ref_count k = 0 then ''ARCHIVED'' else mn_status k)" for s b k
    by (simp_all add: archive_low_def)
  consider "mn_tier n = ''project_experimental''" | "mn_tier n = ''project_ground_truth''" | "mn_tier n = ''organization_shared''"
    | "mn_tier n = ''platform_global''"
    | "mn_tier n \<notin> {''project_experimental'', ''project_ground_truth'', ''organization_shared'', ''platform_global''}"
    by blast
  then show ?thesis
  proof cases
    case 1
    have "apply_vote engine_settings r c n = archive_low engine_settings b (next_tier engine_settings b w m)" using 1 eq by simp
    moreover have "next_tier engine_settings b w m = (if 3/4 < b \<and> 5 < w then m\<lparr>mn_tier := ''project_ground_truth'', mn_promotions := mn_promotions m + 1\<rparr> else m)"
      using 1 by (simp add: next_tier_def m engine_settings_def)
    ultimately show ?thesis using 1 by (simp add: Let_def arch m rank engine_settings_def)
  next
    case 2
    have "apply_vote engine_settings r c n = archive_low engine_settings b (next_tier engine_settings b w m)" using 2 eq by simp
    moreover have "next_tier engine_settings b w m = (if 3/4 < b \<and> 5 < w then m\<lparr>mn_tier := ''organization_shared'', mn_promotions := mn_promotions m + 1\<rparr>
        else if b < 1/4 then m\<lparr>mn_tier := ''project_experimental''\<rparr> else m)"
      using 2 by (simp add: next_tier_def m engine_settings_def)
    ultimately show ?thesis using 2 by (simp add: Let_def arch m rank engine_settings_def)
  next
    case 3
    have "apply_vote engine_settings r c n = archive_low engine_settings b (next_tier engine_settings b w m)" using 3 eq by simp
    moreover have "next_tier engine_settings b w m = (if \<not> (3/4 < b \<and> 5 < w) \<and> b < 1/4 then m\<lparr>mn_tier := ''project_ground_truth''\<rparr> else m)"
      using 3 by (simp add: next_tier_def m engine_settings_def)
    ultimately show ?thesis using 3 by (simp add: Let_def arch m rank engine_settings_def)
  next
    case 4
    then show ?thesis unfolding eq by (simp add: Let_def m)
  next
    case 5
    have "apply_vote engine_settings r c n = archive_low engine_settings b (next_tier engine_settings b w m)" using 5 eq by simp
    moreover have "next_tier engine_settings b w m = m" using 5 by (simp add: next_tier_def m)
    ultimately show ?thesis using 5 by (simp add: Let_def arch m engine_settings_def)
  qed
qed

text \<open>The sample node with other scores, and a vote of full confidence for it.\<close>

definition scored :: "rat \<Rightarrow> rat \<Rightarrow> rat \<Rightarrow> memory_node" where
  "scored b e w = sample_node 1 ''a'' []\<lparr>mn_bayesian_score := b, mn_ema_score := e, mn_total_vote_weight := w\<rparr>"

lemma approve_step:
  assumes "(w' * e' + 5/2) / (w' + 5) = b'" and "w + 1 = w'" and "3/10 + 7/10 * e = e'" and "1/4 \<le> b'"
  shows "apply_vote engine_settings 1 1 (scored b e w) =
     (if 3/4 < b' \<and> 5 < w' then scored b' e' w'\<lparr>mn_tier := ''project_ground_truth'', mn_promotions := 1\<rparr> else scored b' e' w')"
proof -
  have tier: "mn_tier (scored b e w) = ''project_experimental''" "mn_promotions (scored b e w) = 0"
    "mn_ema_score (scored b e w) = e" "mn_total_vote_weight (scored b e w) = w" for b e w
    by (simp_all add: scored_def sample_node_def)
  have upd: "scored b e w\<lparr>mn_bayesian_score := b', mn_ema_score := e', mn_total_vote_weight := w'\<rparr> = scored b' e' w'"
    by (simp add: scored_def)
  have calc: "calculate_bayesian_ema e 1 1 w engine_settings = (b', e', w')"
  proof -
    have "3/10 * (1 * 1) + (1 - 3/10) * e = e'" "w + \<bar>1\<bar> = w'" using assms by simp_all
    with assms(1) show ?thesis by (simp add: calculate_bayesian_ema_def engine_settings_def Let_def)
  qed
  show ?thesis
    unfolding apply_vote_def tier calc using assms(4)
    by (simp add: Let_def upd tier next_tier_def archive_low_def engine_settings_def)
qed

lemma approve_simps:
  "apply_vote engine_settings 1 1 (scored (1/2) (95/100) 6) =
     scored (1851/2400) (965/1000) 7\<lparr>mn_tier := ''project_ground_truth'', mn_promotions := 1\<rparr>"
  using approve_step [of 7 "965/1000" "1851/2400" 6 "95/100" "1/2"] by simp

theorem vote_ladder_witness:
  "mn_tier (apply_vote engine_settings 1 1 (scored (1/2) (95/100) 6)) = ''project_ground_truth''
   \<and> 3/4 < mn_bayesian_score (apply_vote engine_settings 1 1 (scored (1/2) (95/100) 6))"
  using vote_ladder [of 1 1 "scored (1/2) (95/100) 6"]
  unfolding approve_simps Let_def by (simp add: scored_def sample_node_def)

text \<open>
  One voter alone can promote a node. A second vote on the same ballot replaces the row of the
  ledger, but the node takes it as one more: seven equal votes of one voter leave one row in
  the ledger and the node in the next tier.
\<close>

fun vote_again :: "nat \<Rightarrow> consensus_db \<Rightarrow> memory_error + consensus_db" where
  "vote_again 0 db = Inr db"
| "vote_again (Suc k) db = rbind (submit_vote 1 1 ''w'' 1 1 (Some ''ctx'') db) (vote_again k)"

definition ballot :: consensus_vote where
  "ballot = \<lparr>cv_organization_id = 1, cv_node_id = 1, cv_voter_id = ''w'', cv_raw_vote = 1, cv_tier_confidence = 1,
             cv_context_hash = Some ''ctx''\<rparr>"

lemma submit_step:
  assumes "apply_vote engine_settings 1 1 n = n'" and "memory_node_ok n'" and "mn_id n = 1" and "mn_organization_id n = 1"
    and "votes \<in> {[], [ballot]}"
  shows "submit_vote 1 1 ''w'' 1 1 (Some ''ctx'') \<lparr>cd_nodes = [n], cd_votes = votes\<rparr> =
     Inr \<lparr>cd_nodes = [n'], cd_votes = [ballot]\<rparr>"
  using assms by (auto simp: submit_vote_def ballot_def vote_ok_def upsert_vote_def same_ballot_def Let_def)

lemma scored_ok: "- 1 \<le> b \<Longrightarrow> b \<le> 1 \<Longrightarrow> - 1 \<le> e \<Longrightarrow> e \<le> 1 \<Longrightarrow> 0 \<le> w \<Longrightarrow> memory_node_ok (scored b e w)"
  "- 1 \<le> b \<Longrightarrow> b \<le> 1 \<Longrightarrow> - 1 \<le> e \<Longrightarrow> e \<le> 1 \<Longrightarrow> 0 \<le> w \<Longrightarrow>
     memory_node_ok (scored b e w\<lparr>mn_tier := ''project_ground_truth'', mn_promotions := 1\<rparr>)"
  by (simp_all add: memory_node_ok_def vocabulary_ok_def score_bounds_ok_def sample_node_def scored_def
      action_types_allowed_def recording_methods_allowed_def)

lemma scored_keys [simp]: "mn_id (scored b e w) = 1" "mn_organization_id (scored b e w) = 1"
  by (simp_all add: scored_def sample_node_def)

lemma quarter_bound: "x * (3/10) \<le> y \<Longrightarrow> 0 \<le> x \<Longrightarrow> 1/4 * (x + 5) \<le> y + 5/2" for x y :: rat
  by simp

lemma one_voter_promotes:
  "\<exists>n. vote_again 7 \<lparr>cd_nodes = [scored (1/2) (1/2) 0], cd_votes = []\<rparr> = Inr \<lparr>cd_nodes = [n], cd_votes = [ballot]\<rparr> \<and>
     mn_tier (scored (1/2) (1/2) 0) = ''project_experimental'' \<and> mn_tier n = ''project_ground_truth''"
proof -
  have tier: "mn_tier (scored (1/2) (1/2) 0) = ''project_experimental''" by (simp add: scored_def sample_node_def)
  have vote: "vote_again (Suc k) \<lparr>cd_nodes = [scored b e w], cd_votes = votes\<rparr> =
      vote_again k \<lparr>cd_nodes = [scored ((w' * e' + 5/2) / (w' + 5)) e' w'], cd_votes = [ballot]\<rparr>"
    if "w + 1 = w'" "3/10 + 7/10 * e = e'" "0 \<le> w" "0 \<le> e" "e \<le> 1" "\<not> (3/4 < (w' * e' + 5/2) / (w' + 5) \<and> 5 < w')" "votes \<in> {[], [ballot]}" for k b e w w' e' votes
  proof -
    have "- 1 \<le> e'" "e' \<le> 1" "3/10 \<le> e'" using that by auto
    have "w' * (3/10) \<le> w' * e'" using that \<open>3/10 \<le> e'\<close> by (intro mult_left_mono) auto
    moreover have pos: "0 \<le> w'" using that(1,3) by simp
    ultimately have "1/4 * (w' + 5) \<le> w' * e' + 5/2" by (rule quarter_bound)
    then have b: "1/4 \<le> (w' * e' + 5/2) / (w' + 5)" using pos by (subst pos_le_divide_eq) auto
    have "(w' * e' + 5/2) / (w' + 5) \<le> 1"
      using weighted_bounds [of w' 5 e' "1/2"] that \<open>- 1 \<le> e'\<close> \<open>e' \<le> 1\<close> by simp
    then have "memory_node_ok (scored ((w' * e' + 5/2) / (w' + 5)) e' w')"
    proof (intro scored_ok)
      show "- 1 \<le> (w' * e' + 5/2) / (w' + 5)" by (rule order_trans [OF _ b]) simp
    qed (use pos \<open>- 1 \<le> e'\<close> \<open>e' \<le> 1\<close> in simp_all)
    moreover have "apply_vote engine_settings 1 1 (scored b e w) = scored ((w' * e' + 5/2) / (w' + 5)) e' w'"
      using approve_step [OF refl that(1,2) b, of "b0" for b0] unfolding if_not_P [OF that(6)] by blast
    ultimately show ?thesis using that(7) by (simp add: submit_step)
  qed
  have "vote_again 7 \<lparr>cd_nodes = [scored (1/2) (1/2) 0], cd_votes = []\<rparr> =
      vote_again 6 \<lparr>cd_nodes = [scored (21/40) (13/20) 1], cd_votes = [ballot]\<rparr>"
    using vote [of 0 1 "1/2" "13/20" "[]" 6 "1/2"] by (simp add: eval_nat_numeral del: vote_again.simps)
  also have "\<dots> =
      vote_again 5 \<lparr>cd_nodes = [scored (401/700) (151/200) 2], cd_votes = [ballot]\<rparr>"
    using vote [of 1 2 "13/20" "151/200" "[ballot]" 5 "21/40"] by (simp add: eval_nat_numeral del: vote_again.simps)
  also have "\<dots> =
      vote_again 4 \<lparr>cd_nodes = [scored (9971/16000) (1657/2000) 3], cd_votes = [ballot]\<rparr>"
    using vote [of 2 3 "151/200" "1657/2000" "[ballot]" 4 "401/700"] by (simp add: eval_nat_numeral del: vote_again.simps)
  also have "\<dots> =
      vote_again 3 \<lparr>cd_nodes = [scored (10033/15000) (17599/20000) 4], cd_votes = [ballot]\<rparr>"
    using vote [of 3 4 "1657/2000" "17599/20000" "[ballot]" 3 "9971/16000"] by (simp add: eval_nat_numeral del: vote_again.simps)
  also have "\<dots> =
      vote_again 2 \<lparr>cd_nodes = [scored (283193/400000) (183193/200000) 5], cd_votes = [ballot]\<rparr>"
    using vote [of 4 5 "17599/20000" "183193/200000" "[ballot]" 2 "10033/15000"] by (simp add: eval_nat_numeral del: vote_again.simps)
  also have "\<dots> =
      vote_again 1 \<lparr>cd_nodes = [scored (8147053/11000000) (1882351/2000000) 6], cd_votes = [ballot]\<rparr>"
    using vote [of 5 6 "183193/200000" "1882351/2000000" "[ballot]" 1 "283193/400000"] by (simp add: eval_nat_numeral del: vote_again.simps)
  also have "\<dots> = Inr \<lparr>cd_nodes = [scored (61411733/80000000) (19176457/20000000) 7\<lparr>mn_tier := ''project_ground_truth'', mn_promotions := 1\<rparr>], cd_votes = [ballot]\<rparr>"
  proof -
    have "apply_vote engine_settings 1 1 (scored (8147053/11000000) (1882351/2000000) 6) = scored (61411733/80000000) (19176457/20000000) 7\<lparr>mn_tier := ''project_ground_truth'', mn_promotions := 1\<rparr>"
      using approve_step [of 7 "19176457/20000000" "61411733/80000000" 6 "1882351/2000000" "8147053/11000000"] by simp
    from submit_step [OF this] scored_ok(2) show ?thesis by simp
  qed
  finally show ?thesis
    using tier by (intro exI conjI) (assumption | simp)+
qed

end
