(* ===== verification/BranchVars.thy ===== *)
theory BranchVars
  imports Prelude
begin

text \<open>
  The variables of parallel branches (\<open>xioflow/engine/branch_vars.py\<close>): snapshots forked from the
  workflow's variables, writes tracked per branch, and the merge by branch order. Dict objects
  live in a store, because what the code promises depends on which of them are shared.
\<close>

section \<open>Objects\<close>

type_synonym vars = "(string \<times> pyval) list"
type_synonym heap = "vars list"

text \<open>
  A dict object at an address, or a \<open>BranchVars\<close> whose \<open>_local\<close> is such an object and whose
  \<open>_writes\<close> is the dict at an address. The slots are never assigned again.
\<close>

datatype var_ref = Plain nat | Branch var_ref nat

fun view :: "heap \<Rightarrow> var_ref \<Rightarrow> vars" where
  "view h (Plain a) = h ! a"
| "view h (Branch l w) = view h l"

definition vars_get :: "heap \<Rightarrow> var_ref \<Rightarrow> string \<Rightarrow> pyval option" where
  "vars_get h r k = map_of (view h r) k"

fun vars_set :: "string \<Rightarrow> pyval \<Rightarrow> var_ref \<Rightarrow> heap \<Rightarrow> heap" where
  "vars_set k v (Plain a) h = h[a := AList.update k v (h ! a)]"
| "vars_set k v (Branch l w) h = (let h' = vars_set k v l h in h'[w := AList.update k v (h' ! w)])"

definition dict_update :: "vars \<Rightarrow> vars \<Rightarrow> vars" where
  "dict_update mapping d = fold (\<lambda>(k, v). AList.update k v) mapping d"

fun vars_update :: "vars \<Rightarrow> var_ref \<Rightarrow> heap \<Rightarrow> heap" where
  "vars_update mapping (Plain a) h = h[a := dict_update mapping (h ! a)]"
| "vars_update mapping (Branch l w) h =
     (let h' = vars_update mapping l h in h'[w := dict_update mapping (h' ! w)])"

text \<open>
  The constructor: \<open>copy.copy\<close> of a dict is a new dict, but of a \<open>BranchVars\<close> a new object with the
  same slots, so that its \<open>_local\<close> and \<open>_writes\<close> are the parent's.
\<close>

fun branch_new :: "var_ref \<Rightarrow> heap \<Rightarrow> var_ref \<times> heap" where
  "branch_new (Plain a) h = (Branch (Plain (length h)) (Suc (length h)), h @ [h ! a, []])"
| "branch_new (Branch l w) h = (Branch (Branch l w) (length h), h @ [[]])"

fun branch_writes :: "heap \<Rightarrow> var_ref \<Rightarrow> vars" where
  "branch_writes h (Branch l w) = h ! w"
| "branch_writes h (Plain a) = []"

fun branch_list :: "nat \<Rightarrow> var_ref \<Rightarrow> heap \<Rightarrow> var_ref list \<times> heap" where
  "branch_list 0 parent h = ([], h)"
| "branch_list (Suc n) parent h =
     (case branch_new parent h of (b, h') \<Rightarrow> case branch_list n parent h' of (bs, h'') \<Rightarrow> (b # bs, h''))"

definition merge_branch_results :: "var_ref \<Rightarrow> var_ref list \<Rightarrow> heap \<Rightarrow> heap" where
  "merge_branch_results parent branches h = fold (\<lambda>b h. vars_update (branch_writes h b) parent h) branches h"

section \<open>Branches of a dict\<close>

lemma map_of_dict_update: "distinct (map fst m) \<Longrightarrow> map_of (dict_update m d) = map_of d ++ map_of m"
proof (induction m arbitrary: d)
  case (Cons kv m)
  obtain k v where kv: "kv = (k, v)" by (cases kv)
  from Cons.prems kv have "k \<notin> fst ` set m" "distinct (map fst m)" by auto
  then have "map_of m k = None" by (simp add: map_of_eq_None_iff)
  then show ?case
    using Cons.IH [OF \<open>distinct (map fst m)\<close>, of "AList.update k v d"]
    by (auto simp: dict_update_def kv update_conv map_add_def fun_eq_iff split: option.splits)
qed (simp add: dict_update_def)

text \<open>The branches forked from a dict, and the writes made through them, in any order.\<close>

definition nth_branch :: "heap \<Rightarrow> nat \<Rightarrow> var_ref" where
  "nth_branch h i = Branch (Plain (length h + 2 * i)) (length h + 2 * i + 1)"

definition write_all :: "(nat \<times> string \<times> pyval) list \<Rightarrow> heap \<Rightarrow> heap \<Rightarrow> heap" where
  "write_all ws h0 h = fold (\<lambda>(i, k, v). vars_set k v (nth_branch h0 i)) ws h"

lemma branch_list_plain:
  "a < length h \<Longrightarrow> branch_list n (Plain a) h =
     (map (\<lambda>i. nth_branch h i) [0..<n], h @ concat (replicate n [h ! a, []]))"
proof (induction n arbitrary: h)
  case (Suc n)
  define h' where "h' = h @ [h ! a, []]"
  have h': "a < length h'" "h' ! a = h ! a" using Suc.prems by (simp_all add: h'_def nth_append)
  have "map (nth_branch h') [0..<n] = map (\<lambda>i. nth_branch h (Suc i)) [0..<n]"
    by (simp add: nth_branch_def h'_def)
  also have "\<dots> = map (nth_branch h) (map Suc [0..<n])" by simp
  finally have names: "nth_branch h 0 # map (nth_branch h') [0..<n] = map (nth_branch h) [0..<Suc n]"
    by (simp only: map_Suc_upt upt_conv_Cons [OF zero_less_Suc] list.map)
  have first: "branch_new (Plain a) h = (nth_branch h 0, h')" by (simp add: nth_branch_def h'_def)
  show ?case
    unfolding branch_list.simps first prod.case Suc.IH [OF h'(1)] h'(2) names by (simp add: h'_def)
qed simp

lemma fork_length: "length (concat (replicate n [x, y])) = 2 * n"
  by (induction n) auto

lemma fork_nth:
  assumes "i < n"
  shows "concat (replicate n [x, y]) ! (2 * i) = x" and "concat (replicate n [x, y]) ! (2 * i + 1) = y"
proof -
  show "concat (replicate n [x, y]) ! (2 * i) = x" using assms
  proof (induction n arbitrary: i)
    case (Suc n)
    then show ?case by (cases i) auto
  qed simp
  show "concat (replicate n [x, y]) ! (2 * i + 1) = y" using assms
  proof (induction n arbitrary: i)
    case (Suc n)
    then show ?case by (cases i) auto
  qed simp
qed

lemma vars_get_view: "vars_get h r = map_of (view h r)"
  by (rule ext) (simp add: vars_get_def)

text \<open>What the writes of one branch amount to.\<close>

definition writes_of :: "nat \<Rightarrow> (nat \<times> string \<times> pyval) list \<Rightarrow> (string \<times> pyval) list" where
  "writes_of i ws = map snd (filter (\<lambda>w. fst w = i) ws)"

lemma write_all_heap:
  assumes "\<forall>w \<in> set ws. fst w < n" and "length h = length h0 + 2 * n"
  shows "length (write_all ws h0 h) = length h
    \<and> (\<forall>b < length h0. write_all ws h0 h ! b = h ! b)
    \<and> (\<forall>i < n. write_all ws h0 h ! (length h0 + 2 * i) = dict_update (writes_of i ws) (h ! (length h0 + 2 * i))
         \<and> write_all ws h0 h ! (length h0 + 2 * i + 1) = dict_update (writes_of i ws) (h ! (length h0 + 2 * i + 1)))"
  using assms
proof (induction ws arbitrary: h)
  case Nil
  then show ?case by (simp add: write_all_def writes_of_def dict_update_def)
next
  case (Cons w ws)
  obtain j k v where w: "w = (j, k, v)" by (cases w) auto
  define h' where "h' = vars_set k v (nth_branch h0 j) h"
  have j: "j < n" using Cons.prems w by simp
  have h': "h' = h[length h0 + 2 * j := AList.update k v (h ! (length h0 + 2 * j)),
      length h0 + 2 * j + 1 := AList.update k v (h ! (length h0 + 2 * j + 1))]"
    by (simp add: h'_def nth_branch_def Let_def)
  have len: "length h' = length h0 + 2 * n" using Cons.prems by (simp add: h')
  have run: "write_all (w # ws) h0 h = write_all ws h0 h'" by (simp add: write_all_def w h'_def)
  have old: "h' ! b = h ! b" if "b < length h0" for b
    using that by (simp add: h')
  have at: "h' ! (length h0 + 2 * i) = dict_update (if i = j then [(k, v)] else []) (h ! (length h0 + 2 * i))"
    "h' ! (length h0 + 2 * i + 1) = dict_update (if i = j then [(k, v)] else []) (h ! (length h0 + 2 * i + 1))" if "i < n" for i
  proof -
    have "2 * i \<noteq> Suc (2 * j)" "Suc (2 * i) \<noteq> 2 * j" by presburger+
    with that Cons.prems(2) j show "h' ! (length h0 + 2 * i) = dict_update (if i = j then [(k, v)] else []) (h ! (length h0 + 2 * i))"
      "h' ! (length h0 + 2 * i + 1) = dict_update (if i = j then [(k, v)] else []) (h ! (length h0 + 2 * i + 1))"
      by (auto simp: h' nth_list_update dict_update_def)
  qed
  have compose: "dict_update (writes_of i ws) (dict_update (if i = j then [(k, v)] else []) d) = dict_update (writes_of i (w # ws)) d" for i d
    by (simp add: dict_update_def writes_of_def w)
  from Cons.IH [of h'] Cons.prems(1) len have IH: "length (write_all ws h0 h') = length h'"
    "\<forall>b < length h0. write_all ws h0 h' ! b = h' ! b"
    "\<forall>i < n. write_all ws h0 h' ! (length h0 + 2 * i) = dict_update (writes_of i ws) (h' ! (length h0 + 2 * i))
         \<and> write_all ws h0 h' ! (length h0 + 2 * i + 1) = dict_update (writes_of i ws) (h' ! (length h0 + 2 * i + 1))" by auto
  have rows: "write_all (w # ws) h0 h ! (length h0 + 2 * i) = dict_update (writes_of i (w # ws)) (h ! (length h0 + 2 * i))"
    "write_all (w # ws) h0 h ! (length h0 + 2 * i + 1) = dict_update (writes_of i (w # ws)) (h ! (length h0 + 2 * i + 1))"
    if i: "i < n" for i
  proof -
    from IH(3) i have "write_all ws h0 h' ! (length h0 + 2 * i) = dict_update (writes_of i ws) (h' ! (length h0 + 2 * i))"
      and "write_all ws h0 h' ! (length h0 + 2 * i + 1) = dict_update (writes_of i ws) (h' ! (length h0 + 2 * i + 1))" by blast+
    then show "write_all (w # ws) h0 h ! (length h0 + 2 * i) = dict_update (writes_of i (w # ws)) (h ! (length h0 + 2 * i))"
      "write_all (w # ws) h0 h ! (length h0 + 2 * i + 1) = dict_update (writes_of i (w # ws)) (h ! (length h0 + 2 * i + 1))"
      unfolding run at [OF i] compose by simp_all
  qed
  have "length (write_all (w # ws) h0 h) = length h" "\<forall>b < length h0. write_all (w # ws) h0 h ! b = h ! b"
    unfolding run using IH(1,2) old by (simp_all add: h')
  with rows show ?case by blast
qed

lemma distinct_dict_update: "distinct (map fst d) \<Longrightarrow> distinct (map fst (dict_update m d))"
proof (induction m arbitrary: d)
  case (Cons kv m)
  then show ?case by (cases kv) (simp add: dict_update_def distinct_update)
qed (simp add: dict_update_def)

text \<open>The variables after a list of assignments.\<close>

definition assigns :: "(string \<times> pyval) list \<Rightarrow> (string \<rightharpoonup> pyval) \<Rightarrow> (string \<rightharpoonup> pyval)" where
  "assigns ws m = fold (\<lambda>(k, v) m. m(k \<mapsto> v)) ws m"

lemma map_of_dict_update_any: "map_of (dict_update m d) = assigns m (map_of d)"
proof (induction m arbitrary: d)
  case (Cons kv m)
  obtain k v where kv: "kv = (k, v)" by (cases kv)
  have step: "dict_update (kv # m) d = dict_update m (AList.update k v d)"
    "assigns (kv # m) (map_of d) = assigns m ((map_of d)(k \<mapsto> v))"
    by (simp_all add: dict_update_def assigns_def kv)
  have "map_of (AList.update k v d) = (map_of d)(k \<mapsto> v)" by (rule ext) (simp add: update_conv')
  then show ?case unfolding step by (simp only: Cons.IH)
qed (simp add: dict_update_def assigns_def)

lemma assigns_add: "assigns ws m = m ++ assigns ws Map.empty"
proof (induction ws arbitrary: m)
  case (Cons kv ws)
  obtain k v where kv: "kv = (k, v)" by (cases kv)
  have step: "assigns (kv # ws) n = assigns ws (n(k \<mapsto> v))" for n by (simp add: assigns_def kv)
  have "assigns ws (m(k \<mapsto> v)) = m(k \<mapsto> v) ++ assigns ws Map.empty" by (rule Cons.IH)
  also have "\<dots> = m ++ ([k \<mapsto> v] ++ assigns ws Map.empty)" by (simp add: map_add_assoc)
  also have "[k \<mapsto> v] ++ assigns ws Map.empty = assigns ws [k \<mapsto> v]" by (rule Cons.IH [symmetric])
  finally show ?case unfolding step .
qed (simp add: assigns_def)

lemma assigns_append: "assigns (xs @ ys) m = assigns ys (assigns xs m)"
  by (simp add: assigns_def)

lemma merge_fold:
  assumes "a < length h0" and "length h0 \<le> length h"
    and "\<forall>i \<in> set is. map_of (h ! (length h0 + 2 * i + 1)) = assigns (writes_of i ws) Map.empty
           \<and> distinct (map fst (h ! (length h0 + 2 * i + 1)))"
  shows "map_of (merge_branch_results (Plain a) (map (nth_branch h0) is) h ! a) = assigns (concat (map (\<lambda>i. writes_of i ws) is)) (map_of (h ! a))"
  using assms
proof (induction "is" arbitrary: h)
  case (Cons i js)
  define h' where "h' = h[a := dict_update (h ! (length h0 + 2 * i + 1)) (h ! a)]"
  have run: "merge_branch_results (Plain a) (map (nth_branch h0) (i # js)) h = merge_branch_results (Plain a) (map (nth_branch h0) js) h'"
    by (simp add: merge_branch_results_def nth_branch_def h'_def)
  have same: "h' ! (length h0 + 2 * j + 1) = h ! (length h0 + 2 * j + 1)" for j
    using Cons.prems(1) by (simp add: h'_def)
  have "map_of (h' ! a) = map_of (h ! a) ++ map_of (h ! (length h0 + 2 * i + 1))"
    using Cons.prems by (simp add: h'_def map_of_dict_update)
  also have "\<dots> = assigns (writes_of i ws) (map_of (h ! a))"
    using Cons.prems(3) assigns_add [of "writes_of i ws" "map_of (h ! a)"] by simp
  finally have at: "map_of (h' ! a) = assigns (writes_of i ws) (map_of (h ! a))" .
  have "map_of (merge_branch_results (Plain a) (map (nth_branch h0) js) h' ! a) = assigns (concat (map (\<lambda>i. writes_of i ws) js)) (map_of (h' ! a))"
    by (rule Cons.IH) (use Cons.prems same in \<open>simp_all add: h'_def\<close>)
  with at show ?case unfolding run by (simp add: assigns_append)
qed (simp add: merge_branch_results_def assigns_def)

text \<open>C19.
  Branches forked from the variables of the workflow are isolated and merge deterministically.
  Whatever writes are made through them in whatever interleaving, the workflow's own variables
  do not change until the merge, each branch sees its snapshot with its own writes only, and
  the merge gives the variables that running branch 0's writes, then branch 1's, and so on,
  would have given.
\<close>

theorem branches_serialize:
  assumes "a < length h" and "\<forall>w \<in> set ws. fst w < n"
  defines "bs \<equiv> fst (branch_list n (Plain a) h)"
    and "h1 \<equiv> write_all ws h (snd (branch_list n (Plain a) h))"
  shows "vars_get h1 (Plain a) = vars_get h (Plain a) \<and>
     (\<forall>i < n. vars_get h1 (bs ! i) = assigns (writes_of i ws) (vars_get h (Plain a))) \<and>
     vars_get (merge_branch_results (Plain a) bs h1) (Plain a)
       = assigns (concat (map (\<lambda>i. writes_of i ws) [0..<n])) (vars_get h (Plain a))"
proof -
  define hf where "hf = h @ concat (replicate n [h ! a, []])"
  have bs: "bs = map (nth_branch h) [0..<n]" and h1: "h1 = write_all ws h hf"
    unfolding bs_def h1_def hf_def branch_list_plain [OF assms(1)] by simp_all
  have len: "length hf = length h + 2 * n" by (simp add: hf_def fork_length)
  have hf: "hf ! b = h ! b" if "b < length h" for b using that by (simp add: hf_def nth_append)
  have fork: "hf ! (length h + 2 * i) = h ! a" "hf ! (length h + 2 * i + 1) = []" if "i < n" for i
    using fork_nth(1,2) [OF that, of "h ! a" "[]"] by (simp_all add: hf_def nth_append)
  note heap = write_all_heap [OF assms(2) len, folded h1]
  have root: "h1 ! a = h ! a" using heap assms(1) hf by simp
  have local: "h1 ! (length h + 2 * i) = dict_update (writes_of i ws) (h ! a)"
    "h1 ! (length h + 2 * i + 1) = dict_update (writes_of i ws) []" if "i < n" for i
    using heap that fork [OF that] by metis+
  have "vars_get h1 (bs ! i) = assigns (writes_of i ws) (vars_get h (Plain a))" if "i < n" for i
    using that local [OF that] by (simp add: bs nth_branch_def vars_get_view map_of_dict_update_any)
  moreover have "map_of (merge_branch_results (Plain a) bs h1 ! a) = assigns (concat (map (\<lambda>i. writes_of i ws) [0..<n])) (map_of (h1 ! a))"
    unfolding bs
  proof (rule merge_fold [OF assms(1)])
    show "length h \<le> length h1" using heap len by simp
    show "\<forall>i \<in> set [0..<n]. map_of (h1 ! (length h + 2 * i + 1)) = assigns (writes_of i ws) Map.empty
           \<and> distinct (map fst (h1 ! (length h + 2 * i + 1)))"
      using local(2) distinct_dict_update [of "[]"] by (auto simp: map_of_dict_update_any)
  qed
  ultimately show ?thesis by (simp add: vars_get_view root)
qed

theorem branches_serialize_witness:
  "vars_get (merge_branch_results (Plain 0) (fst (branch_list 2 (Plain 0) [[(''x'', PInt 1)]]))
      (write_all [(1, ''x'', PInt 5), (0, ''x'', PInt 4), (0, ''y'', PInt 7)] [[(''x'', PInt 1)]]
         (snd (branch_list 2 (Plain 0) [[(''x'', PInt 1)]])))) (Plain 0)
   = [''x'' \<mapsto> PInt 5, ''y'' \<mapsto> PInt 7]"
proof -
  define ws :: "(nat \<times> string \<times> pyval) list" where "ws = [(1, ''x'', PInt 5), (0, ''x'', PInt 4), (0, ''y'', PInt 7)]"
  have "\<forall>w \<in> set ws. fst w < 2" by (simp add: ws_def)
  from branches_serialize [OF _ this, of 0 "[[(''x'', PInt 1)]]"] show ?thesis
    unfolding ws_def [symmetric]
    by (simp add: ws_def writes_of_def assigns_def upt_rec vars_get_view fun_eq_iff)
qed

section \<open>Where the promise fails\<close>

text \<open>
  A branch forked inside a branch is no snapshot: the copy of the \<open>BranchVars\<close> shares its dicts,
  so a write of the inner branch shows in the outer branch, and in its sibling, at once.
\<close>

lemma nested_fork_aliases:
  "vars_get (vars_set k v (fst (branch_new (Branch (Plain a) w) h)) (snd (branch_new (Branch (Plain a) w) h))) (Branch (Plain a) w) k
     = Some v" if "a < length h" "w < length h" "a \<noteq> w"
  using that by (simp add: vars_get_view Let_def nth_append update_conv')

text \<open>
  The executor lends each running branch the attribute \<open>self.workflow_vars\<close>: it saves the
  attribute, assigns the branch, and assigns what it saved when the branch is over. The
  semaphore lets up to five branches run at a time, interleaved wherever one awaits.
\<close>

datatype lend_step = Enter nat | Write nat string pyval | Leave nat

record lending =
  lend_cur :: var_ref
  lend_saved :: "nat \<Rightarrow> var_ref"
  lend_heap :: heap

fun lend :: "var_ref list \<Rightarrow> lend_step \<Rightarrow> lending \<Rightarrow> lending" where
  "lend bs (Enter i) s = s\<lparr>lend_saved := (lend_saved s)(i := lend_cur s), lend_cur := bs ! i\<rparr>"
| "lend bs (Write i k v) s = s\<lparr>lend_heap := vars_set k v (lend_cur s) (lend_heap s)\<rparr>"
| "lend bs (Leave i) s = s\<lparr>lend_cur := lend_saved s i\<rparr>"

definition lend_run :: "lend_step list \<Rightarrow> nat \<Rightarrow> vars \<Rightarrow> lending" where
  "lend_run steps n d =
     (let (bs, h) = branch_list n (Plain 0) [d];
          s = fold (lend bs) steps \<lparr>lend_cur = Plain 0, lend_saved = (\<lambda>_. Plain 0), lend_heap = h\<rparr>
      in s\<lparr>lend_heap := merge_branch_results (lend_cur s) bs (lend_heap s)\<rparr>)"

text \<open>One branch at a time, the lending is right: the attribute is the workflow's own again.\<close>

lemma lend_serial:
  "vars_get (lend_heap (lend_run [Enter 0, Write 0 ''x'' v, Leave 0, Enter 1, Write 1 ''y'' w, Leave 1] 2 [])) (Plain 0)
     = [''x'' \<mapsto> v, ''y'' \<mapsto> w]"
  "lend_cur (lend_run [Enter 0, Write 0 ''x'' v, Leave 0, Enter 1, Write 1 ''y'' w, Leave 1] 2 []) = Plain 0"
  by (simp_all add: lend_run_def eval_nat_numeral Let_def merge_branch_results_def dict_update_def vars_get_view fun_eq_iff)

text \<open>
  Interleaved, it is not. Branch 0 enters, branch 1 enters, branch 0 leaves, and only then
  branch 1 writes and leaves: the write goes past every branch straight to the workflow's own
  variables, the attribute ends as the variables of branch 0, and the merge goes there.
\<close>

lemma lend_interleaved:
  "lend_cur (lend_run [Enter 0, Enter 1, Leave 0, Write 1 ''y'' w, Leave 1] 2 []) = Branch (Plain 1) 2"
  "branch_writes (lend_heap (lend_run [Enter 0, Enter 1, Leave 0, Write 1 ''y'' w, Leave 1] 2 [])) (Branch (Plain 3) 4) = []"
  "vars_get (lend_heap (lend_run [Enter 0, Enter 1, Write 0 ''x'' v, Leave 0, Leave 1] 2 [])) (Plain 0) = Map.empty"
  by (simp_all add: lend_run_def eval_nat_numeral Let_def merge_branch_results_def dict_update_def vars_get_view fun_eq_iff)

end
