(* ===== verification/Executor.thy ===== *)
theory Executor
  imports Breaker MemoryGraph BranchVars
begin

text \<open>
  The walker of workflow trees (\<open>xioflow/engine/dag_executor.py\<close>) and the evaluator of edge
  conditions (\<open>xioflow/engine/branch_evaluator.py\<close>).

  What the walker calls outside itself - the page, HTTP, the sandbox, SSH, the language model,
  the router and the cascade - is one parameter, \<open>en_ext\<close>: the answer to a request in a state of
  the world, None where the call raises. Fetching a graph is \<open>en_fetch\<close>. The result of a walk is
  None where an exception leaves it.

  The code gathers the branches of a parallel node, five at a time, and they interleave wherever
  one of them waits. A parallel node of one branch has nothing to interleave with, and for it
  \<open>exec_parallel\<close> is the code; of several branches it is one schedule only, each branch run to
  its end before the next begins and none followed after one that raises. The properties of the
  walk are therefore stated of workflows whose parallel nodes have at most one child; what
  interleaving does to the variables is the subject of the theory \<open>BranchVars\<close>.

  The graph object is an argument of the executor's constructor. The one the repository passes
  is that of the theory \<open>MemoryGraph\<close>, whose look-ups raise as its class is mapped: an executor on
  it never gets a tree, which is the answer None of \<open>en_fetch\<close>.
\<close>

section \<open>The world outside\<close>

datatype ext_request =
    Compute pyval pyval pyval vars vars int
  | Script pyval vars pyval
  | Sleep rat
  | Http pyval pyval pyval pyval
  | Goto pyval
  | Settle
  | ScrollDown
  | WaitSelector pyval
  | WaitTimeout pyval
  | HumanNotice pyval pyval pyval pyval
  | HumanPending pyval
  | Ssh pyval pyval pyval int
  | Llm pyval
  | QueryTier string vars nat
  | Resolve pyval pyval string vars pyval
  | SetPriority pyval "pyval list"
  | TouchUsed pyval
  | TextOf pyval
  | Heal string
  | HealedAction string pyval bool pyval
  | PageContent
  | Fallback string vars string string pyval

record 'w engine =
  en_ext :: "ext_request \<Rightarrow> 'w \<Rightarrow> pyval option \<times> 'w"
  en_fetch :: "string \<Rightarrow> vars \<Rightarrow> 'w \<Rightarrow> dag_node option option \<times> 'w"
  en_clock :: "'w \<Rightarrow> rat"
  en_repr :: "pyval \<Rightarrow> string"
  en_float :: "string \<Rightarrow> rat option"
  en_max_viewport_tier :: nat
  en_run_id :: string

text \<open>An event of \<open>_emit_action\<close>: its type, node, intent, action and, for a start, the depth.\<close>

record action_event =
  ae_type :: string
  ae_node :: uuid
  ae_intent :: string
  ae_action :: string
  ae_depth :: "nat option"

record 'w exec_state =
  ex_heap :: heap
  ex_vars :: var_ref
  ex_breaker :: circuit_breaker
  ex_events :: "action_event list"
  ex_world :: 'w

definition ask :: "'w engine \<Rightarrow> ext_request \<Rightarrow> 'w exec_state \<Rightarrow> pyval option \<times> 'w exec_state" where
  "ask en req s = (case en_ext en req (ex_world s) of (r, w) \<Rightarrow> (r, s\<lparr>ex_world := w\<rparr>))"

definition emit :: "string \<Rightarrow> dag_info \<Rightarrow> nat option \<Rightarrow> 'w exec_state \<Rightarrow> 'w exec_state" where
  "emit event_type i depth s =
     s\<lparr>ex_events := ex_events s @ [\<lparr>ae_type = event_type, ae_node = dn_id i, ae_intent = dn_intent i,
                                     ae_action = dn_action_type i, ae_depth = depth\<rparr>]\<rparr>"

definition note_failure :: "'w engine \<Rightarrow> 'w exec_state \<Rightarrow> 'w exec_state" where
  "note_failure en s = s\<lparr>ex_breaker := record_failure (en_clock en (ex_world s)) (ex_breaker s)\<rparr>"

definition note_success :: "'w exec_state \<Rightarrow> 'w exec_state" where
  "note_success s = s\<lparr>ex_breaker := record_success (ex_breaker s)\<rparr>"

definition set_var :: "string \<Rightarrow> pyval \<Rightarrow> 'w exec_state \<Rightarrow> 'w exec_state" where
  "set_var k v s = s\<lparr>ex_heap := vars_set k v (ex_vars s) (ex_heap s)\<rparr>"

definition merge_vars :: "vars \<Rightarrow> 'w exec_state \<Rightarrow> 'w exec_state" where
  "merge_vars d s = s\<lparr>ex_heap := vars_update d (ex_vars s) (ex_heap s)\<rparr>"

text \<open>\<open>if output_var: self.workflow_vars[output_var] = v\<close>.\<close>

definition set_output :: "dag_info \<Rightarrow> pyval \<Rightarrow> 'w exec_state \<Rightarrow> 'w exec_state" where
  "set_output i v s =
     (case dn_output_var i of None \<Rightarrow> s | Some k \<Rightarrow> if k = [] then s else set_var k v s)"

definition cur_vars :: "'w exec_state \<Rightarrow> vars" where
  "cur_vars s = view (ex_heap s) (ex_vars s)"

section \<open>Python helpers\<close>

definition get_default :: "vars \<Rightarrow> string \<Rightarrow> pyval \<Rightarrow> pyval" where
  "get_default d k v = (case map_of d k of None \<Rightarrow> v | Some x \<Rightarrow> x)"

definition py_or :: "pyval \<Rightarrow> pyval \<Rightarrow> pyval" where
  "py_or a b = (if py_truthy a then a else b)"

text \<open>\<open>workflow_vars.get(k, execution_context.get(k))\<close>; None where \<open>k\<close> is not hashable.\<close>

definition lookup_var :: "vars \<Rightarrow> vars \<Rightarrow> pyval \<Rightarrow> pyval option" where
  "lookup_var vs ctx k =
     (case k of
        PStr s \<Rightarrow> Some (get_default vs s (get_none ctx s))
      | PList _ \<Rightarrow> None
      | PDict _ \<Rightarrow> None
      | _ \<Rightarrow> Some PNone)"

text \<open>\<open>float(v)\<close> of a finite value; None where it raises. Reading a string is a parameter.\<close>

fun py_float :: "(string \<Rightarrow> rat option) \<Rightarrow> pyval \<Rightarrow> rat option" where
  "py_float f (PStr s) = f s"
| "py_float f v = py_num v"

section \<open>Variable injection\<close>

text \<open>What comes before the first \<open>}}\<close> and after it, unless a line break comes first.\<close>

fun split_close :: "string \<Rightarrow> (string \<times> string) option" where
  "split_close [] = None"
| "split_close (c # cs) =
     (if c = CHR ''}'' \<and> (case cs of d # _ \<Rightarrow> d = CHR ''}'' | [] \<Rightarrow> False) then Some ([], tl cs)
      else if c = CHR 0x0A then None
      else map_option (\<lambda>(a, b). (c # a, b)) (split_close cs))"

lemma split_close_length: "split_close s = Some (a, b) \<Longrightarrow> length b < length s"
  by (induction s arbitrary: a) (fastforce split: if_splits list.splits)+

text \<open>\<open>re.sub(r"\{\{(.*?)\}\}", replace_var, v)\<close>; \<open>value\<close> gives the text of a name.\<close>

function inject :: "(string \<Rightarrow> string) \<Rightarrow> string \<Rightarrow> string" where
  "inject value [] = []"
| "inject value (c # cs) =
     (if c = CHR ''{'' \<and> (case cs of d # _ \<Rightarrow> d = CHR ''{'' | [] \<Rightarrow> False)
      then (case split_close (tl cs) of
              Some (name, rest) \<Rightarrow> value name @ inject value rest
            | None \<Rightarrow> c # inject value cs)
      else c # inject value cs)"
  by pat_completeness auto

termination
  by (relation "measure (\<lambda>(_, s). length s)") (auto dest!: split_close_length)

definition var_text :: "'w engine \<Rightarrow> vars \<Rightarrow> vars \<Rightarrow> string \<Rightarrow> string" where
  "var_text en ctx vs name =
     py_str (en_repr en) (get_default ctx name (get_default vs name (PStr (''{{'' @ name @ ''}}''))))"

text \<open>
  The first loop of \<open>_execute_node_inner\<close>. The second, over \<open>vault://\<close> references, changes nothing:
  it builds the organization context from two of its six fields, which raises, and the handler
  keeps the reference.
\<close>

definition injected :: "'w engine \<Rightarrow> vars \<Rightarrow> vars \<Rightarrow> vars \<Rightarrow> vars" where
  "injected en ctx vs params =
     map (\<lambda>(k, v). (k, case v of PStr t \<Rightarrow> PStr (inject (var_text en ctx vs) t) | _ \<Rightarrow> v)) params"

section \<open>Edge conditions\<close>

definition compare_floats :: "'w engine \<Rightarrow> (rat \<Rightarrow> rat \<Rightarrow> bool) \<Rightarrow> pyval \<Rightarrow> pyval \<Rightarrow> bool" where
  "compare_floats en rel a b =
     (case (py_float (en_float en) a, py_float (en_float en) b) of (Some x, Some y) \<Rightarrow> rel x y | _ \<Rightarrow> False)"

definition evaluate_condition :: "'w engine \<Rightarrow> pyval \<Rightarrow> vars \<Rightarrow> vars \<Rightarrow> bool option" where
  "evaluate_condition en cond ctx vs =
     (case cond of
        PDict d \<Rightarrow>
          let var_name = get_none d ''var''; expected = get_none d ''val''; op = get_default d ''op'' (PStr ''eq'');
              str = py_str (en_repr en)
          in if var_name = PNone then Some True
             else (case lookup_var vs ctx var_name of
                     None \<Rightarrow> None
                   | Some actual \<Rightarrow>
                       Some (if op = PStr ''eq'' then str actual = str expected
                             else if op = PStr ''ne'' then str actual \<noteq> str expected
                             else if op = PStr ''in'' then
                               PStr (str actual) \<in> set (case expected of PList xs \<Rightarrow> xs | x \<Rightarrow> [x])
                             else if op = PStr ''gt'' then compare_floats en (>) actual expected
                             else if op = PStr ''lt'' then compare_floats en (<) actual expected
                             else str actual = str expected))
      | _ \<Rightarrow> Some True)"

text \<open>\<open>evaluate_branch\<close>: the node whose condition holds, else the first; None where it raises.\<close>

fun first_match :: "'w engine \<Rightarrow> vars \<Rightarrow> uuid option \<Rightarrow> dag_node list \<Rightarrow> uuid option option" where
  "first_match en vs dflt [] = Some dflt"
| "first_match en vs dflt (DagNode i ts # ns) =
     (case dn_condition i of
        Some (PDict d) \<Rightarrow>
          if d = [] then first_match en vs dflt ns
          else (case get_none d ''var'' of
             PStr k \<Rightarrow>
               (case map_of vs k of
                  Some x \<Rightarrow> if py_str (en_repr en) x = py_str (en_repr en) (get_none d ''val'')
                            then Some (Some (dn_id i)) else first_match en vs dflt ns
                | None \<Rightarrow> first_match en vs dflt ns)
           | PList _ \<Rightarrow> None
           | PDict _ \<Rightarrow> None
           | _ \<Rightarrow> first_match en vs dflt ns)
      | _ \<Rightarrow> first_match en vs dflt ns)"

definition evaluate_branch :: "'w engine \<Rightarrow> dag_node list \<Rightarrow> vars \<Rightarrow> uuid option option" where
  "evaluate_branch en ns vs =
     (case ns of
        [] \<Rightarrow> Some None
      | [n] \<Rightarrow> Some (Some (dn_id (node_info n)))
      | n # _ \<Rightarrow> first_match en vs (Some (dn_id (node_info n))) ns)"

text \<open>The children whose condition holds; a child without the key \<open>condition\<close> always does.\<close>

fun valid_next :: "'w engine \<Rightarrow> vars \<Rightarrow> vars \<Rightarrow> dag_node list \<Rightarrow> dag_node list option" where
  "valid_next en ctx vs [] = Some []"
| "valid_next en ctx vs (n # ns) =
     (case (case dn_condition (node_info n) of None \<Rightarrow> Some True | Some c \<Rightarrow> evaluate_condition en c ctx vs) of
        None \<Rightarrow> None
      | Some taken \<Rightarrow>
          map_option (\<lambda>ms. if taken then n # ms else ms) (valid_next en ctx vs ns))"

section \<open>Actions\<close>

text \<open>
  What the branch of an action does: it falls through to the children, returns from the node,
  or raises.
\<close>

datatype outcome = Proceed | Finish bool | Raises

type_synonym 'w action = "'w exec_state \<Rightarrow> outcome \<times> 'w exec_state"

text \<open>\<open>self.circuit_breaker.record_failure(); return False\<close>, and its successful counterpart.\<close>

definition failed :: "'w engine \<Rightarrow> 'w action" where
  "failed en s = (Finish False, note_failure en s)"

definition succeeded :: "'w action" where
  "succeeded s = (Proceed, note_success s)"

text \<open>Code of the form \<open>await page.f(..)\<close>, outside any handler.\<close>

definition perform :: "'w engine \<Rightarrow> ext_request \<Rightarrow> 'w action" where
  "perform en req s = (case ask en req s of (None, s') \<Rightarrow> (Raises, s') | (Some _, s') \<Rightarrow> (Proceed, s'))"

definition act_compute :: "'w engine \<Rightarrow> dag_info \<Rightarrow> vars \<Rightarrow> 'w action" where
  "act_compute en i ps s =
     (case py_int_of (get_default ps ''timeout'' (PInt 30)) of
        None \<Rightarrow> (Raises, s)
      | Some timeout \<Rightarrow>
          let plugin = get_default ps ''plugin_name'' (PStr (dn_intent i));
              runtime = get_default ps ''runtime'' (PStr ''python'');
              source = get_default ps ''source_code'' (get_default ps ''code'' (PStr []))
          in if \<not> py_truthy source then failed en s
             else (case ask en (Compute plugin runtime source ps (cur_vars s) timeout) s of
                     (Some (PDict r), s') \<Rightarrow>
                       (case map_of r ''success'' of
                          None \<Rightarrow> failed en s'
                        | Some ok \<Rightarrow>
                            if py_truthy ok then
                              let s1 = note_success s';
                                  s2 = set_output i (py_or (get_none r ''result'') (get_default r ''stdout'' (PStr []))) s1;
                                  s3 = (case get_none r ''result'' of PDict d \<Rightarrow> merge_vars d s2 | _ \<Rightarrow> s2)
                              in (Proceed, s3)
                            else failed en s')
                   | (_, s') \<Rightarrow> failed en s'))"

definition act_script :: "'w engine \<Rightarrow> dag_info \<Rightarrow> vars \<Rightarrow> vars \<Rightarrow> 'w action" where
  "act_script en i ctx ps s =
     (let script_ref = get_default ps ''script_ref'' (PStr [])
      in if \<not> py_truthy script_ref then failed en s
         else (case get_default ps ''context'' (PDict []) of
                 PDict extra \<Rightarrow>
                   (case ask en (Script script_ref (dict_update extra (dict_update (cur_vars s) ctx))
                                   (py_or (get_none ctx ''proxy_url'') PNone)) s of
                      (Some (PDict r), s') \<Rightarrow>
                        if py_truthy (get_none r ''success'') then
                          let s1 = note_success s';
                              s2 = (case get_none r ''result'' of PDict d \<Rightarrow> merge_vars d s1 | _ \<Rightarrow> s1)
                          in (Proceed, set_output i (get_none r ''result'') s2)
                        else failed en s'
                    | (_, s') \<Rightarrow> failed en s')
               | _ \<Rightarrow> failed en s))"

definition act_delay :: "'w engine \<Rightarrow> vars \<Rightarrow> 'w action" where
  "act_delay en ps s =
     (case py_int_of (get_default ps ''ms'' (get_default ps ''timeout'' (PInt 1000))) of
        None \<Rightarrow> (Raises, s)
      | Some ms \<Rightarrow> perform en (Sleep (of_int ms / 1000)) s)"

text \<open>The request carries the method before \<open>upper()\<close>, which only a string has.\<close>

definition act_http :: "'w engine \<Rightarrow> dag_info \<Rightarrow> vars \<Rightarrow> 'w action" where
  "act_http en i ps s =
     (case get_default ps ''method'' (PStr ''GET'') of
        PStr m \<Rightarrow>
          (case ask en (Http (PStr m) (get_default ps ''url'' (PStr [])) (get_default ps ''headers'' (PDict []))
                          (py_or (get_none ps ''body'') (get_none ps ''json''))) s of
             (Some body, s') \<Rightarrow> succeeded (set_output i body s')
           | (None, s') \<Rightarrow> failed en s')
      | _ \<Rightarrow> failed en s)"

definition act_navigate :: "'w engine \<Rightarrow> vars \<Rightarrow> 'w action" where
  "act_navigate en ps s =
     (case map_of ps ''url'' of
        None \<Rightarrow> (Raises, s)
      | Some url \<Rightarrow>
          (case perform en (Goto url) s of
             (Proceed, s') \<Rightarrow> perform en Settle s'
           | r \<Rightarrow> r))"

definition act_wait :: "'w engine \<Rightarrow> vars \<Rightarrow> 'w action" where
  "act_wait en ps s =
     (case map_of ps ''selector'' of
        Some sel \<Rightarrow> perform en (WaitSelector sel) s
      | None \<Rightarrow> perform en (WaitTimeout (get_default ps ''timeout'' (PInt 2000))) s)"

definition assertion_holds :: "'w engine \<Rightarrow> pyval \<Rightarrow> pyval \<Rightarrow> pyval \<Rightarrow> bool" where
  "assertion_holds en op actual expected =
     (let str = py_str (en_repr en)
      in if op = PStr ''eq'' then str actual = str expected
         else if op = PStr ''ne'' then str actual \<noteq> str expected
         else if op = PStr ''contains'' then contains_str (str actual) (str expected)
         else if op = PStr ''not_empty'' then py_truthy actual
         else str actual = str expected)"

definition act_assertion :: "'w engine \<Rightarrow> vars \<Rightarrow> vars \<Rightarrow> 'w action" where
  "act_assertion en ctx ps s =
     (case lookup_var (cur_vars s) ctx (get_none ps ''var'') of
        None \<Rightarrow> (Raises, s)
      | Some actual \<Rightarrow>
          if assertion_holds en (get_default ps ''op'' (PStr ''eq'')) actual (get_none ps ''expected'')
          then (Proceed, s) else failed en s)"

text \<open>
  The loop that waits for the operator. Each round sleeps five seconds, so that
  \<open>timeout div 5 + 1\<close> rounds reach the deadline; running out of rounds is the timeout. The
  result is None where a call raises.
\<close>

fun pending_ids :: "pyval list \<Rightarrow> pyval list option" where
  "pending_ids [] = Some []"
| "pending_ids (PDict d # ns) = map_option (\<lambda>ids. get_none d ''id'' # ids) (pending_ids ns)"
| "pending_ids (_ # ns) = None"

fun await_human :: "'w engine \<Rightarrow> pyval \<Rightarrow> pyval \<Rightarrow> rat \<Rightarrow> nat \<Rightarrow> 'w exec_state \<Rightarrow> bool option \<times> 'w exec_state" where
  "await_human en url notice_id deadline 0 s = (Some False, s)"
| "await_human en url notice_id deadline (Suc n) s =
     (if en_clock en (ex_world s) \<ge> deadline then (Some False, s)
      else (case ask en (Sleep 5) s of
              (None, s') \<Rightarrow> (None, s')
            | (Some _, s') \<Rightarrow>
                (case ask en (HumanPending url) s' of
                   (Some (PDict r), s'') \<Rightarrow>
                     (case get_default r ''notices'' (PList []) of
                        PList ns \<Rightarrow>
                          (case pending_ids ns of
                             None \<Rightarrow> (None, s'')
                           | Some ids \<Rightarrow>
                               if py_in notice_id ids then await_human en url notice_id deadline n s''
                               else (Some True, s''))
                      | _ \<Rightarrow> (None, s''))
                 | (_, s'') \<Rightarrow> (None, s''))))"

definition act_human :: "'w engine \<Rightarrow> dag_info \<Rightarrow> vars \<Rightarrow> vars \<Rightarrow> 'w action" where
  "act_human en i ctx ps s =
     (case py_int_of (get_default ps ''timeout'' (PInt 300)) of
        None \<Rightarrow> (Raises, s)
      | Some timeout \<Rightarrow>
          let message = get_default ps ''message'' (PStr (''HITL required at node '' @ dn_intent i));
              worker_url = py_or (get_none ctx ''xiorun_url'') (get_default ctx ''worker_url'' (PStr []))
          in if \<not> py_truthy worker_url then (Finish False, s)
             else (case ask en (HumanNotice worker_url (get_default ctx ''session_id'' (PStr (en_run_id en))) message
                                  (get_default ps ''instructions'' (PStr ''Resolve via XIOVIEW and resume.''))) s of
                     (Some (PDict notice), s1) \<Rightarrow>
                       (let s2 = emit ''workflow.hitl.waiting'' i None s1;
                            notice_id = get_default notice ''id'' (PStr [])
                        in case await_human en worker_url notice_id (en_clock en (ex_world s2) + of_int timeout)
                                  (nat (timeout div 5) + 1) s2 of
                             (None, s3) \<Rightarrow> failed en s3
                           | (Some False, s3) \<Rightarrow> (Finish False, s3)
                           | (Some True, s3) \<Rightarrow>
                               (case get_none ps ''prompt_var'' of
                                  PStr k \<Rightarrow> (Proceed, if k = [] then s3 else set_var k (get_default notice ''response'' (PStr [])) s3)
                                | v \<Rightarrow> if py_truthy v then failed en s3 else (Proceed, s3)))
                   | (_, s1) \<Rightarrow> failed en s1))"

definition act_ssh :: "'w engine \<Rightarrow> dag_info \<Rightarrow> vars \<Rightarrow> 'w action" where
  "act_ssh en i ps s =
     (case py_int_of (get_default ps ''timeout'' (PInt 60)) of
        None \<Rightarrow> (Raises, s)
      | Some timeout \<Rightarrow>
          let host = get_default ps ''host'' (PStr []); command = get_default ps ''command'' (PStr [])
          in if \<not> py_truthy host \<or> \<not> py_truthy command then (Finish False, s)
             else (case ask en (Ssh (get_default ps ''user'' (PStr ''root'')) host command timeout) s of
                     (Some (PDict r), s') \<Rightarrow>
                       let s1 = set_output i (get_none r ''stdout'') s'
                       in if get_none r ''returncode'' \<noteq> PInt 0 then failed en s1 else succeeded s1
                   | (_, s') \<Rightarrow> failed en s'))"

definition act_llm :: "'w engine \<Rightarrow> dag_info \<Rightarrow> vars \<Rightarrow> 'w action" where
  "act_llm en i ps s =
     (let prompt = get_default ps ''prompt'' (PStr [])
      in if \<not> py_truthy prompt then (Finish False, s)
         else (case ask en (Llm prompt) s of
                 (Some (PDict r), s') \<Rightarrow>
                   if py_truthy (get_none r ''success'') then succeeded (set_output i (get_none r ''text'') s')
                   else (Finish False, s')
               | (_, s') \<Rightarrow> failed en s'))"

text \<open>\<open>for attempt in range(max_retries)\<close>; \<open>left\<close> attempts remain after \<open>tried\<close> of them.\<close>

fun fire :: "'w engine \<Rightarrow> dag_info \<Rightarrow> ext_request \<Rightarrow> nat \<Rightarrow> nat \<Rightarrow> 'w action" where
  "fire en i req tried 0 s = failed en s"
| "fire en i req tried (Suc left) s =
     (case ask en req s of
        (Some body, s') \<Rightarrow> (Proceed, set_output i body (note_success s'))
      | (None, s') \<Rightarrow>
          if left = 0 then failed en s'
          else (case ask en (Sleep (2 ^ tried)) s' of
                  (None, s'') \<Rightarrow> failed en s''
                | (Some _, s'') \<Rightarrow> fire en i req (Suc tried) left s''))"

definition act_webhook :: "'w engine \<Rightarrow> dag_info \<Rightarrow> vars \<Rightarrow> 'w action" where
  "act_webhook en i ps s =
     (case (get_default ps ''method'' (PStr ''POST''), py_int_of (get_default ps ''retries'' (PInt 3))) of
        (PStr m, Some retries) \<Rightarrow>
          fire en i (Http (PStr m) (get_default ps ''url'' (PStr []))
                       (get_default ps ''headers'' (PDict [(''Content-Type'', PStr ''application/json'')]))
                       (get_default ps ''payload'' (get_default ps ''body'' (PDict [])))) 0 (nat retries) s
      | _ \<Rightarrow> failed en s)"

subsection \<open>Actions on the page\<close>

text \<open>
  The inner loop over the nodes of a tier. The third component is whether one was acted on;
  None where an exception leaves.
\<close>

fun try_nodes :: "'w engine \<Rightarrow> dag_info \<Rightarrow> string \<Rightarrow> vars \<Rightarrow> pyval list \<Rightarrow> 'w exec_state \<Rightarrow> bool option \<times> 'w exec_state" where
  "try_nodes en i act ps [] s = (Some False, s)"
| "try_nodes en i act ps (PDict m # ms) s =
     (case ask en (Resolve (get_none m ''place_value'') (get_none m ''face_value'') act ps (get_none m ''locator_priority'')) s of
        (Some (PList [PBool True, winning_tier, locator]), s1) \<Rightarrow>
          (let s2 = note_success s1;
               old = (case get_none m ''locator_priority'' of PList ts \<Rightarrow> ts | _ \<Rightarrow> []);
               new_priority = winning_tier # filter (\<lambda>t. \<not> py_eq t winning_tier) old
           in case ask en (SetPriority (get_none m ''id'') new_priority) s2 of
                (None, s3) \<Rightarrow> (None, s3)
              | (Some _, s3) \<Rightarrow>
                  (case ask en (TouchUsed (get_none m ''id'')) s3 of
                     (None, s4) \<Rightarrow> (None, s4)
                   | (Some _, s4) \<Rightarrow>
                       if act = ''extract_data'' \<and> dn_output_var i \<notin> {None, Some []} then
                         (case ask en (TextOf locator) s4 of
                            (None, s5) \<Rightarrow> (Some True, s5)
                          | (Some text, s5) \<Rightarrow> (Some True, set_output i text s5))
                       else (Some True, s4)))
      | (Some (PList (PBool False # _)), s1) \<Rightarrow> try_nodes en i act ps ms s1
      | (_, s1) \<Rightarrow> (None, s1))"
| "try_nodes en i act ps (_ # ms) s = (None, s)"

text \<open>\<open>for tier in range(1, max_viewport_tier + 1)\<close>, from \<open>tier\<close> on.\<close>

fun try_tiers :: "'w engine \<Rightarrow> dag_info \<Rightarrow> string \<Rightarrow> vars \<Rightarrow> vars \<Rightarrow> nat \<Rightarrow> nat \<Rightarrow> 'w exec_state \<Rightarrow> bool option \<times> 'w exec_state" where
  "try_tiers en i act ctx ps tier 0 s = (Some False, s)"
| "try_tiers en i act ctx ps tier (Suc left) s =
     (case ask en (QueryTier (dn_intent i) ctx tier) s of
        (Some (PList ms), s1) \<Rightarrow>
          (case try_nodes en i act ps ms s1 of
             (Some False, s2) \<Rightarrow> try_tiers en i act ctx ps (Suc tier) left s2
           | r \<Rightarrow> r)
      | (_, s1) \<Rightarrow> (None, s1))"

text \<open>The healer: whatever raises is logged and the element stays unhandled.\<close>

definition try_healer :: "'w engine \<Rightarrow> dag_info \<Rightarrow> string \<Rightarrow> vars \<Rightarrow> 'w exec_state \<Rightarrow> bool \<times> 'w exec_state" where
  "try_healer en i act ps s =
     (case ask en (Heal (dn_intent i)) s of
        (Some (PDict healed), s1) \<Rightarrow>
          if py_truthy (get_none healed ''selector'') \<and> py_num (get_default healed ''confidence'' (PInt 0)) \<noteq> None then
            (case ask en (HealedAction act (get_none healed ''selector'')
                            (get_default healed ''selector_type'' (PStr ''css'') = PStr ''xpath'')
                            (get_default ps ''text'' (PStr []))) s1 of
               (None, s2) \<Rightarrow> (False, s2)
             | (Some text, s2) \<Rightarrow>
                 (True, emit ''node.healed'' i None
                          (note_success (if act = ''extract_data'' then set_output i text s2 else s2))))
          else (False, s1)
      | (_, s1) \<Rightarrow> (False, s1))"

definition try_fallback :: "'w engine \<Rightarrow> dag_info \<Rightarrow> string \<Rightarrow> vars \<Rightarrow> 'w exec_state \<Rightarrow> bool \<times> 'w exec_state" where
  "try_fallback en i act ps s =
     (case dn_fallback_plugin i of
        None \<Rightarrow> (False, s)
      | Some plugin \<Rightarrow>
          if plugin = [] then (False, s)
          else (case ask en PageContent s of
                  (html, s1) \<Rightarrow>
                    (case ask en (Fallback plugin ps (dn_intent i) act (case html of None \<Rightarrow> PStr [] | Some h \<Rightarrow> h)) s1 of
                       (Some (PDict r), s2) \<Rightarrow>
                         if py_truthy (get_none r ''success'')
                         then (True, emit ''node.plugin_recovered'' i None (note_success s2))
                         else (False, s2)
                     | (_, s2) \<Rightarrow> (False, s2))))"

definition act_page :: "'w engine \<Rightarrow> dag_info \<Rightarrow> vars \<Rightarrow> vars \<Rightarrow> 'w action" where
  "act_page en i ctx ps s =
     (let act = (if dn_action_type i = ''type'' then ''fill'' else dn_action_type i)
      in case try_tiers en i act ctx ps 1 (en_max_viewport_tier en) s of
           (None, s1) \<Rightarrow> (Raises, s1)
         | (Some True, s1) \<Rightarrow> (Proceed, s1)
         | (Some False, s1) \<Rightarrow>
             (case try_healer en i act ps s1 of
                (True, s2) \<Rightarrow> (Proceed, s2)
              | (False, s2) \<Rightarrow>
                  (case try_fallback en i act ps s2 of
                     (True, s3) \<Rightarrow> (Proceed, s3)
                   | (False, s3) \<Rightarrow>
                       if dn_volatility_type i = ''bubble'' then (Proceed, s3) else failed en s3)))"

text \<open>
  The dispatch on \<open>action_type\<close>, \<open>trigger_sub_workflow\<close> apart. The last case is every other type,
  among them \<open>press\<close>, \<open>hover\<close>, \<open>select_option\<close>, \<open>check\<close> and \<open>uncheck\<close>: no branch is written for them.
\<close>

definition run_action :: "'w engine \<Rightarrow> dag_info \<Rightarrow> vars \<Rightarrow> vars \<Rightarrow> 'w action" where
  "run_action en i ctx ps s =
     (let t = dn_action_type i
      in if t = ''compute_node'' then act_compute en i ps s
         else if t = ''conditional'' then (Proceed, s)
         else if t = ''done'' then (Finish True, s)
         else if t = ''script'' then act_script en i ctx ps s
         else if t = ''delay'' then act_delay en ps s
         else if t = ''http_request'' then act_http en i ps s
         else if t = ''navigate'' then act_navigate en ps s
         else if t = ''scroll_down'' then perform en ScrollDown s
         else if t = ''wait'' then act_wait en ps s
         else if t = ''assertion'' then act_assertion en ctx ps s
         else if t = ''human_input'' then act_human en i ctx ps s
         else if t = ''ssh_command'' then act_ssh en i ps s
         else if t = ''llm_prompt'' then act_llm en i ps s
         else if t = ''webhook_fire'' then act_webhook en i ps s
         else if t \<in> set [''click'', ''type'', ''fill'', ''extract_data''] then act_page en i ctx ps s
         else (Proceed, s))"

section \<open>The walk\<close>

text \<open>The events of \<open>_execute_node\<close>; the closing one is emitted whatever happens, exceptions included.\<close>

definition started :: "dag_info \<Rightarrow> nat \<Rightarrow> 'w exec_state \<Rightarrow> 'w exec_state" where
  "started i depth s = emit ''workflow.action.started'' i (Some depth) s"

definition closed :: "dag_info \<Rightarrow> bool option \<times> 'w exec_state \<Rightarrow> bool option \<times> 'w exec_state" where
  "closed i r =
     (fst r, emit (if fst r = Some True then ''workflow.action.completed'' else ''workflow.action.failed'') i None (snd r))"

definition enter_branch :: "var_ref \<Rightarrow> 'w exec_state \<Rightarrow> 'w exec_state" where
  "enter_branch r s = s\<lparr>ex_vars := r\<rparr>"

text \<open>
  \<open>_execute_node\<close> with \<open>_execute_node_inner\<close>, over \<open>left\<close> = \<open>max_execution_depth - depth\<close>; the children of
  a sequential node stop at the first that does not succeed; those of a parallel one all run,
  on branches forked before the first and merged after the last, here in the schedule that
  ends each branch before the next.
\<close>

function (sequential) exec_node ::
    "'w engine \<Rightarrow> vars \<Rightarrow> nat \<Rightarrow> nat \<Rightarrow> uuid set \<Rightarrow> dag_node \<Rightarrow> 'w exec_state \<Rightarrow> bool option \<times> 'w exec_state"
  and exec_inner ::
    "'w engine \<Rightarrow> vars \<Rightarrow> nat \<Rightarrow> nat \<Rightarrow> uuid set \<Rightarrow> dag_node \<Rightarrow> 'w exec_state \<Rightarrow> bool option \<times> 'w exec_state"
  and exec_action ::
    "'w engine \<Rightarrow> vars \<Rightarrow> nat \<Rightarrow> nat \<Rightarrow> dag_info \<Rightarrow> 'w exec_state \<Rightarrow> outcome \<times> 'w exec_state"
  and exec_children ::
    "'w engine \<Rightarrow> vars \<Rightarrow> nat \<Rightarrow> nat \<Rightarrow> uuid set \<Rightarrow> dag_info \<Rightarrow> dag_node list \<Rightarrow> 'w exec_state \<Rightarrow> bool option \<times> 'w exec_state"
  and exec_sequential ::
    "'w engine \<Rightarrow> vars \<Rightarrow> nat \<Rightarrow> nat \<Rightarrow> uuid set \<Rightarrow> dag_node list \<Rightarrow> 'w exec_state \<Rightarrow> bool option \<times> 'w exec_state"
  and exec_parallel ::
    "'w engine \<Rightarrow> vars \<Rightarrow> nat \<Rightarrow> nat \<Rightarrow> uuid set \<Rightarrow> (dag_node \<times> var_ref) list \<Rightarrow> 'w exec_state \<Rightarrow> bool option \<times> 'w exec_state" where
  "exec_node en ctx 0 depth visited t s = (Some False, s)"
| "exec_node en ctx (Suc n) depth visited (DagNode i ts) s =
     (if dn_id i \<in> visited then (Some False, s)
      else (case allow_request (en_clock en (ex_world s)) (ex_breaker s) of
              (False, cb) \<Rightarrow> (Some False, s\<lparr>ex_breaker := cb\<rparr>)
            | (True, cb) \<Rightarrow>
                closed i (exec_inner en ctx n depth (insert (dn_id i) visited) (DagNode i ts)
                            (started i depth (s\<lparr>ex_breaker := cb\<rparr>)))))"
| "exec_inner en ctx n depth visited (DagNode i ts) s =
     (case exec_action en ctx n depth i s of
        (Raises, s') \<Rightarrow> (None, s')
      | (Finish b, s') \<Rightarrow> (Some b, s')
      | (Proceed, s') \<Rightarrow> exec_children en ctx n depth visited i ts s')"
| "exec_action en ctx n depth i s =
     (let ps = injected en ctx (cur_vars s) (dn_action_params i)
      in if dn_action_type i = ''trigger_sub_workflow'' then
           (case get_none ps ''target_intent'' of
              PStr target \<Rightarrow>
                if target = [] then failed en s
                else (case en_fetch en target ctx (ex_world s) of
                        (Some (Some sub_root), w) \<Rightarrow>
                          (case exec_node en ctx n (Suc depth) {} sub_root (s\<lparr>ex_world := w\<rparr>) of
                             (Some True, s') \<Rightarrow> succeeded s'
                           | (_, s') \<Rightarrow> failed en s')
                      | (_, w) \<Rightarrow> failed en (s\<lparr>ex_world := w\<rparr>))
            | _ \<Rightarrow> failed en s)
         else run_action en i ctx ps s)"
| "exec_children en ctx n depth visited i ts s =
     (if ts = [] then (Some True, s)
      else (case valid_next en ctx (cur_vars s) ts of
              None \<Rightarrow> (None, s)
            | Some ns \<Rightarrow>
                if dn_execution_mode i = ''sequential'' then
                  exec_sequential en ctx n (Suc depth) visited ns s
                else if dn_execution_mode i = ''parallel'' then
                  (case branch_list (length ns) (ex_vars s) (ex_heap s) of
                     (bs, h) \<Rightarrow>
                       (case exec_parallel en ctx n (Suc depth) visited (zip ns bs) (s\<lparr>ex_heap := h\<rparr>) of
                          (None, s') \<Rightarrow> (None, s')
                        | (Some ok, s') \<Rightarrow>
                            (Some ok, s'\<lparr>ex_heap := merge_branch_results (ex_vars s') bs (ex_heap s')\<rparr>)))
                else (Some True, s)))"
| "exec_sequential en ctx n depth visited [] s = (Some True, s)"
| "exec_sequential en ctx n depth visited (t # ts) s =
     (case exec_node en ctx n depth visited t s of
        (Some True, s') \<Rightarrow> exec_sequential en ctx n depth visited ts s'
      | r \<Rightarrow> r)"
| "exec_parallel en ctx n depth visited [] s = (Some True, s)"
| "exec_parallel en ctx n depth visited ((t, b) # ts) s =
     (case exec_node en ctx n depth visited t (enter_branch b s) of
        (None, s') \<Rightarrow> (None, enter_branch (ex_vars s) s')
      | (Some ok, s') \<Rightarrow>
          (case exec_parallel en ctx n depth visited ts (enter_branch (ex_vars s) s') of
             (None, s'') \<Rightarrow> (None, s'')
           | (Some oks, s'') \<Rightarrow> (Some (ok \<and> oks), s'')))"
  by pat_completeness auto

termination
  by (relation "measures
       [\<lambda>x. case x of Inl (Inl (_, _, n, _)) \<Rightarrow> n | Inl (Inr (Inl (_, _, n, _))) \<Rightarrow> n
              | Inl (Inr (Inr (_, _, n, _))) \<Rightarrow> n | Inr (Inl (_, _, n, _)) \<Rightarrow> n
              | Inr (Inr (Inl (_, _, n, _))) \<Rightarrow> n | Inr (Inr (Inr (_, _, n, _))) \<Rightarrow> n,
        \<lambda>x. case x of Inl (Inl _) \<Rightarrow> 0 | Inl (Inr (Inl _)) \<Rightarrow> 3 | Inl (Inr (Inr _)) \<Rightarrow> 2 | Inr (Inl _) \<Rightarrow> 2
              | Inr (Inr _) \<Rightarrow> (1 :: nat),
        \<lambda>x. case x of Inl _ \<Rightarrow> 0 | Inr (Inl _) \<Rightarrow> 0
              | Inr (Inr (Inl (_, _, _, _, _, ts, _))) \<Rightarrow> length ts
              | Inr (Inr (Inr (_, _, _, _, _, ts, _))) \<Rightarrow> length ts]") auto

text \<open>\<open>execute_workflow\<close>: the page's domain and the context hash are part of the fetch.\<close>

definition execute_workflow ::
    "'w engine \<Rightarrow> nat \<Rightarrow> string \<Rightarrow> vars \<Rightarrow> vars \<Rightarrow> 'w exec_state \<Rightarrow> bool option \<times> 'w exec_state" where
  "execute_workflow en max_execution_depth intent context0 execution_context s =
     (case en_fetch en intent context0 (ex_world s) of
        (None, w) \<Rightarrow> (None, s\<lparr>ex_world := w\<rparr>)
      | (Some None, w) \<Rightarrow> (Some False, s\<lparr>ex_world := w\<rparr>)
      | (Some (Some root_node), w) \<Rightarrow>
          exec_node en execution_context max_execution_depth 0 {} root_node (s\<lparr>ex_world := w\<rparr>))"

end
