(* ===== verification/Execution.thy ===== *)
theory Execution
  imports Executor
begin

text \<open>
  What a walk of the executor leaves behind: its events are well bracketed whatever raises, no
  node runs deeper than the bound, the nodes it starts are those of the tree in preorder, and a
  walk that succeeds has started every one of them. The lemmas \<open>exec_walks\<close> and \<open>exec_order\<close> are
  of the schedule that runs branches one after the other; the properties are of the workflows
  that have no other, \<open>serial\<close>: their parallel nodes have at most one child.
\<close>

declare exec_action.simps [simp del] exec_children.simps [simp del]

section \<open>What an action may touch\<close>

definition closing_types :: "string list" where
  "closing_types = [''workflow.action.completed'', ''workflow.action.failed'']"

definition is_start :: "action_event \<Rightarrow> bool" where
  "is_start e \<longleftrightarrow> ae_type e = ''workflow.action.started''"

definition is_close :: "action_event \<Rightarrow> bool" where
  "is_close e \<longleftrightarrow> ae_type e \<in> set closing_types"

definition is_note :: "action_event \<Rightarrow> bool" where
  "is_note e \<longleftrightarrow> \<not> is_start e \<and> \<not> is_close e"

text \<open>The state goes on to another one by an action: it emits notes only and keeps the variables' object.\<close>

definition acts :: "'w exec_state \<Rightarrow> 'w exec_state \<Rightarrow> bool" where
  "acts s s' \<longleftrightarrow> ex_vars s' = ex_vars s \<and> (\<exists>es. ex_events s' = ex_events s @ es \<and> list_all is_note es)"

lemma acts_refl [simp]: "acts s s"
  by (simp add: acts_def)

lemma acts_trans: "acts s t \<Longrightarrow> acts t u \<Longrightarrow> acts s u"
  by (fastforce simp: acts_def)

lemma acts_ask: "ask en req s = (r, s') \<Longrightarrow> acts s s'"
  by (auto simp: ask_def acts_def split: prod.splits)

lemma acts_simps [simp]:
  "acts s (note_success t) = acts s t"
  "acts s (note_failure en t) = acts s t"
  "acts s (set_var k v t) = acts s t"
  "acts s (merge_vars d t) = acts s t"
  "acts s (t\<lparr>ex_world := w\<rparr>) = acts s t"
  "acts s (t\<lparr>ex_breaker := cb\<rparr>) = acts s t"
  by (simp_all add: acts_def note_success_def note_failure_def set_var_def merge_vars_def)

lemma acts_set_output [simp]: "acts s (set_output i v t) = acts s t"
  by (simp add: set_output_def split: option.split)

lemma acts_emit: "acts s t \<Longrightarrow> ty \<noteq> ''workflow.action.started'' \<Longrightarrow> ty \<notin> set closing_types \<Longrightarrow> acts s (emit ty i d t)"
  by (auto simp: acts_def emit_def is_note_def is_start_def is_close_def)

lemma acts_notes [simp]:
  "acts s t \<Longrightarrow> acts s (emit ''workflow.hitl.waiting'' i d t)"
  "acts s t \<Longrightarrow> acts s (emit ''node.healed'' i d t)"
  "acts s t \<Longrightarrow> acts s (emit ''node.plugin_recovered'' i d t)"
  by (auto intro!: acts_emit simp: closing_types_def)

lemma acts_bind:
  assumes "acts s s0" and "\<And>r t. acts s t \<Longrightarrow> acts s (snd (f r t))"
  shows "acts s (snd (case ask en req s0 of (r, t) \<Rightarrow> f r t))"
proof -
  obtain r t where rt: "ask en req s0 = (r, t)" by fastforce
  with assms acts_trans acts_ask show ?thesis by (metis case_prod_conv)
qed

lemma acts_bind':
  assumes "acts s s0" and "acts s0 (snd (g s0))" and "\<And>r t. acts s t \<Longrightarrow> acts s (snd (f r t))"
  shows "acts s (snd (case g s0 of (r, t) \<Rightarrow> f r t))"
  using assms acts_trans by (metis case_prod_beta)

lemma acts_perform: "acts s (snd (perform en req s))"
  by (auto simp: perform_def split: prod.splits option.splits dest: acts_ask)

lemma acts_await: "acts s (snd (await_human en url nid deadline n s))"
proof (induction n arbitrary: s)
  case (Suc n)
  show ?case
    using Suc.IH by (auto split: prod.splits option.splits pyval.splits dest!: acts_ask intro: acts_trans)
qed simp

lemma acts_fire: "acts s (snd (fire en i req k n s))"
proof (induction n arbitrary: s k)
  case (Suc n)
  show ?case
    using Suc.IH by (auto simp: failed_def split: prod.splits option.splits dest!: acts_ask intro: acts_trans)
qed (simp add: failed_def)

lemma acts_try_nodes: "acts s (snd (try_nodes en i act ps ms s))"
proof (induction ms arbitrary: s)
  case (Cons m ms)
  show ?case
  proof (cases m)
    case (PDict d)
    show ?thesis
      unfolding PDict try_nodes.simps Let_def
      by (rule acts_bind)
        (auto split: option.split pyval.split list.split bool.split if_split intro!: acts_bind intro: acts_trans [OF _ Cons.IH])
  qed simp_all
qed simp

lemma acts_try_tiers: "acts s (snd (try_tiers en i act ctx ps k n s))"
proof (induction n arbitrary: s k)
  case (Suc n)
  have nodes: "acts s t" if "try_nodes en i act ps ms s = (r, t)" for ms r s t
    using acts_try_nodes [of s en i act ps ms] that by simp
  show ?case
    using Suc.IH by (auto split: prod.splits option.splits pyval.splits bool.splits dest!: acts_ask nodes intro: acts_trans)
qed simp

lemma acts_healer: "acts s (snd (try_healer en i act ps s))"
  by (auto simp: try_healer_def split: option.split pyval.split intro!: acts_bind)

lemma acts_fallback: "acts s (snd (try_fallback en i act ps s))"
  by (auto simp: try_fallback_def split: option.split pyval.split intro!: acts_bind)

lemma acts_page: "acts s (snd (act_page en i ctx ps s))"
  unfolding act_page_def Let_def
  by (auto simp: failed_def simp del: try_tiers.simps split: option.split bool.split
      intro!: acts_bind' [OF _ acts_try_tiers] acts_bind' [OF _ acts_healer] acts_bind' [OF _ acts_fallback])

lemma acts_human: "acts s (snd (act_human en i ctx ps s))"
  unfolding act_human_def Let_def
  by (auto simp: failed_def simp del: await_human.simps split: option.split pyval.split bool.split if_split
      intro!: acts_bind acts_bind' [OF _ acts_await])

lemma acts_simple:
  "acts s (snd (act_compute en i ps s))"
  "acts s (snd (act_script en i ctx ps s))"
  "acts s (snd (act_http en i ps s))"
  "acts s (snd (act_ssh en i ps s))"
  "acts s (snd (act_llm en i ps s))"
  by (auto simp: act_compute_def act_script_def act_http_def act_ssh_def act_llm_def failed_def succeeded_def Let_def
      split: option.split pyval.split intro!: acts_bind)

lemma acts_others:
  "acts s (snd (act_delay en ps s))"
  "acts s (snd (act_wait en ps s))"
  "acts s (snd (act_assertion en ctx ps s))"
  "acts s (snd (act_webhook en i ps s))"
  using acts_perform acts_fire
  by (auto simp: act_delay_def act_wait_def act_assertion_def act_webhook_def failed_def split: prod.splits option.splits pyval.splits)

lemma acts_navigate: "acts s (snd (act_navigate en ps s))"
proof -
  have p: "acts s t" if "perform en req s = (r, t)" for req r s t
    using acts_perform [of s en req] that by simp
  show ?thesis
    by (auto simp: act_navigate_def split: prod.splits option.splits outcome.splits dest!: p intro: acts_trans acts_perform)
qed

lemma acts_run_action: "acts s (snd (run_action en i ctx ps s))"
  unfolding run_action_def Let_def
  by (simp add: acts_simple acts_others acts_navigate acts_human acts_page acts_perform del: insert_iff)

section \<open>Bracketing and depth\<close>

text \<open>Starts and ends match like parentheses, each pair of the same node, with notes in between.\<close>

inductive bracketed :: "action_event list \<Rightarrow> bool" where
  nil: "bracketed []"
| annotated: "is_note e \<Longrightarrow> bracketed es \<Longrightarrow> bracketed (e # es)"
| node: "is_start e \<Longrightarrow> bracketed es \<Longrightarrow> is_close c \<Longrightarrow> ae_node c = ae_node e \<Longrightarrow> bracketed rest \<Longrightarrow>
     bracketed (e # es @ c # rest)"

lemma bracketed_append: "bracketed xs \<Longrightarrow> bracketed ys \<Longrightarrow> bracketed (xs @ ys)"
proof (induction rule: bracketed.induct)
  case (node e es c rest)
  then show ?case using bracketed.node [of e es c "rest @ ys"] by simp
qed (auto intro: bracketed.intros)

lemma bracketed_notes: "list_all is_note es \<Longrightarrow> bracketed es"
  by (induction es) (auto intro: bracketed.intros)

definition depths_within :: "nat \<Rightarrow> nat \<Rightarrow> action_event list \<Rightarrow> bool" where
  "depths_within lo hi es \<longleftrightarrow> (\<forall>e \<in> set es. is_start e \<longrightarrow> (\<exists>d. ae_depth e = Some d \<and> lo \<le> d \<and> d < hi))"

text \<open>A stretch of a walk: it keeps the variables' object and appends bracketed events of these depths.\<close>

definition walks :: "nat \<Rightarrow> nat \<Rightarrow> 'w exec_state \<Rightarrow> 'w exec_state \<Rightarrow> bool" where
  "walks lo hi s s' \<longleftrightarrow> ex_vars s' = ex_vars s \<and>
     (\<exists>es. ex_events s' = ex_events s @ es \<and> bracketed es \<and> depths_within lo hi es)"

lemma walks_refl [simp]: "walks lo hi s s"
  by (simp add: walks_def bracketed.nil depths_within_def)

lemma walks_trans: "walks lo hi s t \<Longrightarrow> walks lo hi t u \<Longrightarrow> walks lo hi s u"
  unfolding walks_def depths_within_def by (fastforce intro: bracketed_append)

lemma acts_walks: "acts s t \<Longrightarrow> walks lo hi s t"
  unfolding acts_def walks_def depths_within_def
  by (fastforce intro: bracketed_notes simp: is_note_def list_all_iff)

lemma walks_mono: "walks lo hi s t \<Longrightarrow> lo' \<le> lo \<Longrightarrow> walks lo' hi s t"
  unfolding walks_def depths_within_def by (meson order_trans)

lemma walks_same:
  assumes "ex_events s = ex_events s0" and "ex_vars s = ex_vars s0" and "ex_events t = ex_events t0" and "ex_vars t = ex_vars t0"
  shows "walks lo hi s t = walks lo hi s0 t0"
  using assms by (simp add: walks_def)

lemma walks_simps [simp]:
  "walks lo hi s (note_success t) = walks lo hi s t"
  "walks lo hi s (note_failure en t) = walks lo hi s t"
  "walks lo hi s (t\<lparr>ex_world := w\<rparr>) = walks lo hi s t"
  "walks lo hi s (t\<lparr>ex_heap := h\<rparr>) = walks lo hi s t"
  "walks lo hi s (t\<lparr>ex_breaker := cb\<rparr>) = walks lo hi s t"
  "walks lo hi (s\<lparr>ex_world := w\<rparr>) t = walks lo hi s t"
  "walks lo hi (s\<lparr>ex_heap := h\<rparr>) t = walks lo hi s t"
  "walks lo hi (s\<lparr>ex_breaker := cb\<rparr>) t = walks lo hi s t"
  by (simp_all add: walks_def note_success_def note_failure_def)

lemma walks_branch: "walks lo hi (enter_branch b s) t \<Longrightarrow> walks lo hi s (enter_branch (ex_vars s) t)"
  by (simp add: walks_def enter_branch_def)

lemma walks_closed:
  assumes "walks (Suc depth) hi (started i depth s) (snd r)" and "depth < hi"
  shows "walks depth hi s (snd (closed i r))"
proof -
  define e where "e = \<lparr>ae_type = ''workflow.action.started'', ae_node = dn_id i, ae_intent = dn_intent i,
      ae_action = dn_action_type i, ae_depth = Some depth\<rparr>"
  define c where "c = \<lparr>ae_type = (if fst r = Some True then ''workflow.action.completed'' else ''workflow.action.failed''),
      ae_node = dn_id i, ae_intent = dn_intent i, ae_action = dn_action_type i, ae_depth = None :: nat option\<rparr>"
  from assms(1) obtain es where es: "ex_events (snd r) = (ex_events s @ [e]) @ es" "bracketed es" "depths_within (Suc depth) hi es"
    and vars: "ex_vars (snd r) = ex_vars s"
    by (auto simp: walks_def started_def emit_def e_def)
  have ec: "is_start e" "is_close c" "\<not> is_start c" "ae_node c = ae_node e" "ae_depth e = Some depth"
    by (auto simp: e_def c_def is_start_def is_close_def closing_types_def)
  have "bracketed (e # es @ c # [])" using ec es(2) by (intro bracketed.node bracketed.nil)
  moreover have "depths_within depth hi (e # es @ [c])"
    using es(3) ec assms(2) by (fastforce simp: depths_within_def)
  moreover have "ex_events (snd (closed i r)) = ex_events s @ (e # es @ [c])"
    using es(1) by (simp add: closed_def emit_def c_def)
  moreover have "ex_vars (snd (closed i r)) = ex_vars s" using vars by (simp add: closed_def emit_def)
  ultimately show ?thesis unfolding walks_def by blast
qed

lemma exec_walks:
  "walks depth (depth + n) s (snd (exec_node en ctx n depth visited t s))"
  "walks (Suc depth) (Suc depth + n) s (snd (exec_inner en ctx n depth visited t s))"
  "walks (Suc depth) (Suc depth + n) s (snd (exec_action en ctx n depth i s))"
  "walks (Suc depth) (Suc depth + n) s (snd (exec_children en ctx n depth visited i ts s))"
  "walks depth (depth + n) s (snd (exec_sequential en ctx n depth visited ts s))"
  "walks depth (depth + n) s (snd (exec_parallel en ctx n depth visited bs s))"
proof (induction en ctx n depth visited t s and en ctx n depth visited t s and en ctx n depth i s and
    en ctx n depth visited i ts s and en ctx n depth visited ts s and en ctx n depth visited bs s
    rule: exec_node_exec_inner_exec_action_exec_children_exec_sequential_exec_parallel.induct)
  case (2 en ctx n depth visited i ts s)
  obtain ok cb where ok: "allow_request (en_clock en (ex_world s)) (ex_breaker s) = (ok, cb)" by fastforce
  show ?case
  proof (cases "dn_id i \<notin> visited \<and> ok")
    case True
    then have "dn_id i \<notin> visited" "ok" by simp_all
    with ok have ok': "(True, cb) = allow_request (en_clock en (ex_world s)) (ex_breaker s)" by simp
    define s0 where "s0 = s\<lparr>ex_breaker := cb\<rparr>"
    have "walks (Suc depth) (depth + Suc n) (started i depth s0)
        (snd (exec_inner en ctx n depth (insert (dn_id i) visited) (DagNode i ts) (started i depth s0)))"
      using 2 [OF \<open>dn_id i \<notin> visited\<close> ok' refl] by (simp add: s0_def)
    then have "walks depth (depth + Suc n) s0 (snd (closed i (exec_inner en ctx n depth (insert (dn_id i) visited) (DagNode i ts) (started i depth s0))))"
      by (rule walks_closed) simp
    with True ok show ?thesis by (simp add: s0_def)
  next
    case False
    with ok show ?thesis by auto
  qed
next
  case (3 en ctx n depth visited i ts s)
  obtain r s' where rs: "exec_action en ctx n depth i s = (r, s')" by fastforce
  with 3(1) have "walks (Suc depth) (Suc depth + n) s s'" by simp
  with 3(2) [OF rs [symmetric]] show ?case by (cases r) (auto simp: rs intro: walks_trans)
next
  case (4 en ctx n depth i s)
  have act: "walks (Suc depth) (Suc depth + n) s (snd (run_action en i ctx ps s))" for ps
    by (rule acts_walks [OF acts_run_action])
  show ?case
  proof (cases "\<exists>target sub w. dn_action_type i = ''trigger_sub_workflow'' \<and>
      get_none (injected en ctx (cur_vars s) (dn_action_params i)) ''target_intent'' = PStr target \<and> target \<noteq> [] \<and>
      en_fetch en target ctx (ex_world s) = (Some (Some sub), w)")
    case True
    then obtain target sub w where t: "dn_action_type i = ''trigger_sub_workflow''"
      "get_none (injected en ctx (cur_vars s) (dn_action_params i)) ''target_intent'' = PStr target" "target \<noteq> []"
      "en_fetch en target ctx (ex_world s) = (Some (Some sub), w)" by blast
    obtain r s' where rs: "exec_node en ctx n (Suc depth) {} sub (s\<lparr>ex_world := w\<rparr>) = (r, s')" by fastforce
    from 4 [OF refl t(1-3) t(4) [symmetric] refl refl] rs have "walks (Suc depth) (Suc depth + n) s s'" by simp
    with t rs show ?thesis
      by (auto simp: exec_action.simps Let_def failed_def succeeded_def split: option.split bool.split)
  next
    case False
    with act show ?thesis
      by (auto simp: exec_action.simps Let_def failed_def split: prod.split option.split pyval.split)
  qed
next
  case (5 en ctx n depth visited i ts s)
  show ?case
  proof (cases "\<exists>ns. ts \<noteq> [] \<and> valid_next en ctx (cur_vars s) ts = Some ns \<and> dn_execution_mode i = ''parallel''")
    case True
    then obtain ns where ns: "ts \<noteq> []" "valid_next en ctx (cur_vars s) ts = Some ns" "dn_execution_mode i = ''parallel''" by blast
    then have seq: "dn_execution_mode i \<noteq> ''sequential''" by simp
    obtain bs h where bs: "branch_list (length ns) (ex_vars s) (ex_heap s) = (bs, h)" by fastforce
    obtain r s' where rs: "exec_parallel en ctx n (Suc depth) visited (zip ns bs) (s\<lparr>ex_heap := h\<rparr>) = (r, s')" by fastforce
    from 5(2) [OF ns(1,2) seq ns(3) bs [symmetric]] rs have "walks (Suc depth) (Suc depth + n) s s'" by simp
    with ns bs rs show ?thesis by (auto simp: exec_children.simps split: option.split)
  next
    case False
    with 5(1) show ?thesis by (auto simp: exec_children.simps split: option.split)
  qed
next
  case (7 en ctx n depth visited t ts s)
  then show ?case by (auto split: prod.splits option.splits bool.splits intro: walks_trans)
next
  case (9 en ctx n depth visited t b ts s)
  obtain r s' where rs: "exec_node en ctx n depth visited t (enter_branch b s) = (r, s')" by fastforce
  have w: "walks depth (depth + n) s (enter_branch (ex_vars s) s')"
    using 9(1) walks_branch by (simp add: rs)
  show ?case
  proof (cases r)
    case None
    with w rs show ?thesis by simp
  next
    case (Some ok)
    have "walks depth (depth + n) (enter_branch (ex_vars s) s') (snd (exec_parallel en ctx n depth visited ts (enter_branch (ex_vars s) s')))"
      using 9(2) [OF rs [symmetric] Some] .
    with w have "walks depth (depth + n) s (snd (exec_parallel en ctx n depth visited ts (enter_branch (ex_vars s) s')))"
      by (rule walks_trans)
    with rs Some show ?thesis by (auto split: prod.splits option.splits)
  qed
qed simp_all

text \<open>Trees without concurrent branches: a node that asks for them has at most one child.\<close>

fun serial :: "dag_node \<Rightarrow> bool" where
  "serial (DagNode i ts) \<longleftrightarrow> (dn_execution_mode i = ''parallel'' \<longrightarrow> length ts \<le> 1) \<and> list_all serial ts"

text \<open>C15.
  In a workflow without concurrent branches, whatever its nodes do and whatever raises on the
  way, the events are well bracketed: every node that starts is closed, as completed or failed,
  before its parent is; no node starts at a depth of \<open>max_execution_depth\<close> or more, however the
  graphs refer to each other; and the executor ends on the variables it began with.
\<close>

theorem workflow_events_bracketed:
  assumes "\<And>target c w g w'. en_fetch en target c w = (Some (Some g), w') \<Longrightarrow> serial g"
  shows "\<exists>es. ex_events (snd (execute_workflow en max_depth intent ctx0 ctx s)) = ex_events s @ es \<and> bracketed es \<and>
     depths_within 0 max_depth es \<and> ex_vars (snd (execute_workflow en max_depth intent ctx0 ctx s)) = ex_vars s"
proof -
  have "walks 0 max_depth s (snd (execute_workflow en max_depth intent ctx0 ctx s))"
    using exec_walks(1) [of 0 max_depth "s\<lparr>ex_world := w\<rparr>" for w, simplified] by (auto simp: execute_workflow_def split: prod.split option.split)
  then show ?thesis by (auto simp: walks_def)
qed

section \<open>Which nodes start\<close>

definition begun :: "action_event list \<Rightarrow> uuid list" where
  "begun es = map ae_node (filter is_start es)"

lemma begun_append [simp]: "begun (xs @ ys) = begun xs @ begun ys"
  by (simp add: begun_def)

text \<open>A stretch of a walk that starts these nodes in this order.\<close>

definition runs :: "uuid list \<Rightarrow> 'w exec_state \<Rightarrow> 'w exec_state \<Rightarrow> bool" where
  "runs xs s s' \<longleftrightarrow> (\<exists>es. ex_events s' = ex_events s @ es \<and> begun es = xs)"

lemma runs_refl [simp]: "runs [] s s"
  by (simp add: runs_def begun_def)

lemma runs_trans: "runs xs s t \<Longrightarrow> runs ys t u \<Longrightarrow> runs (xs @ ys) s u"
  by (fastforce simp: runs_def)

lemma acts_runs: "acts s t \<Longrightarrow> runs [] s t"
  unfolding acts_def runs_def begun_def by (auto simp: list_all_iff is_note_def filter_empty_conv)

lemma runs_simps [simp]:
  "runs xs s (t\<lparr>ex_heap := h\<rparr>) = runs xs s t" "runs xs (s\<lparr>ex_heap := h\<rparr>) t = runs xs s t"
  "runs xs s (t\<lparr>ex_breaker := cb\<rparr>) = runs xs s t" "runs xs (s\<lparr>ex_breaker := cb\<rparr>) t = runs xs s t"
  "runs xs s (enter_branch b t) = runs xs s t" "runs xs (enter_branch b s) t = runs xs s t"
  by (simp_all add: runs_def enter_branch_def)

lemma runs_closed: "runs xs (started i depth s) (snd r) \<Longrightarrow> runs (dn_id i # xs) s (snd (closed i r))"
  unfolding runs_def
  by (auto simp: started_def closed_def emit_def begun_def is_start_def)

text \<open>Trees without sub-workflows; and trees in which every child is taken and every node reaches its children.\<close>

definition static :: "dag_info \<Rightarrow> bool" where
  "static i \<longleftrightarrow> dn_action_type i \<noteq> ''trigger_sub_workflow''"

definition plain :: "dag_info \<Rightarrow> bool" where
  "plain i \<longleftrightarrow> static i \<and> dn_action_type i \<noteq> ''done'' \<and> dn_condition i = None \<and>
     dn_execution_mode i \<in> set [''sequential'', ''parallel'']"

lemma valid_next_subset:
  "valid_next en ctx vs ts = Some ns \<Longrightarrow> subseq ns ts"
  by (induction ts arbitrary: ns) (auto split: option.splits if_splits)

lemma valid_next_plain: "list_all (\<lambda>t. dn_condition (node_info t) = None) ts \<Longrightarrow> valid_next en ctx vs ts = Some ts"
  by (induction ts) auto

lemma subseq_concat_map: "subseq xs ys \<Longrightarrow> subseq (concat (map f xs)) (concat (map f ys))"
  by (induction rule: list_emb.induct) (auto intro: list_emb_append_mono)

lemma set_preorder_subseq: "subseq ns ts \<Longrightarrow> set (concat (map preorder ns)) \<subseteq> set (concat (map preorder ts))"
proof
  fix x
  assume "subseq ns ts" and "x \<in> set (concat (map preorder ns))"
  then show "x \<in> set (concat (map preorder ts))"
    using list_emb_set [OF subseq_concat_map] by metis
qed

lemma no_finish_true: "dn_action_type i \<noteq> ''done'' \<Longrightarrow> fst (run_action en i ctx ps s) \<noteq> Finish True"
proof -
  have perform: "fst (perform en req s) \<noteq> Finish True" for req s
    by (auto simp: perform_def split: prod.split option.split)
  have fire: "fst (fire en i req k n s) \<noteq> Finish True" for req k n s
    by (induction n arbitrary: k s) (auto simp: failed_def split: prod.split option.split)
  have page: "fst (act_page en i ctx ps s) \<noteq> Finish True"
    by (auto simp: act_page_def failed_def Let_def simp del: try_tiers.simps split: prod.split option.split bool.split)
  have human: "fst (act_human en i ctx ps s) \<noteq> Finish True"
    by (auto simp: act_human_def failed_def Let_def simp del: await_human.simps split: prod.split option.split bool.split pyval.split)
  have others: "fst (act_compute en i ps s) \<noteq> Finish True" "fst (act_script en i ctx ps s) \<noteq> Finish True"
    "fst (act_http en i ps s) \<noteq> Finish True" "fst (act_ssh en i ps s) \<noteq> Finish True" "fst (act_llm en i ps s) \<noteq> Finish True"
    "fst (act_assertion en ctx ps s) \<noteq> Finish True"
    by (auto simp: act_compute_def act_script_def act_http_def act_ssh_def act_llm_def act_assertion_def failed_def succeeded_def Let_def
        split: prod.split option.split pyval.split)
  have waits: "fst (act_delay en ps s) \<noteq> Finish True" "fst (act_wait en ps s) \<noteq> Finish True" "fst (act_webhook en i ps s) \<noteq> Finish True"
    using perform fire by (auto simp: act_delay_def act_wait_def act_webhook_def failed_def split: prod.split option.split pyval.split)
  have navigate: "fst (act_navigate en ps s) \<noteq> Finish True"
    using perform by (auto simp: act_navigate_def split: prod.splits option.splits outcome.splits) (metis fst_conv)+
  assume "dn_action_type i \<noteq> ''done''"
  then show ?thesis
    unfolding run_action_def Let_def using perform page human others waits navigate by (simp del: insert_iff)
qed

text \<open>
  The nodes a walk starts, against the nodes below it in preorder: a subsequence in every
  static tree; all of them when the tree is plain and the walk succeeds; a prefix, whatever
  the result, when the tree is plain and sequential throughout.
\<close>

definition in_order :: "dag_info list \<Rightarrow> bool option \<Rightarrow> uuid list \<Rightarrow> bool" where
  "in_order is r xs \<longleftrightarrow> subseq xs (map dn_id is) \<and>
     (list_all plain is \<and> r = Some True \<longrightarrow> xs = map dn_id is) \<and>
     (list_all plain is \<and> list_all (\<lambda>i. dn_execution_mode i = ''sequential'') is \<longrightarrow> prefix xs (map dn_id is))"

text \<open>The same for the children of \<open>i\<close>, the mode of which is that of \<open>i\<close>.\<close>

definition in_order_below :: "dag_info \<Rightarrow> dag_info list \<Rightarrow> bool option \<Rightarrow> uuid list \<Rightarrow> bool" where
  "in_order_below i is r xs \<longleftrightarrow> subseq xs (map dn_id is) \<and>
     (plain i \<and> list_all plain is \<and> r = Some True \<longrightarrow> xs = map dn_id is) \<and>
     (plain i \<and> list_all plain is \<and> list_all (\<lambda>i. dn_execution_mode i = ''sequential'') (i # is) \<longrightarrow> prefix xs (map dn_id is))"

lemma in_order_Cons: "in_order_below i is r xs \<Longrightarrow> in_order (i # is) r (dn_id i # xs)"
  by (auto simp: in_order_def in_order_below_def)

lemma in_order_Nil: "r \<noteq> Some True \<or> is = [] \<Longrightarrow> in_order is r []"
  by (auto simp: in_order_def)

lemma in_order_below_Nil: "\<not> (r = Some True \<and> plain i) \<or> is = [] \<Longrightarrow> in_order_below i is r []"
  by (auto simp: in_order_below_def)

lemma in_order_append:
  assumes "in_order is (Some True) xs" and "in_order js r ys"
  shows "in_order (is @ js) r (xs @ ys)"
  using assms by (auto simp: in_order_def list_emb_append_mono)

lemma in_order_stop: "r \<noteq> Some True \<Longrightarrow> in_order is r xs \<Longrightarrow> in_order (is @ js) r xs"
  by (auto simp: in_order_def intro: subseq_order.order_trans prefix_order.order_trans)

text \<open>A parallel node goes on after a failure, so that only the first two parts compose.\<close>

definition in_parallel :: "dag_info list \<Rightarrow> bool option \<Rightarrow> uuid list \<Rightarrow> bool" where
  "in_parallel is r xs \<longleftrightarrow> subseq xs (map dn_id is) \<and> (list_all plain is \<and> r = Some True \<longrightarrow> xs = map dn_id is)"

lemma in_order_parallel: "in_order is r xs \<Longrightarrow> in_parallel is r xs"
  by (simp add: in_order_def in_parallel_def)

lemma in_parallel_append:
  "in_parallel is (Some a) xs \<Longrightarrow> in_parallel js (Some b) ys \<Longrightarrow> in_parallel (is @ js) (Some (a \<and> b)) (xs @ ys)"
  by (auto simp: in_parallel_def list_emb_append_mono)

lemma in_parallel_stop: "in_parallel is r xs \<Longrightarrow> in_parallel (is @ js) None xs"
  by (auto simp: in_parallel_def intro: subseq_order.order_trans)

lemma in_parallel_weaken: "in_parallel is r xs \<Longrightarrow> in_parallel js None ys \<Longrightarrow> in_parallel (is @ js) None (xs @ ys)"
  by (auto simp: in_parallel_def list_emb_append_mono)

lemma in_parallel_below:
  assumes "dn_execution_mode i \<noteq> ''sequential''" and "in_parallel is r xs" and "subseq (map dn_id is) (map dn_id js)"
    and "list_all plain js \<Longrightarrow> is = js"
  shows "in_order_below i js r xs"
  using assms subseq_order.order_trans by (auto simp: in_parallel_def in_order_below_def)

lemma in_order_to_below:
  assumes "in_order is r xs" and "subseq (map dn_id is) (map dn_id js)" and "list_all plain js \<Longrightarrow> is = js"
  shows "in_order_below i js r xs"
  using assms subseq_order.order_trans by (auto simp: in_order_def in_order_below_def)

lemma node_info_preorder: "node_info t \<in> set (preorder t)"
  by (cases t) simp

lemma length_branch_list: "length (fst (branch_list n r h)) = n"
  by (induction n arbitrary: h) (auto split: prod.split simp: case_prod_beta)

lemma valid_next_infos:
  assumes "valid_next en ctx vs ts = Some ns"
  shows "subseq (map dn_id (concat (map preorder ns))) (map dn_id (concat (map preorder ts)))"
    and "list_all plain (concat (map preorder ts)) \<Longrightarrow> ns = ts"
    and "list_all static (concat (map preorder ts)) \<Longrightarrow> list_all static (concat (map preorder ns))"
proof -
  note sub = valid_next_subset [OF assms]
  show "subseq (map dn_id (concat (map preorder ns))) (map dn_id (concat (map preorder ts)))"
    by (rule subseq_map [OF subseq_concat_map [OF sub]])
  show "list_all static (concat (map preorder ns))" if "list_all static (concat (map preorder ts))"
    using that set_preorder_subseq [OF sub] unfolding list_all_iff by blast
  show "ns = ts" if plain: "list_all plain (concat (map preorder ts))"
  proof -
    have "dn_condition (node_info t) = None" if "t \<in> set ts" for t
      using plain that node_info_preorder [of t] by (auto simp: list_all_iff plain_def)
    then have "list_all (\<lambda>t. dn_condition (node_info t) = None) ts" by (simp add: list_all_iff)
    from valid_next_plain [OF this, of en ctx vs] assms show ?thesis by simp
  qed
qed

lemma exec_order:
  "list_all static (preorder t) \<Longrightarrow>
     \<exists>xs. runs xs s (snd (exec_node en ctx n depth visited t s)) \<and> in_order (preorder t) (fst (exec_node en ctx n depth visited t s)) xs"
  "list_all static (preorder t) \<Longrightarrow>
     \<exists>xs. runs xs s (snd (exec_inner en ctx n depth visited t s)) \<and>
       in_order_below (node_info t) (concat (map preorder (next_nodes t))) (fst (exec_inner en ctx n depth visited t s)) xs"
  "static i \<Longrightarrow> acts s (snd (exec_action en ctx n depth i s)) \<and> (plain i \<longrightarrow> fst (exec_action en ctx n depth i s) \<noteq> Finish True)"
  "list_all static (concat (map preorder ts)) \<Longrightarrow>
     \<exists>xs. runs xs s (snd (exec_children en ctx n depth visited i ts s)) \<and>
       in_order_below i (concat (map preorder ts)) (fst (exec_children en ctx n depth visited i ts s)) xs"
  "list_all static (concat (map preorder ts)) \<Longrightarrow>
     \<exists>xs. runs xs s (snd (exec_sequential en ctx n depth visited ts s)) \<and>
       in_order (concat (map preorder ts)) (fst (exec_sequential en ctx n depth visited ts s)) xs"
  "list_all static (concat (map (\<lambda>p. preorder (fst p)) bs)) \<Longrightarrow>
     \<exists>xs. runs xs s (snd (exec_parallel en ctx n depth visited bs s)) \<and>
       in_parallel (concat (map (\<lambda>p. preorder (fst p)) bs)) (fst (exec_parallel en ctx n depth visited bs s)) xs"
proof (induction en ctx n depth visited t s and en ctx n depth visited t s and en ctx n depth i s and
    en ctx n depth visited i ts s and en ctx n depth visited ts s and en ctx n depth visited bs s
    rule: exec_node_exec_inner_exec_action_exec_children_exec_sequential_exec_parallel.induct)
  case (1 en ctx depth visited t s)
  show ?case by (auto intro!: exI [of _ "[]"] in_order_Nil)
next
  case (2 en ctx n depth visited i ts s)
  obtain ok cb where ok: "allow_request (en_clock en (ex_world s)) (ex_breaker s) = (ok, cb)" by fastforce
  show ?case
  proof (cases "dn_id i \<notin> visited \<and> ok")
    case True
    then have "dn_id i \<notin> visited" "ok" by simp_all
    with ok have ok': "(True, cb) = allow_request (en_clock en (ex_world s)) (ex_breaker s)" by simp
    define s0 where "s0 = s\<lparr>ex_breaker := cb\<rparr>"
    define r where "r = exec_inner en ctx n depth (insert (dn_id i) visited) (DagNode i ts) (started i depth s0)"
    from 2(1) [OF \<open>dn_id i \<notin> visited\<close> ok' refl 2(2)] obtain xs where
      xs: "runs xs (started i depth s0) (snd r)" "in_order_below i (concat (map preorder ts)) (fst r) xs"
      by (auto simp: r_def s0_def)
    have eq: "exec_node en ctx (Suc n) depth visited (DagNode i ts) s = closed i r"
      using True ok by (simp add: r_def s0_def)
    have "runs (dn_id i # xs) s0 (snd (closed i r))" by (rule runs_closed [OF xs(1)])
    moreover have "in_order (preorder (DagNode i ts)) (fst (closed i r)) (dn_id i # xs)"
      using in_order_Cons [OF xs(2)] by (simp add: closed_def)
    ultimately show ?thesis unfolding eq by (auto simp: s0_def)
  next
    case False
    then obtain cb' where "exec_node en ctx (Suc n) depth visited (DagNode i ts) s = (Some False, s\<lparr>ex_breaker := cb'\<rparr>)"
      using ok by (cases "dn_id i \<in> visited") (auto intro: that [of "ex_breaker s"])
    then show ?thesis by (auto intro!: exI [of _ "[]"] in_order_Nil)
  qed
next
  case (3 en ctx n depth visited i ts s)
  obtain r s' where rs: "exec_action en ctx n depth i s = (r, s')" by fastforce
  from 3(3) have st: "static i" "list_all static (concat (map preorder ts))" by simp_all
  from 3(1) [OF st(1)] rs have act: "acts s s'" "plain i \<Longrightarrow> r \<noteq> Finish True" by simp_all
  show ?case
  proof (cases r)
    case Proceed
    from 3(2) [OF rs [symmetric] Proceed st(2)] obtain xs where
      xs: "runs xs s' (snd (exec_children en ctx n depth visited i ts s'))"
        "in_order_below i (concat (map preorder ts)) (fst (exec_children en ctx n depth visited i ts s')) xs" by blast
    with runs_trans [OF acts_runs [OF act(1)] xs(1)] show ?thesis by (auto simp: rs Proceed)
  next
    case (Finish b)
    with act acts_runs [OF act(1)] show ?thesis by (auto simp: rs intro!: exI [of _ "[]"] in_order_below_Nil)
  next
    case Raises
    with act acts_runs [OF act(1)] show ?thesis by (auto simp: rs intro!: exI [of _ "[]"] in_order_below_Nil)
  qed
next
  case (4 en ctx n depth i s)
  then show ?case
    by (auto simp: exec_action.simps static_def plain_def Let_def acts_run_action no_finish_true)
next
  case (5 en ctx n depth visited i ts s)
  show ?case
  proof (cases "ts \<noteq> [] \<and> valid_next en ctx (cur_vars s) ts \<noteq> None")
    case False
    then show ?thesis
      by (cases "ts = []") (auto simp: exec_children.simps intro!: exI [of _ "[]"] in_order_below_Nil)
  next
    case True
    then obtain ns where ts: "ts \<noteq> []" and ns: "valid_next en ctx (cur_vars s) ts = Some ns" by blast
    note infos = valid_next_infos [OF ns]
    consider "dn_execution_mode i = ''sequential''" | "dn_execution_mode i = ''parallel''"
      | "dn_execution_mode i \<notin> set [''sequential'', ''parallel'']" by auto
    then show ?thesis
    proof cases
      case 1
      from 5(1) [OF ts ns 1 infos(3) [OF 5(3)]] obtain xs where
        xs: "runs xs s (snd (exec_sequential en ctx n (Suc depth) visited ns s))"
          "in_order (concat (map preorder ns)) (fst (exec_sequential en ctx n (Suc depth) visited ns s)) xs" by blast
      have "exec_children en ctx n depth visited i ts s = exec_sequential en ctx n (Suc depth) visited ns s"
        using ts ns 1 by (simp add: exec_children.simps)
      then show ?thesis using xs(1) in_order_to_below [OF xs(2) infos(1)] infos(2) by auto
    next
      case 2
      then have seq: "dn_execution_mode i \<noteq> ''sequential''" by simp
      obtain bs h where bs: "branch_list (length ns) (ex_vars s) (ex_heap s) = (bs, h)" by fastforce
      have fsts: "map (\<lambda>p. preorder (fst p)) (zip ns bs) = map preorder ns"
      proof -
        have "length bs = length ns" using length_branch_list [of "length ns" "ex_vars s" "ex_heap s"] bs by simp
        then have "map fst (zip ns bs) = ns" by simp
        then have "map preorder (map fst (zip ns bs)) = map preorder ns" by simp
        then show ?thesis by (simp only: list.map_comp comp_def)
      qed
      obtain r s' where rs: "exec_parallel en ctx n (Suc depth) visited (zip ns bs) (s\<lparr>ex_heap := h\<rparr>) = (r, s')" by fastforce
      from 5(2) [OF ts ns seq 2 bs [symmetric], unfolded fsts, OF infos(3) [OF 5(3)]] rs obtain xs where
        xs: "runs xs s s'" "in_parallel (concat (map preorder ns)) r xs" by auto
      have "runs xs s (snd (exec_children en ctx n depth visited i ts s))" "fst (exec_children en ctx n depth visited i ts s) = r"
        using ts ns 2 bs rs xs(1) by (auto simp: exec_children.simps split: option.split)
      then show ?thesis using in_parallel_below [OF seq xs(2) infos(1)] infos(2) by auto
    next
      case 3
      with ts ns have "exec_children en ctx n depth visited i ts s = (Some True, s)" by (simp add: exec_children.simps)
      moreover have "\<not> plain i" using 3 by (simp add: plain_def)
      ultimately show ?thesis by (auto intro!: exI [of _ "[]"] in_order_below_Nil)
    qed
  qed
next
  case (6 en ctx n depth visited s)
  then show ?case by (auto intro!: exI [of _ "[]"] in_order_Nil)
next
  case (7 en ctx n depth visited t ts s)
  obtain r s' where rs: "exec_node en ctx n depth visited t s = (r, s')" by fastforce
  from 7(3) have st: "list_all static (preorder t)" "list_all static (concat (map preorder ts))" by simp_all
  from 7(1) [OF st(1)] rs obtain xs where xs: "runs xs s s'" "in_order (preorder t) r xs" by auto
  show ?case
  proof (cases "r = Some True")
    case True
    from 7(2) [OF rs [symmetric] True refl st(2)] obtain ys where
      ys: "runs ys s' (snd (exec_sequential en ctx n depth visited ts s'))"
        "in_order (concat (map preorder ts)) (fst (exec_sequential en ctx n depth visited ts s')) ys" by blast
    from runs_trans [OF xs(1) ys(1)] in_order_append [OF xs(2) [unfolded True] ys(2)] show ?thesis
      by (auto simp: rs True)
  next
    case False
    then have "exec_sequential en ctx n depth visited (t # ts) s = (r, s')" by (auto simp: rs split: option.split bool.split)
    with xs(1) in_order_stop [OF False xs(2)] show ?thesis by auto
  qed
next
  case (8 en ctx n depth visited s)
  then show ?case by (auto intro!: exI [of _ "[]"] simp: in_parallel_def)
next
  case (9 en ctx n depth visited t b ts s)
  obtain r s' where rs: "exec_node en ctx n depth visited t (enter_branch b s) = (r, s')" by fastforce
  from 9(3) have st: "list_all static (preorder t)" "list_all static (concat (map (\<lambda>p. preorder (fst p)) ts))" by (simp_all add: comp_def)
  from 9(1) [OF st(1)] rs obtain xs where xs: "runs xs s s'" "in_order (preorder t) r xs" by auto
  show ?case
  proof (cases r)
    case None
    with xs(1) in_parallel_stop [OF in_order_parallel [OF xs(2)]] show ?thesis by (auto simp: rs)
  next
    case (Some ok)
    obtain r2 s'' where rs2: "exec_parallel en ctx n depth visited ts (enter_branch (ex_vars s) s') = (r2, s'')" by fastforce
    from 9(2) [OF rs [symmetric] Some st(2)] rs2 obtain ys where
      ys: "runs ys s' s''" "in_parallel (concat (map (\<lambda>p. preorder (fst p)) ts)) r2 ys" by auto
    have run: "runs (xs @ ys) s s''" by (rule runs_trans [OF xs(1) ys(1)])
    have par: "in_parallel (preorder t) (Some ok) xs" using in_order_parallel [OF xs(2)] Some by simp
    show ?thesis
    proof (cases r2)
      case None
      with run in_parallel_weaken [OF par ys(2) [unfolded None]] show ?thesis by (auto simp: rs rs2 Some)
    next
      case (Some oks)
      with run in_parallel_append [OF par ys(2) [unfolded Some]] show ?thesis by (auto simp: rs rs2 \<open>r = Some ok\<close>)
    qed
  qed
qed

text \<open>C16.
  A workflow without sub-workflows and without concurrent branches starts nodes of its tree only,
  each in the order of the tree, a parent before its children. If every child is unconditional and no node is \<open>done\<close>, a
  workflow that succeeds has started every node of the tree; and if besides all nodes are
  sequential, one that does not succeed stopped at a point: what it started is a prefix.
\<close>

theorem walk_in_tree_order:
  assumes "list_all static (preorder t)" and "serial t"
  shows "\<exists>es. ex_events (snd (exec_node en ctx n depth visited t s)) = ex_events s @ es \<and>
     subseq (begun es) (map dn_id (preorder t)) \<and>
     (list_all plain (preorder t) \<and> fst (exec_node en ctx n depth visited t s) = Some True \<longrightarrow>
        begun es = map dn_id (preorder t)) \<and>
     (list_all plain (preorder t) \<and> list_all (\<lambda>i. dn_execution_mode i = ''sequential'') (preorder t) \<longrightarrow>
        prefix (begun es) (map dn_id (preorder t)))"
  using exec_order(1) [OF assms(1), of s en ctx n depth visited] by (auto simp: runs_def in_order_def)

text \<open>A world in which every request is answered None, and one in which every one raises.\<close>

definition idle_engine :: "unit engine" where
  "idle_engine = \<lparr>en_ext = (\<lambda>_ w. (Some PNone, w)), en_fetch = (\<lambda>_ _ w. (Some None, w)), en_clock = (\<lambda>_. 0),
     en_repr = (\<lambda>_. []), en_float = (\<lambda>_. None), en_max_viewport_tier = 5, en_run_id = ''run''\<rparr>"

definition idle_state :: "unit exec_state" where
  "idle_state = \<lparr>ex_heap = [[]], ex_vars = Plain 0, ex_breaker = default_breaker, ex_events = [], ex_world = ()\<rparr>"

definition step_node :: "uuid \<Rightarrow> string \<Rightarrow> vars \<Rightarrow> dag_node list \<Rightarrow> dag_node" where
  "step_node i action ps ts =
     DagNode \<lparr>dn_id = i, dn_intent = ''step'', dn_action_type = action, dn_action_params = ps, dn_face_value = PNone,
       dn_place_value = PNone, dn_output_var = None, dn_execution_mode = ''sequential'', dn_volatility_type = ''static'',
       dn_fallback_plugin = None, dn_condition = None\<rparr> ts"

definition sample_tree :: dag_node where
  "sample_tree = step_node 1 ''conditional'' [] [step_node 2 ''delay'' [] [], step_node 3 ''assertion'' [(''var'', PStr ''x''), (''expected'', PStr ''1'')] [],
     step_node 4 ''delay'' [] []]"

theorem walk_in_tree_order_witness:
  "\<exists>es. ex_events (snd (exec_node idle_engine [(''x'', PInt 1)] 50 0 {} sample_tree idle_state)) = es \<and>
     prefix (begun es) [1, 2, 3, 4]"
proof -
  have all: "map dn_id (preorder sample_tree) = [1, 2, 3, 4]" "list_all static (preorder sample_tree)"
    "list_all plain (preorder sample_tree)" "list_all (\<lambda>i. dn_execution_mode i = ''sequential'') (preorder sample_tree)"
    "serial sample_tree"
    by (simp_all add: sample_tree_def step_node_def static_def plain_def)
  from walk_in_tree_order [OF all(2) all(5), of idle_engine "[(''x'', PInt 1)]" 50 0 "{}" idle_state] all show ?thesis
    by (auto simp: idle_state_def)
qed

lemma sample_tree_runs:
  "fst (exec_node idle_engine [(''x'', PInt 1)] 50 0 {} sample_tree idle_state) = Some True"
  "begun (ex_events (snd (exec_node idle_engine [(''x'', PInt 2)] 50 0 {} sample_tree idle_state))) = [1, 2, 3]"
  by code_simp+

text \<open>A workflow whose second node runs the sample tree as a sub-workflow.\<close>

definition nesting_engine :: "unit engine" where
  "nesting_engine = idle_engine\<lparr>en_fetch := (\<lambda>target _ w.
     (if target = ''main'' then Some (Some (step_node 10 ''delay'' [] [step_node 11 ''trigger_sub_workflow'' [(''target_intent'', PStr ''sub'')] []]))
      else if target = ''sub'' then Some (Some sample_tree) else Some None, w))\<rparr>"

theorem workflow_events_bracketed_witness:
  "\<exists>es. ex_events (snd (execute_workflow nesting_engine 50 ''main'' [] [(''x'', PInt 1)] idle_state)) = es \<and>
     bracketed es \<and> depths_within 0 50 es"
proof -
  have "serial g" if "en_fetch nesting_engine target c w = (Some (Some g), w')" for target c w g w'
    using that by (auto simp: nesting_engine_def idle_engine_def sample_tree_def step_node_def split: if_splits)
  from workflow_events_bracketed [of nesting_engine 50 "''main''" "[]" "[(''x'', PInt 1)]" idle_state, OF this] show ?thesis
    by (auto simp: idle_state_def)
qed

lemma nested_tree_runs:
  "map (\<lambda>e. (ae_node e, is_start e)) (ex_events (snd (execute_workflow nesting_engine 50 ''main'' [] [(''x'', PInt 2)] idle_state))) =
     [(10, True), (11, True), (1, True), (2, True), (2, False), (3, True), (3, False), (1, False), (11, False), (10, False)]"
  by code_simp

section \<open>Findings\<close>

text \<open>
  Five action types the table admits, and the recorder writes, have no branch: such a node
  touches nothing and is reported completed.
\<close>

lemma unknown_action_succeeds:
  "dn_action_type i \<in> set [''press'', ''hover'', ''select_option'', ''check'', ''uncheck''] \<Longrightarrow> run_action en i ctx ps s = (Proceed, s)"
  by (auto simp: run_action_def)

text \<open>
  A workflow that triggers itself is not stopped as a cycle: every trigger begins with an empty
  set of visited nodes. It starts its node once per level, down to the depth bound.
\<close>

lemma self_trigger_reaches_bound:
  assumes "\<And>w. en_fetch en ''loop'' ctx w = (Some (Some (step_node 1 ''trigger_sub_workflow'' [(''target_intent'', PStr ''loop'')] [])), w)"
    and "cb_state (ex_breaker s) = CLOSED"
  shows "runs (replicate n 1) s (snd (exec_node en ctx n d {} (step_node 1 ''trigger_sub_workflow'' [(''target_intent'', PStr ''loop'')] []) s)) \<and>
     fst (exec_node en ctx n d {} (step_node 1 ''trigger_sub_workflow'' [(''target_intent'', PStr ''loop'')] []) s) = Some False"
  using assms(2)
proof (induction n arbitrary: d s)
  case (Suc n)
  define t where "t = step_node 1 ''trigger_sub_workflow'' [(''target_intent'', PStr ''loop'')] []"
  obtain i where i: "t = DagNode i []" "dn_action_type i = ''trigger_sub_workflow''"
    "dn_action_params i = [(''target_intent'', PStr ''loop'')]" "dn_id i = 1" by (simp add: t_def step_node_def)
  define s1 where "s1 = started i d (s\<lparr>ex_breaker := ex_breaker s\<rparr>)"
  have closed1: "cb_state (ex_breaker s1) = CLOSED" using Suc.prems by (simp add: s1_def started_def emit_def)
  obtain r s2 where rs: "exec_node en ctx n (Suc d) {} t s1 = (r, s2)" by fastforce
  from Suc.IH [OF closed1, of "Suc d"] rs have IH: "runs (replicate n 1) s1 s2" "r = Some False" by (simp_all add: t_def)
  have ps: "get_none (injected en ctx vs (dn_action_params i)) ''target_intent'' = PStr ''loop''" for vs
    by (simp add: i injected_def get_none_def)
  have "exec_action en ctx n d i s1 = failed en s2"
    using rs IH(2) assms(1) by (simp add: exec_action.simps i(2) ps t_def Let_def)
  then have inner: "exec_inner en ctx n d {1} t s1 = (Some False, note_failure en s2)"
    by (simp add: i(1) failed_def)
  have "exec_node en ctx (Suc n) d {} t s = closed i (Some False, note_failure en s2)"
    using Suc.prems inner by (simp add: i(1,4) allow_request_def s1_def)
  moreover have "runs (dn_id i # replicate n 1) s (snd (closed i (Some False, note_failure en s2)))"
    using IH(1) by (intro runs_closed) (simp add: s1_def note_failure_def)
  ultimately show ?case by (simp add: t_def [symmetric] i(4) closed_def)
qed simp

end
