(* ===== verification/Locators.thy ===== *)
theory Locators
  imports MemoryGraph
begin

text \<open>
  Finding the element a step acts on: the fallback over viewports and devices
  (\<open>xioflow/engine/context_hash_router.py\<close>) and the cascade of locators
  (\<open>xioflow/engine/locator_cascade.py\<close>).
\<close>

section \<open>The context of a device\<close>

record device_context =
  dc_device_type :: "string option"
  dc_os_name :: "string option"
  dc_browser :: "string option"
  dc_viewport_w :: int

text \<open>The text that \<open>generate_context_hash\<close> hashes; the hash itself is a parameter, \<open>sha\<close>.\<close>

definition context_hash_input :: "string \<Rightarrow> string \<Rightarrow> string \<Rightarrow> int \<Rightarrow> int \<Rightarrow> string" where
  "context_hash_input device_type os_name browser viewport_w viewport_h =
     device_type @ ''|'' @ os_name @ ''|'' @ browser @ ''|'' @ int_str viewport_w @ ''x'' @ int_str viewport_h"

definition generate_context_hash :: "(string \<Rightarrow> string) \<Rightarrow> string \<Rightarrow> string \<Rightarrow> string \<Rightarrow> int \<Rightarrow> int \<Rightarrow> string" where
  "generate_context_hash sha device_type os_name browser viewport_w viewport_h =
     sha (context_hash_input device_type os_name browser viewport_w viewport_h)"

definition get_breakpoint_range :: "int \<Rightarrow> int \<times> int" where
  "get_breakpoint_range w =
     (if w < 768 then (0, 767) else if 768 \<le> w \<and> w \<le> 1024 then (768, 1024) else (1025, 9999))"

text \<open>SQL equality with a parameter: NULL on either side is not true.\<close>

definition sql_eq :: "'a option \<Rightarrow> 'a option \<Rightarrow> bool" where
  "sql_eq a b \<longleftrightarrow> a \<noteq> None \<and> a = b"

definition in_breakpoint :: "int \<Rightarrow> memory_node \<Rightarrow> bool" where
  "in_breakpoint w n \<longleftrightarrow>
     (case mn_viewport_width n of
        None \<Rightarrow> False
      | Some v \<Rightarrow> fst (get_breakpoint_range w) \<le> v \<and> v \<le> snd (get_breakpoint_range w))"

definition viewport_clauses :: "nat \<Rightarrow> device_context \<Rightarrow> memory_node \<Rightarrow> bool" where
  "viewport_clauses tier cx n \<longleftrightarrow>
     (let dev = sql_eq (mn_device_type n) (dc_device_type cx);
          os = sql_eq (mn_os_name n) (dc_os_name cx);
          br = sql_eq (mn_browser n) (dc_browser cx);
          vw = (mn_viewport_width n = Some (dc_viewport_w cx))
      in if tier = 1 then dev \<and> os \<and> br \<and> vw
         else if tier = 2 then dev \<and> br \<and> vw
         else if tier = 3 then dev \<and> vw
         else if tier = 4 then dev \<and> in_breakpoint (dc_viewport_w cx) n
         else if tier = 5 then in_breakpoint (dc_viewport_w cx) n
         else True)"

definition query_by_viewport_tier ::
  "(memory_node \<Rightarrow> nat) \<Rightarrow> memory_table \<Rightarrow> string \<Rightarrow> string \<Rightarrow> device_context \<Rightarrow> nat \<Rightarrow> uuid \<Rightarrow> nat \<Rightarrow> uuid option \<Rightarrow> memory_node list" where
  "query_by_viewport_tier order rows domain intent cx tier org max_results project =
     take max_results (sort_key order
       (filter (\<lambda>n. mn_domain n = domain \<and> mn_intent n = intent \<and> mn_organization_id n = org \<and>
                    mn_status n = ''ACTIVE'' \<and> mn_deleted_at n = None \<and>
                    (project = None \<or> mn_project_id n = project) \<and> viewport_clauses tier cx n) rows))"

lemma breakpoint_own: "0 \<le> w \<Longrightarrow> w \<le> 9999 \<Longrightarrow> fst (get_breakpoint_range w) \<le> w \<and> w \<le> snd (get_breakpoint_range w)"
  by (simp add: get_breakpoint_range_def)

lemma breakpoint_same: "fst (get_breakpoint_range w) \<le> v \<Longrightarrow> v \<le> snd (get_breakpoint_range w) \<Longrightarrow> get_breakpoint_range v = get_breakpoint_range w"
  by (auto simp: get_breakpoint_range_def split: if_splits)

text \<open>Every tier of the fallback is wider than the one before: a row that a tier finds is found by
  every later tier, so the search from the exact device to the bare width class loses no
  candidate. It holds for widths the classes cover, which end at 9999.
\<close>

theorem viewport_tiers_widen:
  assumes "viewport_clauses i cx n" and "1 \<le> i" and "i \<le> j" and "j \<le> 5" and "0 \<le> dc_viewport_w cx" and "dc_viewport_w cx \<le> 9999"
  shows "viewport_clauses j cx n"
proof -
  have step: "viewport_clauses (Suc k) cx n" if "viewport_clauses k cx n" "1 \<le> k" "k < 5" for k
  proof -
    from that(2,3) consider "k = 1" | "k = 2" | "k = 3" | "k = 4" by linarith
    then show ?thesis
      using that(1) breakpoint_own [OF assms(5,6)] by cases (auto simp: viewport_clauses_def Let_def in_breakpoint_def)
  qed
  from assms(3,4) show ?thesis
  proof (induction j rule: dec_induct)
    case base
    show ?case by (rule assms(1))
  next
    case (step m)
    then show ?case using \<open>\<And>k. viewport_clauses k cx n \<Longrightarrow> 1 \<le> k \<Longrightarrow> k < 5 \<Longrightarrow> viewport_clauses (Suc k) cx n\<close> assms(2) by simp
  qed
qed

definition desktop :: device_context where
  "desktop = \<lparr>dc_device_type = Some ''desktop'', dc_os_name = Some ''linux'', dc_browser = Some ''chrome'', dc_viewport_w = 1920\<rparr>"

theorem viewport_tiers_widen_witness:
  "viewport_clauses 4 desktop (sample_node 1 ''a'' []\<lparr>mn_device_type := Some ''desktop'', mn_viewport_width := Some 1920\<rparr>)"
  by (rule viewport_tiers_widen [of 3]) (simp_all add: viewport_clauses_def desktop_def sql_eq_def Let_def)

text \<open>A separator inside a name makes two devices share a hash.\<close>

lemma context_hash_ambiguous:
  "generate_context_hash sha ''tv|lg'' ''web'' b w h = generate_context_hash sha ''tv'' ''lg|web'' b w h"
  by (simp add: generate_context_hash_def context_hash_input_def)

section \<open>The cascade\<close>

text \<open>
  The page, the template matcher and the healer are parameters. \<open>pg_perform\<close> is an action on a
  locator; False where it raises. Only the actions \<open>click\<close>, \<open>fill\<close> and \<open>text_content\<close> reach the
  page: making a locator touches nothing.
\<close>

record 'w page =
  pg_perform :: "string \<Rightarrow> string \<Rightarrow> pyval \<Rightarrow> 'w \<Rightarrow> bool \<times> 'w"
  pg_mouse :: "rat \<Rightarrow> rat \<Rightarrow> 'w \<Rightarrow> bool \<times> 'w"
  pg_match :: "pyval \<Rightarrow> pyval \<Rightarrow> (rat \<times> rat) option"
  pg_heal :: "pyval \<Rightarrow> 'w \<Rightarrow> pyval option \<times> 'w"
  pg_repr :: "pyval \<Rightarrow> string"

definition perform_action :: "'w page \<Rightarrow> string \<Rightarrow> string \<Rightarrow> (string \<times> pyval) list \<Rightarrow> 'w \<Rightarrow> bool \<times> 'w" where
  "perform_action pg locator act params w =
     (if act \<in> set [''click'', ''fill'', ''text_content'']
      then pg_perform pg locator act (case map_of params ''text'' of None \<Rightarrow> PStr [] | Some t \<Rightarrow> t) w
      else (True, w))"

text \<open>The first of several locators that the action succeeds on, each failure passed over.\<close>

fun first_locator :: "'w page \<Rightarrow> string list \<Rightarrow> string \<Rightarrow> (string \<times> pyval) list \<Rightarrow> 'w \<Rightarrow> string option \<times> 'w" where
  "first_locator pg [] act params w = (None, w)"
| "first_locator pg (l # ls) act params w =
     (case perform_action pg l act params w of
        (True, w') \<Rightarrow> (Some l, w')
      | (False, w') \<Rightarrow> first_locator pg ls act params w')"

definition test_ids :: "string list" where
  "test_ids = [''data-testid'', ''data-test-id'', ''data-test'', ''data-cy'', ''data-automation-id'', ''data-qa'']"

text \<open>A tier with one locator, if its value is set.\<close>

definition one_locator :: "'w page \<Rightarrow> (string \<Rightarrow> string) \<Rightarrow> pyval \<Rightarrow> string \<Rightarrow> (string \<times> pyval) list \<Rightarrow> 'w \<Rightarrow> string option \<times> 'w" where
  "one_locator pg form v act params w =
     (if py_truthy v then first_locator pg [form (py_str (pg_repr pg) v)] act params w else (None, w))"

text \<open>The locators of a value used as it is: what is not a string, \<open>page.locator\<close> refuses.\<close>

definition str_values :: "pyval \<Rightarrow> string list" where
  "str_values v =
     (case v of
        PList vs \<Rightarrow> concat (map (\<lambda>x. case x of PStr s \<Rightarrow> [s] | _ \<Rightarrow> []) vs)
      | PStr s \<Rightarrow> map (\<lambda>c. [c]) s
      | PDict d \<Rightarrow> map fst d
      | _ \<Rightarrow> [])"

definition raw_locator :: "'w page \<Rightarrow> pyval \<Rightarrow> string \<Rightarrow> (string \<times> pyval) list \<Rightarrow> 'w \<Rightarrow> string option \<times> 'w" where
  "raw_locator pg v act params w =
     (case v of PStr s \<Rightarrow> if s = [] then (None, w) else first_locator pg [s] act params w | _ \<Rightarrow> (None, w))"

text \<open>
  \<open>_try_tier\<close>; None is both its answer \<open>(False, None)\<close> and an exception, which \<open>resolve\<close> treats
  alike. A place or face value that is not a dict raises in the tiers that read it.
\<close>

definition try_tier ::
  "'w page \<Rightarrow> int \<Rightarrow> pyval \<Rightarrow> pyval \<Rightarrow> string \<Rightarrow> (string \<times> pyval) list \<Rightarrow> 'w \<Rightarrow> string option \<times> 'w" where
  "try_tier pg tier place_value face_value act params w =
     (let str = py_str (pg_repr pg);
          place = (case place_value of PDict d \<Rightarrow> d | _ \<Rightarrow> []);
          face = (case face_value of PDict d \<Rightarrow> d | _ \<Rightarrow> [])
      in if tier = 1 then
           (let v = get_none place ''test_id''
            in if py_truthy v
               then first_locator pg (map (\<lambda>a. ''['' @ a @ ''='' @ [CHR 0x27] @ str v @ [CHR 0x27] @ '']'') test_ids) act params w
               else (None, w))
         else if tier = 2 then
           one_locator pg (\<lambda>v. ''[aria-label='' @ [CHR 0x27] @ v @ [CHR 0x27] @ '']'') (get_none place ''aria_label'') act params w
         else if tier = 3 then first_locator pg (str_values (get_none place ''axes_xpath'')) act params w
         else if tier = 4 then
           one_locator pg (\<lambda>v. '':right-of(:text('' @ [CHR 0x27] @ v @ [CHR 0x27] @ ''))'') (get_none place ''anchor_text'') act params w
         else if tier = 5 then
           one_locator pg (\<lambda>v. ''text='' @ [CHR 0x27] @ v @ [CHR 0x27]) (get_none face ''text'') act params w
         else if tier = 6 then raw_locator pg (get_none place ''css'') act params w
         else if tier = 7 then raw_locator pg (get_none place ''xpath'') act params w
         else if tier = 8 then
           (case get_none face ''bounding_box'' of
              PDict box \<Rightarrow>
                if box \<noteq> [] \<and> act = ''click'' then
                  (let num = (\<lambda>k. py_num (case map_of box k of None \<Rightarrow> PInt 0 | Some x \<Rightarrow> x))
                   in case (num ''nx'', num ''nw'', num ''ny'', num ''nh'') of
                        (Some nx, Some nw, Some ny, Some nh) \<Rightarrow>
                          (let x = nx + nw / 2; y = ny + nh / 2
                           in case pg_mouse pg x y w of
                                (True, w') \<Rightarrow> (Some (''coordinates: '' @ str (PFloat x) @ '','' @ str (PFloat y)), w')
                              | (False, w') \<Rightarrow> (None, w'))
                      | _ \<Rightarrow> (None, w))
                else (None, w)
            | _ \<Rightarrow> (None, w))
         else if tier = 9 then
           (let full_page = get_none params ''full_page_b64''; template = get_none params ''template_b64''
            in if py_truthy full_page \<and> py_truthy template then
                 (case pg_match pg full_page template of
                    None \<Rightarrow> (None, w)
                  | Some (x, y) \<Rightarrow>
                      if act = ''click'' then
                        (case pg_mouse pg x y w of (True, w') \<Rightarrow> (Some ''vision_matcher'', w') | (False, w') \<Rightarrow> (None, w'))
                      else (Some ''vision_matcher'', w))
               else (None, w))
         else if tier = 10 then
           (let intent = get_none params ''intent''
            in if py_truthy intent \<and> py_truthy (get_none params ''dom_inspector'') then
                 (case pg_heal pg intent w of
                    (Some (PDict r), w') \<Rightarrow> raw_locator pg (get_none r ''selector'') act params w'
                  | (_, w') \<Rightarrow> (None, w'))
               else (None, w))
         else (None, w))"

fun resolve ::
  "'w page \<Rightarrow> pyval \<Rightarrow> pyval \<Rightarrow> string \<Rightarrow> (string \<times> pyval) list \<Rightarrow> int list \<Rightarrow> 'w \<Rightarrow> (int \<times> string) option \<times> 'w" where
  "resolve pg place_value face_value act params [] w = (None, w)"
| "resolve pg place_value face_value act params (tier # tiers) w =
     (case try_tier pg tier place_value face_value act params w of
        (Some l, w') \<Rightarrow> (Some (tier, l), w')
      | (None, w') \<Rightarrow> resolve pg place_value face_value act params tiers w')"

text \<open>The promotion of the winning tier by the executor.\<close>

definition promote :: "int \<Rightarrow> int list \<Rightarrow> int list" where
  "promote winner old = winner # filter (\<lambda>t. t \<noteq> winner) old"

text \<open>The world after a list of tiers has been tried in vain.\<close>

fun tried_in_vain ::
  "'w page \<Rightarrow> pyval \<Rightarrow> pyval \<Rightarrow> string \<Rightarrow> (string \<times> pyval) list \<Rightarrow> int list \<Rightarrow> 'w \<Rightarrow> 'w option" where
  "tried_in_vain pg pv fv act params [] w = Some w"
| "tried_in_vain pg pv fv act params (t # ts) w =
     (case try_tier pg t pv fv act params w of
        (Some _, _) \<Rightarrow> None
      | (None, w') \<Rightarrow> tried_in_vain pg pv fv act params ts w')"

lemma resolve_first:
  "resolve pg pv fv act params ts w = (Some (t, l), w') \<longleftrightarrow>
     (\<exists>before after w0. ts = before @ t # after \<and> tried_in_vain pg pv fv act params before w = Some w0 \<and>
        try_tier pg t pv fv act params w0 = (Some l, w'))"
proof (induction ts arbitrary: w)
  case (Cons u us)
  obtain r w1 where r: "try_tier pg u pv fv act params w = (r, w1)" by fastforce
  show ?case
  proof (cases r)
    case None
    have "(\<exists>before after w0. u # us = before @ t # after \<and> tried_in_vain pg pv fv act params before w = Some w0 \<and>
        try_tier pg t pv fv act params w0 = (Some l, w')) \<longleftrightarrow>
      (\<exists>before after w0. us = before @ t # after \<and> tried_in_vain pg pv fv act params before w1 = Some w0 \<and>
        try_tier pg t pv fv act params w0 = (Some l, w'))" (is "?L \<longleftrightarrow> ?R")
    proof
      assume ?L
      then obtain before after w0 where b: "u # us = before @ t # after" "tried_in_vain pg pv fv act params before w = Some w0"
        "try_tier pg t pv fv act params w0 = (Some l, w')" by blast
      with r None show ?R by (cases before) auto
    next
      assume ?R
      then obtain before after w0 where b: "us = before @ t # after" "tried_in_vain pg pv fv act params before w1 = Some w0"
        "try_tier pg t pv fv act params w0 = (Some l, w')" by blast
      with r None show ?L by (intro exI [of _ "u # before"] exI [of _ after] exI [of _ w0]) simp
    qed
    with r None Cons.IH show ?thesis by simp
  next
    case (Some l')
    show ?thesis
    proof
      assume "resolve pg pv fv act params (u # us) w = (Some (t, l), w')"
      with r Some show "\<exists>before after w0. u # us = before @ t # after \<and> tried_in_vain pg pv fv act params before w = Some w0 \<and>
          try_tier pg t pv fv act params w0 = (Some l, w')"
        by (intro exI [of _ "[]"] exI [of _ us] exI [of _ w]) simp
    next
      assume "\<exists>before after w0. u # us = before @ t # after \<and> tried_in_vain pg pv fv act params before w = Some w0 \<and>
          try_tier pg t pv fv act params w0 = (Some l, w')"
      then obtain before after w0 where b: "u # us = before @ t # after" "tried_in_vain pg pv fv act params before w = Some w0"
        "try_tier pg t pv fv act params w0 = (Some l, w')" by blast
      with r Some show "resolve pg pv fv act params (u # us) w = (Some (t, l), w')" by (cases before) auto
    qed
  qed
qed simp

text \<open>The cascade acts through the first tier of the priority list that works, after every tier
  before it has failed; and promoting that tier keeps the list a list of the same tiers without
  repetition, with the winner first, so that the next search on a page that still accepts it
  ends there at once.
\<close>

theorem cascade_first_and_promotion:
  assumes "resolve pg pv fv act params old w = (Some (t, l), w')" and "distinct old"
  shows "(\<exists>before after w0. old = before @ t # after \<and> tried_in_vain pg pv fv act params before w = Some w0 \<and>
            try_tier pg t pv fv act params w0 = (Some l, w')) \<and>
     distinct (promote t old) \<and> set (promote t old) = set old \<and> length (promote t old) = length old \<and>
     (fst (try_tier pg t pv fv act params v) = Some m \<longrightarrow>
        resolve pg pv fv act params (promote t old) v = (Some (t, m), snd (try_tier pg t pv fv act params v)))"
proof -
  from assms(1) obtain before after w0 where b: "old = before @ t # after"
    "tried_in_vain pg pv fv act params before w = Some w0" "try_tier pg t pv fv act params w0 = (Some l, w')"
    unfolding resolve_first by blast
  have "filter (\<lambda>x. x \<noteq> t) old = before @ after"
  proof -
    have "filter (\<lambda>x. x \<noteq> t) before = before" "filter (\<lambda>x. x \<noteq> t) after = after"
      using assms(2) b(1) by (auto intro: filter_True)
    with b(1) show ?thesis by simp
  qed
  with b(1) assms(2) have p: "distinct (promote t old)" "set (promote t old) = set old" "length (promote t old) = length old"
    by (auto simp: promote_def)
  have "resolve pg pv fv act params (promote t old) v = (Some (t, m), snd (try_tier pg t pv fv act params v))"
    if "fst (try_tier pg t pv fv act params v) = Some m"
    using that by (cases "try_tier pg t pv fv act params v") (simp add: promote_def)
  with b p show ?thesis by blast
qed

definition css_page :: "nat page" where
  "css_page = \<lparr>pg_perform = (\<lambda>l act t w. (l = ''#buy'', Suc w)), pg_mouse = (\<lambda>x y w. (False, w)), pg_match = (\<lambda>_ _. None),
     pg_heal = (\<lambda>_ w. (None, w)), pg_repr = (\<lambda>_. [])\<rparr>"

theorem cascade_first_and_promotion_witness:
  "resolve css_page (PDict [(''aria_label'', PStr ''Buy''), (''css'', PStr ''#buy'')]) (PDict []) ''click'' []
     (promote 6 [1, 2, 3, 6, 7]) 0 = (Some (6, ''#buy''), 1)"
proof -
  define pv where "pv = PDict [(''aria_label'', PStr ''Buy''), (''css'', PStr ''#buy'')]"
  have tier: "try_tier css_page 6 pv (PDict []) ''click'' [] w = (Some ''#buy'', Suc w)" for w
    by (simp add: try_tier_def css_page_def pv_def one_locator_def raw_locator_def perform_action_def get_none_def)
  have "resolve css_page pv (PDict []) ''click'' [] [1, 2, 3, 6, 7] 0 = (Some (6, ''#buy''), 2)"
    by (simp add: try_tier_def css_page_def pv_def one_locator_def raw_locator_def perform_action_def get_none_def str_values_def)
  from cascade_first_and_promotion [OF this, of 0 "''#buy''"] tier [of 0] show ?thesis
    by (simp add: pv_def)
qed

text \<open>
  For \<open>extract_data\<close> the cascade never touches the page: the action is not among those it
  performs, so the first tier with a value wins, whether or not the page has the element.
\<close>

lemma extract_resolves_untouched:
  "s \<noteq> [] \<Longrightarrow> resolve pg (PDict [(''css'', PStr s)]) fv ''extract_data'' params [1, 2, 3, 4, 6] w = (Some (6, s), w)"
  by (simp add: try_tier_def one_locator_def raw_locator_def perform_action_def get_none_def str_values_def)

end
