(* ===== verification/Slots.thy ===== *)
theory Slots
  imports Prelude
begin

text \<open>
  The slot manager (\<open>xioflow/compute/slot_manager.py\<close>): how many browsers of each kind may run
  on a machine, and which worker holds a session. Times are microseconds.
\<close>

section \<open>Slots\<close>

datatype slot_error = ConcurrencyLimit

record session_lock =
  sl_worker_id :: string
  sl_expires_at :: datetime

record slot_manager =
  sm_runtime_type :: string
  sm_slot_counts :: "(string \<times> int) list"
  sm_session_locks :: "(string \<times> session_lock) list"

definition concurrency_limits :: "(string \<times> (string \<times> int) list) list" where
  "concurrency_limits =
     [(''cpu'', [(''headed'', 3), (''headless'', 6), (''appetize'', 10)]),
      (''gpu'', [(''headed'', 6), (''headless'', 10), (''appetize'', 15)])]"

definition new_slot_manager :: "string \<Rightarrow> slot_manager" where
  "new_slot_manager runtime_type =
     \<lparr>sm_runtime_type = runtime_type, sm_slot_counts = [(''headed'', 0), (''headless'', 0), (''appetize'', 0)],
      sm_session_locks = []\<rparr>"

definition get_int :: "(string \<times> int) list \<Rightarrow> string \<Rightarrow> int" where
  "get_int d k = (case map_of d k of None \<Rightarrow> 0 | Some n \<Rightarrow> n)"

definition limits_of :: "string \<Rightarrow> (string \<times> int) list" where
  "limits_of runtime = (case map_of concurrency_limits runtime of None \<Rightarrow> [] | Some d \<Rightarrow> d)"

definition slot_count :: "slot_manager \<Rightarrow> string \<Rightarrow> int" where
  "slot_count sm k = get_int (sm_slot_counts sm) k"

definition acquire_slot :: "string \<Rightarrow> slot_manager \<Rightarrow> slot_error + slot_manager" where
  "acquire_slot k sm =
     (let limit = get_int (limits_of (sm_runtime_type sm)) k
      in if slot_count sm k < limit
         then Inr (sm\<lparr>sm_slot_counts := AList.update k (slot_count sm k + 1) (sm_slot_counts sm)\<rparr>)
         else Inl ConcurrencyLimit)"

definition release_slot :: "string \<Rightarrow> slot_manager \<Rightarrow> slot_manager" where
  "release_slot k sm =
     (if slot_count sm k > 0
      then sm\<lparr>sm_slot_counts := AList.update k (slot_count sm k - 1) (sm_slot_counts sm)\<rparr> else sm)"

definition get_available_slots :: "slot_manager \<Rightarrow> (string \<times> int) list" where
  "get_available_slots sm = map (\<lambda>(k, limit). (k, limit - slot_count sm k)) (limits_of (sm_runtime_type sm))"

section \<open>Session locks\<close>

text \<open>The first component is False where \<open>SessionLockConflict\<close> is raised.\<close>

definition acquire_session_lock :: "datetime \<Rightarrow> string \<Rightarrow> string \<Rightarrow> int \<Rightarrow> slot_manager \<Rightarrow> bool \<times> slot_manager" where
  "acquire_session_lock now session worker ttl sm =
     (case map_of (sm_session_locks sm) session of
        Some lock \<Rightarrow>
          if sl_expires_at lock > now \<and> sl_worker_id lock \<noteq> worker then (False, sm)
          else (True, sm\<lparr>sm_session_locks := AList.update session \<lparr>sl_worker_id = worker, sl_expires_at = now + ttl\<rparr> (sm_session_locks sm)\<rparr>)
      | None \<Rightarrow>
          (True, sm\<lparr>sm_session_locks := AList.update session \<lparr>sl_worker_id = worker, sl_expires_at = now + ttl\<rparr> (sm_session_locks sm)\<rparr>))"

definition release_session_lock :: "string \<Rightarrow> string \<Rightarrow> slot_manager \<Rightarrow> slot_manager" where
  "release_session_lock session worker sm =
     (case map_of (sm_session_locks sm) session of
        Some lock \<Rightarrow> if sl_worker_id lock = worker then sm\<lparr>sm_session_locks := AList.delete session (sm_session_locks sm)\<rparr> else sm
      | None \<Rightarrow> sm)"

section \<open>Operations and their invariant\<close>

datatype slot_op = AcquireSlot string | ReleaseSlot string | LockSession datetime string string int | UnlockSession string string

fun slot_do :: "slot_op \<Rightarrow> slot_manager \<Rightarrow> slot_manager" where
  "slot_do (AcquireSlot k) sm = (case acquire_slot k sm of Inl _ \<Rightarrow> sm | Inr sm' \<Rightarrow> sm')"
| "slot_do (ReleaseSlot k) sm = release_slot k sm"
| "slot_do (LockSession now s w ttl) sm = snd (acquire_session_lock now s w ttl sm)"
| "slot_do (UnlockSession s w) sm = release_session_lock s w sm"

definition slots_inv :: "string \<Rightarrow> slot_manager \<Rightarrow> bool" where
  "slots_inv runtime sm \<longleftrightarrow> sm_runtime_type sm = runtime \<and>
     (\<forall>k. 0 \<le> slot_count sm k \<and> slot_count sm k \<le> get_int (limits_of runtime) k)"

lemma slot_count_update [simp]:
  "slot_count (sm\<lparr>sm_slot_counts := AList.update k v (sm_slot_counts sm)\<rparr>) j = (if j = k then v else slot_count sm j)"
  by (simp add: slot_count_def get_int_def update_conv')

lemma slot_count_locks [simp]: "slot_count (sm\<lparr>sm_session_locks := l\<rparr>) j = slot_count sm j"
  by (simp add: slot_count_def)

interpretation slots: component slot_do "slots_inv runtime" for runtime
proof
  fix sm x
  assume inv: "slots_inv runtime sm"
  have "slot_count sm k - 1 \<le> get_int (limits_of (sm_runtime_type sm)) k" for k
  proof -
    have "slot_count sm k \<le> get_int (limits_of (sm_runtime_type sm)) k" using inv by (auto simp: slots_inv_def)
    then show ?thesis by simp
  qed
  with inv show "slots_inv runtime (slot_do x sm)"
    by (cases x)
      (auto simp: slots_inv_def acquire_slot_def release_slot_def acquire_session_lock_def release_session_lock_def Let_def
        split: option.splits)
qed

lemma limits_nonneg: "0 \<le> get_int (limits_of runtime) k"
  by (auto simp: get_int_def limits_of_def concurrency_limits_def split: option.split dest!: map_of_SomeD)

lemma slots_inv_new: "slots_inv runtime (new_slot_manager runtime)"
  using limits_nonneg by (simp add: slots_inv_def new_slot_manager_def slot_count_def get_int_def)

text \<open>Whatever sequence of slots and locks is taken and given back, refused requests included, the
  slots in use of every kind stay between none and the limit of the machine, so none of the
  availabilities reported is negative.
\<close>

theorem slots_within_limits:
  "list_all (\<lambda>(k, free). 0 \<le> free \<and> free \<le> get_int (limits_of runtime) k)
     (get_available_slots (fold slot_do ops (new_slot_manager runtime)))
   \<and> 0 \<le> slot_count (fold slot_do ops (new_slot_manager runtime)) kind
   \<and> slot_count (fold slot_do ops (new_slot_manager runtime)) kind \<le> get_int (limits_of runtime) kind"
proof -
  define sm where "sm = fold slot_do ops (new_slot_manager runtime)"
  have inv: "slots_inv runtime sm" unfolding sm_def by (rule slots.run_inv [OF slots_inv_new])
  have distinct: "distinct (map fst (limits_of runtime))"
    by (simp add: limits_of_def concurrency_limits_def)
  have "0 \<le> limit - slot_count sm k \<and> limit - slot_count sm k \<le> get_int (limits_of runtime) k"
    if "(k, limit) \<in> set (limits_of runtime)" for k limit
  proof -
    have "get_int (limits_of runtime) k = limit" using that distinct by (simp add: get_int_def)
    with inv show ?thesis by (auto simp: slots_inv_def)
  qed
  then have "list_all (\<lambda>(k, free). 0 \<le> free \<and> free \<le> get_int (limits_of runtime) k) (get_available_slots sm)"
    using inv by (auto simp: list_all_iff get_available_slots_def slots_inv_def)
  with inv show ?thesis by (simp add: sm_def slots_inv_def)
qed

text \<open>The holder of a session at a time.\<close>

definition holder :: "datetime \<Rightarrow> string \<Rightarrow> slot_manager \<Rightarrow> string option" where
  "holder now session sm =
     (case map_of (sm_session_locks sm) session of
        Some lock \<Rightarrow> if sl_expires_at lock > now then Some (sl_worker_id lock) else None
      | None \<Rightarrow> None)"

fun takes_from :: "datetime \<Rightarrow> string \<Rightarrow> string \<Rightarrow> slot_op \<Rightarrow> bool" where
  "takes_from until session worker (LockSession now s w ttl) = (s = session \<and> (w = worker \<or> until \<le> now))"
| "takes_from until session worker (UnlockSession s w) = (s = session \<and> w = worker)"
| "takes_from until session worker _ = False"

lemma lock_kept:
  assumes "map_of (sm_session_locks sm) session = Some lock" and "\<not> takes_from (sl_expires_at lock) session (sl_worker_id lock) x"
  shows "map_of (sm_session_locks (slot_do x sm)) session = Some lock"
  using assms
  by (cases x)
    (auto simp: acquire_slot_def release_slot_def acquire_session_lock_def release_session_lock_def Let_def update_conv' delete_conv'
      split: option.splits)

text \<open>A worker that locks a session holds it until the lock expires or it lets go itself: no
  sequence of requests of other workers, made before the expiry, takes the session, and each of
  their requests for it is refused.
\<close>

theorem session_lock_exclusive:
  assumes locked: "acquire_session_lock now session worker ttl sm = (True, sm')"
    and others: "list_all (\<lambda>x. \<not> takes_from (now + ttl) session worker x) ops"
    and t: "t < now + ttl" and other: "w \<noteq> worker"
  shows "holder t session (fold slot_do ops sm') = Some worker \<and>
     fst (acquire_session_lock t session w ttl2 (fold slot_do ops sm')) = False"
proof -
  define lock where "lock = \<lparr>sl_worker_id = worker, sl_expires_at = now + ttl\<rparr>"
  have start: "map_of (sm_session_locks sm') session = Some lock"
    using locked by (auto simp: acquire_session_lock_def lock_def update_conv' split: option.splits if_splits)
  have "map_of (sm_session_locks (fold slot_do ops s)) session = Some lock"
    if "map_of (sm_session_locks s) session = Some lock" "list_all (\<lambda>x. \<not> takes_from (now + ttl) session worker x) ops" for s
    using that
  proof (induction ops arbitrary: s)
    case (Cons x ops)
    from lock_kept [OF Cons.prems(1), of x] Cons show ?case by (simp add: lock_def)
  qed simp
  from this [OF start others] show ?thesis
    using t other by (simp add: holder_def acquire_session_lock_def lock_def)
qed

theorem session_lock_exclusive_witness:
  "fst (acquire_session_lock 250 ''s'' ''w2'' 300
      (fold slot_do [LockSession 20 ''s'' ''w2'' 300, UnlockSession ''s'' ''w2'', AcquireSlot ''headed'']
        (snd (acquire_session_lock 0 ''s'' ''w1'' 300 (new_slot_manager ''cpu''))))) = False"
proof -
  define sm' where "sm' = snd (acquire_session_lock 0 ''s'' ''w1'' 300 (new_slot_manager ''cpu''))"
  have "acquire_session_lock 0 ''s'' ''w1'' 300 (new_slot_manager ''cpu'') = (True, sm')"
    by (simp add: sm'_def acquire_session_lock_def new_slot_manager_def)
  from session_lock_exclusive [OF this, of "[LockSession 20 ''s'' ''w2'' 300, UnlockSession ''s'' ''w2'', AcquireSlot ''headed'']" 250 "''w2''" 300]
  show ?thesis by (simp add: sm'_def)
qed

end
