(* ===== verification/Sessions.thy ===== *)
theory Sessions
  imports Tenancy Tokens
begin

text \<open>
  The session lifecycle: the repository of \<^verbatim>\<open>persistence/identity.py\<close> over the member, membership
  and session tables, and the \<open>SessionService\<close> of \<^verbatim>\<open>services/identity.py\<close> with login and lockout,
  the rotation of refresh tokens, revocation, and the validation of an access token.

  Every repository method is a transaction of its own, so what two concurrent requests can do to the
  tables is an interleaving of repository calls: \<open>repo_call\<close> lists the writing ones, and a history
  is any list of them. A service method answers a result and the tables it leaves, since what it
  wrote before it raised stays written. \<open>refresh\<close> is written as the two halves between which
  another request can run.

  Parameters: PyJWT as in the theory of tokens; \<open>verify\<close>, the password check of argon2 (None for an
  exception that \<open>verify_password\<close> does not catch); \<open>sha\<close>, the hexadecimal SHA-256 of a text; the
  fresh identifiers and the random part of a refresh token.
\<close>

section \<open>Tables\<close>

record member_row =
  ma_id :: uuid
  ma_organization_id :: uuid
  ma_human_actor_id :: uuid
  ma_email :: string
  ma_password_hash :: "string option"
  ma_state :: string
  ma_failed_attempts :: int
  ma_locked_until :: "datetime option"
  ma_updated_at :: "datetime option"

record membership_row =
  mb_auth_identity_id :: uuid
  mb_organization_id :: uuid
  mb_membership_role :: string

record session_row =
  ss_id :: uuid
  ss_organization_id :: uuid
  ss_auth_identity_id :: uuid
  ss_refresh_token_hash :: string
  ss_state :: string
  ss_expires_at :: datetime
  ss_last_used_at :: "datetime option"
  ss_revoked_at :: "datetime option"
  ss_updated_at :: "datetime option"

record auth_db =
  ad_members :: "member_row list"
  ad_memberships :: "membership_row list"
  ad_sessions :: "session_row list"

section \<open>The repository\<close>

definition find_identity_by_email :: "uuid \<Rightarrow> string \<Rightarrow> auth_db \<Rightarrow> member_row option" where
  "find_identity_by_email org email db =
     find (\<lambda>r. ma_organization_id r = org \<and> ma_email r = email) (ad_members db)"

definition get_identity :: "uuid \<Rightarrow> uuid \<Rightarrow> auth_db \<Rightarrow> member_row option" where
  "get_identity org i db = find (\<lambda>r. ma_organization_id r = org \<and> ma_id r = i) (ad_members db)"

definition update_member :: "uuid \<Rightarrow> uuid \<Rightarrow> (member_row \<Rightarrow> member_row) \<Rightarrow> auth_db \<Rightarrow> auth_db" where
  "update_member org i f db = db\<lparr> ad_members :=
     update_where (\<lambda>r. ma_organization_id r = org \<and> ma_id r = i) f (ad_members db) \<rparr>"

definition record_failed_attempt ::
  "uuid \<Rightarrow> uuid \<Rightarrow> int \<Rightarrow> datetime option \<Rightarrow> datetime \<Rightarrow> auth_db \<Rightarrow> auth_db" where
  "record_failed_attempt org i failed_attempts locked_until now db =
     update_member org i (\<lambda>r. r\<lparr> ma_failed_attempts := failed_attempts, ma_locked_until := locked_until,
       ma_updated_at := Some now \<rparr>) db"

definition reset_failed_attempts :: "uuid \<Rightarrow> uuid \<Rightarrow> datetime \<Rightarrow> auth_db \<Rightarrow> auth_db" where
  "reset_failed_attempts org i now db =
     update_member org i (\<lambda>r. r\<lparr> ma_failed_attempts := 0, ma_locked_until := None, ma_updated_at := Some now \<rparr>) db"

definition get_membership_role :: "uuid \<Rightarrow> uuid \<Rightarrow> auth_db \<Rightarrow> string option" where
  "get_membership_role org i db =
     map_option mb_membership_role
       (find (\<lambda>r. mb_organization_id r = org \<and> mb_auth_identity_id r = i) (ad_memberships db))"

text \<open>An INSERT; None when the primary key is taken.\<close>

definition create_session ::
  "uuid \<Rightarrow> uuid \<Rightarrow> uuid \<Rightarrow> string \<Rightarrow> datetime \<Rightarrow> auth_db \<Rightarrow> auth_db option" where
  "create_session org i session_id refresh_token_hash expires_at db =
     (if session_id \<in> ss_id ` set (ad_sessions db) then None
      else Some (db\<lparr> ad_sessions := ad_sessions db @
        [\<lparr> ss_id = session_id, ss_organization_id = org, ss_auth_identity_id = i,
           ss_refresh_token_hash = refresh_token_hash, ss_state = ''active'', ss_expires_at = expires_at,
           ss_last_used_at = None, ss_revoked_at = None, ss_updated_at = None \<rparr>] \<rparr>))"

definition get_session :: "uuid \<Rightarrow> uuid \<Rightarrow> auth_db \<Rightarrow> session_row option" where
  "get_session org sid db = find (\<lambda>r. ss_organization_id r = org \<and> ss_id r = sid) (ad_sessions db)"

text \<open>An UPDATE of sessions and its row count.\<close>

definition update_sessions ::
  "(session_row \<Rightarrow> bool) \<Rightarrow> (session_row \<Rightarrow> session_row) \<Rightarrow> auth_db \<Rightarrow> nat \<times> auth_db" where
  "update_sessions p f db =
     (length (filter p (ad_sessions db)), db\<lparr> ad_sessions := update_where p f (ad_sessions db) \<rparr>)"

definition rotate_refresh_token_hash ::
  "uuid \<Rightarrow> uuid \<Rightarrow> string \<Rightarrow> string \<Rightarrow> datetime \<Rightarrow> auth_db \<Rightarrow> bool \<times> auth_db" where
  "rotate_refresh_token_hash org sid expected_hash new_hash now db =
     (let (n, db') = update_sessions
        (\<lambda>r. ss_organization_id r = org \<and> ss_id r = sid \<and> ss_state r = ''active''
           \<and> ss_refresh_token_hash r = expected_hash)
        (\<lambda>r. r\<lparr> ss_refresh_token_hash := new_hash, ss_last_used_at := Some now, ss_updated_at := Some now \<rparr>) db
      in (n = 1, db'))"

definition revoke_session_row :: "datetime \<Rightarrow> session_row \<Rightarrow> session_row" where
  "revoke_session_row now r = r\<lparr> ss_state := ''revoked'', ss_revoked_at := Some now, ss_updated_at := Some now \<rparr>"

definition revoke_session :: "uuid \<Rightarrow> uuid \<Rightarrow> datetime \<Rightarrow> auth_db \<Rightarrow> auth_db" where
  "revoke_session org sid now db =
     snd (update_sessions (\<lambda>r. ss_organization_id r = org \<and> ss_id r = sid \<and> ss_state r = ''active'')
       (revoke_session_row now) db)"

definition revoke_all_sessions :: "uuid \<Rightarrow> uuid \<Rightarrow> datetime \<Rightarrow> auth_db \<Rightarrow> nat \<times> auth_db" where
  "revoke_all_sessions org i now db =
     update_sessions (\<lambda>r. ss_organization_id r = org \<and> ss_auth_identity_id r = i \<and> ss_state r = ''active'')
       (revoke_session_row now) db"

section \<open>The service\<close>

definition LOCKOUT_THRESHOLD :: int where "LOCKOUT_THRESHOLD = 5"

definition LOCKOUT_DURATION :: int where "LOCKOUT_DURATION = 15 * 60 * 1000000"

definition SESSION_TTL :: int where "SESSION_TTL = 14 * 24 * 3600 * 1000000"

text \<open>
  \<open>AuthenticationError\<close>, and the exceptions that are not one: a primary key that is taken, a
  password check that raises, and what issuing or decoding a token raises beside its rejection.
\<close>

datatype auth_error = AuthenticationFailed | SessionIdTaken | PasswordCheckRaised | TokenRaised token_error

record 'tok token_pair =
  tp_access_token :: 'tok
  tp_access_token_expires_at :: datetime
  tp_refresh_token :: string
  tp_session_id :: uuid
  tp_organization_id :: uuid

type_synonym password_check = "string option \<Rightarrow> string \<Rightarrow> bool option"

definition mint_refresh_token :: "uuid \<Rightarrow> uuid \<Rightarrow> string \<Rightarrow> string" where
  "mint_refresh_token sid org random = uuid_str sid @ ''.'' @ uuid_str org @ ''.'' @ random"

text \<open>\<open>token.split('.', 2)\<close> into exactly three parts, the last not empty.\<close>

definition split_at :: "char \<Rightarrow> string \<Rightarrow> (string \<times> string) option" where
  "split_at c s =
     (case dropWhile (\<lambda>x. x \<noteq> c) s of [] \<Rightarrow> None | _ # rest \<Rightarrow> Some (takeWhile (\<lambda>x. x \<noteq> c) s, rest))"

definition parse_refresh_token :: "string \<Rightarrow> auth_error + uuid \<times> uuid" where
  "parse_refresh_token token =
     (case split_at CHR ''.'' token of
        None \<Rightarrow> Inl AuthenticationFailed
      | Some (session_part, rest) \<Rightarrow>
          (case split_at CHR ''.'' rest of
             None \<Rightarrow> Inl AuthenticationFailed
           | Some (org_part, secret_part) \<Rightarrow>
               if secret_part = [] then Inl AuthenticationFailed
               else case (parse_uuid session_part, parse_uuid org_part) of
                 (Inr sid, Inr org) \<Rightarrow> Inr (sid, org)
               | _ \<Rightarrow> Inl AuthenticationFailed))"

definition identity_usable :: "member_row \<Rightarrow> datetime \<Rightarrow> bool" where
  "identity_usable m now \<longleftrightarrow>
     ma_state m = ''active'' \<and> (case ma_locked_until m of None \<Rightarrow> True | Some t \<Rightarrow> t \<le> now)"

definition register_failure :: "member_row \<Rightarrow> datetime \<Rightarrow> auth_db \<Rightarrow> auth_db" where
  "register_failure m now db =
     (let attempts = ma_failed_attempts m + 1;
          locked_until = (if attempts \<ge> LOCKOUT_THRESHOLD then Some (now + LOCKOUT_DURATION) else None)
      in record_failed_attempt (ma_organization_id m) (ma_id m) attempts locked_until now db)"

text \<open>The tokens of a session: an access token beside the refresh token.\<close>

definition token_pair_for ::
  "'tok jwt_encode \<Rightarrow> string \<Rightarrow> uuid \<Rightarrow> uuid \<Rightarrow> uuid \<Rightarrow> member_row \<Rightarrow> string \<Rightarrow> datetime \<Rightarrow> auth_error + 'tok token_pair" where
  "token_pair_for enc secret jti sid org m refresh_token now =
     (case issue_access_token enc secret jti sid org (ma_human_actor_id m) (Aware now) ACCESS_TOKEN_MAX_TTL of
        Inl e \<Rightarrow> Inl (TokenRaised e)
      | Inr (token, claims) \<Rightarrow>
          Inr \<lparr> tp_access_token = token, tp_access_token_expires_at = at_expires_at claims,
                tp_refresh_token = refresh_token, tp_session_id = sid, tp_organization_id = org \<rparr>)"

definition open_session ::
  "'tok jwt_encode \<Rightarrow> (string \<Rightarrow> string) \<Rightarrow> string \<Rightarrow> member_row \<Rightarrow> datetime \<Rightarrow> uuid \<Rightarrow> string \<Rightarrow> uuid \<Rightarrow> auth_db
   \<Rightarrow> (auth_error + 'tok token_pair) \<times> auth_db" where
  "open_session enc sha secret m now sid random jti db =
     (let org = ma_organization_id m; refresh_token = mint_refresh_token sid org random
      in case create_session org (ma_id m) sid (sha refresh_token) (now + SESSION_TTL) db of
           None \<Rightarrow> (Inl SessionIdTaken, db)
         | Some db' \<Rightarrow> (token_pair_for enc secret jti sid org m refresh_token now, db'))"

definition login ::
  "'tok jwt_encode \<Rightarrow> (string \<Rightarrow> string) \<Rightarrow> password_check \<Rightarrow> string \<Rightarrow> uuid \<Rightarrow> string \<Rightarrow> string \<Rightarrow> datetime
   \<Rightarrow> uuid \<Rightarrow> string \<Rightarrow> uuid \<Rightarrow> auth_db \<Rightarrow> (auth_error + 'tok token_pair) \<times> auth_db" where
  "login enc sha verify secret org email password now sid random jti db =
     (case find_identity_by_email org email db of
        None \<Rightarrow> (Inl AuthenticationFailed, db)
      | Some m \<Rightarrow>
          if \<not> identity_usable m now then (Inl AuthenticationFailed, db)
          else (case verify (ma_password_hash m) password of
             None \<Rightarrow> (Inl PasswordCheckRaised, db)
           | Some False \<Rightarrow> (Inl AuthenticationFailed, register_failure m now db)
           | Some True \<Rightarrow>
               let db1 = (if ma_failed_attempts m \<noteq> 0 then reset_failed_attempts org (ma_id m) now db else db)
               in case get_membership_role org (ma_id m) db1 of
                    None \<Rightarrow> (Inl AuthenticationFailed, db1)
                  | Some _ \<Rightarrow> open_session enc sha secret m now sid random jti db1))"

text \<open>
  \<open>refresh\<close> up to its compare-and-swap: the session, the organization, the hash presented and the
  identity, or a raise.
\<close>

definition refresh_read ::
  "(string \<Rightarrow> string) \<Rightarrow> string \<Rightarrow> datetime \<Rightarrow> auth_db
   \<Rightarrow> (auth_error + uuid \<times> uuid \<times> string \<times> member_row) \<times> auth_db" where
  "refresh_read sha refresh_token now db =
     (case parse_refresh_token refresh_token of
        Inl e \<Rightarrow> (Inl e, db)
      | Inr (sid, org) \<Rightarrow>
          (case get_session org sid db of
             None \<Rightarrow> (Inl AuthenticationFailed, db)
           | Some s \<Rightarrow>
               if ss_expires_at s \<le> now then (Inl AuthenticationFailed, db)
               else
                 let presented = sha refresh_token
                 in if ss_state s \<noteq> ''active'' then (Inl AuthenticationFailed, db)
                    else if presented \<noteq> ss_refresh_token_hash s
                    then (Inl AuthenticationFailed, revoke_session org sid now db)
                    else (case get_identity org (ss_auth_identity_id s) db of
                       None \<Rightarrow> (Inl AuthenticationFailed, db)
                     | Some m \<Rightarrow>
                         if \<not> identity_usable m now then (Inl AuthenticationFailed, db)
                         else (Inr (sid, org, presented, m), db))))"

definition refresh_swap ::
  "'tok jwt_encode \<Rightarrow> (string \<Rightarrow> string) \<Rightarrow> string \<Rightarrow> uuid \<times> uuid \<times> string \<times> member_row \<Rightarrow> datetime
   \<Rightarrow> string \<Rightarrow> uuid \<Rightarrow> auth_db \<Rightarrow> (auth_error + 'tok token_pair) \<times> auth_db" where
  "refresh_swap enc sha secret found now random jti db =
     (case found of (sid, org, presented, m) \<Rightarrow>
        let new_refresh_token = mint_refresh_token sid org random;
            (rotated, db') = rotate_refresh_token_hash org sid presented (sha new_refresh_token) now db
        in if \<not> rotated then (Inl AuthenticationFailed, revoke_session org sid now db')
           else (token_pair_for enc secret jti sid org m new_refresh_token now, db'))"

definition refresh ::
  "'tok jwt_encode \<Rightarrow> (string \<Rightarrow> string) \<Rightarrow> string \<Rightarrow> string \<Rightarrow> datetime \<Rightarrow> string \<Rightarrow> uuid \<Rightarrow> auth_db
   \<Rightarrow> (auth_error + 'tok token_pair) \<times> auth_db" where
  "refresh enc sha secret refresh_token now random jti db =
     (case refresh_read sha refresh_token now db of
        (Inl e, db') \<Rightarrow> (Inl e, db')
      | (Inr found, db') \<Rightarrow> refresh_swap enc sha secret found now random jti db')"

definition logout :: "org_context \<Rightarrow> datetime \<Rightarrow> auth_db \<Rightarrow> auth_db" where
  "logout cx now db = revoke_session (oc_organization_id cx) (oc_session_id cx) now db"

fun parse_membership_role :: "string \<Rightarrow> membership_role option" where
  "parse_membership_role r =
     (if r = ''org_owner'' then Some OrgOwner
      else if r = ''org_admin'' then Some OrgAdmin
      else if r = ''org_member'' then Some OrgMember
      else if r = ''org_viewer'' then Some OrgViewer
      else None)"

definition validate_access_token ::
  "'tok jwt_decode \<Rightarrow> (pyval \<Rightarrow> string) \<Rightarrow> string \<Rightarrow> 'tok \<Rightarrow> datetime \<Rightarrow> auth_db \<Rightarrow> auth_error + org_context" where
  "validate_access_token dec repr secret token now db =
     (case verify_access_token dec repr secret token (Aware now) of
        Inl TokenOverflow \<Rightarrow> Inl (TokenRaised TokenOverflow)
      | Inl _ \<Rightarrow> Inl AuthenticationFailed
      | Inr claims \<Rightarrow>
          (case get_session (at_organization_id claims) (at_session_id claims) db of
             None \<Rightarrow> Inl AuthenticationFailed
           | Some s \<Rightarrow>
               if ss_state s \<noteq> ''active'' \<or> ss_expires_at s \<le> now then Inl AuthenticationFailed
               else (case get_identity (at_organization_id claims) (ss_auth_identity_id s) db of
                  None \<Rightarrow> Inl AuthenticationFailed
                | Some m \<Rightarrow>
                    if ma_human_actor_id m \<noteq> at_actor_id claims then Inl AuthenticationFailed
                    else if \<not> identity_usable m now then Inl AuthenticationFailed
                    else (case get_membership_role (at_organization_id claims) (ma_id m) db of
                       None \<Rightarrow> Inl AuthenticationFailed
                     | Some role \<Rightarrow>
                         (case parse_membership_role role of
                            None \<Rightarrow> Inl AuthenticationFailed
                          | Some r \<Rightarrow>
                              (case mk_org_context (IsUuid (ma_id m)) (IsUuid (ma_human_actor_id m))
                                 (IsUuid (at_organization_id claims)) (IsUuid (at_session_id claims))
                                 (IsRole PlatformNone) (IsRole r) of
                                 Inl _ \<Rightarrow> Inl AuthenticationFailed
                               | Inr cx \<Rightarrow> Inr cx))))))"


section \<open>Histories of repository calls\<close>

datatype repo_call =
    FailedAttempt uuid uuid int "datetime option" datetime
  | ResetAttempts uuid uuid datetime
  | CreateSession uuid uuid uuid string datetime
  | RotateHash uuid uuid string string datetime
  | RevokeSession uuid uuid datetime
  | RevokeAll uuid uuid datetime

fun repo_do :: "repo_call \<Rightarrow> auth_db \<Rightarrow> auth_db" where
  "repo_do (FailedAttempt org i n locked now) db = record_failed_attempt org i n locked now db"
| "repo_do (ResetAttempts org i now) db = reset_failed_attempts org i now db"
| "repo_do (CreateSession org i sid h expires) db =
     (case create_session org i sid h expires db of None \<Rightarrow> db | Some db' \<Rightarrow> db')"
| "repo_do (RotateHash org sid expected h now) db = snd (rotate_refresh_token_hash org sid expected h now db)"
| "repo_do (RevokeSession org sid now) db = revoke_session org sid now db"
| "repo_do (RevokeAll org i now) db = snd (revoke_all_sessions org i now db)"

definition sessions_ok :: "auth_db \<Rightarrow> bool" where
  "sessions_ok db \<longleftrightarrow> distinct (map ss_id (ad_sessions db))"

text \<open>A session keeps what identifies it, and one that is not active is never written again.\<close>

definition session_follows :: "session_row \<Rightarrow> session_row \<Rightarrow> bool" where
  "session_follows r r' \<longleftrightarrow>
     (if ss_state r = ''active''
      then ss_id r' = ss_id r \<and> ss_organization_id r' = ss_organization_id r
        \<and> ss_auth_identity_id r' = ss_auth_identity_id r \<and> ss_expires_at r' = ss_expires_at r
      else r' = r)"

definition sessions_evolve :: "auth_db \<Rightarrow> auth_db \<Rightarrow> bool" where
  "sessions_evolve s t \<longleftrightarrow> (\<forall>r \<in> set (ad_sessions s). \<exists>r' \<in> set (ad_sessions t). session_follows r r')"

lemma session_follows_refl [simp]: "session_follows r r"
  by (simp add: session_follows_def)

lemma session_follows_trans: "session_follows r s \<Longrightarrow> session_follows s t \<Longrightarrow> session_follows r t"
  by (auto simp: session_follows_def split: if_splits)

lemma sessions_evolve_same: "ad_sessions t = ad_sessions s \<Longrightarrow> sessions_evolve s t"
  unfolding sessions_evolve_def by (metis session_follows_refl)

text \<open>What an UPDATE does that only writes active rows and keeps their identity.\<close>

lemma update_sessions_ok:
  assumes "\<And>r. p r \<Longrightarrow> ss_state r = ''active'' \<and> session_follows r (f r)" and "sessions_ok db"
  shows "sessions_ok (snd (update_sessions p f db)) \<and> sessions_evolve db (snd (update_sessions p f db))"
proof
  have "map ss_id (update_where p f (ad_sessions db)) = map ss_id (ad_sessions db)"
    using assms(1) by (intro map_update_where) (auto simp: session_follows_def)
  with assms(2) show "sessions_ok (snd (update_sessions p f db))"
    by (simp add: sessions_ok_def update_sessions_def)
  show "sessions_evolve db (snd (update_sessions p f db))"
    unfolding sessions_evolve_def
  proof
    fix r assume r: "r \<in> set (ad_sessions db)"
    then have "(if p r then f r else r) \<in> set (ad_sessions (snd (update_sessions p f db)))"
      by (simp add: update_sessions_def set_update_where)
    moreover have "session_follows r (if p r then f r else r)" using assms(1) by simp
    ultimately show "\<exists>r' \<in> set (ad_sessions (snd (update_sessions p f db))). session_follows r r'" by blast
  qed
qed

lemma revoke_row_follows: "ss_state r = ''active'' \<Longrightarrow> session_follows r (revoke_session_row now r)"
  by (simp add: session_follows_def revoke_session_row_def)

lemma rotate_result:
  "rotate_refresh_token_hash org sid expected h now db =
     (fst (update_sessions (\<lambda>r. ss_organization_id r = org \<and> ss_id r = sid \<and> ss_state r = ''active''
        \<and> ss_refresh_token_hash r = expected)
        (\<lambda>r. r\<lparr> ss_refresh_token_hash := h, ss_last_used_at := Some now, ss_updated_at := Some now \<rparr>) db) = 1,
      snd (update_sessions (\<lambda>r. ss_organization_id r = org \<and> ss_id r = sid \<and> ss_state r = ''active''
        \<and> ss_refresh_token_hash r = expected)
        (\<lambda>r. r\<lparr> ss_refresh_token_hash := h, ss_last_used_at := Some now, ss_updated_at := Some now \<rparr>) db))"
  by (simp add: rotate_refresh_token_hash_def split_def Let_def)

lemma repo_do_ok:
  assumes "sessions_ok db"
  shows "sessions_ok (repo_do c db) \<and> sessions_evolve db (repo_do c db)"
proof (cases c)
  case (CreateSession org i sid h expires)
  then show ?thesis
    using assms
    by (auto simp: create_session_def sessions_ok_def sessions_evolve_def intro: bexI session_follows_refl)
next
  case (RotateHash org sid expected h now)
  show ?thesis
    unfolding RotateHash repo_do.simps rotate_result snd_conv
    by (rule update_sessions_ok [OF _ assms]) (simp add: session_follows_def)
next
  case (RevokeSession org sid now)
  show ?thesis
    unfolding RevokeSession repo_do.simps revoke_session_def
    by (rule update_sessions_ok [OF _ assms]) (simp add: revoke_row_follows)
next
  case (RevokeAll org i now)
  show ?thesis
    unfolding RevokeAll repo_do.simps revoke_all_sessions_def
    by (rule update_sessions_ok [OF _ assms]) (simp add: revoke_row_follows)
qed (use assms in \<open>auto simp: record_failed_attempt_def reset_failed_attempts_def update_member_def
       sessions_ok_def intro: sessions_evolve_same\<close>)

lemma sessions_evolve_trans: "sessions_evolve s t \<Longrightarrow> sessions_evolve t u \<Longrightarrow> sessions_evolve s u"
  unfolding sessions_evolve_def by (meson session_follows_trans)

interpretation auth_tables: evolving_component repo_do sessions_ok sessions_evolve
  by unfold_locales (auto simp: repo_do_ok intro: sessions_evolve_same sessions_evolve_trans)

subsection \<open>The service is made of repository calls\<close>

lemma fold_one: "repo_do c db = db' \<Longrightarrow> \<exists>cs. db' = fold repo_do cs db"
  by (rule exI [of _ "[c]"]) simp

lemma fold_none: "\<exists>cs. db = fold repo_do cs db"
  by (rule exI [of _ "[]"]) simp

lemma fold_then: "\<exists>cs. db1 = fold repo_do cs db \<Longrightarrow> \<exists>cs. db2 = fold repo_do cs db1 \<Longrightarrow> \<exists>cs. db2 = fold repo_do cs db"
proof -
  assume "\<exists>cs. db1 = fold repo_do cs db" and "\<exists>cs. db2 = fold repo_do cs db1"
  then obtain cs ds where "db1 = fold repo_do cs db" "db2 = fold repo_do ds db1" by blast
  then show ?thesis by (intro exI [of _ "cs @ ds"]) simp
qed

lemma open_session_calls: "\<exists>cs. snd (open_session enc sha secret m now sid random jti db) = fold repo_do cs db"
proof -
  let ?org = "ma_organization_id m"
  let ?c = "CreateSession ?org (ma_id m) sid (sha (mint_refresh_token sid ?org random)) (now + SESSION_TTL)"
  have "snd (open_session enc sha secret m now sid random jti db) = repo_do ?c db"
    by (simp add: open_session_def Let_def split: option.split)
  then show ?thesis by (metis fold_one)
qed

lemma login_calls: "\<exists>cs. snd (login enc sha verify secret org email pw now sid random jti db) = fold repo_do cs db"
proof (cases "find_identity_by_email org email db")
  case None
  then show ?thesis using fold_none by (simp add: login_def)
next
  case (Some m)
  define db1 where "db1 = (if ma_failed_attempts m \<noteq> 0 then reset_failed_attempts org (ma_id m) now db else db)"
  have fail: "\<exists>cs. register_failure m now db = fold repo_do cs db"
    unfolding register_failure_def Let_def by (rule fold_one, rule repo_do.simps)
  have reset: "\<exists>cs. db1 = fold repo_do cs db"
    using fold_one [OF repo_do.simps(2)] fold_none by (simp add: db1_def)
  have opened: "\<exists>cs. snd (open_session enc sha secret m now sid random jti db1) = fold repo_do cs db"
    using fold_then [OF reset open_session_calls] .
  have "snd (login enc sha verify secret org email pw now sid random jti db)
      \<in> {db, register_failure m now db, db1, snd (open_session enc sha secret m now sid random jti db1)}"
    unfolding login_def Some option.case Let_def db1_def [symmetric] by (simp split: option.split bool.split)
  with fail reset opened fold_none [of db] show ?thesis by auto
qed

lemma refresh_read_calls: "\<exists>cs. snd (refresh_read sha token now db) = fold repo_do cs db"
proof -
  have "snd (refresh_read sha token now db) = db
     \<or> (\<exists>sid org. snd (refresh_read sha token now db) = repo_do (RevokeSession org sid now) db)"
    by (auto simp: refresh_read_def Let_def split: sum.split prod.split option.split)
  then show ?thesis by (metis fold_none fold_one)
qed

lemma refresh_swap_calls: "\<exists>cs. snd (refresh_swap enc sha secret found now random jti db) = fold repo_do cs db"
proof -
  obtain sid org presented m where found: "found = (sid, org, presented, m)" by (cases found)
  let ?rotate = "RotateHash org sid presented (sha (mint_refresh_token sid org random)) now"
  have "snd (refresh_swap enc sha secret found now random jti db) = fold repo_do [?rotate] db
     \<or> snd (refresh_swap enc sha secret found now random jti db) = fold repo_do [?rotate, RevokeSession org sid now] db"
    by (simp add: found refresh_swap_def Let_def split: prod.split)
  then show ?thesis by blast
qed

lemma refresh_calls: "\<exists>cs. snd (refresh enc sha secret token now random jti db) = fold repo_do cs db"
proof -
  obtain r db' where r: "refresh_read sha token now db = (r, db')" by fastforce
  then have first: "\<exists>cs. db' = fold repo_do cs db" using refresh_read_calls [of sha token now db] by simp
  show ?thesis
  proof (cases r)
    case (Inl e)
    with r first show ?thesis by (simp add: refresh_def)
  next
    case (Inr found)
    with r fold_then [OF first refresh_swap_calls] show ?thesis by (simp add: refresh_def)
  qed
qed


subsection \<open>Reading after writing\<close>

lemma get_session_update:
  assumes "\<And>r. p r \<Longrightarrow> ss_id (f r) = ss_id r \<and> ss_organization_id (f r) = ss_organization_id r"
  shows "get_session org sid (snd (update_sessions p f db)) = map_option (\<lambda>r. if p r then f r else r) (get_session org sid db)"
  unfolding get_session_def update_sessions_def snd_conv using assms by (simp add: find_update_where)

lemma get_session_Some:
  "get_session org sid db = Some s \<Longrightarrow> s \<in> set (ad_sessions db) \<and> ss_organization_id s = org \<and> ss_id s = sid"
  unfolding get_session_def by (drule find_Some_iff_mem) blast

lemma get_session_mem:
  "sessions_ok db \<Longrightarrow> s \<in> set (ad_sessions db) \<Longrightarrow> get_session (ss_organization_id s) (ss_id s) db = Some s"
  by (simp add: get_session_def find_unique sessions_ok_def)

lemma get_session_revoked:
  "get_session org sid (revoke_session org' sid' now db) =
     map_option (\<lambda>r. if ss_organization_id r = org' \<and> ss_id r = sid' \<and> ss_state r = ''active''
       then revoke_session_row now r else r) (get_session org sid db)"
  unfolding revoke_session_def by (rule get_session_update) (simp add: revoke_session_row_def)

lemma get_session_revoked_all:
  "get_session org sid (snd (revoke_all_sessions org' i now db)) =
     map_option (\<lambda>r. if ss_organization_id r = org' \<and> ss_auth_identity_id r = i \<and> ss_state r = ''active''
       then revoke_session_row now r else r) (get_session org sid db)"
  unfolding revoke_all_sessions_def by (rule get_session_update) (simp add: revoke_session_row_def)

lemma get_session_rotated:
  "get_session org sid (snd (rotate_refresh_token_hash org' sid' expected h now db)) =
     map_option (\<lambda>r. if ss_organization_id r = org' \<and> ss_id r = sid' \<and> ss_state r = ''active''
         \<and> ss_refresh_token_hash r = expected
       then r\<lparr> ss_refresh_token_hash := h, ss_last_used_at := Some now, ss_updated_at := Some now \<rparr> else r)
       (get_session org sid db)"
  unfolding rotate_result snd_conv by (rule get_session_update) simp

lemma revoked_not_active [simp]: "ss_state (revoke_session_row now r) = ''revoked''"
  by (simp add: revoke_session_row_def)

text \<open>A session that is not active stays, as it is, in every history.\<close>

lemma inactive_stays:
  assumes "sessions_ok db" and "get_session org sid db = Some s" and "ss_state s \<noteq> ''active''"
  shows "get_session org sid (fold repo_do cs db) = Some s"
proof -
  from assms(2) have s: "s \<in> set (ad_sessions db)" "ss_organization_id s = org" "ss_id s = sid"
    using get_session_Some by blast+
  have "sessions_evolve db (fold repo_do cs db)" using assms(1) by (rule auth_tables.run_evolves)
  with s(1) assms(3) have "s \<in> set (ad_sessions (fold repo_do cs db))"
    by (auto simp: sessions_evolve_def session_follows_def)
  then show ?thesis
    using get_session_mem [OF auth_tables.run_inv [OF assms(1), of cs]] s(2,3) by blast
qed

text \<open>What a successful validation or refresh says of the tables.\<close>

lemma validate_Inr:
  assumes "validate_access_token dec repr secret token now db = Inr cx"
  obtains s where "get_session (oc_organization_id cx) (oc_session_id cx) db = Some s"
    and "ss_state s = ''active''" and "now < ss_expires_at s"
  using assms
  by (auto simp: validate_access_token_def mk_org_context_iff
      split: sum.splits token_error.splits option.splits if_splits)

lemma refresh_read_Inr:
  assumes "refresh_read sha token now db = (Inr (sid, org, presented, m), db')"
  shows "db' = db \<and> parse_refresh_token token = Inr (sid, org) \<and> presented = sha token \<and> identity_usable m now
    \<and> (\<exists>s. get_session org sid db = Some s \<and> ss_state s = ''active'' \<and> now < ss_expires_at s
      \<and> ss_refresh_token_hash s = sha token \<and> get_identity org (ss_auth_identity_id s) db = Some m)"
  using assms by (auto simp: refresh_read_def Let_def split: sum.splits option.splits if_splits)

lemma token_pair_ids:
  "token_pair_for enc secret jti sid org m rt now = Inr pair \<Longrightarrow> tp_session_id pair = sid \<and> tp_organization_id pair = org"
  by (auto simp: token_pair_for_def split: sum.splits)

lemma refresh_Inr:
  assumes "fst (refresh enc sha secret token now random jti db) = Inr pair"
  obtains s where "get_session (tp_organization_id pair) (tp_session_id pair) db = Some s"
    and "ss_state s = ''active''"
proof -
  obtain found db' where read: "refresh_read sha token now db = (Inr found, db')"
    and swap: "fst (refresh_swap enc sha secret found now random jti db') = Inr pair"
    using assms by (auto simp: refresh_def split: prod.splits sum.splits)
  obtain sid org presented m where found: "found = (sid, org, presented, m)" by (cases found)
  have "tp_session_id pair = sid" "tp_organization_id pair = org"
    using swap by (auto simp: found refresh_swap_def Let_def split: prod.splits if_splits dest: token_pair_ids)
  with refresh_read_Inr [OF read [unfolded found]] that show ?thesis by blast
qed

subsection \<open>Refresh tokens\<close>

lemma uuid_str_no_dot: "CHR ''.'' \<notin> set (uuid_str u)"
proof
  assume "CHR ''.'' \<in> set (uuid_str u)"
  then have "CHR ''.'' \<in> set (filter (\<lambda>c. c \<noteq> CHR ''-'') (uuid_str u))" by simp
  then have "CHR ''.'' \<in> set (hex_digits 32 (unat u))" by (simp only: uuid_str_filter)
  with hex_digits_hex [of 32 "unat u"] have "is_hex CHR ''.''" by (auto simp: list_all_iff)
  then show False by (simp add: is_hex_def)
qed

lemma split_at_append [simp]: "c \<notin> set a \<Longrightarrow> split_at c (a @ c # b) = Some (a, b)"
  by (induction a) (auto simp: split_at_def split: list.splits)

text \<open>A minted token names the session and the organization it was minted for.\<close>

lemma parse_minted: "random \<noteq> [] \<Longrightarrow> parse_refresh_token (mint_refresh_token sid org random) = Inr (sid, org)"
  using uuid_str_no_dot by (simp add: parse_refresh_token_def mint_refresh_token_def)

fun writes_hash :: "string \<Rightarrow> repo_call \<Rightarrow> bool" where
  "writes_hash h (CreateSession org i sid h' expires) = (h' = h)"
| "writes_hash h (RotateHash org sid expected h' now) = (h' = h)"
| "writes_hash h _ = False"

text \<open>A session whose current hash is not \<open>h\<close>.\<close>

definition moved_on :: "uuid \<Rightarrow> uuid \<Rightarrow> string \<Rightarrow> auth_db \<Rightarrow> bool" where
  "moved_on org sid h db \<longleftrightarrow> (\<exists>s. get_session org sid db = Some s \<and> ss_refresh_token_hash s \<noteq> h)"

lemma moved_on_step:
  assumes "moved_on org sid h db" and "\<not> writes_hash h c"
  shows "moved_on org sid h (repo_do c db)"
proof -
  obtain s where s: "get_session org sid db = Some s" "ss_refresh_token_hash s \<noteq> h"
    using assms(1) by (auto simp: moved_on_def)
  show ?thesis
  proof (cases c)
    case (CreateSession org' i sid' h' expires)
    have "get_session org sid (db\<lparr> ad_sessions := ad_sessions db @ xs \<rparr>) = Some s" for xs
      using s(1) by (simp add: get_session_def find_append)
    with CreateSession s show ?thesis by (simp add: moved_on_def create_session_def)
  next
    case (RotateHash org' sid' expected h' now)
    with assms(2) s show ?thesis by (auto simp: moved_on_def get_session_rotated)
  qed (use s in \<open>auto simp: moved_on_def record_failed_attempt_def reset_failed_attempts_def update_member_def
         get_session_def [of org sid "_ \<lparr> ad_members := _ \<rparr>"] get_session_def [of org sid db]
         get_session_revoked get_session_revoked_all revoke_session_row_def\<close>)
qed

lemma moved_on_run:
  "moved_on org sid h db \<Longrightarrow> list_all (\<lambda>c. \<not> writes_hash h c) cs \<Longrightarrow> moved_on org sid h (fold repo_do cs db)"
  by (induction cs arbitrary: db) (auto intro: moved_on_step)

definition session_live :: "uuid \<Rightarrow> uuid \<Rightarrow> auth_db \<Rightarrow> bool" where
  "session_live org sid db \<longleftrightarrow> (\<exists>s. get_session org sid db = Some s \<and> ss_state s = ''active'')"

lemma revoke_session_kills: "\<not> session_live org sid (revoke_session org sid now db)"
  by (auto simp: session_live_def get_session_revoked dest: get_session_Some)

text \<open>A compare-and-swap whose expectation is not current fails.\<close>

lemma stale_swap_fails:
  assumes "sessions_ok db" and "moved_on org sid h db"
  shows "\<not> fst (rotate_refresh_token_hash org sid h new now db)"
proof -
  obtain s where s: "get_session org sid db = Some s" "ss_refresh_token_hash s \<noteq> h"
    using assms(2) by (auto simp: moved_on_def)
  have "r = s" if "r \<in> set (ad_sessions db)" "ss_id r = sid" for r
    using get_session_Some [OF s(1)] that distinct_map_eq assms(1) unfolding sessions_ok_def by metis
  with s(2) have "filter (\<lambda>r. ss_organization_id r = org \<and> ss_id r = sid \<and> ss_state r = ''active''
      \<and> ss_refresh_token_hash r = h) (ad_sessions db) = []"
    by (auto simp: filter_empty_conv)
  then show ?thesis by (simp add: rotate_result update_sessions_def)
qed

lemma swap_Inr:
  assumes "refresh_swap enc sha secret (sid, org, h, m) now random jti db = (Inr pair, db1)" and "sessions_ok db"
  shows "db1 = repo_do (RotateHash org sid h (sha (mint_refresh_token sid org random)) now) db"
    and "\<exists>s. get_session org sid db1 = Some s \<and> ss_refresh_token_hash s = sha (mint_refresh_token sid org random)"
proof -
  let ?new = "sha (mint_refresh_token sid org random)"
  let ?p = "\<lambda>r. ss_organization_id r = org \<and> ss_id r = sid \<and> ss_state r = ''active'' \<and> ss_refresh_token_hash r = h"
  have won: "fst (rotate_refresh_token_hash org sid h ?new now db)"
    and db1: "db1 = snd (rotate_refresh_token_hash org sid h ?new now db)"
    using assms(1) by (auto simp: refresh_swap_def Let_def split: prod.splits if_splits)
  then show "db1 = repo_do (RotateHash org sid h ?new now) db" by simp
  from won have "filter ?p (ad_sessions db) \<noteq> []" by (auto simp: rotate_result update_sessions_def)
  then obtain r where r: "r \<in> set (ad_sessions db)" "?p r" by (auto simp: filter_empty_conv)
  then have "get_session org sid db = Some r" using get_session_mem [OF assms(2)] by blast
  with r(2) db1 show "\<exists>s. get_session org sid db1 = Some s \<and> ss_refresh_token_hash s = ?new"
    by (simp add: get_session_rotated)
qed

text \<open>Presenting a token whose hash is not current: a failure, which revokes the session unless it has expired.\<close>

lemma stale_refresh:
  assumes "parse_refresh_token token = Inr (sid, org)" and "moved_on org sid (sha token) db"
  shows "fst (refresh enc sha secret token now random jti db) = Inl AuthenticationFailed"
    and "get_session org sid db = Some s \<Longrightarrow> now < ss_expires_at s
      \<Longrightarrow> \<not> session_live org sid (snd (refresh enc sha secret token now random jti db))"
proof -
  obtain r where r: "get_session org sid db = Some r" "ss_refresh_token_hash r \<noteq> sha token"
    using assms(2) by (auto simp: moved_on_def)
  have read: "refresh_read sha token now db =
      (Inl AuthenticationFailed,
       if now < ss_expires_at r \<and> ss_state r = ''active'' then revoke_session org sid now db else db)"
    using assms(1) r by (auto simp: refresh_read_def Let_def)
  then show "fst (refresh enc sha secret token now random jti db) = Inl AuthenticationFailed"
    by (simp add: refresh_def)
  assume "get_session org sid db = Some s" and "now < ss_expires_at s"
  with r read show "\<not> session_live org sid (snd (refresh enc sha secret token now random jti db))"
    using revoke_session_kills by (auto simp: refresh_def session_live_def)
qed

lemma stale_swap:
  assumes "sessions_ok db" and "moved_on org sid h db"
  shows "fst (refresh_swap enc sha secret (sid, org, h, m) now random jti db) = Inl AuthenticationFailed
    \<and> \<not> session_live org sid (snd (refresh_swap enc sha secret (sid, org, h, m) now random jti db))"
proof -
  obtain db' where "rotate_refresh_token_hash org sid h (sha (mint_refresh_token sid org random)) now db = (False, db')"
    using stale_swap_fails [OF assms] by (metis (full_types) prod.collapse)
  then show ?thesis using revoke_session_kills by (simp add: refresh_swap_def)
qed

subsection \<open>Members\<close>

lemma find_member_update:
  assumes "\<And>r. ma_organization_id (f r) = ma_organization_id r \<and> ma_email (f r) = ma_email r \<and> ma_id (f r) = ma_id r"
  shows "find_identity_by_email org email (update_member org' i f db) =
      map_option (\<lambda>r. if ma_organization_id r = org' \<and> ma_id r = i then f r else r) (find_identity_by_email org email db)"
    and "get_identity org i' (update_member org' i f db) =
      map_option (\<lambda>r. if ma_organization_id r = org' \<and> ma_id r = i then f r else r) (get_identity org i' db)"
  using assms by (simp_all add: find_identity_by_email_def get_identity_def update_member_def find_update_where)

lemma find_identity_Some:
  "find_identity_by_email org email db = Some m \<Longrightarrow> m \<in> set (ad_members db) \<and> ma_organization_id m = org \<and> ma_email m = email"
  unfolding find_identity_by_email_def by (drule find_Some_iff_mem) blast

text \<open>A wrong password is counted, and trips the lock at the threshold.\<close>

lemma wrong_login:
  assumes "find_identity_by_email org email db = Some m" and "identity_usable m t"
    and "verify (ma_password_hash m) pw = Some False"
  shows "find_identity_by_email org email (snd (login enc sha verify secret org email pw t sid random jti db)) =
    Some (m\<lparr> ma_failed_attempts := ma_failed_attempts m + 1,
             ma_locked_until := if ma_failed_attempts m + 1 \<ge> LOCKOUT_THRESHOLD then Some (t + LOCKOUT_DURATION) else None,
             ma_updated_at := Some t \<rparr>)"
  using assms find_identity_Some [OF assms(1)]
  by (simp add: login_def register_failure_def Let_def record_failed_attempt_def find_member_update(1))

lemma wrong_logins_lock:
  assumes "find_identity_by_email org email db = Some m" and "tries \<noteq> []"
    and "ma_failed_attempts m + int (length tries) = LOCKOUT_THRESHOLD"
    and "list_all (\<lambda>(pw, t). identity_usable m t \<and> verify (ma_password_hash m) pw = Some False) tries"
  shows "\<exists>m'. find_identity_by_email org email
      (fold (\<lambda>(pw, t) db. snd (login enc sha verify secret org email pw t sid random jti db)) tries db) = Some m'
    \<and> ma_locked_until m' = Some (snd (last tries) + LOCKOUT_DURATION)"
  using assms
proof (induction tries arbitrary: db m)
  case (Cons x tries)
  obtain pw t where x: "x = (pw, t)" by (cases x)
  let ?db = "snd (login enc sha verify secret org email pw t sid random jti db)"
  from Cons.prems(4) x have now: "identity_usable m t" "verify (ma_password_hash m) pw = Some False" by simp_all
  note row = wrong_login [where verify = verify, OF Cons.prems(1) now, of enc sha secret sid random jti]
  show ?case
  proof (cases "tries = []")
    case True
    with row x Cons.prems(3) show ?thesis by simp
  next
    case False
    then have "ma_failed_attempts m + 1 < LOCKOUT_THRESHOLD" using Cons.prems(3) by (cases tries) auto
    then have "find_identity_by_email org email ?db =
        Some (m\<lparr> ma_failed_attempts := ma_failed_attempts m + 1, ma_locked_until := None, ma_updated_at := Some t \<rparr>)"
      using row by simp
    moreover have "list_all (\<lambda>(pw, t'). identity_usable (m\<lparr> ma_failed_attempts := ma_failed_attempts m + 1,
          ma_locked_until := None, ma_updated_at := Some t \<rparr>) t'
        \<and> verify (ma_password_hash m) pw = Some False) tries"
      using Cons.prems(4) by (auto simp: list_all_iff identity_usable_def)
    ultimately show ?thesis using Cons.IH [of ?db] False Cons.prems(3) x by simp
  qed
qed simp

lemma timestamp_mono: "s \<le> t \<Longrightarrow> timestamp s \<le> timestamp t"
proof -
  assume st: "s \<le> t"
  consider "0 \<le> s" | "s < 0" "t < 0" | "s < 0" "0 \<le> t" by linarith
  then show ?thesis
  proof cases
    case 1
    with st zdiv_mono1 [of s t 1000000] show ?thesis by (simp add: timestamp_def)
  next
    case 2
    with st zdiv_mono1 [of "- t" "- s" 1000000] show ?thesis by (simp add: timestamp_def)
  next
    case 3
    then have "0 \<le> - s div 1000000" "0 \<le> t div 1000000" by (simp_all add: pos_imp_zdiv_nonneg_iff)
    with 3 show ?thesis by (simp add: timestamp_def)
  qed
qed

lemma opened_session:
  assumes "open_session enc sha secret m now sid random jti db = (Inr pair, db')"
  shows "issue_access_token enc secret jti sid (ma_organization_id m) (ma_human_actor_id m) (Aware now) ACCESS_TOKEN_MAX_TTL
      = Inr (tp_access_token pair, \<lparr> at_jti = uuid_str jti, at_session_id = sid, at_organization_id = ma_organization_id m,
        at_actor_id = ma_human_actor_id m, at_issued_at = now, at_expires_at = now + ACCESS_TOKEN_MAX_TTL \<rparr>)"
    and "ad_members db' = ad_members db" and "ad_memberships db' = ad_memberships db"
    and "\<exists>s. get_session (ma_organization_id m) sid db' = Some s \<and> ss_state s = ''active''
      \<and> ss_expires_at s = now + SESSION_TTL \<and> ss_auth_identity_id s = ma_id m"
proof -
  let ?row = "\<lparr> ss_id = sid, ss_organization_id = ma_organization_id m, ss_auth_identity_id = ma_id m,
    ss_refresh_token_hash = sha (mint_refresh_token sid (ma_organization_id m) random), ss_state = ''active'',
    ss_expires_at = now + SESSION_TTL, ss_last_used_at = None, ss_revoked_at = None, ss_updated_at = None \<rparr>"
  from assms have fresh: "sid \<notin> ss_id ` set (ad_sessions db)"
    and db': "db' = db\<lparr> ad_sessions := ad_sessions db @ [?row] \<rparr>"
    and pair: "token_pair_for enc secret jti sid (ma_organization_id m) m
      (mint_refresh_token sid (ma_organization_id m) random) now = Inr pair"
    by (auto simp: open_session_def create_session_def Let_def split: if_splits)
  show "issue_access_token enc secret jti sid (ma_organization_id m) (ma_human_actor_id m) (Aware now) ACCESS_TOKEN_MAX_TTL
      = Inr (tp_access_token pair, \<lparr> at_jti = uuid_str jti, at_session_id = sid, at_organization_id = ma_organization_id m,
        at_actor_id = ma_human_actor_id m, at_issued_at = now, at_expires_at = now + ACCESS_TOKEN_MAX_TTL \<rparr>)"
    using pair by (auto simp: token_pair_for_def issue_access_token_def Let_def split: if_splits)
  show "ad_members db' = ad_members db" "ad_memberships db' = ad_memberships db" by (simp_all add: db')
  have "find (\<lambda>r. ss_organization_id r = ma_organization_id m \<and> ss_id r = sid) (ad_sessions db) = None"
    using fresh by (auto simp: find_None_iff)
  then show "\<exists>s. get_session (ma_organization_id m) sid db' = Some s \<and> ss_state s = ''active''
      \<and> ss_expires_at s = now + SESSION_TTL \<and> ss_auth_identity_id s = ma_id m"
    by (simp add: db' get_session_def find_append)
qed

subsection \<open>A concrete organization\<close>

definition plain_check :: password_check where
  "plain_check h password = map_option (\<lambda>x. password = x) h"

definition sample_member :: member_row where
  "sample_member = \<lparr> ma_id = 3, ma_organization_id = 1, ma_human_actor_id = 4, ma_email = ''ann'',
     ma_password_hash = Some ''pw'', ma_state = ''active'', ma_failed_attempts = 0, ma_locked_until = None,
     ma_updated_at = None \<rparr>"

definition sample_session :: session_row where
  "sample_session = \<lparr> ss_id = 5, ss_organization_id = 1, ss_auth_identity_id = 3,
     ss_refresh_token_hash = mint_refresh_token 5 1 ''a'', ss_state = ''active'', ss_expires_at = 1000000000,
     ss_last_used_at = None, ss_revoked_at = None, ss_updated_at = None \<rparr>"

definition sample_auth_db :: auth_db where
  "sample_auth_db = \<lparr> ad_members = [sample_member],
     ad_memberships = [\<lparr> mb_auth_identity_id = 3, mb_organization_id = 1, mb_membership_role = ''org_admin'' \<rparr>],
     ad_sessions = [sample_session] \<rparr>"

lemma sample_auth_facts:
  "sessions_ok sample_auth_db"
  "get_session 1 5 sample_auth_db = Some sample_session"
  "find_identity_by_email 1 ''ann'' sample_auth_db = Some sample_member"
  by (simp_all add: sessions_ok_def sample_auth_db_def get_session_def find_identity_by_email_def
      sample_session_def sample_member_def)

section \<open>Properties\<close>

text \<open>
  C5. The kill switch. Once a session has been logged out, or all sessions of its identity have been
  revoked, no access token ever resolves to it and no refresh token ever extends it, whatever
  repository calls, of any requests and in any order, come in between.
\<close>

theorem revoked_session_dead:
  assumes "sessions_ok db" and "get_session (oc_organization_id cx0) (oc_session_id cx0) db = Some s"
    and "db1 = logout cx0 t0 db \<or> db1 = snd (revoke_all_sessions (oc_organization_id cx0) (ss_auth_identity_id s) t0 db)"
  shows "\<not> (\<exists>token t cx. validate_access_token dec repr secret token t (fold repo_do cs db1) = Inr cx
        \<and> oc_session_id cx = oc_session_id cx0 \<and> oc_organization_id cx = oc_organization_id cx0)
    \<and> \<not> (\<exists>token t random jti pair. fst (refresh enc sha secret token t random jti (fold repo_do cs db1)) = Inr pair
        \<and> tp_session_id pair = oc_session_id cx0 \<and> tp_organization_id pair = oc_organization_id cx0)"
proof -
  let ?org = "oc_organization_id cx0" and ?sid = "oc_session_id cx0"
  have s: "ss_organization_id s = ?org" "ss_id s = ?sid" using get_session_Some [OF assms(2)] by blast+
  have "\<exists>s1. get_session ?org ?sid db1 = Some s1 \<and> ss_state s1 \<noteq> ''active''"
    using assms(3)
  proof
    assume "db1 = logout cx0 t0 db"
    then show ?thesis using assms(2) s by (simp add: logout_def get_session_revoked)
  next
    assume "db1 = snd (revoke_all_sessions ?org (ss_auth_identity_id s) t0 db)"
    then show ?thesis using assms(2) s by (simp add: get_session_revoked_all)
  qed
  then obtain s1 where s1: "get_session ?org ?sid db1 = Some s1" "ss_state s1 \<noteq> ''active''" by blast
  have "repo_do (RevokeSession ?org ?sid t0) db = logout cx0 t0 db" by (simp add: logout_def)
  then have "sessions_ok db1" using assms(1,3) repo_do_ok [of db] by (metis repo_do.simps(6))
  then have "get_session ?org ?sid (fold repo_do cs db1) = Some s1" using s1 by (rule inactive_stays)
  with s1(2) show ?thesis by (auto elim: refresh_Inr validate_Inr)
qed


theorem revoked_session_dead_witness:
  "\<not> (\<exists>token t cx. validate_access_token plain_decode (\<lambda>_. []) ''k'' token t
        (fold repo_do [ResetAttempts 1 3 8] (logout \<lparr> oc_auth_identity_id = 3, oc_actor_id = 4, oc_organization_id = 1,
          oc_session_id = 5, oc_platform_role = PlatformNone, oc_membership_role = OrgAdmin \<rparr> 7 sample_auth_db)) = Inr cx
      \<and> oc_session_id cx = 5 \<and> oc_organization_id cx = 1)"
proof -
  let ?cx = "\<lparr> oc_auth_identity_id = 3, oc_actor_id = 4, oc_organization_id = 1,
    oc_session_id = 5, oc_platform_role = PlatformNone, oc_membership_role = OrgAdmin \<rparr>"
  have "get_session (oc_organization_id ?cx) (oc_session_id ?cx) sample_auth_db = Some sample_session"
    using sample_auth_facts(2) by simp
  note revoked_session_dead [OF sample_auth_facts(1) this, of "logout ?cx 7 sample_auth_db" 7 plain_decode "\<lambda>_. []" "''k''"
    "[ResetAttempts 1 3 8]" plain_encode "\<lambda>x. x"]
  then show ?thesis by simp
qed

text \<open>
  C6. A refresh token is used once. After it has been exchanged, and in every history whose calls do
  not store its hash again, presenting it fails, and so does a second request that had read the
  session before the exchange; either revokes the session, so that the winner's tokens die as well.
\<close>

theorem refresh_token_used_once:
  assumes "sessions_ok db" and "parse_refresh_token token = Inr (sid, org)"
    and "refresh_swap enc sha secret (sid, org, sha token, m) t1 r1 j1 db = (Inr pair, db1)"
    and "sha (mint_refresh_token sid org r1) \<noteq> sha token"
    and "list_all (\<lambda>c. \<not> writes_hash (sha token) c) cs"
    and "get_session org sid (fold repo_do cs db1) = Some s" and "t2 < ss_expires_at s"
  shows "fst (refresh enc sha secret token t2 r2 j2 (fold repo_do cs db1)) = Inl AuthenticationFailed
    \<and> \<not> session_live org sid (snd (refresh enc sha secret token t2 r2 j2 (fold repo_do cs db1)))
    \<and> fst (refresh_swap enc sha secret (sid, org, sha token, m) t2 r2 j2 (fold repo_do cs db1)) = Inl AuthenticationFailed
    \<and> \<not> session_live org sid (snd (refresh_swap enc sha secret (sid, org, sha token, m) t2 r2 j2 (fold repo_do cs db1)))"
proof -
  note swapped = swap_Inr [OF assms(3,1)]
  have "moved_on org sid (sha token) db1" using swapped(2) assms(4) by (auto simp: moved_on_def)
  then have moved: "moved_on org sid (sha token) (fold repo_do cs db1)" using assms(5) by (rule moved_on_run)
  have "sessions_ok db1" using repo_do_ok [OF assms(1)] swapped(1) by blast
  then have "sessions_ok (fold repo_do cs db1)" by (rule auth_tables.run_inv)
  from stale_swap [OF this moved] stale_refresh [where sha = sha and token = token, OF assms(2) moved]
  show ?thesis using assms(6,7) by blast
qed

theorem refresh_token_used_once_witness:
  "\<exists>pair db1. refresh_swap plain_encode (\<lambda>x. x) ''k'' (5, 1, mint_refresh_token 5 1 ''a'', sample_member) 10 ''b'' 7 sample_auth_db
      = (Inr pair, db1)
    \<and> fst (refresh plain_encode (\<lambda>x. x) ''k'' (mint_refresh_token 5 1 ''a'') 20 ''c'' 8 db1) = Inl AuthenticationFailed
    \<and> \<not> session_live 1 5 (snd (refresh plain_encode (\<lambda>x. x) ''k'' (mint_refresh_token 5 1 ''a'') 20 ''c'' 8 db1))"
proof -
  let ?old = "mint_refresh_token 5 1 ''a''" and ?new = "mint_refresh_token 5 1 ''b''"
  have differ: "?new \<noteq> ?old" by (simp add: mint_refresh_token_def)
  have "\<exists>pair db1. refresh_swap plain_encode (\<lambda>x. x) ''k'' (5, 1, ?old, sample_member) 10 ''b'' 7 sample_auth_db
      = (Inr pair, db1)"
    by (simp add: refresh_swap_def rotate_result update_sessions_def sample_auth_db_def sample_session_def
        token_pair_for_def issue_access_token_def ACCESS_TOKEN_MAX_TTL_def Let_def)
  then obtain pair db1 where swap: "refresh_swap plain_encode (\<lambda>x. x) ''k'' (5, 1, ?old, sample_member) 10 ''b'' 7 sample_auth_db
      = (Inr pair, db1)" by blast
  then have "db1 = repo_do (RotateHash 5 1 ?old ?new 10) sample_auth_db \<or> db1 = repo_do (RotateHash 1 5 ?old ?new 10) sample_auth_db"
    using swap_Inr(1) [OF swap sample_auth_facts(1)] by simp
  then have "\<exists>s. get_session 1 5 db1 = Some s \<and> 20 < ss_expires_at s"
    using sample_auth_facts(2) by (auto simp: get_session_rotated sample_session_def)
  then obtain s where s: "get_session 1 5 (fold repo_do [] db1) = Some s" "20 < ss_expires_at s" by auto
  have parse: "parse_refresh_token ?old = Inr (5, 1)" by (rule parse_minted) simp
  note refresh_token_used_once [where sha = "\<lambda>x. x" and cs = "[]", OF sample_auth_facts(1) parse swap differ _ s, of "''c''" 8]
  with swap show ?thesis by auto
qed

text \<open>
  C31. The lockout. When as many wrong passwords have come in as the threshold leaves room for, every
  later login of the identity fails for fifteen minutes, the right password included, and writes
  nothing.
\<close>

theorem lockout_holds:
  assumes "find_identity_by_email org email db = Some m" and "tries \<noteq> []"
    and "ma_failed_attempts m + int (length tries) = LOCKOUT_THRESHOLD"
    and "list_all (\<lambda>(pw, t). identity_usable m t \<and> verify (ma_password_hash m) pw = Some False) tries"
    and "now < snd (last tries) + LOCKOUT_DURATION"
  shows "login enc sha verify secret org email password now sid random jti
      (fold (\<lambda>(pw, t) db. snd (login enc sha verify secret org email pw t sid' random' jti' db)) tries db)
    = (Inl AuthenticationFailed,
       fold (\<lambda>(pw, t) db. snd (login enc sha verify secret org email pw t sid' random' jti' db)) tries db)"
proof -
  let ?db = "fold (\<lambda>(pw, t) db. snd (login enc sha verify secret org email pw t sid' random' jti' db)) tries db"
  obtain m' where "find_identity_by_email org email ?db = Some m'"
    and "ma_locked_until m' = Some (snd (last tries) + LOCKOUT_DURATION)"
    using wrong_logins_lock [OF assms(1-3), where verify = verify] assms(4) by blast
  with assms(5) show ?thesis by (simp add: login_def identity_usable_def)
qed

theorem lockout_holds_witness:
  "fst (login plain_encode (\<lambda>x. x) plain_check ''k'' 1 ''ann'' ''pw'' 1000 6 ''r'' 7
     (fold (\<lambda>(pw, t) db. snd (login plain_encode (\<lambda>x. x) plain_check ''k'' 1 ''ann'' pw t 6 ''r'' 7 db))
        (map (\<lambda>t. (''no'', t)) [1, 2, 3, 4, 5]) sample_auth_db)) = Inl AuthenticationFailed"
proof -
  have "list_all (\<lambda>(pw, t). identity_usable sample_member t \<and> plain_check (ma_password_hash sample_member) pw = Some False)
      (map (\<lambda>t. (''no'', t)) [1, 2, 3, 4, 5])"
    by (simp add: identity_usable_def sample_member_def plain_check_def)
  from lockout_holds [where verify = plain_check and tries = "map (\<lambda>t. (''no'', t)) [1, 2, 3, 4, 5]",
      OF sample_auth_facts(3) _ _ this, of 1000 plain_encode "\<lambda>x. x" "''k''" "''pw''" 6 "''r''" 7 6 "''r''" 7]
  show ?thesis by (simp add: sample_member_def LOCKOUT_THRESHOLD_def LOCKOUT_DURATION_def)
qed

text \<open>
  C30. A login opens a context. The access token of a successful login validates, from then to the
  second of its expiry, to the context of the identity: its own identifiers, the organization it
  logged in to, the new session and the role of its membership.
\<close>

theorem login_opens_context:
  assumes "jwt_faithful enc dec secret" and "distinct (map ma_id (ad_members db))"
    and "find_identity_by_email org email db = Some m"
    and "login enc sha verify secret org email password now sid random jti db = (Inr pair, db')"
    and "get_membership_role org (ma_id m) db = Some role" and "parse_membership_role role = Some r"
    and "0 \<notin> {ma_id m, ma_human_actor_id m, org, sid}"
    and "valid_time now" and "valid_time (now + ACCESS_TOKEN_MAX_TTL)"
    and "now \<le> t" and "timestamp t < timestamp (now + ACCESS_TOKEN_MAX_TTL)"
  shows "validate_access_token dec repr secret (tp_access_token pair) t db' =
    Inr \<lparr> oc_auth_identity_id = ma_id m, oc_actor_id = ma_human_actor_id m, oc_organization_id = org,
          oc_session_id = sid, oc_platform_role = PlatformNone, oc_membership_role = r \<rparr>"
proof -
  note m = find_identity_Some [OF assms(3)]
  define db1 where "db1 = (if ma_failed_attempts m \<noteq> 0 then reset_failed_attempts org (ma_id m) now db else db)"
  from assms(3,4) have usable: "identity_usable m now"
    and opened: "open_session enc sha secret m now sid random jti db1 = (Inr pair, db')"
    by (auto simp: login_def db1_def Let_def split: if_splits option.splits bool.splits)
  note o = opened_session [OF opened]
  have identity: "get_identity org (ma_id m) db = Some m"
    using m assms(2) by (simp add: get_identity_def find_unique)
  obtain m' where m': "get_identity org (ma_id m) db1 = Some m'" "identity_usable m' t"
    "ma_id m' = ma_id m" "ma_human_actor_id m' = ma_human_actor_id m"
  proof (cases "ma_failed_attempts m = 0")
    case True
    with that [of m] identity usable assms(10) show ?thesis
      by (auto simp: db1_def identity_usable_def split: option.splits)
  next
    case False
    with that identity usable m show ?thesis
      by (simp add: db1_def reset_failed_attempts_def find_member_update(2) identity_usable_def)
  qed
  have role: "get_membership_role org (ma_id m) db' = Some role"
    using assms(5) o(3) by (simp add: get_membership_role_def db1_def reset_failed_attempts_def update_member_def)
  have kept: "get_identity org (ma_id m) db' = Some m'" using m'(1) o(2) by (simp add: get_identity_def)
  obtain s where s: "get_session org sid db' = Some s" "ss_state s = ''active''" "ss_expires_at s = now + SESSION_TTL"
    "ss_auth_identity_id s = ma_id m"
    using o(4) m by auto
  have "\<not> now + ACCESS_TOKEN_MAX_TTL \<le> t" using timestamp_mono assms(11) by fastforce
  then have live: "\<not> ss_expires_at s \<le> t" by (simp add: s(3) SESSION_TTL_def ACCESS_TOKEN_MAX_TTL_def)
  have "\<exists>iat ex. verify_access_token dec repr secret (tp_access_token pair) (Aware t) =
      Inr \<lparr> at_jti = uuid_str jti, at_session_id = sid, at_organization_id = org,
        at_actor_id = ma_human_actor_id m, at_issued_at = iat, at_expires_at = ex \<rparr>"
    using issued_token_verifies [OF assms(1) o(1) assms(8,9)] assms(11) m by simp
  with s live kept m' role assms(6,7) m show ?thesis
    by (auto simp: validate_access_token_def mk_org_context_def)
qed

theorem login_opens_context_witness:
  "\<exists>pair db'. login plain_encode (\<lambda>x. x) plain_check ''k'' 1 ''ann'' ''pw'' 5000000 6 ''r'' 7 sample_auth_db = (Inr pair, db')
    \<and> validate_access_token plain_decode (\<lambda>_. []) ''k'' (tp_access_token pair) 60000000 db' =
      Inr \<lparr> oc_auth_identity_id = 3, oc_actor_id = 4, oc_organization_id = 1, oc_session_id = 6,
            oc_platform_role = PlatformNone, oc_membership_role = OrgAdmin \<rparr>"
proof -
  have "\<exists>pair db'. login plain_encode (\<lambda>x. x) plain_check ''k'' 1 ''ann'' ''pw'' 5000000 6 ''r'' 7 sample_auth_db
      = (Inr pair, db')"
    by (simp add: login_def find_identity_by_email_def identity_usable_def plain_check_def open_session_def create_session_def
        get_membership_role_def token_pair_for_def issue_access_token_def ACCESS_TOKEN_MAX_TTL_def Let_def
        sample_member_def sample_auth_db_def sample_session_def)
  then obtain pair db' where login: "login plain_encode (\<lambda>x. x) plain_check ''k'' 1 ''ann'' ''pw'' 5000000 6 ''r'' 7 sample_auth_db
      = (Inr pair, db')" by blast
  have "validate_access_token plain_decode (\<lambda>_. []) ''k'' (tp_access_token pair) 60000000 db' =
      Inr \<lparr> oc_auth_identity_id = ma_id sample_member, oc_actor_id = ma_human_actor_id sample_member,
        oc_organization_id = 1, oc_session_id = 6, oc_platform_role = PlatformNone, oc_membership_role = OrgAdmin \<rparr>"
    by (rule login_opens_context [where role = "''org_admin''", OF plain_faithful _ sample_auth_facts(3) login])
      (simp_all add: sample_auth_db_def sample_member_def get_membership_role_def valid_time_def timestamp_def
        MIN_TIMESTAMP_def MAX_TIMESTAMP_def ACCESS_TOKEN_MAX_TTL_def)
  with login show ?thesis by (auto simp: sample_member_def)
qed

section \<open>What the code says otherwise\<close>

text \<open>
  The identifiers in a refresh token are said to grant nothing. They suffice to revoke: a made-up
  token for a live session ends it, and access tokens carry both identifiers in the clear.
\<close>

lemma forged_token_revokes:
  assumes "get_session org sid db = Some s" and "now < ss_expires_at s"
    and "random \<noteq> []" and "sha (mint_refresh_token sid org random) \<noteq> ss_refresh_token_hash s"
  shows "\<not> session_live org sid (snd (refresh enc sha secret (mint_refresh_token sid org random) now r j db))"
proof -
  have "moved_on org sid (sha (mint_refresh_token sid org random)) db"
    using assms(1,4) by (auto simp: moved_on_def)
  from stale_refresh(2) [where sha = sha, OF parse_minted [OF assms(3)] this assms(1,2)] show ?thesis .
qed

text \<open>
  Failures are counted by writing the count read before the password check, so wrong logins that
  read the same row count as one, however many there are.
\<close>

lemma concurrent_failures_count_once:
  assumes "find_identity_by_email org email db = Some m" and "ts \<noteq> []"
  shows "\<exists>m'. find_identity_by_email org email (fold (\<lambda>t. register_failure m t) ts db) = Some m'
    \<and> ma_failed_attempts m' = ma_failed_attempts m + 1"
proof -
  have one: "\<exists>m''. find_identity_by_email org email (register_failure m t db') = Some m''
      \<and> ma_id m'' = ma_id m \<and> ma_organization_id m'' = ma_organization_id m
      \<and> ma_failed_attempts m'' = ma_failed_attempts m + 1"
    if "find_identity_by_email org email db' = Some m'" "ma_id m' = ma_id m" "ma_organization_id m' = ma_organization_id m"
    for t db' m'
    using that by (simp add: register_failure_def Let_def record_failed_attempt_def find_member_update(1))
  have "\<exists>m'. find_identity_by_email org email (fold (\<lambda>t. register_failure m t) ts db') = Some m'
      \<and> ma_failed_attempts m' = ma_failed_attempts m + 1"
    if "find_identity_by_email org email db' = Some m'" "ma_id m' = ma_id m" "ma_organization_id m' = ma_organization_id m"
      "ts = [] \<longrightarrow> ma_failed_attempts m' = ma_failed_attempts m + 1"
    for db' m'
    using that
  proof (induction ts arbitrary: db' m')
    case (Cons t ts)
    with one [OF Cons.prems(1-3), of t] show ?case by (metis fold_simps(2))
  qed simp
  with assms show ?thesis by blast
qed

text \<open>Where the check raises on a member without a password, login fails with another exception than the one it promises.\<close>

lemma passwordless_login_escapes:
  assumes "find_identity_by_email org email db = Some m" and "identity_usable m now"
    and "verify (ma_password_hash m) password = None"
  shows "login enc sha verify secret org email password now sid random jti db = (Inl PasswordCheckRaised, db)"
  using assms by (simp add: login_def)


text \<open>
  An identity may hold memberships in other organizations than its own, but a context is only ever
  resolved in the organization that the identity itself belongs to.
\<close>

lemma context_in_home_organization:
  assumes "validate_access_token dec repr secret token now db = Inr cx"
  shows "\<exists>m \<in> set (ad_members db). ma_id m = oc_auth_identity_id cx \<and> ma_organization_id m = oc_organization_id cx"
  using assms
  by (auto simp: validate_access_token_def mk_org_context_iff get_identity_def
      split: sum.splits token_error.splits option.splits if_splits dest!: find_Some_iff_mem)

end
