(* ===== verification/Profiles.thy ===== *)
theory Profiles
  imports Prelude
begin

text \<open>
  Browser profiles: the profile identity of \<^verbatim>\<open>domain/profile_identity.py\<close> with the eviction of a
  domain and the merge of harvested cookies, the cookie health check of
  \<^verbatim>\<open>domain/cookie_health.py\<close>, and the network binding of \<^verbatim>\<open>domain/workflow_network.py\<close>.

  Times are seconds since the epoch as Python floats, here the rationals they denote. The dictionaries
  of the merge are association lists in insertion order, nested as the code nests them.
\<close>

section \<open>Data\<close>

datatype cookie_tier = TierPrimary | TierRotating | TierLoginEvent | TierPreference

datatype health_urgency = UrgencyNone | UrgencyScheduled | UrgencySoon | UrgencyImmediate

datatype materialization_mode = TarProfile | CookieInjection

record browser_cookie =
  bc_name :: string
  bc_value :: string
  bc_domain :: string
  bc_path :: string
  bc_expires :: rat
  bc_httpOnly :: bool
  bc_secure :: bool
  bc_sameSite :: string
  bc_size :: "int option"

record cookie_expiry =
  ce_name :: string
  ce_domain :: string
  ce_expires_at :: rat
  ce_remaining_seconds :: rat
  ce_tier :: cookie_tier

record domain_cookie_set =
  ds_domain_pattern :: string
  ds_cookies :: "browser_cookie list"
  ds_local_storage :: "(string \<times> (string \<times> string) list) list"
  ds_health :: health_urgency
  ds_last_verified_at :: "datetime option"
  ds_is_valid :: bool
  ds_auth_method :: "string option"
  ds_parent_domain :: "string option"

record profile_identity =
  pi_identity_id :: uuid
  pi_serial :: int
  pi_materialization :: materialization_mode
  pi_is_persisted :: bool
  pi_version :: int
  pi_organization_id :: "uuid option"
  pi_domain_sets :: "(string \<times> domain_cookie_set) list"
  pi_storage_object_key :: "string option"

text \<open>The format \<open>03d\<close>: a sign, and zeros up to three characters.\<close>

definition format_03d :: "int \<Rightarrow> string" where
  "format_03d i =
     (if i < 0 then ''-'' @ replicate (2 - length (nat_str (nat (- i)))) CHR ''0'' @ nat_str (nat (- i))
      else replicate (3 - length (nat_str (nat i))) CHR ''0'' @ nat_str (nat i))"

definition canonical_key :: "profile_identity \<Rightarrow> string" where
  "canonical_key p = ''PRFL-'' @ format_03d (pi_serial p)"

definition tar_object_key :: "profile_identity \<Rightarrow> string" where
  "tar_object_key p = ''chrome_profiles/'' @ canonical_key p @ ''.tar.gz''"

definition state_object_key :: "profile_identity \<Rightarrow> string" where
  "state_object_key p = ''session_states/'' @ canonical_key p @ ''.json''"

definition MID_AUTH_URL_PATTERNS :: "string list" where
  "MID_AUTH_URL_PATTERNS =
     [''accounts.google.com/o/oauth2'', ''accounts.google.com/signin'', ''accounts.google.com/CheckCookie'']"

definition GOOGLE_DOMAINS :: "string list" where
  "GOOGLE_DOMAINS = [''.google.com'', ''accounts.google.com'', ''myaccount.google.com'']"

definition GOOGLE_SID_NAMES :: "string list" where
  "GOOGLE_SID_NAMES = [''SID'', ''SSID'', ''HSID'', ''APISID'', ''SAPISID'', ''SIDCC'']"

definition SID_TTL_THRESHOLD_SEC :: rat where "SID_TTL_THRESHOLD_SEC = 3600"

section \<open>Eviction\<close>

definition evict_domain :: "profile_identity \<Rightarrow> string \<Rightarrow> bool \<Rightarrow> profile_identity" where
  "evict_domain profile pattern cascade_to_dependents =
     (let kept = AList.delete pattern (pi_domain_sets profile);
          marked = (if cascade_to_dependents
            then map (\<lambda>(dm, d). (dm, if ds_parent_domain d = Some pattern \<and> ds_is_valid d
                                       then d\<lparr> ds_is_valid := False \<rparr> else d)) kept
            else kept)
      in profile\<lparr> pi_domain_sets := marked \<rparr>)"

section \<open>The merge of cookies\<close>

fun is_mid_auth :: "string option \<Rightarrow> bool" where
  "is_mid_auth None = False"
| "is_mid_auth (Some url) = (url \<noteq> [] \<and> list_ex (contains_str url) MID_AUTH_URL_PATTERNS)"

definition is_google_domain :: "string \<Rightarrow> bool" where
  "is_google_domain domain =
     list_ex (\<lambda>gd. ends_with domain gd \<or> domain = lstrip_char CHR ''.'' gd) GOOGLE_DOMAINS"

definition cookie_remaining_ttl :: "browser_cookie \<Rightarrow> rat \<Rightarrow> rat" where
  "cookie_remaining_ttl c now = (if bc_expires c \<le> 0 then 0 else max 0 (bc_expires c - now))"

definition is_safe_google_update :: "rat \<Rightarrow> rat \<Rightarrow> rat \<Rightarrow> bool" where
  "is_safe_google_update existing_sid_ttl incoming_sid_ttl threshold =
     (\<not> incoming_sid_ttl < existing_sid_ttl - threshold)"

type_synonym cookie_key = "string \<times> string \<times> string"
type_synonym cookies_by_domain = "(string \<times> (cookie_key \<times> browser_cookie) list) list"
type_synonym flat_cookies = "(cookie_key \<times> browser_cookie \<times> string) list"

definition cookie_key :: "browser_cookie \<Rightarrow> cookie_key" where
  "cookie_key c = (bc_name c, bc_domain c, bc_path c)"

definition flatten_cookies :: "profile_identity \<Rightarrow> flat_cookies" where
  "flatten_cookies p =
     fold (\<lambda>(dm, d) acc. fold (\<lambda>c acc. AList.update (cookie_key c) (c, dm) acc) (ds_cookies d) acc)
       (pi_domain_sets p) []"

text \<open>\<open>by_domain[dm][key] = cookie\<close>, with the inner dictionary made when it is missing.\<close>

definition put_cookie :: "string \<Rightarrow> cookie_key \<Rightarrow> browser_cookie \<Rightarrow> cookies_by_domain \<Rightarrow> cookies_by_domain" where
  "put_cookie dm key c m =
     AList.update dm (AList.update key c (case map_of m dm of None \<Rightarrow> [] | Some d \<Rightarrow> d)) m"

text \<open>One incoming cookie.\<close>

definition merge_one ::
  "flat_cookies \<Rightarrow> bool \<Rightarrow> rat \<Rightarrow> browser_cookie \<Rightarrow> cookies_by_domain \<Rightarrow> cookies_by_domain" where
  "merge_one existing skip_google now c m =
     (let is_google = is_google_domain (bc_domain c); key = cookie_key c; inc_ttl = cookie_remaining_ttl c now
      in if is_google \<and> skip_google then m
         else case map_of existing key of
           None \<Rightarrow> put_cookie (bc_domain c) key c m
         | Some (old, dm) \<Rightarrow>
             let exist_ttl = cookie_remaining_ttl old now
             in if is_google \<and> bc_name c \<in> set GOOGLE_SID_NAMES
                   \<and> \<not> is_safe_google_update exist_ttl inc_ttl SID_TTL_THRESHOLD_SEC
                then put_cookie dm key old m
                else if exist_ttl > inc_ttl then put_cookie dm key old m
                else put_cookie dm key c m)"

text \<open>One existing cookie, kept when the incoming ones did not touch it.\<close>

definition keep_one :: "cookie_key \<times> browser_cookie \<times> string \<Rightarrow> cookies_by_domain \<Rightarrow> cookies_by_domain" where
  "keep_one x m =
     (case x of (key, c, dm) \<Rightarrow>
        (case map_of m dm of
           None \<Rightarrow> put_cookie dm key c m
         | Some d \<Rightarrow> if map_of d key = None then put_cookie dm key c m else m))"

definition merged_cookies :: "flat_cookies \<Rightarrow> bool \<Rightarrow> rat \<Rightarrow> browser_cookie list \<Rightarrow> cookies_by_domain" where
  "merged_cookies existing skip_google now incoming =
     fold keep_one existing (fold (merge_one existing skip_google now) incoming [])"

definition fresh_domain_set :: "string \<Rightarrow> browser_cookie list \<Rightarrow> domain_cookie_set" where
  "fresh_domain_set dm cookies =
     \<lparr> ds_domain_pattern = dm, ds_cookies = cookies, ds_local_storage = [], ds_health = UrgencyNone,
       ds_last_verified_at = None, ds_is_valid = True, ds_auth_method = None, ds_parent_domain = None \<rparr>"

definition store_domain ::
  "string \<times> (cookie_key \<times> browser_cookie) list \<Rightarrow> (string \<times> domain_cookie_set) list
   \<Rightarrow> (string \<times> domain_cookie_set) list" where
  "store_domain x sets =
     (case x of (dm, cookies) \<Rightarrow>
        AList.update dm
          (case map_of sets dm of
             None \<Rightarrow> fresh_domain_set dm (map snd cookies)
           | Some d \<Rightarrow> d\<lparr> ds_cookies := map snd cookies \<rparr>) sets)"

definition merge_cookies ::
  "profile_identity \<Rightarrow> browser_cookie list \<Rightarrow> string option \<Rightarrow> rat \<Rightarrow> profile_identity" where
  "merge_cookies existing incoming current_url now =
     existing\<lparr> pi_domain_sets :=
       fold store_domain (merged_cookies (flatten_cookies existing) (is_mid_auth current_url) now incoming)
         (pi_domain_sets existing) \<rparr>"

section \<open>Cookie health\<close>

definition AUTH_REQUIRED :: "string list" where
  "AUTH_REQUIRED =
     [''APISID'', ''HSID'', ''LSID'', ''SAPISID'', ''SID'', ''SSID'', ''__Secure-1PAPISID'', ''__Secure-1PSID'',
      ''__Secure-3PAPISID'', ''__Secure-3PSID'']"

definition ROTATING :: "string list" where
  "ROTATING =
     [''__Secure-1PSIDTS'', ''__Secure-3PSIDTS'', ''SIDCC'', ''__Secure-1PSIDCC'', ''__Secure-3PSIDCC'', ''AEC'']"

definition LOGIN_TOKENS :: "string list" where "LOGIN_TOKENS = [''__Secure-STRP'']"

definition CRIT_DAYS :: int where "CRIT_DAYS = 7"

definition WARN_DAYS :: int where "WARN_DAYS = 30"

definition MIN_COOKIE_COUNT :: nat where "MIN_COOKIE_COUNT = 20"

record cookie_health_report =
  ch_ok :: bool
  ch_missing :: "string list"
  ch_expired :: "cookie_expiry list"
  ch_expiring :: "cookie_expiry list"
  ch_needs_refresh :: bool
  ch_refresh_urgency :: health_urgency
  ch_total_cookies :: nat

definition classify_cookie :: "string \<Rightarrow> cookie_tier" where
  "classify_cookie name =
     (if name \<in> set AUTH_REQUIRED then TierPrimary
      else if name \<in> set ROTATING then TierRotating
      else if name \<in> set LOGIN_TOKENS then TierLoginEvent
      else TierPreference)"

definition expiry_of :: "rat \<Rightarrow> browser_cookie \<Rightarrow> cookie_expiry" where
  "expiry_of now c = \<lparr> ce_name = bc_name c, ce_domain = bc_domain c, ce_expires_at = bc_expires c,
     ce_remaining_seconds = bc_expires c - now, ce_tier = classify_cookie (bc_name c) \<rparr>"

definition warned_tier :: "cookie_tier \<Rightarrow> bool" where
  "warned_tier t \<longleftrightarrow> t \<in> {TierPrimary, TierRotating, TierLoginEvent}"

definition health_urgency_of ::
  "string list \<Rightarrow> cookie_expiry list \<Rightarrow> cookie_expiry list \<Rightarrow> nat \<Rightarrow> health_urgency \<times> bool" where
  "health_urgency_of missing expired expiring n =
     (if missing \<noteq> [] \<or> expired \<noteq> [] \<or> n < MIN_COOKIE_COUNT then (UrgencyImmediate, True)
      else if expiring \<noteq> [] then
        (if list_ex (\<lambda>e. ce_remaining_seconds e < of_int (CRIT_DAYS * 24 * 3600)) expiring then (UrgencySoon, True)
         else (UrgencyScheduled, True))
      else (UrgencyNone, False))"

definition check_cookie_health :: "browser_cookie list \<Rightarrow> rat \<Rightarrow> cookie_health_report" where
  "check_cookie_health cookies now =
     (let missing = filter (\<lambda>n. n \<notin> bc_name ` set cookies) AUTH_REQUIRED;
          dated = map (expiry_of now) (filter (\<lambda>c. bc_expires c > 0) cookies);
          expired = sort_key ce_remaining_seconds (filter (\<lambda>e. ce_remaining_seconds e \<le> 0) dated);
          expiring = sort_key ce_remaining_seconds
            (filter (\<lambda>e. \<not> ce_remaining_seconds e \<le> 0
                \<and> ce_remaining_seconds e < of_int (WARN_DAYS * 24 * 3600) \<and> warned_tier (ce_tier e)) dated);
          n = length cookies;
          (urgency, needs_refresh) = health_urgency_of missing expired expiring n
      in \<lparr> ch_ok = (n \<ge> MIN_COOKIE_COUNT \<and> missing = [] \<and> expired = []), ch_missing = missing,
           ch_expired = expired, ch_expiring = expiring, ch_needs_refresh = needs_refresh,
           ch_refresh_urgency = urgency, ch_total_cookies = n \<rparr>)"

definition should_refresh :: "cookie_health_report \<Rightarrow> bool" where
  "should_refresh report \<longleftrightarrow>
     ch_needs_refresh report \<and> ch_refresh_urgency report \<in> {UrgencySoon, UrgencyImmediate}"

section \<open>Network binding\<close>

datatype network_layer = LayerRuntime | LayerProfile | LayerDomain | LayerWorkflow

datatype slot_acquisition_policy = Exclusive | Shared | ProfileBound

record network_binding_rule =
  nb_layer :: network_layer
  nb_proxy_url :: string
  nb_ppp_slot :: "int option"
  nb_domain_pattern :: "string option"
  nb_identity_id :: "uuid option"
  nb_workflow_id :: "uuid option"

record domain_proxy_rule =
  dr_domain_pattern :: string
  dr_proxy_url :: string
  dr_priority :: int

record profile_exit_binding =
  pe_identity_id :: uuid
  pe_host_id :: uuid
  pe_ppp_slot :: int
  pe_proxy_url :: string
  pe_public_ip :: "string option"
  pe_is_sticky :: bool

record workflow_network_scope =
  wn_workflow_id :: uuid
  wn_dedicated_slot :: "int option"
  wn_proxy_url :: string
  wn_slot_policy :: slot_acquisition_policy
  wn_profile_overrides :: "(uuid \<times> network_binding_rule) list"
  wn_domain_overrides :: "(string \<times> network_binding_rule) list"

definition domain_matches :: "string \<Rightarrow> string \<Rightarrow> bool" where
  "domain_matches domain pattern =
     (if domain = pattern then True
      else if starts_with pattern ''.'' then ends_with domain pattern \<or> domain = lstrip_char CHR ''.'' pattern
      else ends_with domain (CHR ''.'' # pattern))"

text \<open>A domain is \<open>None\<close> or a string, and the empty string counts as none.\<close>

fun domain_given :: "string option \<Rightarrow> string option" where
  "domain_given None = None"
| "domain_given (Some d) = (if d = [] then None else Some d)"

definition workflow_layer :: "uuid option \<Rightarrow> string option \<Rightarrow> workflow_network_scope \<Rightarrow> string option" where
  "workflow_layer identity domain scope =
     (case (case domain_given domain of
              None \<Rightarrow> None
            | Some d \<Rightarrow> find (\<lambda>(pattern, rule). domain_matches d pattern) (wn_domain_overrides scope)) of
        Some (pattern, rule) \<Rightarrow> Some (nb_proxy_url rule)
      | None \<Rightarrow>
          (case (case identity of None \<Rightarrow> None | Some i \<Rightarrow> map_of (wn_profile_overrides scope) i) of
             Some rule \<Rightarrow> Some (nb_proxy_url rule)
           | None \<Rightarrow> if wn_proxy_url scope \<noteq> [] then Some (wn_proxy_url scope) else None))"

text \<open>\<open>sorted(rules, key=priority, reverse=True)\<close> keeps the order of equal priorities.\<close>

definition domain_layer :: "string option \<Rightarrow> domain_proxy_rule list option \<Rightarrow> string option" where
  "domain_layer domain rules =
     (case (domain_given domain, rules) of
        (Some d, Some rs) \<Rightarrow>
          map_option dr_proxy_url
            (find (\<lambda>r. domain_matches d (dr_domain_pattern r)) (sort_key (\<lambda>r. - dr_priority r) rs))
      | _ \<Rightarrow> None)"

definition resolve_effective_proxy ::
  "uuid option \<Rightarrow> string option \<Rightarrow> workflow_network_scope option \<Rightarrow> profile_exit_binding option
   \<Rightarrow> domain_proxy_rule list option \<Rightarrow> string option \<Rightarrow> string" where
  "resolve_effective_proxy identity domain scope profile_binding domain_rules runtime_default =
     (case (case scope of None \<Rightarrow> None | Some sc \<Rightarrow> workflow_layer identity domain sc) of
        Some url \<Rightarrow> url
      | None \<Rightarrow>
          (case domain_layer domain domain_rules of
             Some url \<Rightarrow> url
           | None \<Rightarrow>
               (case profile_binding of
                  Some b \<Rightarrow> pe_proxy_url b
                | None \<Rightarrow>
                    (case runtime_default of
                       Some url \<Rightarrow> if url \<noteq> [] then url else ''DIRECT''
                     | None \<Rightarrow> ''DIRECT''))))"

definition build_subprocess_env :: "string \<Rightarrow> string \<Rightarrow> (string \<times> string) list" where
  "build_subprocess_env proxy_url no_proxy =
     (if proxy_url = ''DIRECT'' then []
      else
        let url = (if starts_with proxy_url ''socks5://'' then ''socks5h://'' @ drop 9 proxy_url else proxy_url)
        in [(''ALL_PROXY'', url), (''HTTP_PROXY'', url), (''HTTPS_PROXY'', url), (''NO_PROXY'', no_proxy),
            (''all_proxy'', url), (''http_proxy'', url), (''https_proxy'', url), (''no_proxy'', no_proxy)])"


section \<open>The merged dictionary\<close>

definition cookie_at :: "cookies_by_domain \<Rightarrow> string \<Rightarrow> cookie_key \<Rightarrow> browser_cookie option" where
  "cookie_at m dm k = (case map_of m dm of None \<Rightarrow> None | Some d \<Rightarrow> map_of d k)"

lemma cookie_at_put [simp]:
  "cookie_at (put_cookie dm k c m) dm' k' = (if dm' = dm \<and> k' = k then Some c else cookie_at m dm' k')"
  by (auto simp: cookie_at_def put_cookie_def update_conv' split: option.splits)

lemma keep_one_eq:
  "keep_one (k, c, dm) m = (if cookie_at m dm k = None then put_cookie dm k c m else m)"
  by (auto simp: keep_one_def cookie_at_def split: option.splits)

text \<open>Where a key lives, and the cookie that an incoming one leaves there.\<close>

definition home :: "flat_cookies \<Rightarrow> cookie_key \<Rightarrow> string" where
  "home existing k = (case map_of existing k of None \<Rightarrow> fst (snd k) | Some (old, dm) \<Rightarrow> dm)"

definition winner :: "flat_cookies \<Rightarrow> rat \<Rightarrow> browser_cookie \<Rightarrow> browser_cookie" where
  "winner existing now c =
     (case map_of existing (cookie_key c) of
        None \<Rightarrow> c
      | Some (old, dm) \<Rightarrow> if cookie_remaining_ttl old now > cookie_remaining_ttl c now then old else c)"

definition admitted :: "bool \<Rightarrow> browser_cookie \<Rightarrow> bool" where
  "admitted skip_google c \<longleftrightarrow> \<not> (is_google_domain (bc_domain c) \<and> skip_google)"

text \<open>
  The guard for session identifiers refuses only updates that the comparison below it refuses as
  well, so it has no effect: whatever is shorter-lived loses, within the threshold or not.
\<close>

lemma merge_one_eq:
  "merge_one existing skip_google now c m =
     (if admitted skip_google c then put_cookie (home existing (cookie_key c)) (cookie_key c) (winner existing now c) m else m)"
  by (auto simp: merge_one_def Let_def admitted_def home_def winner_def is_safe_google_update_def
      SID_TTL_THRESHOLD_SEC_def cookie_key_def split: option.split)

definition relevant :: "bool \<Rightarrow> cookie_key \<Rightarrow> browser_cookie list \<Rightarrow> browser_cookie list" where
  "relevant skip_google k incoming = filter (\<lambda>c. cookie_key c = k \<and> admitted skip_google c) incoming"

lemma cookie_at_incoming:
  "cookie_at (fold (merge_one existing skip_google now) incoming []) dm k =
     (if relevant skip_google k incoming = [] \<or> dm \<noteq> home existing k then None
      else Some (winner existing now (last (relevant skip_google k incoming))))"
proof (induction incoming rule: rev_induct)
  case Nil
  then show ?case by (simp add: cookie_at_def relevant_def)
next
  case (snoc c incoming)
  then show ?case by (auto simp: merge_one_eq relevant_def)
qed

lemma cookie_at_keep:
  "distinct (map fst es) \<Longrightarrow> cookie_at (fold keep_one es m) dm k =
     (case cookie_at m dm k of
        Some c \<Rightarrow> Some c
      | None \<Rightarrow> (case map_of es k of Some (c, dm') \<Rightarrow> if dm' = dm then Some c else None | None \<Rightarrow> None))"
proof (induction es arbitrary: m)
  case (Cons e es)
  obtain k0 c0 dm0 where e: "e = (k0, c0, dm0)" by (cases e)
  with Cons.prems have "map_of es k0 = None" by (auto simp: map_of_eq_None_iff)
  with Cons e show ?case by (auto simp: keep_one_eq split: option.splits)
qed (simp split: option.split)

text \<open>The shape of the dictionary: each key once, under its home.\<close>

definition by_domain_ok :: "flat_cookies \<Rightarrow> cookies_by_domain \<Rightarrow> bool" where
  "by_domain_ok existing m \<longleftrightarrow> distinct (map fst m)
     \<and> (\<forall>dm d. map_of m dm = Some d \<longrightarrow> distinct (map fst d)
          \<and> (\<forall>k c. map_of d k = Some c \<longrightarrow> cookie_key c = k \<and> dm = home existing k))"

lemma by_domain_okD:
  "by_domain_ok existing m \<Longrightarrow> map_of m dm = Some d \<Longrightarrow> distinct (map fst d)"
  "by_domain_ok existing m \<Longrightarrow> map_of m dm = Some d \<Longrightarrow> map_of d k = Some c \<Longrightarrow> cookie_key c = k \<and> dm = home existing k"
  unfolding by_domain_ok_def by blast+

lemma put_cookie_ok:
  assumes "by_domain_ok existing m" and "dm = home existing (cookie_key c)"
  shows "by_domain_ok existing (put_cookie dm (cookie_key c) c m)"
  unfolding by_domain_ok_def
proof (intro conjI allI impI)
  show "distinct (map fst (put_cookie dm (cookie_key c) c m))"
    using assms(1) by (simp add: put_cookie_def by_domain_ok_def distinct_update)
  fix dm' d assume d: "map_of (put_cookie dm (cookie_key c) c m) dm' = Some d"
  define old where "old = (case map_of m dm of None \<Rightarrow> [] | Some e \<Rightarrow> e)"
  have d': "d = (if dm' = dm then AList.update (cookie_key c) c old else the (map_of m dm'))"
    "dm' \<noteq> dm \<Longrightarrow> map_of m dm' = Some d"
    using d by (auto simp: put_cookie_def update_conv' old_def split: if_splits)
  have old: "distinct (map fst old) \<and> (\<forall>k c'. map_of old k = Some c' \<longrightarrow> cookie_key c' = k \<and> dm = home existing k)"
  proof (cases "map_of m dm")
    case (Some e)
    then have "old = e" by (simp add: old_def)
    with by_domain_okD [OF assms(1) Some] show ?thesis by blast
  qed (simp add: old_def)
  show "distinct (map fst d)"
    using d' old by_domain_okD(1) [OF assms(1)] by (cases "dm' = dm") (simp_all add: distinct_update)
  fix k c' assume c': "map_of d k = Some c'"
  have "cookie_key c' = k \<and> dm' = home existing k"
  proof (cases "dm' = dm")
    case True
    with c' d'(1) have "(if k = cookie_key c then Some c else map_of old k) = Some c'" by (simp add: update_conv')
    then have "k = cookie_key c \<and> c' = c \<or> map_of old k = Some c'" by (simp split: if_splits)
    with old True assms(2) show ?thesis by blast
  next
    case False
    with d'(2) c' show ?thesis using by_domain_okD(2) [OF assms(1)] by blast
  qed
  then show "cookie_key c' = k" "dm' = home existing k" by simp_all
qed

definition flat_ok :: "flat_cookies \<Rightarrow> bool" where
  "flat_ok es \<longleftrightarrow> distinct (map fst es) \<and> list_all (\<lambda>(k, c, dm). cookie_key c = k) es"

lemma flat_okD: "flat_ok es \<Longrightarrow> map_of es k = Some (c, dm) \<Longrightarrow> cookie_key c = k"
  unfolding flat_ok_def by (auto simp: list_all_iff dest: map_of_SomeD)

lemma winner_key: "flat_ok es \<Longrightarrow> cookie_key (winner es now c) = cookie_key c"
  by (auto simp: winner_def split: option.splits dest: flat_okD)

lemma incoming_ok: "flat_ok es \<Longrightarrow> by_domain_ok es m \<Longrightarrow> by_domain_ok es (fold (merge_one es skip now) incoming m)"
proof (induction incoming arbitrary: m)
  case (Cons c incoming)
  have "by_domain_ok es (put_cookie (home es (cookie_key c)) (cookie_key (winner es now c)) (winner es now c) m)"
    using Cons.prems by (intro put_cookie_ok) (simp_all add: winner_key)
  then have "by_domain_ok es (merge_one es skip now c m)"
    using Cons.prems by (simp add: merge_one_eq winner_key)
  with Cons show ?case by simp
qed simp

lemma keep_ok:
  "flat_ok es \<Longrightarrow> set xs \<subseteq> set es \<Longrightarrow> by_domain_ok es m \<Longrightarrow> by_domain_ok es (fold keep_one xs m)"
proof (induction xs arbitrary: m)
  case (Cons x xs)
  obtain k c dm where x: "x = (k, c, dm)" by (cases x)
  with Cons.prems have "map_of es k = Some (c, dm)" by (auto simp: flat_ok_def)
  with Cons.prems(1) have "cookie_key c = k" "dm = home es (cookie_key c)"
    by (auto simp: home_def dest: flat_okD)
  with Cons.prems(3) x have "by_domain_ok es (keep_one x m)"
    using put_cookie_ok [of es m dm c] by (simp add: keep_one_eq)
  with Cons show ?case by simp
qed simp

lemma merged_ok: "flat_ok es \<Longrightarrow> by_domain_ok es (merged_cookies es skip now incoming)"
  unfolding merged_cookies_def by (intro keep_ok incoming_ok) (simp_all add: by_domain_ok_def)

text \<open>What the dictionary holds, key by key.\<close>

lemma cookie_at_merged:
  assumes "flat_ok es"
  shows "cookie_at (merged_cookies es skip now incoming) dm k =
    (if dm \<noteq> home es k then None
     else if relevant skip k incoming \<noteq> [] then Some (winner es now (last (relevant skip k incoming)))
     else map_option fst (map_of es k))"
  using assms
  by (auto simp: merged_cookies_def cookie_at_keep flat_ok_def cookie_at_incoming home_def split: option.splits)

section \<open>Profiles\<close>

text \<open>Domains are keys of a dictionary, and a cookie key occurs once in a profile.\<close>

definition profile_ok :: "profile_identity \<Rightarrow> bool" where
  "profile_ok p \<longleftrightarrow> distinct (map fst (pi_domain_sets p))
     \<and> (\<forall>(dm, d) \<in> set (pi_domain_sets p). distinct (map cookie_key (ds_cookies d))
          \<and> (\<forall>(dm', d') \<in> set (pi_domain_sets p). dm' \<noteq> dm \<longrightarrow>
               cookie_key ` set (ds_cookies d) \<inter> cookie_key ` set (ds_cookies d') = {}))"

definition flat_list :: "profile_identity \<Rightarrow> flat_cookies" where
  "flat_list p = concat (map (\<lambda>(dm, d). map (\<lambda>c. (cookie_key c, c, dm)) (ds_cookies d)) (pi_domain_sets p))"

lemma flatten_eq: "flatten_cookies p = fold (\<lambda>(k, v). AList.update k v) (flat_list p) []"
proof -
  have inner: "fold (\<lambda>c acc. AList.update (cookie_key c) (c, dm) acc) cs acc
      = fold (\<lambda>(k, v). AList.update k v) (map (\<lambda>c. (cookie_key c, c, dm)) cs) acc" for dm cs acc
    by (induction cs arbitrary: acc) simp_all
  have "fold (\<lambda>(dm, d) acc. fold (\<lambda>c acc. AList.update (cookie_key c) (c, dm) acc) (ds_cookies d) acc) sets acc
      = fold (\<lambda>(k, v). AList.update k v) (concat (map (\<lambda>(dm, d). map (\<lambda>c. (cookie_key c, c, dm)) (ds_cookies d)) sets)) acc"
    for sets acc
    by (induction sets arbitrary: acc) (auto simp: inner)
  then show ?thesis by (simp add: flatten_cookies_def flat_list_def)
qed

lemma fold_update_dict:
  "distinct (map fst acc) \<Longrightarrow> distinct (map fst (fold (\<lambda>(k, v). AList.update k v) xs acc))
     \<and> set (fold (\<lambda>(k, v). AList.update k v) xs acc) \<subseteq> set acc \<union> set xs
     \<and> (\<forall>k. map_of (fold (\<lambda>(k, v). AList.update k v) xs acc) k =
          (case map_of (rev xs) k of None \<Rightarrow> map_of acc k | Some v \<Rightarrow> Some v))"
proof (induction xs arbitrary: acc)
  case (Cons x xs)
  obtain k v where x: "x = (k, v)" by (cases x)
  have "set (AList.update k v acc) \<subseteq> insert (k, v) (set acc)" by (induction acc) auto
  with Cons.IH [of "AList.update k v acc"] Cons.prems x show ?case
    by (auto simp: distinct_update update_conv' map_add_def split: option.splits)
qed simp

lemma flatten_flat_ok [simp]: "flat_ok (flatten_cookies p)"
proof -
  have "set (flatten_cookies p) \<subseteq> set (flat_list p)" and "distinct (map fst (flatten_cookies p))"
    using fold_update_dict [of "[]" "flat_list p"] by (simp_all add: flatten_eq)
  then show ?thesis by (auto simp: flat_ok_def list_all_iff flat_list_def)
qed

lemma flat_list_iff:
  "(k, c, dm) \<in> set (flat_list p) \<longleftrightarrow> (\<exists>d. (dm, d) \<in> set (pi_domain_sets p) \<and> c \<in> set (ds_cookies d) \<and> cookie_key c = k)"
  by (auto simp: flat_list_def)

lemma flat_list_unique:
  assumes "profile_ok p" and "(k, c, dm) \<in> set (flat_list p)" and "(k, c', dm') \<in> set (flat_list p)"
  shows "c' = c \<and> dm' = dm"
proof -
  obtain d d' where d: "(dm, d) \<in> set (pi_domain_sets p)" "c \<in> set (ds_cookies d)" "cookie_key c = k"
    and d': "(dm', d') \<in> set (pi_domain_sets p)" "c' \<in> set (ds_cookies d')" "cookie_key c' = k"
    using assms(2,3) by (auto simp: flat_list_iff)
  then have "dm' = dm" using assms(1) by (fastforce simp: profile_ok_def)
  moreover from this have "d' = d" using assms(1) d(1) d'(1) by (auto simp: profile_ok_def dest: eq_key_imp_eq_value)
  moreover have "distinct (map cookie_key (ds_cookies d))" using assms(1) d(1) by (auto simp: profile_ok_def)
  ultimately show ?thesis using d d' by (auto dest: distinct_map_eq)
qed

lemma flatten_iff:
  assumes "profile_ok p"
  shows "map_of (flatten_cookies p) k = Some (c, dm) \<longleftrightarrow>
    (\<exists>d. map_of (pi_domain_sets p) dm = Some d \<and> c \<in> set (ds_cookies d) \<and> cookie_key c = k)"
proof -
  have look: "map_of (flatten_cookies p) k = map_of (rev (flat_list p)) k"
  proof -
    have "distinct (map fst ([] :: flat_cookies))" by simp
    then have "map_of (fold (\<lambda>(k, v). AList.update k v) (flat_list p) []) k =
        (case map_of (rev (flat_list p)) k of None \<Rightarrow> map_of [] k | Some v \<Rightarrow> Some v)"
      using fold_update_dict [of "[]" "flat_list p"] by blast
    then show ?thesis unfolding flatten_eq by (cases "map_of (rev (flat_list p)) k") (simp_all del: map_of_eq_Some_iff)
  qed
  have "map_of (flatten_cookies p) k = Some (c, dm) \<longleftrightarrow> (k, c, dm) \<in> set (flat_list p)"
  proof
    assume "map_of (flatten_cookies p) k = Some (c, dm)"
    then show "(k, c, dm) \<in> set (flat_list p)" unfolding look by (auto dest: map_of_SomeD)
  next
    assume mem: "(k, c, dm) \<in> set (flat_list p)"
    then have "k \<in> fst ` set (rev (flat_list p))" by (metis fst_conv image_eqI set_rev)
    then have "map_of (rev (flat_list p)) k \<noteq> None" by (simp only: map_of_eq_None_iff not_not)
    then obtain c' dm' where found: "map_of (rev (flat_list p)) k = Some (c', dm')" by auto
    then have "(k, c', dm') \<in> set (flat_list p)" by (auto dest: map_of_SomeD)
    with flat_list_unique [OF assms mem] found show "map_of (flatten_cookies p) k = Some (c, dm)" by (simp add: look)
  qed
  moreover have "(dm, d) \<in> set (pi_domain_sets p) \<longleftrightarrow> map_of (pi_domain_sets p) dm = Some d" for d
    using assms by (auto simp: profile_ok_def dest: map_of_SomeD)
  ultimately show ?thesis by (auto simp: flat_list_iff)
qed


subsection \<open>The merged profile\<close>

lemma store_domain_map:
  "distinct (map fst m) \<Longrightarrow> map_of (fold store_domain m sets) dm =
     (case map_of m dm of
        None \<Rightarrow> map_of sets dm
      | Some cs \<Rightarrow> Some (case map_of sets dm of
          None \<Rightarrow> fresh_domain_set dm (map snd cs) | Some d \<Rightarrow> d\<lparr> ds_cookies := map snd cs \<rparr>))"
proof (induction m arbitrary: sets)
  case (Cons x m)
  obtain dm0 cs0 where x: "x = (dm0, cs0)" by (cases x)
  with Cons.prems have "map_of m dm0 = None" by (auto simp: map_of_eq_None_iff)
  with Cons x show ?case
    by (cases "dm = dm0") (simp_all add: store_domain_def update_conv' split: option.split)
qed simp

lemma store_domain_distinct:
  "distinct (map fst sets) \<Longrightarrow> distinct (map fst (fold store_domain m sets))"
  by (induction m arbitrary: sets) (auto simp: store_domain_def distinct_update split: prod.split)

lemma inner_cookie:
  assumes "by_domain_ok es m" and "map_of m dm = Some cs"
  shows "map cookie_key (map snd cs) = map fst cs"
    and "c \<in> set (map snd cs) \<longleftrightarrow> map_of cs (cookie_key c) = Some c"
proof -
  note ok = by_domain_okD [OF assms]
  have entry: "map_of cs (fst x) = Some (snd x) \<and> cookie_key (snd x) = fst x" if "x \<in> set cs" for x
    using that ok by (metis map_of_eq_Some_iff prod.collapse)
  then show "map cookie_key (map snd cs) = map fst cs" by simp
  show "c \<in> set (map snd cs) \<longleftrightarrow> map_of cs (cookie_key c) = Some c"
    using entry by (auto simp del: map_of_eq_Some_iff dest!: map_of_SomeD intro: rev_image_eqI)
qed

lemma merged_sets:
  assumes "profile_ok p" and "es = flatten_cookies p" and "m = merged_cookies es skip now incoming"
    and "map_of (fold store_domain m (pi_domain_sets p)) dm = Some d"
  shows "distinct (map cookie_key (ds_cookies d))"
    and "c \<in> set (ds_cookies d) \<longleftrightarrow> cookie_at m dm (cookie_key c) = Some c"
proof -
  have ok: "by_domain_ok es m" using assms(2,3) merged_ok by simp
  then have "distinct (map fst m)" by (simp add: by_domain_ok_def)
  note look = store_domain_map [OF this, of "pi_domain_sets p" dm]
  have "distinct (map cookie_key (ds_cookies d)) \<and> (c \<in> set (ds_cookies d) \<longleftrightarrow> cookie_at m dm (cookie_key c) = Some c)"
  proof (cases "map_of m dm")
    case (Some cs)
    with look assms(4) have "ds_cookies d = map snd cs" by (auto simp: fresh_domain_set_def split: option.splits)
    then show ?thesis
      using inner_cookie [OF ok Some] by_domain_okD(1) [OF ok Some] Some by (simp add: cookie_at_def del: set_map map_map)
  next
    case None
    with look assms(4) have d: "map_of (pi_domain_sets p) dm = Some d" by simp
    have "\<forall>c'. c' \<notin> set (ds_cookies d)"
    proof (rule allI, rule notI)
      fix c'
      assume "c' \<in> set (ds_cookies d)"
      then have e: "map_of es (cookie_key c') = Some (c', dm)" using flatten_iff [OF assms(1)] d assms(2) by blast
      moreover have "cookie_at m dm (cookie_key c') = None" using None by (simp add: cookie_at_def)
      ultimately show False
        using cookie_at_merged [of es skip now incoming dm "cookie_key c'"] assms(2,3)
        by (simp add: home_def del: map_of_eq_Some_iff split: if_splits)
    qed
    then have "ds_cookies d = []" by simp
    then show ?thesis using None by (simp add: cookie_at_def)
  qed
  then show "distinct (map cookie_key (ds_cookies d))"
    and "c \<in> set (ds_cookies d) \<longleftrightarrow> cookie_at m dm (cookie_key c) = Some c" by blast+
qed

lemma merge_sets_eq:
  "pi_domain_sets (merge_cookies p incoming url now) =
     fold store_domain (merged_cookies (flatten_cookies p) (is_mid_auth url) now incoming) (pi_domain_sets p)"
  by (simp add: merge_cookies_def)

lemma merge_keeps_ok:
  assumes "profile_ok p"
  shows "profile_ok (merge_cookies p incoming url now)"
proof -
  let ?es = "flatten_cookies p" and ?m = "merged_cookies (flatten_cookies p) (is_mid_auth url) now incoming"
  let ?R = "fold store_domain ?m (pi_domain_sets p)"
  have R: "distinct (map fst ?R)" using assms store_domain_distinct by (simp add: profile_ok_def)
  note sets = merged_sets [OF assms refl refl]
  have at_home: "dm = home ?es (cookie_key c)" if "map_of ?R dm = Some d" "c \<in> set (ds_cookies d)" for dm d c
  proof (rule ccontr)
    assume "dm \<noteq> home ?es (cookie_key c)"
    then have "cookie_at ?m dm (cookie_key c) = None" by (simp add: cookie_at_merged)
    with sets(2) [OF that(1), of c] that(2) show False by simp
  qed
  have "distinct (map cookie_key (ds_cookies d))
      \<and> (\<forall>(dm', d') \<in> set ?R. dm' \<noteq> dm \<longrightarrow> cookie_key ` set (ds_cookies d) \<inter> cookie_key ` set (ds_cookies d') = {})"
    if "(dm, d) \<in> set ?R" for dm d
  proof -
    have d: "map_of ?R dm = Some d" using that R by simp
    moreover have "dm' = dm" if "(dm', d') \<in> set ?R" "c \<in> set (ds_cookies d)" "c' \<in> set (ds_cookies d')"
      "cookie_key c' = cookie_key c" for dm' d' c c'
    proof -
      have "map_of ?R dm' = Some d'" using that(1) R by simp
      from at_home [OF this that(3)] at_home [OF d that(2)] that(4) show ?thesis by simp
    qed
    ultimately show ?thesis using sets(1) by (fastforce simp del: map_of_eq_Some_iff)
  qed
  with R show ?thesis unfolding profile_ok_def merge_sets_eq by blast
qed

lemma flatten_merged:
  assumes "profile_ok p"
  shows "map_of (flatten_cookies (merge_cookies p incoming url now)) k = Some (c, dm) \<longleftrightarrow>
    cookie_at (merged_cookies (flatten_cookies p) (is_mid_auth url) now incoming) dm k = Some c"
    (is "_ \<longleftrightarrow> cookie_at ?m dm k = Some c")
proof -
  let ?R = "fold store_domain ?m (pi_domain_sets p)"
  have ok: "by_domain_ok (flatten_cookies p) ?m" by (simp add: merged_ok)
  have "map_of (flatten_cookies (merge_cookies p incoming url now)) k = Some (c, dm) \<longleftrightarrow>
      (\<exists>d. map_of ?R dm = Some d \<and> c \<in> set (ds_cookies d) \<and> cookie_key c = k)"
    using flatten_iff [OF merge_keeps_ok [OF assms]] by (simp add: merge_sets_eq)
  also have "\<dots> \<longleftrightarrow> cookie_at ?m dm k = Some c"
  proof
    assume "\<exists>d. map_of ?R dm = Some d \<and> c \<in> set (ds_cookies d) \<and> cookie_key c = k"
    then show "cookie_at ?m dm k = Some c" using merged_sets(2) [OF assms refl refl] by blast
  next
    assume at: "cookie_at ?m dm k = Some c"
    then obtain cs where cs: "map_of ?m dm = Some cs" "map_of cs k = Some c"
      by (auto simp: cookie_at_def simp del: map_of_eq_Some_iff split: option.splits)
    then have "cookie_key c = k" using by_domain_okD(2) [OF ok] by blast
    moreover obtain d where "map_of ?R dm = Some d"
      using store_domain_map [of ?m "pi_domain_sets p" dm] ok cs(1) by (simp add: by_domain_ok_def del: map_of_eq_Some_iff)
    ultimately show "\<exists>d. map_of ?R dm = Some d \<and> c \<in> set (ds_cookies d) \<and> cookie_key c = k"
      using at merged_sets(2) [OF assms refl refl] by blast
  qed
  finally show ?thesis .
qed


lemma relevant_last:
  "relevant skip k incoming \<noteq> [] \<Longrightarrow> last (relevant skip k incoming) \<in> set incoming
     \<and> cookie_key (last (relevant skip k incoming)) = k \<and> bc_domain (last (relevant skip k incoming)) = fst (snd k)"
proof -
  assume "relevant skip k incoming \<noteq> []"
  then have "last (relevant skip k incoming) \<in> set incoming" "cookie_key (last (relevant skip k incoming)) = k"
    using last_in_set [of "relevant skip k incoming"] by (auto simp: relevant_def)
  moreover have "bc_domain c = fst (snd (cookie_key c))" for c by (simp add: cookie_key_def)
  ultimately show ?thesis by metis
qed

text \<open>The cookie of a key after a merge.\<close>

lemma merge_at:
  assumes "profile_ok p"
  shows "map_of (flatten_cookies (merge_cookies p incoming url now)) k =
    (let offered = filter (\<lambda>c. cookie_key c = k \<and> \<not> (is_google_domain (bc_domain c) \<and> is_mid_auth url)) incoming
     in case map_of (flatten_cookies p) k of
          None \<Rightarrow> if offered = [] then None else Some (last offered, bc_domain (last offered))
        | Some (old, dm) \<Rightarrow>
            if offered = [] \<or> cookie_remaining_ttl old now > cookie_remaining_ttl (last offered) now then Some (old, dm)
            else Some (last offered, dm))"
proof -
  let ?es = "flatten_cookies p" and ?rel = "relevant (is_mid_auth url) k incoming"
  have rel: "filter (\<lambda>c. cookie_key c = k \<and> \<not> (is_google_domain (bc_domain c) \<and> is_mid_auth url)) incoming = ?rel"
    by (simp add: relevant_def admitted_def)
  define v where "v = (if ?rel \<noteq> [] then Some (winner ?es now (last ?rel)) else map_option fst (map_of ?es k))"
  have "map_of (flatten_cookies (merge_cookies p incoming url now)) k = Some (c, dm) \<longleftrightarrow> dm = home ?es k \<and> v = Some c" for c dm
    unfolding flatten_merged [OF assms] cookie_at_merged [OF flatten_flat_ok] v_def by simp
  then have "map_of (flatten_cookies (merge_cookies p incoming url now)) k = map_option (\<lambda>c. (c, home ?es k)) v"
    by (cases v; cases "map_of (flatten_cookies (merge_cookies p incoming url now)) k") fastforce+
  then show ?thesis
    unfolding rel v_def using relevant_last [of "is_mid_auth url" k incoming]
    by (auto simp: Let_def home_def winner_def split: option.splits)
qed

text \<open>A merge neither loses a cookie nor shortens its life, and leaves a sign-in under way alone.\<close>

lemma merge_never_shortens:
  assumes "profile_ok p" and "map_of (flatten_cookies p) k = Some (old, dm)"
  shows "\<exists>c. map_of (flatten_cookies (merge_cookies p incoming url now)) k = Some (c, dm)
    \<and> cookie_remaining_ttl old now \<le> cookie_remaining_ttl c now"
  unfolding merge_at [OF assms(1)] assms(2) by (auto simp: Let_def not_less)

lemma mid_auth_keeps_google:
  assumes "profile_ok p" and "is_mid_auth url" and "is_google_domain (fst (snd k))"
  shows "map_of (flatten_cookies (merge_cookies p incoming url now)) k = map_of (flatten_cookies p) k"
proof -
  have "filter (\<lambda>c. cookie_key c = k \<and> \<not> (is_google_domain (bc_domain c) \<and> is_mid_auth url)) incoming = []"
    using assms(2,3) by (auto simp: filter_empty_conv cookie_key_def)
  then show ?thesis unfolding merge_at [OF assms(1)] by (simp add: Let_def split: option.split)
qed

text \<open>Without the guard for session identifiers the merge would be the same.\<close>

lemma sid_guard_redundant:
  "merge_one existing skip_google now c m =
     (if is_google_domain (bc_domain c) \<and> skip_google then m
      else case map_of existing (cookie_key c) of
        None \<Rightarrow> put_cookie (bc_domain c) (cookie_key c) c m
      | Some (old, dm) \<Rightarrow>
          put_cookie dm (cookie_key c) (if cookie_remaining_ttl old now > cookie_remaining_ttl c now then old else c) m)"
  unfolding merge_one_eq admitted_def home_def winner_def by (auto simp: cookie_key_def split: option.split)

text \<open>Eviction removes the domain and invalidates what was derived from it.\<close>

lemma map_of_map_snd: "map_of (map (\<lambda>(k, v). (k, f v)) xs) k = map_option f (map_of xs k)"
  by (induction xs) auto

lemma evict_exact:
  "map_of (pi_domain_sets (evict_domain p pattern cascade)) dm =
     (if dm = pattern then None
      else map_option (\<lambda>d. if cascade \<and> ds_parent_domain d = Some pattern then d\<lparr> ds_is_valid := False \<rparr> else d)
        (map_of (pi_domain_sets p) dm))"
proof -
  have "(if ds_parent_domain d = Some pattern \<and> ds_is_valid d then d\<lparr> ds_is_valid := False \<rparr> else d)
      = (if ds_parent_domain d = Some pattern then d\<lparr> ds_is_valid := False \<rparr> else d)" for d :: domain_cookie_set
    by (cases d) auto
  then show ?thesis
    by (cases "map_of (pi_domain_sets p) dm") (simp_all add: evict_domain_def Let_def map_of_map_snd delete_conv')
qed

text \<open>Keys of profiles with different serials differ.\<close>

lemma digits_val_zeros: "digits_val (replicate n CHR ''0'' @ s) = digits_val s"
  by (induction n) (simp_all add: digits_val_def digit_val_def)

lemma canonical_key_inj:
  assumes "canonical_key p = canonical_key q" and "0 \<le> pi_serial p" and "0 \<le> pi_serial q"
  shows "pi_serial p = pi_serial q"
proof -
  have "digits_val (format_03d (pi_serial p)) = digits_val (format_03d (pi_serial q))"
    using assms(1) by (simp add: canonical_key_def)
  then show ?thesis using assms(2,3) by (simp add: format_03d_def digits_val_zeros)
qed

subsection \<open>Network binding\<close>

text \<open>A pattern covers itself and its subdomains, with or without a leading dot.\<close>

lemma domain_matches_iff:
  assumes "\<not> starts_with pattern ''.''"
  shows "domain_matches domain pattern \<longleftrightarrow> domain = pattern \<or> (\<exists>sub. domain = sub @ ''.'' @ pattern)"
    and "domain_matches domain (CHR ''.'' # pattern) \<longleftrightarrow> domain = pattern \<or> (\<exists>sub. domain = sub @ ''.'' @ pattern)"
proof -
  show "domain_matches domain pattern \<longleftrightarrow> domain = pattern \<or> (\<exists>sub. domain = sub @ ''.'' @ pattern)"
    using assms by (auto simp: domain_matches_def ends_with_iff)
  have "lstrip_char CHR ''.'' (CHR ''.'' # pattern) = pattern"
    using assms by (cases pattern) (auto simp: lstrip_char_def starts_with_def)
  moreover have "starts_with (CHR ''.'' # pattern) ''.''" by (simp add: starts_with_def)
  ultimately show "domain_matches domain (CHR ''.'' # pattern) \<longleftrightarrow> domain = pattern \<or> (\<exists>sub. domain = sub @ ''.'' @ pattern)"
    by (auto simp: domain_matches_def ends_with_iff)
qed

text \<open>A workflow with a proxy of its own decides alone: no rule of a lower layer is ever used.\<close>

lemma workflow_overrides_all:
  assumes "wn_proxy_url scope \<noteq> []"
  shows "resolve_effective_proxy identity domain (Some scope) binding rules runtime =
      resolve_effective_proxy identity domain (Some scope) None None None"
    and "resolve_effective_proxy identity domain (Some scope) binding rules runtime
      \<in> {wn_proxy_url scope} \<union> nb_proxy_url ` (snd ` set (wn_profile_overrides scope) \<union> snd ` set (wn_domain_overrides scope))"
proof -
  have "workflow_layer identity domain scope \<noteq> None"
    using assms by (simp add: workflow_layer_def split: option.split prod.split)
  then obtain url where url: "workflow_layer identity domain scope = Some url" by blast
  then show "resolve_effective_proxy identity domain (Some scope) binding rules runtime =
      resolve_effective_proxy identity domain (Some scope) None None None"
    by (simp add: resolve_effective_proxy_def)
  have "url \<in> {wn_proxy_url scope} \<union> nb_proxy_url ` (snd ` set (wn_profile_overrides scope) \<union> snd ` set (wn_domain_overrides scope))"
    using url
    by (auto simp: workflow_layer_def split: option.splits if_splits dest!: find_Some_iff_mem map_of_SomeD intro: rev_image_eqI)
  with url show "resolve_effective_proxy identity domain (Some scope) binding rules runtime
      \<in> {wn_proxy_url scope} \<union> nb_proxy_url ` (snd ` set (wn_profile_overrides scope) \<union> snd ` set (wn_domain_overrides scope))"
    by (simp add: resolve_effective_proxy_def)
qed

lemma find_first_least:
  "find p (sort_key f xs) = Some x \<Longrightarrow> x \<in> set xs \<and> p x \<and> (\<forall>y \<in> set xs. p y \<longrightarrow> f x \<le> f y)"
proof -
  assume found: "find p (sort_key f xs) = Some x"
  have "sorted (map f ys) \<Longrightarrow> find p ys = Some x \<Longrightarrow> \<forall>y \<in> set ys. p y \<longrightarrow> f x \<le> f y" for ys
    by (induction ys) (auto split: if_splits)
  from this [of "sort_key f xs"] found show ?thesis by (auto dest: find_Some_iff_mem)
qed

lemma domain_rule_highest:
  assumes "domain_layer domain (Some rs) = Some url"
  obtains d r where "domain = Some d" and "r \<in> set rs" and "domain_matches d (dr_domain_pattern r)" and "dr_proxy_url r = url"
    and "\<forall>r' \<in> set rs. domain_matches d (dr_domain_pattern r') \<longrightarrow> dr_priority r' \<le> dr_priority r"
  using assms
  by (cases domain) (auto simp: domain_layer_def split: if_splits dest!: find_first_least)

text \<open>A process never gets a SOCKS proxy that leaves the resolution of names to the host.\<close>

lemma env_resolves_remotely:
  assumes "(k, v) \<in> set (build_subprocess_env proxy_url no_proxy)" and "k \<notin> {''NO_PROXY'', ''no_proxy''}"
  shows "\<not> starts_with v ''socks5://''"
proof (cases "starts_with proxy_url ''socks5://''")
  case True
  with assms have "v = ''socks5h://'' @ drop 9 proxy_url"
    by (simp add: build_subprocess_env_def Let_def split: if_splits) blast
  then show ?thesis by (simp add: starts_with_def)
next
  case False
  with assms have "v = proxy_url"
    by (simp add: build_subprocess_env_def Let_def split: if_splits) blast
  with False show ?thesis by simp
qed

section \<open>Properties\<close>

text \<open>
  C24. The merge, cookie by cookie. After a merge a cookie key holds the last cookie offered for it,
  unless the one it held lives strictly longer; it stays in the domain set it was in, and a key that
  is new goes to the set of its domain. In the middle of a Google sign-in nothing is offered for a
  Google domain. Keys that nothing is offered for keep their cookie.
\<close>

theorem merge_exact:
  assumes "profile_ok p"
  shows "map_of (flatten_cookies (merge_cookies p incoming url now)) k =
    (let offered = filter (\<lambda>c. cookie_key c = k \<and> \<not> (is_google_domain (bc_domain c) \<and> is_mid_auth url)) incoming
     in case map_of (flatten_cookies p) k of
          None \<Rightarrow> if offered = [] then None else Some (last offered, bc_domain (last offered))
        | Some (old, dm) \<Rightarrow>
            if offered = [] \<or> cookie_remaining_ttl old now > cookie_remaining_ttl (last offered) now then Some (old, dm)
            else Some (last offered, dm))"
  using assms by (rule merge_at)

definition sample_cookie :: "string \<Rightarrow> rat \<Rightarrow> browser_cookie" where
  "sample_cookie v expires = \<lparr> bc_name = ''SID'', bc_value = v, bc_domain = ''.google.com'', bc_path = ''/'',
     bc_expires = expires, bc_httpOnly = True, bc_secure = True, bc_sameSite = ''Lax'', bc_size = None \<rparr>"

definition sample_profile :: profile_identity where
  "sample_profile = \<lparr> pi_identity_id = 1, pi_serial = 7, pi_materialization = TarProfile, pi_is_persisted = True,
     pi_version = 1, pi_organization_id = None,
     pi_domain_sets = [(''google'', fresh_domain_set ''google'' [sample_cookie ''old'' 9000])],
     pi_storage_object_key = None \<rparr>"

lemma sample_profile_ok: "profile_ok sample_profile"
  by (simp add: profile_ok_def sample_profile_def fresh_domain_set_def)

theorem merge_exact_witness:
  "map_of (flatten_cookies (merge_cookies sample_profile [sample_cookie ''new'' 8999] None 0)) (''SID'', ''.google.com'', ''/'')
    = Some (sample_cookie ''old'' 9000, ''google'')"
proof -
  have "map_of (flatten_cookies sample_profile) (''SID'', ''.google.com'', ''/'') = Some (sample_cookie ''old'' 9000, ''google'')"
    by (simp add: flatten_cookies_def sample_profile_def fresh_domain_set_def cookie_key_def sample_cookie_def)
  then show ?thesis
    unfolding merge_exact [OF sample_profile_ok]
    by (simp add: cookie_key_def sample_cookie_def cookie_remaining_ttl_def)
qed


text \<open>
  When a profile is refreshed. The health check asks for a refresh exactly when the jar is too
  small, an authentication cookie is missing, any dated cookie has expired, or a cookie of one of the
  three watched tiers expires within a week.
\<close>

theorem health_exact:
  "should_refresh (check_cookie_health cookies now) \<longleftrightarrow>
     length cookies < MIN_COOKIE_COUNT
     \<or> (\<exists>n \<in> set AUTH_REQUIRED. n \<notin> bc_name ` set cookies)
     \<or> (\<exists>c \<in> set cookies. 0 < bc_expires c \<and> bc_expires c \<le> now)
     \<or> (\<exists>c \<in> set cookies. 0 < bc_expires c \<and> classify_cookie (bc_name c) \<noteq> TierPreference
          \<and> bc_expires c - now < of_int (CRIT_DAYS * 24 * 3600))"
proof -
  define missing where "missing = filter (\<lambda>n. n \<notin> bc_name ` set cookies) AUTH_REQUIRED"
  define dated where "dated = map (expiry_of now) (filter (\<lambda>c. bc_expires c > 0) cookies)"
  define expired where "expired = sort_key ce_remaining_seconds (filter (\<lambda>e. ce_remaining_seconds e \<le> 0) dated)"
  define expiring where "expiring = sort_key ce_remaining_seconds
    (filter (\<lambda>e. \<not> ce_remaining_seconds e \<le> 0
       \<and> ce_remaining_seconds e < of_int (WARN_DAYS * 24 * 3600) \<and> warned_tier (ce_tier e)) dated)"
  have report: "should_refresh (check_cookie_health cookies now) \<longleftrightarrow>
      snd (health_urgency_of missing expired expiring (length cookies))
      \<and> fst (health_urgency_of missing expired expiring (length cookies)) \<in> {UrgencySoon, UrgencyImmediate}"
    unfolding should_refresh_def check_cookie_health_def missing_def expired_def expiring_def dated_def Let_def
    by (simp split: prod.split)
  have no_missing: "missing = [] \<longleftrightarrow> \<not> (\<exists>n \<in> set AUTH_REQUIRED. n \<notin> bc_name ` set cookies)"
    by (auto simp: missing_def filter_empty_conv)
  have sort_Nil: "sort_key f xs = [] \<longleftrightarrow> xs = []" for f :: "cookie_expiry \<Rightarrow> rat" and xs
    by (metis set_empty set_sort)
  have no_expired: "expired = [] \<longleftrightarrow> \<not> (\<exists>c \<in> set cookies. 0 < bc_expires c \<and> bc_expires c \<le> now)"
    unfolding expired_def sort_Nil by (auto simp: dated_def expiry_of_def filter_empty_conv)
  have watched: "warned_tier (classify_cookie n) \<longleftrightarrow> classify_cookie n \<noteq> TierPreference" for n
    by (cases "classify_cookie n") (simp_all add: warned_tier_def)
  have soon: "list_ex (\<lambda>e. ce_remaining_seconds e < of_int (CRIT_DAYS * 24 * 3600)) expiring \<longleftrightarrow>
      (\<exists>c \<in> set cookies. 0 < bc_expires c \<and> now < bc_expires c \<and> classify_cookie (bc_name c) \<noteq> TierPreference
        \<and> bc_expires c - now < of_int (CRIT_DAYS * 24 * 3600))"
    unfolding list_ex_iff expiring_def set_sort
    by (auto simp: dated_def expiry_of_def watched CRIT_DAYS_def WARN_DAYS_def)
  have "snd (health_urgency_of missing expired expiring n)
      \<and> fst (health_urgency_of missing expired expiring n) \<in> {UrgencySoon, UrgencyImmediate} \<longleftrightarrow>
      missing \<noteq> [] \<or> expired \<noteq> [] \<or> n < MIN_COOKIE_COUNT
      \<or> list_ex (\<lambda>e. ce_remaining_seconds e < of_int (CRIT_DAYS * 24 * 3600)) expiring" for n
    by (cases expiring) (simp_all add: health_urgency_of_def)
  then show ?thesis
    unfolding report no_missing no_expired soon by (metis not_less)
qed

end
