(* ===== verification/Plugins.thy ===== *)
theory Plugins
  imports Tenancy
begin

text \<open>
  Sandboxed plugins: the value objects, predicates and the network allowlist of
  \<^verbatim>\<open>domain/plugins.py\<close>, and from \<^verbatim>\<open>services/plugins.py\<close> the sanitized environment, the sandbox, the
  approval-gated installation and the execution of a plugin method.

  Parameters: the operating system, which answers what a launched process did from its arguments,
  input, environment, working directory and deadline, and what else a process of the same user can read
  there (files, other processes), which the sandbox does not hide; \<open>mkdtemp\<close>; \<open>dumps\<close> and \<open>loads\<close>, the JSON text of a request
  and the value of a reply (None when it is not JSON). Strings are ASCII, so \<open>lower\<close> and \<open>upper\<close> move
  the letters only. The frozenset of allowed variables is a list: its order is that of a dictionary
  that is only looked up.
\<close>

section \<open>Manifests\<close>

definition ALLOWED_PROTOCOLS :: "string list" where
  "ALLOWED_PROTOCOLS = [''tcp'', ''udp'', ''http'', ''https'', ''tls'']"

definition FORBIDDEN_HOST_SENTINELS :: "string list" where
  "FORBIDDEN_HOST_SENTINELS = ['''', ''*'', ''any'', ''all'', ''0.0.0.0'', ''0.0.0.0/0'', ''::'', ''::/0'']"

definition INSTALLATION_STATES :: "string list" where
  "INSTALLATION_STATES = [''pending_approval'', ''approved'', ''active'', ''suspended'', ''revoked'']"

definition INSTALLATION_LANDING_STATE :: string where "INSTALLATION_LANDING_STATE = ''pending_approval''"

record resource_quota =
  rs_cpu_millis :: int
  rs_memory_mb :: int
  rs_timeout_seconds :: int

record network_allow_rule =
  na_host :: string
  na_port :: int
  na_protocol :: string

record rpc_method_contract =
  rm_name :: string
  rm_input_schema :: "(string \<times> pyval) list"
  rm_output_schema :: "(string \<times> pyval) list"

record plugin_manifest =
  mf_name :: string
  mf_version :: string
  mf_description :: "string option"
  mf_entrypoint :: string
  mf_required_capability :: string
  mf_filesystem_jail :: string
  mf_resource_quota :: resource_quota
  mf_rpc_methods :: "rpc_method_contract list"
  mf_network_allowlist :: "network_allow_rule list"

text \<open>\<open>ValidationError\<close> of pydantic.\<close>

datatype manifest_error = ManifestInvalid string

definition mk_resource_quota :: "int \<Rightarrow> int \<Rightarrow> int \<Rightarrow> manifest_error + resource_quota" where
  "mk_resource_quota cpu memory timeout =
     (if cpu \<le> 0 then Inl (ManifestInvalid ''cpu_millis'')
      else if memory \<le> 0 then Inl (ManifestInvalid ''memory_mb'')
      else if timeout \<le> 0 then Inl (ManifestInvalid ''timeout_seconds'')
      else Inr \<lparr> rs_cpu_millis = cpu, rs_memory_mb = memory, rs_timeout_seconds = timeout \<rparr>)"

definition normalize :: "string \<Rightarrow> string" where "normalize s = str_lower (strip s)"

definition mk_network_allow_rule :: "string \<Rightarrow> int \<Rightarrow> string \<Rightarrow> manifest_error + network_allow_rule" where
  "mk_network_allow_rule host port protocol =
     (if host = [] \<or> normalize host \<in> set FORBIDDEN_HOST_SENTINELS then Inl (ManifestInvalid ''host'')
      else if port < 1 \<or> port > 65535 then Inl (ManifestInvalid ''port'')
      else if normalize protocol \<notin> set ALLOWED_PROTOCOLS then Inl (ManifestInvalid ''protocol'')
      else Inr \<lparr> na_host = normalize host, na_port = port, na_protocol = normalize protocol \<rparr>)"

definition rule_matches :: "network_allow_rule \<Rightarrow> string \<Rightarrow> int \<Rightarrow> string \<Rightarrow> bool" where
  "rule_matches r host port protocol \<longleftrightarrow>
     na_host r = normalize host \<and> na_port r = port \<and> na_protocol r = normalize protocol"

text \<open>The loop over the rules with the set of keys seen.\<close>

fun no_duplicate_allow_rules :: "(string \<times> int \<times> string) list \<Rightarrow> network_allow_rule list \<Rightarrow> manifest_error + unit" where
  "no_duplicate_allow_rules seen [] = Inr ()"
| "no_duplicate_allow_rules seen (r # rs) =
     (let key = (na_host r, na_port r, na_protocol r)
      in if key \<in> set seen then Inl (ManifestInvalid ''network_allowlist'') else no_duplicate_allow_rules (key # seen) rs)"

text \<open>\<open>PluginManifest(...)\<close> of validated parts.\<close>

definition mk_plugin_manifest :: "plugin_manifest \<Rightarrow> manifest_error + plugin_manifest" where
  "mk_plugin_manifest m =
     (if mf_name m = [] then Inl (ManifestInvalid ''name'')
      else if mf_version m = [] then Inl (ManifestInvalid ''version'')
      else if mf_entrypoint m = [] then Inl (ManifestInvalid ''entrypoint'')
      else if mf_required_capability m = [] then Inl (ManifestInvalid ''required_capability'')
      else if mf_filesystem_jail m = [] then Inl (ManifestInvalid ''filesystem_jail'')
      else if mf_rpc_methods m = [] \<or> list_ex (\<lambda>c. rm_name c = []) (mf_rpc_methods m)
              \<or> length (map rm_name (mf_rpc_methods m)) \<noteq> card (set (map rm_name (mf_rpc_methods m)))
        then Inl (ManifestInvalid ''rpc_methods'')
      else rbind (no_duplicate_allow_rules [] (mf_network_allowlist m)) (\<lambda>_. Inr m))"

definition installation_can_be_approved :: "string \<Rightarrow> bool" where
  "installation_can_be_approved s \<longleftrightarrow> s = ''pending_approval''"

definition installation_can_activate :: "string \<Rightarrow> bool" where
  "installation_can_activate s \<longleftrightarrow> s = ''approved''"

definition installation_is_operational :: "string \<Rightarrow> bool" where
  "installation_is_operational s \<longleftrightarrow> s = ''active''"

definition allowlist_default_denies :: "network_allow_rule list \<Rightarrow> bool" where
  "allowlist_default_denies rules \<longleftrightarrow> length rules = 0"

definition network_allows :: "network_allow_rule list \<Rightarrow> string \<Rightarrow> int \<Rightarrow> string \<Rightarrow> bool" where
  "network_allows rules host port protocol \<longleftrightarrow> list_ex (\<lambda>r. rule_matches r host port protocol) rules"

definition network_permits :: "network_allow_rule list \<Rightarrow> string \<Rightarrow> int \<Rightarrow> string \<Rightarrow> bool" where
  "network_permits rules host port protocol = network_allows rules host port protocol"

section \<open>The environment of the sandbox\<close>

definition SAFE_ENV_ALLOWLIST :: "string list" where
  "SAFE_ENV_ALLOWLIST = [''PATH'', ''LANG'', ''LC_ALL'', ''LC_CTYPE'', ''LC_NUMERIC'', ''TZ'']"

definition SENSITIVE_ENV_MARKERS :: "string list" where
  "SENSITIVE_ENV_MARKERS =
     [''SECRET'', ''TOKEN'', ''PASSWORD'', ''PASSWD'', ''KEY'', ''CREDENTIAL'', ''DATABASE_URL'', ''DSN'', ''JWT'',
      ''SESSION'', ''COOKIE'', ''PRIVATE'']"

definition SENSITIVE_ENV_PREFIXES :: "string list" where
  "SENSITIVE_ENV_PREFIXES =
     [''XIOSYNC_'', ''AWS_'', ''AZURE_'', ''GCP_'', ''GOOGLE_'', ''VERCEL_'', ''WORKER_'']"

definition env_key_is_sensitive :: "string \<Rightarrow> bool" where
  "env_key_is_sensitive key =
     (let upper = str_upper key
      in if list_ex (starts_with upper) SENSITIVE_ENV_PREFIXES then True
         else list_ex (contains_str upper) SENSITIVE_ENV_MARKERS)"

type_synonym environment = "(string \<times> string) list"

datatype sandbox_error =
    SensitiveVariable string | BadTimeout | BadArgv | NoTempDir | SandboxTimedOut int | LaunchRaised

fun copy_extra :: "environment \<Rightarrow> environment \<Rightarrow> sandbox_error + environment" where
  "copy_extra [] clean = Inr clean"
| "copy_extra ((k, v) # xs) clean =
     (if env_key_is_sensitive k then Inl (SensitiveVariable k) else copy_extra xs (AList.update k v clean))"

definition sanitize_environment ::
  "environment \<Rightarrow> environment option \<Rightarrow> environment \<Rightarrow> sandbox_error + environment" where
  "sanitize_environment os_environ base_env extra_env =
     (let source = (case base_env of None \<Rightarrow> os_environ | Some e \<Rightarrow> e);
          clean = fold (\<lambda>k c. case map_of source k of None \<Rightarrow> c | Some v \<Rightarrow> AList.update k v c) SAFE_ENV_ALLOWLIST []
      in copy_extra extra_env clean)"

section \<open>The sandbox\<close>

record sandbox_result =
  sr_returncode :: int
  sr_stdout :: string
  sr_stderr :: string

datatype process_outcome = Completed sandbox_result | TimeoutExpired | ProcessRaised

record process_call =
  pr_argv :: "string list"
  pr_input :: string
  pr_cwd :: string
  pr_env :: environment
  pr_timeout :: int

type_synonym process_runner = "process_call \<Rightarrow> process_outcome"

text \<open>
  \<open>tempfile.mkdtemp\<close> is the function \<open>mkdtemp\<close> of the directories it tries, in this order, before the
  working directory; None where none of them can be written. Three variables of the host name
  directories it prefers.
\<close>

definition TEMP_ENV_VARIABLES :: "string list" where
  "TEMP_ENV_VARIABLES = [''TMPDIR'', ''TEMP'', ''TMP'']"

definition temp_candidates :: "environment \<Rightarrow> string list" where
  "temp_candidates os_environ =
     concat (map (\<lambda>k. case map_of os_environ k of None \<Rightarrow> [] | Some v \<Rightarrow> if v = [] then [] else [v]) TEMP_ENV_VARIABLES)
       @ [''/tmp'', ''/var/tmp'', ''/usr/tmp'']"

text \<open>What the process is handed: it starts in the jail, which its \<open>HOME\<close> and \<open>TMPDIR\<close> name too.\<close>

definition jailed_call :: "string \<Rightarrow> environment \<Rightarrow> string list \<Rightarrow> string \<Rightarrow> int \<Rightarrow> process_call" where
  "jailed_call jail clean argv stdin_payload timeout_seconds =
     \<lparr> pr_argv = argv, pr_input = stdin_payload, pr_cwd = jail,
       pr_env = AList.update ''TMPDIR'' jail (AList.update ''HOME'' jail clean), pr_timeout = timeout_seconds \<rparr>"

text \<open>
  \<open>run_in_sandbox\<close>: the result, and the directories that are left. The fresh directory is removed
  on every path out of the call.
\<close>

definition run_in_sandbox ::
  "process_runner \<Rightarrow> (string list \<Rightarrow> string option) \<Rightarrow> environment \<Rightarrow> string list \<Rightarrow> int \<Rightarrow> string
   \<Rightarrow> environment option \<Rightarrow> environment \<Rightarrow> string list \<Rightarrow> (sandbox_error + sandbox_result) \<times> string list" where
  "run_in_sandbox run mkdtemp os_environ argv timeout_seconds stdin_payload base_env extra_env dirs =
     (if timeout_seconds \<le> 0 then (Inl BadTimeout, dirs)
      else if argv = [] then (Inl BadArgv, dirs)
      else case sanitize_environment os_environ base_env extra_env of
        Inl e \<Rightarrow> (Inl e, dirs)
      | Inr clean \<Rightarrow>
          (case mkdtemp (temp_candidates os_environ) of
             None \<Rightarrow> (Inl NoTempDir, dirs)
           | Some jail \<Rightarrow>
               let dirs' = jail # dirs;
                   outcome = run (jailed_call jail clean argv stdin_payload timeout_seconds);
                   left = removeAll jail dirs'
               in case outcome of
                    TimeoutExpired \<Rightarrow> (Inl (SandboxTimedOut timeout_seconds), left)
                  | ProcessRaised \<Rightarrow> (Inl LaunchRaised, left)
                  | Completed r \<Rightarrow> (Inr r, left)))"

definition build_launch_argv :: "string \<Rightarrow> string list" where "build_launch_argv entrypoint = [entrypoint]"

section \<open>Tables\<close>

record plugin_row =
  pl_id :: uuid
  pl_organization_id :: uuid
  pl_name :: string
  pl_version :: string
  pl_entrypoint :: string
  pl_required_capability_id :: uuid
  pl_cpu_millis :: int
  pl_memory_mb :: int
  pl_timeout_seconds :: int
  pl_filesystem_jail :: string
  pl_state :: string

record plugin_method_row =
  pm_organization_id :: uuid
  pm_plugin_id :: uuid
  pm_method_name :: string
  pm_input_schema :: "(string \<times> pyval) list"
  pm_output_schema :: "(string \<times> pyval) list"

record installation_row =
  pt_id :: uuid
  pt_organization_id :: uuid
  pt_plugin_id :: uuid
  pt_state :: string
  pt_requested_by :: uuid
  pt_approved_by :: "uuid option"
  pt_grant_id :: "uuid option"
  pt_approved_at :: "datetime option"
  pt_updated_at :: "datetime option"

record allow_rule_row =
  pa_organization_id :: uuid
  pa_installation_id :: uuid
  pa_host :: string
  pa_port :: int
  pa_protocol :: string

record plugin_grant =
  pgr_id :: uuid
  pgr_organization_id :: uuid
  pgr_actor_id :: uuid
  pgr_capability_id :: uuid
  pgr_state :: string

record plugin_db =
  pd_plugins :: "plugin_row list"
  pd_methods :: "plugin_method_row list"
  pd_installations :: "installation_row list"
  pd_allow_rules :: "allow_rule_row list"
  pd_grants :: "plugin_grant list"

datatype plugin_error =
    PluginNotFound uuid
  | PluginAlreadyInstalled uuid
  | InstallationNotFound uuid
  | InstallationNotApprovable uuid string string
  | PluginNotOperational uuid string
  | UnknownRpcMethod string
  | ParamsNotObject
  | PluginExecutionFailed
  | SandboxFailed sandbox_error
  | RuleInvalid manifest_error
  | KeyTaken

section \<open>The service\<close>

definition find_plugin :: "uuid \<Rightarrow> uuid \<Rightarrow> plugin_db \<Rightarrow> plugin_row option" where
  "find_plugin org i db = find (\<lambda>r. pl_organization_id r = org \<and> pl_id r = i) (pd_plugins db)"

definition find_installation :: "uuid \<Rightarrow> uuid \<Rightarrow> plugin_db \<Rightarrow> installation_row option" where
  "find_installation org i db = find (\<lambda>r. pt_organization_id r = org \<and> pt_id r = i) (pd_installations db)"

definition set_installation :: "uuid \<Rightarrow> (installation_row \<Rightarrow> installation_row) \<Rightarrow> plugin_db \<Rightarrow> plugin_db" where
  "set_installation i f db = db\<lparr> pd_installations := update_where (\<lambda>r. pt_id r = i) f (pd_installations db) \<rparr>"

definition install_plugin ::
  "org_context \<Rightarrow> uuid \<Rightarrow> uuid \<Rightarrow> uuid \<Rightarrow> plugin_db \<Rightarrow> plugin_error + installation_row \<times> plugin_db" where
  "install_plugin cx plugin_id requested_by new_id db =
     (let org = oc_organization_id cx in
      case find_plugin org plugin_id db of
        None \<Rightarrow> Inl (PluginNotFound plugin_id)
      | Some _ \<Rightarrow>
          (case find (\<lambda>r. pt_organization_id r = org \<and> pt_plugin_id r = plugin_id) (pd_installations db) of
             Some _ \<Rightarrow> Inl (PluginAlreadyInstalled plugin_id)
           | None \<Rightarrow>
               let row = \<lparr> pt_id = new_id, pt_organization_id = org, pt_plugin_id = plugin_id,
                           pt_state = INSTALLATION_LANDING_STATE, pt_requested_by = requested_by,
                           pt_approved_by = None, pt_grant_id = None, pt_approved_at = None, pt_updated_at = None \<rparr>
               in if new_id \<in> pt_id ` set (pd_installations db) then Inl KeyTaken
                  else Inr (row, db\<lparr> pd_installations := pd_installations db @ [row] \<rparr>)))"

definition locked_installation :: "org_context \<Rightarrow> uuid \<Rightarrow> plugin_db \<Rightarrow> plugin_error + installation_row" where
  "locked_installation cx i db =
     (case find_installation (oc_organization_id cx) i db of None \<Rightarrow> Inl (InstallationNotFound i) | Some r \<Rightarrow> Inr r)"

definition approve_installation_row :: "uuid \<Rightarrow> uuid \<Rightarrow> datetime \<Rightarrow> installation_row \<Rightarrow> installation_row" where
  "approve_installation_row approved_by grant_id now r =
     r\<lparr> pt_state := ''approved'', pt_approved_by := Some approved_by, pt_approved_at := Some now,
        pt_grant_id := Some grant_id, pt_updated_at := Some now \<rparr>"

definition approve_installation ::
  "org_context \<Rightarrow> uuid \<Rightarrow> uuid \<Rightarrow> datetime \<Rightarrow> uuid \<Rightarrow> plugin_db \<Rightarrow> plugin_error + installation_row \<times> plugin_db" where
  "approve_installation cx i approved_by now grant_id db =
     rbind (locked_installation cx i db) (\<lambda>row.
       if \<not> installation_can_be_approved (pt_state row)
       then Inl (InstallationNotApprovable i (pt_state row) ''approve'')
       else case find_plugin (oc_organization_id cx) (pt_plugin_id row) db of
         None \<Rightarrow> Inl (PluginNotFound (pt_plugin_id row))
       | Some plugin \<Rightarrow>
           if grant_id \<in> pgr_id ` set (pd_grants db) then Inl KeyTaken
           else
             let minted = \<lparr> pgr_id = grant_id, pgr_organization_id = oc_organization_id cx,
                   pgr_actor_id = pt_requested_by row, pgr_capability_id = pl_required_capability_id plugin,
                   pgr_state = ''active'' \<rparr>;
                 db' = set_installation i (approve_installation_row approved_by grant_id now) (db\<lparr> pd_grants := pd_grants db @ [minted] \<rparr>)
             in Inr (approve_installation_row approved_by grant_id now row, db'))"

definition activate_row :: "datetime \<Rightarrow> installation_row \<Rightarrow> installation_row" where
  "activate_row now r = r\<lparr> pt_state := ''active'', pt_updated_at := Some now \<rparr>"

definition activate_installation ::
  "org_context \<Rightarrow> uuid \<Rightarrow> datetime \<Rightarrow> plugin_db \<Rightarrow> plugin_error + installation_row \<times> plugin_db" where
  "activate_installation cx i now db =
     rbind (locked_installation cx i db) (\<lambda>row.
       if \<not> installation_can_activate (pt_state row)
       then Inl (InstallationNotApprovable i (pt_state row) ''activate'')
       else Inr (activate_row now row, set_installation i (activate_row now) db))"

definition get_installation :: "org_context \<Rightarrow> uuid \<Rightarrow> plugin_db \<Rightarrow> installation_row option" where
  "get_installation cx i db = find_installation (oc_organization_id cx) i db"

text \<open>\<open>execute_plugin_rpc\<close>: the method and the reply, and the directories that are left.\<close>

definition execute_plugin_rpc ::
  "process_runner \<Rightarrow> (string list \<Rightarrow> string option) \<Rightarrow> (pyval \<Rightarrow> string) \<Rightarrow> (string \<Rightarrow> pyval option) \<Rightarrow> environment
   \<Rightarrow> org_context \<Rightarrow> uuid \<Rightarrow> string \<Rightarrow> pyval \<Rightarrow> environment option \<Rightarrow> plugin_db \<Rightarrow> string list
   \<Rightarrow> (plugin_error + string \<times> pyval) \<times> string list" where
  "execute_plugin_rpc run mkdtemp dumps loads os_environ cx i method params base_env db dirs =
     (let org = oc_organization_id cx in
      case find_installation org i db of
        None \<Rightarrow> (Inl (InstallationNotFound i), dirs)
      | Some inst \<Rightarrow>
          if \<not> installation_is_operational (pt_state inst) then (Inl (PluginNotOperational i (pt_state inst)), dirs)
          else (case find_plugin org (pt_plugin_id inst) db of
             None \<Rightarrow> (Inl (PluginNotFound (pt_plugin_id inst)), dirs)
           | Some plugin \<Rightarrow>
               let declared = map pm_method_name
                     (filter (\<lambda>r. pm_organization_id r = org \<and> pm_plugin_id r = pl_id plugin) (pd_methods db))
               in if method \<notin> set declared then (Inl (UnknownRpcMethod method), dirs)
                  else (case params of
                     PDict d \<Rightarrow>
                       (case run_in_sandbox run mkdtemp os_environ (build_launch_argv (pl_entrypoint plugin))
                               (pl_timeout_seconds plugin) (dumps (PDict [(''method'', PStr method), (''params'', PDict d)]))
                               base_env [] dirs of
                          (Inl e, left) \<Rightarrow> (Inl (SandboxFailed e), left)
                        | (Inr r, left) \<Rightarrow>
                            (if sr_returncode r \<noteq> 0 then Inl PluginExecutionFailed
                             else case loads (sr_stdout r) of
                               None \<Rightarrow> Inl PluginExecutionFailed
                             | Some reply \<Rightarrow> Inr (method, reply), left))
                   | _ \<Rightarrow> (Inl ParamsNotObject, dirs))))"

definition installation_network_permits ::
  "org_context \<Rightarrow> uuid \<Rightarrow> string \<Rightarrow> int \<Rightarrow> string \<Rightarrow> plugin_db \<Rightarrow> plugin_error + bool" where
  "installation_network_permits cx i host port protocol db =
     (let rows = filter (\<lambda>r. pa_organization_id r = oc_organization_id cx \<and> pa_installation_id r = i) (pd_allow_rules db)
      in case traverse (\<lambda>r. mk_network_allow_rule (pa_host r) (pa_port r) (pa_protocol r)) rows of
           Inl e \<Rightarrow> Inl (RuleInvalid e)
         | Inr rules \<Rightarrow> Inr (network_permits rules host port protocol))"


section \<open>Histories\<close>

text \<open>The calls of the service, and the revocation of a grant by the grant service.\<close>

datatype plugin_op =
    Install org_context uuid uuid uuid
  | Approve org_context uuid uuid datetime uuid
  | Activate org_context uuid datetime
  | RevokeGrant uuid

fun plugin_do :: "plugin_op \<Rightarrow> plugin_db \<Rightarrow> plugin_db" where
  "plugin_do (Install cx plugin who new_id) db =
     (case install_plugin cx plugin who new_id db of Inl _ \<Rightarrow> db | Inr (_, db') \<Rightarrow> db')"
| "plugin_do (Approve cx i who now grant_id) db =
     (case approve_installation cx i who now grant_id db of Inl _ \<Rightarrow> db | Inr (_, db') \<Rightarrow> db')"
| "plugin_do (Activate cx i now) db =
     (case activate_installation cx i now db of Inl _ \<Rightarrow> db | Inr (_, db') \<Rightarrow> db')"
| "plugin_do (RevokeGrant g) db =
     db\<lparr> pd_grants := update_where (\<lambda>r. pgr_id r = g) (\<lambda>r. r\<lparr> pgr_state := ''revoked'' \<rparr>) (pd_grants db) \<rparr>"

text \<open>The grant that approval minted: for the requester and the capability the plugin requires.\<close>

definition minted_for :: "plugin_db \<Rightarrow> installation_row \<Rightarrow> bool" where
  "minted_for db r \<longleftrightarrow>
     (\<exists>g \<in> set (pd_grants db). \<exists>p \<in> set (pd_plugins db).
        pt_grant_id r = Some (pgr_id g) \<and> pgr_organization_id g = pt_organization_id r \<and> pgr_actor_id g = pt_requested_by r
        \<and> pl_id p = pt_plugin_id r \<and> pl_organization_id p = pt_organization_id r
        \<and> pgr_capability_id g = pl_required_capability_id p)"

definition installation_ok :: "plugin_db \<Rightarrow> installation_row \<Rightarrow> bool" where
  "installation_ok db r \<longleftrightarrow>
     (pt_state r = ''pending_approval'' \<and> pt_approved_by r = None \<and> pt_grant_id r = None)
     \<or> (pt_state r \<in> set INSTALLATION_STATES - {''pending_approval''} \<and> pt_approved_by r \<noteq> None \<and> minted_for db r)"

definition plugins_ok :: "plugin_db \<Rightarrow> bool" where
  "plugins_ok db \<longleftrightarrow> distinct (map pt_id (pd_installations db)) \<and> distinct (map pgr_id (pd_grants db))
     \<and> list_all (installation_ok db) (pd_installations db)"

lemma minted_for_mono:
  assumes "minted_for db r" and "pd_plugins db' = pd_plugins db"
    and "\<And>g. g \<in> set (pd_grants db) \<Longrightarrow> \<exists>g' \<in> set (pd_grants db'). pgr_id g' = pgr_id g
      \<and> pgr_organization_id g' = pgr_organization_id g \<and> pgr_actor_id g' = pgr_actor_id g
      \<and> pgr_capability_id g' = pgr_capability_id g"
  shows "minted_for db' r"
  using assms unfolding minted_for_def by metis

lemma installation_ok_mono:
  "installation_ok db r \<Longrightarrow> pd_plugins db' = pd_plugins db \<Longrightarrow> set (pd_grants db) \<subseteq> set (pd_grants db') \<Longrightarrow> installation_ok db' r"
  unfolding installation_ok_def by (blast intro: minted_for_mono)

text \<open>What a successful call did.\<close>

lemma install_plugin_Inr:
  assumes "install_plugin cx plugin who new_id db = Inr (row, db')"
  shows "new_id \<notin> pt_id ` set (pd_installations db) \<and> db' = db\<lparr> pd_installations := pd_installations db @ [row] \<rparr>
    \<and> pt_id row = new_id \<and> pt_state row = ''pending_approval'' \<and> pt_approved_by row = None \<and> pt_grant_id row = None"
  using assms by (auto simp: install_plugin_def Let_def INSTALLATION_LANDING_STATE_def split: option.splits if_splits)

lemma find_installation_Some:
  "find_installation org i db = Some r \<Longrightarrow> r \<in> set (pd_installations db) \<and> pt_organization_id r = org \<and> pt_id r = i"
  unfolding find_installation_def by (drule find_Some_iff_mem) blast

lemma find_plugin_Some:
  "find_plugin org i db = Some p \<Longrightarrow> p \<in> set (pd_plugins db) \<and> pl_organization_id p = org \<and> pl_id p = i"
  unfolding find_plugin_def by (drule find_Some_iff_mem) blast

lemma approve_Inr:
  assumes "approve_installation cx i who now grant_id db = Inr (row', db')"
  obtains row p g where "row \<in> set (pd_installations db)" and "pt_id row = i" and "pt_state row = ''pending_approval''"
    and "grant_id \<notin> pgr_id ` set (pd_grants db)" and "pgr_id g = grant_id"
    and "p \<in> set (pd_plugins db)" and "pl_id p = pt_plugin_id row" and "pl_organization_id p = pt_organization_id row"
    and "pgr_organization_id g = pt_organization_id row" and "pgr_actor_id g = pt_requested_by row"
    and "pgr_capability_id g = pl_required_capability_id p"
    and "db' = set_installation i (approve_installation_row who grant_id now) (db\<lparr> pd_grants := pd_grants db @ [g] \<rparr>)"
proof -
  obtain row p where row: "find_installation (oc_organization_id cx) i db = Some row" "pt_state row = ''pending_approval''"
    and p: "find_plugin (oc_organization_id cx) (pt_plugin_id row) db = Some p"
    and fresh: "grant_id \<notin> pgr_id ` set (pd_grants db)"
    and db': "db' = set_installation i (approve_installation_row who grant_id now) (db\<lparr> pd_grants := pd_grants db @
      [\<lparr> pgr_id = grant_id, pgr_organization_id = oc_organization_id cx, pgr_actor_id = pt_requested_by row,
         pgr_capability_id = pl_required_capability_id p, pgr_state = ''active'' \<rparr>] \<rparr>)"
    using assms
    by (auto simp: approve_installation_def locked_installation_def installation_can_be_approved_def Let_def
        split: option.splits if_splits)
  from db' find_installation_Some [OF row(1)] row(2) fresh find_plugin_Some [OF p]
  show ?thesis by (intro that) auto
qed

lemma activate_Inr:
  assumes "activate_installation cx i now db = Inr (row', db')"
  obtains row where "row \<in> set (pd_installations db)" and "pt_id row = i" and "pt_state row = ''approved''"
    and "db' = set_installation i (activate_row now) db"
  using assms
  by (auto simp: activate_installation_def locked_installation_def installation_can_activate_def
      split: option.splits if_splits dest!: find_installation_Some)

lemma set_installation_ok:
  assumes "plugins_ok db" and "row \<in> set (pd_installations db)" and "pt_id row = i"
    and "\<And>r. pt_id (f r) = pt_id r" and "installation_ok db (f row)"
  shows "plugins_ok (set_installation i f db)"
proof -
  let ?db = "set_installation i f db"
  have same: "installation_ok ?db r = installation_ok db r" for r
    by (simp add: installation_ok_def minted_for_def set_installation_def)
  have "r = row" if "r \<in> set (pd_installations db)" "pt_id r = i" for r
    using that assms(1-3) by (auto simp: plugins_ok_def dest: distinct_map_eq)
  then have "list_all (installation_ok ?db) (pd_installations ?db)"
    using assms(1,5) unfolding set_installation_def
    by (auto simp: plugins_ok_def list_all_iff set_update_where same [unfolded set_installation_def])
  moreover have "map pt_id (pd_installations ?db) = map pt_id (pd_installations db)"
    using assms(4) by (simp add: set_installation_def map_update_where)
  ultimately show ?thesis using assms(1) by (simp add: plugins_ok_def) (simp add: set_installation_def)
qed

lemma plugin_do_ok: "plugins_ok db \<Longrightarrow> plugins_ok (plugin_do c db)"
proof (cases c)
  case (Install cx plugin who new_id)
  assume ok: "plugins_ok db"
  show ?thesis
  proof (cases "install_plugin cx plugin who new_id db")
    case (Inr x)
    obtain row db' where x: "x = (row, db')" by (cases x)
    note eff = install_plugin_Inr [OF Inr [unfolded x]]
    have "installation_ok db' r" if "installation_ok db r" for r
      using that eff by (intro installation_ok_mono [OF that]) simp_all
    moreover have "installation_ok db' row" using eff by (simp add: installation_ok_def)
    ultimately have "plugins_ok db'" using ok eff by (auto simp: plugins_ok_def list_all_iff)
    with Inr x Install show ?thesis by simp
  qed (simp add: Install ok)
next
  case (Approve cx i who now grant_id)
  assume ok: "plugins_ok db"
  show ?thesis
  proof (cases "approve_installation cx i who now grant_id db")
    case (Inr x)
    obtain row' db' where x: "x = (row', db')" by (cases x)
    from Inr [unfolded x] show ?thesis
    proof (rule approve_Inr)
      fix row p g
      assume row: "row \<in> set (pd_installations db)" "pt_id row = i" "pt_state row = ''pending_approval''"
        and fresh: "grant_id \<notin> pgr_id ` set (pd_grants db)" and g: "pgr_id g = grant_id"
        and p: "p \<in> set (pd_plugins db)" "pl_id p = pt_plugin_id row" "pl_organization_id p = pt_organization_id row"
          "pgr_organization_id g = pt_organization_id row" "pgr_actor_id g = pt_requested_by row"
          "pgr_capability_id g = pl_required_capability_id p"
        and db': "db' = set_installation i (approve_installation_row who grant_id now) (db\<lparr> pd_grants := pd_grants db @ [g] \<rparr>)"
      let ?db1 = "db\<lparr> pd_grants := pd_grants db @ [g] \<rparr>"
      have "installation_ok ?db1 r" if "installation_ok db r" for r by (rule installation_ok_mono [OF that]) auto
      then have ok1: "plugins_ok ?db1" using ok fresh g by (auto simp: plugins_ok_def list_all_iff)
      have "minted_for ?db1 (approve_installation_row who grant_id now row)"
        using p g by (auto simp: minted_for_def approve_installation_row_def)
      then have "installation_ok ?db1 (approve_installation_row who grant_id now row)"
        by (simp add: installation_ok_def approve_installation_row_def INSTALLATION_STATES_def)
      then have "plugins_ok db'"
        unfolding db' using row by (intro set_installation_ok [OF ok1]) (simp_all add: approve_installation_row_def)
      with Inr x Approve show ?thesis by simp
    qed
  qed (simp add: Approve ok)
next
  case (Activate cx i now)
  assume ok: "plugins_ok db"
  show ?thesis
  proof (cases "activate_installation cx i now db")
    case (Inr x)
    obtain row' db' where x: "x = (row', db')" by (cases x)
    from Inr [unfolded x] show ?thesis
    proof (rule activate_Inr)
      fix row
      assume row: "row \<in> set (pd_installations db)" "pt_id row = i" "pt_state row = ''approved''"
        and db': "db' = set_installation i (activate_row now) db"
      have "installation_ok db row" using ok row(1) by (auto simp: plugins_ok_def list_all_iff)
      with row(3) have "installation_ok db (activate_row now row)"
        by (auto simp: installation_ok_def activate_row_def INSTALLATION_STATES_def minted_for_def)
      then have "plugins_ok db'"
        unfolding db' using row by (intro set_installation_ok [OF ok]) (simp_all add: activate_row_def)
      with Inr x Activate show ?thesis by simp
    qed
  qed (simp add: Activate ok)
next
  case (RevokeGrant g)
  assume ok: "plugins_ok db"
  let ?f = "\<lambda>r. if pgr_id r = g then r\<lparr> pgr_state := ''revoked'' \<rparr> else r"
  let ?db = "plugin_do c db"
  have grants: "pd_grants ?db = map ?f (pd_grants db)" by (simp add: RevokeGrant update_where_def)
  have "installation_ok ?db r" if "installation_ok db r" for r
  proof -
    have "\<exists>g' \<in> set (pd_grants ?db). pgr_id g' = pgr_id h \<and> pgr_organization_id g' = pgr_organization_id h
        \<and> pgr_actor_id g' = pgr_actor_id h \<and> pgr_capability_id g' = pgr_capability_id h"
      if "h \<in> set (pd_grants db)" for h
      using that unfolding grants by (intro bexI [of _ "?f h"]) auto
    then have "minted_for db r \<Longrightarrow> minted_for ?db r"
      by (rule minted_for_mono [rotated 2]) (simp_all add: RevokeGrant)
    with that show ?thesis by (auto simp: installation_ok_def)
  qed
  moreover have "map pgr_id (pd_grants ?db) = map pgr_id (pd_grants db)"
    by (simp add: RevokeGrant map_update_where)
  moreover have "pd_installations ?db = pd_installations db" by (simp add: RevokeGrant)
  ultimately show ?thesis using ok unfolding plugins_ok_def by (simp add: list_all_iff)
qed

interpretation plugin_tables: component plugin_do plugins_ok
  by unfold_locales (rule plugin_do_ok)


subsection \<open>The way to active\<close>

text \<open>How far an installation has come: no row or pending, approved, or anything after.\<close>

definition stage :: "uuid \<Rightarrow> plugin_db \<Rightarrow> nat" where
  "stage i db =
     (case find (\<lambda>r. pt_id r = i) (pd_installations db) of
        None \<Rightarrow> 0
      | Some r \<Rightarrow> if pt_state r = ''pending_approval'' then 0 else if pt_state r = ''approved'' then 1 else 2)"

fun is_approve :: "uuid \<Rightarrow> plugin_op \<Rightarrow> bool" where
  "is_approve i (Approve cx j who now g) = (j = i)"
| "is_approve i _ = False"

fun is_activate :: "uuid \<Rightarrow> plugin_op \<Rightarrow> bool" where
  "is_activate i (Activate cx j now) = (j = i)"
| "is_activate i _ = False"

lemma find_by_id: "distinct (map pt_id rows) \<Longrightarrow> r \<in> set rows \<Longrightarrow> find (\<lambda>x. pt_id x = pt_id r) rows = Some r"
  using find_unique [of pt_id rows "\<lambda>_. True" "pt_id r" r] by simp

lemma find_set_installation:
  "(\<And>r. pt_id (f r) = pt_id r) \<Longrightarrow>
     find (\<lambda>r. pt_id r = i) (pd_installations (set_installation j f db)) =
       map_option (\<lambda>r. if i = j then f r else r) (find (\<lambda>r. pt_id r = i) (pd_installations db))"
proof -
  assume f: "\<And>r. pt_id (f r) = pt_id r"
  have "find (\<lambda>r. pt_id r = i) (update_where (\<lambda>r. pt_id r = j) f rows) =
      map_option (\<lambda>r. if i = j then f r else r) (find (\<lambda>r. pt_id r = i) rows)" for rows
    using f by (induction rows) auto
  then show ?thesis by (simp add: set_installation_def)
qed

text \<open>Only an approval leaves the first stage, and only an activation the second.\<close>

lemma stage_step:
  assumes ok: "plugins_ok db"
  shows "stage i (plugin_do c db) = stage i db \<or> (is_approve i c \<and> stage i db = 0 \<and> stage i (plugin_do c db) = 1)
    \<or> (is_activate i c \<and> stage i db = 1 \<and> stage i (plugin_do c db) = 2)"
proof (cases c)
  case (Install cx plugin who new_id)
  show ?thesis
  proof (cases "install_plugin cx plugin who new_id db")
    case (Inr x)
    obtain row db' where x: "x = (row, db')" by (cases x)
    note eff = install_plugin_Inr [OF Inr [unfolded x]]
    have "find p (xs @ [y]) = (case find p xs of None \<Rightarrow> if p y then Some y else None | Some z \<Rightarrow> Some z)"
      for p :: "installation_row \<Rightarrow> bool" and xs y
      by (induction xs) auto
    then have "stage i db' = stage i db" using eff by (simp add: stage_def split: option.split)
    with Inr x Install show ?thesis by simp
  qed (simp add: Install)
next
  case (Approve cx j who now grant_id)
  show ?thesis
  proof (cases "approve_installation cx j who now grant_id db")
    case (Inr x)
    obtain row' db' where x: "x = (row', db')" by (cases x)
    from Inr [unfolded x] obtain row g where row: "row \<in> set (pd_installations db)" "pt_id row = j" "pt_state row = ''pending_approval''"
      and db': "db' = set_installation j (approve_installation_row who grant_id now) (db\<lparr> pd_grants := pd_grants db @ [g] \<rparr>)"
      by (rule approve_Inr)
    have "find (\<lambda>r. pt_id r = j) (pd_installations db) = Some row"
      using ok row find_by_id by (auto simp: plugins_ok_def)
    then show ?thesis
      using Inr x Approve db' row(3)
      by (cases "i = j") (simp_all add: stage_def find_set_installation approve_installation_row_def split: option.split)
  qed (simp add: Approve)
next
  case (Activate cx j now)
  show ?thesis
  proof (cases "activate_installation cx j now db")
    case (Inr x)
    obtain row' db' where x: "x = (row', db')" by (cases x)
    from Inr [unfolded x] obtain row where row: "row \<in> set (pd_installations db)" "pt_id row = j" "pt_state row = ''approved''"
      and db': "db' = set_installation j (activate_row now) db"
      by (rule activate_Inr)
    have "find (\<lambda>r. pt_id r = j) (pd_installations db) = Some row"
      using ok row find_by_id by (auto simp: plugins_ok_def)
    then show ?thesis
      using Inr x Activate db' row(3)
      by (cases "i = j") (simp_all add: stage_def find_set_installation activate_row_def split: option.split)
  qed (simp add: Activate)
qed (simp add: stage_def)

text \<open>The last operation that raised the stage.\<close>

lemma stage_reached:
  assumes "plugins_ok db" and "stage i db < n" and "stage i (fold plugin_do ops db) = n"
  shows "\<exists>xs c ys. ops = xs @ c # ys \<and> stage i (fold plugin_do xs db) = n - 1
    \<and> (if n = 1 then is_approve i c else is_activate i c)"
  using assms
proof (induction ops rule: rev_induct)
  case (snoc c ops)
  have ok: "plugins_ok (fold plugin_do ops db)" using snoc.prems(1) by (rule plugin_tables.run_inv)
  show ?case
  proof (cases "stage i (fold plugin_do ops db) = n")
    case True
    with snoc obtain xs d ys where "ops = xs @ d # ys" "stage i (fold plugin_do xs db) = n - 1"
      "if n = 1 then is_approve i d else is_activate i d"
      by blast
    then show ?thesis by (intro exI [of _ xs] exI [of _ d] exI [of _ "ys @ [c]"]) simp
  next
    case False
    with stage_step [OF ok, of i c] snoc.prems(3) show ?thesis
      by (intro exI [of _ ops] exI [of _ c] exI [of _ "[]"]) auto
  qed
qed simp

subsection \<open>Environments\<close>

lemma copy_extra_keys:
  "copy_extra xs clean = Inr env \<Longrightarrow> fst ` set env \<subseteq> fst ` set clean \<union> {k. \<not> env_key_is_sensitive k}"
proof (induction xs arbitrary: clean)
  case (Cons x xs)
  obtain k v where x: "x = (k, v)" by (cases x)
  with Cons have "\<not> env_key_is_sensitive k" "fst ` set env \<subseteq> fst ` set (AList.update k v clean) \<union> {k. \<not> env_key_is_sensitive k}"
    by (auto split: if_splits)
  moreover have "fst ` set (AList.update k v clean) = insert k (fst ` set clean)" by (simp add: dom_update)
  ultimately show ?case by auto
qed simp

lemma safe_keys_fold:
  "fst ` set (fold (\<lambda>k c. case map_of source k of None \<Rightarrow> c | Some v \<Rightarrow> AList.update k v c) ks clean)
     \<subseteq> fst ` set clean \<union> set ks"
proof (induction ks arbitrary: clean)
  case (Cons k ks)
  let ?c = "case map_of source k of None \<Rightarrow> clean | Some v \<Rightarrow> AList.update k v clean"
  have "fst ` set ?c \<subseteq> insert k (fst ` set clean)" by (auto simp: dom_update split: option.split)
  with Cons.IH [of ?c] show ?case by (simp only: fold_simps list.set) blast
qed simp

lemma safe_keys_benign: "k \<in> set SAFE_ENV_ALLOWLIST \<Longrightarrow> \<not> env_key_is_sensitive k"
  by (auto simp: SAFE_ENV_ALLOWLIST_def env_key_is_sensitive_def SENSITIVE_ENV_PREFIXES_def SENSITIVE_ENV_MARKERS_def
      str_upper_def upper_char_def starts_with_def contains_str.simps)

lemma sanitized_keys:
  "sanitize_environment os base extra = Inr env \<Longrightarrow> k \<in> fst ` set env \<Longrightarrow> \<not> env_key_is_sensitive k"
  using copy_extra_keys safe_keys_fold safe_keys_benign
  unfolding sanitize_environment_def Let_def by fastforce

text \<open>What the copying loop makes of its source: the allowed variables that are set there.\<close>

lemma map_of_safe_keys:
  "map_of (fold (\<lambda>k c. case map_of source k of None \<Rightarrow> c | Some v \<Rightarrow> AList.update k v c) ks clean) x
     = (if x \<in> set ks \<and> map_of source x \<noteq> None then map_of source x else map_of clean x)"
proof (induction ks arbitrary: clean)
  case (Cons k ks)
  then show ?case by (auto simp: update_conv' split: option.split)
qed simp

lemma sanitized_host:
  "sanitize_environment host None [] = Inr clean \<Longrightarrow>
     map_of clean k = (if k \<in> set SAFE_ENV_ALLOWLIST then map_of host k else None)"
  using map_of_safe_keys [of host SAFE_ENV_ALLOWLIST "[]" k] by (auto simp: sanitize_environment_def)

lemma temp_depends:
  assumes "\<And>k. k \<in> set TEMP_ENV_VARIABLES \<Longrightarrow> map_of e k = map_of e' k"
  shows "temp_candidates e = temp_candidates e'"
proof -
  have "map (\<lambda>k. case map_of e k of None \<Rightarrow> [] | Some v \<Rightarrow> if v = [] then [] else [v]) TEMP_ENV_VARIABLES
      = map (\<lambda>k. case map_of e' k of None \<Rightarrow> [] | Some v \<Rightarrow> if v = [] then [] else [v]) TEMP_ENV_VARIABLES"
    by (rule map_cong) (simp_all add: assms)
  then show ?thesis by (simp only: temp_candidates_def)
qed

lemma sanitize_depends:
  assumes "\<And>k. k \<in> set SAFE_ENV_ALLOWLIST \<Longrightarrow> map_of e k = map_of e' k"
  shows "sanitize_environment e None extra = sanitize_environment e' None extra"
proof -
  have "fold (\<lambda>k c. case map_of e k of None \<Rightarrow> c | Some v \<Rightarrow> AList.update k v c) SAFE_ENV_ALLOWLIST []
      = fold (\<lambda>k c. case map_of e' k of None \<Rightarrow> c | Some v \<Rightarrow> AList.update k v c) SAFE_ENV_ALLOWLIST []"
    by (rule fold_cong) (simp_all add: assms)
  then show ?thesis by (simp add: sanitize_environment_def)
qed

text \<open>
  The calls a plugin may be handed on a host: the working directory is a fresh one, and the
  environment has the allowed variables with the values of the host, \<open>HOME\<close> and \<open>TMPDIR\<close> that name
  the fresh directory, and nothing else.
\<close>

definition jailed :: "(string list \<Rightarrow> string option) \<Rightarrow> environment \<Rightarrow> process_call \<Rightarrow> bool" where
  "jailed mkdtemp host c \<longleftrightarrow> mkdtemp (temp_candidates host) = Some (pr_cwd c) \<and>
     (\<forall>k. map_of (pr_env c) k =
        (if k \<in> {''HOME'', ''TMPDIR''} then Some (pr_cwd c)
         else if k \<in> set SAFE_ENV_ALLOWLIST then map_of host k else None))"

lemma jailed_call_jailed:
  assumes "sanitize_environment host None [] = Inr clean" and "mkdtemp (temp_candidates host) = Some jail"
  shows "jailed mkdtemp host (jailed_call jail clean argv input timeout)"
  using assms(2) sanitized_host [OF assms(1)]
  by (auto simp: jailed_def jailed_call_def update_conv' SAFE_ENV_ALLOWLIST_def)


section \<open>Properties\<close>

text \<open>
  C29. What a plugin process is handed holds no secret of the host: its environment is that of
  \<open>jailed\<close>, the six allowed variables and the fresh directory. So a call returns the same on two
  hosts that agree on these variables and on the three that place the fresh directory, whatever
  else their environments hold, with two plugin programs that may differ in everything but their
  answers to such calls.
\<close>

theorem host_secrets_isolated:
  assumes "\<And>k. k \<in> set SAFE_ENV_ALLOWLIST \<union> set TEMP_ENV_VARIABLES \<Longrightarrow> map_of host k = map_of host' k"
    and "\<And>c. jailed mkdtemp host c \<Longrightarrow> run c = run' c"
  shows "execute_plugin_rpc run mkdtemp dumps loads host cx i method params None db dirs =
    execute_plugin_rpc run' mkdtemp dumps loads host' cx i method params None db dirs"
proof -
  have clean: "sanitize_environment host None [] = sanitize_environment host' None []"
    using assms(1) by (intro sanitize_depends) blast
  have temp: "temp_candidates host = temp_candidates host'"
    using assms(1) by (intro temp_depends) blast
  have "run (jailed_call jail c argv input timeout) = run' (jailed_call jail c argv input timeout)"
    if "sanitize_environment host' None [] = Inr c" and "mkdtemp (temp_candidates host') = Some jail" for jail c argv input timeout
    using that clean temp by (intro assms(2) jailed_call_jailed) simp_all
  then have same: "run_in_sandbox run mkdtemp host argv timeout input None [] dirs = run_in_sandbox run' mkdtemp host' argv timeout input None [] dirs"
    for argv timeout input
    unfolding run_in_sandbox_def clean temp by (simp split: sum.split option.split)
  show ?thesis unfolding execute_plugin_rpc_def same ..
qed

definition sample_plugin_context :: org_context where
  "sample_plugin_context = \<lparr> oc_auth_identity_id = 8, oc_actor_id = 9, oc_organization_id = 1, oc_session_id = 7,
     oc_platform_role = PlatformNone, oc_membership_role = OrgAdmin \<rparr>"

definition sample_plugin_db :: plugin_db where
  "sample_plugin_db = \<lparr> pd_plugins = [\<lparr> pl_id = 2, pl_organization_id = 1, pl_name = ''p'', pl_version = ''1'',
       pl_entrypoint = ''img'', pl_required_capability_id = 3, pl_cpu_millis = 1, pl_memory_mb = 1,
       pl_timeout_seconds = 5, pl_filesystem_jail = ''/j'', pl_state = ''registered'' \<rparr>],
     pd_methods = [\<lparr> pm_organization_id = 1, pm_plugin_id = 2, pm_method_name = ''go'', pm_input_schema = [],
       pm_output_schema = [] \<rparr>],
     pd_installations = [], pd_allow_rules = [], pd_grants = [] \<rparr>"

definition echo_runner :: process_runner where
  "echo_runner call = Completed \<lparr> sr_returncode = 0, sr_stdout = pr_input call, sr_stderr = [] \<rparr>"

text \<open>The answers of a call that got past the checks of its installation, plugin and method.\<close>

fun reaches_sandbox :: "plugin_error + string \<times> pyval \<Rightarrow> bool" where
  "reaches_sandbox (Inr reply) = True"
| "reaches_sandbox (Inl (SandboxFailed e)) = True"
| "reaches_sandbox (Inl PluginExecutionFailed) = True"
| "reaches_sandbox (Inl e) = False"

definition sample_plugin_calls :: "plugin_op list" where
  "sample_plugin_calls = [Install sample_plugin_context 2 5 4, Approve sample_plugin_context 4 6 10 11,
     Activate sample_plugin_context 4 12]"

definition first_dir :: "string list \<Rightarrow> string option" where
  "first_dir ds = (case ds of [] \<Rightarrow> None | d # _ \<Rightarrow> Some (d @ ''/xiosync-plugin-1''))"

text \<open>A plugin that answers with two variables of its environment.\<close>

definition shown :: "environment \<Rightarrow> string \<Rightarrow> string" where
  "shown env k = (case map_of env k of None \<Rightarrow> ''none'' | Some v \<Rightarrow> v)"

definition reveal_runner :: process_runner where
  "reveal_runner call = Completed \<lparr> sr_returncode = 0,
     sr_stdout = shown (pr_env call) ''PATH'' @ '':'' @ shown (pr_env call) ''DATABASE_URL'', sr_stderr = [] \<rparr>"

lemmas active_plugin_defs = sample_plugin_calls_def sample_plugin_db_def sample_plugin_context_def install_plugin_def
  find_plugin_def INSTALLATION_LANDING_STATE_def approve_installation_def locked_installation_def find_installation_def
  installation_can_be_approved_def set_installation_def approve_installation_row_def activate_installation_def
  installation_can_activate_def activate_row_def execute_plugin_rpc_def installation_is_operational_def
  run_in_sandbox_def jailed_call_def build_launch_argv_def sanitize_environment_def SAFE_ENV_ALLOWLIST_def
  first_dir_def temp_candidates_def TEMP_ENV_VARIABLES_def

theorem host_secrets_isolated_witness:
  "execute_plugin_rpc reveal_runner first_dir (\<lambda>_. ''x'') (\<lambda>s. Some (PStr s)) [(''PATH'', ''/bin''), (''DATABASE_URL'', ''secret'')]
      sample_plugin_context 4 ''go'' (PDict []) None (fold plugin_do sample_plugin_calls sample_plugin_db) []
    = (Inr (''go'', PStr ''/bin:none''), [])"
proof -
  have two: "execute_plugin_rpc (\<lambda>c. if pr_cwd c = [] then ProcessRaised else reveal_runner c) first_dir (\<lambda>_. ''x'') (\<lambda>s. Some (PStr s))
      [(''PATH'', ''/bin'')] sample_plugin_context 4 ''go'' (PDict []) None (fold plugin_do sample_plugin_calls sample_plugin_db) []
    = (Inr (''go'', PStr ''/bin:none''), [])"
    by (simp add: active_plugin_defs Let_def reveal_runner_def shown_def)
  have agree: "reveal_runner c = (if pr_cwd c = [] then ProcessRaised else reveal_runner c)" if "jailed first_dir host c" for c host
    using that by (auto simp: jailed_def first_dir_def split: list.splits)
  show ?thesis
    unfolding two [symmetric]
    by (rule host_secrets_isolated [OF _ agree]) (auto simp: SAFE_ENV_ALLOWLIST_def TEMP_ENV_VARIABLES_def)
qed

lemma reaches_sandbox_active:
  assumes "reaches_sandbox (fst (execute_plugin_rpc run mkdtemp dumps loads host cx i method params base db dirs))"
  obtains r where "find_installation (oc_organization_id cx) i db = Some r" and "pt_state r = ''active''"
  using assms
  by (auto simp: execute_plugin_rpc_def Let_def installation_is_operational_def split: option.splits if_splits)

text \<open>
  C28. A plugin that runs was approved and then activated. Whenever a call reaches the sandbox after
  a history that began with no or a pending installation, the history contains an approval of this
  installation and, later, its activation; and the approval minted a grant of the capability the
  plugin requires, to the actor who requested the installation.
\<close>

theorem running_plugin_was_approved:
  assumes "plugins_ok db" and "stage i db = 0"
    and "reaches_sandbox (fst (execute_plugin_rpc run mkdtemp dumps loads host cx i method params base (fold plugin_do ops db) dirs))"
  shows "\<exists>xs a ys b zs r. ops = xs @ a # ys @ b # zs \<and> is_approve i a \<and> is_activate i b
    \<and> find_installation (oc_organization_id cx) i (fold plugin_do ops db) = Some r
    \<and> pt_approved_by r \<noteq> None \<and> minted_for (fold plugin_do ops db) r"
proof -
  let ?db = "fold plugin_do ops db"
  obtain r where r: "find_installation (oc_organization_id cx) i ?db = Some r" "pt_state r = ''active''"
    using assms(3) by (rule reaches_sandbox_active)
  have ok: "plugins_ok ?db" using assms(1) by (rule plugin_tables.run_inv)
  note mem = find_installation_Some [OF r(1)]
  with ok r(2) have "find (\<lambda>x. pt_id x = i) (pd_installations ?db) = Some r"
    using find_by_id by (auto simp: plugins_ok_def)
  with r(2) have "stage i ?db = 2" by (simp add: stage_def)
  from stage_reached [OF assms(1) _ this] assms(2) obtain xs b zs
    where ops: "ops = xs @ b # zs" "stage i (fold plugin_do xs db) = 1" "is_activate i b" by auto
  from stage_reached [OF assms(1) _ ops(2)] assms(2) obtain ws a ys where "xs = ws @ a # ys" "is_approve i a" by auto
  moreover have "installation_ok ?db r" using ok mem by (auto simp: plugins_ok_def list_all_iff)
  ultimately show ?thesis using ops r by (fastforce simp: installation_ok_def)
qed

theorem running_plugin_was_approved_witness:
  "\<exists>r. find_installation 1 4 (fold plugin_do sample_plugin_calls sample_plugin_db) = Some r \<and> pt_approved_by r \<noteq> None"
proof -
  have ok: "plugins_ok sample_plugin_db" "stage 4 sample_plugin_db = 0"
    by (simp_all add: plugins_ok_def stage_def sample_plugin_db_def)
  have "reaches_sandbox (fst (execute_plugin_rpc echo_runner first_dir (\<lambda>_. ''x'') (\<lambda>_. Some PNone) []
      sample_plugin_context 4 ''go'' (PDict []) None (fold plugin_do sample_plugin_calls sample_plugin_db) []))"
    by (simp add: active_plugin_defs Let_def echo_runner_def)
  from running_plugin_was_approved [OF ok this] show ?thesis by (auto simp: sample_plugin_context_def)
qed

text \<open>
  No allow-all. Whatever rows the allowlist of an installation holds, a destination that it
  permits is named by one of its rows, up to case and blanks, with that port and protocol; and no
  sentinel for every host is ever permitted.
\<close>

theorem network_needs_a_row:
  assumes "installation_network_permits cx i host port protocol db = Inr True"
  shows "normalize host \<notin> set FORBIDDEN_HOST_SENTINELS
    \<and> (\<exists>r \<in> set (pd_allow_rules db). pa_organization_id r = oc_organization_id cx \<and> pa_installation_id r = i
         \<and> normalize (pa_host r) = normalize host \<and> pa_port r = port \<and> normalize (pa_protocol r) = normalize protocol
         \<and> 1 \<le> port \<and> port \<le> 65535)"
proof -
  let ?rows = "filter (\<lambda>r. pa_organization_id r = oc_organization_id cx \<and> pa_installation_id r = i) (pd_allow_rules db)"
  obtain rules rule where rules: "traverse (\<lambda>r. mk_network_allow_rule (pa_host r) (pa_port r) (pa_protocol r)) ?rows = Inr rules"
    and rule: "rule \<in> set rules" "rule_matches rule host port protocol"
    using assms
    by (auto simp: installation_network_permits_def Let_def network_permits_def network_allows_def list_ex_iff split: sum.splits)
  from rules have "list_all2 (\<lambda>r x. mk_network_allow_rule (pa_host r) (pa_port r) (pa_protocol r) = Inr x) ?rows rules"
    by (simp add: traverse_Inr)
  from list_all2_mem [OF this rule(1)] obtain r where r: "r \<in> set ?rows" "mk_network_allow_rule (pa_host r) (pa_port r) (pa_protocol r) = Inr rule"
    by blast
  then have "normalize (pa_host r) \<notin> set FORBIDDEN_HOST_SENTINELS" "rule = \<lparr> na_host = normalize (pa_host r),
      na_port = pa_port r, na_protocol = normalize (pa_protocol r) \<rparr>" "1 \<le> pa_port r" "pa_port r \<le> 65535"
    by (auto simp: mk_network_allow_rule_def split: if_splits)
  with r(1) rule(2) show ?thesis by (auto simp: rule_matches_def)
qed

theorem network_needs_a_row_witness:
  "\<exists>db. installation_network_permits sample_plugin_context 4 '' API.Example.com'' 443 ''HTTPS'' db = Inr True
    \<and> normalize '' API.Example.com'' \<notin> set FORBIDDEN_HOST_SENTINELS"
proof -
  let ?db = "sample_plugin_db\<lparr> pd_allow_rules := [\<lparr> pa_organization_id = 1, pa_installation_id = 4,
      pa_host = ''api.example.com'', pa_port = 443, pa_protocol = ''https'' \<rparr>] \<rparr>"
  have "installation_network_permits sample_plugin_context 4 '' API.Example.com'' 443 ''HTTPS'' ?db = Inr True"
    by code_simp
  from network_needs_a_row [OF this] this show ?thesis by blast
qed

section \<open>What the code says otherwise\<close>

text \<open>
  Execution reads the state of the installation, the entrypoint, the deadline and the names of the
  methods. The minted grant, the network allowlist, the other quotas, the filesystem jail of the
  manifest and the schemas of the methods have no influence on it.
\<close>

definition strip_controls :: "plugin_db \<Rightarrow> plugin_db" where
  "strip_controls db = db\<lparr> pd_grants := [], pd_allow_rules := [],
     pd_plugins := map (\<lambda>p. p\<lparr> pl_cpu_millis := 0, pl_memory_mb := 0, pl_filesystem_jail := [], pl_state := [] \<rparr>) (pd_plugins db),
     pd_methods := map (\<lambda>m. m\<lparr> pm_input_schema := [], pm_output_schema := [] \<rparr>) (pd_methods db) \<rparr>"

lemma execution_ignores_controls:
  "execute_plugin_rpc run mkdtemp dumps loads host cx i method params base (strip_controls db) dirs =
     execute_plugin_rpc run mkdtemp dumps loads host cx i method params base db dirs"
proof -
  have inst: "find_installation org j (strip_controls db) = find_installation org j db" for org j
    by (simp add: find_installation_def strip_controls_def)
  let ?f = "\<lambda>p. p\<lparr> pl_cpu_millis := 0, pl_memory_mb := 0, pl_filesystem_jail := [], pl_state := [] \<rparr>"
  have "find (\<lambda>r. pl_organization_id r = org \<and> pl_id r = j) (map ?f ps) =
      map_option ?f (find (\<lambda>r. pl_organization_id r = org \<and> pl_id r = j) ps)" for org j ps
    by (induction ps) auto
  then have plug: "find_plugin org j (strip_controls db) = map_option ?f (find_plugin org j db)" for org j
    by (simp add: find_plugin_def strip_controls_def)
  have "map pm_method_name (filter (\<lambda>r. pm_organization_id r = org \<and> pm_plugin_id r = j)
        (map (\<lambda>m. m\<lparr> pm_input_schema := [], pm_output_schema := [] \<rparr>) ms)) =
      map pm_method_name (filter (\<lambda>r. pm_organization_id r = org \<and> pm_plugin_id r = j) ms)" for org j ms
    by (induction ms) auto
  then have meths: "map pm_method_name (filter (\<lambda>r. pm_organization_id r = org \<and> pm_plugin_id r = j) (pd_methods (strip_controls db))) =
      map pm_method_name (filter (\<lambda>r. pm_organization_id r = org \<and> pm_plugin_id r = j) (pd_methods db))" for org j
    by (simp add: strip_controls_def)
  show ?thesis
    unfolding execute_plugin_rpc_def Let_def inst plug meths by (simp split: option.split pyval.split)
qed

text \<open>A deprecated manifest is installed like a registered one.\<close>

lemma deprecated_installs:
  assumes "find_plugin (oc_organization_id cx) plugin db = Some p" and "pl_state p = ''deprecated''"
    and "find (\<lambda>r. pt_organization_id r = oc_organization_id cx \<and> pt_plugin_id r = plugin) (pd_installations db) = None"
    and "new_id \<notin> pt_id ` set (pd_installations db)"
  shows "is_ok (install_plugin cx plugin who new_id db)"
  using assms by (simp add: install_plugin_def Let_def)

end
