(* ===== verification/Documents.thy ===== *)
theory Documents
  imports Tenancy Authz
begin

text \<open>
  Document collections: \<^verbatim>\<open>services/documents.py\<close> over the tables of
  \<^verbatim>\<open>persistence/models/documents.py\<close>, with the operation and the event that a change records.

  A uniqueness or foreign-key constraint is an \<open>IntegrityError\<close> branch. Rows that an ORDER BY leaves
  tied come in the order \<open>tie\<close>. \<open>isofmt\<close> is the text of a datetime. The session sees the rows of every
  organization, as that of a superuser does, whom row-level security does not bind: a statement filters by
  organization only where the code does, and the look-up of a parent page does not.
\<close>

section \<open>Tables\<close>

record doc_collection =
  cl_id :: uuid
  cl_organization_id :: uuid
  cl_name :: string
  cl_slug :: string
  cl_description :: "string option"
  cl_version :: string
  cl_state :: string
  cl_doc_type :: string
  cl_created_by :: uuid
  cl_created_at :: datetime
  cl_published_at :: "datetime option"
  cl_updated_at :: "datetime option"

record doc_page =
  pp_id :: uuid
  pp_collection_id :: uuid
  pp_organization_id :: uuid
  pp_artifact_id :: "uuid option"
  pp_title :: string
  pp_slug :: string
  pp_content_format :: string
  pp_inline_content :: "string option"
  pp_page_order :: int
  pp_parent_page_id :: "uuid option"
  pp_depth :: int

record doc_operation =
  do_id :: uuid
  do_organization_id :: uuid
  do_actor_id :: uuid
  do_operation :: string
  do_from_state :: "string option"
  do_to_state :: "string option"
  do_rationale :: string
  do_at :: datetime

record doc_event =
  dv_id :: uuid
  dv_organization_id :: uuid
  dv_event_type :: string
  dv_actor_id :: uuid
  dv_operation_id :: uuid
  dv_entity_id :: uuid
  dv_payload :: "(string \<times> string) list"
  dv_created_at :: datetime

record doc_db =
  db_collections :: "doc_collection list"
  db_pages :: "doc_page list"
  db_operations :: "doc_operation list"
  db_events :: "doc_event list"
  db_artifacts :: "uuid list"

text \<open>The snapshot of a collection that the service returns, with the number of its pages.\<close>

type_synonym collection_record = "doc_collection \<times> nat"

datatype doc_error = DocumentNotFound uuid | DocIntegrity

record doc_ids =
  di_row :: uuid
  di_operation :: uuid
  di_event :: uuid

section \<open>The service\<close>

definition find_collection :: "uuid \<Rightarrow> uuid \<Rightarrow> doc_db \<Rightarrow> doc_collection option" where
  "find_collection org i db = find (\<lambda>c. cl_id c = i \<and> cl_organization_id c = org) (db_collections db)"

definition page_count :: "uuid \<Rightarrow> doc_db \<Rightarrow> nat" where
  "page_count i db = length (filter (\<lambda>p. pp_collection_id p = i) (db_pages db))"

text \<open>The operation and the event of a change.\<close>

definition record_change ::
  "org_context \<Rightarrow> doc_ids \<Rightarrow> datetime \<Rightarrow> string \<Rightarrow> string option \<Rightarrow> string option \<Rightarrow> string \<Rightarrow> uuid
   \<Rightarrow> (string \<times> string) list \<Rightarrow> doc_db \<Rightarrow> doc_db" where
  "record_change cx ids now operation from_state to_state rationale entity payload db =
     db\<lparr> db_operations := db_operations db @
           [\<lparr> do_id = di_operation ids, do_organization_id = oc_organization_id cx, do_actor_id = oc_actor_id cx,
              do_operation = operation, do_from_state = from_state, do_to_state = to_state,
              do_rationale = rationale, do_at = now \<rparr>],
         db_events := db_events db @
           [\<lparr> dv_id = di_event ids, dv_organization_id = oc_organization_id cx, dv_event_type = ''artifact.created'',
              dv_actor_id = oc_actor_id cx, dv_operation_id = di_operation ids, dv_entity_id = entity,
              dv_payload = payload, dv_created_at = now \<rparr>] \<rparr>"

definition create_collection ::
  "org_context \<Rightarrow> doc_ids \<Rightarrow> datetime \<Rightarrow> string \<Rightarrow> string \<Rightarrow> string \<Rightarrow> string option \<Rightarrow> string \<Rightarrow> doc_db
   \<Rightarrow> doc_error + collection_record \<times> doc_db" where
  "create_collection cx ids now name slug doc_type description version db =
     (let org = oc_organization_id cx;
          coll = \<lparr> cl_id = di_row ids, cl_organization_id = org, cl_name = name, cl_slug = slug,
            cl_description = description, cl_version = version, cl_state = ''draft'', cl_doc_type = doc_type,
            cl_created_by = oc_actor_id cx, cl_created_at = now, cl_published_at = None, cl_updated_at = None \<rparr>
      in if di_row ids \<in> cl_id ` set (db_collections db)
            \<or> list_ex (\<lambda>c. cl_organization_id c = org \<and> cl_slug c = slug \<and> cl_version c = version) (db_collections db)
         then Inl DocIntegrity
         else Inr ((coll, 0),
           record_change cx ids now ''document.collection.create'' None None (''Created document collection: '' @ name)
             (di_row ids) [(''name'', name), (''slug'', slug), (''doc_type'', doc_type), (''version'', version)]
             (db\<lparr> db_collections := db_collections db @ [coll] \<rparr>)))"

definition parent_depth :: "uuid option \<Rightarrow> doc_page list \<Rightarrow> int" where
  "parent_depth parent pages =
     (case parent of
        None \<Rightarrow> 0
      | Some q \<Rightarrow> (case find (\<lambda>p. pp_id p = q) pages of
          None \<Rightarrow> 0 | Some p \<Rightarrow> pp_depth p + 1))"

definition add_page ::
  "org_context \<Rightarrow> uuid \<Rightarrow> uuid \<Rightarrow> string \<Rightarrow> string \<Rightarrow> string \<Rightarrow> string option \<Rightarrow> uuid option \<Rightarrow> int option \<Rightarrow> uuid option
   \<Rightarrow> doc_db \<Rightarrow> doc_error + doc_page \<times> doc_db" where
  "add_page cx new_id collection title slug content_format inline_content artifact page_order parent db =
     (let org = oc_organization_id cx in
      case find_collection org collection db of
        None \<Rightarrow> Inl (DocumentNotFound collection)
      | Some _ \<Rightarrow>
          let ord = (case page_order of None \<Rightarrow> int (page_count collection db) + 1 | Some n \<Rightarrow> n);
              depth = parent_depth parent (db_pages db);
              page = \<lparr> pp_id = new_id, pp_collection_id = collection, pp_organization_id = org, pp_artifact_id = artifact,
                pp_title = title, pp_slug = slug, pp_content_format = content_format,
                pp_inline_content = inline_content, pp_page_order = ord, pp_parent_page_id = parent, pp_depth = depth \<rparr>
          in if new_id \<in> pp_id ` set (db_pages db)
                \<or> list_ex (\<lambda>p. pp_collection_id p = collection \<and> pp_slug p = slug) (db_pages db)
                \<or> (case parent of None \<Rightarrow> False | Some q \<Rightarrow> q \<notin> pp_id ` set (db_pages db))
                \<or> (case artifact of None \<Rightarrow> False | Some a \<Rightarrow> a \<notin> set (db_artifacts db))
             then Inl DocIntegrity
             else Inr (page, db\<lparr> db_pages := db_pages db @ [page] \<rparr>))"

text \<open>A version that is None or empty changes nothing.\<close>

fun given :: "string option \<Rightarrow> string option" where
  "given None = None"
| "given (Some s) = (if s = [] then None else Some s)"

definition publish_row :: "datetime \<Rightarrow> string option \<Rightarrow> doc_collection \<Rightarrow> doc_collection" where
  "publish_row now new_version c =
     c\<lparr> cl_state := ''published'', cl_published_at := Some now, cl_updated_at := Some now,
        cl_version := (case given new_version of None \<Rightarrow> cl_version c | Some v \<Rightarrow> v) \<rparr>"

definition publish_collection ::
  "org_context \<Rightarrow> doc_ids \<Rightarrow> datetime \<Rightarrow> uuid \<Rightarrow> string option \<Rightarrow> doc_db \<Rightarrow> doc_error + collection_record \<times> doc_db" where
  "publish_collection cx ids now collection new_version db =
     (case find_collection (oc_organization_id cx) collection db of
        None \<Rightarrow> Inl (DocumentNotFound collection)
      | Some coll \<Rightarrow>
          let fresh = publish_row now new_version coll
          in if list_ex (\<lambda>c. cl_id c \<noteq> collection \<and> cl_organization_id c = cl_organization_id fresh
                   \<and> cl_slug c = cl_slug fresh \<and> cl_version c = cl_version fresh) (db_collections db)
             then Inl DocIntegrity
             else Inr ((fresh, page_count collection db),
               record_change cx ids now ''document.collection.publish'' (Some (cl_state coll)) (Some ''published'')
                 (''Published: '' @ cl_name coll) collection
                 [(''action'', ''published''), (''version'', case given new_version of None \<Rightarrow> cl_version coll | Some v \<Rightarrow> v)]
                 (db\<lparr> db_collections := update_where (\<lambda>c. cl_id c = collection) (publish_row now new_version)
                    (db_collections db) \<rparr>)))"

definition list_collections ::
  "(uuid \<Rightarrow> nat) \<Rightarrow> org_context \<Rightarrow> string option \<Rightarrow> string option \<Rightarrow> nat \<Rightarrow> doc_db \<Rightarrow> collection_record list" where
  "list_collections tie cx doc_type state limit db =
     map (\<lambda>c. (c, page_count (cl_id c) db))
       (take limit (sort_key (\<lambda>c. - cl_created_at c) (sort_key (\<lambda>c. tie (cl_id c))
         (filter (\<lambda>c. cl_organization_id c = oc_organization_id cx
              \<and> (case given doc_type of None \<Rightarrow> True | Some t \<Rightarrow> cl_doc_type c = t)
              \<and> (case given state of None \<Rightarrow> True | Some s \<Rightarrow> cl_state c = s)) (db_collections db)))))"

definition get_collection_pages :: "(uuid \<Rightarrow> nat) \<Rightarrow> org_context \<Rightarrow> uuid \<Rightarrow> doc_db \<Rightarrow> doc_page list" where
  "get_collection_pages tie cx collection db =
     sort_key pp_page_order (sort_key (\<lambda>p. tie (pp_id p))
       (filter (\<lambda>p. pp_collection_id p = collection \<and> pp_organization_id p = oc_organization_id cx) (db_pages db)))"

definition get_page :: "org_context \<Rightarrow> uuid \<Rightarrow> doc_db \<Rightarrow> doc_page option" where
  "get_page cx i db = find (\<lambda>p. pp_id p = i \<and> pp_organization_id p = oc_organization_id cx) (db_pages db)"

text \<open>The link of a page in the index.\<close>

definition page_line :: "doc_collection \<Rightarrow> doc_page \<Rightarrow> string" where
  "page_line coll p = ''- ['' @ pp_title p @ ''](/api/v1/docs/'' @ cl_slug coll @ ''/pages/'' @ pp_slug p @ ''.md): '' @ pp_title p"

definition section_children :: "doc_page list \<Rightarrow> doc_page \<Rightarrow> doc_page list" where
  "section_children pages section = filter (\<lambda>p. pp_parent_page_id p = Some (pp_id section)) pages"

definition section_lines :: "doc_collection \<Rightarrow> doc_page list \<Rightarrow> doc_page \<Rightarrow> string list" where
  "section_lines coll pages section =
     (if section_children pages section \<noteq> []
      then (''## '' @ pp_title section) # map (page_line coll) (section_children pages section) @ ['''']
      else [page_line coll section])"

definition NEWLINE :: string where "NEWLINE = [char_of (10 :: nat)]"

definition generate_llms_txt :: "(uuid \<Rightarrow> nat) \<Rightarrow> org_context \<Rightarrow> uuid \<Rightarrow> doc_db \<Rightarrow> doc_error + string" where
  "generate_llms_txt tie cx collection db =
     (case find_collection (oc_organization_id cx) collection db of
        None \<Rightarrow> Inl (DocumentNotFound collection)
      | Some coll \<Rightarrow>
          let pages = get_collection_pages tie cx collection db;
              heading = (''# '' @ cl_name coll) # '''' #
                (case given (cl_description coll) of None \<Rightarrow> [] | Some d \<Rightarrow> [''> '' @ d, '''']);
              top_level = filter (\<lambda>p. pp_parent_page_id p = None) pages
          in Inr (join NEWLINE (heading @ concat (map (section_lines coll pages) top_level)) @ NEWLINE))"

definition page_body :: "doc_page \<Rightarrow> string list" where
  "page_body p =
     [''# '' @ pp_title p, '''',
      (case given (pp_inline_content p) of
         Some c \<Rightarrow> c
       | None \<Rightarrow> ''*Content at: artifact '' @ (case pp_artifact_id p of None \<Rightarrow> ''None'' | Some a \<Rightarrow> uuid_str a) @ ''*''),
      '''', ''---'', '''']"

definition generate_llms_full_txt ::
  "(uuid \<Rightarrow> nat) \<Rightarrow> (datetime \<Rightarrow> string) \<Rightarrow> datetime \<Rightarrow> org_context \<Rightarrow> uuid \<Rightarrow> doc_db \<Rightarrow> doc_error + string" where
  "generate_llms_full_txt tie isofmt now cx collection db =
     (case find_collection (oc_organization_id cx) collection db of
        None \<Rightarrow> Inl (DocumentNotFound collection)
      | Some coll \<Rightarrow>
          let pages = get_collection_pages tie cx collection db
          in Inr (join NEWLINE ([''---'', ''title: '' @ cl_name coll, ''version: '' @ cl_version coll,
                 ''page_count: '' @ nat_str (length pages), ''generated_at: '' @ isofmt now, ''---'', '''']
               @ concat (map page_body pages))))"

section \<open>Histories\<close>

datatype doc_call =
    CreateCollection org_context doc_ids datetime string string string "string option" string
  | AddPage org_context uuid uuid string string string "string option" "uuid option" "int option" "uuid option"
  | PublishCollection org_context doc_ids datetime uuid "string option"

fun doc_do :: "doc_call \<Rightarrow> doc_db \<Rightarrow> doc_db" where
  "doc_do (CreateCollection cx ids now name slug ty d v) db =
     (case create_collection cx ids now name slug ty d v db of Inl _ \<Rightarrow> db | Inr (_, db') \<Rightarrow> db')"
| "doc_do (AddPage cx i coll title slug fmt content artifact ord parent) db =
     (case add_page cx i coll title slug fmt content artifact ord parent db of Inl _ \<Rightarrow> db | Inr (_, db') \<Rightarrow> db')"
| "doc_do (PublishCollection cx ids now coll v) db =
     (case publish_collection cx ids now coll v db of Inl _ \<Rightarrow> db | Inr (_, db') \<Rightarrow> db')"

text \<open>The number of steps from a page up to one without a parent.\<close>

inductive level :: "doc_page list \<Rightarrow> doc_page \<Rightarrow> int \<Rightarrow> bool" for pages where
  level_root: "p \<in> set pages \<Longrightarrow> pp_parent_page_id p = None \<Longrightarrow> level pages p 0"
| level_child: "p \<in> set pages \<Longrightarrow> pp_parent_page_id p = Some (pp_id q) \<Longrightarrow> level pages q n \<Longrightarrow> level pages p (n + 1)"

text \<open>From a page to its parent.\<close>

definition parent_step :: "doc_page list \<Rightarrow> doc_page \<Rightarrow> doc_page \<Rightarrow> bool" where
  "parent_step pages p q \<longleftrightarrow> p \<in> set pages \<and> q \<in> set pages \<and> pp_parent_page_id p = Some (pp_id q)"

text \<open>
  The tables: ids are unique, a page belongs to the organization of its collection, slugs are unique in
  a collection, versions of a slug in an organization, and the depth of a page is its level.
\<close>

definition docs_ok :: "doc_db \<Rightarrow> bool" where
  "docs_ok db \<longleftrightarrow> distinct (map cl_id (db_collections db)) \<and> distinct (map pp_id (db_pages db))
     \<and> distinct (map (\<lambda>c. (cl_organization_id c, cl_slug c, cl_version c)) (db_collections db))
     \<and> distinct (map (\<lambda>p. (pp_collection_id p, pp_slug p)) (db_pages db))
     \<and> (\<forall>p \<in> set (db_pages db). (\<exists>c \<in> set (db_collections db). cl_id c = pp_collection_id p
            \<and> cl_organization_id c = pp_organization_id p) \<and> level (db_pages db) p (pp_depth p))"

lemma level_mono: "level pages p n \<Longrightarrow> set pages \<subseteq> set pages' \<Longrightarrow> level pages' p n"
  by (induction rule: level.induct) (auto intro: level.intros)

lemma find_collection_Some:
  "find_collection org i db = Some c \<Longrightarrow> c \<in> set (db_collections db) \<and> cl_id c = i \<and> cl_organization_id c = org"
  unfolding find_collection_def by (drule find_Some_iff_mem) blast

lemma record_change_simps [simp]:
  "db_collections (record_change cx ids now op f t r e pl db) = db_collections db"
  "db_pages (record_change cx ids now op f t r e pl db) = db_pages db"
  "db_artifacts (record_change cx ids now op f t r e pl db) = db_artifacts db"
  by (simp_all add: record_change_def)

lemma docs_ok_record [simp]: "docs_ok (record_change cx ids now op f t r e pl db) = docs_ok db"
  by (simp add: docs_ok_def)

lemma create_collection_ok:
  assumes new: "create_collection cx ids now name slug ty d v db = Inr (rec, db')" and ok: "docs_ok db"
  shows "docs_ok db'"
proof -
  let ?f = "\<lambda>c. (cl_organization_id c, cl_slug c, cl_version c)"
  have "di_row ids \<notin> cl_id ` set (db_collections db)"
    and "(oc_organization_id cx, slug, v) \<notin> ?f ` set (db_collections db)"
    using new by (auto simp: create_collection_def Let_def list_ex_iff image_iff split: if_splits)
  moreover from new have "\<exists>c. db_collections db' = db_collections db @ [c] \<and> cl_id c = di_row ids
      \<and> ?f c = (oc_organization_id cx, slug, v) \<and> db_pages db' = db_pages db"
    by (auto simp: create_collection_def Let_def split: if_splits)
  ultimately show ?thesis using ok by (auto simp: docs_ok_def)
qed

lemma add_page_Inr:
  assumes "add_page cx i coll title slug fmt content artifact ord parent db = Inr (page, db')"
  shows "(\<exists>c. find_collection (oc_organization_id cx) coll db = Some c)
    \<and> db' = db\<lparr> db_pages := db_pages db @ [page] \<rparr>
    \<and> pp_id page = i \<and> i \<notin> pp_id ` set (db_pages db) \<and> pp_collection_id page = coll
    \<and> pp_organization_id page = oc_organization_id cx \<and> pp_parent_page_id page = parent
    \<and> (coll, pp_slug page) \<notin> (\<lambda>p. (pp_collection_id p, pp_slug p)) ` set (db_pages db)
    \<and> (\<forall>q. parent = Some q \<longrightarrow> q \<in> pp_id ` set (db_pages db))
    \<and> pp_depth page = parent_depth parent (db_pages db)"
proof -
  obtain c where c: "find_collection (oc_organization_id cx) coll db = Some c"
    using assms by (cases "find_collection (oc_organization_id cx) coll db") (simp_all add: add_page_def)
  let ?bad = "i \<in> pp_id ` set (db_pages db) \<or> list_ex (\<lambda>p. pp_collection_id p = coll \<and> pp_slug p = slug) (db_pages db)
     \<or> (case parent of None \<Rightarrow> False | Some q \<Rightarrow> q \<notin> pp_id ` set (db_pages db))
     \<or> (case artifact of None \<Rightarrow> False | Some a \<Rightarrow> a \<notin> set (db_artifacts db))"
  have ok: "\<not> ?bad"
  proof
    assume "?bad"
    with assms show False unfolding add_page_def c Let_def option.case(2) by (simp only: if_True) simp
  qed
  have par: "\<forall>q. parent = Some q \<longrightarrow> q \<in> pp_id ` set (db_pages db)" using ok by auto
  have slug: "(coll, slug) \<notin> (\<lambda>p. (pp_collection_id p, pp_slug p)) ` set (db_pages db)"
    using ok by (auto simp: list_ex_iff)
  have new: "db' = db\<lparr> db_pages := db_pages db @ [page] \<rparr> \<and> pp_id page = i \<and> pp_collection_id page = coll
      \<and> pp_organization_id page = oc_organization_id cx \<and> pp_parent_page_id page = parent \<and> pp_slug page = slug
      \<and> pp_depth page = parent_depth parent (db_pages db)"
    using assms unfolding add_page_def c Let_def option.case(2) if_not_P [OF ok] by auto
  show ?thesis using c ok par slug new by blast
qed

lemma find_page: "distinct (map pp_id pages) \<Longrightarrow> q \<in> set pages \<Longrightarrow> find (\<lambda>p. pp_id p = pp_id q) pages = Some q"
  using find_unique [of pp_id pages "\<lambda>_. True" "pp_id q" q] by simp

lemma add_page_ok:
  assumes "add_page cx i coll title slug fmt content artifact ord parent db = Inr (page, db')" and ok: "docs_ok db"
  shows "docs_ok db'"
proof -
  note new = add_page_Inr [OF assms(1)]
  let ?pages = "db_pages db @ [page]"
  have old: "level ?pages p (pp_depth p)" if "p \<in> set (db_pages db)" for p
    using ok that by (auto simp: docs_ok_def intro: level_mono)
  have "level ?pages page (pp_depth page)"
  proof (cases parent)
    case None
    with new show ?thesis using level_root [of page ?pages] by (simp add: parent_depth_def)
  next
    case (Some i)
    with new obtain q where q: "q \<in> set (db_pages db)" "parent = Some (pp_id q)" by auto
    have "find (\<lambda>p. pp_id p = pp_id q) (db_pages db) = Some q"
      using ok q(1) by (intro find_page) (auto simp: docs_ok_def)
    then have "pp_depth page = pp_depth q + 1" using new q(2) by (simp add: parent_depth_def)
    with old [OF q(1)] q(2) new show ?thesis using level_child [of page ?pages q "pp_depth q"] by simp
  qed
  moreover from new obtain c where "find_collection (oc_organization_id cx) coll db = Some c" by blast
  then have "c \<in> set (db_collections db) \<and> cl_id c = pp_collection_id page \<and> cl_organization_id c = pp_organization_id page"
    using find_collection_Some [of "oc_organization_id cx" coll db c] new by auto
  ultimately show ?thesis using old new ok by (auto simp: docs_ok_def)
qed

lemma publish_row_simps [simp]:
  "cl_id (publish_row now v c) = cl_id c" "cl_organization_id (publish_row now v c) = cl_organization_id c"
  "cl_slug (publish_row now v c) = cl_slug c" "cl_state (publish_row now v c) = ''published''"
  "cl_version (publish_row now v c) = (case given v of None \<Rightarrow> cl_version c | Some w \<Rightarrow> w)"
  by (simp_all add: publish_row_def)

lemma publish_collection_Inr:
  assumes "publish_collection cx ids now i v db = Inr (rec, db')"
  obtains coll where "find_collection (oc_organization_id cx) i db = Some coll"
    and "rec = (publish_row now v coll, page_count i db)"
    and "\<forall>c \<in> set (db_collections db). cl_id c \<noteq> i \<longrightarrow> (cl_organization_id c, cl_slug c, cl_version c)
      \<noteq> (cl_organization_id coll, cl_slug coll, cl_version (publish_row now v coll))"
    and "db_pages db' = db_pages db"
    and "db_collections db' = update_where (\<lambda>c. cl_id c = i) (publish_row now v) (db_collections db)"
proof -
  from assms obtain coll where coll: "find_collection (oc_organization_id cx) i db = Some coll"
    by (auto simp: publish_collection_def split: option.splits)
  show ?thesis
  proof (rule that [OF coll])
    show "rec = (publish_row now v coll, page_count i db)" and "db_pages db' = db_pages db"
      and "db_collections db' = update_where (\<lambda>c. cl_id c = i) (publish_row now v) (db_collections db)"
      using assms by (auto simp: publish_collection_def coll Let_def split: if_splits)
    show "\<forall>c \<in> set (db_collections db). cl_id c \<noteq> i \<longrightarrow> (cl_organization_id c, cl_slug c, cl_version c)
      \<noteq> (cl_organization_id coll, cl_slug coll, cl_version (publish_row now v coll))"
      using assms by (auto simp: publish_collection_def coll Let_def list_ex_iff simp del: publish_row_simps(5) split: if_splits)
  qed
qed

lemma set_home:
  "(\<exists>c \<in> set (db_collections db). cl_id c = a \<and> cl_organization_id c = b)
    \<longleftrightarrow> (a, b) \<in> (\<lambda>c. (cl_id c, cl_organization_id c)) ` set (db_collections db)"
  by auto

lemma publish_ok:
  assumes "publish_collection cx ids now i v db = Inr (rec, db')" and ok: "docs_ok db"
  shows "docs_ok db'"
proof -
  from assms(1) obtain coll where coll: "find_collection (oc_organization_id cx) i db = Some coll"
    and fresh: "\<forall>c \<in> set (db_collections db). cl_id c \<noteq> i \<longrightarrow> (cl_organization_id c, cl_slug c, cl_version c)
      \<noteq> (cl_organization_id coll, cl_slug coll, cl_version (publish_row now v coll))"
    and pages: "db_pages db' = db_pages db"
    and upd: "db_collections db' = update_where (\<lambda>c. cl_id c = i) (publish_row now v) (db_collections db)"
    by (rule publish_collection_Inr)
  let ?f = "\<lambda>c. (cl_organization_id c, cl_slug c, cl_version c)"
  have ids: "distinct (map cl_id (db_collections db))" using ok by (simp add: docs_ok_def)
  have only: "y = coll" if "y \<in> set (db_collections db)" "cl_id y = i" for y
    using find_collection_Some [OF coll] that ids by (auto dest: distinct_map_eq)
  have slugs: "distinct (map ?f (db_collections db'))"
    unfolding upd
  proof (rule distinct_map_update_one)
    show "distinct (map ?f (db_collections db))" "distinct (map cl_id (db_collections db))"
      using ok by (simp_all add: docs_ok_def)
    show "\<forall>x \<in> set (db_collections db). \<forall>y \<in> set (db_collections db). cl_id x \<noteq> i \<longrightarrow> cl_id y = i
        \<longrightarrow> ?f x \<noteq> ?f (publish_row now v y)"
      using fresh only by (simp del: publish_row_simps(5)) blast
  qed
  have ids': "map cl_id (db_collections db') = map cl_id (db_collections db)"
    and both: "map (\<lambda>c. (cl_id c, cl_organization_id c)) (db_collections db')
      = map (\<lambda>c. (cl_id c, cl_organization_id c)) (db_collections db)"
    unfolding upd by (rule map_update_where; simp)+
  have homes: "(\<lambda>c. (cl_id c, cl_organization_id c)) ` set (db_collections db')
      = (\<lambda>c. (cl_id c, cl_organization_id c)) ` set (db_collections db)"
    using arg_cong [OF both, of set] by (simp only: set_map)
  have home: "(\<exists>c \<in> set (db_collections db'). cl_id c = a \<and> cl_organization_id c = b)
      \<longleftrightarrow> (\<exists>c \<in> set (db_collections db). cl_id c = a \<and> cl_organization_id c = b)" for a b
    unfolding set_home homes ..
  from ok slugs show ?thesis unfolding docs_ok_def pages home ids' by blast
qed

lemma doc_do_ok: "docs_ok db \<Longrightarrow> docs_ok (doc_do a db)"
  by (cases a) (auto split: sum.splits intro: create_collection_ok add_page_ok publish_ok)


interpretation document_tables: component doc_do docs_ok
  by unfold_locales (rule doc_do_ok)

inductive_cases level_cases: "level pages p n"

lemma level_page: "level pages p n \<Longrightarrow> p \<in> set pages"
  by (induction rule: level.induct)

lemma level_unique:
  assumes "level pages p n" and "distinct (map pp_id pages)" and "level pages p m"
  shows "n = m"
proof -
  have same: "q' = q" if "q' \<in> set pages" "q \<in> set pages" "pp_id q = pp_id q'" for q q'
    by (rule distinct_map_eq [OF assms(2) that(1,2) that(3) [symmetric]])
  show ?thesis using assms(1,3)
  proof (induction arbitrary: m rule: level.induct)
    case (level_root p)
    from level_root.prems show ?case by (rule level_cases) (use level_root.hyps in simp_all)
  next
    case (level_child p q n)
    have q: "q \<in> set pages" by (rule level_page [OF level_child.hyps(3)])
    from level_child.prems show ?case
    proof (rule level_cases)
      fix q' n' assume q': "m = n' + 1" "pp_parent_page_id p = Some (pp_id q')" "level pages q' n'"
      have "pp_id q = pp_id q'" using q'(2) level_child.hyps(2) by simp
      then have "q' = q" by (rule same [OF level_page [OF q'(3)] q])
      with q' level_child.IH show ?thesis by simp
    qed (use level_child.hyps in simp_all)
  qed
qed

lemma parent_depth_less:
  assumes "docs_ok db" and "parent_step (db_pages db) p q"
  shows "pp_depth q < pp_depth p"
proof -
  have levels: "level (db_pages db) p (pp_depth p)" "level (db_pages db) q (pp_depth q)"
    and distinct: "distinct (map pp_id (db_pages db))" using assms by (auto simp: docs_ok_def parent_step_def)
  from assms(2) levels(2) have "level (db_pages db) p (pp_depth q + 1)" by (auto simp: parent_step_def intro: level_child)
  with level_unique [OF levels(1) distinct] show ?thesis by simp
qed

lemma ancestor_depth_less:
  assumes "docs_ok db" and "(parent_step (db_pages db))\<^sup>+\<^sup>+ p q"
  shows "pp_depth q < pp_depth p"
  using assms(2) by (induction rule: tranclp_induct) (auto dest: parent_depth_less [OF assms(1)])

text \<open>
  C26. After any calls of the service on empty tables, of any organizations, made one after the other in any
  order, every page has exactly one level, the number of steps up its parents to a page that has none; its depth
  column is that level; and no page is its own ancestor.
\<close>

theorem page_depths_exact:
  assumes "db_collections db = []" and "db_pages db = []" and "p \<in> set (db_pages (fold doc_do calls db))"
  shows "(level (db_pages (fold doc_do calls db)) p n \<longleftrightarrow> n = pp_depth p)
    \<and> \<not> (parent_step (db_pages (fold doc_do calls db)))\<^sup>+\<^sup>+ p p"
proof -
  have "docs_ok db" using assms(1,2) by (simp add: docs_ok_def)
  then have ok: "docs_ok (fold doc_do calls db)" by (rule document_tables.run_inv)
  have "level (db_pages (fold doc_do calls db)) p n \<longleftrightarrow> n = pp_depth p"
    using ok assms(3) level_unique by (auto simp: docs_ok_def)
  moreover have "\<not> (parent_step (db_pages (fold doc_do calls db)))\<^sup>+\<^sup>+ p p"
    using ancestor_depth_less [OF ok, of p p] by blast
  ultimately show ?thesis by blast
qed

definition DOC_CX :: org_context where
  "DOC_CX = \<lparr> oc_auth_identity_id = 1, oc_actor_id = 2, oc_organization_id = 3, oc_session_id = 4,
     oc_platform_role = PlatformNone, oc_membership_role = OrgMember \<rparr>"

definition DOC_IDS :: "uuid \<Rightarrow> doc_ids" where
  "DOC_IDS i = \<lparr> di_row = i, di_operation = i + 100, di_event = i + 200 \<rparr>"

definition DOC_CALLS :: "doc_call list" where
  "DOC_CALLS =
     [CreateCollection DOC_CX (DOC_IDS 10) 0 ''API'' ''api'' ''custom'' None ''1'',
      AddPage DOC_CX 11 10 ''Guide'' ''guide'' ''markdown'' (Some ''g'') None None None,
      AddPage DOC_CX 12 10 ''Setup'' ''setup'' ''markdown'' (Some ''s'') None None (Some 11),
      AddPage DOC_CX 13 10 ''Linux'' ''linux'' ''markdown'' (Some ''l'') None None (Some 12),
      PublishCollection DOC_CX (DOC_IDS 14) 5 10 None]"

definition NO_DOCS :: doc_db where
  "NO_DOCS = \<lparr> db_collections = [], db_pages = [], db_operations = [], db_events = [], db_artifacts = [] \<rparr>"

definition DOC_PAGES :: "doc_page list" where "DOC_PAGES = db_pages (fold doc_do DOC_CALLS NO_DOCS)"

lemma DOC_PAGES_eval: "map (\<lambda>p. (pp_id p, pp_depth p, pp_page_order p)) DOC_PAGES = [(11, 0, 1), (12, 1, 2), (13, 2, 3)]"
  by code_simp


theorem page_depths_exact_witness:
  "\<exists>p \<in> set DOC_PAGES. pp_id p = 13 \<and> level DOC_PAGES p 2 \<and> \<not> level DOC_PAGES p 1"
proof -
  have "(13, 2, 3) \<in> (\<lambda>p. (pp_id p, pp_depth p, pp_page_order p)) ` set DOC_PAGES"
    using arg_cong [OF DOC_PAGES_eval, of set] by simp
  then obtain p where p: "p \<in> set DOC_PAGES" "pp_id p = 13" "pp_depth p = 2" by auto
  have "p \<in> set (db_pages (fold doc_do DOC_CALLS NO_DOCS))" using p(1) by (simp add: DOC_PAGES_def)
  from page_depths_exact [OF _ _ this] p show ?thesis by (auto simp: NO_DOCS_def DOC_PAGES_def)
qed

text \<open>
  The index links the pages without a parent that have no children and the children of those without a
  parent: a page two levels down has no link, nor has a section that has children.
\<close>

lemma llms_txt_lines:
  assumes "find_collection (oc_organization_id cx) i db = Some coll"
  shows "generate_llms_txt tie cx i db = Inr (join NEWLINE (((''# '' @ cl_name coll) # '''' #
      (case given (cl_description coll) of None \<Rightarrow> [] | Some d \<Rightarrow> [''> '' @ d, '''']))
    @ concat (map (section_lines coll (get_collection_pages tie cx i db))
        (filter (\<lambda>p. pp_parent_page_id p = None) (get_collection_pages tie cx i db)))) @ NEWLINE)"
  unfolding generate_llms_txt_def assms option.case(2) Let_def by (rule refl)

lemma grandchild_not_indexed:
  "generate_llms_txt (\<lambda>_. 0) DOC_CX 10 (fold doc_do DOC_CALLS NO_DOCS)
     = Inr (''# API'' @ NEWLINE @ NEWLINE @ ''## Guide'' @ NEWLINE
         @ ''- [Setup](/api/v1/docs/api/pages/setup.md): Setup'' @ NEWLINE @ NEWLINE)"
  by code_simp

lemma full_text_has_all_pages:
  assumes "generate_llms_full_txt tie isofmt now cx i db = Inr out" and "p \<in> set (db_pages db)"
    and "pp_collection_id p = i" and "pp_organization_id p = oc_organization_id cx"
  shows "\<exists>coll. find_collection (oc_organization_id cx) i db = Some coll
    \<and> (\<exists>before after. out = join NEWLINE (before @ page_body p @ after))"
proof -
  from assms(1) obtain coll where c: "find_collection (oc_organization_id cx) i db = Some coll"
    by (cases "find_collection (oc_organization_id cx) i db") (auto simp: generate_llms_full_txt_def)
  have "p \<in> set (get_collection_pages tie cx i db)" using assms by (simp add: get_collection_pages_def)
  then obtain xs ys where "get_collection_pages tie cx i db = xs @ p # ys" by (meson split_list)
  with assms(1) c have "out = join NEWLINE (([''---'', ''title: '' @ cl_name coll, ''version: '' @ cl_version coll,
      ''page_count: '' @ nat_str (length (xs @ p # ys)), ''generated_at: '' @ isofmt now, ''---'', '''']
      @ concat (map page_body xs)) @ page_body p @ concat (map page_body ys))"
    by (simp add: generate_llms_full_txt_def Let_def)
  with c show ?thesis by blast
qed

text \<open>Publishing does not look at the state: a collection is published from any state, and again.\<close>

lemma publish_from_any_state:
  assumes "find_collection (oc_organization_id cx) i db = Some coll" and "given v = None" and "docs_ok db"
  shows "\<exists>c db'. publish_collection cx ids now i v db = Inr ((c, page_count i db), db')
    \<and> cl_state c = ''published'' \<and> cl_published_at c = Some now"
proof -
  have "\<not> list_ex (\<lambda>c. cl_id c \<noteq> i \<and> cl_organization_id c = cl_organization_id (publish_row now v coll)
      \<and> cl_slug c = cl_slug (publish_row now v coll) \<and> cl_version c = cl_version (publish_row now v coll)) (db_collections db)"
    using assms find_collection_Some [OF assms(1)]
    by (auto simp: list_ex_iff docs_ok_def dest: distinct_map_eq)
  then show ?thesis unfolding publish_collection_def assms(1) option.case(2) Let_def by (simp add: publish_row_def)
qed

text \<open>A parent of another collection of the organization is accepted.\<close>

lemma parent_of_another_collection:
  "(case add_page DOC_CX 21 20 ''Other'' ''other'' ''markdown'' None None None (Some 11)
      (doc_do (CreateCollection DOC_CX (DOC_IDS 20) 6 ''B'' ''b'' ''custom'' None ''1'') (fold doc_do DOC_CALLS NO_DOCS)) of
      Inl _ \<Rightarrow> None | Inr (page, _) \<Rightarrow> Some (pp_collection_id page, pp_parent_page_id page, pp_depth page))
   = Some (20, Some 11, 1)"
  by code_simp

text \<open>So is a parent of another organization, whose members then have a page of this one below theirs.\<close>

definition OTHER_CX :: org_context where
  "OTHER_CX = DOC_CX\<lparr> oc_organization_id := 7 \<rparr>"

lemma parent_of_another_organization:
  "(case add_page OTHER_CX 31 30 ''Theirs'' ''theirs'' ''markdown'' None None None (Some 11)
      (doc_do (CreateCollection OTHER_CX (DOC_IDS 30) 6 ''C'' ''c'' ''custom'' None ''1'') (fold doc_do DOC_CALLS NO_DOCS)) of
      Inl _ \<Rightarrow> None | Inr (page, _) \<Rightarrow> Some (pp_organization_id page, pp_parent_page_id page, pp_depth page))
   = Some (7, Some 11, 1)"
  by code_simp

end
