(* ===== verification/Resources.thy ===== *)
theory Resources
  imports Provenance
begin

text \<open>
  The resources of an organization: projects (\<^verbatim>\<open>services/projects.py\<close>, with the operation and the event of a
  change), secret references (\<^verbatim>\<open>services/secrets.py\<close>), artifact references
  (\<^verbatim>\<open>services/artifacts.py\<close>), capabilities (\<^verbatim>\<open>services/capabilities.py\<close>) and
  branding (\<^verbatim>\<open>services/organizations.py\<close>), over the tables of \<^verbatim>\<open>persistence/models\<close>.

  A row that a constraint or a column type of its table refuses is a \<open>RowRejected\<close> branch. Rows that an ORDER BY leaves tied, or that no
  ORDER BY sorts, come in the order \<open>tie\<close>. \<open>isofmt\<close> is the text of a datetime. A JSON object is an
  association list.
\<close>

section \<open>Tables\<close>

type_synonym json_object = "(string \<times> pyval) list"

record project_row =
  pj_id :: uuid
  pj_organization_id :: uuid
  pj_name :: string
  pj_slug :: string
  pj_description :: "string option"
  pj_config :: "json_object option"
  pj_state :: string
  pj_created_at :: datetime
  pj_updated_at :: "datetime option"

record secret_row =
  sr_id :: uuid
  sr_organization_id :: uuid
  sr_name :: string
  sr_provider :: string
  sr_ref_config :: json_object
  sr_state :: string
  sr_created_at :: datetime
  sr_rotated_at :: "datetime option"
  sr_created_by :: uuid

record artifact_row =
  af_id :: uuid
  af_organization :: uuid
  af_provider_type :: string
  af_uri :: string
  af_content_type :: "string option"
  af_size_bytes :: "int option"
  af_checksum :: "string option"
  af_metadata :: json_object
  af_created_by :: uuid
  af_created_at :: datetime

record blueprint_row =
  bp_id :: uuid
  bp_organization_id :: uuid
  bp_name :: string
  bp_description :: "string option"
  bp_input_schema :: "json_object option"
  bp_output_schema :: "json_object option"
  bp_execution_mode :: string
  bp_timeout_ms :: "int option"
  bp_retry_policy :: "json_object option"
  bp_version :: int
  bp_state :: string
  bp_created_at :: datetime

record branding_row =
  br_organization_id :: uuid
  br_theme_mode :: string
  br_primary_color :: "string option"
  br_logo_url :: "string option"
  br_favicon_url :: "string option"
  br_custom_domain :: "string option"
  br_created_at :: datetime
  br_updated_at :: "datetime option"

record resource_db = prov_db +
  rd_projects :: "project_row list"
  rd_secrets :: "secret_row list"
  rd_artifacts :: "artifact_row list"
  rd_blueprints :: "blueprint_row list"
  rd_brandings :: "branding_row list"

datatype resource_error =
    ProjectNotFoundError uuid
  | SecretNotFoundError uuid
  | ArtifactNotFoundError uuid
  | CapabilityNotFoundError uuid
  | VocabularyFailed vocabulary_error
  | TimeoutNotPositive
  | RowRejected
  | ProvenanceFailed prov_error

definition vocab :: "vocabulary_error + 'a \<Rightarrow> resource_error + 'a" where
  "vocab r = (case r of Inl e \<Rightarrow> Inl (VocabularyFailed e) | Inr x \<Rightarrow> Inr x)"

definition newest_first :: "('r \<Rightarrow> datetime) \<Rightarrow> ('r \<Rightarrow> nat) \<Rightarrow> 'r list \<Rightarrow> 'r list" where
  "newest_first created tie rows = sort_key (\<lambda>r. - created r) (sort_key tie rows)"

text \<open>A dict that is None or empty is None.\<close>

fun nonempty :: "json_object option \<Rightarrow> json_object option" where
  "nonempty None = None"
| "nonempty (Some d) = (if d = [] then None else Some d)"

section \<open>Projects\<close>

definition find_project :: "uuid \<Rightarrow> uuid \<Rightarrow> resource_db \<Rightarrow> project_row option" where
  "find_project org i db = find (\<lambda>p. pj_organization_id p = org \<and> pj_id p = i) (rd_projects db)"

text \<open>The operation of a change and the event that points to it; both belong to the caller's transaction.\<close>

definition record_project_change ::
  "event_type_registry \<Rightarrow> (string \<Rightarrow> json_object \<Rightarrow> string) \<Rightarrow> org_context \<Rightarrow> uuid \<Rightarrow> append_ids \<Rightarrow> datetime
   \<Rightarrow> string \<Rightarrow> string \<Rightarrow> string \<Rightarrow> string \<Rightarrow> uuid \<Rightarrow> json_object \<Rightarrow> resource_db \<Rightarrow> resource_error + resource_db" where
  "record_project_change reg sign cx op_new ids now operation rationale event_type severity project payload db =
     (case record_operation cx op_new now
        \<lparr> oa_actor_id = oc_actor_id cx, oa_operation = operation, oa_trigger = ''user_command'',
          oa_initiated_by = oc_actor_id cx, oa_from_state = None, oa_to_state = None, oa_collaborators = [],
          oa_scope = Some ''organization'', oa_parent_operation_id = None, oa_artifacts = None,
          oa_rationale = Some rationale, oa_outcome = Some ''success'' \<rparr> db of
        Inl e \<Rightarrow> Inl (ProvenanceFailed (OperationFailed e))
      | Inr (op, db1) \<Rightarrow>
          (case append_event reg sign cx ids now
             \<lparr> aa_event_type = event_type, aa_payload = payload, aa_actor_id = Some (oc_actor_id cx),
               aa_severity = Some severity, aa_correlation_id = None, aa_operation_id = Some op,
               aa_entity_type = Some ''project'', aa_entity_id = Some project \<rparr> db1 of
             Inl e \<Rightarrow> Inl (ProvenanceFailed e)
           | Inr (_, db2) \<Rightarrow> Inr db2))"

definition project_clash :: "project_row \<Rightarrow> project_row \<Rightarrow> bool" where
  "project_clash p q \<longleftrightarrow> pj_id p = pj_id q \<or>
     pj_organization_id p = pj_organization_id q \<and> (pj_slug p = pj_slug q \<or> pj_name p = pj_name q)"

definition create_project ::
  "event_type_registry \<Rightarrow> (string \<Rightarrow> json_object \<Rightarrow> string) \<Rightarrow> org_context \<Rightarrow> uuid \<Rightarrow> uuid \<Rightarrow> append_ids \<Rightarrow> datetime
   \<Rightarrow> string \<Rightarrow> string \<Rightarrow> string option \<Rightarrow> json_object option \<Rightarrow> resource_db
   \<Rightarrow> resource_error + project_row \<times> resource_db" where
  "create_project reg sign cx new_id op_new ids now name slug description config db =
     (let p = \<lparr> pj_id = new_id, pj_organization_id = oc_organization_id cx, pj_name = name, pj_slug = slug,
            pj_description = description, pj_config = nonempty config, pj_state = ''active'',
            pj_created_at = now, pj_updated_at = None \<rparr>
      in if list_ex (project_clash p) (rd_projects db) then Inl RowRejected
         else rbind (record_project_change reg sign cx op_new ids now ''project.create'' (''Created project: '' @ name)
                ''project.created'' ''info'' new_id [(''name'', PStr name), (''slug'', PStr slug)]
                (db\<lparr> rd_projects := rd_projects db @ [p] \<rparr>))
              (\<lambda>db'. Inr (p, db')))"

definition get_project :: "org_context \<Rightarrow> uuid \<Rightarrow> resource_db \<Rightarrow> resource_error + project_row" where
  "get_project cx i db =
     (case find_project (oc_organization_id cx) i db of None \<Rightarrow> Inl (ProjectNotFoundError i) | Some p \<Rightarrow> Inr p)"

definition list_projects :: "(project_row \<Rightarrow> nat) \<Rightarrow> org_context \<Rightarrow> resource_db \<Rightarrow> project_row list" where
  "list_projects tie cx db =
     newest_first pj_created_at tie (filter (\<lambda>p. pj_organization_id p = oc_organization_id cx) (rd_projects db))"

definition set_project :: "uuid \<Rightarrow> (project_row \<Rightarrow> project_row) \<Rightarrow> resource_db \<Rightarrow> resource_db" where
  "set_project i f db = db\<lparr> rd_projects := update_where (\<lambda>p. pj_id p = i) f (rd_projects db) \<rparr>"

text \<open>
  \<open>archive_project\<close> reads the state and writes without a lock on the row: the model is of calls one at
  a time, and two that overlap may both find the project active and both record its archival.
\<close>

definition archive_project ::
  "event_type_registry \<Rightarrow> (string \<Rightarrow> json_object \<Rightarrow> string) \<Rightarrow> org_context \<Rightarrow> uuid \<Rightarrow> append_ids \<Rightarrow> datetime
   \<Rightarrow> uuid \<Rightarrow> resource_db \<Rightarrow> resource_error + project_row \<times> resource_db" where
  "archive_project reg sign cx op_new ids now i db =
     (case find_project (oc_organization_id cx) i db of
        None \<Rightarrow> Inl (ProjectNotFoundError i)
      | Some p \<Rightarrow>
          if pj_state p = ''archived'' then Inr (p, db)
          else
            let f = (\<lambda>q. q\<lparr> pj_state := ''archived'', pj_updated_at := Some now \<rparr>)
            in case build_state_change_payload ''project'' i (pj_state p) ''archived'' op_new ''user_command'' None ''warn'' of
                 Inl e \<Rightarrow> Inl (ProvenanceFailed e)
               | Inr payload \<Rightarrow>
                   rbind (record_project_change reg sign cx op_new ids now ''project.archive''
                       (''Archived project: '' @ pj_name p) ''project.archived'' ''warn'' i payload (set_project i f db))
                     (\<lambda>db'. Inr (f p, db')))"

text \<open>The columns that an update names, and the values it gives them; \<open>updated_at\<close> is always named.\<close>

definition project_values ::
  "(datetime \<Rightarrow> string) \<Rightarrow> datetime \<Rightarrow> string option \<Rightarrow> string option \<Rightarrow> string option \<Rightarrow> json_object option \<Rightarrow> json_object" where
  "project_values isofmt now name slug description config =
     (''updated_at'', PStr (isofmt now))
     # (case name of None \<Rightarrow> [] | Some s \<Rightarrow> [(''name'', PStr s)])
     @ (case slug of None \<Rightarrow> [] | Some s \<Rightarrow> [(''slug'', PStr s)])
     @ (case description of None \<Rightarrow> [] | Some s \<Rightarrow> [(''description'', PStr s)])
     @ (case config of None \<Rightarrow> [] | Some d \<Rightarrow> [(''config'', PDict d)])"

definition or_keep :: "'a option \<Rightarrow> 'a \<Rightarrow> 'a" where
  "or_keep v old = (case v of None \<Rightarrow> old | Some x \<Rightarrow> x)"

definition update_project_row ::
  "datetime \<Rightarrow> string option \<Rightarrow> string option \<Rightarrow> string option \<Rightarrow> json_object option \<Rightarrow> project_row \<Rightarrow> project_row" where
  "update_project_row now name slug description config p =
     p\<lparr> pj_updated_at := Some now, pj_name := or_keep name (pj_name p), pj_slug := or_keep slug (pj_slug p),
        pj_description := or_keep (map_option Some description) (pj_description p),
        pj_config := or_keep (map_option Some config) (pj_config p) \<rparr>"

definition update_project ::
  "event_type_registry \<Rightarrow> (string \<Rightarrow> json_object \<Rightarrow> string) \<Rightarrow> (datetime \<Rightarrow> string) \<Rightarrow> org_context \<Rightarrow> uuid \<Rightarrow> append_ids
   \<Rightarrow> datetime \<Rightarrow> uuid \<Rightarrow> string option \<Rightarrow> string option \<Rightarrow> string option \<Rightarrow> json_object option \<Rightarrow> resource_db
   \<Rightarrow> resource_error + project_row \<times> resource_db" where
  "update_project reg sign isofmt cx op_new ids now i name slug description config db =
     (case find_project (oc_organization_id cx) i db of
        None \<Rightarrow> Inl (ProjectNotFoundError i)
      | Some p \<Rightarrow>
          let values = project_values isofmt now name slug description config;
              f = update_project_row now name slug description config
          in if length values = 1 then Inr (p, db)
             else if list_ex (\<lambda>q. pj_id q \<noteq> i \<and> project_clash (f p) q) (rd_projects db) then Inl RowRejected
             else rbind (record_project_change reg sign cx op_new ids now ''project.update''
                    (''Updated project: '' @ pj_name (f p)) ''project.updated'' ''info'' i values (set_project i f db))
                  (\<lambda>db'. Inr (f p, db')))"

section \<open>Secret references\<close>

definition find_secret :: "uuid \<Rightarrow> uuid \<Rightarrow> resource_db \<Rightarrow> secret_row option" where
  "find_secret org i db = find (\<lambda>s. sr_organization_id s = org \<and> sr_id s = i) (rd_secrets db)"

definition create_secret ::
  "org_context \<Rightarrow> uuid \<Rightarrow> datetime \<Rightarrow> string \<Rightarrow> string \<Rightarrow> json_object \<Rightarrow> uuid \<Rightarrow> resource_db
   \<Rightarrow> resource_error + secret_row \<times> resource_db" where
  "create_secret cx new_id now name provider ref_config created_by db =
     rbind (vocab (validate_provider provider)) (\<lambda>_.
       let org = oc_organization_id cx;
           s = \<lparr> sr_id = new_id, sr_organization_id = org, sr_name = name, sr_provider = provider,
             sr_ref_config = ref_config, sr_state = ''active'', sr_created_at = now, sr_rotated_at = None,
             sr_created_by = created_by \<rparr>
       in if list_ex (\<lambda>r. sr_id r = new_id \<or> sr_organization_id r = org \<and> sr_name r = name) (rd_secrets db)
             \<or> \<not> actor_in_org db org created_by
          then Inl RowRejected
          else Inr (s, db\<lparr> rd_secrets := rd_secrets db @ [s] \<rparr>))"

definition get_secret :: "org_context \<Rightarrow> uuid \<Rightarrow> resource_db \<Rightarrow> resource_error + secret_row" where
  "get_secret cx i db =
     (case find_secret (oc_organization_id cx) i db of None \<Rightarrow> Inl (SecretNotFoundError i) | Some s \<Rightarrow> Inr s)"

definition get_secret_by_name :: "org_context \<Rightarrow> string \<Rightarrow> resource_db \<Rightarrow> secret_row option" where
  "get_secret_by_name cx name db =
     find (\<lambda>s. sr_organization_id s = oc_organization_id cx \<and> sr_name s = name) (rd_secrets db)"

definition list_secrets :: "(secret_row \<Rightarrow> nat) \<Rightarrow> org_context \<Rightarrow> string option \<Rightarrow> nat \<Rightarrow> resource_db \<Rightarrow> secret_row list" where
  "list_secrets tie cx state limit db =
     take limit (newest_first sr_created_at tie
       (filter (\<lambda>s. sr_organization_id s = oc_organization_id cx \<and> (state = None \<or> state = Some (sr_state s))) (rd_secrets db)))"

definition set_secret ::
  "org_context \<Rightarrow> uuid \<Rightarrow> (secret_row \<Rightarrow> secret_row) \<Rightarrow> resource_db \<Rightarrow> resource_error + secret_row \<times> resource_db" where
  "set_secret cx i f db =
     (case find_secret (oc_organization_id cx) i db of
        None \<Rightarrow> Inl (SecretNotFoundError i)
      | Some s \<Rightarrow> Inr (f s, db\<lparr> rd_secrets := update_where (\<lambda>r. sr_id r = i) f (rd_secrets db) \<rparr>))"

definition rotate_secret ::
  "org_context \<Rightarrow> datetime \<Rightarrow> uuid \<Rightarrow> json_object \<Rightarrow> resource_db \<Rightarrow> resource_error + secret_row \<times> resource_db" where
  "rotate_secret cx now i new_ref_config db =
     set_secret cx i (\<lambda>s. s\<lparr> sr_ref_config := new_ref_config, sr_state := ''active'', sr_rotated_at := Some now \<rparr>) db"

definition revoke_secret :: "org_context \<Rightarrow> uuid \<Rightarrow> resource_db \<Rightarrow> resource_error + secret_row \<times> resource_db" where
  "revoke_secret cx i db = set_secret cx i (sr_state_update (\<lambda>_. ''revoked'')) db"

definition resolve_secrets :: "(secret_row \<Rightarrow> nat) \<Rightarrow> org_context \<Rightarrow> string list \<Rightarrow> resource_db \<Rightarrow> secret_row list" where
  "resolve_secrets tie cx names db =
     sort_key tie (filter (\<lambda>s. sr_organization_id s = oc_organization_id cx \<and> sr_name s \<in> set names
       \<and> sr_state s = ''active'') (rd_secrets db))"

section \<open>Artifact references\<close>

definition create_artifact ::
  "org_context \<Rightarrow> uuid \<Rightarrow> datetime \<Rightarrow> string \<Rightarrow> string \<Rightarrow> uuid \<Rightarrow> string option \<Rightarrow> int option \<Rightarrow> string option
   \<Rightarrow> json_object option \<Rightarrow> resource_db \<Rightarrow> resource_error + artifact_row \<times> resource_db" where
  "create_artifact cx new_id now provider_type uri created_by content_type size_bytes checksum metadata db =
     rbind (vocab (validate_provider_type provider_type)) (\<lambda>_.
       let org = oc_organization_id cx;
           a = \<lparr> af_id = new_id, af_organization = org, af_provider_type = provider_type, af_uri = uri,
             af_content_type = content_type, af_size_bytes = size_bytes, af_checksum = checksum,
             af_metadata = (case metadata of None \<Rightarrow> [] | Some d \<Rightarrow> d), af_created_by = created_by,
             af_created_at = now \<rparr>
       in if new_id \<in> af_id ` set (rd_artifacts db) \<or> \<not> actor_in_org db org created_by
             \<or> (case size_bytes of None \<Rightarrow> False | Some n \<Rightarrow> n < - (2 ^ 63) \<or> n \<ge> 2 ^ 63)
          then Inl RowRejected
          else Inr (a, db\<lparr> rd_artifacts := rd_artifacts db @ [a] \<rparr>))"

definition get_artifact :: "org_context \<Rightarrow> uuid \<Rightarrow> resource_db \<Rightarrow> resource_error + artifact_row" where
  "get_artifact cx i db =
     (case find (\<lambda>a. af_organization a = oc_organization_id cx \<and> af_id a = i) (rd_artifacts db) of
        None \<Rightarrow> Inl (ArtifactNotFoundError i) | Some a \<Rightarrow> Inr a)"

definition list_artifacts ::
  "(artifact_row \<Rightarrow> nat) \<Rightarrow> org_context \<Rightarrow> string option \<Rightarrow> string option \<Rightarrow> nat \<Rightarrow> resource_db \<Rightarrow> artifact_row list" where
  "list_artifacts tie cx provider_type content_type limit db =
     take limit (newest_first af_created_at tie
       (filter (\<lambda>a. af_organization a = oc_organization_id cx
            \<and> (provider_type = None \<or> provider_type = Some (af_provider_type a))
            \<and> (content_type = None \<or> content_type = af_content_type a)) (rd_artifacts db)))"

section \<open>Capabilities\<close>

definition create_capability ::
  "org_context \<Rightarrow> uuid \<Rightarrow> datetime \<Rightarrow> string \<Rightarrow> string option \<Rightarrow> json_object option \<Rightarrow> json_object option \<Rightarrow> string
   \<Rightarrow> int option \<Rightarrow> json_object option \<Rightarrow> string \<Rightarrow> resource_db \<Rightarrow> resource_error + blueprint_row \<times> resource_db" where
  "create_capability cx new_id now name description input_schema output_schema mode timeout_ms retry_policy state db =
     rbind (vocab (validate_execution_mode mode)) (\<lambda>_.
     rbind (vocab (validate_capability_state state)) (\<lambda>_.
       let org = oc_organization_id cx;
           c = \<lparr> bp_id = new_id, bp_organization_id = org, bp_name = name, bp_description = description,
             bp_input_schema = input_schema, bp_output_schema = output_schema, bp_execution_mode = mode,
             bp_timeout_ms = timeout_ms, bp_retry_policy = retry_policy, bp_version = 1, bp_state = state,
             bp_created_at = now \<rparr>
       in if \<exists>t \<in> set_option timeout_ms. t \<le> 0 then Inl TimeoutNotPositive
          else if list_ex (\<lambda>b. bp_id b = new_id \<or> bp_organization_id b = org \<and> bp_name b = name) (rd_blueprints db)
             \<or> (\<exists>t \<in> set_option timeout_ms. t \<ge> 2 ^ 31)
          then Inl RowRejected
          else Inr (c, db\<lparr> rd_blueprints := rd_blueprints db @ [c] \<rparr>)))"

text \<open>The snapshot of a row: an empty schema or policy is read as None.\<close>

definition blueprint_record :: "blueprint_row \<Rightarrow> blueprint_row" where
  "blueprint_record b = b\<lparr> bp_input_schema := nonempty (bp_input_schema b),
     bp_output_schema := nonempty (bp_output_schema b), bp_retry_policy := nonempty (bp_retry_policy b) \<rparr>"

definition get_capability :: "org_context \<Rightarrow> uuid \<Rightarrow> resource_db \<Rightarrow> resource_error + blueprint_row" where
  "get_capability cx i db =
     (case find (\<lambda>b. bp_organization_id b = oc_organization_id cx \<and> bp_id b = i) (rd_blueprints db) of
        None \<Rightarrow> Inl (CapabilityNotFoundError i) | Some b \<Rightarrow> Inr (blueprint_record b))"

definition get_capability_by_name :: "org_context \<Rightarrow> string \<Rightarrow> resource_db \<Rightarrow> blueprint_row option" where
  "get_capability_by_name cx name db =
     map_option blueprint_record
       (find (\<lambda>b. bp_organization_id b = oc_organization_id cx \<and> bp_name b = name) (rd_blueprints db))"

definition deprecate_capability ::
  "org_context \<Rightarrow> uuid \<Rightarrow> resource_db \<Rightarrow> resource_error + blueprint_row \<times> resource_db" where
  "deprecate_capability cx i db =
     (case find (\<lambda>b. bp_organization_id b = oc_organization_id cx \<and> bp_id b = i) (rd_blueprints db) of
        None \<Rightarrow> Inl (CapabilityNotFoundError i)
      | Some b \<Rightarrow>
          let f = bp_state_update (\<lambda>_. ''deprecated'')
          in Inr (blueprint_record (f b), db\<lparr> rd_blueprints := update_where (\<lambda>b. bp_id b = i) f (rd_blueprints db) \<rparr>))"

definition list_capabilities ::
  "(blueprint_row \<Rightarrow> nat) \<Rightarrow> org_context \<Rightarrow> string option \<Rightarrow> nat \<Rightarrow> resource_db \<Rightarrow> resource_error + blueprint_row list" where
  "list_capabilities tie cx state limit db =
     rbind (case state of None \<Rightarrow> Inr [] | Some s \<Rightarrow> vocab (validate_capability_state s)) (\<lambda>_.
       Inr (map blueprint_record (take limit (newest_first bp_created_at tie
         (filter (\<lambda>b. bp_organization_id b = oc_organization_id cx \<and> (state = None \<or> state = Some (bp_state b)))
           (rd_blueprints db))))))"

section \<open>Branding\<close>

record branding_update =
  bu_theme_mode :: "string option"
  bu_primary_color :: "string option"
  bu_logo_url :: "string option"
  bu_favicon_url :: "string option"
  bu_custom_domain :: "string option"

definition get_branding :: "uuid \<Rightarrow> resource_db \<Rightarrow> branding_row option" where
  "get_branding org db = find (\<lambda>b. br_organization_id b = org) (rd_brandings db)"

definition or_else :: "'a option \<Rightarrow> 'a option \<Rightarrow> 'a option" where
  "or_else v old = (if v = None then old else v)"

definition brand :: "branding_update \<Rightarrow> datetime \<Rightarrow> branding_row \<Rightarrow> branding_row" where
  "brand u now b =
     (if bu_theme_mode u = None \<and> bu_primary_color u = None \<and> bu_logo_url u = None \<and> bu_favicon_url u = None
         \<and> bu_custom_domain u = None then b
      else b\<lparr> br_theme_mode := or_keep (bu_theme_mode u) (br_theme_mode b),
              br_primary_color := or_else (bu_primary_color u) (br_primary_color b),
              br_logo_url := or_else (bu_logo_url u) (br_logo_url b),
              br_favicon_url := or_else (bu_favicon_url u) (br_favicon_url b),
              br_custom_domain := or_else (bu_custom_domain u) (br_custom_domain b),
              br_updated_at := Some now \<rparr>)"

text \<open>A custom domain belongs to one organization; the organizations are those of the foreign key.\<close>

definition domain_taken :: "uuid \<Rightarrow> string option \<Rightarrow> resource_db \<Rightarrow> bool" where
  "domain_taken org d db \<longleftrightarrow> d \<noteq> None \<and>
     list_ex (\<lambda>b. br_organization_id b \<noteq> org \<and> br_custom_domain b = d) (rd_brandings db)"

definition update_branding ::
  "uuid set \<Rightarrow> datetime \<Rightarrow> uuid \<Rightarrow> branding_update \<Rightarrow> resource_db \<Rightarrow> resource_error + branding_row option \<times> resource_db" where
  "update_branding orgs now org u db =
     (let domain_free = \<not> domain_taken org (bu_custom_domain u) db
      in case get_branding org db of
           Some _ \<Rightarrow>
             if \<not> domain_free then Inl RowRejected
             else let db' = db\<lparr> rd_brandings := update_where (\<lambda>b. br_organization_id b = org) (brand u now) (rd_brandings db) \<rparr>
                  in Inr (get_branding org db', db')
         | None \<Rightarrow>
             if \<not> domain_free \<or> org \<notin> orgs then Inl RowRejected
             else let b = \<lparr> br_organization_id = org, br_theme_mode = or_keep (bu_theme_mode u) ''system'',
                        br_primary_color = bu_primary_color u, br_logo_url = bu_logo_url u,
                        br_favicon_url = bu_favicon_url u, br_custom_domain = bu_custom_domain u,
                        br_created_at = now, br_updated_at = None \<rparr>;
                      db' = db\<lparr> rd_brandings := rd_brandings db @ [b] \<rparr>
                  in Inr (get_branding org db', db'))"

section \<open>The trail of a project\<close>

lemma record_usage_resources [simp]:
  "rd_projects (record_usage cx i m v md now db) = rd_projects db"
  "rd_secrets (record_usage cx i m v md now db) = rd_secrets db"
  "rd_blueprints (record_usage cx i m v md now db) = rd_blueprints db"
  by (simp_all add: record_usage_def Let_def)

lemma append_event_projects:
  "append_event reg sign cx ids now args db = Inr (i, db') \<Longrightarrow> rd_projects db' = rd_projects db"
  by (auto simp: append_event_def Let_def)

lemma record_project_change_Inr:
  fixes db :: resource_db
  assumes "record_project_change reg sign cx op_new ids now operation rationale ty severity i payload db = Inr db'"
  shows "rd_projects db' = rd_projects db
    \<and> (\<exists>r e ds. od_operations db' = od_operations db @ [r] \<and> op_id r = op_new \<and> op_operation r = operation
        \<and> pv_events db' = pv_events db @ e # ds \<and> list_all (is_dispatch cx) ds
        \<and> se_event_type e = ty \<and> se_entity_id e = Some i \<and> se_operation_id e = Some op_new)"
proof -
  let ?args = "\<lparr> oa_actor_id = oc_actor_id cx, oa_operation = operation, oa_trigger = ''user_command'',
      oa_initiated_by = oc_actor_id cx, oa_from_state = None, oa_to_state = None, oa_collaborators = [],
      oa_scope = Some ''organization'', oa_parent_operation_id = None, oa_artifacts = None,
      oa_rationale = Some rationale, oa_outcome = Some ''success'' \<rparr>"
  let ?event = "\<lambda>op. \<lparr> aa_event_type = ty, aa_payload = payload, aa_actor_id = Some (oc_actor_id cx),
      aa_severity = Some severity, aa_correlation_id = None, aa_operation_id = Some op,
      aa_entity_type = Some ''project'', aa_entity_id = Some i \<rparr>"
  from assms obtain op db1 where op: "record_operation cx op_new now ?args db = Inr (op, db1)"
    by (auto simp: record_project_change_def split: sum.splits)
  from assms op obtain j where ev: "append_event reg sign cx ids now (?event op) db1 = Inr (j, db')"
    by (auto simp: record_project_change_def split: sum.splits)
  from record_operation_insert [OF op] obtain r where r: "op = op_new" "db1 = db\<lparr> od_operations := od_operations db @ [r] \<rparr>"
    "op_id r = op_new" "op_operation r = operation" by (auto simp: operation_of_args_def)
  from append_event_effect [OF ev] obtain routing e ds where e: "build_event cx j now (?event op) routing = Inr e"
    "pv_events db' = pv_events db1 @ e # ds" "list_all (is_dispatch cx) ds" "od_operations db' = od_operations db1" by blast
  from e(1) have "se_event_type e = ty" "se_entity_id e = Some i" "se_operation_id e = Some op"
    by (auto simp: build_event_def effective_id_def Let_def split: if_splits)
  with e r append_event_projects [OF ev] show ?thesis by auto
qed

section \<open>Histories\<close>

datatype resource_call =
    CreateProject org_context uuid uuid append_ids datetime string string "string option" "json_object option"
  | ArchiveProject org_context uuid append_ids datetime uuid
  | UpdateProject org_context uuid append_ids datetime uuid "string option" "string option" "string option" "json_object option"
  | CreateSecret org_context uuid datetime string string json_object uuid
  | RotateSecret org_context datetime uuid json_object
  | RevokeSecret org_context uuid
  | CreateArtifact org_context uuid datetime string string uuid "string option" "int option" "string option" "json_object option"
  | CreateCapability org_context uuid datetime string "string option" "json_object option" "json_object option" string
      "int option" "json_object option" string
  | DeprecateCapability org_context uuid
  | UpdateBranding "uuid set" datetime uuid branding_update

text \<open>A call that raises is rolled back.\<close>

definition committed :: "resource_db \<Rightarrow> resource_error + 'a \<times> resource_db \<Rightarrow> resource_db" where
  "committed db r = (case r of Inl _ \<Rightarrow> db | Inr (_, db') \<Rightarrow> db')"

fun resource_do ::
  "event_type_registry \<Rightarrow> (string \<Rightarrow> json_object \<Rightarrow> string) \<Rightarrow> (datetime \<Rightarrow> string) \<Rightarrow> resource_call \<Rightarrow> resource_db
   \<Rightarrow> resource_db" where
  "resource_do reg sign isofmt (CreateProject cx i op ids now name slug d config) db =
     committed db (create_project reg sign cx i op ids now name slug d config db)"
| "resource_do reg sign isofmt (ArchiveProject cx op ids now i) db = committed db (archive_project reg sign cx op ids now i db)"
| "resource_do reg sign isofmt (UpdateProject cx op ids now i name slug d config) db =
     committed db (update_project reg sign isofmt cx op ids now i name slug d config db)"
| "resource_do reg sign isofmt (CreateSecret cx i now name provider config creator) db =
     committed db (create_secret cx i now name provider config creator db)"
| "resource_do reg sign isofmt (RotateSecret cx now i config) db = committed db (rotate_secret cx now i config db)"
| "resource_do reg sign isofmt (RevokeSecret cx i) db = committed db (revoke_secret cx i db)"
| "resource_do reg sign isofmt (CreateArtifact cx i now ty uri creator content size_bytes checksum md) db =
     committed db (create_artifact cx i now ty uri creator content size_bytes checksum md db)"
| "resource_do reg sign isofmt (CreateCapability cx i now name d inp out mode timeout policy st) db =
     committed db (create_capability cx i now name d inp out mode timeout policy st db)"
| "resource_do reg sign isofmt (DeprecateCapability cx i) db = committed db (deprecate_capability cx i db)"
| "resource_do reg sign isofmt (UpdateBranding orgs now org u) db = committed db (update_branding orgs now org u db)"

text \<open>The life of a project in the event stream.\<close>

definition is_life_event :: "stored_event \<Rightarrow> bool" where
  "is_life_event e \<longleftrightarrow> se_event_type e \<in> {''project.created'', ''project.archived''}"

definition project_trail :: "uuid \<Rightarrow> stored_event list \<Rightarrow> string list" where
  "project_trail i es = map se_event_type (filter (\<lambda>e. se_entity_id e = Some i \<and> is_life_event e) es)"

definition life_of :: "string \<Rightarrow> string list" where
  "life_of state = ''project.created'' # (if state = ''archived'' then [''project.archived''] else [])"

definition projects_ok :: "project_row list \<Rightarrow> stored_event list \<Rightarrow> bool" where
  "projects_ok ps es \<longleftrightarrow> distinct (map pj_id ps)
     \<and> distinct (map (\<lambda>p. (pj_organization_id p, pj_slug p)) ps)
     \<and> distinct (map (\<lambda>p. (pj_organization_id p, pj_name p)) ps)
     \<and> (\<forall>p \<in> set ps. pj_state p \<in> {''active'', ''archived''} \<and> project_trail (pj_id p) es = life_of (pj_state p))
     \<and> (\<forall>e \<in> set es. is_life_event e \<longrightarrow> se_entity_id e \<in> Some ` pj_id ` set ps)"

definition resources_ok :: "resource_db \<Rightarrow> bool" where
  "resources_ok db \<longleftrightarrow> projects_ok (rd_projects db) (pv_events db)
     \<and> distinct (map sr_id (rd_secrets db))
     \<and> distinct (map (\<lambda>s. (sr_organization_id s, sr_name s)) (rd_secrets db))
     \<and> distinct (map bp_id (rd_blueprints db))
     \<and> distinct (map br_organization_id (rd_brandings db))"

lemma trail_append:
  assumes "list_all (is_dispatch cx) ds"
  shows "project_trail i (es @ e # ds) = project_trail i es
    @ (if se_entity_id e = Some i \<and> is_life_event e then [se_event_type e] else [])"
proof -
  have "filter (\<lambda>e. se_entity_id e = Some i \<and> is_life_event e) ds = []"
    using assms by (auto simp: list_all_iff is_dispatch_def is_life_event_def filter_empty_conv)
  then show ?thesis by (simp add: project_trail_def)
qed

lemma life_events_append:
  assumes "list_all (is_dispatch cx) ds" and "e' \<in> set (es @ e # ds)" and "is_life_event e'"
  shows "e' \<in> set es \<or> e' = e"
  using assms by (auto simp: list_all_iff is_dispatch_def is_life_event_def)

lemma trail_fresh:
  "projects_ok ps es \<Longrightarrow> i \<notin> pj_id ` set ps \<Longrightarrow> project_trail i es = []"
  by (fastforce simp: projects_ok_def project_trail_def filter_empty_conv)

lemma projects_ok_insert:
  assumes ok: "projects_ok ps es" and clash: "\<not> list_ex (project_clash p) ps" and "pj_state p = ''active''"
    and ds: "list_all (is_dispatch cx) ds" and e: "se_event_type e = ''project.created''" "se_entity_id e = Some (pj_id p)"
  shows "projects_ok (ps @ [p]) (es @ e # ds)"
proof -
  have new: "pj_id p \<notin> pj_id ` set ps" using clash by (auto simp: list_ex_iff project_clash_def)
  have "project_trail (pj_id q) (es @ e # ds) = life_of (pj_state q)" if "q \<in> set (ps @ [p])" for q
  proof (cases "q \<in> set ps")
    case True
    then have "pj_id p \<noteq> pj_id q" using new by auto
    with True ok show ?thesis using e by (simp add: trail_append [OF ds] projects_ok_def)
  next
    case False
    with that have "q = p" by simp
    with trail_fresh [OF ok new] e assms(3) show ?thesis
      by (simp add: trail_append [OF ds] is_life_event_def life_of_def)
  qed
  moreover have "\<forall>e' \<in> set (es @ e # ds). is_life_event e' \<longrightarrow> se_entity_id e' \<in> Some ` pj_id ` set (ps @ [p])"
    using life_events_append [OF ds, of _ es e] ok e(2) by (fastforce simp: projects_ok_def)
  moreover have "(pj_organization_id p, pj_slug p) \<notin> (\<lambda>p. (pj_organization_id p, pj_slug p)) ` set ps"
    "(pj_organization_id p, pj_name p) \<notin> (\<lambda>p. (pj_organization_id p, pj_name p)) ` set ps"
    using clash by (auto simp: list_ex_iff project_clash_def)
  ultimately show ?thesis using ok new assms(3) by (auto simp: projects_ok_def)
qed


lemma projects_ok_update:
  fixes f :: "project_row \<Rightarrow> project_row"
  assumes ok: "projects_ok ps es" and p: "p \<in> set ps"
    and same: "\<And>q. pj_id (f q) = pj_id q" "\<And>q. pj_organization_id (f q) = pj_organization_id q"
    and clash: "\<forall>q \<in> set ps. pj_id q \<noteq> pj_id p \<longrightarrow> \<not> project_clash (f p) q"
    and ds: "list_all (is_dispatch cx) ds" and e: "se_entity_id e = Some (pj_id p)"
    and state: "pj_state (f p) \<in> {''active'', ''archived''}"
    and trail: "life_of (pj_state (f p)) = life_of (pj_state p) @ (if is_life_event e then [se_event_type e] else [])"
  shows "projects_ok (update_where (\<lambda>q. pj_id q = pj_id p) f ps) (es @ e # ds)"
proof -
  let ?ps = "update_where (\<lambda>q. pj_id q = pj_id p) f ps"
  have d: "distinct (map pj_id ps)" using ok by (simp add: projects_ok_def)
  have only: "q = p" if "q \<in> set ps" "pj_id q = pj_id p" for q
    by (rule distinct_map_eq [OF d that(1) p that(2)])
  have ids: "map pj_id ?ps = map pj_id ps" by (rule map_update_where) (simp add: same)
  have uniq: "distinct (map (\<lambda>p. (pj_organization_id p, k p)) ?ps)"
    if "distinct (map (\<lambda>p. (pj_organization_id p, k p)) ps)" and "k \<in> {pj_slug, pj_name}" for k :: "project_row \<Rightarrow> string"
  proof (rule distinct_map_update_one [OF that(1) d], intro ballI impI)
    fix x y assume "x \<in> set ps" "y \<in> set ps" "pj_id x \<noteq> pj_id p" "pj_id y = pj_id p"
    with only clash that(2) same show "(pj_organization_id x, k x) \<noteq> (pj_organization_id (f y), k (f y))"
      by (fastforce simp: project_clash_def)
  qed
  have "pj_state q \<in> {''active'', ''archived''} \<and> project_trail (pj_id q) (es @ e # ds) = life_of (pj_state q)"
    if q: "q \<in> set ?ps" for q
  proof -
    from q obtain x where x: "x \<in> set ps" "q = (if pj_id x = pj_id p then f x else x)" by (auto simp: set_update_where)
    show ?thesis
    proof (cases "pj_id x = pj_id p")
      case True
      then have "q = f p" using x only [of x] by simp
      then show ?thesis using ok p state trail e same by (simp add: projects_ok_def trail_append [OF ds])
    next
      case False
      then have "q = x" using x by simp
      then show ?thesis using ok x(1) False e by (simp add: projects_ok_def trail_append [OF ds])
    qed
  qed
  moreover have "pj_id ` set ?ps = pj_id ` set ps" using arg_cong [OF ids, of set] by (simp only: set_map)
  then have "\<forall>e' \<in> set (es @ e # ds). is_life_event e' \<longrightarrow> se_entity_id e' \<in> Some ` pj_id ` set ?ps"
    using life_events_append [OF ds, of _ es e] ok e p by (fastforce simp: projects_ok_def)
  ultimately show ?thesis using ok uniq [of pj_slug] uniq [of pj_name] ids by (simp add: projects_ok_def)
qed

lemma find_project_Some:
  "find_project org i db = Some p \<Longrightarrow> p \<in> set (rd_projects db) \<and> pj_id p = i \<and> pj_organization_id p = org"
  unfolding find_project_def by (drule find_Some_iff_mem) blast


text \<open>The calls keep the tables.\<close>

lemma create_project_ok:
  assumes "create_project reg sign cx i op ids now name slug d config db = Inr (p, db')"
    and "projects_ok (rd_projects db) (pv_events db)"
  shows "projects_ok (rd_projects db') (pv_events db')"
proof -
  let ?p = "\<lparr> pj_id = i, pj_organization_id = oc_organization_id cx, pj_name = name, pj_slug = slug,
    pj_description = d, pj_config = nonempty config, pj_state = ''active'', pj_created_at = now, pj_updated_at = None \<rparr>"
  have clash: "\<not> list_ex (project_clash ?p) (rd_projects db)"
    using assms(1) by (auto simp: create_project_def Let_def split: if_splits)
  with assms(1) have "record_project_change reg sign cx op ids now ''project.create'' (''Created project: '' @ name)
      ''project.created'' ''info'' i [(''name'', PStr name), (''slug'', PStr slug)]
      (db\<lparr> rd_projects := rd_projects db @ [?p] \<rparr>) = Inr db'"
    by (auto simp: create_project_def Let_def)
  from record_project_change_Inr [OF this] obtain e ds where "rd_projects db' = rd_projects db @ [?p]"
    "pv_events db' = pv_events db @ e # ds" "list_all (is_dispatch cx) ds" "se_event_type e = ''project.created''"
    "se_entity_id e = Some i" by auto
  with projects_ok_insert [OF assms(2) clash] show ?thesis by simp
qed

lemma archive_project_ok:
  assumes "archive_project reg sign cx op ids now i db = Inr (p', db')"
    and ok: "projects_ok (rd_projects db) (pv_events db)"
  shows "projects_ok (rd_projects db') (pv_events db')"
proof -
  let ?f = "\<lambda>q. q\<lparr> pj_state := ''archived'', pj_updated_at := Some now \<rparr>"
  from assms(1) obtain p where p: "find_project (oc_organization_id cx) i db = Some p"
    by (auto simp: archive_project_def split: option.splits)
  show ?thesis
  proof (cases "pj_state p = ''archived''")
    case True
    with assms p show ?thesis by (simp add: archive_project_def)
  next
    case False
    with assms(1) p obtain payload where "record_project_change reg sign cx op ids now ''project.archive''
        (''Archived project: '' @ pj_name p) ''project.archived'' ''warn'' i payload (set_project i ?f db) = Inr db'"
      by (auto simp: archive_project_def Let_def split: sum.splits)
    from record_project_change_Inr [OF this] obtain e ds where
      e: "rd_projects db' = update_where (\<lambda>q. pj_id q = i) ?f (rd_projects db)" "pv_events db' = pv_events db @ e # ds"
      "list_all (is_dispatch cx) ds" "se_event_type e = ''project.archived''" "se_entity_id e = Some i"
      by (auto simp: set_project_def)
    note home = find_project_Some [OF p]
    have active: "pj_state p = ''active''" using ok home False by (auto simp: projects_ok_def)
    have "projects_ok (update_where (\<lambda>q. pj_id q = pj_id p) ?f (rd_projects db)) (pv_events db @ e # ds)"
    proof (rule projects_ok_update [OF ok _ _ _ _ e(3)])
      show "\<forall>q \<in> set (rd_projects db). pj_id q \<noteq> pj_id p \<longrightarrow> \<not> project_clash (?f p) q"
        using ok home unfolding projects_ok_def project_clash_def by (auto dest: distinct_map_eq)
    qed (use home e active in \<open>simp_all add: life_of_def is_life_event_def\<close>)
    with e home show ?thesis by simp
  qed
qed

lemma update_project_ok:
  assumes "update_project reg sign isofmt cx op ids now i name slug d config db = Inr (p', db')"
    and ok: "projects_ok (rd_projects db) (pv_events db)"
  shows "projects_ok (rd_projects db') (pv_events db')"
proof -
  let ?f = "update_project_row now name slug d config"
  let ?v = "project_values isofmt now name slug d config"
  from assms(1) obtain p where p: "find_project (oc_organization_id cx) i db = Some p"
    by (auto simp: update_project_def split: option.splits)
  show ?thesis
  proof (cases "length ?v = 1")
    case True
    with assms p show ?thesis by (simp add: update_project_def Let_def)
  next
    case False
    from assms(1) p False have clash: "\<not> list_ex (\<lambda>q. pj_id q \<noteq> i \<and> project_clash (?f p) q) (rd_projects db)"
      by (auto simp: update_project_def Let_def split: if_splits)
    with assms(1) p False have "record_project_change reg sign cx op ids now ''project.update''
        (''Updated project: '' @ pj_name (?f p)) ''project.updated'' ''info'' i ?v (set_project i ?f db) = Inr db'"
      by (auto simp: update_project_def Let_def)
    from record_project_change_Inr [OF this] obtain e ds where
      e: "rd_projects db' = update_where (\<lambda>q. pj_id q = i) ?f (rd_projects db)" "pv_events db' = pv_events db @ e # ds"
      "list_all (is_dispatch cx) ds" "se_event_type e = ''project.updated''" "se_entity_id e = Some i"
      by (auto simp: set_project_def)
    note home = find_project_Some [OF p]
    have "projects_ok (update_where (\<lambda>q. pj_id q = pj_id p) ?f (rd_projects db)) (pv_events db @ e # ds)"
    proof (rule projects_ok_update [OF ok _ _ _ _ e(3)])
      show "pj_state (?f p) \<in> {''active'', ''archived''}" using ok home by (simp add: projects_ok_def update_project_row_def)
    qed (use clash home e in \<open>auto simp: list_ex_iff update_project_row_def is_life_event_def\<close>)
    with e home show ?thesis by simp
  qed
qed


lemma set_secret_Inr:
  "set_secret cx i f db = Inr (s, db') \<Longrightarrow>
     db' = db\<lparr> rd_secrets := update_where (\<lambda>r. sr_id r = i) f (rd_secrets db) \<rparr>
     \<and> (\<exists>r. find_secret (oc_organization_id cx) i db = Some r \<and> s = f r)"
  by (auto simp: set_secret_def split: option.splits)

lemma set_secret_ok:
  assumes "set_secret cx i f db = Inr (s, db')" and "resources_ok db"
    and "\<And>r. sr_id (f r) = sr_id r" "\<And>r. sr_organization_id (f r) = sr_organization_id r" "\<And>r. sr_name (f r) = sr_name r"
  shows "resources_ok db'"
proof -
  from set_secret_Inr [OF assms(1)]
  have db': "db' = db\<lparr> rd_secrets := update_where (\<lambda>r. sr_id r = i) f (rd_secrets db) \<rparr>" by blast
  have "map sr_id (rd_secrets db') = map sr_id (rd_secrets db)"
    "map (\<lambda>s. (sr_organization_id s, sr_name s)) (rd_secrets db') = map (\<lambda>s. (sr_organization_id s, sr_name s)) (rd_secrets db)"
    by (simp_all add: db' map_update_where assms(3-5))
  with assms(2) show ?thesis by (simp add: resources_ok_def db')
qed

lemma create_secret_ok:
  assumes "create_secret cx i now name provider config creator db = Inr (s, db')" and "resources_ok db"
  shows "resources_ok db'"
proof -
  from assms(1) have "\<not> list_ex (\<lambda>r. sr_id r = i \<or> sr_organization_id r = oc_organization_id cx \<and> sr_name r = name) (rd_secrets db)"
    and s: "db' = db\<lparr> rd_secrets := rd_secrets db @ [s] \<rparr>" "sr_id s = i" "sr_name s = name" "sr_organization_id s = oc_organization_id cx"
    by (auto simp: create_secret_def Let_def split: if_splits)
  then have "i \<notin> sr_id ` set (rd_secrets db)"
    "(oc_organization_id cx, name) \<notin> (\<lambda>s. (sr_organization_id s, sr_name s)) ` set (rd_secrets db)"
    by (auto simp: list_ex_iff)
  with s assms(2) show ?thesis by (simp add: resources_ok_def)
qed

lemma create_capability_ok:
  assumes "create_capability cx i now name d inp out mode timeout policy st db = Inr (c, db')" and "resources_ok db"
  shows "resources_ok db'"
proof -
  from assms(1) have "i \<notin> bp_id ` set (rd_blueprints db)"
    and "db' = db\<lparr> rd_blueprints := rd_blueprints db @ [c] \<rparr> \<and> bp_id c = i"
    by (auto simp: create_capability_def Let_def list_ex_iff split: if_splits)
  with assms(2) show ?thesis by (simp add: resources_ok_def)
qed

lemma update_branding_ok:
  assumes "update_branding orgs now org u db = Inr (b, db')" and "resources_ok db"
  shows "resources_ok db'"
proof (cases "get_branding org db")
  case None
  then have "org \<notin> br_organization_id ` set (rd_brandings db)" by (auto simp: get_branding_def find_None_iff)
  with None assms show ?thesis
    by (auto simp: update_branding_def Let_def resources_ok_def split: if_splits)
next
  case (Some r)
  then have db': "db' = db\<lparr> rd_brandings := update_where (\<lambda>b. br_organization_id b = org) (brand u now) (rd_brandings db) \<rparr>"
    using assms(1) by (auto simp: update_branding_def Let_def split: if_splits)
  have "map br_organization_id (rd_brandings db') = map br_organization_id (rd_brandings db)"
    by (simp add: db' map_update_where brand_def)
  with assms(2) show ?thesis by (simp add: resources_ok_def db')
qed

lemma record_project_change_keeps:
  "record_project_change reg sign cx op ids now operation rationale ty severity i payload db = Inr db' \<Longrightarrow>
     rd_secrets db' = rd_secrets db \<and> rd_blueprints db' = rd_blueprints db \<and> rd_brandings db' = rd_brandings db"
  by (auto simp: record_project_change_def append_event_def record_operation_def insert_operation_def Let_def
      record_usage_def split: sum.splits if_splits)

lemma project_calls_keep:
  "create_project reg sign cx i op ids now name slug d config db = Inr (p, db') \<Longrightarrow>
     rd_secrets db' = rd_secrets db \<and> rd_blueprints db' = rd_blueprints db \<and> rd_brandings db' = rd_brandings db"
  "archive_project reg sign cx op ids now i db = Inr (p, db') \<Longrightarrow>
     rd_secrets db' = rd_secrets db \<and> rd_blueprints db' = rd_blueprints db \<and> rd_brandings db' = rd_brandings db"
  "update_project reg sign isofmt cx op ids now i name' slug' d config db = Inr (p, db') \<Longrightarrow>
     rd_secrets db' = rd_secrets db \<and> rd_blueprints db' = rd_blueprints db \<and> rd_brandings db' = rd_brandings db"
  by (auto simp: create_project_def archive_project_def update_project_def Let_def set_project_def
      dest!: record_project_change_keeps split: option.splits sum.splits if_splits)

lemma resource_do_ok: "resources_ok db \<Longrightarrow> resources_ok (resource_do reg sign isofmt a db)"
proof (cases a)
  case (CreateProject cx i op ids now name slug d config)
  assume "resources_ok db"
  then show ?thesis
    using create_project_ok project_calls_keep(1)
    by (fastforce simp: CreateProject committed_def resources_ok_def split: sum.splits)
next
  case (ArchiveProject cx op ids now i)
  assume "resources_ok db"
  then show ?thesis
    using archive_project_ok project_calls_keep(2)
    by (fastforce simp: ArchiveProject committed_def resources_ok_def split: sum.splits)
next
  case (UpdateProject cx op ids now i name slug d config)
  assume "resources_ok db"
  then show ?thesis
    using update_project_ok project_calls_keep(3)
    by (fastforce simp: UpdateProject committed_def resources_ok_def split: sum.splits)
next
  case (RotateSecret cx now i config)
  assume "resources_ok db"
  then show ?thesis
    by (auto simp: RotateSecret committed_def rotate_secret_def split: sum.splits intro: set_secret_ok)
next
  case (RevokeSecret cx i)
  assume "resources_ok db"
  then show ?thesis
    by (auto simp: RevokeSecret committed_def revoke_secret_def split: sum.splits intro: set_secret_ok)
next
  case (CreateArtifact cx i now ty uri creator content size_bytes checksum md)
  assume "resources_ok db"
  then show ?thesis
    by (auto simp: CreateArtifact committed_def create_artifact_def Let_def resources_ok_def split: sum.splits if_splits)
next
  case (DeprecateCapability cx i)
  assume "resources_ok db"
  then show ?thesis
    by (auto simp: DeprecateCapability committed_def deprecate_capability_def Let_def resources_ok_def map_update_where
        split: sum.splits option.splits)
qed (auto simp: committed_def split: sum.splits intro: create_secret_ok create_capability_ok update_branding_ok)

interpretation resource_tables: component "resource_do reg sign isofmt" resources_ok for reg sign isofmt
  by unfold_locales (rule resource_do_ok)


definition no_resources :: "resource_db \<Rightarrow> bool" where
  "no_resources db \<longleftrightarrow> rd_projects db = [] \<and> rd_secrets db = [] \<and> rd_blueprints db = [] \<and> rd_brandings db = []
     \<and> list_all (\<lambda>e. \<not> is_life_event e) (pv_events db)"

lemma reached_resources_ok: "no_resources db \<Longrightarrow> resources_ok (fold (resource_do reg sign isofmt) calls db)"
  by (rule resource_tables.run_inv) (simp add: no_resources_def resources_ok_def projects_ok_def list_all_iff)

definition START_RESOURCES :: resource_db where
  "START_RESOURCES = \<lparr> od_actors = [\<lparr> ac_id = 2, ac_organization_id = 3, ac_state = ''active'', ac_lifecycle_phase = ''operating'',
       ac_updated_at = None \<rparr>], od_operations = [], pv_events = [], pv_subscriptions = [], pv_meters = [], pv_quotas = [],
     rd_projects = [], rd_secrets = [], rd_artifacts = [], rd_blueprints = [], rd_brandings = [] \<rparr>"

definition RES_CX :: org_context where
  "RES_CX = \<lparr> oc_auth_identity_id = 1, oc_actor_id = 2, oc_organization_id = 3, oc_session_id = 4,
     oc_platform_role = PlatformNone, oc_membership_role = OrgMember \<rparr>"

definition RES_IDS :: "uuid \<Rightarrow> append_ids" where
  "RES_IDS i = \<lparr> ai_event = i, ai_meter = i + 1, ai_dispatch = (\<lambda>_. i + 2) \<rparr>"

definition RES_CALLS :: "resource_call list" where
  "RES_CALLS =
     [CreateProject RES_CX 10 11 (RES_IDS 12) 5 ''Alpha'' ''a'' None None,
      CreateProject RES_CX 20 21 (RES_IDS 22) 6 ''Beta'' ''b'' None None,
      CreateProject RES_CX 30 31 (RES_IDS 32) 6 ''Alpha'' ''c'' None None,
      ArchiveProject RES_CX 41 (RES_IDS 42) 7 10, ArchiveProject RES_CX 51 (RES_IDS 52) 8 10,
      CreateSecret RES_CX 60 9 ''key'' ''vault'' [] 2, CreateSecret RES_CX 61 9 ''old'' ''env'' [] 2, RevokeSecret RES_CX 61]"

definition RES_DB :: resource_db where
  "RES_DB = fold (resource_do er_init (\<lambda>_ _. []) (\<lambda>_. [])) RES_CALLS START_RESOURCES"

lemma RES_projects: "map (\<lambda>p. (pj_id p, pj_state p)) (rd_projects RES_DB) = [(10, ''archived''), (20, ''active'')]"
  by code_simp

lemma RES_secrets: "map (\<lambda>s. (sr_id s, sr_name s, sr_state s)) (resolve_secrets (\<lambda>_. 0) RES_CX [''key'', ''old''] RES_DB)
    = [(60, ''key'', ''active'')]"
  by code_simp


text \<open>
  C25. After any calls of the resource services on empty tables, by any organizations and with any outcome,
  the event stream tells the life of every project: exactly one \<open>project.created\<close>, then exactly one
  \<open>project.archived\<close> if the project is archived, and none if it is not, however often it was archived.
\<close>

theorem project_trail_exact:
  assumes "no_resources db" and "db' = fold (resource_do reg sign isofmt) calls db" and "p \<in> set (rd_projects db')"
  shows "map se_event_type (filter (\<lambda>e. se_entity_id e = Some (pj_id p)
      \<and> se_event_type e \<in> {''project.created'', ''project.archived''}) (pv_events db'))
    = ''project.created'' # (if pj_state p = ''archived'' then [''project.archived''] else [])"
  using reached_resources_ok [OF assms(1), of reg sign isofmt calls] assms(2,3)
  by (simp add: resources_ok_def projects_ok_def project_trail_def is_life_event_def life_of_def)

theorem project_trail_exact_witness:
  "\<exists>p \<in> set (rd_projects RES_DB). pj_id p = 10
     \<and> map se_event_type (filter (\<lambda>e. se_entity_id e = Some (pj_id p)
         \<and> se_event_type e \<in> {''project.created'', ''project.archived''}) (pv_events RES_DB))
       = [''project.created'', ''project.archived'']"
proof -
  have "(10, ''archived'') \<in> (\<lambda>p. (pj_id p, pj_state p)) ` set (rd_projects RES_DB)"
    using arg_cong [OF RES_projects, of set] by simp
  then obtain p where p: "p \<in> set (rd_projects RES_DB)" "pj_id p = 10" "pj_state p = ''archived''" by auto
  have "no_resources START_RESOURCES" by (simp add: no_resources_def START_RESOURCES_def)
  from project_trail_exact [OF this RES_DB_def p(1)] p show ?thesis by auto
qed

text \<open>
  A worker that asks for secrets by name gets, whatever calls came before, exactly the active secret of
  its organization under each name asked for; a name without one is left out.
\<close>

theorem resolve_exact:
  assumes "no_resources db" and "db' = fold (resource_do reg sign isofmt) calls db"
  shows "s \<in> set (resolve_secrets tie cx names db') \<longleftrightarrow>
    sr_name s \<in> set names \<and> sr_state s = ''active'' \<and> get_secret_by_name cx (sr_name s) db' = Some s"
proof -
  have ok: "resources_ok db'" unfolding assms(2) by (rule reached_resources_ok [OF assms(1)])
  have "get_secret_by_name cx (sr_name s) db' = Some s
      \<longleftrightarrow> s \<in> set (rd_secrets db') \<and> sr_organization_id s = oc_organization_id cx"
  proof
    assume "get_secret_by_name cx (sr_name s) db' = Some s"
    then show "s \<in> set (rd_secrets db') \<and> sr_organization_id s = oc_organization_id cx"
      unfolding get_secret_by_name_def by (drule_tac find_Some_iff_mem) blast
  next
    assume s: "s \<in> set (rd_secrets db') \<and> sr_organization_id s = oc_organization_id cx"
    have "distinct (map (\<lambda>s. (sr_organization_id s, sr_name s)) (rd_secrets db'))" using ok by (simp add: resources_ok_def)
    from find_unique [OF this, of "\<lambda>_. True" "(oc_organization_id cx, sr_name s)" s] s
    show "get_secret_by_name cx (sr_name s) db' = Some s" by (simp add: get_secret_by_name_def)
  qed
  then show ?thesis by (auto simp: resolve_secrets_def)
qed

theorem resolve_exact_witness:
  "\<exists>s. get_secret_by_name RES_CX ''key'' RES_DB = Some s \<and> sr_state s = ''active''"
proof -
  have "(60, ''key'', ''active'') \<in> (\<lambda>s. (sr_id s, sr_name s, sr_state s))
      ` set (resolve_secrets (\<lambda>_. 0) RES_CX [''key'', ''old''] RES_DB)"
    using arg_cong [OF RES_secrets, of set] by simp
  then obtain s where s: "s \<in> set (resolve_secrets (\<lambda>_. 0) RES_CX [''key'', ''old''] RES_DB)" "sr_name s = ''key''" by auto
  have "no_resources START_RESOURCES" by (simp add: no_resources_def START_RESOURCES_def)
  from resolve_exact [OF this RES_DB_def, of s "\<lambda>_. 0" RES_CX "[''key'', ''old'']"] s show ?thesis by auto
qed

text \<open>A rotation activates a secret whatever its state: a revoked secret is given out again.\<close>

lemma rotation_revives:
  assumes "find_secret (oc_organization_id cx) i db = Some s" and "sr_name s \<in> set names"
  shows "\<exists>s' db'. rotate_secret cx now i config db = Inr (s', db') \<and> sr_state s' = ''active''
    \<and> s' \<in> set (resolve_secrets tie cx names db')"
proof -
  have s: "s \<in> set (rd_secrets db)" "sr_id s = i" "sr_organization_id s = oc_organization_id cx"
    using assms(1) unfolding find_secret_def by (auto dest: find_Some_iff_mem)
  let ?f = "\<lambda>s. s\<lparr> sr_ref_config := config, sr_state := ''active'', sr_rotated_at := Some now \<rparr>"
  have "?f s \<in> set (update_where (\<lambda>r. sr_id r = i) ?f (rd_secrets db))" using s by (auto simp: set_update_where)
  then show ?thesis using assms s by (auto simp: rotate_secret_def set_secret_def resolve_secrets_def)
qed

text \<open>An archived project can still be renamed.\<close>

lemma archived_project_updates:
  "(case update_project er_init (\<lambda>_ _. []) (\<lambda>_. []) RES_CX 71 (RES_IDS 72) 9 10 (Some ''Gamma'') None None None RES_DB of
      Inl _ \<Rightarrow> None | Inr (p, _) \<Rightarrow> Some (pj_name p, pj_state p)) = Some (''Gamma'', ''archived'')"
  by code_simp

text \<open>The branding of an organization after an update: each field given, or else the one before.\<close>

lemma update_branding_merges:
  assumes "update_branding orgs now org u db = Inr (b, db')"
  shows "b = Some (case get_branding org db of
      Some old \<Rightarrow> brand u now old
    | None \<Rightarrow> \<lparr> br_organization_id = org, br_theme_mode = or_keep (bu_theme_mode u) ''system'',
        br_primary_color = bu_primary_color u, br_logo_url = bu_logo_url u, br_favicon_url = bu_favicon_url u,
        br_custom_domain = bu_custom_domain u, br_created_at = now, br_updated_at = None \<rparr>)"
proof (cases "get_branding org db")
  case None
  with assms show ?thesis
    by (auto simp: update_branding_def Let_def get_branding_def find_append split: if_splits)
next
  case (Some r)
  then have "find (\<lambda>b. br_organization_id b = org) (update_where (\<lambda>b. br_organization_id b = org) (brand u now) (rd_brandings db))
      = Some (brand u now r)"
    unfolding get_branding_def by (subst find_update_where) (auto simp: brand_def dest: find_Some_iff_mem)
  with Some assms show ?thesis by (auto simp: update_branding_def Let_def get_branding_def split: if_splits)
qed

end
