(* ===== verification/Governance.thy ===== *)
theory Governance
  imports Provenance Workers Runs
begin

text \<open>
  The remaining checks of \<^verbatim>\<open>services/quotas.py\<close> (the daily events are in the theory of the event stream) and
  the queries of \<^verbatim>\<open>services/metering.py\<close>. The checks read the quotas of the organization and count the rows
  of the enrollments, of \<^verbatim>\<open>xioflow_tasks\<close> and of \<^verbatim>\<open>xioflow_runs\<close>.
\<close>

section \<open>Quotas\<close>

definition check_quota :: "string \<Rightarrow> string \<Rightarrow> nat \<Rightarrow> uuid \<Rightarrow> 'z prov_db_scheme \<Rightarrow> prov_error + unit" where
  "check_quota resource_type key current org db =
     (case map_of (get_quotas db org) key of
        None \<Rightarrow> Inr ()
      | Some limit \<Rightarrow> if int current \<ge> limit then Inl (QuotaExceededError resource_type current limit) else Inr ())"

definition check_workers :: "uuid \<Rightarrow> worker_db \<Rightarrow> 'z prov_db_scheme \<Rightarrow> prov_error + unit" where
  "check_workers org wdb db =
     check_quota ''workers'' ''max_workers''
       (length (filter (\<lambda>w. we_organization_id w = org \<and> we_enrollment_state w \<in> {''pending'', ''approved''}) (wd_enrollments wdb)))
       org db"

definition check_queued_tasks :: "uuid \<Rightarrow> xdb \<Rightarrow> 'z prov_db_scheme \<Rightarrow> prov_error + unit" where
  "check_queued_tasks org xdb db =
     check_quota ''queued_tasks'' ''max_queued_tasks''
       (length (filter (\<lambda>t. xt_organization_id t = org \<and> xt_state t = ''queued'') (x_tasks xdb))) org db"

definition check_concurrent_runs :: "uuid \<Rightarrow> xdb \<Rightarrow> 'z prov_db_scheme \<Rightarrow> prov_error + unit" where
  "check_concurrent_runs org xdb db =
     check_quota ''concurrent_runs'' ''max_concurrent_runs''
       (length (filter (\<lambda>r. xr_organization_id r = org \<and> xr_state r = ''running'') (x_runs xdb))) org db"

section \<open>Metering queries\<close>

definition current_hour :: "datetime \<Rightarrow> datetime \<times> datetime" where
  "current_hour ts = (let start = ts - ts mod hour in (start, start + hour))"

definition in_window :: "datetime option \<Rightarrow> datetime option \<Rightarrow> meter_row \<Rightarrow> bool" where
  "in_window since until m \<longleftrightarrow>
     (case since of None \<Rightarrow> True | Some t \<Rightarrow> um_period_start m \<ge> t) \<and> (case until of None \<Rightarrow> True | Some t \<Rightarrow> um_period_end m \<le> t)"

definition get_usage ::
  "(meter_row \<Rightarrow> nat) \<Rightarrow> org_context \<Rightarrow> string option \<Rightarrow> datetime option \<Rightarrow> datetime option \<Rightarrow> nat \<Rightarrow> 'z prov_db_scheme
   \<Rightarrow> meter_row list" where
  "get_usage tie cx metric_type since until limit db =
     take limit (sort_key (\<lambda>m. - um_period_start m) (sort_key tie
       (filter (\<lambda>m. um_organization_id m = oc_organization_id cx
            \<and> (metric_type = None \<or> metric_type = Some (um_metric_type m)) \<and> in_window since until m) (pv_meters db))))"

record usage_summary =
  us_organization_id :: uuid
  us_period_start :: datetime
  us_period_end :: datetime
  us_metrics :: "(string \<times> int) list"

definition get_usage_summary ::
  "datetime \<Rightarrow> org_context \<Rightarrow> datetime option \<Rightarrow> datetime option \<Rightarrow> 'z prov_db_scheme \<Rightarrow> usage_summary" where
  "get_usage_summary now cx since until db =
     (let from_t = (case since of None \<Rightarrow> now - 24 * hour | Some t \<Rightarrow> t);
          to_t = (case until of None \<Rightarrow> now | Some t \<Rightarrow> t);
          rows = filter (\<lambda>m. um_organization_id m = oc_organization_id cx \<and> in_window (Some from_t) (Some to_t) m) (pv_meters db)
      in \<lparr> us_organization_id = oc_organization_id cx, us_period_start = from_t, us_period_end = to_t,
           us_metrics = map (\<lambda>t. (t, sum_list (map um_value (filter (\<lambda>m. um_metric_type m = t) rows))))
             (remdups (map um_metric_type rows)) \<rparr>)"

section \<open>What the checks count\<close>

lemma check_quota_exceeded:
  "check_quota ty key n org db = Inl e \<longleftrightarrow>
     (\<exists>limit. map_of (get_quotas db org) key = Some limit \<and> limit \<le> int n \<and> e = QuotaExceededError ty n limit)"
  by (auto simp: check_quota_def split: option.splits)

text \<open>
  The states of runs and tasks are in capitals, the queries ask for \<open>running\<close> and \<open>queued\<close>: whatever
  the runs do, the two checks pass as soon as the limit is positive.
\<close>

lemma task_states: "runs_ok db \<Longrightarrow> t \<in> set (x_tasks db) \<Longrightarrow> xt_state t \<in> TASK_STATES"
  by (auto simp: runs_ok_def)

lemma run_quotas_never_bind:
  assumes "x_runs s = []" and "x_tasks s = []" and "x_dead s = []"
    and "map_of (get_quotas db org) ''max_concurrent_runs'' = Some runs" and "0 < runs"
    and "map_of (get_quotas db org) ''max_queued_tasks'' = Some tasks" and "0 < tasks"
  shows "check_concurrent_runs org (fold run_step xs s) db = Inr ()" and "check_queued_tasks org (fold run_step xs s) db = Inr ()"
proof -
  have ok: "runs_ok (fold run_step xs s)" by (rule reached_ok [OF assms(1-3)])
  have "filter (\<lambda>r. xr_organization_id r = org \<and> xr_state r = ''running'') (x_runs (fold run_step xs s)) = []"
    using run_valid [OF ok] by (fastforce simp: filter_empty_conv RUN_STATES_def)
  with assms(4,5) show "check_concurrent_runs org (fold run_step xs s) db = Inr ()"
    by (simp add: check_concurrent_runs_def check_quota_def)
  have "filter (\<lambda>t. xt_organization_id t = org \<and> xt_state t = ''queued'') (x_tasks (fold run_step xs s)) = []"
    using task_states [OF ok] by (fastforce simp: filter_empty_conv TASK_STATES_def)
  with assms(6,7) show "check_queued_tasks org (fold run_step xs s) db = Inr ()"
    by (simp add: check_queued_tasks_def check_quota_def)
qed

section \<open>What is metered\<close>

record usage_call =
  uc_context :: org_context
  uc_id :: uuid
  uc_metric :: string
  uc_value :: int
  uc_metadata :: "(string \<times> pyval) list option"
  uc_now :: datetime

definition meter_key :: "meter_row \<Rightarrow> uuid \<times> datetime \<times> string" where
  "meter_key m = (um_organization_id m, um_period_start m, um_metric_type m)"

definition call_key :: "usage_call \<Rightarrow> uuid \<times> datetime \<times> string" where
  "call_key c = (oc_organization_id (uc_context c), uc_now c - uc_now c mod hour, uc_metric c)"

text \<open>The column is a BIGINT: the flush of a value outside of 64 bits is refused, and the call raises.\<close>

definition bigint :: "int \<Rightarrow> bool" where
  "bigint v \<longleftrightarrow> - (2 ^ 63) \<le> v \<and> v < 2 ^ 63"

definition new_value :: "usage_call \<Rightarrow> 'z prov_db_scheme \<Rightarrow> int" where
  "new_value c db =
     (case find (\<lambda>m. meter_key m = call_key c) (pv_meters db) of None \<Rightarrow> uc_value c | Some m \<Rightarrow> um_value m + uc_value c)"

datatype meter_error = MeterOverflow

definition try_record :: "usage_call \<Rightarrow> 'z prov_db_scheme \<Rightarrow> meter_error + 'z prov_db_scheme" where
  "try_record c db =
     (if bigint (new_value c db)
      then Inr (record_usage (uc_context c) (uc_id c) (uc_metric c) (uc_value c) (uc_metadata c) (uc_now c) db)
      else Inl MeterOverflow)"

text \<open>
  A history of calls that do not overlap, each from its read of the row to its write: the calls that were
  accepted, newest first, and the tables.
\<close>

definition meter_do :: "usage_call \<Rightarrow> usage_call list \<times> prov_db \<Rightarrow> usage_call list \<times> prov_db" where
  "meter_do c s = (case try_record c (snd s) of Inl _ \<Rightarrow> s | Inr db' \<Rightarrow> (c # fst s, db'))"

text \<open>One row for an hour, a metric and an organization, which spans the hour.\<close>

definition meters_ok :: "'z prov_db_scheme \<Rightarrow> bool" where
  "meters_ok db \<longleftrightarrow> distinct (map meter_key (pv_meters db))
     \<and> list_all (\<lambda>m. um_period_start m mod hour = 0 \<and> um_period_end m = um_period_start m + hour) (pv_meters db)"

definition metered :: "uuid \<Rightarrow> string \<Rightarrow> meter_row list \<Rightarrow> int" where
  "metered org ty ms = sum_list (map um_value (filter (\<lambda>m. um_organization_id m = org \<and> um_metric_type m = ty) ms))"

lemma metered_simps [simp]:
  "metered org ty [] = 0"
  "metered org ty (m # ms) = (if um_organization_id m = org \<and> um_metric_type m = ty then um_value m else 0) + metered org ty ms"
  "metered org ty (ms @ ns) = metered org ty ms + metered org ty ns"
  by (simp_all add: metered_def)

lemma metered_update_none:
  "k \<notin> meter_key ` set ms \<Longrightarrow> update_where (\<lambda>m. meter_key m = k) f ms = ms"
  unfolding update_where_def by (rule map_idI) auto

lemma metered_update_one:
  assumes "distinct (map meter_key ms)" and "(o1, st, ty1) \<in> meter_key ` set ms"
    and f: "\<And>m. meter_key (f m) = meter_key m" "\<And>m. um_value (f m) = um_value m + v"
  shows "metered org ty (update_where (\<lambda>m. meter_key m = (o1, st, ty1)) f ms)
    = metered org ty ms + (if o1 = org \<and> ty1 = ty then v else 0)"
  using assms(1,2)
proof (induction ms)
  case (Cons m ms)
  have same: "um_organization_id (f m) = um_organization_id m" "um_metric_type (f m) = um_metric_type m"
    using f(1) [of m] by (simp_all add: meter_key_def)
  have split: "update_where p g (x # xs) = (if p x then g x else x) # update_where p g xs" for p and g :: "meter_row \<Rightarrow> meter_row" and x xs
    by (simp add: update_where_def)
  show ?case
  proof (cases "meter_key m = (o1, st, ty1)")
    case True
    then have "(o1, st, ty1) \<notin> meter_key ` set ms" using Cons.prems(1) by auto
    then have rest: "update_where (\<lambda>m. meter_key m = (o1, st, ty1)) f ms = ms" by (rule metered_update_none)
    have "um_organization_id m = o1" "um_metric_type m = ty1" using True by (simp_all add: meter_key_def)
    with True rest show ?thesis by (simp add: split same f(2))
  next
    case False
    with Cons show ?thesis by (simp add: split image_iff) 
  qed
qed simp

lemma hit_key:
  "(um_organization_id m = a \<and> um_period_start m = b \<and> um_metric_type m = c) \<longleftrightarrow> meter_key m = (a, b, c)"
  by (auto simp: meter_key_def)

lemma record_usage_rows:
  fixes db :: "'z prov_db_scheme" and cx :: org_context and now v :: int and ty :: string
  defines "k \<equiv> (oc_organization_id cx, now - now mod hour, ty)"
  shows "(k \<in> meter_key ` set (pv_meters db) \<and> (\<exists>f. pv_meters (record_usage cx i ty v md now db)
        = update_where (\<lambda>m. meter_key m = k) f (pv_meters db)
      \<and> (\<forall>m. meter_key (f m) = meter_key m \<and> um_value (f m) = um_value m + v \<and> um_period_end (f m) = um_period_end m)))
    \<or> (k \<notin> meter_key ` set (pv_meters db) \<and> (\<exists>m. pv_meters (record_usage cx i ty v md now db) = pv_meters db @ [m]
      \<and> meter_key m = k \<and> um_value m = v \<and> um_period_end m = um_period_start m + hour))"
proof (cases "k \<in> meter_key ` set (pv_meters db)")
  case True
  then have hit: "list_ex (\<lambda>m. meter_key m = k) (pv_meters db)" by (auto simp: list_ex_iff image_iff eq_commute)
  let ?f = "\<lambda>m. m\<lparr> um_value := um_value m + v,
     um_metadata := fold (\<lambda>(k, x) d. AList.update k x d) (case md of None \<Rightarrow> [] | Some d \<Rightarrow> d) (um_metadata m) \<rparr>"
  have "pv_meters (record_usage cx i ty v md now db) = update_where (\<lambda>m. meter_key m = k) ?f (pv_meters db)"
    using hit unfolding record_usage_def Let_def hit_key k_def by simp
  then show ?thesis using True by (intro disjI1 conjI exI [of _ ?f]) (simp_all add: meter_key_def)
next
  case False
  then have "\<not> list_ex (\<lambda>m. meter_key m = k) (pv_meters db)" by (auto simp: list_ex_iff image_iff eq_commute)
  then have "\<exists>m. pv_meters (record_usage cx i ty v md now db) = pv_meters db @ [m] \<and> meter_key m = k \<and> um_value m = v
      \<and> um_period_end m = um_period_start m + hour"
    unfolding record_usage_def Let_def hit_key k_def by (simp add: meter_key_def)
  with False show ?thesis by blast
qed

lemma meters_ok_update:
  assumes "meters_ok db" and "pv_meters db' = update_where p f (pv_meters db)"
    and "\<forall>m. meter_key (f m) = meter_key m \<and> um_period_end (f m) = um_period_end m"
  shows "meters_ok db'"
proof -
  have "map meter_key (update_where p f (pv_meters db)) = map meter_key (pv_meters db)"
    by (rule map_update_where) (simp add: assms(3))
  moreover have "um_period_start (f m) = um_period_start m" for m using assms(3) by (auto simp: meter_key_def)
  ultimately show ?thesis using assms unfolding meters_ok_def assms(2) by (auto intro!: list_all_update_where)
qed

lemma aligned_hour: "(now - now mod hour) mod hour = (0 :: int)"
  by (simp add: mod_diff_right_eq flip: mod_diff_left_eq)

lemma record_usage_meters:
  fixes db :: "'z prov_db_scheme"
  assumes ok: "meters_ok db"
  shows "meters_ok (record_usage cx i ty v md now db)
    \<and> metered org t (pv_meters (record_usage cx i ty v md now db))
      = metered org t (pv_meters db) + (if org = oc_organization_id cx \<and> t = ty then v else 0)"
  using record_usage_rows [of cx now ty db i v md]
proof (elim disjE conjE exE)
  fix f assume key: "(oc_organization_id cx, now - now mod hour, ty) \<in> meter_key ` set (pv_meters db)"
    and rows: "pv_meters (record_usage cx i ty v md now db)
      = update_where (\<lambda>m. meter_key m = (oc_organization_id cx, now - now mod hour, ty)) f (pv_meters db)"
    and f: "\<forall>m. meter_key (f m) = meter_key m \<and> um_value (f m) = um_value m + v \<and> um_period_end (f m) = um_period_end m"
  have "distinct (map meter_key (pv_meters db))" using ok by (simp add: meters_ok_def)
  from metered_update_one [OF this key, of f v org t] f meters_ok_update [OF ok rows] show ?thesis
    by (simp add: rows eq_commute)
next
  fix m assume "(oc_organization_id cx, now - now mod hour, ty) \<notin> meter_key ` set (pv_meters db)"
    and "pv_meters (record_usage cx i ty v md now db) = pv_meters db @ [m]"
    and "meter_key m = (oc_organization_id cx, now - now mod hour, ty)" "um_value m = v" "um_period_end m = um_period_start m + hour"
  with ok aligned_hour show ?thesis by (auto simp: meters_ok_def meter_key_def)
qed

text \<open>What holds after any history: the sums, and values that fit their column and what was accepted.\<close>

definition recorded :: "uuid \<Rightarrow> string \<Rightarrow> usage_call list \<Rightarrow> int" where
  "recorded org ty calls =
     sum_list (map uc_value (filter (\<lambda>c. oc_organization_id (uc_context c) = org \<and> uc_metric c = ty) calls))"

definition magnitude :: "usage_call list \<Rightarrow> int" where
  "magnitude calls = sum_list (map (\<lambda>c. \<bar>uc_value c\<bar>) calls)"

definition meters_inv :: "usage_call list \<times> prov_db \<Rightarrow> bool" where
  "meters_inv s \<longleftrightarrow> meters_ok (snd s) \<and> (\<forall>org ty. metered org ty (pv_meters (snd s)) = recorded org ty (fst s))
     \<and> (\<forall>m \<in> set (pv_meters (snd s)). bigint (um_value m) \<and> \<bar>um_value m\<bar> \<le> magnitude (fst s))"

lemma new_value_update:
  assumes "meters_ok db" and "m \<in> set (pv_meters db)" and "meter_key m = call_key c"
  shows "new_value c db = um_value m + uc_value c"
  using find_unique [of meter_key "pv_meters db" "\<lambda>_. True" "call_key c" m] assms by (simp add: new_value_def meters_ok_def)

lemma new_value_insert:
  fixes db :: "'z prov_db_scheme"
  assumes "call_key c \<notin> meter_key ` set (pv_meters db)"
  shows "new_value c db = uc_value c"
proof (cases "find (\<lambda>m. meter_key m = call_key c) (pv_meters db)")
  case (Some m)
  from find_Some_iff_mem [OF Some] have "call_key c \<in> meter_key ` set (pv_meters db)" by (metis imageI)
  with assms show ?thesis by simp
qed (simp add: new_value_def)

lemma meter_values:
  assumes ok: "meters_ok db" and m: "m' \<in> set (pv_meters (record_usage (uc_context c) i (uc_metric c) (uc_value c) md (uc_now c) db))"
  shows "m' \<in> set (pv_meters db) \<or> um_value m' = new_value c db \<and> (um_value m' = uc_value c
    \<or> (\<exists>m \<in> set (pv_meters db). um_value m' = um_value m + uc_value c))"
  using record_usage_rows [of "uc_context c" "uc_now c" "uc_metric c" db i "uc_value c" md, folded call_key_def]
proof (elim disjE conjE exE)
  fix f assume rows: "pv_meters (record_usage (uc_context c) i (uc_metric c) (uc_value c) md (uc_now c) db)
      = update_where (\<lambda>m. meter_key m = call_key c) f (pv_meters db)"
    and f: "\<forall>m. meter_key (f m) = meter_key m \<and> um_value (f m) = um_value m + uc_value c \<and> um_period_end (f m) = um_period_end m"
  from m obtain r where "r \<in> set (pv_meters db)" "m' = (if meter_key r = call_key c then f r else r)"
    unfolding rows set_update_where by blast
  with f new_value_update [OF ok] show ?thesis by (cases "meter_key r = call_key c") auto
next
  fix r assume "call_key c \<notin> meter_key ` set (pv_meters db)"
    and rows: "pv_meters (record_usage (uc_context c) i (uc_metric c) (uc_value c) md (uc_now c) db) = pv_meters db @ [r]"
    and "um_value r = uc_value c"
  with m new_value_insert [of c db] show ?thesis by auto
qed

lemma meter_do_inv:
  assumes "meters_inv s"
  shows "meters_inv (meter_do c s)"
proof (cases "bigint (new_value c (snd s))")
  case False
  with assms show ?thesis by (simp add: meter_do_def try_record_def)
next
  case True
  let ?db = "record_usage (uc_context c) (uc_id c) (uc_metric c) (uc_value c) (uc_metadata c) (uc_now c) (snd s)"
  have step: "meter_do c s = (c # fst s, ?db)" using True by (simp add: meter_do_def try_record_def)
  have ok: "meters_ok (snd s)" using assms by (simp add: meters_inv_def)
  have old: "0 \<le> magnitude (fst s)" unfolding magnitude_def by (rule sum_list_nonneg) auto
  have "bigint (um_value m) \<and> \<bar>um_value m\<bar> \<le> magnitude (c # fst s)" if "m \<in> set (pv_meters ?db)" for m
    using meter_values [OF ok that] assms True old by (fastforce simp: meters_inv_def magnitude_def)
  then show ?thesis
    using assms record_usage_meters [OF ok] unfolding step by (auto simp: meters_inv_def recorded_def)
qed

interpretation meters: component meter_do meters_inv
  by unfold_locales (rule meter_do_inv)

text \<open>While the values recorded stay below 63 bits in all, no call is refused.\<close>

lemma all_accepted:
  assumes "meters_inv s" and "magnitude (calls @ fst s) < 2 ^ 63"
  shows "fst (fold meter_do calls s) = rev calls @ fst s"
  using assms
proof (induction calls arbitrary: s)
  case (Cons c calls)
  have parts: "magnitude (c # calls @ fst s) = \<bar>uc_value c\<bar> + (magnitude calls + magnitude (fst s))"
    "0 \<le> magnitude calls" "0 \<le> magnitude (fst s)"
    unfolding magnitude_def by (auto intro!: sum_list_nonneg)
  have "\<bar>new_value c (snd s)\<bar> \<le> \<bar>uc_value c\<bar> + magnitude (fst s)"
  proof (cases "find (\<lambda>m. meter_key m = call_key c) (pv_meters (snd s))")
    case None
    then show ?thesis using parts(3) by (simp add: new_value_def)
  next
    case (Some m)
    then have "m \<in> set (pv_meters (snd s))" by (auto dest: find_Some_iff_mem)
    with Cons.prems(1) have "\<bar>um_value m\<bar> \<le> magnitude (fst s)" by (auto simp: meters_inv_def)
    with Some show ?thesis by (simp add: new_value_def)
  qed
  with parts Cons.prems(2) have "\<bar>new_value c (snd s)\<bar> < 2 ^ 63" by simp
  then have "bigint (new_value c (snd s))" unfolding bigint_def by arith
  then have "fst (meter_do c s) = c # fst s" by (simp add: meter_do_def try_record_def)
  moreover have "magnitude (calls @ c # fst s) < 2 ^ 63" using Cons.prems(2) by (simp add: magnitude_def)
  ultimately show ?case using Cons.IH [OF meter_do_inv [OF Cons.prems(1)]] by simp
qed simp

text \<open>
  C27. Metering loses nothing when calls do not overlap. After any \<open>record_usage\<close> calls on an empty table, made
  one after the other, the rows of an organization and a metric add up to the values recorded by the calls that
  were accepted, over all hours; every value fits the 64 bits of its column; and every call is accepted as long
  as the absolute values of all calls add up to less than 2 ^ 63. Calls that overlap lose values, as
  \<open>overlapping_usage_lost\<close> below shows.
\<close>

theorem usage_conserved:
  assumes "pv_meters db = []" and "fold meter_do calls ([], db) = (accepted, db')"
  shows "sum_list (map um_value (filter (\<lambda>m. um_organization_id m = org \<and> um_metric_type m = ty) (pv_meters db')))
      = sum_list (map uc_value (filter (\<lambda>c. oc_organization_id (uc_context c) = org \<and> uc_metric c = ty) accepted))
    \<and> (\<forall>m \<in> set (pv_meters db'). - (2 ^ 63) \<le> um_value m \<and> um_value m < 2 ^ 63)
    \<and> (sum_list (map (\<lambda>c. \<bar>uc_value c\<bar>) calls) < 2 ^ 63 \<longrightarrow> accepted = rev calls)"
proof -
  have start: "meters_inv ([], db)" using assms(1) by (simp add: meters_inv_def meters_ok_def recorded_def)
  from meters.run_inv [OF this, of calls] have "meters_inv (accepted, db')" unfolding assms(2) .
  then show ?thesis using all_accepted [OF start, of calls] assms(2)
    by (auto simp: meters_inv_def metered_def recorded_def bigint_def magnitude_def)
qed

text \<open>
  Two calls that overlap: the second is made between the read and the write of the first, which writes the value
  it read with its own added. What the second recorded is gone.
\<close>

definition write_value :: "uuid \<times> datetime \<times> string \<Rightarrow> int \<Rightarrow> 'z prov_db_scheme \<Rightarrow> 'z prov_db_scheme" where
  "write_value k w db =
     db\<lparr> pv_meters := update_where (\<lambda>m. meter_key m = k) (um_value_update (\<lambda>_. w)) (pv_meters db) \<rparr>"

lemma overlapping_usage_lost:
  fixes db :: "'z prov_db_scheme"
  assumes ok: "meters_ok db" and row: "m \<in> set (pv_meters db)" "meter_key m = (oc_organization_id cx, now - now mod hour, ty)"
  shows "metered (oc_organization_id cx) ty (pv_meters (write_value (meter_key m) (um_value m + first)
      (record_usage cx i ty second None now db))) = metered (oc_organization_id cx) ty (pv_meters db) + first"
proof -
  from record_usage_rows [of cx now ty db i second None] row(1) obtain f where
    rows: "pv_meters (record_usage cx i ty second None now db) = update_where (\<lambda>x. meter_key x = meter_key m) f (pv_meters db)"
    and f: "\<And>x. meter_key (f x) = meter_key x \<and> um_value (f x) = um_value x + second \<and> um_period_end (f x) = um_period_end x"
    unfolding row(2) [symmetric] by blast
  let ?g = "\<lambda>x. (f x)\<lparr> um_value := um_value x + first \<rparr>"
  have key: "meter_key (x\<lparr> um_value := w \<rparr>) = meter_key x" for x :: meter_row and w by (simp add: meter_key_def)
  have only: "x = m" if "x \<in> set (pv_meters db)" "meter_key x = meter_key m" for x
    using ok that row(1) by (auto simp: meters_ok_def dest: distinct_map_eq)
  have "update_where (\<lambda>x. meter_key x = meter_key m) (um_value_update (\<lambda>_. um_value m + first))
      (update_where (\<lambda>x. meter_key x = meter_key m) f (pv_meters db))
    = update_where (\<lambda>x. meter_key x = meter_key m) ?g (pv_meters db)"
    unfolding update_where_def map_map comp_apply using only f by (intro map_cong) auto
  moreover have "(oc_organization_id cx, now - now mod hour, ty) \<in> meter_key ` set (pv_meters db)"
    using row by (metis imageI)
  moreover have "distinct (map meter_key (pv_meters db))" using ok by (simp add: meters_ok_def)
  ultimately show ?thesis
    using metered_update_one [of "pv_meters db" "oc_organization_id cx" "now - now mod hour" ty ?g first "oc_organization_id cx" ty]
    by (simp add: write_value_def rows row(2) key f)
qed

definition METER_DB :: prov_db where
  "METER_DB = \<lparr> od_actors = [], od_operations = [], pv_events = [], pv_subscriptions = [], pv_meters = [], pv_quotas = [] \<rparr>"

definition METER_CX :: org_context where
  "METER_CX = \<lparr> oc_auth_identity_id = 1, oc_actor_id = 2, oc_organization_id = 3, oc_session_id = 4,
     oc_platform_role = PlatformNone, oc_membership_role = OrgMember \<rparr>"

definition meter_call :: "uuid \<Rightarrow> int \<Rightarrow> datetime \<Rightarrow> usage_call" where
  "meter_call i v now = \<lparr> uc_context = METER_CX, uc_id = i, uc_metric = ''api_calls'', uc_value = v, uc_metadata = None, uc_now = now \<rparr>"

theorem usage_conserved_witness:
  "sum_list (map um_value (filter (\<lambda>m. um_organization_id m = 3 \<and> um_metric_type m = ''api_calls'')
     (pv_meters (snd (fold meter_do [meter_call 1 5 10, meter_call 2 7 20, meter_call 3 2 7200000000] ([], METER_DB)))))) = 14"
proof -
  let ?calls = "[meter_call 1 5 10, meter_call 2 7 20, meter_call 3 2 7200000000]"
  have "pv_meters METER_DB = []" by (simp add: METER_DB_def)
  from usage_conserved [OF this prod.collapse [symmetric], where calls = ?calls and org = 3 and ty = "''api_calls''"]
  show ?thesis by (simp add: meter_call_def METER_CX_def)
qed

text \<open>
  Without an end, the summary ends now: the hour that has begun is not in it, so what is recorded now
  shows in no default summary before the hour is over.
\<close>

lemma summary_misses_current_hour:
  fixes db :: "'z prov_db_scheme"
  assumes ok: "meters_ok db" and now: "t < now - now mod hour + hour"
  shows "get_usage_summary t cx since None (record_usage cx i ty v md now db) = get_usage_summary t cx since None db"
proof -
  let ?q = "\<lambda>from_t m. um_organization_id m = oc_organization_id cx \<and> in_window (Some from_t) (Some t) m"
  let ?hit = "\<lambda>m. um_organization_id m = oc_organization_id cx \<and> um_period_start m = now - now mod hour \<and> um_metric_type m = ty"
  have late: "filter (?q from_t) (update_where ?hit f ms) = filter (?q from_t) ms"
    if "list_all (\<lambda>m. um_period_end m = um_period_start m + hour) ms" and "\<And>m. um_period_end (f m) = um_period_end m"
    for from_t f ms
    using that by (induction ms) (use now in \<open>auto simp: update_where_def in_window_def\<close>)
  have "filter (?q from_t) (pv_meters (record_usage cx i ty v md now db)) = filter (?q from_t) (pv_meters db)" for from_t
  proof (cases "list_ex ?hit (pv_meters db)")
    case True
    have "list_all (\<lambda>m. um_period_end m = um_period_start m + hour) (pv_meters db)"
      using ok by (simp add: meters_ok_def list_all_iff)
    with True show ?thesis unfolding record_usage_def Let_def by (simp add: late)
  next
    case False
    with now show ?thesis unfolding record_usage_def Let_def by (simp add: in_window_def)
  qed
  then show ?thesis unfolding get_usage_summary_def Let_def by simp
qed

text \<open>The total of a metric in a summary is the sum of the rows that lie in its window.\<close>

lemma summary_total:
  "map_of (us_metrics (get_usage_summary now cx since until db)) ty =
     (let s = get_usage_summary now cx since until db;
          rows = filter (\<lambda>m. um_organization_id m = oc_organization_id cx \<and> us_period_start s \<le> um_period_start m
            \<and> um_period_end m \<le> us_period_end s \<and> um_metric_type m = ty) (pv_meters db)
      in if rows = [] then None else Some (sum_list (map um_value rows)))"
proof -
  have *: "map_of (map (\<lambda>t. (t, f t)) ts) ty = (if ty \<in> set ts then Some (f ty) else None)" for f :: "string \<Rightarrow> int" and ts
    by (induction ts) auto
  show ?thesis
    by (auto simp: get_usage_summary_def Let_def * in_window_def filter_empty_conv conj_ac intro!: arg_cong [where f = sum_list])
qed

end
