(* ===== verification/ExitNodes.thy ===== *)
theory ExitNodes
  imports Tenancy "HOL-Library.List_Lexorder" "HOL-Library.Char_ord"
begin

text \<open>
  The residential exit nodes of \<^verbatim>\<open>subsystems/xiogrid\<close>: \<^verbatim>\<open>domain/pppoe.py\<close>, the slot service of
  \<^verbatim>\<open>services/pppoe_nodes.py\<close>, the tickers \<^verbatim>\<open>worker/pppoe_health.py\<close> and \<^verbatim>\<open>worker/pppoe_warmpool.py\<close>, and the
  teardown of \<^verbatim>\<open>services/mass_teardown.py\<close>, over the tables of \<^verbatim>\<open>models/exit_node.py\<close> and
  \<^verbatim>\<open>models/account_binding.py\<close>.

  Parameters: what the scripts on the virtual machine of a host answer (\<open>vm\<close>, None where the call raises,
  as on a timeout), the rows other transactions have locked, the order \<open>tie\<close> of rows that a query leaves
  unsorted, the clock and fresh identifiers. The parallel batch calls, which share one database session
  between threads, are not modelled; neither are pauses and logging.
\<close>

section \<open>Slots\<close>

text \<open>The members of \<open>PPPoESlotState\<close> are the strings of the column.\<close>

abbreviation CONNECTING :: string where "CONNECTING \<equiv> ''connecting''"
abbreviation IDLE :: string where "IDLE \<equiv> ''idle''"
abbreviation ASSIGNED :: string where "ASSIGNED \<equiv> ''assigned''"
abbreviation RECONNECTING :: string where "RECONNECTING \<equiv> ''reconnecting''"
abbreviation DOWN :: string where "DOWN \<equiv> ''down''"
abbreviation DESTROYED :: string where "DESTROYED \<equiv> ''destroyed''"

definition SLOT_STATES :: "string list" where
  "SLOT_STATES = [CONNECTING, IDLE, ASSIGNED, RECONNECTING, DOWN, DESTROYED]"

definition SLOT_PROFILE_RANGES :: "(int \<times> int \<times> string) list" where
  "SLOT_PROFILE_RANGES =
     [(0, 199, ''Mac M4 Pro''), (200, 349, ''Mac M2 Air''), (350, 449, ''Mac M1 Pro''),
      (450, 649, ''Windows 11 Intel i7''), (650, 749, ''Windows 11 AMD Ryzen''),
      (750, 849, ''Linux Ubuntu x86''), (850, 899, ''ChromeOS x86''), (900, 980, ''Android Samsung S23'')]"

fun profile_in :: "int \<Rightarrow> (int \<times> int \<times> string) list \<Rightarrow> string" where
  "profile_in slot [] = ''Linux Ubuntu x86''"
| "profile_in slot ((lo, hi, name) # rs) = (if lo \<le> slot \<and> slot \<le> hi then name else profile_in slot rs)"

definition profile_name_for_slot :: "int \<Rightarrow> string" where
  "profile_name_for_slot slot = profile_in slot SLOT_PROFILE_RANGES"

section \<open>Tables\<close>

record exit_host =
  eh_id :: uuid
  eh_name :: string
  eh_description :: string
  eh_ssh_user :: string
  eh_ssh_host :: string
  eh_ssh_port :: int
  eh_scripts_dir :: string
  eh_parent_iface :: string
  eh_username :: string
  eh_password :: string
  eh_mac_oui :: string
  eh_ts_ip :: "string option"
  eh_max_slots :: int
  eh_warm_pool_target :: int
  eh_state :: string
  eh_registered_at :: datetime
  eh_last_seen :: "datetime option"
  eh_meta :: "(string \<times> pyval) list"

record fp_profile =
  fp_id :: uuid
  fp_name :: string
  fp_os :: string
  fp_cores :: int
  fp_ram_gb :: int
  fp_webgl_renderer :: string
  fp_platform :: string
  fp_ch_platform :: string
  fp_ch_version :: string
  fp_ch_arch :: string
  fp_screen_width :: int
  fp_screen_height :: int
  fp_dpr :: rat
  fp_cam_name :: string
  fp_is_mobile :: bool
  fp_ua_template :: string
  fp_canvas_seed :: int
  fp_audio_seed :: int
  fp_timezone :: string
  fp_battery_level :: rat
  fp_connection_type :: string

record exit_node =
  en_id :: uuid
  en_host_id :: uuid
  en_profile_id :: uuid
  en_slot :: int
  en_state :: string
  en_public_ip :: "string option"
  en_cgnat_ip :: "string option"
  en_public_ipv6 :: "string option"
  en_ipv6_prefix :: "string option"
  en_worker :: "string option"
  en_worker_v6 :: "string option"
  en_session :: "string option"
  en_assigned_at :: "datetime option"
  en_last_seen :: "datetime option"
  en_last_health_check :: "datetime option"
  en_reconnects :: int
  en_served :: int
  en_proxy_url :: "string option"
  en_proxy_port :: "int option"
  en_proxy_state :: "string option"

record ip_binding =
  ib_organization_id :: uuid
  ib_account :: string
  ib_host_id :: uuid
  ib_slot :: int
  ib_last_used_at :: "datetime option"
  ib_total_sessions :: int
  ib_last_ip :: "string option"
  ib_last_ipv6 :: "string option"

record grid_db =
  g_hosts :: "exit_host list"
  g_profiles :: "fp_profile list"
  g_nodes :: "exit_node list"
  g_bindings :: "ip_binding list"

datatype grid_error =
    HostNotFound uuid
  | HostNotActive uuid string
  | SlotOutOfRange int int
  | SlotInState int string
  | VmFailed
  | MalformedOutput
  | ProfileNotSeeded string
  | SlotNotInDb uuid int
  | SlotNotIdle int string
  | NoActiveHosts
  | SlotsExhausted uuid
  | OrganizationRequired

text \<open>\<open>vm_script\<close>: the output and whether the exit status is 0; None where the call itself raises.\<close>

record ssh_result =
  sh_stdout :: string
  sh_ok :: bool

type_synonym vm_scripts = "exit_host \<Rightarrow> string \<Rightarrow> string list \<Rightarrow> ssh_result option"

definition require_ok :: "ssh_result option \<Rightarrow> grid_error + ssh_result" where
  "require_ok r = (case r of None \<Rightarrow> Inl VmFailed | Some s \<Rightarrow> if sh_ok s then Inr s else Inl VmFailed)"

definition find_host :: "uuid \<Rightarrow> grid_db \<Rightarrow> exit_host option" where
  "find_host h db = find (\<lambda>x. eh_id x = h) (g_hosts db)"

definition get_host :: "uuid \<Rightarrow> grid_db \<Rightarrow> grid_error + exit_host" where
  "get_host h db =
     (case find_host h db of
        None \<Rightarrow> Inl (HostNotFound h)
      | Some x \<Rightarrow> if eh_state x \<noteq> ''active'' then Inl (HostNotActive h (eh_state x)) else Inr x)"

definition at_slot :: "uuid \<Rightarrow> int \<Rightarrow> exit_node \<Rightarrow> bool" where
  "at_slot h slot n \<longleftrightarrow> en_host_id n = h \<and> en_slot n = slot"

definition find_node :: "uuid \<Rightarrow> int \<Rightarrow> grid_db \<Rightarrow> exit_node option" where
  "find_node h slot db = find (at_slot h slot) (g_nodes db)"

definition get_node :: "uuid \<Rightarrow> int \<Rightarrow> grid_db \<Rightarrow> grid_error + exit_node" where
  "get_node h slot db = (case find_node h slot db of None \<Rightarrow> Inl (SlotNotInDb h slot) | Some n \<Rightarrow> Inr n)"

definition set_node :: "uuid \<Rightarrow> int \<Rightarrow> (exit_node \<Rightarrow> exit_node) \<Rightarrow> grid_db \<Rightarrow> grid_db" where
  "set_node h slot f db = db\<lparr> g_nodes := update_where (at_slot h slot) f (g_nodes db) \<rparr>"

text \<open>A text that is None or empty is false.\<close>

definition filled :: "string option \<Rightarrow> bool" where
  "filled s \<longleftrightarrow> s \<noteq> None \<and> s \<noteq> Some []"

section \<open>The snapshot of a slot\<close>

function replace_all :: "string \<Rightarrow> string \<Rightarrow> string \<Rightarrow> string" where
  "replace_all p r [] = []"
| "replace_all p r (c # cs) =
     (if p \<noteq> [] \<and> starts_with (c # cs) p then r @ replace_all p r (drop (length p - 1) cs)
      else c # replace_all p r cs)"
  by pat_completeness auto
termination by (relation "measure (\<lambda>(_, _, s). length s)") auto

definition CHROME_VERSION :: string where "CHROME_VERSION = ''131.0.6778.204''"

definition fingerprint_of :: "fp_profile \<Rightarrow> (string \<times> pyval) list" where
  "fingerprint_of p =
     [(''os'', PStr (fp_os p)), (''cores'', PInt (fp_cores p)), (''ram'', PInt (fp_ram_gb p)),
      (''webgl_renderer'', PStr (fp_webgl_renderer p)), (''macos_version'', PStr (fp_ch_version p)),
      (''width'', PInt (fp_screen_width p)), (''height'', PInt (fp_screen_height p)), (''dpr'', PFloat (fp_dpr p)),
      (''platform'', PStr (fp_platform p)), (''ch_platform'', PStr (fp_ch_platform p)), (''ch_arch'', PStr (fp_ch_arch p)),
      (''cam_name'', PStr (fp_cam_name p)), (''is_mobile'', PBool (fp_is_mobile p)),
      (''ua_template'', PStr (replace_all ''{cv}'' CHROME_VERSION (fp_ua_template p))),
      (''canvas_seed'', PInt (fp_canvas_seed p)), (''audio_seed'', PInt (fp_audio_seed p)),
      (''timezone'', PStr (fp_timezone p)), (''battery_level'', PFloat (fp_battery_level p)),
      (''connection_type'', PStr (fp_connection_type p))]"

record slot_record =
  lr_node :: exit_node
  lr_host_name :: string
  lr_profile_name :: string
  lr_fingerprint :: "(string \<times> pyval) list option"

definition profile_by_id :: "uuid \<Rightarrow> grid_db \<Rightarrow> fp_profile option" where
  "profile_by_id i db = find (\<lambda>p. fp_id p = i) (g_profiles db)"

definition to_record :: "exit_node \<Rightarrow> exit_host \<Rightarrow> fp_profile option \<Rightarrow> slot_record" where
  "to_record n h p =
     \<lparr> lr_node = n, lr_host_name = eh_name h,
       lr_profile_name = (case p of None \<Rightarrow> ''unknown'' | Some q \<Rightarrow> fp_name q),
       lr_fingerprint = map_option fingerprint_of p \<rparr>"

section \<open>Provisioning\<close>

text \<open>What \<open>create-slot.sh\<close> prints: state, addresses and proxy; a missing or void word is None.\<close>

definition word_at :: "nat \<Rightarrow> string list \<Rightarrow> string list \<Rightarrow> string option" where
  "word_at i void parts = (if length parts > i \<and> parts ! i \<notin> set void then Some (parts ! i) else None)"

definition proxy_port_of :: "string option \<Rightarrow> grid_error + int option" where
  "proxy_port_of url =
     (if \<not> filled url then Inr None
      else case py_int (last (split_on CHR '':'' (the url))) of None \<Rightarrow> Inl MalformedOutput | Some p \<Rightarrow> Inr (Some p))"

definition prefix_of :: "string \<Rightarrow> string option" where
  "prefix_of v6 = (case rsplit1 CHR '':'' v6 of None \<Rightarrow> None | Some (a, _) \<Rightarrow> Some (a @ ''::/64''))"

text \<open>The columns that a provisioned slot gets from the words of the script.\<close>

definition created_row :: "datetime \<Rightarrow> string list \<Rightarrow> int option \<Rightarrow> uuid \<Rightarrow> exit_node \<Rightarrow> exit_node" where
  "created_row now parts port profile n =
     (let v6 = word_at 4 [''none''] parts; url = word_at 3 [''none'', ''unknown''] parts
      in n\<lparr> en_state := (if parts \<noteq> [] \<and> parts ! 0 = ''up'' then IDLE else CONNECTING),
            en_public_ip := word_at 1 [''unknown''] parts, en_cgnat_ip := word_at 2 [''unknown''] parts,
            en_profile_id := profile, en_last_seen := Some now, en_proxy_url := url, en_proxy_port := port,
            en_proxy_state := (if filled url then Some ''running'' else None), en_public_ipv6 := v6,
            en_ipv6_prefix := (if filled v6 then prefix_of (the v6) else en_ipv6_prefix n) \<rparr>)"

definition blank_node :: "uuid \<Rightarrow> uuid \<Rightarrow> int \<Rightarrow> exit_node" where
  "blank_node i h slot =
     \<lparr> en_id = i, en_host_id = h, en_profile_id = 0, en_slot = slot, en_state = DOWN, en_public_ip = None,
       en_cgnat_ip = None, en_public_ipv6 = None, en_ipv6_prefix = None, en_worker = None, en_worker_v6 = None,
       en_session = None, en_assigned_at = None, en_last_seen = None, en_last_health_check = None,
       en_reconnects = 0, en_served = 0, en_proxy_url = None, en_proxy_port = None, en_proxy_state = None \<rparr>"

text \<open>
  Migration \<^verbatim>\<open>f1a2b3c4d5e6\<close> gives the table an \<^verbatim>\<open>organization_id\<close> that is NOT NULL and has no default. The mapped
  class has no such column, so that an INSERT leaves it out: the database refuses every new row, after the script
  has made the slot on the machine. The rows there are come from before the migration, which filled them in.
\<close>

definition insert_node :: "exit_node \<Rightarrow> grid_db \<Rightarrow> grid_error + grid_db" where
  "insert_node n db = Inl OrganizationRequired"

definition provision_slot ::
  "vm_scripts \<Rightarrow> datetime \<Rightarrow> uuid \<Rightarrow> uuid \<Rightarrow> int \<Rightarrow> grid_db \<Rightarrow> grid_error + slot_record \<times> grid_db" where
  "provision_slot vm now new_id h slot db =
     rbind (get_host h db) (\<lambda>host.
       if \<not> (0 \<le> slot \<and> slot < eh_max_slots host) then Inl (SlotOutOfRange slot (eh_max_slots host - 1))
       else if (case find_node h slot db of None \<Rightarrow> False | Some n \<Rightarrow> en_state n \<notin> {DOWN, DESTROYED})
       then Inl (SlotInState slot (en_state (the (find_node h slot db))))
       else
         rbind (require_ok (vm host ''create-slot.sh'' [int_str slot])) (\<lambda>result.
         rbind (proxy_port_of (word_at 3 [''none'', ''unknown''] (split_ws (sh_stdout result)))) (\<lambda>port.
         case find (\<lambda>p. fp_name p = profile_name_for_slot slot) (g_profiles db) of
           None \<Rightarrow> Inl (ProfileNotSeeded (profile_name_for_slot slot))
         | Some profile \<Rightarrow>
             let f = created_row now (split_ws (sh_stdout result)) port (fp_id profile)
             in (case find_node h slot db of
                  Some n \<Rightarrow> Inr (to_record (f n) host (Some profile), set_node h slot f db)
                | None \<Rightarrow>
                    rbind (insert_node (f (blank_node new_id h slot)) db)
                      (\<lambda>db'. Inr (to_record (f (blank_node new_id h slot)) host (Some profile), db'))))))"

definition destroy_row :: "exit_node \<Rightarrow> exit_node" where
  "destroy_row n = n\<lparr> en_state := DESTROYED, en_public_ip := None, en_cgnat_ip := None, en_proxy_url := None,
     en_proxy_port := None, en_proxy_state := None, en_worker := None, en_session := None, en_assigned_at := None \<rparr>"

definition destroy_slot :: "vm_scripts \<Rightarrow> uuid \<Rightarrow> int \<Rightarrow> grid_db \<Rightarrow> grid_error + grid_db" where
  "destroy_slot vm h slot db =
     rbind (get_host h db) (\<lambda>host.
       case vm host ''stop-proxy.sh'' [int_str slot] of
         None \<Rightarrow> Inl VmFailed
       | Some _ \<Rightarrow>
           rbind (require_ok (vm host ''destroy-slot.sh'' [int_str slot])) (\<lambda>_. Inr (set_node h slot destroy_row db)))"

section \<open>Assignment\<close>

definition route_args :: "string \<Rightarrow> int \<Rightarrow> string option \<Rightarrow> string list" where
  "route_args worker slot v6 = [worker, int_str slot] @ (if filled v6 then [the v6] else [])"

definition assign_row :: "datetime \<Rightarrow> string \<Rightarrow> string \<Rightarrow> string option \<Rightarrow> exit_node \<Rightarrow> exit_node" where
  "assign_row now worker session v6 n =
     n\<lparr> en_state := ASSIGNED, en_worker := Some worker, en_worker_v6 := v6, en_session := Some session,
        en_assigned_at := Some now, en_served := en_served n + 1 \<rparr>"

definition assign_to_worker ::
  "vm_scripts \<Rightarrow> datetime \<Rightarrow> uuid \<Rightarrow> int \<Rightarrow> string \<Rightarrow> string \<Rightarrow> string option \<Rightarrow> grid_db
   \<Rightarrow> grid_error + slot_record \<times> grid_db" where
  "assign_to_worker vm now h slot worker session v6 db =
     rbind (get_host h db) (\<lambda>host.
     rbind (get_node h slot db) (\<lambda>n.
       if en_state n \<noteq> IDLE then Inl (SlotNotIdle slot (en_state n))
       else
         rbind (require_ok (vm host ''assign-route.sh'' (route_args worker slot v6))) (\<lambda>_.
           let f = assign_row now worker session v6
           in Inr (to_record (f n) host (profile_by_id (en_profile_id n) db), set_node h slot f db))))"

definition unassign :: "exit_node \<Rightarrow> exit_node" where
  "unassign n = n\<lparr> en_worker := None, en_worker_v6 := None, en_session := None, en_assigned_at := None \<rparr>"

definition release_from_worker ::
  "vm_scripts \<Rightarrow> uuid \<Rightarrow> int \<Rightarrow> grid_db \<Rightarrow> grid_error + slot_record \<times> grid_db" where
  "release_from_worker vm h slot db =
     rbind (get_host h db) (\<lambda>host.
     rbind (get_node h slot db) (\<lambda>n.
       let f = (\<lambda>n. (unassign n)\<lparr> en_state := IDLE \<rparr>);
           released = (to_record (f n) host (profile_by_id (en_profile_id n) db), set_node h slot f db)
       in if filled (en_worker n)
          then (case vm host ''release-route.sh'' (route_args (the (en_worker n)) slot (en_worker_v6 n)) of
                  None \<Rightarrow> Inl VmFailed | Some _ \<Rightarrow> Inr released)
          else Inr released))"

section \<open>Acquiring\<close>

definition is_binding :: "uuid \<Rightarrow> string \<Rightarrow> ip_binding \<Rightarrow> bool" where
  "is_binding org account b \<longleftrightarrow> ib_organization_id b = org \<and> ib_account b = account"

definition find_binding :: "uuid \<Rightarrow> string \<Rightarrow> grid_db \<Rightarrow> ip_binding option" where
  "find_binding org account db = find (is_binding org account) (g_bindings db)"

text \<open>A use of the binding: its slot, the addresses of the node there, the time, one session more.\<close>

definition use_binding ::
  "datetime \<Rightarrow> uuid \<Rightarrow> int \<Rightarrow> string option \<Rightarrow> string option \<Rightarrow> ip_binding \<Rightarrow> ip_binding" where
  "use_binding now h slot ip v6 b =
     b\<lparr> ib_host_id := h, ib_slot := slot, ib_last_used_at := Some now, ib_total_sessions := ib_total_sessions b + 1,
        ib_last_ip := ip, ib_last_ipv6 := v6 \<rparr>"

definition set_binding :: "uuid \<Rightarrow> string \<Rightarrow> (ip_binding \<Rightarrow> ip_binding) \<Rightarrow> grid_db \<Rightarrow> grid_db" where
  "set_binding org account f db = db\<lparr> g_bindings := update_where (is_binding org account) f (g_bindings db) \<rparr>"

text \<open>
  A call may raise after it has changed rows of the session, and a caller may catch the exception, so the
  result of a raise carries the rows too.
\<close>

definition kept :: "grid_db \<Rightarrow> grid_error + 'a \<times> grid_db \<Rightarrow> (grid_error + 'a) \<times> grid_db" where
  "kept db r = (case r of Inl e \<Rightarrow> (Inl e, db) | Inr (x, db') \<Rightarrow> (Inr x, db'))"

definition rotated_row :: "datetime \<Rightarrow> string \<Rightarrow> exit_node \<Rightarrow> exit_node" where
  "rotated_row now ip n =
     n\<lparr> en_public_ip := Some ip, en_state := IDLE, en_reconnects := en_reconnects n + 1, en_last_seen := Some now \<rparr>"

definition try_assign ::
  "vm_scripts \<Rightarrow> datetime \<Rightarrow> uuid \<Rightarrow> int \<Rightarrow> string \<Rightarrow> string \<Rightarrow> string option \<Rightarrow> grid_db \<Rightarrow> slot_record option \<times> grid_db" where
  "try_assign vm now h slot worker session v6 db =
     (case assign_to_worker vm now h slot worker session v6 db of Inl _ \<Rightarrow> (None, db) | Inr (r, db') \<Rightarrow> (Some r, db'))"

text \<open>Rotating the bound slot, in a \<open>try\<close>: None goes on with what the attempt left.\<close>

definition rotate_bound ::
  "vm_scripts \<Rightarrow> datetime \<Rightarrow> uuid \<Rightarrow> string \<Rightarrow> uuid \<Rightarrow> int \<Rightarrow> string \<Rightarrow> string \<Rightarrow> string option \<Rightarrow> grid_db
   \<Rightarrow> slot_record option \<times> grid_db" where
  "rotate_bound vm now org account h slot worker session v6 db =
     (case get_host h db of
        Inl _ \<Rightarrow> (None, db)
      | Inr host \<Rightarrow>
          (case (find_node h slot db, vm host ''rotate-slot.sh'' [int_str slot]) of
             (Some n, Some result) \<Rightarrow>
               let parts = (if sh_ok result then split_ws (sh_stdout result) else [])
               in if length parts > 1 \<and> parts ! 0 = ''up''
                  then
                    try_assign vm now h slot worker session v6
                      (set_binding org account (use_binding now h slot (Some (parts ! 1)) (en_public_ipv6 n))
                        (set_node h slot (rotated_row now (parts ! 1)) db))
                  else (None, db)
           | _ \<Rightarrow> (None, db)))"

definition matching_node :: "(exit_node \<Rightarrow> nat) \<Rightarrow> ip_binding \<Rightarrow> grid_db \<Rightarrow> exit_node option" where
  "matching_node tie b db =
     (case sort_key tie (filter (\<lambda>n. en_state n = IDLE
         \<and> (filled (ib_last_ip b) \<and> en_public_ip n = ib_last_ip b
            \<or> filled (ib_last_ipv6 b) \<and> en_public_ipv6 n = ib_last_ipv6 b)) (g_nodes db)) of
        [] \<Rightarrow> None | n # _ \<Rightarrow> Some n)"

text \<open>The sticky part; None falls through to the pick of an idle slot.\<close>

definition acquire_match ::
  "vm_scripts \<Rightarrow> (exit_node \<Rightarrow> nat) \<Rightarrow> datetime \<Rightarrow> uuid \<Rightarrow> string \<Rightarrow> string \<Rightarrow> string \<Rightarrow> string option \<Rightarrow> grid_db
   \<Rightarrow> (grid_error + slot_record) option \<times> grid_db" where
  "acquire_match vm tie now org account worker session v6 db =
     (case find_binding org account db of
        None \<Rightarrow> (None, db)
      | Some b \<Rightarrow>
          (case matching_node tie b db of
             None \<Rightarrow> (None, db)
           | Some n \<Rightarrow>
               let db1 = set_binding org account (use_binding now (en_host_id n) (en_slot n) (en_public_ip n) (en_public_ipv6 n)) db;
                   (r, db2) = kept db1 (assign_to_worker vm now (en_host_id n) (en_slot n) worker session v6 db1)
               in (Some r, db2)))"

definition acquire_bound ::
  "vm_scripts \<Rightarrow> (exit_node \<Rightarrow> nat) \<Rightarrow> datetime \<Rightarrow> uuid \<Rightarrow> string \<Rightarrow> string \<Rightarrow> string \<Rightarrow> string option \<Rightarrow> grid_db
   \<Rightarrow> (grid_error + slot_record) option \<times> grid_db" where
  "acquire_bound vm tie now org account worker session v6 db =
     (case find_binding org account db of
        None \<Rightarrow> (None, db)
      | Some b \<Rightarrow>
          let h = ib_host_id b; slot = ib_slot b
          in case find_node h slot db of
               None \<Rightarrow> acquire_match vm tie now org account worker session v6 db
             | Some n \<Rightarrow>
                 if en_state n \<notin> {DESTROYED, DOWN}
                 then
                   let db1 = set_binding org account (use_binding now h slot (en_public_ip n) (en_public_ipv6 n)) db;
                       (r, db2) = kept db1 (assign_to_worker vm now h slot worker session v6 db1)
                   in (Some r, db2)
                 else
                   (case rotate_bound vm now org account h slot worker session v6 db of
                      (Some r, db1) \<Rightarrow> (Some (Inr r), db1)
                    | (None, db1) \<Rightarrow> acquire_match vm tie now org account worker session v6 db1))"

text \<open>The least recently seen idle node of an active host, the preferred host first; locked rows are skipped.\<close>

definition seen_key :: "exit_node \<Rightarrow> int \<times> datetime" where
  "seen_key n = (case en_last_seen n of None \<Rightarrow> (0, 0) | Some t \<Rightarrow> (1, t))"

definition pick_idle_node ::
  "(exit_node \<Rightarrow> nat) \<Rightarrow> uuid set \<Rightarrow> uuid option \<Rightarrow> grid_db \<Rightarrow> exit_node option" where
  "pick_idle_node tie locked preferred db =
     (case sort_key (\<lambda>n. if preferred = None \<or> preferred = Some (en_host_id n) then 0 else (1 :: nat))
         (sort_key (\<lambda>n. snd (seen_key n)) (sort_key (\<lambda>n. fst (seen_key n)) (sort_key tie
           (filter (\<lambda>n. en_state n = IDLE \<and> en_id n \<notin> locked
              \<and> (case find_host (en_host_id n) db of None \<Rightarrow> False | Some h \<Rightarrow> eh_state h = ''active'')) (g_nodes db))))) of
        [] \<Rightarrow> None | n # _ \<Rightarrow> Some n)"

definition next_free_slot :: "uuid \<Rightarrow> grid_db \<Rightarrow> grid_error + int" where
  "next_free_slot h db =
     (case find_host h db of
        None \<Rightarrow> Inl (HostNotFound h)
      | Some host \<Rightarrow>
          (case find (\<lambda>s. s \<notin> en_slot ` set (filter (\<lambda>n. en_host_id n = h \<and> en_state n \<noteq> DESTROYED) (g_nodes db)))
              [0..eh_max_slots host - 1] of
             None \<Rightarrow> Inl (SlotsExhausted h) | Some s \<Rightarrow> Inr s))"

definition acquire_fresh ::
  "vm_scripts \<Rightarrow> (exit_node \<Rightarrow> nat) \<Rightarrow> (exit_host \<Rightarrow> nat) \<Rightarrow> uuid set \<Rightarrow> datetime \<Rightarrow> uuid \<Rightarrow> uuid option \<Rightarrow> string \<Rightarrow> string
   \<Rightarrow> string option \<Rightarrow> grid_db \<Rightarrow> (grid_error + slot_record) \<times> grid_db" where
  "acquire_fresh vm tie htie locked now new_id preferred worker session v6 db =
     (case pick_idle_node tie locked preferred db of
        Some n \<Rightarrow> kept db (assign_to_worker vm now (en_host_id n) (en_slot n) worker session v6 db)
      | None \<Rightarrow>
          (case sort_key htie (filter (\<lambda>h. eh_state h = ''active'') (g_hosts db)) of
             [] \<Rightarrow> (Inl NoActiveHosts, db)
           | host # _ \<Rightarrow>
               (case next_free_slot (eh_id host) db of
                  Inl e \<Rightarrow> (Inl e, db)
                | Inr slot \<Rightarrow>
                    (case provision_slot vm now new_id (eh_id host) slot db of
                       Inl e \<Rightarrow> (Inl e, db)
                     | Inr (_, db1) \<Rightarrow> kept db1 (assign_to_worker vm now (eh_id host) slot worker session v6 db1)))))"

definition bind_account :: "datetime \<Rightarrow> uuid \<Rightarrow> string \<Rightarrow> slot_record \<Rightarrow> grid_db \<Rightarrow> grid_db" where
  "bind_account now org account r db =
     (let n = lr_node r; use = use_binding now (en_host_id n) (en_slot n) (en_public_ip n) (en_public_ipv6 n)
      in case find_binding org account db of
           None \<Rightarrow> db\<lparr> g_bindings := g_bindings db @
             [use \<lparr> ib_organization_id = org, ib_account = account, ib_host_id = en_host_id n, ib_slot = en_slot n,
                ib_last_used_at = None, ib_total_sessions = 0, ib_last_ip = None, ib_last_ipv6 = None \<rparr>] \<rparr>
         | Some _ \<Rightarrow> set_binding org account use db)"

definition acquire_any ::
  "vm_scripts \<Rightarrow> (exit_node \<Rightarrow> nat) \<Rightarrow> (exit_host \<Rightarrow> nat) \<Rightarrow> uuid set \<Rightarrow> datetime \<Rightarrow> uuid \<Rightarrow> org_context \<Rightarrow> string \<Rightarrow> string
   \<Rightarrow> uuid option \<Rightarrow> string option \<Rightarrow> string option \<Rightarrow> grid_db \<Rightarrow> (grid_error + slot_record) \<times> grid_db" where
  "acquire_any vm tie htie locked now new_id cx session worker preferred account v6 db =
     (let org = oc_organization_id cx;
          (sticky, db1) = (if filled account then acquire_bound vm tie now org (the account) worker session v6 db else (None, db))
      in case sticky of
           Some r \<Rightarrow> (r, db1)
         | None \<Rightarrow>
             (case acquire_fresh vm tie htie locked now new_id preferred worker session v6 db1 of
                (Inl e, db2) \<Rightarrow> (Inl e, db2)
              | (Inr r, db2) \<Rightarrow> (Inr r, if filled account then bind_account now org (the account) r db2 else db2)))"

section \<open>Health\<close>

text \<open>What \<open>check-slot.sh\<close> found of a slot that is up: a new address counts as a reconnection.\<close>

definition seen_up :: "datetime \<Rightarrow> string option \<Rightarrow> string set \<Rightarrow> exit_node \<Rightarrow> exit_node" where
  "seen_up now ip back n =
     n\<lparr> en_reconnects := en_reconnects n + (if en_public_ip n \<noteq> ip \<and> filled ip then 1 else 0),
        en_public_ip := ip, en_last_seen := Some now, en_state := (if en_state n \<in> back then IDLE else en_state n) \<rparr>"

definition checked :: "datetime \<Rightarrow> string list \<Rightarrow> exit_node \<Rightarrow> exit_node" where
  "checked now parts n = n\<lparr> en_public_ipv6 := word_at 3 [''none''] parts, en_last_health_check := Some now \<rparr>"

definition health_check_slot ::
  "vm_scripts \<Rightarrow> datetime \<Rightarrow> uuid \<Rightarrow> int \<Rightarrow> grid_db \<Rightarrow> grid_error + (string \<times> string option \<times> int) \<times> grid_db" where
  "health_check_slot vm now h slot db =
     rbind (get_host h db) (\<lambda>host.
       case vm host ''check-slot.sh'' [int_str slot] of
         None \<Rightarrow> Inl VmFailed
       | Some result \<Rightarrow>
           let parts = (if sh_ok result then split_ws (sh_stdout result) else []);
               up = (parts \<noteq> [] \<and> parts ! 0 = ''up'');
               ip = word_at 1 [] parts;
               answer = (if up then ''up'' else ''down'', ip, slot)
           in case find_node h slot db of
                None \<Rightarrow> Inr (answer, db)
              | Some n \<Rightarrow>
                  if up then Inr (answer, set_node h slot
                    (\<lambda>n. seen_up now ip {RECONNECTING, CONNECTING, DOWN} (checked now parts n)) db)
                  else if en_state n = ASSIGNED then
                    (if filled (en_worker n)
                        \<and> vm host ''release-route.sh'' (route_args (the (en_worker n)) slot (en_worker_v6 n)) = None
                     then Inl VmFailed
                     else Inr (answer, set_node h slot
                       (\<lambda>n. (unassign (checked now parts n))\<lparr> en_state := RECONNECTING \<rparr>) db))
                  else Inr (answer, set_node h slot
                    (\<lambda>n. (checked now parts n)\<lparr> en_state := (if en_state n = IDLE then RECONNECTING else DOWN) \<rparr>) db))"

definition rotate_ip ::
  "vm_scripts \<Rightarrow> vm_scripts \<Rightarrow> datetime \<Rightarrow> uuid \<Rightarrow> int \<Rightarrow> grid_db \<Rightarrow> grid_error + (string \<times> string option \<times> int) \<times> grid_db" where
  "rotate_ip vm vm' now h slot db =
     rbind (get_host h db) (\<lambda>host.
       case vm host ''rotate-slot.sh'' [int_str slot] of None \<Rightarrow> Inl VmFailed | Some _ \<Rightarrow> health_check_slot vm' now h slot db)"

text \<open>
  The ticker: one slot. An exception of the check leaves the node as it is; the route of a slot that is down
  is released as well as it can be.
\<close>

definition tick_node :: "vm_scripts \<Rightarrow> datetime \<Rightarrow> exit_host \<Rightarrow> exit_node \<Rightarrow> (exit_node \<Rightarrow> exit_node) option" where
  "tick_node vm now host n =
     (case vm host ''check-slot.sh'' [int_str (en_slot n)] of
        None \<Rightarrow> None
      | Some result \<Rightarrow>
          let parts = (if sh_ok result then split_ws (sh_stdout result) else [])
          in Some (\<lambda>n.
            if parts \<noteq> [] \<and> parts ! 0 = ''up''
            then seen_up now (word_at 1 [] parts) {RECONNECTING} (checked now parts n)
            else if en_state n = ASSIGNED then (unassign (checked now parts n))\<lparr> en_state := RECONNECTING \<rparr>
            else if en_state n = IDLE then (checked now parts n)\<lparr> en_state := RECONNECTING \<rparr>
            else if en_state n = RECONNECTING \<and> (case en_last_seen n of None \<Rightarrow> False | Some t \<Rightarrow> now - t > 300 * 1000000)
            then (checked now parts n)\<lparr> en_state := DOWN \<rparr>
            else checked now parts n))"

definition due_nodes :: "(exit_node \<Rightarrow> nat) \<Rightarrow> grid_db \<Rightarrow> exit_node list" where
  "due_nodes tie db =
     take 50 (sort_key (\<lambda>n. if en_state n = ASSIGNED then 0 else (1 :: nat))
       (sort_key (\<lambda>n. case en_last_health_check n of None \<Rightarrow> 0 | Some t \<Rightarrow> t)
         (sort_key (\<lambda>n. if en_last_health_check n = None then 0 else (1 :: nat)) (sort_key tie
           (filter (\<lambda>n. en_state n \<in> {IDLE, ASSIGNED, RECONNECTING}
              \<and> (case find_host (en_host_id n) db of None \<Rightarrow> False | Some h \<Rightarrow> eh_state h = ''active'')) (g_nodes db))))))"

fun tick_nodes :: "vm_scripts \<Rightarrow> datetime \<Rightarrow> exit_node list \<Rightarrow> grid_db \<Rightarrow> nat \<times> nat \<times> grid_db" where
  "tick_nodes vm now [] db = (0, 0, db)"
| "tick_nodes vm now (n # ns) db =
     (case find_host (en_host_id n) db of
        None \<Rightarrow> tick_nodes vm now ns db
      | Some host \<Rightarrow>
          (case tick_node vm now host n of
             None \<Rightarrow> tick_nodes vm now ns db
           | Some f \<Rightarrow>
               let (checked_n, dropped, db') = tick_nodes vm now ns (set_node (en_host_id n) (en_slot n) f db)
               in (Suc checked_n, (if en_state n = ASSIGNED \<and> en_state (f n) = RECONNECTING then Suc dropped else dropped), db')))"

section \<open>The warm pool\<close>

text \<open>
  An error stops the host. A flush that the database refused ends the transaction too: the handler then reads
  the name of the host from the session, which raises, so that the whole tick does.
\<close>

fun top_up_host :: "vm_scripts \<Rightarrow> datetime \<Rightarrow> (nat \<Rightarrow> uuid) \<Rightarrow> uuid \<Rightarrow> nat \<Rightarrow> grid_db \<Rightarrow> grid_error + nat \<times> grid_db" where
  "top_up_host vm now ids h 0 db = Inr (0, db)"
| "top_up_host vm now ids h (Suc k) db =
     (case next_free_slot h db of
        Inl _ \<Rightarrow> Inr (0, db)
      | Inr slot \<Rightarrow>
          (case provision_slot vm now (ids k) h slot db of
             Inl e \<Rightarrow> if e = OrganizationRequired then Inl e else Inr (0, db)
           | Inr (_, db') \<Rightarrow> rbind (top_up_host vm now ids h k db') (\<lambda>(m, db''). Inr (Suc m, db''))))"

definition WARM_BATCH_SIZE :: nat where "WARM_BATCH_SIZE = 3"

definition warm_deficit :: "exit_host \<Rightarrow> grid_db \<Rightarrow> nat" where
  "warm_deficit host db =
     nat (eh_warm_pool_target host - int (length (filter (\<lambda>n. en_host_id n = eh_id host \<and> en_state n = IDLE) (g_nodes db))))"

fun top_up_hosts ::
  "vm_scripts \<Rightarrow> datetime \<Rightarrow> (uuid \<Rightarrow> nat \<Rightarrow> uuid) \<Rightarrow> exit_host list \<Rightarrow> grid_db \<Rightarrow> grid_error + nat \<times> grid_db" where
  "top_up_hosts vm now ids [] db = Inr (0, db)"
| "top_up_hosts vm now ids (host # hs) db =
     rbind (top_up_host vm now (ids (eh_id host)) (eh_id host) (min (warm_deficit host db) WARM_BATCH_SIZE) db) (\<lambda>(m, db1).
     rbind (top_up_hosts vm now ids hs db1) (\<lambda>(k, db2). Inr (m + k, db2)))"

text \<open>
  The ticker runs at most every two minutes unless forced; its last run is a global of the worker. It flushes
  and does not commit: the tables of the result are those of its session.
\<close>

definition tick_pppoe_warmpool ::
  "vm_scripts \<Rightarrow> (exit_host \<Rightarrow> nat) \<Rightarrow> datetime \<Rightarrow> (uuid \<Rightarrow> nat \<Rightarrow> uuid) \<Rightarrow> bool \<Rightarrow> datetime option \<Rightarrow> grid_db
   \<Rightarrow> (grid_error + nat \<times> grid_db) \<times> datetime option" where
  "tick_pppoe_warmpool vm htie now ids force last_run db =
     (if \<not> force \<and> (case last_run of None \<Rightarrow> False | Some t \<Rightarrow> now - t < 120 * 1000000) then (Inr (0, db), last_run)
      else (top_up_hosts vm now ids (sort_key htie (filter (\<lambda>h. eh_state h = ''active'') (g_hosts db))) db, Some now))"

section \<open>Teardown\<close>

fun chunks :: "nat \<Rightarrow> 'a list \<Rightarrow> 'a list list" where
  "chunks k xs = (if xs = [] \<or> k = 0 then [] else take k xs # chunks k (drop k xs))"

declare chunks.simps [simp del]

definition TEARDOWN_BATCH_SIZE :: nat where "TEARDOWN_BATCH_SIZE = 20"

record teardown_result =
  td_total :: nat
  td_destroyed :: nat
  td_failed :: nat
  td_batches :: nat

definition teardown_row :: "exit_node \<Rightarrow> exit_node" where
  "teardown_row n = n\<lparr> en_state := DESTROYED, en_public_ip := None, en_cgnat_ip := None, en_worker := None \<rparr>"

fun teardown_slots :: "vm_scripts \<Rightarrow> exit_host \<Rightarrow> int list \<Rightarrow> grid_db \<Rightarrow> nat \<times> nat \<times> grid_db" where
  "teardown_slots vm host [] db = (0, 0, db)"
| "teardown_slots vm host (slot # ss) db =
     (case require_ok (vm host ''destroy-slot.sh'' [int_str slot]) of
        Inr _ \<Rightarrow> (case teardown_slots vm host ss (set_node (eh_id host) slot teardown_row db) of (d, f, db') \<Rightarrow> (Suc d, f, db'))
      | Inl _ \<Rightarrow> (case teardown_slots vm host ss db of (d, f, db') \<Rightarrow> (d, Suc f, db')))"

fun teardown_batches :: "vm_scripts \<Rightarrow> exit_host \<Rightarrow> int list list \<Rightarrow> grid_db \<Rightarrow> nat \<times> nat \<times> grid_db" where
  "teardown_batches vm host [] db = (0, 0, db)"
| "teardown_batches vm host (b # bs) db =
     (case teardown_slots vm host b db of (d, f, db1) \<Rightarrow>
        case teardown_batches vm host bs db1 of (d', f', db2) \<Rightarrow> (d + d', f + f', db2))"

definition graceful_teardown_batch :: "vm_scripts \<Rightarrow> nat \<Rightarrow> exit_host \<Rightarrow> int list \<Rightarrow> grid_db \<Rightarrow> teardown_result \<times> grid_db" where
  "graceful_teardown_batch vm batch_size host slots db =
     (let batches = chunks batch_size slots
      in case teardown_batches vm host batches db of (d, f, db') \<Rightarrow>
           (\<lparr> td_total = length slots, td_destroyed = d, td_failed = f, td_batches = length batches \<rparr>, db'))"

definition graceful_teardown_all :: "vm_scripts \<Rightarrow> exit_host \<Rightarrow> grid_db \<Rightarrow> teardown_result \<times> grid_db" where
  "graceful_teardown_all vm host db =
     graceful_teardown_batch vm TEARDOWN_BATCH_SIZE host
       (sort (map en_slot (filter (\<lambda>n. en_host_id n = eh_id host
          \<and> en_state n \<in> {IDLE, ASSIGNED, RECONNECTING, CONNECTING, DOWN}) (g_nodes db)))) db"


section \<open>Queries\<close>

definition get_fingerprint :: "uuid \<Rightarrow> int \<Rightarrow> grid_db \<Rightarrow> fp_profile option" where
  "get_fingerprint h slot db =
     (case find_node h slot db of None \<Rightarrow> None | Some n \<Rightarrow> profile_by_id (en_profile_id n) db)"

definition list_slots :: "uuid option \<Rightarrow> string option \<Rightarrow> grid_db \<Rightarrow> slot_record list" where
  "list_slots h state db =
     (let rows = List.map_filter (\<lambda>n. case (find_host (en_host_id n) db, profile_by_id (en_profile_id n) db) of
            (Some x, Some p) \<Rightarrow> Some (n, x, p) | _ \<Rightarrow> None)
          (filter (\<lambda>n. (h = None \<or> h = Some (en_host_id n)) \<and> (\<not> filled state \<or> state = Some (en_state n))) (g_nodes db))
      in map (\<lambda>(n, x, p). to_record n x (Some p))
           (sort_key (\<lambda>(n, x, p). eh_name x) (sort_key (\<lambda>(n, x, p). en_slot n) rows)))"

section \<open>Consistency\<close>

definition slot_key :: "exit_node \<Rightarrow> uuid \<times> int" where
  "slot_key n = (en_host_id n, en_slot n)"

definition node_ok :: "exit_node \<Rightarrow> bool" where
  "node_ok n \<longleftrightarrow> en_state n \<in> set SLOT_STATES \<and> (en_worker n \<noteq> None \<longleftrightarrow> en_state n = ASSIGNED)"

text \<open>One row for a slot of a host, one binding for an account of an organization, and a worker exactly when assigned.\<close>

definition grid_ok :: "grid_db \<Rightarrow> bool" where
  "grid_ok db \<longleftrightarrow> distinct (map slot_key (g_nodes db)) \<and> list_all node_ok (g_nodes db)
     \<and> distinct (map (\<lambda>b. (ib_organization_id b, ib_account b)) (g_bindings db))"

lemma at_slot_key: "at_slot h slot n \<longleftrightarrow> slot_key n = (h, slot)"
  by (auto simp: at_slot_def slot_key_def)

lemma find_node_Some: "find_node h slot db = Some n \<Longrightarrow> n \<in> set (g_nodes db) \<and> slot_key n = (h, slot)"
  unfolding find_node_def at_slot_key by (drule find_Some_iff_mem) blast

lemma node_unique:
  "grid_ok db \<Longrightarrow> n \<in> set (g_nodes db) \<Longrightarrow> m \<in> set (g_nodes db) \<Longrightarrow> slot_key n = slot_key m \<Longrightarrow> n = m"
  by (auto simp: grid_ok_def dest: distinct_map_eq)

lemma find_node_None: "find_node h slot db = None \<longleftrightarrow> (h, slot) \<notin> slot_key ` set (g_nodes db)"
  unfolding find_node_def at_slot_key find_None_iff by (metis image_iff)

lemma set_node_nodes: "g_nodes (set_node h slot f db) = update_where (\<lambda>n. slot_key n = (h, slot)) f (g_nodes db)"
proof -
  have "at_slot h slot = (\<lambda>n. slot_key n = (h, slot))" by (rule ext) (rule at_slot_key)
  then show ?thesis by (simp add: set_node_def)
qed

lemma set_node_simps [simp]:
  "g_hosts (set_node h slot f db) = g_hosts db" "g_bindings (set_node h slot f db) = g_bindings db"
  "g_profiles (set_node h slot f db) = g_profiles db"
  by (simp_all add: set_node_def)

lemma set_binding_simps [simp]:
  "g_hosts (set_binding org account f db) = g_hosts db" "g_nodes (set_binding org account f db) = g_nodes db"
  "g_profiles (set_binding org account f db) = g_profiles db"
  by (simp_all add: set_binding_def)

lemma set_node_ok:
  assumes ok: "grid_ok db" and f: "\<And>n. n \<in> set (g_nodes db) \<Longrightarrow> slot_key n = (h, slot) \<Longrightarrow> node_ok n
      \<Longrightarrow> slot_key (f n) = slot_key n \<and> node_ok (f n)"
  shows "grid_ok (set_node h slot f db)"
proof -
  have "map slot_key (update_where (\<lambda>n. slot_key n = (h, slot)) f (g_nodes db)) = map slot_key (g_nodes db)"
    using ok f by (intro map_update_where) (auto simp: grid_ok_def list_all_iff)
  moreover have "list_all node_ok (update_where (\<lambda>n. slot_key n = (h, slot)) f (g_nodes db))"
    using ok f by (intro list_all_update_where) (auto simp: grid_ok_def)
  ultimately show ?thesis using ok by (simp add: grid_ok_def set_node_nodes)
qed

lemma set_binding_ok:
  "grid_ok db \<Longrightarrow> (\<And>b. ib_organization_id (f b) = ib_organization_id b) \<Longrightarrow> (\<And>b. ib_account (f b) = ib_account b)
    \<Longrightarrow> grid_ok (set_binding org account f db)"
  by (simp add: grid_ok_def set_binding_def map_update_where)

text \<open>Two ways a call treats the assignments: it keeps every one, or it makes no new one.\<close>

definition assignment :: "exit_node \<Rightarrow> string option \<times> string option \<times> string option \<times> datetime option" where
  "assignment n = (en_worker n, en_worker_v6 n, en_session n, en_assigned_at n)"

definition same_slots :: "grid_db \<Rightarrow> grid_db \<Rightarrow> bool" where
  "same_slots db db' \<longleftrightarrow> map slot_key (g_nodes db') = map slot_key (g_nodes db)"

definition keeps_assigned :: "grid_db \<Rightarrow> grid_db \<Rightarrow> bool" where
  "keeps_assigned db db' \<longleftrightarrow> same_slots db db' \<and> (\<forall>n \<in> set (g_nodes db). en_state n = ASSIGNED \<longrightarrow> n \<in> set (g_nodes db'))"

definition only_drops :: "grid_db \<Rightarrow> grid_db \<Rightarrow> bool" where
  "only_drops db db' \<longleftrightarrow> same_slots db db' \<and> (\<forall>n' \<in> set (g_nodes db'). en_state n' = ASSIGNED \<longrightarrow>
     (\<exists>n \<in> set (g_nodes db). slot_key n = slot_key n' \<and> en_state n = ASSIGNED \<and> assignment n = assignment n'))"

definition no_takeover :: "grid_db \<Rightarrow> grid_db \<Rightarrow> bool" where
  "no_takeover db db' \<longleftrightarrow> (\<forall>n \<in> set (g_nodes db). \<forall>n' \<in> set (g_nodes db'). slot_key n = slot_key n'
     \<longrightarrow> en_state n = ASSIGNED \<longrightarrow> en_state n' = ASSIGNED \<longrightarrow> assignment n = assignment n')"

lemma assigned_trans: "keeps_assigned a b \<Longrightarrow> keeps_assigned b c \<Longrightarrow> keeps_assigned a c"
  unfolding keeps_assigned_def same_slots_def by auto

lemma drops_trans:
  assumes "only_drops a b" and "only_drops b c"
  shows "only_drops a c"
  unfolding only_drops_def
proof (intro conjI ballI impI)
  show "same_slots a c" using assms by (simp add: only_drops_def same_slots_def)
  fix n' assume "n' \<in> set (g_nodes c)" "en_state n' = ASSIGNED"
  with assms(2) obtain m where "m \<in> set (g_nodes b)" "slot_key m = slot_key n'" "en_state m = ASSIGNED" "assignment m = assignment n'"
    unfolding only_drops_def by blast
  with assms(1) show "\<exists>n \<in> set (g_nodes a). slot_key n = slot_key n' \<and> en_state n = ASSIGNED \<and> assignment n = assignment n'"
    unfolding only_drops_def by metis
qed

lemma same_nodes: "g_nodes db' = g_nodes db \<Longrightarrow> keeps_assigned db db' \<and> only_drops db db'"
  by (auto simp: keeps_assigned_def only_drops_def same_slots_def)

lemma keeps_no_takeover: "grid_ok db' \<Longrightarrow> keeps_assigned db db' \<Longrightarrow> no_takeover db db'"
  unfolding no_takeover_def keeps_assigned_def using node_unique by blast

lemma drops_no_takeover: "grid_ok db \<Longrightarrow> only_drops db db' \<Longrightarrow> no_takeover db db'"
  unfolding no_takeover_def only_drops_def using node_unique by metis

lemma set_node_slots:
  "(\<And>n. n \<in> set (g_nodes db) \<Longrightarrow> slot_key n = (h, slot) \<Longrightarrow> slot_key (f n) = slot_key n) \<Longrightarrow> same_slots db (set_node h slot f db)"
  unfolding same_slots_def set_node_nodes by (rule map_update_where) auto

lemma set_node_keeps:
  assumes "grid_ok db" and "n \<in> set (g_nodes db)" and "slot_key n = (h, slot)" and "en_state n \<noteq> ASSIGNED"
    and "\<And>m. slot_key (f m) = slot_key m"
  shows "keeps_assigned db (set_node h slot f db)"
proof -
  have "same_slots db (set_node h slot f db)" by (rule set_node_slots) (rule assms(5))
  moreover
  have "slot_key m \<noteq> (h, slot)" if "m \<in> set (g_nodes db)" "en_state m = ASSIGNED" for m
    using node_unique [OF assms(1) that(1) assms(2)] that(2) assms(3,4) by auto
  ultimately show ?thesis by (auto simp: keeps_assigned_def set_node_nodes set_update_where image_iff)
qed

lemma set_node_drops:
  assumes "\<And>n. n \<in> set (g_nodes db) \<Longrightarrow> slot_key n = (h, slot) \<Longrightarrow> slot_key (f n) = slot_key n"
    and "\<And>n. n \<in> set (g_nodes db) \<Longrightarrow> slot_key n = (h, slot) \<Longrightarrow> en_state (f n) = ASSIGNED
      \<Longrightarrow> en_state n = ASSIGNED \<and> assignment (f n) = assignment n"
  shows "only_drops db (set_node h slot f db)"
  unfolding only_drops_def
proof (intro conjI ballI impI, rule set_node_slots, rule assms(1), assumption+, unfold set_node_nodes set_update_where)
  fix n' assume "n' \<in> (\<lambda>r. if slot_key r = (h, slot) then f r else r) ` set (g_nodes db)" "en_state n' = ASSIGNED"
  then obtain n where n: "n \<in> set (g_nodes db)" "n' = (if slot_key n = (h, slot) then f n else n)" by blast
  with assms \<open>en_state n' = ASSIGNED\<close>
  have "slot_key n = slot_key n' \<and> en_state n = ASSIGNED \<and> assignment n = assignment n'" by (auto split: if_splits)
  with n(1) show "\<exists>n \<in> set (g_nodes db). slot_key n = slot_key n' \<and> en_state n = ASSIGNED \<and> assignment n = assignment n'"
    by blast
qed


lemma created_row_simps [simp]:
  "slot_key (created_row now parts port profile n) = slot_key n"
  "en_worker (created_row now parts port profile n) = en_worker n"
  "en_state (created_row now parts port profile n) \<noteq> ASSIGNED"
  "node_ok (created_row now parts port profile n) \<longleftrightarrow> en_worker n = None"
  by (auto simp: created_row_def Let_def slot_key_def node_ok_def SLOT_STATES_def)

lemma provision_Inr:
  assumes "provision_slot vm now i h slot db = Inr (r, db')"
  shows "\<exists>host parts port profile n. get_host h db = Inr host \<and> 0 \<le> slot \<and> slot < eh_max_slots host
    \<and> find_node h slot db = Some n \<and> en_state n \<in> {DOWN, DESTROYED} \<and> lr_node r = created_row now parts port profile n
    \<and> db' = set_node h slot (created_row now parts port profile) db"
proof -
  from assms obtain host where host: "get_host h db = Inr host" by (auto simp: provision_slot_def)
  have inside: "0 \<le> slot \<and> slot < eh_max_slots host"
    using assms by (auto simp: provision_slot_def host split: if_splits)
  have free: "\<not> (case find_node h slot db of None \<Rightarrow> False | Some n \<Rightarrow> en_state n \<notin> {DOWN, DESTROYED})"
  proof
    assume "case find_node h slot db of None \<Rightarrow> False | Some n \<Rightarrow> en_state n \<notin> {DOWN, DESTROYED}"
    with assms inside show False unfolding provision_slot_def host rbind.simps by simp
  qed
  have whole: "rbind (require_ok (vm host ''create-slot.sh'' [int_str slot])) (\<lambda>result.
         rbind (proxy_port_of (word_at 3 [''none'', ''unknown''] (split_ws (sh_stdout result)))) (\<lambda>port.
         case find (\<lambda>p. fp_name p = profile_name_for_slot slot) (g_profiles db) of
           None \<Rightarrow> Inl (ProfileNotSeeded (profile_name_for_slot slot))
         | Some profile \<Rightarrow>
             let f = created_row now (split_ws (sh_stdout result)) port (fp_id profile)
             in (case find_node h slot db of
                  Some n \<Rightarrow> Inr (to_record (f n) host (Some profile), set_node h slot f db)
                | None \<Rightarrow>
                    rbind (insert_node (f (blank_node i h slot)) db)
                      (\<lambda>db'. Inr (to_record (f (blank_node i h slot)) host (Some profile), db'))))) = Inr (r, db')"
    using assms inside unfolding provision_slot_def host rbind.simps if_not_P [OF free] by simp
  then obtain result :: ssh_result and port where found: "(case find (\<lambda>p. fp_name p = profile_name_for_slot slot) (g_profiles db) of
           None \<Rightarrow> Inl (ProfileNotSeeded (profile_name_for_slot slot))
         | Some profile \<Rightarrow>
             let f = created_row now (split_ws (sh_stdout result)) port (fp_id profile)
             in (case find_node h slot db of
                  Some n \<Rightarrow> Inr (to_record (f n) host (Some profile), set_node h slot f db)
                | None \<Rightarrow>
                    rbind (insert_node (f (blank_node i h slot)) db)
                      (\<lambda>db'. Inr (to_record (f (blank_node i h slot)) host (Some profile), db')))) = Inr (r, db')"
    unfolding rbind_eq_Inr by blast
  then obtain profile where
    "(case find_node h slot db of
        Some n \<Rightarrow> Inr (to_record (created_row now (split_ws (sh_stdout result)) port (fp_id profile) n) host (Some profile),
          set_node h slot (created_row now (split_ws (sh_stdout result)) port (fp_id profile)) db)
      | None \<Rightarrow>
          rbind (insert_node (created_row now (split_ws (sh_stdout result)) port (fp_id profile) (blank_node i h slot)) db)
            (\<lambda>db'. Inr (to_record (created_row now (split_ws (sh_stdout result)) port (fp_id profile) (blank_node i h slot))
              host (Some profile), db'))) = Inr (r, db')"
    unfolding Let_def by (cases "find (\<lambda>p. fp_name p = profile_name_for_slot slot) (g_profiles db)") simp_all
  with host inside free show ?thesis
    by (intro exI [of _ host] exI [of _ "split_ws (sh_stdout result)"] exI [of _ port] exI [of _ "fp_id profile"])
      (cases "find_node h slot db", auto simp: to_record_def insert_node_def)
qed

lemma provision_ok:
  assumes "provision_slot vm now i h slot db = Inr (r, db')" and ok: "grid_ok db"
  shows "grid_ok db' \<and> keeps_assigned db db' \<and> only_drops db db'"
proof -
  from provision_Inr [OF assms(1)] obtain parts port profile n where some: "find_node h slot db = Some n"
    and n: "en_state n \<in> {DOWN, DESTROYED}" and db': "db' = set_node h slot (created_row now parts port profile) db"
    by blast
  note place = find_node_Some [OF some]
  have "en_worker m = None" if "m \<in> set (g_nodes db)" "slot_key m = (h, slot)" for m
    using node_unique [OF ok that(1), of n] that(2) place n ok by (auto simp: grid_ok_def list_all_iff node_ok_def)
  then have "grid_ok db'" unfolding db' by (intro set_node_ok [OF ok]) auto
  moreover have "keeps_assigned db db'" unfolding db' by (rule set_node_keeps [OF ok]) (use place n in auto)
  moreover have "only_drops db db'" unfolding db' by (rule set_node_drops) auto
  ultimately show ?thesis by blast
qed

text \<open>A slot without a row is made on the machine and then refused by the table.\<close>

lemma provision_needs_row:
  assumes "find_node h slot db = None"
  shows "\<exists>e. provision_slot vm now i h slot db = Inl e"
proof (cases "provision_slot vm now i h slot db")
  case (Inr x)
  with provision_Inr [of vm now i h slot db "fst x" "snd x"] assms show ?thesis by simp
qed simp

lemma assign_Inr:
  assumes "assign_to_worker vm now h slot worker session v6 db = Inr (r, db')"
  shows "\<exists>host n. get_host h db = Inr host \<and> find_node h slot db = Some n \<and> en_state n = IDLE
    \<and> lr_node r = assign_row now worker session v6 n \<and> db' = set_node h slot (assign_row now worker session v6) db"
  using assms by (auto simp: assign_to_worker_def get_node_def to_record_def Let_def split: option.splits if_splits)

lemma assign_row_simps [simp]:
  "slot_key (assign_row now worker session v6 n) = slot_key n" "node_ok (assign_row now worker session v6 n)"
  by (auto simp: assign_row_def slot_key_def node_ok_def SLOT_STATES_def)

lemma assign_ok:
  assumes "assign_to_worker vm now h slot worker session v6 db = Inr (r, db')" and ok: "grid_ok db"
  shows "grid_ok db' \<and> keeps_assigned db db'"
proof -
  from assign_Inr [OF assms(1)] obtain n where n: "find_node h slot db = Some n" "en_state n = IDLE"
    and db': "db' = set_node h slot (assign_row now worker session v6) db" by blast
  have "keeps_assigned db db'" unfolding db'
    by (rule set_node_keeps [OF ok]) (use find_node_Some [OF n(1)] n(2) in auto)
  then show ?thesis unfolding db' using set_node_ok [OF ok] by simp
qed

lemma kept_ok:
  assumes "kept db (assign_to_worker vm now h slot worker session v6 db) = (r, db')" and "grid_ok db"
  shows "grid_ok db' \<and> keeps_assigned db db'"
  using assms assign_ok same_nodes by (auto simp: kept_def split: sum.splits)

lemma use_binding_simps [simp]:
  "ib_organization_id (use_binding now h slot ip v6 b) = ib_organization_id b"
  "ib_account (use_binding now h slot ip v6 b) = ib_account b"
  by (simp_all add: use_binding_def)

lemma set_use_ok:
  "grid_ok db \<Longrightarrow> grid_ok (set_binding org account (use_binding now h slot ip v6) db)
     \<and> keeps_assigned db (set_binding org account (use_binding now h slot ip v6) db)"
  by (auto intro: set_binding_ok simp: keeps_assigned_def same_slots_def)

lemma rotate_bound_ok:
  assumes run: "rotate_bound vm now org account h slot worker session v6 db = (r, db')" and ok: "grid_ok db"
    and n: "find_node h slot db = Some n" "en_state n \<in> {DESTROYED, DOWN}"
  shows "grid_ok db' \<and> keeps_assigned db db'"
proof (cases "db' = db")
  case True
  then show ?thesis using ok same_nodes by simp
next
  case False
  let ?db2 = "\<lambda>ip. set_binding org account (use_binding now h slot (Some ip) (en_public_ipv6 n))
    (set_node h slot (rotated_row now ip) db)"
  note place = find_node_Some [OF n(1)]
  have mid: "grid_ok (?db2 ip) \<and> keeps_assigned db (?db2 ip)" for ip
  proof -
    have "en_worker m = None" if "m \<in> set (g_nodes db)" "slot_key m = (h, slot)" for m
      using node_unique [OF ok that(1), of n] that(2) place n(2) ok by (auto simp: grid_ok_def list_all_iff node_ok_def)
    then have "grid_ok (set_node h slot (rotated_row now ip) db)"
      by (intro set_node_ok [OF ok]) (auto simp: rotated_row_def node_ok_def SLOT_STATES_def slot_key_def)
    moreover have "keeps_assigned db (set_node h slot (rotated_row now ip) db)"
      by (rule set_node_keeps [OF ok]) (use place n(2) in \<open>auto simp: rotated_row_def slot_key_def\<close>)
    ultimately show ?thesis using set_use_ok assigned_trans by blast
  qed
  obtain ip where "try_assign vm now h slot worker session v6 (?db2 ip) = (r, db')"
    using run False n(1) unfolding rotate_bound_def Let_def
    by (auto split: sum.splits option.splits if_splits)
  then have "db' = ?db2 ip \<or> (\<exists>x. assign_to_worker vm now h slot worker session v6 (?db2 ip) = Inr (x, db'))"
    by (auto simp: try_assign_def split: sum.splits)
  with mid [of ip] show ?thesis using assign_ok assigned_trans by blast
qed


lemma acquire_match_ok:
  assumes "acquire_match vm tie now org account worker session v6 db = (r, db')" and ok: "grid_ok db"
  shows "grid_ok db' \<and> keeps_assigned db db'"
proof (cases "find_binding org account db")
  case None
  with assms same_nodes show ?thesis by (simp add: acquire_match_def)
next
  case (Some b)
  show ?thesis
  proof (cases "matching_node tie b db")
    case None
    with Some assms same_nodes show ?thesis by (simp add: acquire_match_def)
  next
    case (Some n)
    let ?db1 = "set_binding org account (use_binding now (en_host_id n) (en_slot n) (en_public_ip n) (en_public_ipv6 n)) db"
    from assms(1) Some \<open>find_binding org account db = Some b\<close> obtain x where
      "kept ?db1 (assign_to_worker vm now (en_host_id n) (en_slot n) worker session v6 ?db1) = (x, db')"
      by (auto simp: acquire_match_def Let_def split: prod.splits)
    with set_use_ok [OF ok] kept_ok assigned_trans show ?thesis by blast
  qed
qed

lemma acquire_bound_ok:
  assumes "acquire_bound vm tie now org account worker session v6 db = (r, db')" and ok: "grid_ok db"
  shows "grid_ok db' \<and> keeps_assigned db db'"
proof (cases "find_binding org account db")
  case None
  with assms same_nodes show ?thesis by (simp add: acquire_bound_def)
next
  case (Some b)
  note b = Some
  show ?thesis
  proof (cases "find_node (ib_host_id b) (ib_slot b) db")
    case None
    with b assms acquire_match_ok show ?thesis by (simp add: acquire_bound_def Let_def)
  next
    case (Some n)
    let ?db1 = "set_binding org account (use_binding now (ib_host_id b) (ib_slot b) (en_public_ip n) (en_public_ipv6 n)) db"
    show ?thesis
    proof (cases "en_state n \<in> {DESTROYED, DOWN}")
      case False
      with assms(1) b Some obtain x where
        "kept ?db1 (assign_to_worker vm now (ib_host_id b) (ib_slot b) worker session v6 ?db1) = (x, db')"
        by (auto simp: acquire_bound_def Let_def split: prod.splits)
      with set_use_ok [OF ok] kept_ok assigned_trans show ?thesis by blast
    next
      case True
      obtain x db1 where rot: "rotate_bound vm now org account (ib_host_id b) (ib_slot b) worker session v6 db = (x, db1)"
        by fastforce
      note rotated = rotate_bound_ok [OF rot ok Some True]
      have no: "\<not> en_state n \<notin> {DESTROYED, DOWN}" using True by simp
      have run: "(case (x, db1) of (Some r, db1) \<Rightarrow> (Some (Inr r), db1)
          | (None, db1) \<Rightarrow> acquire_match vm tie now org account worker session v6 db1) = (r, db')"
        using assms(1) unfolding acquire_bound_def Let_def b Some option.case if_not_P [OF no] rot .
      show ?thesis
      proof (cases x)
        case None
        with run have "acquire_match vm tie now org account worker session v6 db1 = (r, db')" by simp
        with acquire_match_ok rotated assigned_trans show ?thesis by blast
      next
        case (Some y)
        with run rotated show ?thesis by simp
      qed
    qed
  qed
qed

lemma acquire_fresh_ok:
  assumes "acquire_fresh vm tie htie locked now i preferred worker session v6 db = (r, db')" and ok: "grid_ok db"
  shows "grid_ok db' \<and> keeps_assigned db db'"
proof (cases "pick_idle_node tie locked preferred db")
  case (Some n)
  with assms kept_ok show ?thesis by (simp add: acquire_fresh_def)
next
  case None
  note none = None
  show ?thesis
  proof (cases "sort_key htie (filter (\<lambda>h. eh_state h = ''active'') (g_hosts db))")
    case Nil
    with none assms same_nodes show ?thesis by (simp add: acquire_fresh_def)
  next
    case (Cons host hs)
    show ?thesis
    proof (cases "next_free_slot (eh_id host) db")
      case (Inl e)
      with none Cons assms same_nodes show ?thesis by (simp add: acquire_fresh_def)
    next
      case (Inr slot)
      show ?thesis
      proof (cases "provision_slot vm now i (eh_id host) slot db")
        case (Inl e)
        with none Cons Inr assms same_nodes show ?thesis by (simp add: acquire_fresh_def)
      next
        case (Inr x)
        obtain y db1 where x: "x = (y, db1)" by fastforce
        with none Cons Inr assms(1) \<open>next_free_slot (eh_id host) db = Inr slot\<close>
        have "kept db1 (assign_to_worker vm now (eh_id host) slot worker session v6 db1) = (r, db')"
          by (simp add: acquire_fresh_def)
        with provision_ok [OF Inr [unfolded x] ok] kept_ok assigned_trans show ?thesis by blast
      qed
    qed
  qed
qed

lemma bind_account_ok:
  assumes "grid_ok db"
  shows "grid_ok (bind_account now org account r db) \<and> keeps_assigned db (bind_account now org account r db)"
proof (cases "find_binding org account db")
  case None
  then have "(org, account) \<notin> (\<lambda>b. (ib_organization_id b, ib_account b)) ` set (g_bindings db)"
    by (auto simp: find_binding_def is_binding_def find_None_iff)
  with None assms show ?thesis by (simp add: bind_account_def Let_def grid_ok_def keeps_assigned_def same_slots_def)
next
  case (Some b)
  with set_use_ok [OF assms] show ?thesis by (simp add: bind_account_def Let_def)
qed

lemma acquire_ok:
  assumes "acquire_any vm tie htie locked now i cx session worker preferred account v6 db = (r, db')" and ok: "grid_ok db"
  shows "grid_ok db' \<and> keeps_assigned db db'"
proof -
  obtain sticky db1 where st: "(if filled account then acquire_bound vm tie now (oc_organization_id cx) (the account) worker session v6 db
      else (None, db)) = (sticky, db1)" by fastforce
  then have one: "grid_ok db1 \<and> keeps_assigned db db1"
    using acquire_bound_ok ok same_nodes by (auto split: if_splits)
  show ?thesis
  proof (cases sticky)
    case (Some x)
    with assms(1) st one show ?thesis by (simp add: acquire_any_def)
  next
    case None
    obtain f db2 where fr: "acquire_fresh vm tie htie locked now i preferred worker session v6 db1 = (f, db2)" by fastforce
    with one acquire_fresh_ok assigned_trans have two: "grid_ok db2 \<and> keeps_assigned db db2" by blast
    have "db' = db2 \<or> (\<exists>x. db' = bind_account now (oc_organization_id cx) (the account) x db2)"
      using assms(1) st None fr by (auto simp: acquire_any_def split: sum.splits if_splits)
    with two bind_account_ok assigned_trans show ?thesis by blast
  qed
qed

text \<open>The calls that make no assignment.\<close>

definition harmless :: "exit_node \<Rightarrow> exit_node \<Rightarrow> bool" where
  "harmless n n' \<longleftrightarrow> slot_key n' = slot_key n \<and> node_ok n'
     \<and> (en_state n' = ASSIGNED \<longrightarrow> en_state n = ASSIGNED \<and> assignment n' = assignment n)"

lemma set_node_harmless:
  assumes "grid_ok db" and "\<And>n. n \<in> set (g_nodes db) \<Longrightarrow> slot_key n = (h, slot) \<Longrightarrow> node_ok n \<Longrightarrow> harmless n (f n)"
  shows "grid_ok (set_node h slot f db) \<and> only_drops db (set_node h slot f db)"
proof -
  have h: "harmless n (f n)" if "n \<in> set (g_nodes db)" "slot_key n = (h, slot)" for n
    using assms that by (auto simp: grid_ok_def list_all_iff)
  show ?thesis
    using set_node_ok [OF assms(1), of h slot f] set_node_drops [of db h slot f] h by (auto simp: harmless_def)
qed

lemma harmless_rows:
  "node_ok n \<Longrightarrow> harmless n (destroy_row n)"
  "node_ok n \<Longrightarrow> harmless n (teardown_row n)"
  "node_ok n \<Longrightarrow> harmless n ((unassign n)\<lparr> en_state := IDLE \<rparr>)"
  "node_ok n \<Longrightarrow> harmless n ((unassign (checked now parts n))\<lparr> en_state := RECONNECTING \<rparr>)"
  "node_ok n \<Longrightarrow> ASSIGNED \<notin> back \<Longrightarrow> harmless n (seen_up now ip back (checked now parts n))"
  "node_ok n \<Longrightarrow> en_state n \<noteq> ASSIGNED \<Longrightarrow> st \<in> {RECONNECTING, DOWN} \<Longrightarrow> harmless n ((checked now parts n)\<lparr> en_state := st \<rparr>)"
  "node_ok n \<Longrightarrow> harmless n (checked now parts n)"
  by (auto simp: harmless_def node_ok_def SLOT_STATES_def slot_key_def assignment_def destroy_row_def teardown_row_def
      unassign_def checked_def seen_up_def)


section \<open>The health ticker\<close>

text \<open>
  The last runs of the two tickers are globals of the worker. When an assigned slot was dropped, the warm
  pool is topped up at once, in the same session. The worker closes the session of a ticker without a commit;
  the one commit is that of \<open>reconcile_pool_capacity\<close>, made when it updates a browser pool: \<open>commits\<close> says whether
  it does, of the tables in the session. After a refused flush it raises. Without the commit nothing is kept,
  and the result has no tables.
\<close>

definition tick_pppoe_health ::
  "vm_scripts \<Rightarrow> (exit_node \<Rightarrow> nat) \<Rightarrow> (exit_host \<Rightarrow> nat) \<Rightarrow> datetime \<Rightarrow> (uuid \<Rightarrow> nat \<Rightarrow> uuid) \<Rightarrow> (grid_db \<Rightarrow> bool)
   \<Rightarrow> datetime option \<times> datetime option \<times> grid_db \<Rightarrow> nat \<times> datetime option \<times> datetime option \<times> grid_db option" where
  "tick_pppoe_health vm tie htie now ids commits s =
     (case s of (last_health, last_warm, db) \<Rightarrow>
        if (case last_health of None \<Rightarrow> False | Some t \<Rightarrow> now - t < 60 * 1000000) then (0, last_health, last_warm, None)
        else if due_nodes tie db = [] then (0, Some now, last_warm, None)
        else
          (case tick_nodes vm now (due_nodes tie db) db of (n, dropped, db1) \<Rightarrow>
             (case (if dropped > 0 then tick_pppoe_warmpool vm htie now ids True last_warm db1 else (Inr (0, db1), last_warm)) of
                (Inl _, warm) \<Rightarrow> (n, Some now, warm, None)
              | (Inr (_, db2), warm) \<Rightarrow> (n, Some now, warm, if commits db2 then Some db2 else None))))"

section \<open>Histories\<close>

datatype grid_call =
    ProvisionSlot vm_scripts datetime uuid uuid int
  | DestroySlot vm_scripts uuid int
  | AssignToWorker vm_scripts datetime uuid int string string "string option"
  | ReleaseFromWorker vm_scripts uuid int
  | AcquireAny vm_scripts "exit_node \<Rightarrow> nat" "exit_host \<Rightarrow> nat" "uuid set" datetime uuid org_context string string
      "uuid option" "string option" "string option" bool
  | HealthCheckSlot vm_scripts datetime uuid int
  | RotateIp vm_scripts vm_scripts datetime uuid int
  | HealthTick vm_scripts "exit_node \<Rightarrow> nat" "exit_host \<Rightarrow> nat" datetime "uuid \<Rightarrow> nat \<Rightarrow> uuid" "grid_db \<Rightarrow> bool"
      "datetime option" "datetime option"
  | WarmTick vm_scripts "exit_host \<Rightarrow> nat" datetime "uuid \<Rightarrow> nat \<Rightarrow> uuid" bool "datetime option"
  | TeardownAll vm_scripts exit_host

definition done_or :: "grid_db \<Rightarrow> grid_error + 'a \<times> grid_db \<Rightarrow> grid_db" where
  "done_or db r = (case r of Inl _ \<Rightarrow> db | Inr (_, db') \<Rightarrow> db')"

text \<open>
  A raise is rolled back, except where the caller of \<open>acquire_any\<close> catches it and the transaction goes on, which
  it does not after a refused flush. The worker's own run of the warm pool is never committed.
\<close>

fun grid_do :: "grid_call \<Rightarrow> grid_db \<Rightarrow> grid_db" where
  "grid_do (ProvisionSlot vm now i h slot) db = done_or db (provision_slot vm now i h slot db)"
| "grid_do (DestroySlot vm h slot) db = (case destroy_slot vm h slot db of Inl _ \<Rightarrow> db | Inr db' \<Rightarrow> db')"
| "grid_do (AssignToWorker vm now h slot w s v6) db = done_or db (assign_to_worker vm now h slot w s v6 db)"
| "grid_do (ReleaseFromWorker vm h slot) db = done_or db (release_from_worker vm h slot db)"
| "grid_do (AcquireAny vm tie htie locked now i cx session worker preferred account v6 caught) db =
     (case acquire_any vm tie htie locked now i cx session worker preferred account v6 db of
        (Inl e, db') \<Rightarrow> if caught \<and> e \<noteq> OrganizationRequired then db' else db
      | (Inr _, db') \<Rightarrow> db')"
| "grid_do (HealthCheckSlot vm now h slot) db = done_or db (health_check_slot vm now h slot db)"
| "grid_do (RotateIp vm vm' now h slot) db = done_or db (rotate_ip vm vm' now h slot db)"
| "grid_do (HealthTick vm tie htie now ids commits last_health last_warm) db =
     (case tick_pppoe_health vm tie htie now ids commits (last_health, last_warm, db) of
        (_, _, _, None) \<Rightarrow> db | (_, _, _, Some db') \<Rightarrow> db')"
| "grid_do (WarmTick vm htie now ids force last_run) db = db"
| "grid_do (TeardownAll vm host) db = snd (graceful_teardown_all vm host db)"

lemma destroy_ok:
  "destroy_slot vm h slot db = Inr db' \<Longrightarrow> grid_ok db \<Longrightarrow> grid_ok db' \<and> only_drops db db'"
  using set_node_harmless [of db h slot destroy_row] harmless_rows(1)
  by (auto simp: destroy_slot_def split: option.splits)

lemma release_ok:
  "release_from_worker vm h slot db = Inr (r, db') \<Longrightarrow> grid_ok db \<Longrightarrow> grid_ok db' \<and> only_drops db db'"
  using set_node_harmless [of db h slot "\<lambda>n. (unassign n)\<lparr> en_state := IDLE \<rparr>"] harmless_rows(3)
  by (auto simp: release_from_worker_def Let_def split: option.splits if_splits)

lemma health_ok:
  assumes run: "health_check_slot vm now h slot db = Inr (r, db')" and ok: "grid_ok db"
  shows "grid_ok db' \<and> only_drops db db'"
proof -
  have row: "grid_ok (set_node h slot f db) \<and> only_drops db (set_node h slot f db)"
    if "\<And>n. node_ok n \<Longrightarrow> slot_key n = (h, slot) \<Longrightarrow> n \<in> set (g_nodes db) \<Longrightarrow> harmless n (f n)" for f
    using that by (intro set_node_harmless [OF ok]) auto
  from run obtain host result where "get_host h db = Inr host" and vm: "vm host ''check-slot.sh'' [int_str slot] = Some result"
    by (auto simp: health_check_slot_def split: option.splits)
  let ?parts = "if sh_ok result then split_ws (sh_stdout result) else []"
  show ?thesis
  proof (cases "find_node h slot db")
    case None
    with run \<open>get_host h db = Inr host\<close> vm same_nodes ok show ?thesis by (simp add: health_check_slot_def Let_def)
  next
    case (Some n)
    have one: "en_state m = en_state n" if "m \<in> set (g_nodes db)" "slot_key m = (h, slot)" for m
      using node_unique [OF ok that(1), of n] find_node_Some [OF Some] that(2) by simp
    from run \<open>get_host h db = Inr host\<close> vm Some
    have "db' = set_node h slot (\<lambda>n. seen_up now (word_at 1 [] ?parts) {RECONNECTING, CONNECTING, DOWN} (checked now ?parts n)) db
      \<or> db' = set_node h slot (\<lambda>n. (unassign (checked now ?parts n))\<lparr> en_state := RECONNECTING \<rparr>) db
      \<or> en_state n \<noteq> ASSIGNED
        \<and> db' = set_node h slot (\<lambda>n. (checked now ?parts n)\<lparr> en_state := (if en_state n = IDLE then RECONNECTING else DOWN) \<rparr>) db"
      unfolding health_check_slot_def Let_def by (simp split: if_splits)
    moreover have "grid_ok (set_node h slot (\<lambda>n. seen_up now (word_at 1 [] ?parts) {RECONNECTING, CONNECTING, DOWN} (checked now ?parts n)) db)
        \<and> only_drops db (set_node h slot (\<lambda>n. seen_up now (word_at 1 [] ?parts) {RECONNECTING, CONNECTING, DOWN} (checked now ?parts n)) db)"
      by (rule row, rule harmless_rows(5)) auto
    moreover have "grid_ok (set_node h slot (\<lambda>n. (unassign (checked now ?parts n))\<lparr> en_state := RECONNECTING \<rparr>) db)
        \<and> only_drops db (set_node h slot (\<lambda>n. (unassign (checked now ?parts n))\<lparr> en_state := RECONNECTING \<rparr>) db)"
      by (rule row, rule harmless_rows(4))
    moreover have "grid_ok (set_node h slot (\<lambda>n. (checked now ?parts n)\<lparr> en_state := (if en_state n = IDLE then RECONNECTING else DOWN) \<rparr>) db)
        \<and> only_drops db (set_node h slot (\<lambda>n. (checked now ?parts n)\<lparr> en_state := (if en_state n = IDLE then RECONNECTING else DOWN) \<rparr>) db)"
      if "en_state n \<noteq> ASSIGNED"
      by (rule row, rule harmless_rows(6)) (use one that in auto)
    ultimately show ?thesis by blast
  qed
qed

lemma rotate_ip_ok:
  "rotate_ip vm vm' now h slot db = Inr (r, db') \<Longrightarrow> grid_ok db \<Longrightarrow> grid_ok db' \<and> only_drops db db'"
  by (auto simp: rotate_ip_def split: option.splits dest: health_ok)


lemma harmless_if: "(p \<Longrightarrow> harmless n a) \<Longrightarrow> (\<not> p \<Longrightarrow> harmless n b) \<Longrightarrow> harmless n (if p then a else b)"
  by simp

lemma tick_node_harmless:
  assumes "tick_node vm now host m = Some f" and "node_ok n"
  shows "harmless n (f n)"
proof (cases "vm host ''check-slot.sh'' [int_str (en_slot m)]")
  case None
  with assms(1) show ?thesis by (simp add: tick_node_def)
next
  case (Some result)
  note f = assms(1) [unfolded tick_node_def Some option.case Let_def option.inject]
  show ?thesis unfolding f [symmetric] by (intro harmless_if harmless_rows assms(2)) auto
qed

lemma tick_nodes_ok:
  "tick_nodes vm now ns db = (c, d, db') \<Longrightarrow> grid_ok db \<Longrightarrow> grid_ok db' \<and> only_drops db db'"
proof (induction ns arbitrary: db c d)
  case Nil
  then show ?case using same_nodes by simp
next
  case (Cons n ns)
  show ?case
  proof (cases "find_host (en_host_id n) db")
    case None
    with Cons show ?thesis by simp
  next
    case (Some host)
    show ?thesis
    proof (cases "tick_node vm now host n")
      case None
      with Some Cons show ?thesis by simp
    next
      case (Some f)
      have one: "grid_ok (set_node (en_host_id n) (en_slot n) f db) \<and> only_drops db (set_node (en_host_id n) (en_slot n) f db)"
        by (rule set_node_harmless [OF Cons.prems(2)]) (rule tick_node_harmless [OF Some])
      obtain c' d' where "tick_nodes vm now ns (set_node (en_host_id n) (en_slot n) f db) = (c', d', db')"
        using Cons.prems(1) Some \<open>find_host (en_host_id n) db = Some host\<close> by (auto simp: Let_def split: prod.splits)
      with Cons.IH one drops_trans show ?thesis by blast
    qed
  qed
qed

definition calm :: "grid_db \<Rightarrow> grid_db \<Rightarrow> bool" where
  "calm db db' \<longleftrightarrow> grid_ok db' \<and> keeps_assigned db db' \<and> only_drops db db'"

lemma calm_trans: "calm a b \<Longrightarrow> calm b c \<Longrightarrow> calm a c"
  unfolding calm_def using assigned_trans drops_trans by blast

lemma calm_refl: "grid_ok db \<Longrightarrow> calm db db"
  using same_nodes by (simp add: calm_def)

lemma top_up_host_ok: "top_up_host vm now ids h k db = Inr (m, db') \<Longrightarrow> grid_ok db \<Longrightarrow> calm db db'"
proof (induction k arbitrary: db m)
  case 0
  then show ?case by (simp add: calm_refl)
next
  case (Suc k)
  show ?case
  proof (cases "next_free_slot h db")
    case (Inl e)
    with Suc.prems show ?thesis by (simp add: calm_refl)
  next
    case (Inr slot)
    show ?thesis
    proof (cases "provision_slot vm now (ids k) h slot db")
      case (Inl e)
      with Suc.prems Inr show ?thesis by (auto simp: calm_refl split: if_splits)
    next
      case (Inr x)
      obtain r db1 where x: "x = (r, db1)" by fastforce
      have one: "calm db db1" unfolding calm_def by (rule provision_ok [OF Inr [unfolded x] Suc.prems(2)])
      obtain m' where "top_up_host vm now ids h k db1 = Inr (m', db')"
        using Suc.prems(1) Inr x \<open>next_free_slot h db = Inr slot\<close> by auto
      with Suc.IH one calm_trans show ?thesis unfolding calm_def by blast
    qed
  qed
qed

lemma top_up_hosts_ok: "top_up_hosts vm now ids hs db = Inr (m, db') \<Longrightarrow> grid_ok db \<Longrightarrow> calm db db'"
proof (induction hs arbitrary: db m)
  case Nil
  then show ?case by (simp add: calm_refl)
next
  case (Cons host hs)
  then obtain k db1 m' where one: "top_up_host vm now (ids (eh_id host)) (eh_id host) (min (warm_deficit host db) WARM_BATCH_SIZE) db
      = Inr (k, db1)" and two: "top_up_hosts vm now ids hs db1 = Inr (m', db')"
    by auto
  with Cons.IH top_up_host_ok [OF one Cons.prems(2)] calm_trans show ?case unfolding calm_def by blast
qed

lemma warm_tick_ok:
  "tick_pppoe_warmpool vm htie now ids force l db = (Inr (m, db'), l') \<Longrightarrow> grid_ok db \<Longrightarrow> calm db db'"
  by (auto simp: tick_pppoe_warmpool_def calm_refl split: if_splits dest: top_up_hosts_ok)

lemma health_tick_ok:
  assumes "tick_pppoe_health vm tie htie now ids commits (lh, lw, db) = (n, lh', lw', Some db')" and ok: "grid_ok db"
  shows "grid_ok db' \<and> only_drops db db'"
proof -
  obtain c d db1 where ticked: "tick_nodes vm now (due_nodes tie db) db = (c, d, db1)" using prod_cases3 by blast
  obtain res warm where pool: "(if d > 0 then tick_pppoe_warmpool vm htie now ids True lw db1 else (Inr (0, db1), lw)) = (res, warm)"
    by fastforce
  have "(case (res, warm) of (Inl _, warm) \<Rightarrow> (c, Some now, warm, None)
      | (Inr (_, db2), warm) \<Rightarrow> (c, Some now, warm, if commits db2 then Some db2 else None)) = (n, lh', lw', Some db')"
    using assms(1) unfolding tick_pppoe_health_def prod.case ticked pool by (auto split: if_splits)
  then obtain m where res: "res = Inr (m, db')" by (auto split: sum.splits if_splits)
  note one = tick_nodes_ok [OF ticked ok]
  have "calm db1 db'"
  proof (cases "d > 0")
    case True
    with pool res one show ?thesis by (auto intro: warm_tick_ok)
  next
    case False
    with pool res one show ?thesis by (auto intro: calm_refl)
  qed
  with one drops_trans show ?thesis unfolding calm_def by blast
qed

lemma teardown_slots_ok:
  "teardown_slots vm host ss db = (d, f, db') \<Longrightarrow> grid_ok db \<Longrightarrow> grid_ok db' \<and> only_drops db db' \<and> d + f = length ss"
proof (induction ss arbitrary: db d f)
  case Nil
  then show ?case using same_nodes by simp
next
  case (Cons s ss)
  let ?db1 = "set_node (eh_id host) s teardown_row db"
  have one: "grid_ok ?db1 \<and> only_drops db ?db1"
    using set_node_harmless [OF Cons.prems(2)] harmless_rows(2) by blast
  show ?case
  proof (cases "require_ok (vm host ''destroy-slot.sh'' [int_str s])")
    case (Inl e)
    with Cons show ?thesis by (fastforce split: prod.splits)
  next
    case (Inr x)
    then obtain d' where "teardown_slots vm host ss ?db1 = (d', f, db')" "d = Suc d'"
      using Cons.prems(1) by (auto split: prod.splits)
    with Cons.IH [of ?db1] one drops_trans show ?thesis by fastforce
  qed
qed

lemma teardown_batches_ok:
  "teardown_batches vm host bs db = (d, f, db') \<Longrightarrow> grid_ok db \<Longrightarrow>
     grid_ok db' \<and> only_drops db db' \<and> d + f = length (concat bs)"
proof (induction bs arbitrary: db d f)
  case Nil
  then show ?case using same_nodes by simp
next
  case (Cons b bs)
  obtain d1 f1 db1 where one: "teardown_slots vm host b db = (d1, f1, db1)" using prod_cases3 by blast
  obtain d2 f2 where two: "teardown_batches vm host bs db1 = (d2, f2, db')" "d = d1 + d2" "f = f1 + f2"
    using Cons.prems(1) one by (auto split: prod.splits)
  have a: "grid_ok db1 \<and> only_drops db db1 \<and> d1 + f1 = length b" by (rule teardown_slots_ok [OF one Cons.prems(2)])
  then have b: "grid_ok db' \<and> only_drops db1 db' \<and> d2 + f2 = length (concat bs)" using Cons.IH [OF two(1)] by blast
  have "only_drops db db'" using a b drops_trans by blast
  with a b two(2,3) show ?case by simp
qed

lemma chunks_Nil [simp]: "chunks k [] = []"
  by (simp add: chunks.simps)

lemma concat_chunks: "0 < k \<Longrightarrow> concat (chunks k xs) = xs"
proof (induction k xs rule: chunks.induct)
  case (1 k xs)
  then show ?case by (cases "xs = []") (simp_all add: chunks.simps [of k xs])
qed

lemma chunks_bound: "0 < k \<Longrightarrow> b \<in> set (chunks k xs) \<Longrightarrow> 0 < length b \<and> length b \<le> k"
proof (induction k xs rule: chunks.induct)
  case (1 k xs)
  then show ?case by (cases "xs = []") (auto simp: chunks.simps [of k xs])
qed

lemma teardown_ok:
  "graceful_teardown_batch vm k host slots db = (res, db') \<Longrightarrow> grid_ok db \<Longrightarrow> 0 < k \<Longrightarrow>
     grid_ok db' \<and> only_drops db db' \<and> td_destroyed res + td_failed res = td_total res"
  by (auto simp: graceful_teardown_batch_def Let_def concat_chunks split: prod.splits dest!: teardown_batches_ok)

lemma grid_do_ok: "grid_ok db \<Longrightarrow> grid_ok (grid_do c db) \<and> (keeps_assigned db (grid_do c db) \<or> only_drops db (grid_do c db))"
proof (cases c)
  case (AcquireAny vm tie htie locked now i cx session worker preferred account v6 caught)
  assume ok: "grid_ok db"
  obtain r db' where run: "acquire_any vm tie htie locked now i cx session worker preferred account v6 db = (r, db')" by fastforce
  with acquire_ok [OF run ok] same_nodes [of db db] ok show ?thesis by (auto simp: AcquireAny split: sum.splits)
next
  case (HealthTick vm tie htie now ids commits lh lw)
  assume ok: "grid_ok db"
  obtain n lh' lw' kept_db where run: "tick_pppoe_health vm tie htie now ids commits (lh, lw, db) = (n, lh', lw', kept_db)"
    using prod_cases4 by blast
  then show ?thesis using ok same_nodes [of db db] health_tick_ok [of vm tie htie now ids commits lh lw db n lh' lw']
    by (cases kept_db) (simp_all add: HealthTick)
next
  case (TeardownAll vm host)
  assume ok: "grid_ok db"
  obtain r db' where run: "graceful_teardown_all vm host db = (r, db')" by fastforce
  with teardown_ok [OF run [unfolded graceful_teardown_all_def] ok] show ?thesis
    by (simp add: TeardownAll TEARDOWN_BATCH_SIZE_def)
qed (use same_nodes [of db db] in
  \<open>auto simp: done_or_def split: sum.splits dest: provision_ok destroy_ok assign_ok release_ok health_ok rotate_ip_ok\<close>)


interpretation grid_tables: component grid_do grid_ok
  by unfold_locales (simp add: grid_do_ok)

text \<open>
  C12. From consistent tables on, whatever calls were made one after the other, of any workers, tickers and
  operators and with any answers of the machines: a slot has a worker exactly while it is assigned, and no
  further call takes an assigned slot over, so that a slot that is assigned before and after it serves the same
  worker and session since the same time. The call adds and removes no slot.
\<close>

theorem slots_not_taken_over:
  assumes "grid_ok db0" and "db = fold grid_do calls db0"
  shows "(\<forall>n \<in> set (g_nodes db). en_worker n \<noteq> None \<longleftrightarrow> en_state n = ''assigned'')
    \<and> (\<forall>n \<in> set (g_nodes db). \<forall>n' \<in> set (g_nodes (grid_do c db)).
         en_host_id n = en_host_id n' \<and> en_slot n = en_slot n' \<and> en_state n = ''assigned'' \<and> en_state n' = ''assigned''
         \<longrightarrow> en_worker n' = en_worker n \<and> en_session n' = en_session n \<and> en_assigned_at n' = en_assigned_at n)
    \<and> map (\<lambda>n. (en_host_id n, en_slot n)) (g_nodes (grid_do c db)) = map (\<lambda>n. (en_host_id n, en_slot n)) (g_nodes db)"
proof -
  have ok: "grid_ok db" unfolding assms(2) by (rule grid_tables.run_inv [OF assms(1)])
  have step: "grid_ok (grid_do c db)" "keeps_assigned db (grid_do c db) \<or> only_drops db (grid_do c db)"
    using grid_do_ok [OF ok] by blast+
  have "no_takeover db (grid_do c db)"
    using step keeps_no_takeover drops_no_takeover ok by blast
  then have "\<forall>n \<in> set (g_nodes db). \<forall>n' \<in> set (g_nodes (grid_do c db)).
         en_host_id n = en_host_id n' \<and> en_slot n = en_slot n' \<and> en_state n = ''assigned'' \<and> en_state n' = ''assigned''
         \<longrightarrow> en_worker n' = en_worker n \<and> en_session n' = en_session n \<and> en_assigned_at n' = en_assigned_at n"
    by (auto simp: no_takeover_def slot_key_def assignment_def)
  moreover have "same_slots db (grid_do c db)" using step(2) by (auto simp: keeps_assigned_def only_drops_def)
  moreover have "\<forall>n \<in> set (g_nodes db). en_worker n \<noteq> None \<longleftrightarrow> en_state n = ''assigned''"
    using ok by (auto simp: grid_ok_def list_all_iff node_ok_def)
  ultimately show ?thesis unfolding same_slots_def slot_key_def by blast
qed

text \<open>No call makes a row of a slot: tables that start without one stay without.\<close>

lemma no_slot_is_ever_added:
  assumes "grid_ok db"
  shows "map slot_key (g_nodes (fold grid_do calls db)) = map slot_key (g_nodes db)"
  using assms
proof (induction calls arbitrary: db)
  case (Cons c calls)
  from grid_do_ok [OF Cons.prems, of c] have "same_slots db (grid_do c db)" "grid_ok (grid_do c db)"
    by (auto simp: keeps_assigned_def only_drops_def)
  with Cons.IH show ?case by (simp add: same_slots_def)
qed simp

definition VM_UP :: vm_scripts where
  "VM_UP h script args = Some \<lparr> sh_stdout = ''up 1.2.3.4'', sh_ok = True \<rparr>"

definition VM_DOWN :: vm_scripts where
  "VM_DOWN h script args = Some \<lparr> sh_stdout = ''down'', sh_ok = True \<rparr>"

definition MAC_PROFILE :: fp_profile where
  "MAC_PROFILE = \<lparr> fp_id = 7, fp_name = ''Mac M4 Pro'', fp_os = ''macos'', fp_cores = 12, fp_ram_gb = 24,
     fp_webgl_renderer = ''Apple M4'', fp_platform = ''MacIntel'', fp_ch_platform = ''macOS'', fp_ch_version = ''15'',
     fp_ch_arch = ''arm'', fp_screen_width = 1512, fp_screen_height = 982, fp_dpr = 2, fp_cam_name = ''FaceTime'',
     fp_is_mobile = False, fp_ua_template = ''Chrome/{cv}'', fp_canvas_seed = 1, fp_audio_seed = 2,
     fp_timezone = ''UTC'', fp_battery_level = 1, fp_connection_type = ''wifi'' \<rparr>"

definition GRID0 :: grid_db where
  "GRID0 = \<lparr> g_hosts = [\<lparr> eh_id = 1, eh_name = ''mac'', eh_description = [], eh_ssh_user = ''karmantu'', eh_ssh_host = ''vm'',
       eh_ssh_port = 22, eh_scripts_dir = ''/usr/local/bin/xiogrid'', eh_parent_iface = ''enp26s0'', eh_username = ''u'',
       eh_password = ''p'', eh_mac_oui = ''00:50:56:cc'', eh_ts_ip = None, eh_max_slots = 3, eh_warm_pool_target = 1,
       eh_state = ''active'', eh_registered_at = 0, eh_last_seen = None, eh_meta = [] \<rparr>], g_profiles = [MAC_PROFILE],
     g_nodes = [(blank_node 31 1 0)\<lparr> en_state := DESTROYED \<rparr>], g_bindings = [] \<rparr>"

definition GRID_CX :: org_context where
  "GRID_CX = \<lparr> oc_auth_identity_id = 1, oc_actor_id = 2, oc_organization_id = 3, oc_session_id = 4,
     oc_platform_role = PlatformNone, oc_membership_role = OrgMember \<rparr>"

definition GRID1 :: grid_db where
  "GRID1 = fold grid_do [ProvisionSlot VM_UP 5 11 1 0, AssignToWorker VM_UP 5 1 0 ''w1'' ''s1'' None] GRID0"

lemma GRID_evals:
  "(map (\<lambda>n. (en_host_id n, en_slot n, en_state n, en_worker n)) (g_nodes GRID1),
    map (\<lambda>n. (en_host_id n, en_slot n, en_state n)) (g_nodes (grid_do (HealthCheckSlot VM_UP 6 1 0) GRID1)))
   = ([(1, 0, ''assigned'', Some ''w1'')], [(1, 0, ''assigned'')])"
  by code_simp

theorem slots_not_taken_over_witness:
  "\<exists>n \<in> set (g_nodes GRID1). \<exists>n' \<in> set (g_nodes (grid_do (HealthCheckSlot VM_UP 6 1 0) GRID1)).
     en_state n' = ''assigned'' \<and> en_worker n' = en_worker n \<and> en_worker n = Some ''w1''"
proof -
  obtain n where n: "g_nodes GRID1 = [n]" using GRID_evals by (auto simp: map_eq_Cons_conv)
  obtain n' where n': "g_nodes (grid_do (HealthCheckSlot VM_UP 6 1 0) GRID1) = [n']"
    using GRID_evals by (auto simp: map_eq_Cons_conv)
  have a: "en_host_id n = 1" "en_slot n = 0" "en_state n = ''assigned''" "en_worker n = Some ''w1''"
    using GRID_evals n by simp_all
  have b: "en_host_id n' = 1" "en_slot n' = 0" "en_state n' = ''assigned''" using GRID_evals n' by simp_all
  have "grid_ok GRID0" by (simp add: grid_ok_def GRID0_def node_ok_def SLOT_STATES_def blank_node_def slot_key_def)
  from slots_not_taken_over [OF this GRID1_def, of "HealthCheckSlot VM_UP 6 1 0"]
  have "en_worker n' = en_worker n" unfolding n n' using a b by simp
  with n n' a b show ?thesis by (auto simp del: grid_do.simps)
qed

text \<open>
  C23. An account keeps its address: if the slot it is bound to is idle on an active host and the route can be
  set, the account gets that very slot, with the address the slot has, whatever other slots are idle.
\<close>

theorem account_keeps_slot:
  assumes "account \<noteq> []" and "find_binding (oc_organization_id cx) account db = Some b"
    and "find_host (ib_host_id b) db = Some host" and "eh_state host = ''active''"
    and "find_node (ib_host_id b) (ib_slot b) db = Some n" and "en_state n = ''idle''"
    and "\<exists>out. vm host ''assign-route.sh'' (route_args worker (ib_slot b) v6) = Some \<lparr> sh_stdout = out, sh_ok = True \<rparr>"
  shows "\<exists>r db'. acquire_any vm tie htie locked now i cx session worker preferred (Some account) v6 db = (Inr r, db')
    \<and> en_host_id (lr_node r) = ib_host_id b \<and> en_slot (lr_node r) = ib_slot b
    \<and> en_public_ip (lr_node r) = en_public_ip n \<and> en_worker (lr_node r) = Some worker"
proof -
  let ?db1 = "set_binding (oc_organization_id cx) account
    (use_binding now (ib_host_id b) (ib_slot b) (en_public_ip n) (en_public_ipv6 n)) db"
  have host: "get_host (ib_host_id b) ?db1 = Inr host" using assms(3,4) by (simp add: get_host_def find_host_def)
  have node: "get_node (ib_host_id b) (ib_slot b) ?db1 = Inr n" using assms(5) by (simp add: get_node_def find_node_def)
  have place: "en_host_id n = ib_host_id b \<and> en_slot n = ib_slot b"
    using find_node_Some [OF assms(5)] by (simp add: slot_key_def)
  have route: "\<exists>x. require_ok (vm host ''assign-route.sh'' (route_args worker (ib_slot b) v6)) = Inr x"
    using assms(7) by (auto simp: require_ok_def)
  obtain r db' where a: "assign_to_worker vm now (ib_host_id b) (ib_slot b) worker session v6 ?db1 = Inr (r, db')"
    and r: "lr_node r = assign_row now worker session v6 n"
    using host node route assms(6) by (auto simp: assign_to_worker_def to_record_def Let_def)
  have up: "en_state n \<notin> {DESTROYED, DOWN}" using assms(6) by simp
  have "acquire_bound vm tie now (oc_organization_id cx) account worker session v6 db = (Some (Inr r), db')"
    unfolding acquire_bound_def Let_def assms(2,5) option.case if_P [OF up] by (simp add: kept_def a)
  moreover have "filled (Some account)" using assms(1) by (simp add: filled_def)
  ultimately have "acquire_any vm tie htie locked now i cx session worker preferred (Some account) v6 db = (Inr r, db')"
    by (simp add: acquire_any_def)
  with r place show ?thesis by (auto simp: assign_row_def)
qed

definition GRID_FREE :: grid_db where
  "GRID_FREE = GRID0\<lparr> g_nodes := [(blank_node 11 1 0)\<lparr> en_state := ''idle'', en_public_ip := Some ''1.2.3.4'' \<rparr>],
     g_bindings := [\<lparr> ib_organization_id = 3, ib_account = ''a@x'', ib_host_id = 1, ib_slot = 0, ib_last_used_at = None,
       ib_total_sessions = 1, ib_last_ip = None, ib_last_ipv6 = None \<rparr>] \<rparr>"

lemma GRID_FREE_binding: "map_option (\<lambda>b. (ib_host_id b, ib_slot b)) (find_binding 3 ''a@x'' GRID_FREE) = Some (1, 0)"
  by (simp add: GRID_FREE_def GRID0_def find_binding_def is_binding_def find_host_def find_node_def at_slot_def blank_node_def)

lemma GRID_FREE_host: "map_option eh_state (find_host 1 GRID_FREE) = Some ''active''"
  by (simp add: GRID_FREE_def GRID0_def find_binding_def is_binding_def find_host_def find_node_def at_slot_def blank_node_def)

lemma GRID_FREE_node: "map_option (\<lambda>n. (en_state n, en_public_ip n)) (find_node 1 0 GRID_FREE) = Some (''idle'', Some ''1.2.3.4'')"
  by (simp add: GRID_FREE_def GRID0_def find_binding_def is_binding_def find_host_def find_node_def at_slot_def blank_node_def)

theorem account_keeps_slot_witness:
  "\<exists>r db'. acquire_any VM_UP (\<lambda>_. 0) (\<lambda>_. 0) {} 9 12 GRID_CX ''s2'' ''w2'' None (Some ''a@x'') None GRID_FREE = (Inr r, db')
     \<and> en_slot (lr_node r) = 0 \<and> en_public_ip (lr_node r) = Some ''1.2.3.4''"
proof -
  from GRID_FREE_binding obtain b where b: "find_binding 3 ''a@x'' GRID_FREE = Some b" "ib_host_id b = 1" "ib_slot b = 0" by auto
  from GRID_FREE_host obtain host where h: "find_host 1 GRID_FREE = Some host" "eh_state host = ''active''" by auto
  from GRID_FREE_node obtain n where n: "find_node 1 0 GRID_FREE = Some n" "en_state n = ''idle''" "en_public_ip n = Some ''1.2.3.4''" by auto
  have "oc_organization_id GRID_CX = 3" by (simp add: GRID_CX_def)
  with account_keeps_slot [of "''a@x''" GRID_CX GRID_FREE b host n VM_UP "''w2''" None] b h n
  show ?thesis by (fastforce simp: VM_UP_def)
qed


section \<open>Further facts of the slots\<close>

text \<open>The ranges cover the 981 slots of a host, each once.\<close>

lemma profile_of_range:
  assumes "(lo, hi, name) \<in> set SLOT_PROFILE_RANGES" and "lo \<le> slot" and "slot \<le> hi"
  shows "profile_name_for_slot slot = name"
proof -
  have "(lo, hi, name) = (0, 199, ''Mac M4 Pro'') \<or> (lo, hi, name) = (200, 349, ''Mac M2 Air'')
    \<or> (lo, hi, name) = (350, 449, ''Mac M1 Pro'') \<or> (lo, hi, name) = (450, 649, ''Windows 11 Intel i7'')
    \<or> (lo, hi, name) = (650, 749, ''Windows 11 AMD Ryzen'') \<or> (lo, hi, name) = (750, 849, ''Linux Ubuntu x86'')
    \<or> (lo, hi, name) = (850, 899, ''ChromeOS x86'') \<or> (lo, hi, name) = (900, 980, ''Android Samsung S23'')"
    using assms(1) unfolding SLOT_PROFILE_RANGES_def by simp
  then show ?thesis
    by (elim disjE) (use assms(2,3) in \<open>simp_all add: profile_name_for_slot_def SLOT_PROFILE_RANGES_def\<close>)
qed

lemma ranges_cover:
  "0 \<le> slot \<Longrightarrow> slot \<le> 980 \<Longrightarrow> \<exists>(lo, hi, name) \<in> set SLOT_PROFILE_RANGES. lo \<le> slot \<and> slot \<le> hi"
  by (simp add: SLOT_PROFILE_RANGES_def) presburger

text \<open>An account bound to a slot that is assigned, connecting or reconnecting gets no slot at all, though its binding counts a session.\<close>

lemma bound_busy_refused:
  assumes "account \<noteq> ''''" and "find_binding (oc_organization_id cx) account db = Some b"
    and "find_host (ib_host_id b) db = Some host" and "eh_state host = ''active''"
    and "find_node (ib_host_id b) (ib_slot b) db = Some n" and "en_state n \<in> {ASSIGNED, CONNECTING, RECONNECTING}"
  shows "\<exists>db'. acquire_any vm tie htie locked now i cx session worker preferred (Some account) v6 db
      = (Inl (SlotNotIdle (ib_slot b) (en_state n)), db')
    \<and> map_option ib_total_sessions (find_binding (oc_organization_id cx) account db') = Some (ib_total_sessions b + 1)"
proof -
  let ?use = "use_binding now (ib_host_id b) (ib_slot b) (en_public_ip n) (en_public_ipv6 n)"
  let ?db1 = "set_binding (oc_organization_id cx) account ?use db"
  have up: "en_state n \<notin> {DESTROYED, DOWN}" and busy: "en_state n \<noteq> IDLE" using assms(6) by auto
  have "assign_to_worker vm now (ib_host_id b) (ib_slot b) worker session v6 ?db1 = Inl (SlotNotIdle (ib_slot b) (en_state n))"
    using assms(3-5) busy by (simp add: assign_to_worker_def get_host_def find_host_def get_node_def find_node_def)
  then have "acquire_bound vm tie now (oc_organization_id cx) account worker session v6 db
      = (Some (Inl (SlotNotIdle (ib_slot b) (en_state n))), ?db1)"
    unfolding acquire_bound_def Let_def assms(2,5) option.case if_P [OF up] by (simp add: kept_def)
  moreover have "filled (Some account)" using assms(1) by (simp add: filled_def)
  moreover have "map_option ib_total_sessions (find_binding (oc_organization_id cx) account ?db1) = Some (ib_total_sessions b + 1)"
    using assms(2) find_Some_iff_mem [of "is_binding (oc_organization_id cx) account" "g_bindings db" b]
    by (simp add: find_binding_def set_binding_def find_update_where is_binding_def) (simp add: use_binding_def)
  ultimately show ?thesis by (simp add: acquire_any_def)
qed

text \<open>A release makes a slot idle whatever its state: a slot that was torn down is handed out again.\<close>

lemma release_revives_destroyed:
  assumes "get_host h db = Inr host" and "find_node h slot db = Some n" and "en_state n = DESTROYED" and "en_worker n = None"
  shows "\<exists>r db'. release_from_worker vm h slot db = Inr (r, db') \<and> lr_node r \<in> set (g_nodes db')
    \<and> slot_key (lr_node r) = (h, slot) \<and> en_state (lr_node r) = IDLE"
proof -
  let ?f = "\<lambda>n. (unassign n)\<lparr> en_state := IDLE \<rparr>"
  note place = find_node_Some [OF assms(2)]
  have "?f n \<in> set (g_nodes (set_node h slot ?f db))" using place by (auto simp: set_node_nodes set_update_where)
  moreover have "slot_key (?f n) = (h, slot)" using place by (simp add: slot_key_def unassign_def)
  ultimately show ?thesis
    using assms by (simp add: release_from_worker_def get_node_def filled_def to_record_def)
qed

text \<open>
  The warm pool takes the least free slot and stops a host at the first error: while that slot cannot be
  created, nothing is added on the host, however many other slots are free.
\<close>

lemma warm_pool_stuck:
  assumes "next_free_slot h db = Inr slot" and "provision_slot vm now (ids (k - 1)) h slot db = Inl e"
  shows "top_up_host vm now ids h k db = Inr (0, db) \<or> top_up_host vm now ids h k db = Inl OrganizationRequired"
  using assms by (cases k) simp_all

text \<open>The mass teardown leaves the session, the proxy and the time of the assignment on the slot; \<open>destroy_slot\<close> clears them.\<close>

lemma teardown_leaves_session:
  "en_session (teardown_row n) = en_session n \<and> en_proxy_url (teardown_row n) = en_proxy_url n
    \<and> en_session (destroy_row n) = None \<and> en_proxy_url (destroy_row n) = None"
  by (simp add: teardown_row_def destroy_row_def)

text \<open>Every slot of a teardown is tried once, in batches of at most twenty, and is counted.\<close>

lemma teardown_counts:
  assumes "graceful_teardown_batch vm k host slots db = (res, db')" and "grid_ok db" and "0 < k"
  shows "td_destroyed res + td_failed res = td_total res \<and> td_total res = length slots
    \<and> (\<forall>b \<in> set (chunks k slots). length b \<le> k) \<and> td_batches res = length (chunks k slots)"
proof -
  have "td_total res = length slots \<and> td_batches res = length (chunks k slots)"
    using assms(1) by (auto simp: graceful_teardown_batch_def Let_def split: prod.splits)
  then show ?thesis using teardown_ok [OF assms] chunks_bound [OF assms(3)] by blast
qed

end
