(* ===== verification/Fleet.thy ===== *)
theory Fleet
  imports Provenance ExitNodes
begin

text \<open>
  The fleet of \<^verbatim>\<open>subsystems/xiogrid\<close> above the exit nodes: browser pools (\<^verbatim>\<open>services/browser_pools.py\<close>),
  browser sessions (\<^verbatim>\<open>services/browser_sessions.py\<close>), compute runtimes (\<^verbatim>\<open>services/compute_runtimes.py\<close>),
  mesh networks (\<^verbatim>\<open>services/mesh_networks.py\<close>), the registration of hosts (\<^verbatim>\<open>services/pppoe_hosts.py\<close>) and the
  capacity sync of \<^verbatim>\<open>worker/pppoe_health.py\<close>, over the tables of \<^verbatim>\<open>models/browser.py\<close>.

  Parameters: the scripts of the machines, whether the debugging port of a browser answers, the order of
  rows that a query leaves unsorted, the clock and fresh identifiers. \<open>RowRefused\<close> is the exception of a
  flush whose row a constraint of the table refuses.
\<close>

section \<open>Tables\<close>

type_synonym json = "(string \<times> pyval) list"

record pool_row =
  po_id :: uuid
  po_organization_id :: uuid
  po_project_id :: "uuid option"
  po_name :: string
  po_engine_type :: string
  po_max_instances :: int
  po_stealth_config :: json
  po_state :: string
  po_created_at :: datetime
  po_updated_at :: "datetime option"

record browser_row =
  bs_id :: uuid
  bs_organization_id :: uuid
  bs_project_id :: "uuid option"
  bs_pool_id :: uuid
  bs_session_data :: json
  bs_state :: string
  bs_created_at :: datetime
  bs_updated_at :: "datetime option"
  bs_exit_node_id :: "uuid option"
  bs_host_id :: "uuid option"
  bs_slot :: "int option"
  bs_proxy_url :: "string option"
  bs_public_ip :: "string option"
  bs_worker_ts_ip :: "string option"

record runtime_row =
  rt_id :: uuid
  rt_organization_id :: uuid
  rt_project_id :: "uuid option"
  rt_name :: string
  rt_provider :: string
  rt_config :: json
  rt_state :: string
  rt_created_at :: datetime

record node_row =
  nd_id :: uuid
  nd_organization_id :: uuid
  nd_project_id :: "uuid option"
  nd_runtime_id :: uuid
  nd_hostname :: string
  nd_metadata :: json
  nd_state :: string
  nd_created_at :: datetime

record network_row =
  nw_id :: uuid
  nw_organization_id :: uuid
  nw_project_id :: "uuid option"
  nw_name :: string
  nw_network_type :: string
  nw_config :: json
  nw_state :: string
  nw_created_at :: datetime

record mesh_row =
  me_id :: uuid
  me_organization_id :: uuid
  me_project_id :: "uuid option"
  me_network_id :: uuid
  me_node_id :: uuid
  me_address :: string
  me_runtime_type :: "string option"
  me_created_at :: datetime

record fleet_db = prov_db +
  fl_pools :: "pool_row list"
  fl_sessions :: "browser_row list"
  fl_runtimes :: "runtime_row list"
  fl_nodes :: "node_row list"
  fl_networks :: "network_row list"
  fl_mesh :: "mesh_row list"
  fl_grid :: grid_db

datatype fleet_error =
    BrowserPoolNotFound uuid
  | UnsupportedEngine string
  | BrowserSessionNotFound uuid
  | InvalidSessionState string
  | RuntimeNotFound uuid
  | NodeNotFound uuid
  | NetworkNotFound uuid
  | MeshNodeNotFound uuid uuid
  | ExitHostNotFound uuid
  | PingFailed
  | ProbeFailed
  | RowRefused
  | EventFailed prov_error

section \<open>The operation and the event of a change\<close>

text \<open>Rows added to the session directly: only the constraints of their tables are checked.\<close>

definition add_operation ::
  "org_context \<Rightarrow> uuid \<Rightarrow> datetime \<Rightarrow> string \<Rightarrow> string \<Rightarrow> string option \<Rightarrow> string option \<Rightarrow> string option \<Rightarrow> string option
   \<Rightarrow> string option \<Rightarrow> 'z operation_db_scheme \<Rightarrow> fleet_error + 'z operation_db_scheme" where
  "add_operation cx i now operation trigger scope outcome from_state to_state rationale db =
     (let r = operation_of_args cx i now
        \<lparr> oa_actor_id = oc_actor_id cx, oa_operation = operation, oa_trigger = trigger, oa_initiated_by = oc_actor_id cx,
          oa_from_state = from_state, oa_to_state = to_state, oa_collaborators = [], oa_scope = scope,
          oa_parent_operation_id = None, oa_artifacts = None, oa_rationale = rationale, oa_outcome = outcome \<rparr> 0
      in if operation_allowed db r then Inr (db\<lparr> od_operations := od_operations db @ [r] \<rparr>) else Inl RowRefused)"

definition add_event ::
  "org_context \<Rightarrow> uuid \<Rightarrow> datetime \<Rightarrow> string \<Rightarrow> string \<Rightarrow> uuid \<Rightarrow> string \<Rightarrow> uuid \<Rightarrow> json \<Rightarrow> 'z prov_db_scheme
   \<Rightarrow> fleet_error + 'z prov_db_scheme" where
  "add_event cx i now event_type severity operation entity_type entity payload db =
     (if severity \<notin> set SEVERITIES then Inl RowRefused
      else Inr (db\<lparr> pv_events := pv_events db @
        [\<lparr> se_id = i, se_organization_id = oc_organization_id cx, se_actor_id = Some (oc_actor_id cx),
           se_event_type = event_type, se_payload = payload, se_created_at = now, se_severity = severity,
           se_correlation_id = None, se_operation_id = Some operation, se_entity_type = Some entity_type,
           se_entity_id = Some entity \<rparr>] \<rparr>))"

record change_ids =
  ci_row :: uuid
  ci_operation :: uuid
  ci_event :: uuid

section \<open>Browser pools\<close>

definition ENGINE_TYPES :: "string list" where
  "ENGINE_TYPES = [''chromium'', ''chrome'', ''firefox'', ''webkit'', ''custom'']"

definition int32 :: "int \<Rightarrow> bool" where
  "int32 n \<longleftrightarrow> - (2 ^ 31) \<le> n \<and> n < 2 ^ 31"

definition find_pool :: "uuid \<Rightarrow> uuid \<Rightarrow> fleet_db \<Rightarrow> pool_row option" where
  "find_pool org i db = find (\<lambda>p. po_id p = i \<and> po_organization_id p = org) (fl_pools db)"

definition create_pool ::
  "org_context \<Rightarrow> change_ids \<Rightarrow> datetime \<Rightarrow> string \<Rightarrow> string \<Rightarrow> int \<Rightarrow> json option \<Rightarrow> fleet_db \<Rightarrow> fleet_error + pool_row \<times> fleet_db" where
  "create_pool cx ids now name engine_type max_instances config db =
     (if engine_type \<notin> set ENGINE_TYPES then Inl (UnsupportedEngine engine_type)
      else
        let org = oc_organization_id cx;
            p = \<lparr> po_id = ci_row ids, po_organization_id = org, po_project_id = None, po_name = name,
              po_engine_type = engine_type, po_max_instances = max_instances,
              po_stealth_config = (case config of None \<Rightarrow> [] | Some d \<Rightarrow> d), po_state = ''active'',
              po_created_at = now, po_updated_at = None \<rparr>
        in if list_ex (\<lambda>q. po_id q = ci_row ids \<or> po_organization_id q = org \<and> po_name q = name) (fl_pools db)
              \<or> \<not> int32 max_instances
           then Inl RowRefused
           else
             rbind (add_operation cx (ci_operation ids) now ''browser.pool.create'' ''user_command'' (Some ''organization'')
               (Some ''success'') None None (Some (''Created browser pool: '' @ name)) (db\<lparr> fl_pools := fl_pools db @ [p] \<rparr>)) (\<lambda>db1.
             rbind (add_event cx (ci_event ids) now ''browser_pool.created'' ''info'' (ci_operation ids) ''browser_pool'' (ci_row ids)
               [(''name'', PStr name), (''engine_type'', PStr engine_type), (''max_instances'', PInt max_instances)] db1) (\<lambda>db2.
               Inr (p, db2))))"

definition get_pool :: "org_context \<Rightarrow> uuid \<Rightarrow> fleet_db \<Rightarrow> fleet_error + pool_row" where
  "get_pool cx i db = (case find_pool (oc_organization_id cx) i db of None \<Rightarrow> Inl (BrowserPoolNotFound i) | Some p \<Rightarrow> Inr p)"

definition list_pools :: "(pool_row \<Rightarrow> nat) \<Rightarrow> org_context \<Rightarrow> uuid option \<Rightarrow> fleet_db \<Rightarrow> pool_row list" where
  "list_pools tie cx project db =
     sort_key (\<lambda>p. - po_created_at p) (sort_key tie (filter (\<lambda>p. po_organization_id p = oc_organization_id cx
       \<and> (project = None \<or> po_project_id p = project)) (fl_pools db)))"

definition scale_pool ::
  "org_context \<Rightarrow> change_ids \<Rightarrow> datetime \<Rightarrow> uuid \<Rightarrow> int \<Rightarrow> fleet_db \<Rightarrow> fleet_error + pool_row \<times> fleet_db" where
  "scale_pool cx ids now i target db =
     (case find_pool (oc_organization_id cx) i db of
        None \<Rightarrow> Inl (BrowserPoolNotFound i)
      | Some p \<Rightarrow>
          let f = (\<lambda>q. q\<lparr> po_max_instances := target, po_updated_at := Some now \<rparr>)
          in if \<not> int32 target then Inl RowRefused
             else
               rbind (add_operation cx (ci_operation ids) now ''browser.pool.scale'' ''user_command'' (Some ''organization'')
                 (Some ''success'') None None (Some (''Scaled browser pool '' @ po_name p @ '' to '' @ int_str target @ '' instances''))
                 (db\<lparr> fl_pools := update_where (\<lambda>q. po_id q = i) f (fl_pools db) \<rparr>)) (\<lambda>db1.
               rbind (add_event cx (ci_event ids) now ''browser_pool.scaled'' ''info'' (ci_operation ids) ''browser_pool'' i
                 [(''old_instances'', PInt (po_max_instances p)), (''new_instances'', PInt target)] db1) (\<lambda>db2.
                 Inr (f p, db2))))"

text \<open>Deleting a pool deletes its sessions.\<close>

definition destroy_pool :: "org_context \<Rightarrow> change_ids \<Rightarrow> datetime \<Rightarrow> uuid \<Rightarrow> fleet_db \<Rightarrow> fleet_error + fleet_db" where
  "destroy_pool cx ids now i db =
     (case find_pool (oc_organization_id cx) i db of
        None \<Rightarrow> Inl (BrowserPoolNotFound i)
      | Some p \<Rightarrow>
          rbind (add_operation cx (ci_operation ids) now ''browser.pool.destroy'' ''user_command'' (Some ''organization'')
            (Some ''success'') None None (Some (''Destroyed browser pool: '' @ po_name p))
            (db\<lparr> fl_pools := filter (\<lambda>q. po_id q \<noteq> i) (fl_pools db),
                 fl_sessions := filter (\<lambda>s. bs_pool_id s \<noteq> i) (fl_sessions db) \<rparr>)) (\<lambda>db1.
          add_event cx (ci_event ids) now ''browser_pool.destroyed'' ''warning'' (ci_operation ids) ''browser_pool'' i
            [(''name'', PStr (po_name p))] db1))"

text \<open>The capacity sync of the ticker: every pool gets the number of idle and assigned slots.\<close>

definition pool_capacity :: "grid_db \<Rightarrow> int" where
  "pool_capacity g = int (length (filter (\<lambda>n. en_state n \<in> {''idle'', ''assigned''}) (g_nodes g)))"

definition reconcile_pool_capacity :: "datetime \<Rightarrow> fleet_db \<Rightarrow> nat \<times> fleet_db" where
  "reconcile_pool_capacity now db =
     (let n = pool_capacity (fl_grid db); stale = (\<lambda>p. po_max_instances p \<noteq> n)
      in (length (filter stale (fl_pools db)),
          db\<lparr> fl_pools := update_where stale (\<lambda>p. p\<lparr> po_max_instances := n, po_updated_at := Some now \<rparr>) (fl_pools db) \<rparr>))"

text \<open>
  The health ticker with its capacity sync: a pool to update is what makes it commit. When the warm pool was
  refused a slot the sync raises, and nothing is kept.
\<close>

definition capacity_stale :: "pool_row list \<Rightarrow> grid_db \<Rightarrow> bool" where
  "capacity_stale pools g \<longleftrightarrow> list_ex (\<lambda>p. po_max_instances p \<noteq> pool_capacity g) pools"

definition health_tick ::
  "vm_scripts \<Rightarrow> (exit_node \<Rightarrow> nat) \<Rightarrow> (exit_host \<Rightarrow> nat) \<Rightarrow> datetime \<Rightarrow> (uuid \<Rightarrow> nat \<Rightarrow> uuid)
   \<Rightarrow> datetime option \<times> datetime option \<Rightarrow> fleet_db \<Rightarrow> nat \<times> (datetime option \<times> datetime option) \<times> fleet_db" where
  "health_tick vm tie htie now ids runs db =
     (case tick_pppoe_health vm tie htie now ids (capacity_stale (fl_pools db)) (fst runs, snd runs, fl_grid db) of
        (n, health, warm, kept_grid) \<Rightarrow>
          (n, (health, warm),
           case kept_grid of None \<Rightarrow> db | Some g \<Rightarrow> snd (reconcile_pool_capacity now (db\<lparr> fl_grid := g \<rparr>))))"

section \<open>Browser sessions\<close>

definition find_browser_session :: "uuid \<Rightarrow> uuid \<Rightarrow> fleet_db \<Rightarrow> browser_row option" where
  "find_browser_session org i db = find (\<lambda>s. bs_id s = i \<and> bs_organization_id s = org) (fl_sessions db)"

text \<open>A text of the configuration; an absent or empty one is None.\<close>

definition config_text :: "string \<Rightarrow> json option \<Rightarrow> string option" where
  "config_text k config =
     (case config of
        None \<Rightarrow> None
      | Some d \<Rightarrow> (case map_of d k of Some (PStr s) \<Rightarrow> if s = [] then None else Some s | _ \<Rightarrow> None))"

definition link_node :: "uuid \<Rightarrow> slot_record \<Rightarrow> grid_db \<Rightarrow> grid_db" where
  "link_node session r g =
     g\<lparr> g_nodes := update_where (\<lambda>n. en_id n = en_id (lr_node r)) (en_session_update (\<lambda>_. Some (uuid_str session))) (g_nodes g) \<rparr>"

text \<open>
  An exit node is acquired if the configuration names the address of a worker. What that raises is logged, and
  the session is made without one; but after a flush that the database refused, the session of the database
  takes no further statement, and the call fails.
\<close>

definition acquire_exit ::
  "vm_scripts \<Rightarrow> (exit_node \<Rightarrow> nat) \<Rightarrow> (exit_host \<Rightarrow> nat) \<Rightarrow> uuid set \<Rightarrow> uuid \<Rightarrow> org_context \<Rightarrow> datetime \<Rightarrow> json option
   \<Rightarrow> grid_db \<Rightarrow> fleet_error + slot_record option \<times> grid_db" where
  "acquire_exit vm tie htie locked new_node cx now config g =
     (case config_text ''worker_ts_ip'' config of
        None \<Rightarrow> Inr (None, g)
      | Some w \<Rightarrow>
          (case acquire_any vm tie htie locked now new_node cx ''pending'' w None (config_text ''google_account'' config) None g of
             (Inl e, g') \<Rightarrow> if e = OrganizationRequired then Inl RowRefused else Inr (None, g')
           | (Inr r, g') \<Rightarrow> Inr (Some r, g')))"

definition browser_session_row ::
  "org_context \<Rightarrow> uuid \<Rightarrow> datetime \<Rightarrow> pool_row \<Rightarrow> json option \<Rightarrow> slot_record option \<Rightarrow> browser_row" where
  "browser_session_row cx i now pool config acquired =
     \<lparr> bs_id = i, bs_organization_id = oc_organization_id cx, bs_project_id = po_project_id pool,
       bs_pool_id = po_id pool, bs_session_data = (case config of None \<Rightarrow> [] | Some d \<Rightarrow> d),
       bs_state = ''initializing'', bs_created_at = now, bs_updated_at = None,
       bs_exit_node_id = map_option (\<lambda>r. en_id (lr_node r)) acquired,
       bs_host_id = map_option (\<lambda>r. en_host_id (lr_node r)) acquired,
       bs_slot = map_option (\<lambda>r. en_slot (lr_node r)) acquired,
       bs_proxy_url = (case acquired of None \<Rightarrow> None | Some r \<Rightarrow> en_proxy_url (lr_node r)),
       bs_public_ip = (case acquired of None \<Rightarrow> None | Some r \<Rightarrow> en_public_ip (lr_node r)),
       bs_worker_ts_ip = (if acquired = None then None else config_text ''worker_ts_ip'' config) \<rparr>"

definition insert_session ::
  "org_context \<Rightarrow> change_ids \<Rightarrow> datetime \<Rightarrow> browser_row \<Rightarrow> grid_db \<Rightarrow> fleet_db \<Rightarrow> fleet_error + fleet_db" where
  "insert_session cx ids now s g db =
     (if bs_id s \<in> bs_id ` set (fl_sessions db) then Inl RowRefused
      else
        rbind (add_operation cx (ci_operation ids) now ''browser.session.create'' ''user_command'' (Some ''organization'')
          (Some ''success'') None None (Some (''Created browser session for pool: '' @ uuid_str (bs_pool_id s)))
          (db\<lparr> fl_grid := g, fl_sessions := fl_sessions db @ [s] \<rparr>)) (\<lambda>db1.
        add_event cx (ci_event ids) now ''browser_session.created'' ''info'' (ci_operation ids) ''browser_session''
          (bs_id s) [(''pool_id'', PStr (uuid_str (bs_pool_id s)))] db1))"

definition create_browser_session ::
  "vm_scripts \<Rightarrow> (exit_node \<Rightarrow> nat) \<Rightarrow> (exit_host \<Rightarrow> nat) \<Rightarrow> uuid set \<Rightarrow> uuid \<Rightarrow> org_context \<Rightarrow> change_ids \<Rightarrow> datetime \<Rightarrow> uuid
   \<Rightarrow> json option \<Rightarrow> fleet_db \<Rightarrow> fleet_error + browser_row \<times> fleet_db" where
  "create_browser_session vm tie htie locked new_node cx ids now pool_id config db =
     (case find_pool (oc_organization_id cx) pool_id db of
        None \<Rightarrow> Inl (BrowserPoolNotFound pool_id)
      | Some pool \<Rightarrow>
          rbind (acquire_exit vm tie htie locked new_node cx now config (fl_grid db)) (\<lambda>(acquired, g).
            let s = browser_session_row cx (ci_row ids) now pool config acquired
            in rbind (insert_session cx ids now s (case acquired of None \<Rightarrow> g | Some r \<Rightarrow> link_node (ci_row ids) r g) db)
                 (\<lambda>db'. Inr (s, db'))))"

definition SESSION_STATES :: "string list" where
  "SESSION_STATES = [''initializing'', ''active'', ''suspended'', ''terminated'', ''failed'']"

definition set_session_state :: "datetime \<Rightarrow> uuid \<Rightarrow> string \<Rightarrow> string option \<Rightarrow> fleet_db \<Rightarrow> fleet_error + fleet_db" where
  "set_session_state now i state worker db =
     (if state \<notin> set SESSION_STATES then Inl (InvalidSessionState state)
      else Inr (db\<lparr> fl_sessions := update_where (\<lambda>s. bs_id s = i)
        (\<lambda>s. s\<lparr> bs_state := state, bs_updated_at := Some now,
               bs_worker_ts_ip := (if worker = None then bs_worker_ts_ip s else worker) \<rparr>) (fl_sessions db) \<rparr>))"

definition second :: int where "second = 1000000"

definition escalate :: "string \<Rightarrow> string" where
  "escalate status = (if status = ''healthy'' then ''soon'' else if status = ''soon'' then ''immediate'' else status)"

text \<open>
  The health of a session. \<open>probe\<close> is the connection to its debugging port, made if address and port are known:
  whether it is reached, or None where the call itself raises (a port that is not a number).
\<close>

definition idle_status :: "int \<Rightarrow> string" where
  "idle_status idle = (if idle > 600 * second then ''immediate'' else if idle > 300 * second then ''soon'' else ''healthy'')"

definition session_status :: "(string \<Rightarrow> pyval \<Rightarrow> bool option) \<Rightarrow> datetime \<Rightarrow> browser_row \<Rightarrow> string option" where
  "session_status probe now s =
     (if bs_state s \<in> {''terminated'', ''failed''} then Some ''dead''
      else if bs_state s = ''suspended'' then Some ''soon''
      else if bs_state s = ''initializing''
      then Some (if now - bs_created_at s > 180 * second then ''immediate'' else ''healthy'')
      else
        let status = idle_status (now - (case bs_updated_at s of None \<Rightarrow> bs_created_at s | Some t \<Rightarrow> t));
            port = get_none (bs_session_data s) ''port''
        in if filled (bs_worker_ts_ip s) \<and> py_truthy port
           then map_option (\<lambda>reached. if reached then status else escalate status) (probe (the (bs_worker_ts_ip s)) port)
           else Some status)"

definition verify_session ::
  "(string \<Rightarrow> pyval \<Rightarrow> bool option) \<Rightarrow> org_context \<Rightarrow> change_ids \<Rightarrow> datetime \<Rightarrow> uuid \<Rightarrow> fleet_db \<Rightarrow> fleet_error + string \<times> fleet_db" where
  "verify_session probe cx ids now i db =
     (case find_browser_session (oc_organization_id cx) i db of
        None \<Rightarrow> Inl (BrowserSessionNotFound i)
      | Some s \<Rightarrow>
          (case session_status probe now s of
             None \<Rightarrow> Inl ProbeFailed
           | Some status \<Rightarrow>
               rbind (add_operation cx (ci_operation ids) now ''browser.session.verify'' ''system_check'' (Some ''organization'')
                 (Some ''success'') None None (Some (''Verified session health: '' @ status)) db) (\<lambda>db1.
               rbind (add_event cx (ci_event ids) now ''browser_session.verified'' ''info'' (ci_operation ids) ''browser_session'' i
                 [(''status'', PStr status)] db1) (\<lambda>db2.
                 Inr (status, db2)))))"

definition terminate_session ::
  "vm_scripts \<Rightarrow> org_context \<Rightarrow> change_ids \<Rightarrow> datetime \<Rightarrow> uuid \<Rightarrow> fleet_db \<Rightarrow> fleet_error + fleet_db" where
  "terminate_session vm cx ids now i db =
     (case find_browser_session (oc_organization_id cx) i db of
        None \<Rightarrow> Inl (BrowserSessionNotFound i)
      | Some s \<Rightarrow>
          let g = (case (bs_host_id s, bs_slot s) of
                 (Some h, Some slot) \<Rightarrow> done_or (fl_grid db) (release_from_worker vm h slot (fl_grid db))
               | _ \<Rightarrow> fl_grid db);
              f = (\<lambda>s. s\<lparr> bs_state := ''terminated'', bs_updated_at := Some now \<rparr>)
          in rbind (add_operation cx (ci_operation ids) now ''browser.session.terminate'' ''user_command'' (Some ''organization'')
               (Some ''success'') (Some (bs_state s)) (Some ''terminated'') (Some ''Terminated browser session'')
               (db\<lparr> fl_grid := g, fl_sessions := update_where (\<lambda>s. bs_id s = i) f (fl_sessions db) \<rparr>)) (\<lambda>db1.
             add_event cx (ci_event ids) now ''browser_session.terminated'' ''info'' (ci_operation ids) ''browser_session'' i [] db1))"

definition list_browser_sessions ::
  "(browser_row \<Rightarrow> nat) \<Rightarrow> org_context \<Rightarrow> uuid option \<Rightarrow> uuid option \<Rightarrow> string option \<Rightarrow> fleet_db \<Rightarrow> browser_row list" where
  "list_browser_sessions tie cx project pool state db =
     sort_key (\<lambda>s. - bs_created_at s) (sort_key tie (filter (\<lambda>s. bs_organization_id s = oc_organization_id cx
       \<and> (project = None \<or> bs_project_id s = project) \<and> (pool = None \<or> pool = Some (bs_pool_id s))
       \<and> (state = None \<or> state = Some (bs_state s))) (fl_sessions db)))"

section \<open>Rows with an operation and an event\<close>

text \<open>
  The event type is validated before the first query of the append; that query flushes the row and the
  operation, and the constraints of their tables are checked.
\<close>

definition on_error :: "('a \<Rightarrow> 'b) \<Rightarrow> 'a + 'c \<Rightarrow> 'b + 'c" where
  "on_error f r = (case r of Inl e \<Rightarrow> Inl (f e) | Inr x \<Rightarrow> Inr x)"

type_synonym signer = "string \<Rightarrow> json \<Rightarrow> string"

definition flush_then ::
  "event_type_registry \<Rightarrow> string \<Rightarrow> (fleet_db \<Rightarrow> fleet_error + fleet_db) \<Rightarrow> (fleet_db \<Rightarrow> prov_error + uuid \<times> fleet_db)
   \<Rightarrow> fleet_db \<Rightarrow> fleet_error + fleet_db" where
  "flush_then reg event_type write emit db =
     rbind (on_error EventFailed (validate_event_type reg event_type)) (\<lambda>_.
     rbind (write db) (\<lambda>db1. on_error EventFailed (map_sum id snd (emit db1))))"

definition entity_event :: "org_context \<Rightarrow> string \<Rightarrow> json \<Rightarrow> uuid \<Rightarrow> string \<Rightarrow> uuid \<Rightarrow> append_args" where
  "entity_event cx event_type payload operation entity_type entity =
     \<lparr> aa_event_type = event_type, aa_payload = payload, aa_actor_id = Some (oc_actor_id cx), aa_severity = None,
       aa_correlation_id = None, aa_operation_id = Some operation, aa_entity_type = Some entity_type,
       aa_entity_id = Some entity \<rparr>"

section \<open>Compute runtimes\<close>

definition record_runtime_op ::
  "org_context \<Rightarrow> uuid \<Rightarrow> datetime \<Rightarrow> string \<Rightarrow> string option \<Rightarrow> string option \<Rightarrow> 'z operation_db_scheme
   \<Rightarrow> fleet_error + 'z operation_db_scheme" where
  "record_runtime_op cx i now operation from_state to_state db =
     add_operation cx i now operation ''api'' None None from_state to_state None db"

text \<open>\<open>projects\<close>: the identifiers of the projects table.\<close>

definition project_known :: "uuid set \<Rightarrow> uuid option \<Rightarrow> bool" where
  "project_known projects p = (case p of None \<Rightarrow> True | Some i \<Rightarrow> i \<in> projects)"

definition register_provider ::
  "event_type_registry \<Rightarrow> signer \<Rightarrow> uuid set \<Rightarrow> org_context \<Rightarrow> change_ids \<Rightarrow> append_ids \<Rightarrow> datetime \<Rightarrow> uuid option \<Rightarrow> string
   \<Rightarrow> string \<Rightarrow> json \<Rightarrow> fleet_db \<Rightarrow> fleet_error + runtime_row \<times> fleet_db" where
  "register_provider reg sign projects cx ids aids now project name provider config db =
     (let org = oc_organization_id cx;
          r = \<lparr> rt_id = ci_row ids, rt_organization_id = org, rt_project_id = project, rt_name = name,
            rt_provider = provider, rt_config = config, rt_state = ''active'', rt_created_at = now \<rparr>;
          write = (\<lambda>db.
            if list_ex (\<lambda>q. rt_id q = ci_row ids \<or> rt_organization_id q = org \<and> rt_name q = name) (fl_runtimes db)
              \<or> \<not> project_known projects project
            then Inl RowRefused
            else record_runtime_op cx (ci_operation ids) now ''register_provider'' None None
              (db\<lparr> fl_runtimes := fl_runtimes db @ [r] \<rparr>))
      in rbind (flush_then reg ''compute_runtime.created'' write
           (append_event reg sign cx aids now (entity_event cx ''compute_runtime.created''
             [(''runtime_id'', PStr (uuid_str (ci_row ids))), (''provider'', PStr provider)]
             (ci_operation ids) ''runtime_provider'' (ci_row ids))) db) (\<lambda>db'. Inr (r, db')))"

definition list_providers :: "(runtime_row \<Rightarrow> nat) \<Rightarrow> org_context \<Rightarrow> uuid option \<Rightarrow> fleet_db \<Rightarrow> runtime_row list" where
  "list_providers tie cx project db =
     sort_key tie (filter (\<lambda>r. rt_organization_id r = oc_organization_id cx \<and> (project = None \<or> rt_project_id r = project))
       (fl_runtimes db))"

definition NODE_STATES :: "string list" where
  "NODE_STATES = [''provisioning'', ''ready'', ''busy'', ''offline'', ''terminated'']"

definition provision_node ::
  "event_type_registry \<Rightarrow> signer \<Rightarrow> org_context \<Rightarrow> change_ids \<Rightarrow> append_ids \<Rightarrow> datetime \<Rightarrow> uuid \<Rightarrow> json \<Rightarrow> fleet_db
   \<Rightarrow> fleet_error + node_row \<times> fleet_db" where
  "provision_node reg sign cx ids aids now runtime spec db =
     (case find (\<lambda>r. rt_id r = runtime \<and> rt_organization_id r = oc_organization_id cx) (fl_runtimes db) of
        None \<Rightarrow> Inl (RuntimeNotFound runtime)
      | Some r \<Rightarrow>
          let n = \<lparr> nd_id = ci_row ids, nd_organization_id = oc_organization_id cx, nd_project_id = rt_project_id r,
                nd_runtime_id = runtime, nd_hostname = ''node-'' @ take 8 (uuid_str (ci_row ids)), nd_metadata = spec,
                nd_state = ''provisioning'', nd_created_at = now \<rparr>;
              write = (\<lambda>db.
                if ci_row ids \<in> nd_id ` set (fl_nodes db) then Inl RowRefused
                else record_runtime_op cx (ci_operation ids) now ''provision_node'' None (Some ''provisioning'')
                  (db\<lparr> fl_nodes := fl_nodes db @ [n] \<rparr>))
          in rbind (flush_then reg ''state_change'' write
               (append_state_change reg sign cx aids now (oc_actor_id cx) ''none'' ''provisioning'' (ci_operation ids) ''api''
                 ''runtime_node'' None) db) (\<lambda>db'. Inr (n, db')))"

definition list_nodes ::
  "(node_row \<Rightarrow> nat) \<Rightarrow> org_context \<Rightarrow> uuid option \<Rightarrow> uuid \<Rightarrow> string option \<Rightarrow> fleet_db \<Rightarrow> node_row list" where
  "list_nodes tie cx project runtime state db =
     sort_key tie (filter (\<lambda>n. nd_organization_id n = oc_organization_id cx \<and> nd_runtime_id n = runtime
       \<and> (project = None \<or> nd_project_id n = project) \<and> (state = None \<or> state = Some (nd_state n))) (fl_nodes db))"

definition find_runtime_node :: "org_context \<Rightarrow> uuid \<Rightarrow> fleet_db \<Rightarrow> node_row option" where
  "find_runtime_node cx i db = find (\<lambda>n. nd_organization_id n = oc_organization_id cx \<and> nd_id n = i) (fl_nodes db)"

definition terminate_node ::
  "event_type_registry \<Rightarrow> signer \<Rightarrow> org_context \<Rightarrow> change_ids \<Rightarrow> append_ids \<Rightarrow> datetime \<Rightarrow> uuid \<Rightarrow> fleet_db
   \<Rightarrow> fleet_error + fleet_db" where
  "terminate_node reg sign cx ids aids now i db =
     (case find_runtime_node cx i db of
        None \<Rightarrow> Inl (NodeNotFound i)
      | Some n \<Rightarrow>
          flush_then reg ''state_change''
            (\<lambda>db. record_runtime_op cx (ci_operation ids) now ''terminate_node'' (Some (nd_state n)) (Some ''terminated'')
               (db\<lparr> fl_nodes := update_where (\<lambda>m. nd_id m = i) (nd_state_update (\<lambda>_. ''terminated'')) (fl_nodes db) \<rparr>))
            (append_state_change reg sign cx aids now (oc_actor_id cx) (nd_state n) ''terminated'' (ci_operation ids) ''api''
              ''runtime_node'' None) db)"

record node_health =
  nh_node_id :: uuid
  nh_status :: string
  nh_last_heartbeat :: "datetime option"

definition get_node_health :: "org_context \<Rightarrow> datetime \<Rightarrow> uuid \<Rightarrow> fleet_db \<Rightarrow> fleet_error + node_health" where
  "get_node_health cx now i db =
     (case find_runtime_node cx i db of
        None \<Rightarrow> Inl (NodeNotFound i)
      | Some n \<Rightarrow> Inr \<lparr> nh_node_id = nd_id n, nh_status = (if nd_state n = ''running'' then ''healthy'' else ''unknown''),
          nh_last_heartbeat = (if nd_state n = ''running'' then Some now else None) \<rparr>)"

section \<open>Mesh networks\<close>

definition record_mesh_op ::
  "org_context \<Rightarrow> uuid \<Rightarrow> datetime \<Rightarrow> string \<Rightarrow> 'z operation_db_scheme \<Rightarrow> fleet_error + 'z operation_db_scheme" where
  "record_mesh_op cx i now operation db = add_operation cx i now operation ''user_command'' None None None None None db"

definition create_network ::
  "event_type_registry \<Rightarrow> signer \<Rightarrow> uuid set \<Rightarrow> org_context \<Rightarrow> change_ids \<Rightarrow> append_ids \<Rightarrow> datetime \<Rightarrow> uuid option \<Rightarrow> string
   \<Rightarrow> string \<Rightarrow> json \<Rightarrow> fleet_db \<Rightarrow> fleet_error + network_row \<times> fleet_db" where
  "create_network reg sign projects cx ids aids now project name network_type config db =
     (let org = oc_organization_id cx;
          r = \<lparr> nw_id = ci_row ids, nw_organization_id = org, nw_project_id = project, nw_name = name,
            nw_network_type = network_type, nw_config = config, nw_state = ''configuring'', nw_created_at = now \<rparr>;
          write = (\<lambda>db.
            if list_ex (\<lambda>q. nw_id q = ci_row ids \<or> nw_organization_id q = org \<and> nw_name q = name) (fl_networks db)
              \<or> \<not> project_known projects project
            then Inl RowRefused
            else record_mesh_op cx (ci_operation ids) now ''create_network'' (db\<lparr> fl_networks := fl_networks db @ [r] \<rparr>))
      in rbind (flush_then reg ''mesh_network.created'' write
           (append_event reg sign cx aids now (entity_event cx ''mesh_network.created''
             [(''network_id'', PStr (uuid_str (ci_row ids))), (''network_type'', PStr network_type)]
             (ci_operation ids) ''mesh_network'' (ci_row ids))) db) (\<lambda>db'. Inr (r, db')))"

definition find_network :: "org_context \<Rightarrow> uuid \<Rightarrow> fleet_db \<Rightarrow> network_row option" where
  "find_network cx i db = find (\<lambda>n. nw_id n = i \<and> nw_organization_id n = oc_organization_id cx) (fl_networks db)"

text \<open>Nothing asks whether the node is a member already.\<close>

definition add_mesh_node ::
  "event_type_registry \<Rightarrow> signer \<Rightarrow> org_context \<Rightarrow> change_ids \<Rightarrow> append_ids \<Rightarrow> datetime \<Rightarrow> uuid \<Rightarrow> uuid \<Rightarrow> string
   \<Rightarrow> string option \<Rightarrow> fleet_db \<Rightarrow> fleet_error + fleet_db" where
  "add_mesh_node reg sign cx ids aids now network node address runtime_type db =
     (case find_network cx network db of
        None \<Rightarrow> Inl (NetworkNotFound network)
      | Some nw \<Rightarrow>
          flush_then reg ''mesh_network.node_added''
            (\<lambda>db. if ci_row ids \<in> me_id ` set (fl_mesh db) then Inl RowRefused
               else record_mesh_op cx (ci_operation ids) now ''add_node''
                 (db\<lparr> fl_mesh := fl_mesh db @ [\<lparr> me_id = ci_row ids, me_organization_id = oc_organization_id cx,
                    me_project_id = nw_project_id nw, me_network_id = network, me_node_id = node, me_address = address,
                    me_runtime_type = runtime_type, me_created_at = now \<rparr>] \<rparr>))
            (append_event reg sign cx aids now (entity_event cx ''mesh_network.node_added''
              [(''network_id'', PStr (uuid_str network)), (''node_id'', PStr (uuid_str node)), (''address'', PStr address)]
              (ci_operation ids) ''mesh_node'' (ci_row ids))) db)"

definition member_rows :: "org_context \<Rightarrow> uuid \<Rightarrow> uuid \<Rightarrow> fleet_db \<Rightarrow> mesh_row list" where
  "member_rows cx network node db =
     filter (\<lambda>m. me_organization_id m = oc_organization_id cx \<and> me_network_id m = network \<and> me_node_id m = node) (fl_mesh db)"

text \<open>One row of the node is deleted, the first that the query returns.\<close>

definition remove_mesh_node ::
  "event_type_registry \<Rightarrow> signer \<Rightarrow> (mesh_row \<Rightarrow> nat) \<Rightarrow> org_context \<Rightarrow> change_ids \<Rightarrow> append_ids \<Rightarrow> datetime \<Rightarrow> uuid \<Rightarrow> uuid
   \<Rightarrow> fleet_db \<Rightarrow> fleet_error + fleet_db" where
  "remove_mesh_node reg sign tie cx ids aids now network node db =
     (case sort_key tie (member_rows cx network node db) of
        [] \<Rightarrow> Inl (MeshNodeNotFound network node)
      | row # _ \<Rightarrow>
          flush_then reg ''mesh_network.node_removed''
            (\<lambda>db. record_mesh_op cx (ci_operation ids) now ''remove_node''
               (db\<lparr> fl_mesh := filter (\<lambda>m. me_id m \<noteq> me_id row) (fl_mesh db) \<rparr>))
            (append_event reg sign cx aids now (entity_event cx ''mesh_network.node_removed''
              [(''network_id'', PStr (uuid_str network)), (''node_id'', PStr (uuid_str node))]
              (ci_operation ids) ''mesh_node'' (me_id row))) db)"

definition list_networks :: "(network_row \<Rightarrow> nat) \<Rightarrow> org_context \<Rightarrow> uuid option \<Rightarrow> fleet_db \<Rightarrow> network_row list" where
  "list_networks tie cx project db =
     sort_key tie (filter (\<lambda>n. nw_organization_id n = oc_organization_id cx \<and> (project = None \<or> nw_project_id n = project))
       (fl_networks db))"

section \<open>Hosts\<close>

text \<open>The widths of the columns.\<close>

definition host_fits :: "exit_host \<Rightarrow> bool" where
  "host_fits h \<longleftrightarrow> length (eh_name h) \<le> 120 \<and> length (eh_ssh_user h) \<le> 60 \<and> length (eh_ssh_host h) \<le> 120
     \<and> length (eh_scripts_dir h) \<le> 200 \<and> length (eh_parent_iface h) \<le> 30 \<and> length (eh_username h) \<le> 200
     \<and> length (eh_password h) \<le> 200 \<and> length (eh_mac_oui h) \<le> 20 \<and> length (eh_state h) \<le> 20
     \<and> (case eh_ts_ip h of None \<Rightarrow> True | Some ip \<Rightarrow> length ip \<le> 45)
     \<and> int32 (eh_ssh_port h) \<and> int32 (eh_max_slots h) \<and> int32 (eh_warm_pool_target h)"

text \<open>\<open>h\<close> carries the arguments of the call; identifier, state and times are set here.\<close>

definition register_host ::
  "org_context \<Rightarrow> change_ids \<Rightarrow> datetime \<Rightarrow> exit_host \<Rightarrow> fleet_db \<Rightarrow> fleet_error + exit_host \<times> fleet_db" where
  "register_host cx ids now h db =
     (let g = fl_grid db;
          r = h\<lparr> eh_id := ci_row ids, eh_state := ''active'', eh_registered_at := now, eh_last_seen := None \<rparr>
      in if list_ex (\<lambda>q. eh_id q = ci_row ids \<or> eh_name q = eh_name h) (g_hosts g) \<or> \<not> host_fits r then Inl RowRefused
         else
           rbind (add_operation cx (ci_operation ids) now ''pppoe.host.register'' ''api'' None (Some ''success'') None None
             (Some (''Registered PPPoE host: '' @ eh_name h @ '' ('' @ eh_ssh_host h @ '')''))
             (db\<lparr> fl_grid := g\<lparr> g_hosts := g_hosts g @ [r] \<rparr> \<rparr>)) (\<lambda>db1.
           Inr (r, db1)))"

definition list_hosts :: "(exit_host \<Rightarrow> nat) \<Rightarrow> string option \<Rightarrow> grid_db \<Rightarrow> exit_host list" where
  "list_hosts tie state g = sort_key tie (filter (\<lambda>h. \<not> filled state \<or> state = Some (eh_state h)) (g_hosts g))"

definition host_by_id :: "uuid \<Rightarrow> grid_db \<Rightarrow> fleet_error + exit_host" where
  "host_by_id i g = (case find_host i g of None \<Rightarrow> Inl (ExitHostNotFound i) | Some h \<Rightarrow> Inr h)"

definition change_host :: "uuid \<Rightarrow> (exit_host \<Rightarrow> exit_host) \<Rightarrow> grid_db \<Rightarrow> fleet_error + exit_host \<times> grid_db" where
  "change_host i f g =
     rbind (host_by_id i g) (\<lambda>h.
       if \<not> host_fits (f h) then Inl RowRefused
       else Inr (f h, g\<lparr> g_hosts := update_where (\<lambda>x. eh_id x = i) f (g_hosts g) \<rparr>))"

definition update_ts_ip :: "uuid \<Rightarrow> string \<Rightarrow> grid_db \<Rightarrow> fleet_error + exit_host \<times> grid_db" where
  "update_ts_ip i ip g = change_host i (eh_ts_ip_update (\<lambda>_. Some ip)) g"

definition set_host_state :: "uuid \<Rightarrow> string \<Rightarrow> grid_db \<Rightarrow> fleet_error + exit_host \<times> grid_db" where
  "set_host_state i state g = change_host i (eh_state_update (\<lambda>_. state)) g"

text \<open>\<open>echo\<close>: the result of \<open>echo ok\<close> over SSH; None where the call itself raises.\<close>

definition ping_host ::
  "(exit_host \<Rightarrow> ssh_result option) \<Rightarrow> datetime \<Rightarrow> uuid \<Rightarrow> grid_db \<Rightarrow> fleet_error + bool \<times> grid_db" where
  "ping_host echo now i g =
     rbind (host_by_id i g) (\<lambda>h.
       case echo h of
         None \<Rightarrow> Inl PingFailed
       | Some r \<Rightarrow>
           let alive = sh_ok r \<and> sh_stdout r = ''ok'';
               f = (\<lambda>h. if alive then h\<lparr> eh_last_seen := Some now, eh_state := ''active'' \<rparr> else h\<lparr> eh_state := ''offline'' \<rparr>)
           in rbind (change_host i f g) (\<lambda>(_, g'). Inr (alive, g')))"

section \<open>What an acquisition leaves\<close>

definition serves :: "string \<Rightarrow> string \<Rightarrow> slot_record \<Rightarrow> grid_db \<Rightarrow> bool" where
  "serves worker session r g \<longleftrightarrow>
     find_node (en_host_id (lr_node r)) (en_slot (lr_node r)) g = Some (lr_node r)
     \<and> en_state (lr_node r) = ASSIGNED \<and> en_worker (lr_node r) = Some worker \<and> en_session (lr_node r) = Some session"

lemma assign_serves:
  assumes "assign_to_worker vm now h slot worker session v6 g = Inr (r, g')"
  shows "serves worker session r g'"
proof -
  let ?f = "assign_row now worker session v6"
  from assign_Inr [OF assms] obtain n where n: "find_node h slot g = Some n"
    and r: "lr_node r = ?f n" and g': "g' = set_node h slot ?f g" by blast
  have same: "at_slot h slot (?f m) = at_slot h slot m" for m by (simp add: at_slot_def assign_row_def)
  have "find_node h slot g' = Some (?f n)"
    using n find_Some_iff_mem [of "at_slot h slot" "g_nodes g" n]
    by (simp add: g' find_node_def set_node_def find_update_where same)
  moreover have "en_host_id n = h \<and> en_slot n = slot" using find_node_Some [OF n] by (simp add: slot_key_def)
  ultimately show ?thesis by (simp add: serves_def r assign_row_def)
qed

lemma serves_nodes: "g_nodes g' = g_nodes g \<Longrightarrow> serves w s r g' = serves w s r g"
  by (simp add: serves_def find_node_def)

lemma kept_serves: "kept g (assign_to_worker vm now h slot worker session v6 g) = (Inr r, g') \<Longrightarrow> serves worker session r g'"
  by (auto simp: kept_def split: sum.splits dest: assign_serves)

lemma rotate_serves:
  "rotate_bound vm now org account h slot worker session v6 g = (Some r, g') \<Longrightarrow> serves worker session r g'"
  by (auto simp: rotate_bound_def try_assign_def Let_def split: sum.splits option.splits if_splits dest: assign_serves)

lemma match_serves:
  "acquire_match vm tie now org account worker session v6 g = (Some (Inr r), g') \<Longrightarrow> serves worker session r g'"
  by (auto simp: acquire_match_def Let_def split: option.splits prod.splits dest: kept_serves)

lemma bound_serves:
  assumes "acquire_bound vm tie now org account worker session v6 g = (Some (Inr r), g')"
  shows "serves worker session r g'"
proof -
  from assms obtain b where b: "find_binding org account g = Some b"
    by (auto simp: acquire_bound_def split: option.splits)
  show ?thesis
  proof (cases "find_node (ib_host_id b) (ib_slot b) g")
    case None
    with assms b match_serves show ?thesis by (simp add: acquire_bound_def Let_def)
  next
    case (Some n)
    show ?thesis
    proof (cases "en_state n \<notin> {DESTROYED, DOWN}")
      case True
      show ?thesis
        using assms unfolding acquire_bound_def Let_def b Some option.case if_P [OF True]
        by (auto split: prod.splits dest: kept_serves)
    next
      case False
      obtain x g1 where rot: "rotate_bound vm now org account (ib_host_id b) (ib_slot b) worker session v6 g = (x, g1)"
        by fastforce
      have run: "(case (x, g1) of (Some r, g1) \<Rightarrow> (Some (Inr r), g1)
          | (None, g1) \<Rightarrow> acquire_match vm tie now org account worker session v6 g1) = (Some (Inr r), g')"
        using assms unfolding acquire_bound_def Let_def b Some option.case if_not_P [OF False] rot .
      show ?thesis
      proof (cases x)
        case None
        with run match_serves show ?thesis by simp
      next
        case (Some y)
        with run rot rotate_serves show ?thesis by simp
      qed
    qed
  qed
qed

lemma fresh_serves:
  "acquire_fresh vm tie htie locked now i preferred worker session v6 g = (Inr r, g') \<Longrightarrow> serves worker session r g'"
  by (auto simp: acquire_fresh_def split: option.splits list.splits sum.splits dest: kept_serves)

lemma bind_account_nodes: "g_nodes (bind_account now org account r g) = g_nodes g"
  by (simp add: bind_account_def Let_def split: option.split)

lemma acquire_serves:
  assumes "acquire_any vm tie htie locked now i cx session worker preferred account v6 g = (Inr r, g')"
  shows "serves worker session r g'"
proof -
  obtain sticky g1 where st: "(if filled account then acquire_bound vm tie now (oc_organization_id cx) (the account) worker session v6 g
      else (None, g)) = (sticky, g1)" by fastforce
  show ?thesis
  proof (cases sticky)
    case (Some x)
    with assms st bound_serves show ?thesis by (auto simp: acquire_any_def split: if_splits)
  next
    case None
    obtain f g2 where fr: "acquire_fresh vm tie htie locked now i preferred worker session v6 g1 = (f, g2)" by fastforce
    with assms st None have f: "f = Inr r" and same: "g_nodes g' = g_nodes g2"
      by (auto simp: acquire_any_def bind_account_nodes split: sum.splits if_splits)
    show ?thesis using fresh_serves [OF fr [unfolded f]] by (simp add: serves_nodes [OF same])
  qed
qed

section \<open>A session and its slot\<close>

lemma add_operation_keeps:
  fixes db :: fleet_db
  assumes "add_operation cx i now operation trigger scope outcome f t rationale db = Inr db'"
  shows "fl_grid db' = fl_grid db \<and> fl_sessions db' = fl_sessions db \<and> fl_pools db' = fl_pools db"
  using assms by (auto simp: add_operation_def Let_def split: if_splits)

lemma add_event_keeps:
  fixes db :: fleet_db
  assumes "add_event cx i now event_type severity operation entity_type entity payload db = Inr db'"
  shows "fl_grid db' = fl_grid db \<and> fl_sessions db' = fl_sessions db \<and> fl_pools db' = fl_pools db"
  using assms by (auto simp: add_event_def split: if_splits)

lemma insert_session_Inr:
  assumes "insert_session cx ids now s g db = Inr db'"
  shows "bs_id s \<notin> bs_id ` set (fl_sessions db) \<and> fl_sessions db' = fl_sessions db @ [s] \<and> fl_grid db' = g"
  using assms by (auto simp: insert_session_def split: if_splits dest!: add_operation_keeps add_event_keeps)

lemma link_node_find:
  assumes "serves w p r g"
  shows "find_node (en_host_id (lr_node r)) (en_slot (lr_node r)) (link_node i r g)
    = Some ((lr_node r)\<lparr> en_session := Some (uuid_str i) \<rparr>)"
  using assms by (simp add: serves_def link_node_def find_node_def find_update_where at_slot_def)

text \<open>
  C22. A session made with an exit node really holds it: the slot it names is assigned to its worker and to no
  session but itself, and its proxy and address are the slot's.
\<close>

theorem session_holds_slot:
  assumes "create_browser_session vm tie htie locked new_node cx ids now pool config db = Inr (s, db')"
    and "bs_exit_node_id s = Some e"
  shows "\<exists>h slot n. bs_host_id s = Some h \<and> bs_slot s = Some slot \<and> find_node h slot (fl_grid db') = Some n
    \<and> en_id n = e \<and> en_state n = ''assigned'' \<and> en_worker n \<noteq> None \<and> en_worker n = bs_worker_ts_ip s
    \<and> en_session n = Some (uuid_str (bs_id s)) \<and> en_proxy_url n = bs_proxy_url s \<and> en_public_ip n = bs_public_ip s
    \<and> fl_sessions db' = fl_sessions db @ [s] \<and> bs_id s \<notin> bs_id ` set (fl_sessions db)"
proof -
  from assms(1) obtain p where p: "find_pool (oc_organization_id cx) pool db = Some p"
    by (cases "find_pool (oc_organization_id cx) pool db") (simp_all add: create_browser_session_def)
  from assms(1) [unfolded create_browser_session_def p option.case rbind_eq_Inr]
  obtain acquired g where ac: "acquire_exit vm tie htie locked new_node cx now config (fl_grid db) = Inr (acquired, g)"
    and rest: "(let s = browser_session_row cx (ci_row ids) now p config acquired
      in rbind (insert_session cx ids now s (case acquired of None \<Rightarrow> g | Some r \<Rightarrow> link_node (ci_row ids) r g) db)
           (\<lambda>db'. Inr (s, db'))) = Inr (s, db')"
    by auto
  then have s: "s = browser_session_row cx (ci_row ids) now p config acquired"
    and ins: "insert_session cx ids now s (case acquired of None \<Rightarrow> g | Some r \<Rightarrow> link_node (ci_row ids) r g) db = Inr db'"
    unfolding Let_def rbind_eq_Inr by auto
  from assms(2) obtain r where r: "acquired = Some r" "e = en_id (lr_node r)" by (auto simp: s browser_session_row_def)
  with ac obtain w where w: "config_text ''worker_ts_ip'' config = Some w"
    and any: "acquire_any vm tie htie locked now new_node cx ''pending'' w None (config_text ''google_account'' config) None
      (fl_grid db) = (Inr r, g)"
    by (auto simp: acquire_exit_def split: option.splits prod.splits sum.splits if_splits)
  note sv = acquire_serves [OF any]
  have "fl_grid db' = link_node (ci_row ids) r g" using insert_session_Inr [OF ins] r by simp
  with link_node_find [OF sv] insert_session_Inr [OF ins] sv r w show ?thesis
    by (auto simp: s browser_session_row_def serves_def)
qed

definition FLEET0 :: fleet_db where
  "FLEET0 = \<lparr> od_actors = [\<lparr> ac_id = 2, ac_organization_id = 3, ac_state = ''active'', ac_lifecycle_phase = ''operating'',
       ac_updated_at = None \<rparr>], od_operations = [], pv_events = [], pv_subscriptions = [], pv_meters = [], pv_quotas = [],
     fl_pools = [\<lparr> po_id = 21, po_organization_id = 3, po_project_id = None, po_name = ''p'', po_engine_type = ''chromium'',
       po_max_instances = 10, po_stealth_config = [], po_state = ''active'', po_created_at = 0, po_updated_at = None \<rparr>],
     fl_sessions = [], fl_runtimes = [], fl_nodes = [], fl_networks = [], fl_mesh = [], fl_grid = GRID0 \<rparr>"

definition FLEET_MADE :: "fleet_error + browser_row \<times> fleet_db" where
  "FLEET_MADE = create_browser_session VM_UP (\<lambda>_. 0) (\<lambda>_. 0) {} 31 GRID_CX \<lparr> ci_row = 41, ci_operation = 42, ci_event = 43 \<rparr> 5 21
     (Some [(''worker_ts_ip'', PStr ''w1'')]) FLEET0"

lemma FLEET_eval:
  "(case FLEET_MADE of Inl _ \<Rightarrow> None | Inr (s, _) \<Rightarrow> Some (bs_exit_node_id s, bs_host_id s, bs_slot s)) = Some (Some 31, Some 1, Some 0)"
  by code_simp

theorem session_holds_slot_witness:
  "\<exists>s db' n. FLEET_MADE = Inr (s, db') \<and> find_node 1 0 (fl_grid db') = Some n \<and> en_id n = 31
     \<and> en_state n = ''assigned'' \<and> en_session n = Some (uuid_str (bs_id s))"
proof -
  obtain s db' where made: "FLEET_MADE = Inr (s, db')" "bs_exit_node_id s = Some 31" "bs_host_id s = Some 1" "bs_slot s = Some 0"
    using FLEET_eval by (auto split: sum.splits)
  from session_holds_slot [OF made(1) [unfolded FLEET_MADE_def] made(2)] made show ?thesis by auto
qed

text \<open>
  A failure to get an exit node is meant to leave the session without one. Here the pool is empty and a slot is
  to be made on demand: the refused row takes the whole call with it.
\<close>

lemma session_lost_with_slot:
  "(case create_browser_session VM_UP (\<lambda>_. 0) (\<lambda>_. 0) {} 31 GRID_CX \<lparr> ci_row = 41, ci_operation = 42, ci_event = 43 \<rparr> 5 21
     (Some [(''worker_ts_ip'', PStr ''w1'')]) (FLEET0\<lparr> fl_grid := GRID0\<lparr> g_nodes := [] \<rparr> \<rparr>) of
      Inl e \<Rightarrow> e = RowRefused | Inr _ \<Rightarrow> False)"
  by code_simp

section \<open>What the tables refuse\<close>

lemma add_operation_refused:
  "trigger \<notin> {''user_command'', ''schedule'', ''auto'', ''error'', ''system''} \<Longrightarrow>
     add_operation cx i now operation trigger scope outcome f t rationale db = Inl RowRefused"
  by (simp add: add_operation_def operation_allowed_def operation_of_args_def Let_def)

text \<open>The trigger of a verification is not one the operations table allows: no session is ever verified.\<close>

lemma verify_always_refused: "\<exists>e. verify_session probe cx ids now i db = Inl e"
  by (auto simp: verify_session_def add_operation_refused split: option.split)

text \<open>The severity of the event of a deletion is not one the events table allows: no pool is ever deleted.\<close>

lemma destroy_pool_refused:
  assumes "find_pool (oc_organization_id cx) i db = Some p"
  shows "destroy_pool cx ids now i db = Inl RowRefused"
proof (cases "destroy_pool cx ids now i db")
  case (Inl e)
  with assms show ?thesis
    by (auto simp: destroy_pool_def add_event_def SEVERITIES_def rbind_eq_Inl add_operation_def Let_def split: if_splits)
next
  case (Inr x)
  with assms show ?thesis by (simp add: destroy_pool_def add_event_def SEVERITIES_def)
qed

text \<open>No compute runtime and no host is ever registered, and no node provisioned or terminated: their trigger is \<open>api\<close>.\<close>

lemma runtime_op_refused: "record_runtime_op cx i now operation f t db = Inl RowRefused"
  by (simp add: record_runtime_op_def add_operation_refused)

lemma compute_always_refused:
  "\<exists>e. register_provider reg sign projects cx ids aids now project name provider config db = Inl e"
  "\<exists>e. provision_node reg sign cx ids aids now runtime spec db = Inl e"
  "\<exists>e. terminate_node reg sign cx ids aids now i db = Inl e"
  by (auto simp: register_provider_def provision_node_def terminate_node_def flush_then_def runtime_op_refused
      rbind_eq_Inl on_error_def Let_def split: option.split sum.split)

lemma register_host_refused: "register_host cx ids now h db = Inl RowRefused"
  by (simp add: register_host_def Let_def add_operation_refused)

text \<open>The state that counts as healthy is not one that the nodes table allows.\<close>

lemma node_never_healthy:
  assumes "list_all (\<lambda>n. nd_state n \<in> set NODE_STATES) (fl_nodes db)" and "get_node_health cx now i db = Inr h"
  shows "nh_status h = ''unknown'' \<and> nh_last_heartbeat h = None"
proof -
  from assms(2) obtain n where n: "find_runtime_node cx i db = Some n"
    and h: "h = \<lparr> nh_node_id = nd_id n, nh_status = (if nd_state n = ''running'' then ''healthy'' else ''unknown''),
          nh_last_heartbeat = (if nd_state n = ''running'' then Some now else None) \<rparr>"
    by (auto simp: get_node_health_def split: option.splits)
  from n have "n \<in> set (fl_nodes db)" unfolding find_runtime_node_def by (drule_tac find_Some_iff_mem) blast
  with assms(1) have "nd_state n \<noteq> ''running''" by (auto simp: list_all_iff NODE_STATES_def)
  with h show ?thesis by simp
qed

section \<open>Terminating a session\<close>

lemma release_makes_idle:
  assumes "release_from_worker vm h slot g = Inr (r, g')"
  shows "\<exists>n. find_node h slot g' = Some n \<and> en_state n = ''idle'' \<and> en_worker n = None \<and> en_session n = None"
proof -
  let ?f = "\<lambda>n. (unassign n)\<lparr> en_state := IDLE \<rparr>"
  from assms obtain n where n: "find_node h slot g = Some n" and g': "g' = set_node h slot ?f g"
    by (auto simp: release_from_worker_def get_node_def Let_def split: option.splits if_splits)
  have "find_node h slot g' = Some (?f n)"
    using n find_Some_iff_mem [of "at_slot h slot" "g_nodes g" n]
    by (simp add: g' find_node_def set_node_def find_update_where at_slot_def unassign_def)
  then show ?thesis by (simp add: unassign_def)
qed

text \<open>
  A termination releases the slot the session was made with, whoever has it by then and however often the
  session was terminated before: the browser of another session loses its route while its row stays active.
\<close>

lemma terminate_frees_other:
  assumes "find_browser_session (oc_organization_id cx) i db = Some s" and "bs_host_id s = Some h" and "bs_slot s = Some slot"
    and "s2 \<in> set (fl_sessions db)" and "bs_id s2 \<noteq> i" and "bs_state s2 = ''active''"
    and "find_node h slot (fl_grid db) = Some n" and "en_session n = Some (uuid_str (bs_id s2))"
    and "release_from_worker vm h slot (fl_grid db) = Inr (r, g)"
    and "terminate_session vm cx ids now i db = Inr db'"
  shows "s2 \<in> set (fl_sessions db') \<and> (\<exists>m. find_node h slot (fl_grid db') = Some m \<and> en_state m = ''idle'' \<and> en_session m = None)"
proof -
  have keep: "fl_grid db' = g \<and> fl_sessions db' = update_where (\<lambda>s. bs_id s = i)
      (\<lambda>s. s\<lparr> bs_state := ''terminated'', bs_updated_at := Some now \<rparr>) (fl_sessions db)"
    using assms(10) unfolding terminate_session_def assms(1) option.case Let_def assms(2,3) prod.case
    by (auto simp: done_or_def assms(9) dest!: add_operation_keeps add_event_keeps)
  then have "s2 \<in> set (fl_sessions db')" using assms(4,5) by (force simp: set_update_where)
  with keep release_makes_idle [OF assms(9)] show ?thesis by auto
qed

end
