(* ===== verification/Spec2Isabelle.thy ===== *)
theory Spec2Isabelle
  imports Lifecycle Registries Hierarchy Authz Tenancy Delegation Sharing Operations Provenance
    Workers Cron WorkflowDag Filters Triggers Tasks Tokens Coordination Runs
    Breaker MemoryGraph Consensus BranchVars Executor Execution Locators Slots
    Sessions Profiles Plugins Documents Resources Governance ExitNodes Fleet
begin

text \<open>
  A model of the domain and service core of XIOSYNC, the multi-tenant control plane of
  \<^verbatim>\<open>src/xiosync\<close>, with the theorems that make it correct.

  \<^bold>\<open>The program.\<close> Organizations own actors, operations, workflows, triggers and workers. Every
  request carries a validated \<open>OrgContext\<close> (\<^verbatim>\<open>domain/context.py\<close>). A call is first decided by
  \<open>authorize\<close> (\<^verbatim>\<open>domain/authorization.py\<close>), a fail-closed pipeline over the grants of the actor, the
  constraint evaluators, the rate checker and, for a resource of another organization, the share
  checker; the service (\<^verbatim>\<open>services/authorization.py\<close>) loads its inputs and records the decision.
  Grants and shares form delegation forests that are revoked by recursive queries. State changes of
  an actor run through \<^verbatim>\<open>services/lifecycle.py\<close>, which checks the transition tables of
  \<^verbatim>\<open>domain/lifecycle.py\<close>, records an operation (\<^verbatim>\<open>services/operations.py\<close>) and appends an event
  (\<^verbatim>\<open>services/events.py\<close>), itself subject to a quota, metered and dispatched to webhooks. Workers
  enroll, are approved and receive credentials (\<^verbatim>\<open>services/workers.py\<close>). Workflow templates are
  validated as graphs (\<^verbatim>\<open>domain/workflows.py\<close>) and started by cron tickers and by the event router
  (\<^verbatim>\<open>worker/ticker.py\<close>, \<^verbatim>\<open>worker/event_router.py\<close>); their runs are claimed, completed and reaped by
  dispatchers, remote workers, the reaper and the orchestrator over tables whose triggers guard the states
  (\<^verbatim>\<open>worker\<close>, \<^verbatim>\<open>subsystems/xioflow\<close>). Tasks are leased and completed by workers
  (\<^verbatim>\<open>services/workflows.py\<close>) that carry signed credentials (\<^verbatim>\<open>platform/task_credentials.py\<close>), and goals
  are split among agents by the coordinator (\<^verbatim>\<open>subsystems/xioflow/engine/coordinator.py\<close>). A workflow run
  that is a graph is built from the memory graph, a table of recorded actions that votes move between
  tiers, into a tree, which the executor walks behind a circuit breaker, finding page elements by a
  cascade of locators (\<^verbatim>\<open>subsystems/xioflow/memory\<close>, \<^verbatim>\<open>subsystems/xioflow/engine\<close>). Beside these stand
  the identities and their sessions, sandboxed plugins, documents, projects with their secrets and
  artifacts, metering, and the grid of browsers and of residential exit slots that workers hold
  (\<^verbatim>\<open>services\<close>, \<^verbatim>\<open>subsystems/xiogrid\<close>).

  \<^bold>\<open>Theories and sources.\<close> Paths are under \<^verbatim>\<open>src/xiosync\<close>.
  \<^item> \<open>Prelude\<close>: identifiers, times, Python values and strings, results of code that may raise, tables
    as lists of rows with \<open>update_where\<close> and \<open>find\<close>, and the locale \<open>component\<close>: a step function with an
    invariant that it preserves, and what a run (a fold of steps) inherits from it.
    \<open>evolving_component\<close> adds a preorder that every step follows,
    \<open>monotone_component\<close> a growing observation.
  \<^item> \<open>Lifecycle\<close>: the five transition tables, \<open>is_valid_transition\<close>, \<open>assert_transition\<close> and the actor
    phases. Locales \<open>closed_machine\<close> and \<open>ranked_machine\<close>, interpreted on the five tables.
  \<^item> \<open>Registries\<close>: the event-type, lifecycle-state and trigger-type registries and the closed
    vocabularies. Locale \<open>type_registry\<close>, interpreted on the three registries.
  \<^item> \<open>Hierarchy\<close>: the walk up the operation hierarchy with its depth
    (\<^verbatim>\<open>domain/operations.py\<close>) and the depth-first edge check (\<^verbatim>\<open>domain/ontology.py\<close>).
  \<^item> \<open>Authz\<close>: constraint evaluators, share permissions, \<open>authorize\<close>, and the rate checkers of
    \<^verbatim>\<open>core/rate_limit.py\<close> and \<^verbatim>\<open>core/capability_rate.py\<close>.
  \<^item> \<open>Tenancy\<close>: the request context and its construction.
  \<^item> \<open>Delegation\<close> and \<open>Sharing\<close>: the services of grants and shares over their tables, creation,
    cascading revocation, listing, the decision with its audit event, and the share checker.
  \<^item> \<open>Operations\<close>: the operation table and its service; \<open>Provenance\<close> extends its record with the event,
    subscription and usage tables and models event append and \<open>transition_actor\<close>.
  \<^item> \<open>Workers\<close>: trust tiers, versioned capabilities, enrollments and credentials.
  \<^item> \<open>Cron\<close>: validation, expansion and search of cron expressions; \<open>Filters\<close>: filter expressions of event
    triggers; \<open>WorkflowDag\<close>: topological sort, validation and input resolution of workflow specifications;
    \<open>Triggers\<close>: the trigger service, the cron ticker and the event router.
  \<^item> \<open>Tasks\<close>: the workflow service, its task leases and dead letters; \<open>Tokens\<close>: access tokens, task
    credentials and the lease endpoint; \<open>Coordination\<close>: the multi-agent coordinator; \<open>Runs\<close>: the run
    tables with their triggers, every operation that moves a run, the template service and the part of
    the retention cleanup that removes runs.
  \<^item> The engine of \<^verbatim>\<open>subsystems/xioflow\<close>: \<open>Breaker\<close>, the circuit breaker; \<open>MemoryGraph\<close>, the recorded
    actions, their lookup and the traversal into a tree; \<open>Consensus\<close>, votes and tiers; \<open>BranchVars\<close>, the
    variables of parallel branches over a store of dicts; \<open>Executor\<close>, the walk with every action type and
    the edge conditions, and \<open>Execution\<close>, its properties; \<open>Locators\<close>, the viewport fallback and the
    locator cascade; \<open>Slots\<close>, browser slots and session locks.
  \<^item> \<open>Sessions\<close>: the identity repository (\<^verbatim>\<open>persistence/identity.py\<close>) and the session service, login,
    lockout, refresh, revocation and validation (\<^verbatim>\<open>services/identity.py\<close>); \<open>Profiles\<close>: browser profiles, the
    merge and the health of their cookies, and the resolution of their proxies
    (\<^verbatim>\<open>domain/profile_identity.py\<close>, \<^verbatim>\<open>domain/cookie_health.py\<close>, \<^verbatim>\<open>domain/workflow_network.py\<close>); \<open>Plugins\<close>:
    plugin manifests, their approval and their sandbox (\<^verbatim>\<open>domain/plugins.py\<close>, \<^verbatim>\<open>services/plugins.py\<close>).
  \<^item> \<open>Documents\<close>: collections, pages, index and full text (\<^verbatim>\<open>services/documents.py\<close>); \<open>Resources\<close>: projects,
    secrets, artifacts, capabilities and branding, which extend the record of \<open>Provenance\<close>; \<open>Governance\<close>:
    quotas and metering (\<^verbatim>\<open>services/quotas.py\<close>, \<^verbatim>\<open>services/metering.py\<close>).
  \<^item> \<open>ExitNodes\<close>: slots, hosts, account bindings, the health and warm-pool tickers and the mass teardown
    (\<^verbatim>\<open>xiogrid/services/pppoe_nodes.py\<close>, \<^verbatim>\<open>worker/pppoe_health.py\<close>, \<^verbatim>\<open>worker/pppoe_warmpool.py\<close>); \<open>Fleet\<close>:
    browser pools and sessions, compute runtimes, mesh networks and hosts (\<^verbatim>\<open>xiogrid/services\<close>).

  \<^bold>\<open>Correspondence.\<close> A definition has the name of the function or method it translates; a class is a
  record whose fields carry a prefix of the class; a table is a list of rows in insertion order, a query
  the list function it denotes, and a constraint of the schema an \<open>IntegrityError\<close> branch. A raise is the
  left injection of a sum (or None where the caller only asks whether there was one) and carries no
  state, since the session's transaction is rolled back. Each call is one step, so the histories are of
  calls one at a time; where a property is about races, reading and guarded writing are separate steps:
  cron tickers (\<open>Triggers\<close>), the rotation of refresh tokens and the repository of sessions (\<open>Sessions\<close>),
  claims of runs under row locks (\<open>Runs\<close>), the writes of parallel branches (\<open>BranchVars\<close>). Calls that read
  and then write without a guard lose updates when they overlap; the lemmas
  \<open>interleaved_leases_complete_twice\<close>, \<open>concurrent_failures_count_once\<close> and \<open>overlapping_usage_lost\<close> say so.
  The schema is the one the migrations leave, which is not always that of the ORM classes, and
  statements run as the superuser that docker-compose configures, which row security does not bind.

  \<^bold>\<open>What the lemmas show.\<close>
  \<^item> Decisions: \<open>authorize\<close> is exact on every branch, confined by its constraints, and blind to grants
    that are not live; each permission of the service has its audit event; access across
    organizations rests on a live share.
  \<^item> Revocation: on every table that the creations can build the recursive queries end, and they
    revoke exactly the live subtree; what was revoked opens nothing afterwards.
  \<^item> Provenance: an actor's recorded changes replay from its initial to its present state; events are
    append-only; the hierarchy of operations stays an acyclic forest inside its organization, by the
    walk of \<open>Hierarchy\<close>, which is proved to be an exact cycle test.
  \<^item> Workers: the reachable tables keep the well-formedness of enrollments and credentials; suspension
    and revocation are final; calls of one organization leave the rows of the others alone.
  \<^item> Workflows and triggers: the sort is exact, an accepted specification only reads results of strict
    predecessors; the cron search finds the least denoted minute; concurrent tickers fire a slot once;
    the router creates exactly the runs of its query.
  \<^item> Runs and tasks: states follow the guard, end states are final, a run is claimed once and a leased
    task completed once, under the lease granted last; what the schema makes impossible (pausing,
    retrying, dispatching a script) is proved to be without effect. A coordination runs tasks after their
    dependencies and ends in an orderly state.
  \<^item> Tokens: issued tokens verify to what they were issued for until they expire; the credential of a
    lease fits its task and its worker only.
  \<^item> Sessions: a revoked session is dead in every interleaving of repository calls, a refresh token works
    once and its reuse revokes, wrong passwords lock an identity, and a login opens exactly its context.
  \<^item> Plugins and profiles: a plugin runs only after its approval and activation and is handed nothing of
    the host's environment beyond the allowed variables; a merge of cookies is exact, key by key.
  \<^item> Documents, resources and metering: the depth of a page is its level, across organizations too; the
    events of a project tell its life; metered rows add up to what was recorded.
  \<^item> Grid: no call takes an assigned slot over, a bound account keeps its slot and address, and a browser
    session holds the slot it names. No call adds a slot, because its insert lacks a mandatory column.
  \<^item> Engine: over a look-up that answers, the traversal of a memory graph is complete (the look-up of the
    mapped class never answers); without concurrent branches a walk starts nodes in tree order, its events
    are bracketed whatever raises, and its depth is bounded; branches merge as if run one after the other; the breaker opens exactly at its threshold; votes move a node one tier
    under the thresholds and keep the scores in bounds; the cascade takes the first tier that works; slots
    stay within their limits and a locked session has one holder. The lemmas under the findings show where
    the code departs from this: nested and interleaved branches, joins, silent probes, missing actions.

  \<^bold>\<open>Bounds and termination.\<close> The loops over parent pointers, edges, queues and minutes are functions with
  a termination proof (the number of unvisited nodes, of unprocessed nodes, the distance to the
  366-day bound of the source). \<open>cascade\<close> is a partial function with value None where the recursive
  query would not end; \<open>cascade_result\<close> and the properties on revocation prove that it returns on every
  table whose rows follow their parents, which the operations maintain. No fuel is used: the counter of
  \<open>plan_loop\<close> is the iteration limit of the source, which \<open>coordination_completes\<close> proves to be enough, and
  that of \<open>dispatch_loop\<close> is \<open>max_per_tick\<close>. The traversal of a memory graph and the walk of a tree recurse on
  the levels that \<open>max_depth\<close> (100) and \<open>max_execution_depth\<close> (50) leave, bounds of the source. The wait for
  an operator runs \<open>timeout div 5 + 1\<close> rounds, which reach the deadline because each sleeps five seconds.

  \<^bold>\<open>Parameters.\<close> What is not under \<^verbatim>\<open>src\<close> or not determined by it is an argument: the previous slot computed by
  \<open>croniter\<close> (\<open>prev\<close>), the Redis counter (\<open>redis\<close>), the parser of ISO timestamps (\<open>fromiso\<close>), the digest of an
  enrollment token and the identifier derived from it (\<open>sha\<close>, \<open>derive\<close>), the signature of a webhook (\<open>sign\<close>),
  the iteration order of a Python set (\<open>listing\<close>) and of a query without ORDER BY (\<open>pick\<close>, \<open>order\<close>), the
  signing and decoding of JWTs (\<open>enc\<close>, \<open>dec\<close>), the rows that other transactions lock (\<open>locked\<close>), the run of an
  agent, a script or a DAG, the requests of the executor and the answers to them (\<open>en_ext\<close>, \<open>en_fetch\<close>), the page
  of the cascade (\<open>pg_perform\<close> and the like), argon2 and SHA-256 of the session service, the process that a
  sandbox runs and the fresh directory it gets (\<open>run\<close>, \<open>mkdtemp\<close>), JSON texts (\<open>dumps\<close>, \<open>loads\<close>), the scripts
  of the exit hosts and the probes of ports (\<open>vm\<close>), the text of a Python value (\<open>repr\<close>), fresh identifiers
  and clocks.

  \<^bold>\<open>Not modelled.\<close> HTTP routing, authentication middleware and serialization; migrations beyond the
  constraints and functions that are cited; the browser, network and notebook automation (\<^verbatim>\<open>colab\<close>,
  \<^verbatim>\<open>xiorun\<close>, \<^verbatim>\<open>xioview\<close>), which drives external processes; providers of language models; stores of
  objects and external credentials (\<^verbatim>\<open>storage\<close>, \<^verbatim>\<open>vault\<close>, \<^verbatim>\<open>integrations\<close>, \<^verbatim>\<open>identities\<close>); scripts and
  tools. Several branches of a parallel node at once are in one schedule only, and the calls of the grid
  that share a session between threads (\<open>provision_batch\<close>, \<open>health_check_host\<close>) are left out.
  Floating-point rounding, the JWT that \<open>issue_credential\<close> builds and drops, what a process can read of
  its host beside its environment, and timezone databases are outside the model.

  \<^bold>\<open>Plan.\<close> Next are the identities of accounts, ontology and actor services, trace ingestion, the loop of
  the agent executor, the pure parts of the browser runtime and a step semantics of concurrent branches.
\<close>

end
